(* ===== verification/Prelude.thy ===== *)
theory Prelude
  imports Main "HOL-Library.Word"
begin

text \<open>
  Shared vocabulary of the development: the Go integer types as words, bytes and
  strings, the big-endian readers and writers of \<open>encoding/binary\<close>, the string helpers
  of \<open>strings\<close> and \<open>strconv\<close> that the components call, wall-clock times, and the
  generic list and option lemmas the component proofs share.
\<close>

section \<open>Lemma collections\<close>

named_theorems be_simps \<open>big-endian readers applied to what the writers wrote\<close>

named_theorems go_simps \<open>unfolding rules of the Go library helpers\<close>

section \<open>Go types\<close>

type_synonym byte = "8 word"

type_synonym bytes = "8 word list"

type_synonym uint16 = "16 word"

type_synonym uint32 = "32 word"

type_synonym uint64 = "64 word"

text \<open>
  A \<open>time.Time\<close> is the number of nanoseconds since the epoch and a \<open>time.Duration\<close> a
  number of nanoseconds. Components that only compare times and add small constants use
  \<open>int\<close>; \<open>time_sub\<close> is \<open>Time.Sub\<close>, which saturates at the range of an \<open>int64\<close>.
\<close>

type_synonym time = int

type_synonym duration = int

definition max_int64 :: int where
  "max_int64 = 9223372036854775807"

definition min_int64 :: int where
  "min_int64 = - 9223372036854775808"

text \<open>The zero \<open>time.Time\<close>, the start of the year 1.\<close>

definition zero_time :: time where
  "zero_time = - 62135596800000000000"

definition time_sub :: "time \<Rightarrow> time \<Rightarrow> duration" where
  "time_sub t u = max min_int64 (min max_int64 (t - u))"

text \<open>Arithmetic on a 64-bit Go \<open>int\<close> wraps around.\<close>

definition wrap64 :: "int \<Rightarrow> int" where
  "wrap64 x = (x + 9223372036854775808) mod 18446744073709551616 - 9223372036854775808"

lemma wrap64_in_range:
  "min_int64 \<le> x \<Longrightarrow> x \<le> max_int64 \<Longrightarrow> wrap64 x = x"
  by (simp add: wrap64_def min_int64_def max_int64_def)

lemma time_sub_pos_iff [simp]: "0 < time_sub t u \<longleftrightarrow> u < t"
  by (auto simp: time_sub_def max_int64_def min_int64_def)

lemma time_sub_le_iff:
  "min_int64 \<le> d \<Longrightarrow> d < max_int64 \<Longrightarrow> d < time_sub t u \<longleftrightarrow> u + d < t"
  by (auto simp: time_sub_def max_int64_def min_int64_def)

lemma time_sub_ge_iff:
  "min_int64 < d \<Longrightarrow> d \<le> max_int64 \<Longrightarrow> d \<le> time_sub t u \<longleftrightarrow> u + d \<le> t"
  by (auto simp: time_sub_def max_int64_def min_int64_def)

lemma unat_less_exp: "unat (w :: 'a::len word) < 2 ^ LENGTH('a)"
  by (rule unsigned_less)

section \<open>Bytes and strings\<close>

text \<open>\<open>[]byte(s)\<close> and \<open>string(b)\<close>: a Go string is a sequence of bytes.\<close>

definition byte_of_char :: "char \<Rightarrow> byte" where
  "byte_of_char c = word_of_nat (of_char c)"

definition char_of_byte :: "byte \<Rightarrow> char" where
  "char_of_byte b = char_of (unat b)"

definition bytes_of_string :: "string \<Rightarrow> bytes" where
  "bytes_of_string s = map byte_of_char s"

definition string_of_bytes :: "bytes \<Rightarrow> string" where
  "string_of_bytes b = map char_of_byte b"

lemma char_of_byte_of_char [simp]: "char_of_byte (byte_of_char c) = c"
proof -
  have "unat (word_of_nat (of_char c) :: byte) = of_char c mod 256"
    by (simp add: unat_of_nat)
  then show ?thesis
    by (simp add: char_of_byte_def byte_of_char_def)
qed

lemma byte_of_char_of_byte [simp]: "byte_of_char (char_of_byte b) = b"
proof -
  have "unat b < 256" using unat_less_exp [of b] by simp
  then show ?thesis
    by (simp add: char_of_byte_def byte_of_char_def)
qed

lemma string_of_bytes_of_string [simp]: "string_of_bytes (bytes_of_string s) = s"
  by (simp add: string_of_bytes_def bytes_of_string_def comp_def)

lemma bytes_of_string_of_bytes [simp]: "bytes_of_string (string_of_bytes b) = b"
  by (simp add: string_of_bytes_def bytes_of_string_def comp_def)

lemma length_bytes_of_string [simp]: "length (bytes_of_string s) = length s"
  by (simp add: bytes_of_string_def)

lemma length_string_of_bytes [simp]: "length (string_of_bytes b) = length b"
  by (simp add: string_of_bytes_def)

lemma bytes_of_string_inject [simp]: "bytes_of_string s = bytes_of_string t \<longleftrightarrow> s = t"
  by (metis string_of_bytes_of_string)

section \<open>Big-endian integers\<close>

text \<open>\<open>binary.BigEndian.PutUint16/32/64\<close> and \<open>Uint16/32/64\<close>.\<close>

definition put_uint16 :: "uint16 \<Rightarrow> bytes" where
  "put_uint16 w = [ucast (drop_bit 8 w), ucast w]"

definition put_uint32 :: "uint32 \<Rightarrow> bytes" where
  "put_uint32 w = [ucast (drop_bit 24 w), ucast (drop_bit 16 w), ucast (drop_bit 8 w), ucast w]"

definition put_uint64 :: "uint64 \<Rightarrow> bytes" where
  "put_uint64 w = put_uint32 (ucast (drop_bit 32 w)) @ put_uint32 (ucast w)"

text \<open>
  The readers take the slice the code passes them; \<open>nat_of_be\<close> is its unsigned value.
\<close>

definition nat_of_be :: "bytes \<Rightarrow> nat" where
  "nat_of_be b = foldl (\<lambda>n x. n * 256 + unat x) 0 b"

definition get_uint16 :: "bytes \<Rightarrow> uint16" where
  "get_uint16 b = word_of_nat (nat_of_be b)"

definition get_uint32 :: "bytes \<Rightarrow> uint32" where
  "get_uint32 b = word_of_nat (nat_of_be b)"

lemma length_put_uint16 [simp]: "length (put_uint16 w) = 2"
  by (simp add: put_uint16_def)

lemma length_put_uint32 [simp]: "length (put_uint32 w) = 4"
  by (simp add: put_uint32_def)

lemma length_put_uint64 [simp]: "length (put_uint64 w) = 8"
  by (simp add: put_uint64_def)

lemma unat_ucast_byte: "unat (ucast w :: byte) = unat (w :: 'a::len word) mod 256"
  by (simp add: unsigned_ucast_eq take_bit_eq_mod)

lemma unat_drop_bit_div: "unat (drop_bit n w) = unat (w :: 'a::len word) div 2 ^ n"
  by (subst unat_drop_bit_eq) (simp add: drop_bit_eq_div)

lemma nat_of_be_put_uint16: "nat_of_be (put_uint16 w) = unat w"
proof -
  have "unat w < 2 ^ 16" using unat_less_exp [of w] by simp
  then show ?thesis
    by (simp add: nat_of_be_def put_uint16_def unat_ucast_byte unat_drop_bit_div)
qed

lemma base256_digits:
  fixes n :: nat
  assumes "n < 4294967296"
  shows "(((n div 16777216 mod 256) * 256 + n div 65536 mod 256) * 256 + n div 256 mod 256) * 256
    + n mod 256 = n"
proof -
  define a b c where "a = n div 256" and "b = a div 256" and "c = b div 256"
  have eqs: "n div 65536 = b" "n div 16777216 = c" "n div 256 = a"
    by (simp_all add: a_def b_def c_def flip: div_mult2_eq)
  have "c < 256" using assms by (simp add: c_def b_def a_def)
  then have "c mod 256 * 256 + b mod 256 = b"
    by (simp add: c_def)
  moreover have "b * 256 + a mod 256 = a" "a * 256 + n mod 256 = n"
    by (simp_all add: a_def b_def)
  ultimately show ?thesis by (simp only: eqs)
qed

lemma nat_of_be_put_uint32: "nat_of_be (put_uint32 w) = unat w"
  using base256_digits [of "unat w"] unat_less_exp [of w]
  by (simp only: nat_of_be_def put_uint32_def unat_ucast_byte unat_drop_bit_div foldl.simps) simp

lemma get_put_uint16 [simp, be_simps]: "get_uint16 (put_uint16 w) = w"
  by (simp add: get_uint16_def nat_of_be_put_uint16)

lemma get_put_uint32 [simp, be_simps]: "get_uint32 (put_uint32 w) = w"
  by (simp add: get_uint32_def nat_of_be_put_uint32)

lemma put_uint16_inject: "put_uint16 v = put_uint16 w \<longleftrightarrow> v = w"
  by (metis get_put_uint16)

lemma put_uint32_inject: "put_uint32 v = put_uint32 w \<longleftrightarrow> v = w"
  by (metis get_put_uint32)

text \<open>Length prefixes below \<open>2^32\<close> are faithful.\<close>

lemma put_length_inject:
  "n < 2 ^ 32 \<Longrightarrow> m < 2 ^ 32 \<Longrightarrow> put_uint32 (of_nat n) = put_uint32 (of_nat m) \<longleftrightarrow> n = m"
  by (simp add: put_uint32_inject word_of_nat_eq_iff take_bit_nat_eq_self)

section \<open>Strings: splitting and decimal numbers\<close>

text \<open>\<open>strings.Split(s, sep)\<close> for a separator of one byte.\<close>

fun split_on :: "char \<Rightarrow> string \<Rightarrow> string list" where
  "split_on c [] = [[]]"
| "split_on c (x # xs) =
     (if x = c then [] # split_on c xs
      else (case split_on c xs of [] \<Rightarrow> [[x]] | p # ps \<Rightarrow> (x # p) # ps))"

definition is_digit :: "char \<Rightarrow> bool" where
  "is_digit c \<longleftrightarrow> 48 \<le> (of_char c :: nat) \<and> (of_char c :: nat) \<le> 57"

definition digit_val :: "char \<Rightarrow> nat" where
  "digit_val c = of_char c - 48"

definition digit_char :: "nat \<Rightarrow> char" where
  "digit_char d = char_of (48 + d)"

definition digits_value :: "string \<Rightarrow> nat" where
  "digits_value s = foldl (\<lambda>n c. n * 10 + digit_val c) 0 s"

text \<open>\<open>strconv.ParseUint(s, 10, bits)\<close> and \<open>strconv.Atoi\<close> on a 64-bit \<open>int\<close>.\<close>

definition parse_uint :: "string \<Rightarrow> nat \<Rightarrow> nat option" where
  "parse_uint s bits =
     (if s = [] \<or> \<not> list_all is_digit s then None
      else if digits_value s < 2 ^ bits then Some (digits_value s) else None)"

definition atoi :: "string \<Rightarrow> int option" where
  "atoi s =
     (case s of
        [] \<Rightarrow> None
      | c # cs \<Rightarrow>
          if c = CHR ''-'' then
            (case parse_uint cs 64 of
               None \<Rightarrow> None
             | Some n \<Rightarrow> if n > 2 ^ 63 then None else Some (- int n))
          else
            (case parse_uint (if c = CHR ''+'' then cs else s) 64 of
               None \<Rightarrow> None
             | Some n \<Rightarrow> if n \<ge> 2 ^ 63 then None else Some (int n)))"

text \<open>The \<open>%d\<close> verb of \<open>fmt\<close>.\<close>

fun show_nat :: "nat \<Rightarrow> string" where
  "show_nat n =
     (if n < 10 then [digit_char n] else show_nat (n div 10) @ [digit_char (n mod 10)])"

declare show_nat.simps [simp del]

definition show_int :: "int \<Rightarrow> string" where
  "show_int i = (if i < 0 then CHR ''-'' # show_nat (nat (- i)) else show_nat (nat i))"

lemma split_on_nonempty [simp]: "split_on c s \<noteq> []"
  by (induction s) (auto split: list.splits)

lemma split_on_no_sep: "c \<notin> set s \<Longrightarrow> split_on c s = [s]"
  by (induction s) auto

lemma split_on_append:
  "c \<notin> set s \<Longrightarrow> split_on c (s @ c # t) = s # split_on c t"
  by (induction s) auto

lemma split_on_join:
  "split_on c s = [a, b, d] \<Longrightarrow> s = a @ c # b @ c # d"
proof (induction s arbitrary: a b d)
  case Nil
  then show ?case by simp
next
  case (Cons x xs)
  have one: "split_on c ys = [p] \<Longrightarrow> ys = p" for ys p
    by (induction ys arbitrary: p) (auto split: if_splits list.splits)
  have two: "split_on c ys = [p, q] \<Longrightarrow> ys = p @ c # q" for ys p q
    by (induction ys arbitrary: p q) (auto split: if_splits list.splits dest: one)
  from Cons show ?case
    by (auto split: if_splits list.splits dest: two)
qed

lemma of_char_digit_char: "d < 10 \<Longrightarrow> (of_char (digit_char d) :: nat) = 48 + d"
  by (simp add: digit_char_def)

lemma digit_charI: "(of_char c :: nat) = 48 + d \<Longrightarrow> digit_char d = c"
  unfolding digit_char_def by (metis char_of_char)

lemma digit_char_0: "digit_char 0 = CHR ''0''"
  by (rule digit_charI) simp

lemma digit_char_numerals [go_simps]:
  "digit_char 0 = CHR ''0''" "digit_char 1 = CHR ''1''" "digit_char (Suc 0) = CHR ''1''"
  "digit_char 2 = CHR ''2''" "digit_char 3 = CHR ''3''" "digit_char 4 = CHR ''4''"
  "digit_char 5 = CHR ''5''" "digit_char 6 = CHR ''6''" "digit_char 7 = CHR ''7''"
  "digit_char 8 = CHR ''8''" "digit_char 9 = CHR ''9''"
  by (rule digit_charI; simp)+

lemmas number_eval [go_simps] =
  atoi_def parse_uint_def digits_value_def digit_val_def is_digit_def
  show_int_def show_nat.simps

lemma is_digit_digit_char [simp]: "d < 10 \<Longrightarrow> is_digit (digit_char d)"
  by (simp add: is_digit_def of_char_digit_char)

lemma digit_val_digit_char [simp]: "d < 10 \<Longrightarrow> digit_val (digit_char d) = d"
  by (simp add: digit_val_def of_char_digit_char)

lemma digit_char_digit_val: "is_digit c \<Longrightarrow> digit_char (digit_val c) = c"
  by (auto simp: is_digit_def digit_val_def digit_char_def)

lemma digit_val_less: "is_digit c \<Longrightarrow> digit_val c < 10"
  by (auto simp: is_digit_def digit_val_def)

lemma digits_value_snoc: "digits_value (s @ [c]) = digits_value s * 10 + digit_val c"
  by (simp add: digits_value_def)

lemma show_nat_nonempty [simp]: "show_nat n \<noteq> []"
  by (subst show_nat.simps) simp

lemma digits_value_show_nat [simp]: "digits_value (show_nat n) = n"
proof (induction n rule: show_nat.induct)
  case (1 n)
  then show ?case
    by (cases "n < 10") (simp_all add: show_nat.simps [of n] digits_value_snoc digits_value_def)
qed

lemma show_nat_digits [simp]: "list_all is_digit (show_nat n)"
proof (induction n rule: show_nat.induct)
  case (1 n)
  then show ?case
    by (cases "n < 10") (simp_all add: show_nat.simps [of n])
qed

lemma show_nat_canonical: "length (show_nat n) = 1 \<or> hd (show_nat n) \<noteq> CHR ''0''"
proof (induction n rule: show_nat.induct)
  case (1 n)
  show ?case
  proof (cases "n < 10")
    case True then show ?thesis by (simp add: show_nat.simps [of n])
  next
    case False
    have "n div 10 \<noteq> 0" using False by simp
    then have "hd (show_nat (n div 10)) \<noteq> CHR ''0''"
    proof (cases "n div 10 < 10")
      case True
      have "digit_char (n div 10) \<noteq> CHR ''0''"
      proof
        assume "digit_char (n div 10) = CHR ''0''"
        then have "digit_val (digit_char (n div 10)) = 0" by (simp add: digit_val_def)
        with True \<open>n div 10 \<noteq> 0\<close> show False by simp
      qed
      with True show ?thesis by (simp add: show_nat.simps [of "n div 10"])
    next
      case big: False
      then have "length (show_nat (n div 10)) \<noteq> 1" by (simp add: show_nat.simps [of "n div 10"])
      with 1 False show ?thesis by blast
    qed
    with False show ?thesis by (simp add: show_nat.simps [of n] hd_append)
  qed
qed

lemma parse_uint_show_nat [simp]: "n < 2 ^ bits \<Longrightarrow> parse_uint (show_nat n) bits = Some n"
  by (simp add: parse_uint_def)

lemma digit_not_special:
  "is_digit c \<Longrightarrow> c \<noteq> CHR ''-'' \<and> c \<noteq> CHR ''+'' \<and> c \<noteq> CHR ''.''"
  by (auto simp: is_digit_def)

lemma atoi_digits:
  assumes "list_all is_digit s" and "s \<noteq> []" and "digits_value s < 2 ^ 63"
  shows "atoi s = Some (int (digits_value s))"
proof -
  from assms(1,2) obtain c cs where s: "s = c # cs" and c: "is_digit c"
    by (cases s) auto
  with digit_not_special [OF c] assms show ?thesis
    by (auto simp: atoi_def parse_uint_def)
qed

text \<open>A decimal numeral without a superfluous leading zero is the one \<open>%d\<close> prints.\<close>

lemma show_nat_digits_value:
  assumes "list_all is_digit s" and "s \<noteq> []"
    and "length s = 1 \<or> hd s \<noteq> CHR ''0''"
  shows "show_nat (digits_value s) = s"
  using assms
proof (induction s rule: rev_induct)
  case Nil
  then show ?case by simp
next
  case (snoc c s)
  from snoc.prems(1) have c: "is_digit c" "list_all is_digit s" by simp_all
  show ?case
  proof (cases "s = []")
    case True
    with c digit_val_less [OF c(1)] show ?thesis
      by (simp add: digits_value_def show_nat.simps [of "digit_val c"] digit_char_digit_val)
  next
    case False
    with snoc.prems(3) have hd0: "hd s \<noteq> CHR ''0''" by simp
    with False c snoc.IH have IH: "show_nat (digits_value s) = s" by simp
    have pos: "digits_value s > 0"
    proof (rule ccontr)
      assume "\<not> digits_value s > 0"
      with IH have "s = show_nat 0" by simp
      then have "s = ''0''" by (simp add: show_nat.simps [of 0] digit_char_0)
      with hd0 show False by simp
    qed
    let ?n = "digits_value s * 10 + digit_val c"
    from pos digit_val_less [OF c(1)] have "\<not> ?n < 10" "?n div 10 = digits_value s" "?n mod 10 = digit_val c"
      by auto
    then show ?thesis
      using IH c(1) by (simp add: digits_value_snoc show_nat.simps [of ?n] digit_char_digit_val)
  qed
qed

end
