(* ===== verification/Hashes.thy ===== *)
theory Hashes
  imports Prelude
begin

text \<open>
  The checksums of Go's standard library that the wire formats use: CRC-32 (IEEE,
  \<open>hash/crc32\<close>), SHA-1 (\<open>crypto/sha1\<close>), HMAC over it (\<open>crypto/hmac\<close>) and SHA-256 (\<open>crypto/sha256\<close>), as executable
  functions on byte lists. The rest of the development needs the lengths of their outputs
  and nothing else about them.
\<close>

unbundle bit_operations_syntax

section \<open>CRC-32\<close>

definition crc32_bit :: "uint32 \<Rightarrow> uint32" where
  "crc32_bit c = (if bit c 0 then drop_bit 1 c XOR 0xEDB88320 else drop_bit 1 c)"

definition crc32_byte :: "uint32 \<Rightarrow> byte \<Rightarrow> uint32" where
  "crc32_byte c b = (crc32_bit ^^ 8) (c XOR ucast b)"

definition crc32_ieee :: "bytes \<Rightarrow> uint32" where
  "crc32_ieee msg = NOT (foldl crc32_byte (NOT 0) msg)"

section \<open>SHA-1\<close>

definition rotl32 :: "nat \<Rightarrow> uint32 \<Rightarrow> uint32" where
  "rotl32 n w = push_bit n w OR drop_bit (32 - n) w"

definition sha1_pad :: "bytes \<Rightarrow> bytes" where
  "sha1_pad msg =
     msg @ [0x80] @ replicate ((119 - length msg mod 64) mod 64) 0
       @ put_uint64 (word_of_nat (8 * length msg))"

fun words_of_bytes :: "bytes \<Rightarrow> uint32 list" where
  "words_of_bytes (a # b # c # d # rest) = get_uint32 [a, b, c, d] # words_of_bytes rest"
| "words_of_bytes _ = []"

fun sha1_schedule :: "nat \<Rightarrow> uint32 list \<Rightarrow> uint32 list" where
  "sha1_schedule 0 w = w"
| "sha1_schedule (Suc n) w =
     (let t = length w in
      sha1_schedule n
        (w @ [rotl32 1 (w ! (t - 3) XOR w ! (t - 8) XOR w ! (t - 14) XOR w ! (t - 16))]))"

datatype sha1_state = Sha1 uint32 uint32 uint32 uint32 uint32

definition sha1_f :: "nat \<Rightarrow> uint32 \<Rightarrow> uint32 \<Rightarrow> uint32 \<Rightarrow> uint32" where
  "sha1_f t b c d =
     (if t < 20 then (b AND c) OR (NOT b AND d)
      else if t < 40 then b XOR c XOR d
      else if t < 60 then (b AND c) OR (b AND d) OR (c AND d)
      else b XOR c XOR d)"

definition sha1_k :: "nat \<Rightarrow> uint32" where
  "sha1_k t =
     (if t < 20 then 0x5A827999 else if t < 40 then 0x6ED9EBA1
      else if t < 60 then 0x8F1BBCDC else 0xCA62C1D6)"

fun sha1_rounds :: "nat \<Rightarrow> uint32 list \<Rightarrow> sha1_state \<Rightarrow> sha1_state" where
  "sha1_rounds t [] s = s"
| "sha1_rounds t (w # ws) (Sha1 a b c d e) =
     sha1_rounds (Suc t) ws
       (Sha1 (rotl32 5 a + sha1_f t b c d + e + sha1_k t + w) a (rotl32 30 b) c d)"

fun sha1_add :: "sha1_state \<Rightarrow> sha1_state \<Rightarrow> sha1_state" where
  "sha1_add (Sha1 a b c d e) (Sha1 a' b' c' d' e') = Sha1 (a + a') (b + b') (c + c') (d + d') (e + e')"

function sha1_blocks :: "bytes \<Rightarrow> sha1_state \<Rightarrow> sha1_state" where
  "sha1_blocks msg s =
     (if length msg < 64 then s
      else sha1_blocks (drop 64 msg)
        (sha1_add s (sha1_rounds 0 (sha1_schedule 64 (words_of_bytes (take 64 msg))) s)))"
  by pat_completeness auto
termination
  by (relation "measure (\<lambda>(msg, s). length msg)") auto

declare sha1_blocks.simps [simp del]

fun sha1_bytes :: "sha1_state \<Rightarrow> bytes" where
  "sha1_bytes (Sha1 a b c d e) =
     put_uint32 a @ put_uint32 b @ put_uint32 c @ put_uint32 d @ put_uint32 e"

definition sha1 :: "bytes \<Rightarrow> bytes" where
  "sha1 msg =
     sha1_bytes
       (sha1_blocks (sha1_pad msg)
         (Sha1 0x67452301 0xEFCDAB89 0x98BADCFE 0x10325476 0xC3D2E1F0))"

section \<open>HMAC-SHA1\<close>

definition hmac_key :: "bytes \<Rightarrow> bytes" where
  "hmac_key key =
     (let k = if length key > 64 then sha1 key else key
      in k @ replicate (64 - length k) 0)"

definition hmac_sha1 :: "bytes \<Rightarrow> bytes \<Rightarrow> bytes" where
  "hmac_sha1 key msg =
     sha1 (map (\<lambda>b. b XOR 0x5C) (hmac_key key)
       @ sha1 (map (\<lambda>b. b XOR 0x36) (hmac_key key) @ msg))"

lemma length_sha1_bytes [simp]: "length (sha1_bytes s) = 20"
  by (cases s) simp

lemma length_sha1 [simp]: "length (sha1 msg) = 20"
  by (simp add: sha1_def)

lemma length_hmac_sha1 [simp]: "length (hmac_sha1 key msg) = 20"
  by (simp add: hmac_sha1_def)

section \<open>SHA-256\<close>

definition rotr32 :: "nat \<Rightarrow> uint32 \<Rightarrow> uint32" where
  "rotr32 n w = rotl32 (32 - n) w"

text \<open>The initial state and the round constants are the first 32 bits of the fractional parts of the
  square roots of the first 8 primes and of the cube roots of the first 64.\<close>

primrec int_root :: "nat \<Rightarrow> nat \<Rightarrow> nat \<Rightarrow> nat \<Rightarrow> nat" where
  "int_root k x 0 acc = acc"
| "int_root k x (Suc n) acc = int_root k x n (if (acc + 2 ^ n) ^ k \<le> x then acc + 2 ^ n else acc)"

definition first_primes :: "nat \<Rightarrow> nat list" where
  "first_primes n = take n (filter (\<lambda>p. \<forall>d \<in> set [2..<p]. p mod d \<noteq> 0) [2..<312])"

definition root_bits :: "nat \<Rightarrow> nat \<Rightarrow> uint32" where
  "root_bits k p = word_of_nat (int_root k (p * 2 ^ (32 * k)) 38 0)"

definition sha256_k :: "uint32 list" where
  "sha256_k = map (root_bits 3) (first_primes 64)"

fun sha256_schedule :: "nat \<Rightarrow> uint32 list \<Rightarrow> uint32 list" where
  "sha256_schedule 0 w = w"
| "sha256_schedule (Suc n) w =
     (let t = length w;
          x = w ! (t - 15); y = w ! (t - 2);
          s0 = rotr32 7 x XOR rotr32 18 x XOR drop_bit 3 x;
          s1 = rotr32 17 y XOR rotr32 19 y XOR drop_bit 10 y
      in sha256_schedule n (w @ [w ! (t - 16) + s0 + w ! (t - 7) + s1]))"

datatype sha256_state = Sha256 uint32 uint32 uint32 uint32 uint32 uint32 uint32 uint32

fun sha256_init :: "uint32 list \<Rightarrow> sha256_state" where
  "sha256_init [a, b, c, d, e, f, g, h] = Sha256 a b c d e f g h"
| "sha256_init _ = Sha256 0 0 0 0 0 0 0 0"

fun sha256_rounds :: "(uint32 \<times> uint32) list \<Rightarrow> sha256_state \<Rightarrow> sha256_state" where
  "sha256_rounds [] s = s"
| "sha256_rounds ((k, w) # kws) (Sha256 a b c d e f g h) =
     (let s1 = rotr32 6 e XOR rotr32 11 e XOR rotr32 25 e;
          ch = (e AND f) XOR (NOT e AND g);
          t1 = h + s1 + ch + k + w;
          s0 = rotr32 2 a XOR rotr32 13 a XOR rotr32 22 a;
          maj = (a AND b) XOR (a AND c) XOR (b AND c)
      in sha256_rounds kws (Sha256 (t1 + s0 + maj) a b c (d + t1) e f g))"

fun sha256_add :: "sha256_state \<Rightarrow> sha256_state \<Rightarrow> sha256_state" where
  "sha256_add (Sha256 a b c d e f g h) (Sha256 a' b' c' d' e' f' g' h') =
     Sha256 (a + a') (b + b') (c + c') (d + d') (e + e') (f + f') (g + g') (h + h')"

function sha256_blocks :: "bytes \<Rightarrow> sha256_state \<Rightarrow> sha256_state" where
  "sha256_blocks msg s =
     (if length msg < 64 then s
      else sha256_blocks (drop 64 msg)
        (sha256_add s
          (sha256_rounds (zip sha256_k (sha256_schedule 48 (words_of_bytes (take 64 msg)))) s)))"
  by pat_completeness auto
termination
  by (relation "measure (\<lambda>(msg, s). length msg)") auto

declare sha256_blocks.simps [simp del]

fun sha256_bytes :: "sha256_state \<Rightarrow> bytes" where
  "sha256_bytes (Sha256 a b c d e f g h) =
     put_uint32 a @ put_uint32 b @ put_uint32 c @ put_uint32 d
       @ put_uint32 e @ put_uint32 f @ put_uint32 g @ put_uint32 h"

text \<open>The padding is that of SHA-1.\<close>

definition sha256 :: "bytes \<Rightarrow> bytes" where
  "sha256 msg =
     sha256_bytes
       (sha256_blocks (sha1_pad msg)
         (sha256_init (map (root_bits 2) (first_primes 8))))"

lemma int_root_correct:
  assumes "acc ^ k \<le> x" and "x < (acc + 2 ^ n) ^ k"
  shows "int_root k x n acc ^ k \<le> x \<and> x < (int_root k x n acc + 1) ^ k"
  using assms
proof (induction n arbitrary: acc)
  case (Suc n)
  have step: "acc + 2 ^ Suc n = (acc + 2 ^ n) + 2 ^ n" by simp
  show ?case
    using Suc.IH [of acc] Suc.IH [of "acc + 2 ^ n"] Suc.prems unfolding step by (simp add: not_le)
qed simp

lemma length_sha256_bytes [simp]: "length (sha256_bytes s) = 32"
  by (cases s) simp

lemma length_sha256 [simp]: "length (sha256 msg) = 32"
  by (simp add: sha256_def)

end
