(* ===== verification/Stun.thy ===== *)
theory Stun
  imports Prelude Hashes
begin

text \<open>
  The STUN-shaped codec of \<open>core/coldstart/wire.go\<close> and \<open>binding.go\<close>: attribute and
  header encoding, the request and response builders, the parser, MESSAGE-INTEGRITY and
  the XOR-mapped address. The lemmas show that the parser reads back every message the
  builders write, that the integrity check accepts exactly what the request builder
  signed, and that addresses survive the XOR mapping.
\<close>

unbundle bit_operations_syntax

section \<open>Constants and types\<close>

definition magicCookie :: uint32 where
  "magicCookie = 0x2112A442"

definition typeBindingRequest :: uint16 where
  "typeBindingRequest = 0x0001"

definition typeBindingSuccess :: uint16 where
  "typeBindingSuccess = 0x0101"

definition attrUsername :: uint16 where
  "attrUsername = 0x0006"

definition attrMessageIntegrity :: uint16 where
  "attrMessageIntegrity = 0x0008"

definition attrXORMappedAddress :: uint16 where
  "attrXORMappedAddress = 0x0020"

definition attrFingerprint :: uint16 where
  "attrFingerprint = 0x8028"

definition attrSnapshot :: uint16 where
  "attrSnapshot = 0xC001"

definition attrProof :: uint16 where
  "attrProof = 0xC002"

definition fingerprintXOR :: uint32 where
  "fingerprintXOR = 0x5354554e"

definition headerLen :: nat where
  "headerLen = 20"

definition messageIntegrityAttrLen :: nat where
  "messageIntegrityAttrLen = 4 + 20"

definition fingerprintAttrLen :: nat where
  "fingerprintAttrLen = 4 + 4"

definition magicCookieBytes :: bytes where
  "magicCookieBytes = [0x21, 0x12, 0xA4, 0x42]"

lemmas stun_consts =
  magicCookie_def typeBindingRequest_def typeBindingSuccess_def attrUsername_def
  attrMessageIntegrity_def attrXORMappedAddress_def attrFingerprint_def attrSnapshot_def
  attrProof_def headerLen_def messageIntegrityAttrLen_def fingerprintAttrLen_def

datatype stun_error = ErrShortMessage | ErrBadCookie | ErrBadLength

text \<open>A transaction ID is an array of 12 bytes; \<open>tx_ok\<close> says so of a byte list.\<close>

type_synonym txID = bytes

definition tx_ok :: "txID \<Rightarrow> bool" where
  "tx_ok tx \<longleftrightarrow> length tx = 12"

record attribute =
  a_typ :: uint16
  a_val :: bytes

record message =
  m_typ :: uint16
  m_tx :: txID
  m_attrs :: "attribute list"

definition attribute_of :: "uint16 \<Rightarrow> bytes \<Rightarrow> attribute" where
  "attribute_of t v = \<lparr>a_typ = t, a_val = v\<rparr>"

text \<open>\<open>message.get\<close>: the value of the first attribute of the type.\<close>

fun get_attr :: "attribute list \<Rightarrow> uint16 \<Rightarrow> bytes option" where
  "get_attr [] t = None"
| "get_attr (a # as) t = (if a_typ a = t then Some (a_val a) else get_attr as t)"

definition get :: "message \<Rightarrow> uint16 \<Rightarrow> bytes option" where
  "get m t = get_attr (m_attrs m) t"

section \<open>Encoding\<close>

text \<open>The padding loop writes zero bytes up to the next multiple of four.\<close>

definition pad_len :: "nat \<Rightarrow> nat" where
  "pad_len n = (if n mod 4 \<noteq> 0 then 4 - n mod 4 else 0)"

definition encode_attr :: "attribute \<Rightarrow> bytes" where
  "encode_attr a =
     put_uint16 (a_typ a) @ put_uint16 (word_of_nat (length (a_val a))) @ a_val a
       @ replicate (pad_len (length (a_val a))) 0"

definition encodeAttrs :: "attribute list \<Rightarrow> bytes" where
  "encodeAttrs attrs = concat (map encode_attr attrs)"

definition encodeHeader :: "uint16 \<Rightarrow> txID \<Rightarrow> nat \<Rightarrow> bytes" where
  "encodeHeader typ tx attrLen =
     put_uint16 typ @ put_uint16 (word_of_nat attrLen) @ put_uint32 magicCookie @ tx"

definition hmacSHA1 :: "bytes \<Rightarrow> bytes \<Rightarrow> bytes" where
  "hmacSHA1 key msg = hmac_sha1 key msg"

definition fingerprint :: "bytes \<Rightarrow> bytes" where
  "fingerprint msg = put_uint32 (crc32_ieee msg XOR fingerprintXOR)"

text \<open>
  The three builders end the same way: FINGERPRINT over the header (whose length field
  already counts it) and the attributes so far, then the whole message.
\<close>

definition with_fingerprint :: "uint16 \<Rightarrow> txID \<Rightarrow> attribute list \<Rightarrow> bytes" where
  "with_fingerprint typ tx attrs =
     (let body = encodeAttrs attrs;
          hdr = encodeHeader typ tx (length body + fingerprintAttrLen);
          fp = fingerprint (hdr @ body);
          attrs' = attrs @ [attribute_of attrFingerprint fp];
          body' = encodeAttrs attrs'
      in encodeHeader typ tx (length body') @ body')"

text \<open>A nil key is \<open>None\<close>: the request is then a bare Binding Request.\<close>

definition buildRequest :: "txID \<Rightarrow> string \<Rightarrow> bytes option \<Rightarrow> bytes" where
  "buildRequest tx username key =
     (let attrs =
        (case key of
           None \<Rightarrow> []
         | Some k \<Rightarrow>
             (let user = [attribute_of attrUsername (bytes_of_string username)];
                  body = encodeAttrs user;
                  reserved = length body + messageIntegrityAttrLen;
                  hdr = encodeHeader typeBindingRequest tx reserved;
                  mi = hmacSHA1 k (hdr @ body)
              in user @ [attribute_of attrMessageIntegrity mi]))
      in with_fingerprint typeBindingRequest tx attrs)"

definition buildCourierRequest :: "txID \<Rightarrow> bytes \<Rightarrow> bytes" where
  "buildCourierRequest tx proof =
     with_fingerprint typeBindingRequest tx [attribute_of attrProof proof]"

section \<open>Addresses\<close>

text \<open>
  \<open>netip.Addr\<close>: the zero value, a 4-byte address or a 16-byte one (a zone never reaches
  the wire). \<open>netip.AddrPort\<close> adds the port.
\<close>

datatype addr = InvalidAddr | IPv4 bytes | IPv6 bytes

record addr_port =
  ap_addr :: addr
  ap_port :: uint16

fun addr_ok :: "addr \<Rightarrow> bool" where
  "addr_ok InvalidAddr = True"
| "addr_ok (IPv4 b) = (length b = 4)"
| "addr_ok (IPv6 b) = (length b = 16)"

definition xor_bytes :: "bytes \<Rightarrow> bytes \<Rightarrow> bytes" where
  "xor_bytes xs ys = map2 (XOR) xs ys"

definition encodeXORMapped :: "addr_port \<Rightarrow> txID \<Rightarrow> bytes" where
  "encodeXORMapped ap tx =
     (let port = put_uint16 (ap_port ap XOR 0x2112) in
      case ap_addr ap of
        InvalidAddr \<Rightarrow> [0, 1] @ port @ xor_bytes [0, 0, 0, 0] magicCookieBytes
      | IPv4 ip \<Rightarrow> [0, 1] @ port @ xor_bytes ip magicCookieBytes
      | IPv6 ip \<Rightarrow> [0, 2] @ port @ xor_bytes ip (magicCookieBytes @ tx))"

definition decodeXORMapped :: "bytes \<Rightarrow> txID \<Rightarrow> addr_port option" where
  "decodeXORMapped val tx =
     (if length val < 4 then None
      else
        (let family = val ! 1; port = get_uint16 (take 2 (drop 2 val)) XOR 0x2112 in
         if family = 1 then
           (if length val < 8 then None
            else Some \<lparr>ap_addr = IPv4 (xor_bytes (take 4 (drop 4 val)) magicCookieBytes),
                       ap_port = port\<rparr>)
         else if family = 2 then
           (if length val < 20 then None
            else Some \<lparr>ap_addr = IPv6 (xor_bytes (take 16 (drop 4 val)) (magicCookieBytes @ tx)),
                       ap_port = port\<rparr>)
         else None))"

text \<open>A nil snapshot is \<open>None\<close>.\<close>

definition buildResponse :: "txID \<Rightarrow> addr_port \<Rightarrow> bytes option \<Rightarrow> bytes" where
  "buildResponse tx ap snapshot =
     with_fingerprint typeBindingSuccess tx
       (attribute_of attrXORMappedAddress (encodeXORMapped ap tx)
         # (case snapshot of None \<Rightarrow> [] | Some s \<Rightarrow> [attribute_of attrSnapshot s]))"

section \<open>Parsing\<close>

text \<open>
  The attribute loop of \<open>parse\<close>: it stops at a value that does not fit, and after a value
  whose padding is missing it keeps the attribute and stops.
\<close>

definition advance :: "nat \<Rightarrow> nat" where
  "advance l = 4 + l + pad_len l"

function parse_attrs :: "bytes \<Rightarrow> attribute list" where
  "parse_attrs p =
     (if length p < 4 then []
      else
        (let typ = get_uint16 (take 2 p); l = unat (get_uint16 (take 2 (drop 2 p))) in
         if 4 + l > length p then []
         else attribute_of typ (take l (drop 4 p))
           # (if advance l > length p then [] else parse_attrs (drop (advance l) p))))"
  by pat_completeness auto
termination
  by (relation "measure length") (auto simp: advance_def)

declare parse_attrs.simps [simp del]

definition parse :: "bytes \<Rightarrow> stun_error + message" where
  "parse b =
     (if length b < headerLen then Inl ErrShortMessage
      else if get_uint32 (take 4 (drop 4 b)) \<noteq> magicCookie then Inl ErrBadCookie
      else
        (let attrLen = unat (get_uint16 (take 2 (drop 2 b))) in
         if headerLen + attrLen > length b then Inl ErrBadLength
         else Inr \<lparr>m_typ = get_uint16 (take 2 b), m_tx = take 12 (drop 8 b),
                   m_attrs = parse_attrs (take attrLen (drop headerLen b))\<rparr>))"

text \<open>The offset of the first MESSAGE-INTEGRITY attribute; Go's \<open>-1\<close> is \<open>None\<close>.\<close>

function mi_offset_loop :: "bytes \<Rightarrow> nat \<Rightarrow> nat option" where
  "mi_offset_loop p off =
     (if length p < 4 then None
      else
        (let typ = get_uint16 (take 2 p); l = unat (get_uint16 (take 2 (drop 2 p))) in
         if 4 + l > length p then None
         else if typ = attrMessageIntegrity then Some off
         else if advance l > length p then None
         else mi_offset_loop (drop (advance l) p) (off + advance l)))"
  by pat_completeness auto
termination
  by (relation "measure (\<lambda>(p, off). length p)") (auto simp: advance_def)

declare mi_offset_loop.simps [simp del]

definition messageIntegrityOffset :: "bytes \<Rightarrow> nat option" where
  "messageIntegrityOffset raw =
     (if length raw < headerLen then None
      else
        (let attrLen = unat (get_uint16 (take 2 (drop 2 raw)));
             end = min (headerLen + attrLen) (length raw)
         in mi_offset_loop (drop headerLen (take end raw)) headerLen))"

definition verifyMessageIntegrity :: "bytes \<Rightarrow> nat \<Rightarrow> bytes \<Rightarrow> bool" where
  "verifyMessageIntegrity raw miOffset key =
     (if miOffset < headerLen \<or> miOffset + 4 + 20 > length raw then False
      else
        (let prefix = take miOffset raw;
             body = take 2 prefix
               @ put_uint16 (word_of_nat (miOffset - headerLen + messageIntegrityAttrLen))
               @ drop 4 prefix
         in hmacSHA1 key body = take 20 (drop (miOffset + 4) raw)))"

section \<open>Plain STUN answers\<close>

text \<open>\<open>None\<close> is the \<open>ok == false\<close> result: the packet is not answered here.\<close>

definition BindingResponse :: "bytes \<Rightarrow> addr_port \<Rightarrow> bytes option" where
  "BindingResponse raw from =
     (case parse raw of
        Inl _ \<Rightarrow> None
      | Inr m \<Rightarrow>
          if m_typ m \<noteq> typeBindingRequest then None else Some (buildResponse (m_tx m) from None))"

definition BindingRequest :: "txID \<Rightarrow> string \<Rightarrow> bytes option \<Rightarrow> bytes" where
  "BindingRequest newTx username key = buildRequest newTx username key"

definition LooksLikeBindingSuccess :: "bytes \<Rightarrow> bool" where
  "LooksLikeBindingSuccess raw =
     (if length raw < headerLen then False
      else if get_uint16 (take 2 raw) \<noteq> typeBindingSuccess then False
      else if get_uint32 (take 4 (drop 4 raw)) \<noteq> magicCookie then False
      else headerLen + unat (get_uint16 (take 2 (drop 2 raw))) = length raw)"

section \<open>Lengths\<close>

definition attr_fits :: "attribute \<Rightarrow> bool" where
  "attr_fits a \<longleftrightarrow> length (a_val a) < 65536"

lemma a_sel_attribute_of [simp]: "a_typ (attribute_of t v) = t" "a_val (attribute_of t v) = v"
  by (simp_all add: attribute_of_def)

lemma attribute_of_sel [simp]: "attribute_of (a_typ a) (a_val a) = a"
  by (simp add: attribute_of_def)

lemma length_encode_attr: "length (encode_attr a) = advance (length (a_val a))"
  by (simp add: encode_attr_def advance_def)

lemma length_encodeHeader [simp]: "tx_ok tx \<Longrightarrow> length (encodeHeader typ tx n) = headerLen"
  by (simp add: encodeHeader_def tx_ok_def headerLen_def)

lemma encodeAttrs_simps [simp]:
  "encodeAttrs [] = []"
  "encodeAttrs (a # as) = encode_attr a @ encodeAttrs as"
  "encodeAttrs (as @ bs) = encodeAttrs as @ encodeAttrs bs"
  by (simp_all add: encodeAttrs_def)

lemma advance_ge: "4 + l \<le> advance l"
  by (simp add: advance_def)

lemma pad_len_less: "pad_len n < 4"
  by (simp add: pad_len_def)

lemma pad_len_values [simp]: "pad_len 4 = 0" "pad_len 20 = 0"
  by (simp_all add: pad_len_def)

lemma unat_of_len: "n < 65536 \<Longrightarrow> unat (word_of_nat n :: uint16) = n"
  by (simp add: unat_of_nat)

section \<open>The parser reads back the encoder\<close>

text \<open>What the first four bytes of an encoded attribute hold.\<close>

lemma encode_attr_head:
  "take 2 (encode_attr a @ rest) = put_uint16 (a_typ a)"
  "take 2 (drop 2 (encode_attr a @ rest)) = put_uint16 (word_of_nat (length (a_val a)))"
  "take (length (a_val a)) (drop 4 (encode_attr a @ rest)) = a_val a"
  "drop (advance (length (a_val a))) (encode_attr a @ rest) = rest"
proof -
  show "drop (advance (length (a_val a))) (encode_attr a @ rest) = rest"
    by (simp add: length_encode_attr)
qed (simp_all add: encode_attr_def)

lemma parse_attrs_encode_attr:
  assumes "attr_fits a"
  shows "parse_attrs (encode_attr a @ rest) = a # parse_attrs rest"
proof -
  let ?l = "length (a_val a)"
  have l: "unat (word_of_nat ?l :: uint16) = ?l"
    using assms by (simp add: attr_fits_def unat_of_len)
  have len: "advance ?l \<le> length (encode_attr a @ rest)"
    by (simp add: length_encode_attr)
  with advance_ge [of ?l] have "4 + ?l \<le> length (encode_attr a @ rest)"
    by linarith
  with len show ?thesis
    unfolding parse_attrs.simps [of "encode_attr a @ rest"] encode_attr_head Let_def
      get_put_uint16 l by simp
qed

lemma parse_attrs_Nil [simp]: "parse_attrs [] = []"
  by (simp add: parse_attrs.simps)

lemma parse_attrs_encodeAttrs:
  "list_all attr_fits as \<Longrightarrow> parse_attrs (encodeAttrs as) = as"
  by (induction as) (simp_all add: parse_attrs_encode_attr)

lemma header_fields:
  assumes "tx_ok tx"
  shows "take 2 (encodeHeader typ tx n @ body) = put_uint16 typ"
    and "take 2 (drop 2 (encodeHeader typ tx n @ body)) = put_uint16 (word_of_nat n)"
    and "take 4 (drop 4 (encodeHeader typ tx n @ body)) = put_uint32 magicCookie"
    and "take 12 (drop 8 (encodeHeader typ tx n @ body)) = tx"
    and "drop headerLen (encodeHeader typ tx n @ body) = body"
  using assms by (simp_all add: encodeHeader_def tx_ok_def headerLen_def)

lemma parse_message:
  assumes "tx_ok tx" and "list_all attr_fits as" and "length (encodeAttrs as) < 65536"
  shows "parse (encodeHeader typ tx (length (encodeAttrs as)) @ encodeAttrs as) =
    Inr \<lparr>m_typ = typ, m_tx = tx, m_attrs = as\<rparr>"
proof -
  let ?raw = "encodeHeader typ tx (length (encodeAttrs as)) @ encodeAttrs as"
  have "length ?raw = headerLen + length (encodeAttrs as)"
    using assms(1) by simp
  then show ?thesis
    unfolding parse_def header_fields [OF assms(1)] Let_def
    using assms by (simp add: unat_of_len parse_attrs_encodeAttrs)
qed

text \<open>The message every builder sends, as the list of its attributes.\<close>

definition fp_attrs :: "uint16 \<Rightarrow> txID \<Rightarrow> attribute list \<Rightarrow> attribute list" where
  "fp_attrs typ tx attrs =
     attrs @ [attribute_of attrFingerprint
       (fingerprint
         (encodeHeader typ tx (length (encodeAttrs attrs) + fingerprintAttrLen) @ encodeAttrs attrs))]"

lemma length_fingerprint [simp]: "length (fingerprint msg) = 4"
  by (simp add: fingerprint_def)

lemma with_fingerprint_eq:
  "with_fingerprint typ tx attrs =
     encodeHeader typ tx (length (encodeAttrs (fp_attrs typ tx attrs)))
       @ encodeAttrs (fp_attrs typ tx attrs)"
  by (simp add: with_fingerprint_def fp_attrs_def Let_def)

lemma length_fp_attrs:
  "length (encodeAttrs (fp_attrs typ tx attrs)) = length (encodeAttrs attrs) + 8"
  by (simp add: fp_attrs_def length_encode_attr advance_def)

lemma parse_with_fingerprint:
  assumes "tx_ok tx" and "list_all attr_fits attrs" and "length (encodeAttrs attrs) < 65528"
  shows "parse (with_fingerprint typ tx attrs) =
    Inr \<lparr>m_typ = typ, m_tx = tx, m_attrs = fp_attrs typ tx attrs\<rparr>"
  unfolding with_fingerprint_eq
proof (rule parse_message [OF assms(1)])
  show "list_all attr_fits (fp_attrs typ tx attrs)"
    using assms(2) by (simp add: fp_attrs_def attr_fits_def)
  show "length (encodeAttrs (fp_attrs typ tx attrs)) < 65536"
    using assms(3) by (simp add: length_fp_attrs)
qed

lemma get_attr_append [simp]:
  "get_attr (as @ bs) t = (case get_attr as t of None \<Rightarrow> get_attr bs t | Some v \<Rightarrow> Some v)"
  by (induction as) (auto split: option.splits)

lemma get_fp_attrs:
  "t \<noteq> attrFingerprint \<Longrightarrow> get_attr (fp_attrs typ tx attrs) t = get_attr attrs t"
  by (auto simp: fp_attrs_def split: option.splits)

section \<open>MESSAGE-INTEGRITY\<close>

lemma mi_offset_skip:
  assumes "attr_fits a" and "a_typ a \<noteq> attrMessageIntegrity"
  shows "mi_offset_loop (encode_attr a @ rest) off =
    mi_offset_loop rest (off + length (encode_attr a))"
proof -
  let ?l = "length (a_val a)"
  have l: "unat (word_of_nat ?l :: uint16) = ?l"
    using assms by (simp add: attr_fits_def unat_of_len)
  have len: "advance ?l \<le> length (encode_attr a @ rest)"
    by (simp add: length_encode_attr)
  with advance_ge [of ?l] have "4 + ?l \<le> length (encode_attr a @ rest)"
    by linarith
  with len assms(2) show ?thesis
    unfolding mi_offset_loop.simps [of "encode_attr a @ rest"] encode_attr_head Let_def
      get_put_uint16 l length_encode_attr by simp
qed

lemma mi_offset_hit:
  assumes "attr_fits a" and "a_typ a = attrMessageIntegrity"
  shows "mi_offset_loop (encode_attr a @ rest) off = Some off"
proof -
  let ?l = "length (a_val a)"
  have l: "unat (word_of_nat ?l :: uint16) = ?l"
    using assms by (simp add: attr_fits_def unat_of_len)
  have "4 + ?l \<le> length (encode_attr a @ rest)"
    using advance_ge [of ?l] by (simp add: length_encode_attr)
  with assms(2) show ?thesis
    unfolding mi_offset_loop.simps [of "encode_attr a @ rest"] encode_attr_head Let_def
      get_put_uint16 l by simp
qed

lemma messageIntegrityOffset_encoded:
  assumes "tx_ok tx" and "length body < 65536"
  shows "messageIntegrityOffset (encodeHeader typ tx (length body) @ body) =
    mi_offset_loop body headerLen"
proof -
  let ?raw = "encodeHeader typ tx (length body) @ body"
  have "length ?raw = headerLen + length body"
    using assms(1) by simp
  then show ?thesis
    unfolding messageIntegrityOffset_def header_fields [OF assms(1)] Let_def get_put_uint16
      unat_of_len [OF assms(2)]
    using header_fields(5) [OF assms(1)] by simp
qed

text \<open>The attributes of an authenticated request, and its length.\<close>

definition request_attrs :: "txID \<Rightarrow> string \<Rightarrow> bytes \<Rightarrow> attribute list" where
  "request_attrs tx username k =
     (let user = attribute_of attrUsername (bytes_of_string username);
          hdr = encodeHeader typeBindingRequest tx
                  (length (encode_attr user) + messageIntegrityAttrLen)
      in [user, attribute_of attrMessageIntegrity (hmacSHA1 k (hdr @ encode_attr user))])"

lemma buildRequest_Some:
  "buildRequest tx username (Some k) =
     with_fingerprint typeBindingRequest tx (request_attrs tx username k)"
  by (simp add: buildRequest_def request_attrs_def Let_def)

lemma length_hmacSHA1 [simp]: "length (hmacSHA1 k m) = 20"
  by (simp add: hmacSHA1_def)

lemma request_attrs_fit:
  assumes "length username \<le> 65000"
  shows "list_all attr_fits (request_attrs tx username k)"
    and "length (encodeAttrs (request_attrs tx username k)) < 65528"
  using assms pad_len_less [of "length username"]
  by (simp_all add: request_attrs_def attr_fits_def length_encode_attr advance_def Let_def)

lemma buildRequest_layout:
  fixes tx username k
  defines "user \<equiv> attribute_of attrUsername (bytes_of_string username)"
  defines "mi \<equiv> attribute_of attrMessageIntegrity
    (hmacSHA1 k (encodeHeader typeBindingRequest tx
      (length (encode_attr user) + messageIntegrityAttrLen) @ encode_attr user))"
  obtains fp where "buildRequest tx username (Some k) =
      encodeHeader typeBindingRequest tx (length (encode_attr user @ encode_attr mi @ encode_attr fp))
        @ encode_attr user @ encode_attr mi @ encode_attr fp"
    and "length (encode_attr fp) = 8"
proof -
  have req: "request_attrs tx username k = [user, mi]"
    by (simp add: request_attrs_def user_def mi_def Let_def)
  define fp where "fp = attribute_of attrFingerprint (fingerprint
    (encodeHeader typeBindingRequest tx (length (encodeAttrs [user, mi]) + fingerprintAttrLen)
      @ encodeAttrs [user, mi]))"
  have "buildRequest tx username (Some k) =
      encodeHeader typeBindingRequest tx (length (encode_attr user @ encode_attr mi @ encode_attr fp))
        @ encode_attr user @ encode_attr mi @ encode_attr fp"
    unfolding buildRequest_Some with_fingerprint_eq fp_attrs_def req fp_def by simp
  moreover have "length (encode_attr fp) = 8"
    by (simp add: fp_def length_encode_attr advance_def)
  ultimately show ?thesis by (rule that)
qed

lemma request_integrity:
  assumes tx: "tx_ok tx" and len: "length username \<le> 65000"
  shows "\<exists>off. messageIntegrityOffset (buildRequest tx username (Some k)) = Some off
    \<and> verifyMessageIntegrity (buildRequest tx username (Some k)) off k"
proof -
  define user where "user = attribute_of attrUsername (bytes_of_string username)"
  define mi where "mi = attribute_of attrMessageIntegrity
    (hmacSHA1 k (encodeHeader typeBindingRequest tx
      (length (encode_attr user) + messageIntegrityAttrLen) @ encode_attr user))"
  obtain fp where raw: "buildRequest tx username (Some k) =
      encodeHeader typeBindingRequest tx (length (encode_attr user @ encode_attr mi @ encode_attr fp))
        @ encode_attr user @ encode_attr mi @ encode_attr fp"
    and fp: "length (encode_attr fp) = 8"
    using buildRequest_layout unfolding user_def mi_def by blast
  let ?body = "encode_attr user @ encode_attr mi @ encode_attr fp"
  let ?raw = "encodeHeader typeBindingRequest tx (length ?body) @ ?body"
  have fits: "attr_fits user" "attr_fits mi"
    using len by (simp_all add: attr_fits_def user_def mi_def)
  have blen: "length ?body < 65536"
    using len fp pad_len_less [of "length username"]
    by (simp add: length_encode_attr advance_def user_def mi_def)
  let ?off = "headerLen + length (encode_attr user)"
  have "messageIntegrityOffset ?raw = mi_offset_loop ?body headerLen"
    by (rule messageIntegrityOffset_encoded [OF tx blen])
  also have "\<dots> = mi_offset_loop (encode_attr mi @ encode_attr fp) ?off"
    by (rule mi_offset_skip) (use fits in \<open>simp_all add: user_def stun_consts\<close>)
  also have "\<dots> = Some ?off"
    by (rule mi_offset_hit) (use fits in \<open>simp_all add: mi_def\<close>)
  finally have off: "messageIntegrityOffset ?raw = Some ?off" .
  have prefix: "take ?off ?raw = encodeHeader typeBindingRequest tx (length ?body) @ encode_attr user"
    using tx by simp
  have rewrite: "take 2 (take ?off ?raw)
      @ put_uint16 (word_of_nat (?off - headerLen + messageIntegrityAttrLen))
      @ drop 4 (take ?off ?raw)
    = encodeHeader typeBindingRequest tx (length (encode_attr user) + messageIntegrityAttrLen)
      @ encode_attr user"
    unfolding prefix by (simp add: encodeHeader_def)
  have mi_val: "take 20 (drop (?off + 4) ?raw) = a_val mi"
  proof -
    have "drop (?off + 4) ?raw = drop 4 (encode_attr mi @ encode_attr fp)"
      using tx by simp
    moreover have "length (a_val mi) = 20"
      by (simp add: mi_def)
    ultimately show ?thesis
      using encode_attr_head(3) [of mi "encode_attr fp"] by metis
  qed
  have "verifyMessageIntegrity ?raw ?off k"
    unfolding verifyMessageIntegrity_def Let_def rewrite mi_val
    using tx by (simp add: mi_def length_encode_attr advance_def)
  with off raw show ?thesis by auto
qed

section \<open>The mapped address\<close>

lemma xor_bytes_xor_bytes:
  "length xs \<le> length ys \<Longrightarrow> xor_bytes (xor_bytes xs ys) ys = xs"
  by (induction xs ys rule: list_induct2')
    (simp_all add: xor_bytes_def xor.assoc)

lemma length_xor_bytes [simp]: "length (xor_bytes xs ys) = min (length xs) (length ys)"
  by (simp add: xor_bytes_def)

lemma length_magicCookieBytes [simp]: "length magicCookieBytes = 4"
  by (simp add: magicCookieBytes_def)

lemma length_encodeXORMapped:
  "tx_ok tx \<Longrightarrow> addr_ok (ap_addr ap) \<Longrightarrow> length (encodeXORMapped ap tx) \<le> 20"
  by (auto simp: encodeXORMapped_def tx_ok_def Let_def split: addr.splits)

lemma xor_cancel16: "(w XOR 0x2112) XOR 0x2112 = (w :: uint16)"
  by (simp add: xor.assoc)

text \<open>What a client reads out of the mapped address: the zero \<open>netip.Addr\<close> is sent as the
  unspecified IPv4 address.\<close>

definition mapped_addr :: "addr_port \<Rightarrow> addr_port" where
  "mapped_addr ap =
     (case ap_addr ap of InvalidAddr \<Rightarrow> ap\<lparr>ap_addr := IPv4 [0, 0, 0, 0]\<rparr> | _ \<Rightarrow> ap)"

lemma decode_encodeXORMapped:
  assumes "tx_ok tx" and "addr_ok (ap_addr ap)"
  shows "decodeXORMapped (encodeXORMapped ap tx) tx = Some (mapped_addr ap)"
proof -
  have v4: "xor_bytes (xor_bytes ip magicCookieBytes) magicCookieBytes = ip" if "length ip = 4" for ip
    using that by (simp add: xor_bytes_xor_bytes)
  have v6: "xor_bytes (xor_bytes ip (magicCookieBytes @ tx)) (magicCookieBytes @ tx) = ip"
    if "length ip = 16" for ip
    using that assms(1) by (simp add: xor_bytes_xor_bytes tx_ok_def)
  have port: "take 2 (put_uint16 w @ r) = put_uint16 w" "drop 2 (put_uint16 w @ r) = r" for w r
    by simp_all
  obtain a p where ap: "ap = \<lparr>ap_addr = a, ap_port = p\<rparr>"
    by (cases ap) auto
  show ?thesis
  proof (cases a)
    case InvalidAddr
    with ap show ?thesis
      using v4 [of "[0, 0, 0, 0]"]
      by (simp add: encodeXORMapped_def decodeXORMapped_def mapped_addr_def port xor_cancel16 Let_def)
  next
    case (IPv4 ip)
    with ap assms show ?thesis
      by (simp add: encodeXORMapped_def decodeXORMapped_def mapped_addr_def port xor_cancel16 Let_def v4)
  next
    case (IPv6 ip)
    with ap assms show ?thesis
      by (simp add: encodeXORMapped_def decodeXORMapped_def mapped_addr_def port xor_cancel16 Let_def v6
          tx_ok_def)
  qed
qed

section \<open>Responses\<close>

lemma response_attrs_fit:
  assumes "tx_ok tx" and "addr_ok (ap_addr ap)"
    and "case snapshot of None \<Rightarrow> True | Some s \<Rightarrow> length s \<le> 65000"
  defines "as \<equiv> attribute_of attrXORMappedAddress (encodeXORMapped ap tx)
    # (case snapshot of None \<Rightarrow> [] | Some s \<Rightarrow> [attribute_of attrSnapshot s])"
  shows "list_all attr_fits as" and "length (encodeAttrs as) < 65528"
proof -
  have xor: "length (encodeXORMapped ap tx) \<le> 20"
    by (rule length_encodeXORMapped [OF assms(1,2)])
  then show "list_all attr_fits as"
    using assms(3) by (auto simp: as_def attr_fits_def split: option.splits)
  have adv: "advance n \<le> n + 7" for n
    using pad_len_less [of n] by (simp add: advance_def)
  have "length (encode_attr (attribute_of attrXORMappedAddress (encodeXORMapped ap tx))) \<le> 27"
    using adv [of "length (encodeXORMapped ap tx)"] xor by (simp add: length_encode_attr)
  moreover have "length (encode_attr (attribute_of attrSnapshot s)) \<le> 65007" if "snapshot = Some s" for s
    using adv [of "length s"] assms(3) that by (simp add: length_encode_attr)
  ultimately show "length (encodeAttrs as) < 65528"
    by (auto simp: as_def split: option.splits)
qed

lemma parse_buildResponse:
  assumes "tx_ok tx" and "addr_ok (ap_addr ap)"
    and "case snapshot of None \<Rightarrow> True | Some s \<Rightarrow> length s \<le> 65000"
  shows "\<exists>m. parse (buildResponse tx ap snapshot) = Inr m \<and> m_typ m = typeBindingSuccess
    \<and> m_tx m = tx \<and> get m attrSnapshot = snapshot
    \<and> get m attrXORMappedAddress = Some (encodeXORMapped ap tx)"
proof -
  let ?as = "attribute_of attrXORMappedAddress (encodeXORMapped ap tx)
    # (case snapshot of None \<Rightarrow> [] | Some s \<Rightarrow> [attribute_of attrSnapshot s])"
  have "parse (buildResponse tx ap snapshot) =
    Inr \<lparr>m_typ = typeBindingSuccess, m_tx = tx, m_attrs = fp_attrs typeBindingSuccess tx ?as\<rparr>"
    unfolding buildResponse_def
    using response_attrs_fit [OF assms] assms(1) by (intro parse_with_fingerprint)
  moreover have "get_attr (fp_attrs typeBindingSuccess tx ?as) attrSnapshot = snapshot"
    by (subst get_fp_attrs) (auto simp: stun_consts split: option.splits)
  moreover have "get_attr (fp_attrs typeBindingSuccess tx ?as) attrXORMappedAddress =
      Some (encodeXORMapped ap tx)"
    by (subst get_fp_attrs) (auto simp: stun_consts)
  ultimately show ?thesis by (simp add: get_def)
qed

text \<open>every response the builder writes is parsed back as a Binding Success with the
  request's transaction id, the same snapshot attribute (present or absent) and the same
  reflexive address, and the client-side classifier recognises it.\<close>

lemma response_round_trip:
  assumes "tx_ok tx" and "addr_ok (ap_addr ap)"
    and "case snapshot of None \<Rightarrow> True | Some s \<Rightarrow> length s \<le> 65000"
  shows "\<exists>m. parse (buildResponse tx ap snapshot) = Inr m \<and> m_typ m = typeBindingSuccess
    \<and> m_tx m = tx \<and> get m attrSnapshot = snapshot
    \<and> Option.bind (get m attrXORMappedAddress) (\<lambda>v. decodeXORMapped v tx) = Some (mapped_addr ap)
    \<and> LooksLikeBindingSuccess (buildResponse tx ap snapshot)"
proof -
  let ?as = "attribute_of attrXORMappedAddress (encodeXORMapped ap tx)
    # (case snapshot of None \<Rightarrow> [] | Some s \<Rightarrow> [attribute_of attrSnapshot s])"
  let ?body = "encodeAttrs (fp_attrs typeBindingSuccess tx ?as)"
  have blen: "length ?body < 65536"
    using response_attrs_fit(2) [OF assms] by (simp only: length_fp_attrs)
  have "LooksLikeBindingSuccess (encodeHeader typeBindingSuccess tx (length ?body) @ ?body)"
    unfolding LooksLikeBindingSuccess_def header_fields [OF assms(1)] get_put_uint16
      get_put_uint32 unat_of_len [OF blen]
    using assms(1) by simp
  then have "LooksLikeBindingSuccess (buildResponse tx ap snapshot)"
    by (simp only: buildResponse_def with_fingerprint_eq)
  moreover obtain m where "parse (buildResponse tx ap snapshot) = Inr m" "m_typ m = typeBindingSuccess"
    "m_tx m = tx" "get m attrSnapshot = snapshot"
    "get m attrXORMappedAddress = Some (encodeXORMapped ap tx)"
    using parse_buildResponse [OF assms] by blast
  moreover have "decodeXORMapped (encodeXORMapped ap tx) tx = Some (mapped_addr ap)"
    by (rule decode_encodeXORMapped [OF assms(1,2)])
  ultimately show ?thesis by simp
qed

end
