(* ===== verification/Bootstrap.thy ===== *)
theory Bootstrap
  imports Stun
begin

text \<open>
  The cold-start protocol of \<open>core/coldstart\<close> above the codec: the signed directory
  snapshot, the per-user secret store, the coordinator's answer to a bootstrap request,
  the demultiplexer that shares the STUN port, the mesh-walk courier, and the two client
  fetches. Ed25519 and the JSON codec of a snapshot are parameters. The lemmas show what a
  prober without a secret or a proof sees, that a client holding one gets the snapshot,
  and that no peer can make a client adopt a snapshot the coordinator did not sign.
\<close>

section \<open>The directory snapshot\<close>

record entry =
  e_Role :: string
  e_ID :: string
  e_Country :: string
  e_Addr :: string
  e_CountrySource :: string
  e_DeclaredCountry :: string
  e_Ingress :: string
  e_Operator :: string

record snapshot =
  s_Version :: int
  s_IssuedAt :: time
  s_ExpiresAt :: time
  s_Entries :: "entry list"

definition CountryObserved :: string where
  "CountryObserved = ''observed''"

definition CountryHinted :: string where
  "CountryHinted = ''hint''"

definition CountrySignalingOnly :: string where
  "CountrySignalingOnly = ''observed-signaling-only''"

definition CountryNoEndpoint :: string where
  "CountryNoEndpoint = ''unverifiable-no-endpoint''"

definition CountryAdminOverride :: string where
  "CountryAdminOverride = ''admin-override''"

definition CountryContradicted :: "entry \<Rightarrow> bool" where
  "CountryContradicted e \<longleftrightarrow> e_CountrySource e = CountrySignalingOnly"

definition DeclaredCountryDiffers :: "entry \<Rightarrow> bool" where
  "DeclaredCountryDiffers e \<longleftrightarrow>
     e_DeclaredCountry e \<noteq> [] \<and> e_Country e \<noteq> [] \<and> e_DeclaredCountry e \<noteq> e_Country e"

definition RelayEligible :: "entry \<Rightarrow> bool" where
  "RelayEligible e \<longleftrightarrow> e_Role e = ''relay'' \<and> e_Ingress e \<noteq> []"

definition AddrsForRole :: "snapshot \<Rightarrow> string \<Rightarrow> string list" where
  "AddrsForRole s role =
     map e_Addr (filter (\<lambda>e. e_Role e = role \<and> e_Addr e \<noteq> []) (s_Entries s))"

datatype snapshot_error =
    ErrSnapshotExpired
  | ErrBadSignature
  | ErrMalformedSnapshot

definition signedLen :: nat where
  "signedLen = 64"

text \<open>
  \<open>marshal\<close> and \<open>unmarshal\<close> stand for \<open>encoding/json\<close> on a snapshot, \<open>sign\<close> and \<open>verify\<close>
  for \<open>ed25519.Sign\<close> and \<open>ed25519.Verify\<close>; \<open>now\<close> is the clock \<open>Verify\<close> reads.
\<close>

definition Sign ::
    "(snapshot \<Rightarrow> bytes option) \<Rightarrow> ('priv \<Rightarrow> bytes \<Rightarrow> bytes) \<Rightarrow> 'priv \<Rightarrow> snapshot \<Rightarrow> bytes option" where
  "Sign marshal sign priv snap =
     (case marshal snap of None \<Rightarrow> None | Some body \<Rightarrow> Some (body @ sign priv body))"

definition VerifySigned ::
    "('pub \<Rightarrow> bytes \<Rightarrow> bytes \<Rightarrow> bool) \<Rightarrow> (bytes \<Rightarrow> snapshot option) \<Rightarrow> 'pub \<Rightarrow> bytes
      \<Rightarrow> snapshot_error + snapshot" where
  "VerifySigned verify unmarshal pub blob =
     (if length blob \<le> signedLen then Inl ErrMalformedSnapshot
      else
        (let body = take (length blob - signedLen) blob;
             sig = drop (length blob - signedLen) blob
         in if \<not> verify pub body sig then Inl ErrBadSignature
            else (case unmarshal body of
                    None \<Rightarrow> Inl ErrMalformedSnapshot
                  | Some snap \<Rightarrow> Inr snap)))"

definition Verify ::
    "('pub \<Rightarrow> bytes \<Rightarrow> bytes \<Rightarrow> bool) \<Rightarrow> (bytes \<Rightarrow> snapshot option) \<Rightarrow> time \<Rightarrow> 'pub \<Rightarrow> bytes
      \<Rightarrow> snapshot_error + snapshot" where
  "Verify verify unmarshal now pub blob =
     (case VerifySigned verify unmarshal pub blob of
        Inl e \<Rightarrow> Inl e
      | Inr snap \<Rightarrow> if now > s_ExpiresAt snap then Inl ErrSnapshotExpired else Inr snap)"

section \<open>The secret store\<close>

type_synonym mem_store = "string \<rightharpoonup> bytes"

definition NewMemStore :: mem_store where
  "NewMemStore = Map.empty"

definition Add :: "string \<Rightarrow> bytes \<Rightarrow> mem_store \<Rightarrow> mem_store" where
  "Add secretID secret s = s(secretID \<mapsto> secret)"

definition Lookup :: "mem_store \<Rightarrow> string \<Rightarrow> bytes option" where
  "Lookup s secretID = s secretID"

section \<open>The coordinator's answer\<close>

text \<open>
  \<open>handleRequest\<close>: \<open>lookup\<close> is the store's \<open>Lookup\<close>, \<open>snap\<close> what \<open>snapshotFn()\<close> returns
  (\<open>None\<close> for nil). \<open>None\<close> is the dropped packet.
\<close>

definition handleRequest ::
    "bytes \<Rightarrow> addr_port \<Rightarrow> (string \<Rightarrow> bytes option) \<Rightarrow> bytes option \<Rightarrow> bytes option" where
  "handleRequest raw reflexive lookup snap =
     (case parse raw of
        Inl _ \<Rightarrow> None
      | Inr m \<Rightarrow>
          if m_typ m \<noteq> typeBindingRequest then None
          else
            (let snapshot =
               (case get m attrUsername of
                  None \<Rightarrow> None
                | Some usernameVal \<Rightarrow>
                    (case lookup (string_of_bytes usernameVal) of
                       None \<Rightarrow> None
                     | Some secret \<Rightarrow>
                         (case messageIntegrityOffset raw of
                            None \<Rightarrow> None
                          | Some off \<Rightarrow>
                              if verifyMessageIntegrity raw off secret then snap else None)))
             in Some (buildResponse (m_tx m) reflexive snapshot)))"

text \<open>
  The loop of \<open>Serve\<close> over what its socket and context produce: the answers sent, in
  order, until the context is done or a read fails. A source that is no UDP address has
  the zero reflexive address.
\<close>

datatype 'src net_event = CtxDone | ReadError | Packet bytes 'src

definition zero_addr_port :: addr_port where
  "zero_addr_port = \<lparr>ap_addr = InvalidAddr, ap_port = 0\<rparr>"

definition reflexive_of :: "('src \<Rightarrow> addr_port option) \<Rightarrow> 'src \<Rightarrow> addr_port" where
  "reflexive_of udp src = (case udp src of None \<Rightarrow> zero_addr_port | Some ap \<Rightarrow> ap)"

fun Serve ::
    "('src \<Rightarrow> addr_port option) \<Rightarrow> (string \<Rightarrow> bytes option) \<Rightarrow> bytes option \<Rightarrow> 'src net_event list
      \<Rightarrow> (bytes \<times> 'src) list" where
  "Serve udp lookup snap [] = []"
| "Serve udp lookup snap (CtxDone # evs) = []"
| "Serve udp lookup snap (ReadError # evs) = []"
| "Serve udp lookup snap (Packet raw src # evs) =
     (case handleRequest raw (reflexive_of udp src) lookup snap of
        None \<Rightarrow> Serve udp lookup snap evs
      | Some resp \<Rightarrow> (resp, src) # Serve udp lookup snap evs)"

section \<open>Sharing the port: the demultiplexer\<close>

text \<open>
  \<open>intercept\<close> answers a Binding Request that carries USERNAME and keeps it from the
  caller: \<open>Some resp\<close> is the answer it wrote, \<open>None\<close> leaves the packet to the caller.
\<close>

definition intercept ::
    "('src \<Rightarrow> addr_port option) \<Rightarrow> (string \<Rightarrow> bytes option) \<Rightarrow> bytes option \<Rightarrow> bytes \<Rightarrow> 'src
      \<Rightarrow> bytes option" where
  "intercept udp lookup snap raw src =
     (case parse raw of
        Inl _ \<Rightarrow> None
      | Inr m \<Rightarrow>
          if m_typ m \<noteq> typeBindingRequest then None
          else if get m attrUsername = None then None
          else handleRequest raw (reflexive_of udp src) lookup snap)"

text \<open>
  \<open>demuxConn.ReadFrom\<close>: loops over the packets of the wrapped connection, answering the
  intercepted ones, until one is for the caller (with the packets that remain) or the
  wrapped read fails.
\<close>

fun demux_ReadFrom ::
    "('src \<Rightarrow> addr_port option) \<Rightarrow> (string \<Rightarrow> bytes option) \<Rightarrow> bytes option \<Rightarrow> (bytes \<times> 'src) list
      \<Rightarrow> (bytes \<times> 'src) list \<times> ((bytes \<times> 'src) \<times> (bytes \<times> 'src) list) option" where
  "demux_ReadFrom udp lookup snap [] = ([], None)"
| "demux_ReadFrom udp lookup snap ((raw, src) # ps) =
     (case intercept udp lookup snap raw src of
        None \<Rightarrow> ([], Some ((raw, src), ps))
      | Some resp \<Rightarrow>
          (let (answers, rest) = demux_ReadFrom udp lookup snap ps
           in ((resp, src) # answers, rest)))"

lemma demux_ReadFrom_shorter:
  "demux_ReadFrom udp lookup snap ps = (ans, Some (p, rest)) \<Longrightarrow> length rest < length ps"
  by (induction ps arbitrary: ans) (fastforce split: option.splits prod.splits)+

text \<open>The caller (the TURN server) keeps reading until the connection ends.\<close>

function demux_read_all ::
    "('src \<Rightarrow> addr_port option) \<Rightarrow> (string \<Rightarrow> bytes option) \<Rightarrow> bytes option \<Rightarrow> (bytes \<times> 'src) list
      \<Rightarrow> (bytes \<times> 'src) list \<times> (bytes \<times> 'src) list" where
  "demux_read_all udp lookup snap ps =
     (case demux_ReadFrom udp lookup snap ps of
        (answers, None) \<Rightarrow> (answers, [])
      | (answers, Some (p, rest)) \<Rightarrow>
          (let (answers', delivered) = demux_read_all udp lookup snap rest
           in (answers @ answers', p # delivered)))"
  by pat_completeness auto
termination
  by (relation "measure (\<lambda>(udp, lookup, snap, ps). length ps)")
    (auto dest: demux_ReadFrom_shorter [OF sym])

declare demux_read_all.simps [simp del]

section \<open>The courier\<close>

text \<open>
  \<open>SnapshotCache\<close>: nil until the first \<open>Store\<close>. Copying an empty slice yields nil, so an
  empty stored snapshot loads as nil.
\<close>

type_synonym snapshot_cache = "bytes option"

definition NewSnapshotCache :: snapshot_cache where
  "NewSnapshotCache = None"

definition Store :: "bytes \<Rightarrow> snapshot_cache \<Rightarrow> snapshot_cache" where
  "Store blob c = Some blob"

definition Load :: "snapshot_cache \<Rightarrow> bytes option" where
  "Load c = (case c of None \<Rightarrow> None | Some b \<Rightarrow> if b = [] then None else Some b)"

definition servableSnapshot ::
    "('pub \<Rightarrow> bytes \<Rightarrow> bytes \<Rightarrow> bool) \<Rightarrow> (bytes \<Rightarrow> snapshot option) \<Rightarrow> time \<Rightarrow> 'pub
      \<Rightarrow> snapshot_cache \<Rightarrow> bytes option" where
  "servableSnapshot verify unmarshal now pub cache =
     (case Load cache of
        None \<Rightarrow> None
      | Some cached \<Rightarrow>
          (case Verify verify unmarshal now pub cached of
             Inl _ \<Rightarrow> None
           | Inr _ \<Rightarrow> Some cached))"

definition handleCourierRequest ::
    "('pub \<Rightarrow> bytes \<Rightarrow> bytes \<Rightarrow> bool) \<Rightarrow> (bytes \<Rightarrow> snapshot option) \<Rightarrow> time \<Rightarrow> bytes \<Rightarrow> addr_port
      \<Rightarrow> 'pub \<Rightarrow> snapshot_cache \<Rightarrow> bytes option" where
  "handleCourierRequest verify unmarshal now raw reflexive pub cache =
     (case parse raw of
        Inl _ \<Rightarrow> None
      | Inr m \<Rightarrow>
          if m_typ m \<noteq> typeBindingRequest then None
          else
            (let snapshot =
               (case get m attrProof of
                  None \<Rightarrow> None
                | Some proof \<Rightarrow>
                    (case VerifySigned verify unmarshal pub proof of
                       Inl _ \<Rightarrow> None
                     | Inr _ \<Rightarrow> servableSnapshot verify unmarshal now pub cache))
             in Some (buildResponse (m_tx m) reflexive snapshot)))"

section \<open>The client fetches\<close>

text \<open>
  Address resolution, dialling, the deadline and the socket calls are the parameter
  \<open>exchange\<close>: the datagram that came back for the one sent, or \<open>None\<close> for any of their
  errors. The read buffer holds 65535 bytes.
\<close>

datatype fetch_error =
    FetchIO
  | FetchParse stun_error
  | FetchNotBindingOK
  | FetchTxMismatch
  | ErrNotAuthenticated
  | FetchSnapshot snapshot_error

record fetch_result =
  r_Snapshot :: snapshot
  r_Signed :: bytes

definition read_reply ::
    "('pub \<Rightarrow> bytes \<Rightarrow> bytes \<Rightarrow> bool) \<Rightarrow> (bytes \<Rightarrow> snapshot option) \<Rightarrow> time \<Rightarrow> txID \<Rightarrow> 'pub
      \<Rightarrow> bytes option \<Rightarrow> fetch_error + fetch_result" where
  "read_reply verify unmarshal now tx pub reply =
     (case reply of
        None \<Rightarrow> Inl FetchIO
      | Some dgram \<Rightarrow>
          (case parse (take 65535 dgram) of
             Inl e \<Rightarrow> Inl (FetchParse e)
           | Inr m \<Rightarrow>
               if m_typ m \<noteq> typeBindingSuccess then Inl FetchNotBindingOK
               else if m_tx m \<noteq> tx then Inl FetchTxMismatch
               else
                 (case get m attrSnapshot of
                    None \<Rightarrow> Inl ErrNotAuthenticated
                  | Some blob \<Rightarrow>
                      (case Verify verify unmarshal now pub blob of
                         Inl e \<Rightarrow> Inl (FetchSnapshot e)
                       | Inr snap \<Rightarrow> Inr \<lparr>r_Snapshot = snap, r_Signed = blob\<rparr>))))"

definition Bootstrap ::
    "('pub \<Rightarrow> bytes \<Rightarrow> bytes \<Rightarrow> bool) \<Rightarrow> (bytes \<Rightarrow> snapshot option) \<Rightarrow> time \<Rightarrow> txID
      \<Rightarrow> (bytes \<Rightarrow> bytes option) \<Rightarrow> string \<Rightarrow> bytes option \<Rightarrow> 'pub \<Rightarrow> fetch_error + fetch_result" where
  "Bootstrap verify unmarshal now tx exchange secretID secret pub =
     read_reply verify unmarshal now tx pub (exchange (buildRequest tx secretID secret))"

definition FetchSnapshot_from ::
    "('pub \<Rightarrow> bytes \<Rightarrow> bytes \<Rightarrow> bool) \<Rightarrow> (bytes \<Rightarrow> snapshot option) \<Rightarrow> time \<Rightarrow> txID
      \<Rightarrow> (bytes \<Rightarrow> bytes option) \<Rightarrow> bytes \<Rightarrow> 'pub \<Rightarrow> fetch_error + fetch_result" where
  "FetchSnapshot_from verify unmarshal now tx exchange proof pub =
     read_reply verify unmarshal now tx pub (exchange (buildCourierRequest tx proof))"

section \<open>Who gets a snapshot\<close>

lemma handleRequest_plain_or_authenticated:
  "handleRequest raw reflexive lookup snap = BindingResponse raw reflexive \<or>
    (\<exists>m u key off. parse raw = Inr m \<and> get m attrUsername = Some u
      \<and> lookup (string_of_bytes u) = Some key
      \<and> messageIntegrityOffset raw = Some off \<and> verifyMessageIntegrity raw off key)"
  by (auto simp: handleRequest_def BindingResponse_def split: sum.splits option.splits)

text \<open>C6: a packet that does not carry, at its MESSAGE-INTEGRITY offset, the HMAC of its own
  prefix under the secret stored for the USERNAME it names is answered with exactly the
  bytes a plain STUN server sends (or dropped exactly when one would drop it): the response
  leaks neither the snapshot nor whether the name is known.\<close>

theorem prober_sees_plain_stun:
  "handleRequest raw reflexive lookup snap = BindingResponse raw reflexive \<or>
    (\<exists>m u key off body. parse raw = Inr m \<and> get m attrUsername = Some u
      \<and> lookup (string_of_bytes u) = Some key \<and> headerLen \<le> off \<and> off + 24 \<le> length raw
      \<and> length body = off \<and> drop 4 body = drop 4 (take off raw)
      \<and> take 20 (drop (off + 4) raw) = hmacSHA1 key body)"
proof -
  have "\<exists>body. headerLen \<le> off \<and> off + 24 \<le> length raw \<and> length body = off
      \<and> drop 4 body = drop 4 (take off raw) \<and> take 20 (drop (off + 4) raw) = hmacSHA1 key body"
    if "verifyMessageIntegrity raw off key" for off key
  proof -
    let ?body = "take 2 (take off raw)
      @ put_uint16 (word_of_nat (off - headerLen + messageIntegrityAttrLen)) @ drop 4 (take off raw)"
    from that have "headerLen \<le> off" "off + 24 \<le> length raw"
      "hmacSHA1 key ?body = take 20 (drop (off + 4) raw)"
      unfolding verifyMessageIntegrity_def Let_def
      by (simp_all only: split: if_splits) simp_all
    moreover from this have "length ?body = off" "drop 4 ?body = drop 4 (take off raw)"
      by (simp_all add: headerLen_def)
    ultimately show ?thesis by metis
  qed
  with handleRequest_plain_or_authenticated [of raw reflexive lookup snap] show ?thesis
    by blast
qed

lemma parse_buildRequest:
  assumes "tx_ok tx" and "length username \<le> 65000"
  shows "\<exists>m. parse (buildRequest tx username (Some k)) = Inr m \<and> m_typ m = typeBindingRequest
    \<and> m_tx m = tx \<and> get m attrUsername = Some (bytes_of_string username)"
proof -
  have "parse (buildRequest tx username (Some k)) =
    Inr \<lparr>m_typ = typeBindingRequest, m_tx = tx,
         m_attrs = fp_attrs typeBindingRequest tx (request_attrs tx username k)\<rparr>"
    unfolding buildRequest_Some
    using request_attrs_fit [OF assms(2)] assms(1) by (intro parse_with_fingerprint)
  moreover have "get_attr (fp_attrs typeBindingRequest tx (request_attrs tx username k)) attrUsername
      = Some (bytes_of_string username)"
    by (subst get_fp_attrs) (simp_all add: request_attrs_def stun_consts Let_def)
  ultimately show ?thesis by (simp add: get_def)
qed

lemma handleRequest_genuine:
  assumes "tx_ok tx" and "length username \<le> 65000" and "lookup username = Some k"
  shows "handleRequest (buildRequest tx username (Some k)) reflexive lookup snap =
    Some (buildResponse tx reflexive snap)"
proof -
  let ?raw = "buildRequest tx username (Some k)"
  obtain m where "parse ?raw = Inr m" "m_typ m = typeBindingRequest" "m_tx m = tx"
    "get m attrUsername = Some (bytes_of_string username)"
    using parse_buildRequest [OF assms(1,2)] by blast
  moreover obtain off where "messageIntegrityOffset ?raw = Some off"
    "verifyMessageIntegrity ?raw off k"
    using request_integrity [OF assms(1,2)] by blast
  ultimately show ?thesis
    using assms(3) by (simp add: handleRequest_def)
qed

text \<open>
  The interface \<open>SecretStore\<close> the server relies on, with the operator's side of it: what
  a lookup returns after secrets were issued.
\<close>

locale secret_store =
  fixes empty :: 's
    and add :: "string \<Rightarrow> bytes \<Rightarrow> 's \<Rightarrow> 's"
    and lookup :: "'s \<Rightarrow> string \<Rightarrow> bytes option"
  assumes lookup_empty: "lookup empty i = None"
    and lookup_add: "lookup (add i k s) j = (if j = i then Some k else lookup s j)"
begin

lemma issued_secret_served:
  assumes "tx_ok tx" and "length i \<le> 65000"
  shows "handleRequest (buildRequest tx i (Some k)) reflexive (lookup (add i k s)) snap =
    Some (buildResponse tx reflexive snap)"
  using assms by (intro handleRequest_genuine) (simp_all add: lookup_add)

lemma empty_store_serves_nobody:
  "handleRequest raw reflexive (lookup empty) snap = BindingResponse raw reflexive"
  by (auto simp: handleRequest_def BindingResponse_def lookup_empty split: sum.splits option.splits)

lemma other_secrets_kept:
  assumes "tx_ok tx" and "length i \<le> 65000" and "lookup s i = Some k" and "j \<noteq> i"
  shows "handleRequest (buildRequest tx i (Some k)) reflexive (lookup (add j k' s)) snap =
    Some (buildResponse tx reflexive snap)"
  using assms by (intro handleRequest_genuine) (simp_all add: lookup_add)

end

interpretation mem_secrets: secret_store NewMemStore Add Lookup
  by unfold_locales (simp_all add: NewMemStore_def Add_def Lookup_def)

text \<open>a request built with an issued secret is answered with the snapshot, and issuing
  further secrets to other ids does not lock the holder out.\<close>

lemma issued_secret_gets_snapshot:
  assumes "tx_ok tx" and "length i \<le> 65000" and "j \<noteq> i"
  shows "handleRequest (buildRequest tx i (Some k)) reflexive (Lookup (Add j k' (Add i k s))) snap =
    Some (buildResponse tx reflexive snap)"
  using assms by (intro mem_secrets.other_secrets_kept) (simp_all add: mem_secrets.lookup_add)

section \<open>What a client accepts\<close>

lemma VerifySigned_Inr:
  "VerifySigned verify unmarshal pub blob = Inr snap \<longleftrightarrow>
    (\<exists>body sig. blob = body @ sig \<and> length sig = signedLen \<and> body \<noteq> [] \<and> verify pub body sig
      \<and> unmarshal body = Some snap)"
  (is "?L \<longleftrightarrow> ?R")
proof
  let ?b = "take (length blob - signedLen) blob" and ?s = "drop (length blob - signedLen) blob"
  assume ?L
  then have "length blob > signedLen" "verify pub ?b ?s" "unmarshal ?b = Some snap"
    by (auto simp: VerifySigned_def Let_def split: if_splits option.splits)
  moreover from this(1) have "blob = ?b @ ?s" "length ?s = signedLen" "?b \<noteq> []"
    by auto
  ultimately show ?R by blast
next
  assume ?R
  then show ?L by (auto simp: VerifySigned_def Let_def)
qed

lemma Verify_Inr:
  "Verify verify unmarshal now pub blob = Inr snap \<longleftrightarrow>
    VerifySigned verify unmarshal pub blob = Inr snap \<and> now \<le> s_ExpiresAt snap"
  by (auto simp: Verify_def split: sum.splits if_splits)

lemma read_reply_Inr:
  "read_reply verify unmarshal now tx pub reply = Inr r \<Longrightarrow>
    Verify verify unmarshal now pub (r_Signed r) = Inr (r_Snapshot r)"
  by (auto simp: read_reply_def split: option.splits sum.splits if_splits)

text \<open>whatever the network or a hostile courier answers, a fetch that succeeds yields a
  directory whose bytes end in a signature the coordinator's key verifies, decoded from
  exactly the signed bytes, and not yet expired.\<close>

lemma fetch_only_signed_and_fresh:
  assumes "Bootstrap verify unmarshal now tx exchange secretID secret pub = Inr r
    \<or> FetchSnapshot_from verify unmarshal now tx exchange proof pub = Inr r"
  shows "\<exists>body sig. r_Signed r = body @ sig \<and> length sig = 64 \<and> verify pub body sig
    \<and> unmarshal body = Some (r_Snapshot r) \<and> now \<le> s_ExpiresAt (r_Snapshot r)"
proof -
  from assms have "Verify verify unmarshal now pub (r_Signed r) = Inr (r_Snapshot r)"
    unfolding Bootstrap_def FetchSnapshot_from_def by (blast dest: read_reply_Inr)
  then show ?thesis
    by (auto simp: Verify_Inr VerifySigned_Inr signedLen_def)
qed

lemma length_buildResponse:
  assumes "tx_ok tx" and "addr_ok (ap_addr ap)"
    and "case snapshot of None \<Rightarrow> True | Some s \<Rightarrow> length s \<le> 65000"
  shows "length (buildResponse tx ap snapshot) \<le> 65535"
proof -
  let ?as = "attribute_of attrXORMappedAddress (encodeXORMapped ap tx)
    # (case snapshot of None \<Rightarrow> [] | Some s \<Rightarrow> [attribute_of attrSnapshot s])"
  have bound: "length (encode_attr a) \<le> length (a_val a) + 7" for a
    using pad_len_less [of "length (a_val a)"] by (simp add: length_encode_attr advance_def)
  have "length (encodeAttrs ?as) \<le> 65034"
    using bound [of "attribute_of attrXORMappedAddress (encodeXORMapped ap tx)"]
      length_encodeXORMapped [OF assms(1,2)]
      bound [of "attribute_of attrSnapshot (the snapshot)"] assms(3)
    by (auto split: option.splits)
  then show ?thesis
    using assms(1)
    by (simp add: buildResponse_def with_fingerprint_eq length_fp_attrs headerLen_def
        del: encodeAttrs_simps)
qed

lemma read_reply_of_response:
  assumes "tx_ok tx" and "addr_ok (ap_addr ap)" and "length blob \<le> 65000"
    and "Verify verify unmarshal now pub blob = Inr snap"
  shows "read_reply verify unmarshal now tx pub (Some (buildResponse tx ap (Some blob))) =
    Inr \<lparr>r_Snapshot = snap, r_Signed = blob\<rparr>"
proof -
  have len: "take 65535 (buildResponse tx ap (Some blob)) = buildResponse tx ap (Some blob)"
    using length_buildResponse [OF assms(1,2), of "Some blob"] assms(3) by simp
  obtain m where "parse (buildResponse tx ap (Some blob)) = Inr m" "m_typ m = typeBindingSuccess"
    "m_tx m = tx" "get m attrSnapshot = Some blob"
    using parse_buildResponse [OF assms(1,2), of "Some blob"] assms(3) by auto
  with assms(4) len show ?thesis
    by (simp add: read_reply_def)
qed

text \<open>No datagram carries a larger snapshot: the value of an attribute lies within the bytes read.\<close>

lemma parse_attrs_within: "a \<in> set (parse_attrs p) \<Longrightarrow> length (a_val a) + 4 \<le> length p"
proof (induction p rule: parse_attrs.induct)
  case (1 p)
  then show ?case by (subst (asm) (2) parse_attrs.simps) (fastforce simp: Let_def split: if_splits)
qed

lemma get_attr_within: "get_attr as t = Some v \<Longrightarrow> \<exists>a \<in> set as. a_val a = v"
  by (induction as) (auto split: if_splits)

lemma fetched_within:
  assumes "read_reply verify unmarshal now tx pub reply = Inr r" shows "length (r_Signed r) \<le> 65511"
proof -
  obtain dgram m where m: "parse (take 65535 dgram) = Inr m" "get m attrSnapshot = Some (r_Signed r)"
    using assms by (auto simp: read_reply_def split: option.splits sum.splits if_splits)
  obtain p where p: "m_attrs m = parse_attrs p" "length p \<le> 65515"
    using m(1) by (auto simp: parse_def Let_def headerLen_def split: if_splits)
  obtain a where "a \<in> set (parse_attrs p)" "a_val a = r_Signed r"
    using get_attr_within [of "parse_attrs p"] m(2) unfolding get_def p(1) by blast
  then show ?thesis using parse_attrs_within [of a p] p(2) by simp
qed

lemma Sign_Verify:
  assumes "Sign marshal sign priv snap = Some blob" and "marshal snap = Some body" "unmarshal body = Some snap" "body \<noteq> []"
    and "length (sign priv body) = signedLen" "verify pub body (sign priv body)" and "now \<le> s_ExpiresAt snap"
  shows "Verify verify unmarshal now pub blob = Inr snap"
  using assms by (auto simp: Sign_def Verify_Inr VerifySigned_Inr)

text \<open>C34: end to end, a client with an issued secret that reaches the coordinator obtains the
  directory the coordinator signed, as long as its signed form is at most 65000 bytes: the
  request authenticates, the response is parsed back and the snapshot inside it verifies under
  the coordinator's key until it expires. A directory of more than 65511 bytes is obtained by
  nobody, whatever the network answers.\<close>

theorem bootstrap_end_to_end:
  assumes "tx_ok tx" and "addr_ok (ap_addr reflexive)" and "length i \<le> 65000"
    and "Lookup store i = Some k"
    and "\<forall>m. length (sign priv m) = signedLen \<and> verify pub m (sign priv m)"
    and "marshal snap = Some body" and "unmarshal body = Some snap" and "body \<noteq> []"
    and "now \<le> s_ExpiresAt snap"
  shows "\<exists>blob. Sign marshal sign priv snap = Some blob
    \<and> (length blob \<le> 65000 \<longrightarrow>
        Bootstrap verify unmarshal now tx
          (\<lambda>req. handleRequest req reflexive (Lookup store) (Some blob)) i (Some k) pub =
        Inr \<lparr>r_Snapshot = snap, r_Signed = blob\<rparr>)
    \<and> (65511 < length blob \<longrightarrow>
        (\<forall>exchange. Bootstrap verify unmarshal now tx exchange i (Some k) pub \<noteq> Inr \<lparr>r_Snapshot = snap, r_Signed = blob\<rparr>))"
proof -
  obtain blob where blob: "Sign marshal sign priv snap = Some blob" using assms(6) by (simp add: Sign_def)
  have "Verify verify unmarshal now pub blob = Inr snap" using assms by (intro Sign_Verify [OF blob]) auto
  then have "length blob \<le> 65000 \<longrightarrow> Bootstrap verify unmarshal now tx
      (\<lambda>req. handleRequest req reflexive (Lookup store) (Some blob)) i (Some k) pub = Inr \<lparr>r_Snapshot = snap, r_Signed = blob\<rparr>"
    using assms(1-4) by (simp add: Bootstrap_def handleRequest_genuine read_reply_of_response)
  moreover have "65511 < length blob \<longrightarrow>
      (\<forall>exchange. Bootstrap verify unmarshal now tx exchange i (Some k) pub \<noteq> Inr \<lparr>r_Snapshot = snap, r_Signed = blob\<rparr>)"
    unfolding Bootstrap_def using fetched_within by fastforce
  ultimately show ?thesis using blob by blast
qed

text \<open>A concrete signer and codec for the witnesses: the signature is 64 copies of the key
  byte, and a body decodes to the empty directory that expires at time 100.\<close>

definition demo_verify :: "byte \<Rightarrow> bytes \<Rightarrow> bytes \<Rightarrow> bool" where
  "demo_verify pub body sig \<longleftrightarrow> sig = replicate 64 pub"

definition demo_snapshot :: snapshot where
  "demo_snapshot = \<lparr>s_Version = 1, s_IssuedAt = 0, s_ExpiresAt = 100, s_Entries = []\<rparr>"

definition demo_unmarshal :: "bytes \<Rightarrow> snapshot option" where
  "demo_unmarshal body = (if body = [123] then Some demo_snapshot else None)"

definition demo_blob :: bytes where
  "demo_blob = 123 # replicate 64 5"

lemma length_demo_blob [simp]: "length demo_blob = 65"
  by (simp add: demo_blob_def)

definition demo_marshal :: "snapshot \<Rightarrow> bytes option" where
  "demo_marshal snap = (if snap = demo_snapshot then Some [123] else None)"

theorem bootstrap_end_to_end_witness:
  "Sign demo_marshal (\<lambda>priv m. replicate 64 priv) 5 demo_snapshot = Some demo_blob
   \<and> Bootstrap demo_verify demo_unmarshal 50 (replicate 12 3)
      (\<lambda>req. handleRequest req zero_addr_port (Lookup (Add ''ab01'' [1, 2] NewMemStore)) (Some demo_blob))
      ''ab01'' (Some [1, 2]) 5 =
    Inr \<lparr>r_Snapshot = demo_snapshot, r_Signed = demo_blob\<rparr>"
proof -
  have signed: "Sign demo_marshal (\<lambda>priv m. replicate 64 priv) 5 demo_snapshot = Some demo_blob"
    by (simp add: Sign_def demo_marshal_def demo_blob_def)
  have "\<exists>blob. Sign demo_marshal (\<lambda>priv m. replicate 64 priv) 5 demo_snapshot = Some blob
    \<and> (length blob \<le> 65000 \<longrightarrow> Bootstrap demo_verify demo_unmarshal 50 (replicate 12 3)
      (\<lambda>req. handleRequest req zero_addr_port (Lookup (Add ''ab01'' [1, 2] NewMemStore)) (Some blob))
      ''ab01'' (Some [1, 2]) 5 = Inr \<lparr>r_Snapshot = demo_snapshot, r_Signed = blob\<rparr>)
    \<and> (65511 < length blob \<longrightarrow> (\<forall>exchange. Bootstrap demo_verify demo_unmarshal 50 (replicate 12 3) exchange ''ab01'' (Some [1, 2]) 5
        \<noteq> Inr \<lparr>r_Snapshot = demo_snapshot, r_Signed = blob\<rparr>))"
    by (rule bootstrap_end_to_end [where body = "[123]"])
      (simp_all add: tx_ok_def zero_addr_port_def Lookup_def Add_def demo_marshal_def demo_unmarshal_def demo_verify_def signedLen_def demo_snapshot_def)
  then show ?thesis using signed by auto
qed

section \<open>The courier\<close>

text \<open>a courier attaches a snapshot only for a request whose PROOF is a blob signed by the
  coordinator's key, and what it attaches verifies under that key and has not expired;
  every other request gets the plain STUN answer.\<close>

lemma courier_serves_only_fresh_to_proof:
  "handleCourierRequest verify unmarshal now raw reflexive pub cache = BindingResponse raw reflexive \<or>
    (\<exists>m proof old cached snap. parse raw = Inr m \<and> get m attrProof = Some proof
      \<and> VerifySigned verify unmarshal pub proof = Inr old
      \<and> cache = Some cached \<and> Verify verify unmarshal now pub cached = Inr snap
      \<and> now \<le> s_ExpiresAt snap
      \<and> handleCourierRequest verify unmarshal now raw reflexive pub cache =
          Some (buildResponse (m_tx m) reflexive (Some cached)))"
  by (auto simp: handleCourierRequest_def BindingResponse_def servableSnapshot_def Load_def Verify_Inr
      split: sum.splits option.splits)

lemma parse_buildCourierRequest:
  assumes "tx_ok tx" and "length proof \<le> 65000"
  shows "\<exists>m. parse (buildCourierRequest tx proof) = Inr m \<and> m_typ m = typeBindingRequest
    \<and> m_tx m = tx \<and> get m attrProof = Some proof"
proof -
  have "parse (buildCourierRequest tx proof) =
    Inr \<lparr>m_typ = typeBindingRequest, m_tx = tx,
         m_attrs = fp_attrs typeBindingRequest tx [attribute_of attrProof proof]\<rparr>"
    unfolding buildCourierRequest_def
    using assms pad_len_less [of "length proof"]
    by (intro parse_with_fingerprint)
      (simp_all add: attr_fits_def length_encode_attr advance_def)
  moreover have "get_attr (fp_attrs typeBindingRequest tx [attribute_of attrProof proof]) attrProof
      = Some proof"
    by (subst get_fp_attrs) (simp_all add: stun_consts)
  ultimately show ?thesis by (simp add: get_def)
qed

text \<open>mesh-walk recovery works: a client presenting any blob its coordinator once signed,
  however stale, obtains from a courier the snapshot the courier stored, as long as that one
  is still fresh.\<close>

lemma mesh_walk_end_to_end:
  assumes "tx_ok tx" and "addr_ok (ap_addr reflexive)"
    and "length proof \<le> 65000" and "VerifySigned verify unmarshal pub proof = Inr old"
    and "length blob \<le> 65000" and "Verify verify unmarshal now pub blob = Inr snap"
  shows "FetchSnapshot_from verify unmarshal now tx
      (\<lambda>req. handleCourierRequest verify unmarshal now req reflexive pub (Store blob cache)) proof pub =
    Inr \<lparr>r_Snapshot = snap, r_Signed = blob\<rparr>"
proof -
  have ne: "blob \<noteq> []"
    using assms(6) by (auto simp: Verify_Inr VerifySigned_Inr)
  obtain m where "parse (buildCourierRequest tx proof) = Inr m" "m_typ m = typeBindingRequest"
    "m_tx m = tx" "get m attrProof = Some proof"
    using parse_buildCourierRequest [OF assms(1,3)] by blast
  with assms(4,6) ne have "handleCourierRequest verify unmarshal now (buildCourierRequest tx proof)
      reflexive pub (Store blob cache) = Some (buildResponse tx reflexive (Some blob))"
    by (simp add: handleCourierRequest_def servableSnapshot_def Load_def Store_def)
  then show ?thesis
    using assms by (simp add: FetchSnapshot_from_def read_reply_of_response)
qed

section \<open>The demultiplexer\<close>

definition bootstrap_shaped :: "bytes \<Rightarrow> bool" where
  "bootstrap_shaped raw \<longleftrightarrow>
     (case parse raw of
        Inl _ \<Rightarrow> False
      | Inr m \<Rightarrow> m_typ m = typeBindingRequest \<and> get m attrUsername \<noteq> None)"

lemma intercept_eq:
  "intercept udp lookup snap raw src =
    (if bootstrap_shaped raw then handleRequest raw (reflexive_of udp src) lookup snap else None)"
  by (auto simp: intercept_def bootstrap_shaped_def split: sum.splits)

lemma bootstrap_shaped_answered:
  "bootstrap_shaped raw \<Longrightarrow> \<exists>resp. handleRequest raw ap lookup snap = Some resp"
  by (auto simp: bootstrap_shaped_def handleRequest_def split: sum.splits)

text \<open>What the demultiplexer answers to one intercepted packet.\<close>

definition demux_answer ::
    "('src \<Rightarrow> addr_port option) \<Rightarrow> (string \<Rightarrow> bytes option) \<Rightarrow> bytes option \<Rightarrow> bytes \<times> 'src
      \<Rightarrow> bytes \<times> 'src" where
  "demux_answer udp lookup snap p =
     (the (handleRequest (fst p) (reflexive_of udp (snd p)) lookup snap), snd p)"

lemma demux_ReadFrom_takeWhile:
  "demux_ReadFrom udp lookup snap ps =
    (map (demux_answer udp lookup snap) (takeWhile (bootstrap_shaped \<circ> fst) ps),
     case dropWhile (bootstrap_shaped \<circ> fst) ps of [] \<Rightarrow> None | p # rest \<Rightarrow> Some (p, rest))"
proof (induction ps)
  case Nil
  then show ?case by simp
next
  case (Cons p ps)
  obtain raw src where p: "p = (raw, src)" by (cases p)
  show ?case
  proof (cases "bootstrap_shaped raw")
    case True
    then obtain resp where "handleRequest raw (reflexive_of udp src) lookup snap = Some resp"
      using bootstrap_shaped_answered by blast
    with True Cons.IH p show ?thesis
      by (simp add: intercept_eq demux_answer_def)
  qed (simp add: p intercept_eq)
qed

text \<open>on the shared port the TURN server behind the demultiplexer receives exactly the
  packets that are no bootstrap request, unmodified and in order, and every bootstrap request
  is answered exactly once with what the bootstrap server answers.\<close>

lemma demux_partitions_traffic:
  "demux_read_all udp lookup snap ps =
    (map (\<lambda>(raw, src). (the (handleRequest raw (reflexive_of udp src) lookup snap), src))
       (filter (\<lambda>(raw, src). bootstrap_shaped raw) ps),
     filter (\<lambda>(raw, src). \<not> bootstrap_shaped raw) ps)"
proof -
  have "demux_read_all udp lookup snap ps =
    (map (demux_answer udp lookup snap) (filter (bootstrap_shaped \<circ> fst) ps),
     filter (Not \<circ> bootstrap_shaped \<circ> fst) ps)"
  proof (induction udp lookup snap ps rule: demux_read_all.induct)
    case (1 udp lookup snap ps)
    let ?P = "bootstrap_shaped \<circ> fst"
    have split: "ps = takeWhile ?P ps @ dropWhile ?P ps" by simp
    have front: "filter ?P (takeWhile ?P ps) = takeWhile ?P ps"
      "filter (Not \<circ> ?P) (takeWhile ?P ps) = []"
      by (auto simp: filter_empty_conv filter_id_conv dest: set_takeWhileD)
    note step = demux_ReadFrom_takeWhile [of udp lookup snap ps]
    show ?case
    proof (cases "dropWhile ?P ps")
      case Nil
      then have "filter ?P ps = takeWhile ?P ps" "filter (Not \<circ> ?P) ps = []"
        using split front by (metis append_Nil2)+
      moreover have "demux_ReadFrom udp lookup snap ps =
          (map (demux_answer udp lookup snap) (takeWhile ?P ps), None)"
        unfolding step Nil by simp
      ultimately show ?thesis
        by (subst demux_read_all.simps) (simp only: comp_assoc case_prod_conv option.case)
    next
      case (Cons p rest)
      then have "\<not> ?P p"
        using hd_dropWhile [of ?P ps] by simp
      moreover have "ps = takeWhile ?P ps @ p # rest"
        using split Cons by simp
      ultimately have "filter ?P ps = takeWhile ?P ps @ filter ?P rest"
        "filter (Not \<circ> ?P) ps = p # filter (Not \<circ> ?P) rest"
        using front by (metis (no_types, lifting) append_self_conv2 comp_apply filter.simps(2) filter_append)+
      with 1 [OF step [symmetric]] Cons step show ?thesis
        by (subst demux_read_all.simps) (simp add: comp_assoc, simp add: o_def)
    qed
  qed
  then show ?thesis
    by (simp add: demux_answer_def case_prod_unfold comp_def)
qed

end
