(* ===== verification/Capacity.thy ===== *)
theory Capacity
  imports Prelude
begin

text \<open>
  The arithmetic of \<open>core/capacity\<close> that assignment runs on: the declared limits of
  \<open>limits.go\<close> and their validation, \<open>Usable\<close> of \<open>estimator.go\<close>, and the ranking functions
  of \<open>assign.go\<close>. Rates and byte counts are unsigned 64-bit words, so that every sum and
  quotient wraps where the Go code wraps. A Go \<open>int\<close> argument is an \<open>int\<close>; its conversion to
  \<open>Rate\<close> is reduction modulo \<open>2 ^ 64\<close>.
\<close>

section \<open>Units and declared limits (limits.go)\<close>

type_synonym rate = uint64

type_synonym byte_count = uint64

definition Kbit :: rate where "Kbit = 1000"

definition Mbit :: rate where "Mbit = 1000 * Kbit"

definition Gbit :: rate where "Gbit = 1000 * Mbit"

definition KB :: byte_count where "KB = 1000"

definition MB :: byte_count where "MB = 1000 * KB"

definition GB :: byte_count where "GB = 1000 * MB"

definition TB :: byte_count where "TB = 1000 * GB"

lemmas unit_defs = Kbit_def Mbit_def Gbit_def KB_def MB_def GB_def TB_def

record limits =
  SpeedCap :: rate
  MonthlyQuota :: byte_count
  CycleDay :: int

datatype limits_error = CycleDayOutOfRange int | CycleDayWithoutQuota int

definition limits_Validate :: "limits \<Rightarrow> limits_error option" where
  "limits_Validate l =
     (if CycleDay l < 0 \<or> CycleDay l > 28 then Some (CycleDayOutOfRange (CycleDay l))
      else if CycleDay l > 0 \<and> MonthlyQuota l = 0 then Some (CycleDayWithoutQuota (CycleDay l))
      else None)"

lemma limits_Validate_None:
  "limits_Validate l = None \<longleftrightarrow>
    0 \<le> CycleDay l \<and> CycleDay l \<le> 28 \<and> (MonthlyQuota l = 0 \<longrightarrow> CycleDay l = 0)"
  by (auto simp: limits_Validate_def)

section \<open>The usable rate (estimator.go)\<close>

definition Usable :: "rate \<Rightarrow> rate \<Rightarrow> rate" where
  "Usable declared measured =
     (if declared = 0 then measured
      else if measured < declared then measured
      else declared)"

lemma Usable_le_measured: "Usable declared measured \<le> measured"
  by (auto simp: Usable_def)

lemma Usable_min: "declared \<noteq> 0 \<Longrightarrow> Usable declared measured = min declared measured"
  by (auto simp: Usable_def min_def)

section \<open>Ranking (assign.go)\<close>

text \<open>\<open>None\<close> is the \<open>unlimited\<close> result, whose share the code leaves at zero.\<close>

definition ProjectedShare :: "rate \<Rightarrow> int \<Rightarrow> rate option" where
  "ProjectedShare usable sessions =
     (if usable = 0 then None
      else Some (usable div word_of_int ((if sessions < 0 then 0 else sessions) + 1)))"

definition RankShare :: "rate \<Rightarrow> int \<Rightarrow> bool \<Rightarrow> rate \<Rightarrow> rate" where
  "RankShare usable sessions rated ceil =
     (let usable = (if \<not> rated \<or> usable = 0 \<or> usable > ceil then ceil else usable)
      in case ProjectedShare usable sessions of None \<Rightarrow> 0 | Some share \<Rightarrow> share)"

definition OctaveFloor :: "rate \<Rightarrow> rate" where
  "OctaveFloor best = (best + 1) div 2"

definition Unmetered :: "uint64 \<Rightarrow> bool \<Rightarrow> bool" where
  "Unmetered declared rated \<longleftrightarrow> \<not> rated \<and> declared = 0"

definition Full :: "rate \<Rightarrow> int \<Rightarrow> bool \<Rightarrow> rate \<Rightarrow> bool" where
  "Full usable sessions unmetered minShare =
     (if minShare = 0 then False
      else if unmetered then False
      else case ProjectedShare usable sessions of
             None \<Rightarrow> False
           | Some share \<Rightarrow> share < minShare)"

section \<open>Laws of the ranking\<close>

lemma unat_session_count:
  "0 \<le> n \<Longrightarrow> n < 2 ^ 64 - 1 \<Longrightarrow> unat (word_of_int n + 1 :: uint64) = nat n + 1"
proof -
  assume n: "0 \<le> n" "n < 2 ^ 64 - 1"
  have "uint (word_of_int (n + 1) :: uint64) = (n + 1) mod 2 ^ 64"
    unfolding uint_word_of_int by simp
  also have "\<dots> = n + 1"
    using n by (intro mod_pos_pos_trivial) simp_all
  finally show ?thesis
    using n by (simp add: unat_eq_nat_uint nat_add_distrib)
qed

lemma unat_ProjectedShare:
  assumes "ProjectedShare usable n = Some share" and "0 \<le> n" and "n \<le> max_int64"
  shows "unat share = unat usable div (nat n + 1)"
  using assms unat_session_count [of n]
  by (auto simp: ProjectedShare_def max_int64_def unat_div split: if_splits)

lemma ProjectedShare_le:
  "ProjectedShare usable n = Some share \<Longrightarrow> share \<le> usable"
  by (auto simp: ProjectedShare_def word_le_nat_alt unat_div split: if_splits)

lemma RankShare_le_ceiling: "RankShare usable n rated ceil \<le> ceil"
  by (auto simp: RankShare_def Let_def dest: ProjectedShare_le split: option.splits if_splits)

lemma unat_RankShare:
  assumes "0 \<le> n" and "n \<le> max_int64"
  shows "unat (RankShare usable n rated ceil) =
    (if \<not> rated \<or> usable = 0 \<or> ceil < usable then unat ceil else unat usable) div (nat n + 1)"
proof -
  have "n < 2 ^ 64 - 1" using assms by (simp add: max_int64_def)
  with assms show ?thesis
    by (simp add: RankShare_def Let_def ProjectedShare_def unat_session_count unat_div
        split: option.splits)
qed

text \<open>An unrated node ranks exactly as a node that declared nothing, whatever it declares.\<close>

lemma RankShare_unrated:
  "RankShare declared n False ceil = RankShare 0 n False ceil"
  by (simp add: RankShare_def)

text \<open>
  The band below the best candidate. The increment only wraps for a best share of
  \<open>2 ^ 64 - 1\<close>, where the floor is zero and the band is everything.
\<close>

lemma unat_OctaveFloor:
  "best \<noteq> - 1 \<Longrightarrow> unat (OctaveFloor best) = (unat best + 1) div 2"
proof -
  assume "best \<noteq> - 1"
  then have "1 + best \<noteq> 0"
    by (metis add_eq_0_iff add.commute)
  then have "unat (best + 1) = unat best + 1"
    by (simp add: add.commute unatSuc)
  then show ?thesis
    by (simp add: OctaveFloor_def unat_div)
qed

lemma OctaveFloor_max: "OctaveFloor (- 1) = 0"
  by (simp add: OctaveFloor_def)

lemma OctaveFloor_band:
  assumes "best \<noteq> - 1"
  shows "OctaveFloor best \<le> share \<longleftrightarrow> unat best \<le> 2 * unat share"
  using unat_OctaveFloor [OF assms] by (auto simp: word_le_nat_alt)

lemma OctaveFloor_le: "OctaveFloor best \<le> best"
proof (cases "best = - 1")
  case True
  then show ?thesis by (simp add: OctaveFloor_max)
next
  case False
  then show ?thesis by (simp add: OctaveFloor_band)
qed

lemma Full_zero_floor [simp]: "\<not> Full usable n unmetered 0"
  by (simp add: Full_def)

lemma Full_unmetered [simp]: "\<not> Full usable n True minShare"
  by (simp add: Full_def)

lemma Full_antimono_floor: "Full usable n u lo \<Longrightarrow> lo \<le> hi \<Longrightarrow> Full usable n u hi"
  by (auto simp: Full_def split: if_splits option.splits)

end
