(* ===== verification/Calendar.thy ===== *)
theory Calendar
  imports Prelude
begin

text \<open>
  The part of Go's \<open>time\<close> package the quota's billing cycle uses: the civil date of an
  instant, the instant of a civil date at midnight, and moving a date by whole months. Dates
  are proleptic Gregorian. A location is its offset from UTC in nanoseconds, as
  \<open>time.FixedZone\<close> makes one. A month is numbered by \<open>12 * year + (month - 1)\<close>, so that the
  predecessor of January is December of the year before.
\<close>

section \<open>Days and months\<close>

text \<open>Day 0 is 1 January of year 1; \<open>jan1 y\<close> is the number of 1 January of year \<open>y\<close>.\<close>

definition jan1 :: "int \<Rightarrow> int" where
  "jan1 y = 365 * (y - 1) + (y - 1) div 4 - (y - 1) div 100 + (y - 1) div 400"

definition leap :: "int \<Rightarrow> bool" where
  "leap y \<longleftrightarrow> y mod 4 = 0 \<and> (y mod 100 \<noteq> 0 \<or> y mod 400 = 0)"

text \<open>The days of a year before its month \<open>m\<close> (0 is January), in a common year.\<close>

definition days_before :: "int \<Rightarrow> int" where
  "days_before m = [0, 31, 59, 90, 120, 151, 181, 212, 243, 273, 304, 334] ! nat m"

definition month_start :: "int \<Rightarrow> int" where
  "month_start k =
     jan1 (k div 12) + days_before (k mod 12) + (if 1 < k mod 12 \<and> leap (k div 12) then 1 else 0)"

lemma div_succ:
  fixes a c :: int
  assumes "0 < c"
  shows "a div c = (a - 1) div c + (if a mod c = 0 then 1 else 0)"
proof (cases "a mod c = 0")
  case True
  then have "a - 1 = c * (a div c - 1) + (c - 1)"
    using mult_div_mod_eq [of c a] by (simp add: algebra_simps)
  then have "(a - 1) div c = a div c - 1"
    by (rule int_div_pos_eq) (use assms in simp_all)
  with True show ?thesis by simp
next
  case False
  have "a - 1 = c * (a div c) + (a mod c - 1)"
    using mult_div_mod_eq [of c a] by (simp add: algebra_simps)
  moreover have "0 \<le> a mod c - 1" "a mod c - 1 < c"
    using False assms pos_mod_sign [of c a] pos_mod_bound [of c a] by linarith+
  ultimately have "(a - 1) div c = a div c"
    by (rule int_div_pos_eq)
  with False show ?thesis by simp
qed

lemma count_bool:
  "(r \<Longrightarrow> q) \<Longrightarrow> (q \<Longrightarrow> p) \<Longrightarrow>
    (if p \<and> (\<not> q \<or> r) then 1 else 0 :: int) =
      (if p then 1 else 0) - (if q then 1 else 0) + (if r then 1 else 0)"
  by (cases p; cases q; cases r) auto

lemma leap_count:
  "(if leap y then 1 else 0 :: int) =
    (if y mod 4 = 0 then 1 else 0) - (if y mod 100 = 0 then 1 else 0)
      + (if y mod 400 = 0 then 1 else 0)"
  unfolding leap_def
proof (rule count_bool)
  show "y mod 100 = 0" if "y mod 400 = 0"
    using that dvd_trans [of 100 400 y] by (simp only: mod_eq_0_iff_dvd) simp
  show "y mod 4 = 0" if "y mod 100 = 0"
    using that dvd_trans [of 4 100 y] by (simp only: mod_eq_0_iff_dvd) simp
qed

lemma jan1_step: "jan1 (y + 1) = jan1 y + 365 + (if leap y then 1 else 0)"
proof -
  have "jan1 (y + 1) = 365 * y + y div 4 - y div 100 + y div 400"
    by (simp add: jan1_def)
  also have "\<dots> = jan1 y + 365 + (if leap y then 1 else 0)"
    unfolding leap_count jan1_def div_succ [of 4 y, simplified] div_succ [of 100 y, simplified]
      div_succ [of 400 y, simplified]
    by (simp only: algebra_simps)
  finally show ?thesis .
qed

lemma div_shift:
  fixes r :: int
  assumes "0 < c"
  shows "(c * m + r) div c = m + r div c"
  using assms by simp

lemma jan1_cycle: "jan1 (400 * q + r) = 146097 * q + jan1 r"
  using div_shift [of 4 "100 * q" "r - 1"] div_shift [of 100 "4 * q" "r - 1"]
    div_shift [of 400 q "r - 1"]
  by (simp add: jan1_def algebra_simps)

lemma month_cases:
  fixes k :: int
  shows "k mod 12 \<in> {0, 1, 2, 3, 4, 5, 6, 7, 8, 9, 10, 11}"
proof -
  have "m \<in> {0, 1, 2, 3, 4, 5, 6, 7, 8, 9, 10, 11}" if "0 \<le> m" "m < 12" for m :: int
    using that by simp presburger
  then show ?thesis by simp
qed

lemma next_month:
  fixes k :: int
  shows "k mod 12 < 11 \<Longrightarrow> (k + 1) mod 12 = k mod 12 + 1"
    and "k mod 12 < 11 \<Longrightarrow> (k + 1) div 12 = k div 12"
    and "k mod 12 = 11 \<Longrightarrow> (k + 1) mod 12 = 0"
    and "k mod 12 = 11 \<Longrightarrow> (k + 1) div 12 = k div 12 + 1"
proof -
  have k: "k + 1 = 12 * (k div 12) + (k mod 12 + 1)" by simp
  show "k mod 12 < 11 \<Longrightarrow> (k + 1) mod 12 = k mod 12 + 1"
    "k mod 12 < 11 \<Longrightarrow> (k + 1) div 12 = k div 12"
    by (rule int_mod_pos_eq [OF k] int_div_pos_eq [OF k], simp_all)+
  assume "k mod 12 = 11"
  with k have "k + 1 = 12 * (k div 12 + 1) + 0" by simp
  then show "(k + 1) mod 12 = 0" "(k + 1) div 12 = k div 12 + 1"
    by (rule int_mod_pos_eq int_div_pos_eq, simp_all)+
qed

lemma month_start_step: "month_start k + 28 \<le> month_start (k + 1)"
  using month_cases [of k]
  by (elim insertE emptyE; simp add: month_start_def days_before_def next_month jan1_step)

lemma month_start_mono: "j \<le> k \<Longrightarrow> month_start j \<le> month_start k"
proof (induction k rule: int_ge_induct)
  case (step i)
  then show ?case using month_start_step [of i] by simp
qed simp

lemma month_start_less: "j < k \<Longrightarrow> month_start j + 28 \<le> month_start k"
  using month_start_step [of j] month_start_mono [of "j + 1" k] by simp

section \<open>Civil dates\<close>

text \<open>
  The month a day falls in: start no later than it and step forward. The starting point
  counts whole 400-year cycles and then years of at most 366 days.
\<close>

function month_search :: "int \<Rightarrow> int \<Rightarrow> int" where
  "month_search n k = (if month_start (k + 1) \<le> n then month_search n (k + 1) else k)"
  by pat_completeness auto

termination
proof (relation "measure (\<lambda>(n, k). nat (n - month_start k))")
  fix n k :: int
  assume "month_start (k + 1) \<le> n"
  with month_start_step [of k]
  show "((n, k + 1), n, k) \<in> measure (\<lambda>(n, k). nat (n - month_start k))"
    by simp
qed simp

declare month_search.simps [simp del]

definition month_of :: "int \<Rightarrow> int" where
  "month_of n = month_search n (12 * (400 * (n div 146097) + (n mod 146097) div 366 + 1))"

lemma month_search_bounds:
  "month_start k \<le> n \<Longrightarrow>
    month_start (month_search n k) \<le> n \<and> n < month_start (month_search n k + 1)"
  by (induction n k rule: month_search.induct) (subst (1 2) month_search.simps, simp)

lemma month_start_jan: "month_start (12 * y) = jan1 y"
  by (simp add: month_start_def days_before_def)

lemma jan1_le: "0 \<le> y \<Longrightarrow> jan1 (y + 1) \<le> 366 * y"
  unfolding jan1_def by simp

lemma month_of_bounds: "month_start (month_of n) \<le> n \<and> n < month_start (month_of n + 1)"
proof -
  let ?q = "n div 146097" and ?r = "n mod 146097"
  have "jan1 (400 * ?q + (?r div 366 + 1)) = 146097 * ?q + jan1 (?r div 366 + 1)"
    by (rule jan1_cycle)
  also have "\<dots> \<le> 146097 * ?q + 366 * (?r div 366)"
    using jan1_le [of "?r div 366"] by simp
  also have "\<dots> \<le> n"
    by presburger
  finally have "month_start (12 * (400 * ?q + ?r div 366 + 1)) \<le> n"
    unfolding month_start_jan by (simp only: add.assoc)
  then show ?thesis
    unfolding month_of_def by (rule month_search_bounds)
qed

lemma month_of_unique:
  assumes "month_start k \<le> n" and "n < month_start (k + 1)"
  shows "month_of n = k"
  using assms month_of_bounds [of n] month_start_mono [of "month_of n + 1" k]
    month_start_mono [of "k + 1" "month_of n"]
  by linarith

section \<open>Instants\<close>

definition day_ns :: int where "day_ns = 86400000000000"

text \<open>The day number of 1 January 1970, where the count of nanoseconds starts.\<close>

definition epoch_day :: int where "epoch_day = 719162"

definition day_number :: "int \<Rightarrow> time \<Rightarrow> int" where
  "day_number off t = (t + off) div day_ns + epoch_day"

text \<open>\<open>Time.Date\<close>: the month number and the day of the month, from 1.\<close>

definition Date :: "int \<Rightarrow> time \<Rightarrow> int \<times> int" where
  "Date off t = (let n = day_number off t; k = month_of n in (k, n - month_start k + 1))"

text \<open>\<open>time.Date\<close> at midnight; a day past the end of the month runs into the next one.\<close>

definition make_date :: "int \<Rightarrow> int \<Rightarrow> int \<Rightarrow> time" where
  "make_date off k d = (month_start k + d - 1 - epoch_day) * day_ns - off"

text \<open>\<open>Time.AddDate(0, months, 0)\<close> of an instant at midnight.\<close>

definition AddDate_months :: "int \<Rightarrow> time \<Rightarrow> int \<Rightarrow> time" where
  "AddDate_months off t months = (let (k, d) = Date off t in make_date off (k + months) d)"

lemma day_number_make_date [simp]:
  "day_number off (make_date off k d) = month_start k + d - 1"
  by (simp add: day_number_def make_date_def day_ns_def)

lemma Date_make_date:
  assumes "1 \<le> d" and "d \<le> 28"
  shows "Date off (make_date off k d) = (k, d)"
  using assms month_start_step [of k] month_of_unique [of k "month_start k + d - 1"]
  by (simp add: Date_def Let_def)

lemma AddDate_make_date:
  "1 \<le> d \<Longrightarrow> d \<le> 28 \<Longrightarrow> AddDate_months off (make_date off k d) m = make_date off (k + m) d"
  by (simp add: AddDate_months_def Date_make_date)

lemma Date_month [simp]: "fst (Date off t) = month_of (day_number off t)"
  by (simp add: Date_def Let_def)

lemma make_date_less: "j < k \<Longrightarrow> make_date off j d < make_date off k d"
  using month_start_less [of j k] by (simp add: make_date_def day_ns_def)

lemma div_le_iff_mult:
  fixes c :: int
  assumes "0 < c"
  shows "a \<le> b div c \<longleftrightarrow> a * c \<le> b"
proof
  assume "a \<le> b div c"
  then have "a * c \<le> b div c * c" using assms by simp
  also have "\<dots> \<le> b"
    using pos_mod_sign [OF assms, of b] div_mult_mod_eq [of b c] by linarith
  finally show "a * c \<le> b" .
next
  assume "a * c \<le> b"
  then have "a * c div c \<le> b div c" using assms by (rule zdiv_mono1)
  then show "a \<le> b div c" using assms by simp
qed

lemma make_date_le_iff: "make_date off k d \<le> t \<longleftrightarrow> month_start k + d - 1 \<le> day_number off t"
proof -
  have "make_date off k d \<le> t \<longleftrightarrow> (month_start k + d - 1 - epoch_day) * day_ns \<le> t + off"
    by (auto simp: make_date_def)
  also have "\<dots> \<longleftrightarrow> month_start k + d - 1 - epoch_day \<le> (t + off) div day_ns"
    using div_le_iff_mult [of day_ns] by (simp add: day_ns_def)
  finally show ?thesis by (auto simp: day_number_def)
qed

end
