(* ===== verification/Quota.thy ===== *)
theory Quota
  imports Capacity Calendar
begin

text \<open>
  The monthly quota of \<open>core/capacity/quota.go\<close>: the persisted counter a node charges every
  forwarded byte to, its billing cycle, its checkpoints, and the metered reader that cuts a
  stream off. The lock of the Go type makes each method one atomic step; the reader takes it
  twice, once to check and once to charge, and the step relation at the end interleaves those
  two halves over any number of streams, with crashes between and inside the operations.

  The checkpoint file is \<open>quota_file\<close>; a write that fails leaves it as it was
  (\<open>atomicfile.Write\<close> only renames a complete file into place). Whether a write goes through
  is an argument of every operation that may checkpoint. The location of the node's clock is
  an offset \<open>off\<close> from UTC.
\<close>

section \<open>The billing cycle\<close>

definition CycleStart :: "int \<Rightarrow> time \<Rightarrow> int \<Rightarrow> time" where
  "CycleStart off now day =
     (let day = (if day < 1 then 1 else day);
          (k, _) = Date off now;
          c = make_date off k day
      in if c > now then AddDate_months off c (- 1) else c)"

section \<open>State\<close>

record quota =
  q_limit :: byte_count
  q_cycleDay :: int
  q_used :: byte_count
  q_cycleStart :: time
  q_path :: string
  q_flushedAt :: byte_count
  q_flushedTime :: time
  q_flushErr :: bool

record quota_state =
  qs_CycleStart :: time
  qs_Used :: uint64
  qs_Limit :: uint64
  qs_CycleDay :: int

datatype quota_file = NoFile | Unreadable | Corrupt | Checkpoint quota_state

datatype quota_error = ReadQuotaState | ParseQuotaState

type_synonym quota_world = "quota \<times> quota_file"

definition maxFlushGranularity :: byte_count where
  "maxFlushGranularity = 16 * MB"

definition minFlushGranularity :: byte_count where
  "minFlushGranularity = 64 * KB"

definition flushInterval :: duration where
  "flushInterval = 30 * 1000000000"

definition granularity :: "quota \<Rightarrow> byte_count" where
  "granularity q =
     (let g = q_limit q div 64;
          g = (if g < minFlushGranularity then minFlushGranularity else g);
          g = (if g > maxFlushGranularity then maxFlushGranularity else g)
      in g)"

text \<open>\<open>Inr None\<close> is the inert nil quota of a node that declares none.\<close>

definition NewQuota ::
    "int \<Rightarrow> limits \<Rightarrow> string \<Rightarrow> time \<Rightarrow> quota_file \<Rightarrow> quota_error + quota option" where
  "NewQuota off l path now file =
     (if MonthlyQuota l = 0 then Inr None
      else
        (let day = (if CycleDay l = 0 then 1 else CycleDay l);
             q = \<lparr>q_limit = MonthlyQuota l, q_cycleDay = day, q_used = 0,
                  q_cycleStart = CycleStart off now day, q_path = path, q_flushedAt = 0,
                  q_flushedTime = now, q_flushErr = False\<rparr>
         in if path = [] then Inr (Some q)
            else case file of
                   NoFile \<Rightarrow> Inr (Some q)
                 | Unreadable \<Rightarrow> Inl ReadQuotaState
                 | Corrupt \<Rightarrow> Inl ParseQuotaState
                 | Checkpoint st \<Rightarrow>
                     if \<not> qs_CycleStart st < q_cycleStart q
                     then Inr (Some (q\<lparr>q_cycleStart := qs_CycleStart st, q_used := qs_Used st,
                                       q_flushedAt := qs_Used st\<rparr>))
                     else Inr (Some q)))"

section \<open>Operations\<close>

definition checkpoint :: "bool \<Rightarrow> time \<Rightarrow> quota_world \<Rightarrow> quota_world" where
  "checkpoint ok now w =
     (let (q, file) = w
      in if q_path q = [] then (q\<lparr>q_flushedAt := q_used q, q_flushedTime := now\<rparr>, file)
         else if \<not> ok then (q\<lparr>q_flushErr := True\<rparr>, file)
         else (q\<lparr>q_flushedAt := q_used q, q_flushedTime := now, q_flushErr := False\<rparr>,
               Checkpoint \<lparr>qs_CycleStart = q_cycleStart q, qs_Used = q_used q,
                 qs_Limit = q_limit q, qs_CycleDay = q_cycleDay q\<rparr>))"

definition rollover :: "int \<Rightarrow> bool \<Rightarrow> time \<Rightarrow> quota_world \<Rightarrow> quota_world" where
  "rollover off ok now w =
     (let (q, file) = w;
          cs = CycleStart off now (q_cycleDay q)
      in if \<not> cs > q_cycleStart q then w
         else checkpoint ok now (q\<lparr>q_cycleStart := cs, q_used := 0, q_flushedAt := 0\<rparr>, file))"

definition Add_locked :: "bool \<Rightarrow> uint64 \<Rightarrow> time \<Rightarrow> quota_world \<Rightarrow> quota_world" where
  "Add_locked ok n now w =
     (let (q, file) = w;
          was = (q_used q \<ge> q_limit q);
          q' = q\<lparr>q_used := q_used q + n\<rparr>
      in if \<not> was \<and> q_used q' \<ge> q_limit q' then checkpoint ok now (q', file)
         else if q_used q' - q_flushedAt q' \<ge> granularity q'
              \<or> time_sub now (q_flushedTime q') \<ge> flushInterval
         then checkpoint ok now (q', file)
         else (q', file))"

definition quota_Add ::
    "int \<Rightarrow> bool \<times> bool \<Rightarrow> uint64 \<Rightarrow> time \<Rightarrow> quota_world \<Rightarrow> quota_world" where
  "quota_Add off oks n now w =
     (if n = 0 then w else Add_locked (snd oks) n now (rollover off (fst oks) now w))"

definition Exhausted :: "int \<Rightarrow> bool \<Rightarrow> time \<Rightarrow> quota_world \<Rightarrow> bool \<times> quota_world" where
  "Exhausted off ok now w =
     (let w' = rollover off ok now w in (q_used (fst w') \<ge> q_limit (fst w'), w'))"

definition Used :: "int \<Rightarrow> bool \<Rightarrow> time \<Rightarrow> quota_world \<Rightarrow> byte_count \<times> quota_world" where
  "Used off ok now w = (let w' = rollover off ok now w in (q_used (fst w'), w'))"

definition Remaining :: "int \<Rightarrow> bool \<Rightarrow> time \<Rightarrow> quota_world \<Rightarrow> byte_count \<times> quota_world" where
  "Remaining off ok now w =
     (let w' = rollover off ok now w; q = fst w'
      in (if q_used q \<ge> q_limit q then 0 else q_limit q - q_used q, w'))"

definition LinkCrossings :: uint64 where
  "LinkCrossings = 2"

definition AddForwarded ::
    "int \<Rightarrow> bool \<times> bool \<Rightarrow> uint64 \<Rightarrow> time \<Rightarrow> quota_world \<Rightarrow> quota_world" where
  "AddForwarded off oks n now w = quota_Add off oks (n * LinkCrossings) now w"

definition Flush :: "bool \<Rightarrow> time \<Rightarrow> quota_world \<Rightarrow> bool \<times> quota_world" where
  "Flush ok now w = (let w' = checkpoint ok now w in (q_flushErr (fst w'), w'))"

text \<open>
  One \<open>Read\<close> of the metered stream, run alone: the source delivers \<open>n\<close> bytes between the two
  readings of the clock. \<open>None\<close> is \<open>ErrQuotaExhausted\<close>.
\<close>

definition quotaReader_Read ::
    "int \<Rightarrow> bool \<times> bool \<times> bool \<Rightarrow> time \<Rightarrow> time \<Rightarrow> uint64 \<Rightarrow> quota_world
      \<Rightarrow> uint64 option \<times> quota_world" where
  "quotaReader_Read off oks t1 t2 n w =
     (case Exhausted off (fst oks) t1 w of
        (True, w') \<Rightarrow> (None, w')
      | (False, w') \<Rightarrow>
          (Some n, if n > 0 then AddForwarded off (snd oks) n t2 w' else w'))"

section \<open>The cycle starts at the last anchor\<close>

definition anchor :: "int \<Rightarrow> int \<Rightarrow> int \<Rightarrow> time" where
  "anchor off day k = make_date off k day"

lemma CycleStart_anchor:
  assumes "1 \<le> day" and "day \<le> 28"
  shows "\<exists>k. CycleStart off now day = anchor off day k \<and> anchor off day k \<le> now
    \<and> now < anchor off day (k + 1)"
proof -
  define k where "k = month_of (day_number off now)"
  have bounds: "month_start k \<le> day_number off now" "day_number off now < month_start (k + 1)"
    using month_of_bounds [of "day_number off now"] by (simp_all add: k_def)
  have start: "CycleStart off now day =
      (if anchor off day k > now then anchor off day (k - 1) else anchor off day k)"
    using assms
    by (simp add: CycleStart_def Let_def anchor_def k_def AddDate_make_date case_prod_unfold)
  have next_later: "now < anchor off day (k + 1)"
    using bounds assms by (simp add: anchor_def linorder_not_le [symmetric] make_date_le_iff)
  have "anchor off day (k - 1) \<le> now"
    using bounds assms month_start_step [of "k - 1"] by (simp add: anchor_def make_date_le_iff)
  with start next_later show ?thesis
    by (cases "anchor off day k > now") (auto intro: exI [of _ "k - 1"] exI [of _ k])
qed

text \<open>for a reset day from 1 to 28 the cycle of an instant starts at the latest
  occurrence of that day at midnight that is not after the instant: it is some month's
  anchor, the instant has reached it, and the next month's anchor is still ahead.\<close>

lemma cycle_starts_at_last_anchor:
  assumes "1 \<le> day" and "day \<le> 28"
  shows "\<exists>k. CycleStart off now day = make_date off k day \<and> make_date off k day \<le> now
    \<and> now < make_date off (k + 1) day"
  using CycleStart_anchor [OF assms] by (simp add: anchor_def)

lemma CycleStart_le: "1 \<le> day \<Longrightarrow> day \<le> 28 \<Longrightarrow> CycleStart off now day \<le> now"
  by (metis CycleStart_anchor)

section \<open>What the operations keep\<close>

lemmas quota_op_defs = Add_locked_def rollover_def checkpoint_def Let_def case_prod_unfold

lemma checkpoint_fields [simp]:
  "q_used (fst (checkpoint ok now w)) = q_used (fst w)"
  "q_cycleStart (fst (checkpoint ok now w)) = q_cycleStart (fst w)"
  by (simp_all add: quota_op_defs)

lemma Add_locked_fields [simp]:
  "q_used (fst (Add_locked ok n now w)) = q_used (fst w) + n"
  "q_cycleStart (fst (Add_locked ok n now w)) = q_cycleStart (fst w)"
  by (simp_all add: quota_op_defs)

lemma rollover_cases:
  obtains (same) "\<not> CycleStart off now (q_cycleDay (fst w)) > q_cycleStart (fst w)"
    "rollover off ok now w = w"
  | (forward) "CycleStart off now (q_cycleDay (fst w)) > q_cycleStart (fst w)"
    "rollover off ok now w = checkpoint ok now
      ((fst w)\<lparr>q_cycleStart := CycleStart off now (q_cycleDay (fst w)), q_used := 0,
        q_flushedAt := 0\<rparr>, snd w)"
  by (cases "CycleStart off now (q_cycleDay (fst w)) > q_cycleStart (fst w)")
     (simp_all add: rollover_def Let_def case_prod_unfold)

lemma rollover_monotone:
  "q_cycleStart (fst w) \<le> q_cycleStart (fst (rollover off ok now w))"
  "q_cycleStart (fst (rollover off ok now w)) = q_cycleStart (fst w) \<Longrightarrow> rollover off ok now w = w"
  by (cases rule: rollover_cases [of w off now ok]; simp)+

text \<open>The cycle only advances, and within one cycle every charge is added in full.\<close>

lemma quota_Add_accounts:
  "q_cycleStart (fst w) \<le> q_cycleStart (fst (quota_Add off oks n now w))"
  "q_cycleStart (fst (quota_Add off oks n now w)) = q_cycleStart (fst w)
    \<Longrightarrow> q_used (fst (quota_Add off oks n now w)) = q_used (fst w) + n"
  using rollover_monotone [where w = w and off = off and ok = "fst oks" and now = now] by (auto simp: quota_Add_def)

lemma Remaining_zero_iff_Exhausted:
  "fst (Remaining off ok now w) = 0 \<longleftrightarrow> fst (Exhausted off ok now w)"
  by (auto simp: Remaining_def Exhausted_def Let_def)

lemma reader_refuses_iff_Exhausted:
  "fst (quotaReader_Read off oks t1 t2 n w) = None \<longleftrightarrow> fst (Exhausted off (fst oks) t1 w)"
  by (simp add: quotaReader_Read_def split: prod.split bool.split)

section \<open>Streams, crashes and restarts\<close>

text \<open>
  A node process: the counter, the checkpoint file, and how many metered streams are between
  the check and the charge of one \<open>Read\<close>. \<open>streams\<close> bounds the streams, \<open>chunk\<close> the bytes one
  read delivers. Two more fields only record what happened, over all runs of the process:
  the bytes charged in each cycle, which no restart forgets, and the crashes in each cycle.
\<close>

record node =
  n_quota :: quota
  n_file :: quota_file
  n_inflight :: nat
  n_charged :: "time \<Rightarrow> nat"
  n_crashes :: "time \<Rightarrow> nat"

definition node_world :: "node \<Rightarrow> quota_world" where
  "node_world s = (n_quota s, n_file s)"

definition node_cycle :: "node \<Rightarrow> time" where
  "node_cycle s = q_cycleStart (n_quota s)"

definition node_with :: "quota_world \<Rightarrow> nat \<Rightarrow> node \<Rightarrow> node" where
  "node_with w f s = s\<lparr>n_quota := fst w, n_file := snd w, n_inflight := f\<rparr>"

definition count_charge :: "time \<Rightarrow> nat \<Rightarrow> node \<Rightarrow> node" where
  "count_charge c n s = s\<lparr>n_charged := (n_charged s)(c := n_charged s c + n)\<rparr>"

definition count_crash :: "time \<Rightarrow> time \<Rightarrow> node \<Rightarrow> node" where
  "count_crash c d s = s\<lparr>n_crashes := (\<lambda>x. n_crashes s x + (if x = c \<or> x = d then 1 else 0))\<rparr>"

definition first_node :: "quota \<Rightarrow> node" where
  "first_node q = \<lparr>n_quota = q, n_file = NoFile, n_inflight = 0, n_charged = (\<lambda>_. 0), n_crashes = (\<lambda>_. 0)\<rparr>"

text \<open>The operations of a running process; \<open>may ok\<close> says which outcomes of a checkpoint write can occur.\<close>

inductive node_op :: "int \<Rightarrow> (bool \<Rightarrow> bool) \<Rightarrow> nat \<Rightarrow> nat \<Rightarrow> node \<Rightarrow> node \<Rightarrow> bool"
  for off :: int and may :: "bool \<Rightarrow> bool" and streams :: nat and chunk :: nat where
  admit: "\<lbrakk>Exhausted off ok now (node_world s) = (False, w); may ok; n_inflight s < streams\<rbrakk>
    \<Longrightarrow> node_op off may streams chunk s (node_with w (n_inflight s + 1) s)"
| refuse: "\<lbrakk>Exhausted off ok now (node_world s) = (True, w); may ok\<rbrakk>
    \<Longrightarrow> node_op off may streams chunk s (node_with w (n_inflight s) s)"
| ask: "\<lbrakk>w = snd (Used off ok now (node_world s)) \<or> w = snd (Remaining off ok now (node_world s)); may ok\<rbrakk>
    \<Longrightarrow> node_op off may streams chunk s (node_with w (n_inflight s) s)"
| charge: "\<lbrakk>0 < n_inflight s; unat n \<le> chunk; may (fst oks); may (snd oks);
      w = AddForwarded off oks n now (node_world s)\<rbrakk>
    \<Longrightarrow> node_op off may streams chunk s
        (count_charge (q_cycleStart (fst w)) (2 * unat n) (node_with w (n_inflight s - 1) s))"
| flush: "may ok \<Longrightarrow> node_op off may streams chunk s
        (node_with (snd (Flush ok now (node_world s))) (n_inflight s) s)"

text \<open>
  The process runs its operations, or dies and is started again from the file, with the reads in
  flight gone. It dies between two operations, or inside one, where what the operation
  had done to the file by then is any outcome of its writes.
\<close>

definition interrupted :: "int \<Rightarrow> nat \<Rightarrow> nat \<Rightarrow> node \<Rightarrow> node \<Rightarrow> bool" where
  "interrupted off streams chunk s s' \<longleftrightarrow> s' = s \<or> node_op off (\<lambda>_. True) streams chunk s s'"

inductive node_step :: "int \<Rightarrow> limits \<Rightarrow> string \<Rightarrow> (bool \<Rightarrow> bool) \<Rightarrow> nat \<Rightarrow> nat \<Rightarrow> node \<Rightarrow> node \<Rightarrow> bool"
  for off :: int and l :: limits and path :: string and may :: "bool \<Rightarrow> bool"
    and streams :: nat and chunk :: nat where
  run: "node_op off may streams chunk s s' \<Longrightarrow> node_step off l path may streams chunk s s'"
| crash: "\<lbrakk>interrupted off streams chunk s s'; NewQuota off l path now (n_file s') = Inr (Some q)\<rbrakk>
    \<Longrightarrow> node_step off l path may streams chunk s
        (count_crash (node_cycle s) (node_cycle s') (node_with (q, n_file s') 0 s'))"

inductive node_reachable ::
    "int \<Rightarrow> limits \<Rightarrow> string \<Rightarrow> (bool \<Rightarrow> bool) \<Rightarrow> nat \<Rightarrow> nat \<Rightarrow> node \<Rightarrow> bool"
  for off :: int and l :: limits and path :: string and may :: "bool \<Rightarrow> bool"
    and streams :: nat and chunk :: nat where
  first_run: "NewQuota off l path now NoFile = Inr (Some q)
    \<Longrightarrow> node_reachable off l path may streams chunk (first_node q)"
| step: "\<lbrakk>node_reachable off l path may streams chunk s; node_step off l path may streams chunk s s'\<rbrakk>
    \<Longrightarrow> node_reachable off l path may streams chunk s'"

lemma node_with_simps [simp]:
  "n_quota (node_with w f s) = fst w" "n_file (node_with w f s) = snd w" "n_inflight (node_with w f s) = f"
  "node_world (node_with w f s) = w" "n_charged (node_with w f s) = n_charged s"
  "n_crashes (node_with w f s) = n_crashes s"
  by (simp_all add: node_with_def node_world_def)

lemma count_simps [simp]:
  "n_quota (count_charge c n s) = n_quota s" "n_file (count_charge c n s) = n_file s"
  "n_inflight (count_charge c n s) = n_inflight s" "n_crashes (count_charge c n s) = n_crashes s"
  "n_quota (count_crash c d s) = n_quota s" "n_file (count_crash c d s) = n_file s"
  "n_inflight (count_crash c d s) = n_inflight s" "n_charged (count_crash c d s) = n_charged s"
  "node_world (count_charge c n s) = node_world s" "node_world (count_crash c d s) = node_world s"
  "n_charged (count_charge c n s) x = n_charged s x + (if x = c then n else 0)"
  "n_crashes (count_crash c d s) x = n_crashes s x + (if x = c \<or> x = d then 1 else 0)"
  by (simp_all add: count_charge_def count_crash_def node_world_def)

lemma node_world_simps [simp]: "fst (node_world s) = n_quota s" "snd (node_world s) = n_file s"
  by (simp_all add: node_world_def)

lemma first_node_simps [simp]:
  "node_world (first_node q) = (q, NoFile)" "n_quota (first_node q) = q" "n_file (first_node q) = NoFile"
  "n_inflight (first_node q) = 0" "n_charged (first_node q) = (\<lambda>_. 0)" "n_crashes (first_node q) = (\<lambda>_. 0)"
  by (simp_all add: first_node_def node_world_def)

section \<open>The overshoot is bounded by what is in flight\<close>

text \<open>The counter and the file stay below a bound \<open>b\<close>.\<close>

definition below :: "byte_count \<Rightarrow> nat \<Rightarrow> quota_world \<Rightarrow> bool" where
  "below lim b w \<longleftrightarrow>
     q_limit (fst w) = lim \<and> unat (q_used (fst w)) < b
     \<and> (\<forall>st. snd w = Checkpoint st \<longrightarrow> unat (qs_Used st) < b)"

lemma below_checkpoint: "below lim b w \<Longrightarrow> below lim b (checkpoint ok now w)"
  by (auto simp: below_def quota_op_defs)

lemma below_rollover:
  assumes "below lim b w"
  shows "below lim b (rollover off ok now w)"
proof (cases rule: rollover_cases [of w off now ok])
  case same
  with assms show ?thesis by simp
next
  case forward
  have "below lim b ((fst w)\<lparr>q_cycleStart := CycleStart off now (q_cycleDay (fst w)), q_used := 0,
      q_flushedAt := 0\<rparr>, snd w)"
    using assms by (auto simp: below_def)
  from below_checkpoint [OF this] show ?thesis by (simp only: forward)
qed

lemma unat_add_below:
  "unat (a :: uint64) + unat n < b \<Longrightarrow> b \<le> 2 ^ 64 \<Longrightarrow> unat (a + n) = unat a + unat n"
  by (simp add: unat_word_ariths)

lemma below_Add_locked:
  assumes "below lim b w" and "unat (q_used (fst w)) + unat n < b" and "b \<le> 2 ^ 64"
  shows "below lim b (Add_locked ok n now w)"
  using assms unat_add_below [OF assms(2,3)]
  by (auto simp: below_def quota_op_defs)

text \<open>
  The inductive form of the bound: a read that has passed its check has reserved \<open>2 * chunk\<close>
  bytes of the overshoot until it charges.
\<close>

definition overshoot :: "limits \<Rightarrow> nat \<Rightarrow> nat \<Rightarrow> nat" where
  "overshoot l streams chunk = unat (MonthlyQuota l) + 2 * chunk * streams"

definition reserved :: "limits \<Rightarrow> nat \<Rightarrow> nat \<Rightarrow> quota_world \<Rightarrow> nat \<Rightarrow> bool" where
  "reserved l streams chunk w f \<longleftrightarrow>
     0 < unat (MonthlyQuota l) \<and> below (MonthlyQuota l) (overshoot l streams chunk) w \<and> f \<le> streams
     \<and> (unat (q_used (fst w)) < unat (MonthlyQuota l)
        \<or> unat (q_used (fst w)) + 2 * chunk * f < overshoot l streams chunk)"

lemma NewQuota_Some:
  assumes "NewQuota off l path now file = Inr (Some q)"
  shows "q_limit q = MonthlyQuota l" "0 < unat (MonthlyQuota l)" "q_path q = path"
    "q_flushedAt q = q_used q"
    "q_used q = 0 \<or> (\<exists>st. file = Checkpoint st \<and> q_used q = qs_Used st)"
  using assms
  by (auto simp: NewQuota_def Let_def unat_gt_0 split: if_splits quota_file.splits)

lemma NewQuota_file:
  assumes "NewQuota off l path now f = Inr (Some q)" and "path \<noteq> []"
  shows "case f of
      NoFile \<Rightarrow> q_used q = 0
    | Checkpoint st \<Rightarrow>
        qs_CycleStart st = q_cycleStart q \<and> qs_Used st = q_used q
        \<or> qs_CycleStart st < q_cycleStart q \<and> q_used q = 0
    | _ \<Rightarrow> False"
  using assms by (cases f) (auto simp: NewQuota_def Let_def split: if_splits)

lemma reserved_new:
  assumes new: "NewQuota off l path now f = Inr (Some q)"
    and disk: "\<forall>st. f = Checkpoint st \<longrightarrow> unat (qs_Used st) < overshoot l streams chunk"
  shows "reserved l streams chunk (q, f) 0"
  using NewQuota_Some [OF new] disk by (auto simp: reserved_def below_def overshoot_def)

lemma reserved_rollover:
  assumes "reserved l streams chunk w f"
  shows "reserved l streams chunk (rollover off ok now w) f"
  using assms below_rollover [of "MonthlyQuota l" _ w off ok now]
  by (cases rule: rollover_cases [of w off now ok]) (auto simp: reserved_def)

lemma unat_forwarded: "2 * unat n < 2 ^ 64 \<Longrightarrow> unat (n * LinkCrossings) = 2 * unat n"
  by (simp add: LinkCrossings_def unat_word_ariths)

text \<open>A read in flight finds room for its charge, and charging it gives its reservation back.\<close>

lemma reserved_room:
  assumes "reserved l streams chunk w (Suc f)" and "overshoot l streams chunk \<le> 2 ^ 64" and "unat n \<le> chunk"
  shows "unat (n * LinkCrossings) = 2 * unat n"
    "unat (q_used (fst w)) + 2 * unat n + 2 * chunk * f < overshoot l streams chunk"
proof -
  have "Suc f \<le> streams" using assms(1) by (simp add: reserved_def)
  then have seats: "2 * chunk * Suc f \<le> 2 * chunk * streams" by (rule mult_le_mono2)
  show "unat (n * LinkCrossings) = 2 * unat n"
    by (rule unat_forwarded) (use assms seats in \<open>simp add: overshoot_def reserved_def\<close>)
  show "unat (q_used (fst w)) + 2 * unat n + 2 * chunk * f < overshoot l streams chunk"
    using assms(1,3) seats by (auto simp: reserved_def overshoot_def)
qed

lemma reserved_Add_locked:
  assumes inv: "reserved l streams chunk w (Suc f)" and room: "overshoot l streams chunk \<le> 2 ^ 64" and n: "unat n \<le> chunk"
  shows "reserved l streams chunk (Add_locked ok (n * LinkCrossings) now w) f"
proof -
  note r = reserved_room [OF assms]
  have big: "unat (q_used (fst w)) + unat (n * LinkCrossings) < overshoot l streams chunk"
    using r by simp
  have "below (MonthlyQuota l) (overshoot l streams chunk) (Add_locked ok (n * LinkCrossings) now w)"
    using inv big room by (intro below_Add_locked) (simp_all add: reserved_def)
  then show ?thesis using inv r unat_add_below [OF big room] by (simp add: reserved_def)
qed

lemma reserved_fewer: "reserved l streams chunk w (Suc f) \<Longrightarrow> reserved l streams chunk w f"
  by (auto simp: reserved_def)

lemma reserved_charge:
  assumes "reserved l streams chunk w (Suc f)" and "overshoot l streams chunk \<le> 2 ^ 64" and "unat n \<le> chunk"
  shows "reserved l streams chunk (AddForwarded off oks n now w) f"
  using reserved_Add_locked [OF reserved_rollover [OF assms(1)] assms(2,3)] reserved_fewer [OF assms(1)]
  by (simp add: AddForwarded_def quota_Add_def)

lemma Exhausted_world: "Exhausted off ok now w = (b, w') \<Longrightarrow> w' = rollover off ok now w"
  by (auto simp: Exhausted_def Let_def)

lemma ask_world:
  "w' = snd (Used off ok now w) \<or> w' = snd (Remaining off ok now w) \<Longrightarrow> w' = rollover off ok now w"
  by (auto simp: Used_def Remaining_def Let_def)

text \<open>What an operation does to the world and the number of reads in flight: roll over, charge, or checkpoint.\<close>

lemma node_op_cases:
  assumes "node_op off may streams chunk s s'"
  obtains (roll) ok now where "may ok" "node_world s' = rollover off ok now (node_world s)"
      "n_charged s' = n_charged s" "n_crashes s' = n_crashes s"
      "n_inflight s' = n_inflight s
        \<or> n_inflight s' = Suc (n_inflight s) \<and> n_inflight s < streams \<and> q_used (n_quota s') < q_limit (n_quota s')"
  | (charge) n oks now where "n_inflight s = Suc (n_inflight s')" "unat n \<le> chunk" "may (fst oks)" "may (snd oks)"
      "node_world s' = AddForwarded off oks n now (node_world s)" "n_crashes s' = n_crashes s"
      "\<And>c. n_charged s' c = n_charged s c + (if c = node_cycle s' then 2 * unat n else 0)"
  | (flush) ok now where "may ok" "node_world s' = checkpoint ok now (node_world s)"
      "n_charged s' = n_charged s" "n_crashes s' = n_crashes s" "n_inflight s' = n_inflight s"
  using assms
proof cases
  case (admit ok now w)
  then have "q_used (fst w) < q_limit (fst w)" by (auto simp: Exhausted_def Let_def)
  with admit Exhausted_world [OF admit(2)] show thesis by (intro that(1) [of ok now]) auto
next
  case (refuse ok now w)
  with Exhausted_world [OF refuse(2)] show thesis by (intro that(1) [of ok now]) auto
next
  case (ask w ok now)
  with ask_world [OF ask(2)] show thesis by (intro that(1) [of ok now]) auto
next
  case (charge n oks w now)
  then show thesis by (intro that(2) [of n oks now]) (auto simp: node_cycle_def)
next
  case (flush ok now)
  then show thesis by (intro that(3) [of ok now]) (auto simp: Flush_def Let_def)
qed

lemma reserved_op:
  assumes "node_op off may streams chunk s s'" and inv: "reserved l streams chunk (node_world s) (n_inflight s)"
    and room: "overshoot l streams chunk \<le> 2 ^ 64"
  shows "reserved l streams chunk (node_world s') (n_inflight s')"
  using assms(1)
proof (cases rule: node_op_cases)
  case (roll ok now)
  have "reserved l streams chunk (node_world s') (n_inflight s)"
    unfolding roll(2) by (rule reserved_rollover [OF inv])
  with roll(5) show ?thesis by (auto simp: reserved_def below_def word_less_nat_alt)
next
  case (charge n oks now)
  show ?thesis unfolding charge(5) by (rule reserved_charge) (use inv charge room in simp_all)
next
  case (flush ok now)
  then show ?thesis using inv below_checkpoint [of "MonthlyQuota l" _ "node_world s" ok now] by (simp add: reserved_def)
qed

lemma reserved_interrupted:
  "interrupted off streams chunk s s' \<Longrightarrow> reserved l streams chunk (node_world s) (n_inflight s) \<Longrightarrow>
    overshoot l streams chunk \<le> 2 ^ 64 \<Longrightarrow> reserved l streams chunk (node_world s') (n_inflight s')"
  by (auto simp: interrupted_def intro: reserved_op)

lemma reserved_reachable:
  assumes "node_reachable off l path may streams chunk s" and room: "overshoot l streams chunk \<le> 2 ^ 64"
  shows "reserved l streams chunk (node_world s) (n_inflight s)"
  using assms(1)
proof (induction rule: node_reachable.induct)
  case (first_run now q)
  then show ?case using reserved_new [OF first_run(1)] by simp
next
  case (step s s')
  from step(2) show ?case
  proof cases
    case run
    then show ?thesis using reserved_op step.IH room by blast
  next
    case (crash s1 now q)
    have "reserved l streams chunk (node_world s1) (n_inflight s1)"
      by (rule reserved_interrupted [OF crash(2) step.IH room])
    then have "\<forall>st. n_file s1 = Checkpoint st \<longrightarrow> unat (qs_Used st) < overshoot l streams chunk"
      by (simp add: reserved_def below_def)
    from reserved_new [OF crash(3) this] show ?thesis unfolding crash(1) by simp
  qed
qed

section \<open>What the file remembers\<close>

text \<open>
  The file is a checkpoint of the current cycle with the counter as of the last write that went
  through, or of an earlier cycle, or missing, when nothing was written since the cycle began. This holds
  whatever writes fail.
\<close>

definition tracks :: "quota_world \<Rightarrow> bool" where
  "tracks w \<longleftrightarrow>
     q_path (fst w) \<noteq> []
     \<and> (case snd w of
           NoFile \<Rightarrow> q_flushedAt (fst w) = 0
         | Checkpoint st \<Rightarrow>
             qs_CycleStart st = q_cycleStart (fst w) \<and> qs_Used st = q_flushedAt (fst w)
             \<or> qs_CycleStart st < q_cycleStart (fst w) \<and> q_flushedAt (fst w) = 0
         | _ \<Rightarrow> False)"

lemma tracks_checkpoint: "tracks w \<Longrightarrow> tracks (checkpoint ok now w)"
  by (cases w, cases "snd w") (auto simp: tracks_def checkpoint_def Let_def)

lemma tracks_advance:
  "tracks w \<Longrightarrow> q_cycleStart (fst w) < c \<Longrightarrow>
    tracks ((fst w)\<lparr>q_cycleStart := c, q_used := 0, q_flushedAt := 0\<rparr>, snd w)"
  by (cases "snd w") (auto simp: tracks_def)

lemma tracks_rollover: "tracks w \<Longrightarrow> tracks (rollover off ok now w)"
  by (cases rule: rollover_cases [of w off now ok]) (simp_all add: tracks_checkpoint tracks_advance)

lemma Add_locked_cases:
  obtains (saved) "Add_locked ok n now w = checkpoint ok now ((fst w)\<lparr>q_used := q_used (fst w) + n\<rparr>, snd w)"
  | (kept) "Add_locked ok n now w = ((fst w)\<lparr>q_used := q_used (fst w) + n\<rparr>, snd w)"
      "q_limit (fst w) \<le> q_used (fst w) + n \<longrightarrow> q_limit (fst w) \<le> q_used (fst w)"
      "q_used (fst w) + n - q_flushedAt (fst w) < granularity (fst w)"
proof -
  have "granularity ((fst w)\<lparr>q_used := q_used (fst w) + n\<rparr>) = granularity (fst w)" by (simp add: granularity_def)
  then have "Add_locked ok n now w =
      (if (\<not> q_limit (fst w) \<le> q_used (fst w) \<and> q_limit (fst w) \<le> q_used (fst w) + n)
          \<or> granularity (fst w) \<le> q_used (fst w) + n - q_flushedAt (fst w)
          \<or> flushInterval \<le> time_sub now (q_flushedTime (fst w))
       then checkpoint ok now ((fst w)\<lparr>q_used := q_used (fst w) + n\<rparr>, snd w)
       else ((fst w)\<lparr>q_used := q_used (fst w) + n\<rparr>, snd w))"
    by (simp add: Add_locked_def Let_def case_prod_unfold)
  then show thesis using that by (metis linorder_not_le)
qed

lemma tracks_used: "tracks (q, f) \<Longrightarrow> tracks (q\<lparr>q_used := u\<rparr>, f)"
  by (cases f) (simp_all add: tracks_def)

lemma tracks_Add_locked: "tracks w \<Longrightarrow> tracks (Add_locked ok n now w)"
  using tracks_used [of "fst w" "snd w"]
  by (cases rule: Add_locked_cases [of ok n now w]) (simp_all add: tracks_checkpoint)

lemma tracks_charge: "tracks w \<Longrightarrow> tracks (AddForwarded off oks n now w)"
  by (simp add: AddForwarded_def quota_Add_def tracks_Add_locked tracks_rollover)

lemma tracks_op: "node_op off may streams chunk s s' \<Longrightarrow> tracks (node_world s) \<Longrightarrow> tracks (node_world s')"
  by (erule node_op_cases) (simp_all add: tracks_rollover tracks_charge tracks_checkpoint)

lemma tracks_new: "NewQuota off l path now f = Inr (Some q) \<Longrightarrow> path \<noteq> [] \<Longrightarrow> tracks (q, f)"
  using NewQuota_file [of off l path now f q] NewQuota_Some [of off l path now f q]
  by (auto simp: tracks_def split: quota_file.splits)

lemma tracks_reachable:
  assumes "node_reachable off l path may streams chunk s" and "path \<noteq> []"
  shows "tracks (node_world s)"
  using assms(1)
proof (induction rule: node_reachable.induct)
  case (first_run now q)
  then show ?case using tracks_new assms(2) by simp
next
  case (step s s')
  from step(2) show ?case
  proof cases
    case run
    then show ?thesis using tracks_op step.IH by blast
  next
    case (crash s1 now q)
    then show ?thesis using tracks_new assms(2) by simp
  qed
qed

section \<open>How far the file trails the counter\<close>

text \<open>When every write goes through.\<close>

definition durable :: "quota_world \<Rightarrow> bool" where
  "durable w \<longleftrightarrow>
     (let q = fst w
      in tracks w \<and> q_flushedAt q \<le> q_used q \<and> q_used q - q_flushedAt q < granularity q
        \<and> (q_limit q \<le> q_used q \<longrightarrow> q_limit q \<le> q_flushedAt q))"

definition trailing :: "quota \<Rightarrow> nat" where
  "trailing q = unat (q_used q) - unat (q_flushedAt q)"

lemma granularity_pos: "0 < granularity q"
  by (auto simp: granularity_def Let_def minFlushGranularity_def maxFlushGranularity_def unit_defs
      not_less intro: less_le_trans [of _ "64000 :: 64 word"])

lemma durable_trailing: "durable w \<Longrightarrow> trailing (fst w) < unat (granularity (fst w))"
  by (auto simp: durable_def Let_def trailing_def word_less_nat_alt unat_sub)

lemma durable_checkpoint: "tracks w \<Longrightarrow> durable (checkpoint True now w)"
  using tracks_checkpoint [of w True now]
  by (simp add: durable_def tracks_def checkpoint_def Let_def case_prod_unfold granularity_pos)

lemma durable_tracks: "durable w \<Longrightarrow> tracks w"
  by (simp add: durable_def Let_def)

lemma durable_rollover: "durable w \<Longrightarrow> durable (rollover off True now w)"
  by (cases rule: rollover_cases [of w off now True])
     (simp_all add: durable_checkpoint tracks_advance durable_tracks)

lemma durable_Add_locked:
  assumes d: "durable w" and "unat (q_used (fst w)) + unat n < b" and "b \<le> 2 ^ 64"
  shows "durable (Add_locked True n now w)"
proof (cases rule: Add_locked_cases [of True n now w])
  case saved
  show ?thesis unfolding saved
    by (rule durable_checkpoint) (use tracks_used [of "fst w" "snd w"] d in \<open>simp add: durable_tracks\<close>)
next
  case kept
  have "unat (q_used (fst w) + n) = unat (q_used (fst w)) + unat n"
    using assms(2,3) by (rule unat_add_below)
  then have "q_flushedAt (fst w) \<le> q_used (fst w) + n"
    using d by (simp add: durable_def Let_def word_le_nat_alt)
  with d kept tracks_used [of "fst w" "snd w"] show ?thesis
    by (auto simp: durable_def Let_def granularity_def)
qed

lemma durable_charge:
  assumes "durable w" and "reserved l streams chunk w (Suc f)" and "overshoot l streams chunk \<le> 2 ^ 64" and "unat n \<le> chunk"
  shows "durable (AddForwarded off (True, True) n now w)"
proof -
  note room = reserved_room [OF reserved_rollover [OF assms(2), of off True now] assms(3,4)]
  have "durable (Add_locked True (n * LinkCrossings) now (rollover off True now w))"
    by (rule durable_Add_locked [OF durable_rollover [OF assms(1)] _ assms(3)]) (use room in simp)
  with assms(1) show ?thesis by (simp add: AddForwarded_def quota_Add_def)
qed

lemma durable_op:
  assumes "node_op off (\<lambda>ok. ok) streams chunk s s'" and "durable (node_world s)"
    and "reserved l streams chunk (node_world s) (n_inflight s)" and "overshoot l streams chunk \<le> 2 ^ 64"
  shows "durable (node_world s')"
  using assms(1)
proof (cases rule: node_op_cases)
  case (roll ok now)
  then show ?thesis using durable_rollover [OF assms(2)] by simp
next
  case (charge n oks now)
  then have "oks = (True, True)" by (cases oks) simp
  with charge durable_charge [OF assms(2)] assms(3,4) show ?thesis by simp
next
  case (flush ok now)
  then show ?thesis using durable_checkpoint durable_tracks [OF assms(2)] by simp
qed

lemma durable_new:
  assumes new: "NewQuota off l path now f = Inr (Some q)" and "path \<noteq> []"
  shows "durable (q, f)"
  using tracks_new [OF assms] NewQuota_Some [OF new] by (simp add: durable_def Let_def granularity_pos)

lemma durable_reachable:
  assumes "node_reachable off l path (\<lambda>ok. ok) streams chunk s" and "path \<noteq> []"
    and room: "overshoot l streams chunk \<le> 2 ^ 64"
  shows "durable (node_world s)"
  using assms(1)
proof (induction rule: node_reachable.induct)
  case (first_run now q)
  then show ?case using durable_new assms(2) by simp
next
  case (step s s')
  note res = reserved_reachable [OF step(1) room]
  from step(2) show ?case
  proof cases
    case run
    then show ?thesis using durable_op step.IH res room by blast
  next
    case (crash s1 now q)
    then show ?thesis using durable_new assms(2) by simp
  qed
qed

text \<open>An operation cut short by a crash leaves the file behind by its own charge more.\<close>

lemma trailing_le: "trailing q \<le> n \<longleftrightarrow> unat (q_used q) \<le> unat (q_flushedAt q) + n"
  by (auto simp: trailing_def)

lemma trailing_checkpoint: "trailing (fst (checkpoint ok now w)) \<le> trailing (fst w)"
  by (simp add: trailing_def checkpoint_def Let_def case_prod_unfold)

lemma trailing_rollover: "trailing (fst (rollover off ok now w)) \<le> trailing (fst w)"
proof (cases rule: rollover_cases [of w off now ok])
  case forward
  show ?thesis unfolding forward by (rule order_trans [OF trailing_checkpoint]) (simp add: trailing_def)
qed simp

lemma unat_add_le: "unat (a + b :: uint64) \<le> unat a + unat b"
  by (simp only: unat_word_ariths mod_less_eq_dividend)

lemma trailing_Add_locked: "trailing (fst (Add_locked ok n now w)) \<le> trailing (fst w) + unat n"
proof -
  have "trailing ((fst w)\<lparr>q_used := q_used (fst w) + n\<rparr>) \<le> trailing (fst w) + unat n"
    using unat_add_le [of "q_used (fst w)" n] by (simp add: trailing_def)
  then show ?thesis
    using trailing_checkpoint [of ok now "((fst w)\<lparr>q_used := q_used (fst w) + n\<rparr>, snd w)"]
    by (cases rule: Add_locked_cases [of ok n now w]) simp_all
qed

section \<open>What was charged in a cycle\<close>

text \<open>
  Fix a cycle. Of the \<open>h\<close> bytes charged in it, all but \<open>m\<close> are on the counter while the process is in
  that cycle, or on file while it is in another one and could come back to it; and they never exceed
  a bound \<open>b\<close> on the counter by more than \<open>m\<close>.
\<close>

definition past :: "quota_file \<Rightarrow> time \<Rightarrow> bool" where
  "past f c \<longleftrightarrow> (case f of Checkpoint st \<Rightarrow> c < qs_CycleStart st | _ \<Rightarrow> False)"

definition on_record :: "quota_file \<Rightarrow> time \<Rightarrow> nat" where
  "on_record f c = (case f of Checkpoint st \<Rightarrow> if qs_CycleStart st = c then unat (qs_Used st) else 0 | _ \<Rightarrow> 0)"

definition recorded :: "nat \<Rightarrow> time \<Rightarrow> quota_file \<Rightarrow> nat \<Rightarrow> nat \<Rightarrow> bool" where
  "recorded b c f h m \<longleftrightarrow> (past f c \<or> h \<le> on_record f c + m) \<and> h \<le> b + m"

definition accounted :: "nat \<Rightarrow> time \<Rightarrow> quota_world \<Rightarrow> nat \<Rightarrow> nat \<Rightarrow> bool" where
  "accounted b c w h m \<longleftrightarrow>
     (if q_cycleStart (fst w) = c then h \<le> unat (q_used (fst w)) + m \<and> h \<le> b + m else recorded b c (snd w) h m)"

lemma tracks_current:
  assumes "tracks w"
  shows "\<not> past (snd w) (q_cycleStart (fst w))" "on_record (snd w) (q_cycleStart (fst w)) = unat (q_flushedAt (fst w))"
    "q_cycleStart (fst w) < c \<Longrightarrow> \<not> past (snd w) c \<and> on_record (snd w) c = 0"
  using assms by (auto simp: tracks_def past_def on_record_def split: quota_file.splits)

text \<open>A crash loses what the file trails; the next process accounts for the rest.\<close>

lemma accounted_crash:
  assumes "accounted b c w h m" and "tracks w" and "trailing (fst w) \<le> e"
  shows "recorded b c (snd w) h (m + (if q_cycleStart (fst w) = c then e else 0))"
  using assms tracks_current(1,2) [OF assms(2)] by (auto simp: accounted_def recorded_def trailing_le)

lemma recorded_mono: "recorded b c f h m \<Longrightarrow> m \<le> m' \<Longrightarrow> recorded b c f h m'"
  by (auto simp: recorded_def)

lemma accounted_new:
  assumes "recorded b c f h m" and "NewQuota off l path now f = Inr (Some q)" and "path \<noteq> []"
  shows "accounted b c (q, f) h m"
  using assms(1) NewQuota_file [OF assms(2,3)]
  by (cases f) (auto simp: accounted_def recorded_def past_def on_record_def)

lemma accounted_checkpoint:
  assumes "accounted b c w h m" and "tracks w"
  shows "accounted b c (checkpoint ok now w) h m"
proof (cases "q_cycleStart (fst w) = c")
  case True
  with assms(1) show ?thesis by (simp add: accounted_def)
next
  case False
  have "recorded b c (snd (checkpoint ok now w)) h m" if "recorded b c (snd w) h m"
    using that tracks_current(3) [OF assms(2), of c] False
    by (cases "q_cycleStart (fst w) < c") (auto simp: checkpoint_def Let_def case_prod_unfold recorded_def past_def on_record_def)
  with False assms(1) show ?thesis by (simp add: accounted_def)
qed

lemma accounted_advance:
  assumes "accounted b c w h m" and "tracks w" and "trailing (fst w) \<le> e" and "q_cycleStart (fst w) < d"
  shows "accounted b c ((fst w)\<lparr>q_cycleStart := d, q_used := 0, q_flushedAt := 0\<rparr>, snd w) h
    (m + (if q_cycleStart (fst w) = c then e else 0))"
  using accounted_crash [OF assms(1-3)] tracks_current(3) [OF assms(2,4)] assms(4)
  by (auto simp: accounted_def recorded_def)

lemma accounted_rollover:
  assumes "accounted b c w h m" and "tracks w" and "trailing (fst w) \<le> e"
  shows "rollover off ok now w = w
    \<or> q_cycleStart (fst w) < q_cycleStart (fst (rollover off ok now w))
      \<and> q_used (fst (rollover off ok now w)) = 0
      \<and> accounted b c (rollover off ok now w) h (m + (if q_cycleStart (fst w) = c then e else 0))"
proof (cases rule: rollover_cases [of w off now ok])
  case forward
  show ?thesis
    unfolding forward(2)
    using forward(1) accounted_checkpoint [OF accounted_advance [OF assms forward(1)] tracks_advance [OF assms(2) forward(1)]]
    by simp
qed simp

lemma accounted_rollover_saved:
  assumes "accounted b c w h m" and "tracks w"
  shows "accounted b c (rollover off True now w) h m"
proof (cases rule: rollover_cases [of w off now True])
  case same
  with assms show ?thesis by simp
next
  case forward
  let ?w = "((fst w)\<lparr>q_cycleStart := CycleStart off now (q_cycleDay (fst w)), q_used := 0, q_flushedAt := 0\<rparr>, snd w)"
  have "past (snd (checkpoint True now ?w)) (q_cycleStart (fst w))"
    using forward(1) assms(2) by (simp add: tracks_def checkpoint_def Let_def past_def)
  moreover have "accounted b c (checkpoint True now ?w) h m" if "q_cycleStart (fst w) \<noteq> c"
    using accounted_checkpoint [OF accounted_advance [OF assms order_refl forward(1)] tracks_advance [OF assms(2) forward(1)]] that
    by simp
  ultimately show ?thesis
    using assms(1) forward(1) unfolding forward(2) by (cases "q_cycleStart (fst w) = c") (auto simp: accounted_def recorded_def)
qed

lemma accounted_Add_locked:
  assumes "accounted b c w h m" and "tracks w" and "unat (q_used (fst w)) + unat n < b" and "b \<le> 2 ^ 64"
  shows "accounted b c (Add_locked ok n now w) (h + (if q_cycleStart (fst w) = c then unat n else 0)) m"
proof -
  let ?w = "((fst w)\<lparr>q_used := q_used (fst w) + n\<rparr>, snd w)"
  have "accounted b c ?w (h + (if q_cycleStart (fst w) = c then unat n else 0)) m"
    using assms(1,3) unat_add_below [OF assms(3,4)] by (auto simp: accounted_def)
  then show ?thesis
    using accounted_checkpoint [of b c ?w] tracks_used [of "fst w" "snd w"] assms(2)
    by (cases rule: Add_locked_cases [of ok n now w]) simp_all
qed

text \<open>One charge, with every write going through, and with any outcome of its writes when it is cut short.\<close>

lemma accounted_charge:
  assumes "accounted b c w h m" and "tracks w" and "reserved l streams chunk w (Suc f)"
    and b: "b = overshoot l streams chunk" "b \<le> 2 ^ 64" and n: "unat n \<le> chunk"
  shows "accounted b c (AddForwarded off (True, True) n now w)
    (h + (if q_cycleStart (fst (AddForwarded off (True, True) n now w)) = c then 2 * unat n else 0)) m"
proof -
  let ?w = "rollover off True now w"
  note room = reserved_room [OF reserved_rollover [OF assms(3), of off True now] b(2) [unfolded b(1)] n]
  have "accounted b c (Add_locked True (n * LinkCrossings) now ?w)
      (h + (if q_cycleStart (fst ?w) = c then unat (n * LinkCrossings) else 0)) m"
    by (rule accounted_Add_locked) (use accounted_rollover_saved assms tracks_rollover room in auto)
  with assms(1) room(1) show ?thesis
    by (cases "n * LinkCrossings = 0") (auto simp: AddForwarded_def quota_Add_def)
qed

lemma charge_cut_short:
  assumes "accounted b c w h m" and "tracks w" and "reserved l streams chunk w (Suc f)"
    and b: "b = overshoot l streams chunk" "b \<le> 2 ^ 64" and n: "unat n \<le> chunk" and e: "trailing (fst w) \<le> e"
    and w': "w' = AddForwarded off oks n now w"
  shows "recorded b c (snd w') (h + (if q_cycleStart (fst w') = c then 2 * unat n else 0))
    (m + (if q_cycleStart (fst w) = c \<or> q_cycleStart (fst w') = c then e + 2 * chunk else 0))"
proof -
  let ?w = "rollover off (fst oks) now w" and ?n = "n * LinkCrossings"
  note room = reserved_room [OF reserved_rollover [OF assms(3), of off "fst oks" now] b(2) [unfolded b(1)] n]
  have add: "recorded b c (snd (Add_locked (snd oks) ?n now ?w)) (h + (if q_cycleStart (fst ?w) = c then 2 * unat n else 0))
      (m' + (if q_cycleStart (fst ?w) = c then e' + 2 * unat n else 0))"
    if "accounted b c ?w h m'" "trailing (fst ?w) \<le> e'" for m' e'
  proof -
    have "accounted b c (Add_locked (snd oks) ?n now ?w) (h + (if q_cycleStart (fst ?w) = c then 2 * unat n else 0)) m'"
      using accounted_Add_locked [OF that(1) tracks_rollover [OF assms(2)], where n = ?n and ok = "snd oks" and now = now] room b
      by auto
    from accounted_crash [OF this] show ?thesis
      using tracks_Add_locked [OF tracks_rollover [OF assms(2)]] order_trans [OF trailing_Add_locked] that(2) room(1)
      by simp
  qed
  show ?thesis
  proof (cases "?n = 0")
    case True
    then have "unat n = 0" using room(1) by simp
    then show ?thesis
      using recorded_mono [OF accounted_crash [OF assms(1,2) e]] True
      by (auto simp: w' AddForwarded_def quota_Add_def)
  next
    case False
    then have w2: "w' = Add_locked (snd oks) ?n now ?w" by (simp add: w' AddForwarded_def quota_Add_def)
    consider "?w = w" | (rolled) "q_cycleStart (fst w) < q_cycleStart (fst ?w)" "q_used (fst ?w) = 0"
        "accounted b c ?w h (m + (if q_cycleStart (fst w) = c then e else 0))"
      using accounted_rollover [OF assms(1,2) e] by blast
    then show ?thesis
    proof cases
      case 1
      then show ?thesis unfolding w2 using recorded_mono [OF add [of m e]] assms(1) e n by auto
    next
      case rolled
      then have "trailing (fst ?w) \<le> 0" by (simp add: trailing_def)
      from recorded_mono [OF add [OF rolled(3) this]] rolled(1) n show ?thesis unfolding w2 by auto
    qed
  qed
qed

lemma accounted_op:
  assumes "node_op off (\<lambda>ok. ok) streams chunk s s'" and acc: "accounted b c (node_world s) (n_charged s c) m"
    and tr: "tracks (node_world s)" and res: "reserved l streams chunk (node_world s) (n_inflight s)"
    and b: "b = overshoot l streams chunk" "b \<le> 2 ^ 64"
  shows "accounted b c (node_world s') (n_charged s' c) m"
  using assms(1)
proof (cases rule: node_op_cases)
  case (roll ok now)
  then show ?thesis using accounted_rollover_saved [OF acc tr] by simp
next
  case (charge n oks now)
  then have oks: "oks = (True, True)" by (cases oks) simp
  have cyc: "q_cycleStart (fst (AddForwarded off (True, True) n now (node_world s))) = node_cycle s'"
    using charge(5) [symmetric] unfolding oks by (simp add: node_cycle_def)
  show ?thesis
    using accounted_charge [OF acc tr res [unfolded charge(1)] b charge(2), of off now] charge(7) cyc
    unfolding charge(5) oks by (simp split: if_splits)
next
  case (flush ok now)
  then show ?thesis using accounted_checkpoint [OF acc tr] by simp
qed

lemma op_cut_short:
  assumes "interrupted off streams chunk s s'" and acc: "accounted b c (node_world s) (n_charged s c) m"
    and tr: "tracks (node_world s)" and res: "reserved l streams chunk (node_world s) (n_inflight s)"
    and b: "b = overshoot l streams chunk" "b \<le> 2 ^ 64" and e: "trailing (n_quota s) \<le> e"
  shows "recorded b c (n_file s') (n_charged s' c)
    (m + (if c = node_cycle s \<or> c = node_cycle s' then e + 2 * chunk else 0))"
proof -
  have e': "trailing (fst (node_world s)) \<le> e" using e by simp
  note base = accounted_crash [OF acc tr e']
  consider "s' = s" | "node_op off (\<lambda>_. True) streams chunk s s'" using assms(1) by (auto simp: interrupted_def)
  then show ?thesis
  proof cases
    case 1
    then show ?thesis using recorded_mono [OF base] by (simp add: node_cycle_def)
  next
    case 2
    then show ?thesis
    proof (cases rule: node_op_cases)
      case (roll ok now)
      have written: "n_file s' = snd (rollover off ok now (node_world s))" by (simp flip: roll(2))
      consider "rollover off ok now (node_world s) = node_world s"
        | (rolled) "q_used (fst (rollover off ok now (node_world s))) = 0"
          "accounted b c (rollover off ok now (node_world s)) (n_charged s c)
            (m + (if q_cycleStart (fst (node_world s)) = c then e else 0))"
        using accounted_rollover [OF acc tr e'] by blast
      then show ?thesis
      proof cases
        case 1
        then show ?thesis using recorded_mono [OF base] written roll(3) by (simp add: node_cycle_def)
      next
        case rolled
        then have "trailing (fst (rollover off ok now (node_world s))) \<le> 0" by (simp add: trailing_def)
        from recorded_mono [OF accounted_crash [OF rolled(2) tracks_rollover [OF tr] this]] show ?thesis
          using written roll(3) by (simp add: node_cycle_def)
      qed
    next
      case (charge n oks now)
      have w: "node_world s' = AddForwarded off oks n now (node_world s)" by (rule charge(5))
      show ?thesis
        using charge_cut_short [OF acc tr res [unfolded charge(1)] b charge(2) e' w] charge(7)
        by (simp add: node_cycle_def eq_commute [of c] split: if_splits)
    next
      case (flush ok now)
      have "trailing (fst (checkpoint ok now (node_world s))) \<le> e" by (rule order_trans [OF trailing_checkpoint e'])
      from recorded_mono [OF accounted_crash [OF accounted_checkpoint [OF acc tr] tracks_checkpoint [OF tr] this]]
      show ?thesis using flush(3) by (simp add: node_cycle_def flip: flush(2))
    qed
  qed
qed

text \<open>What one crash can lose: the granularity of the checkpoints, and the charge it cut short.\<close>

definition lost_per_crash :: "limits \<Rightarrow> nat \<Rightarrow> nat" where
  "lost_per_crash l chunk = min 16000000 (max 64000 (unat (MonthlyQuota l) div 64)) + 2 * chunk"

lemma unat_granularity: "unat (granularity q) = min 16000000 (max 64000 (unat (q_limit q) div 64))"
  by (auto simp: granularity_def Let_def minFlushGranularity_def maxFlushGranularity_def unit_defs
      word_less_nat_alt unat_div min_def max_def)

lemma accounted_reachable:
  assumes "node_reachable off l path (\<lambda>ok. ok) streams chunk s" and "path \<noteq> []"
    and room: "overshoot l streams chunk \<le> 2 ^ 64"
  shows "accounted (overshoot l streams chunk) c (node_world s) (n_charged s c) (n_crashes s c * lost_per_crash l chunk)"
  using assms(1)
proof (induction rule: node_reachable.induct)
  case (first_run now q)
  then show ?case by (simp add: accounted_def recorded_def)
next
  case (step s s')
  note res = reserved_reachable [OF step(1) room] and dur = durable_reachable [OF step(1) assms(2) room]
  from step(2) show ?case
  proof cases
    case run
    moreover have "n_crashes s' = n_crashes s" using run by (cases rule: node_op_cases)
    ultimately show ?thesis using accounted_op [OF run step.IH durable_tracks [OF dur] res refl room] by simp
  next
    case (crash s1 now q)
    have "unat (granularity (n_quota s)) + 2 * chunk = lost_per_crash l chunk"
      using res by (simp add: unat_granularity lost_per_crash_def reserved_def below_def)
    moreover have "n_crashes s1 = n_crashes s"
      using crash(2) by (auto simp: interrupted_def elim: node_op_cases)
    moreover have trail: "trailing (n_quota s) \<le> unat (granularity (n_quota s))"
      using durable_trailing [OF dur] by simp
    ultimately have "recorded (overshoot l streams chunk) c (n_file s1) (n_charged s1 c) (n_crashes s' c * lost_per_crash l chunk)"
      using op_cut_short [OF crash(2) step.IH durable_tracks [OF dur] res refl room trail] unfolding crash(1)
      by (elim recorded_mono) auto
    from accounted_new [OF this crash(3) assms(2)] show ?thesis unfolding crash(1) by simp
  qed
qed

text \<open>As long as nothing crashed, the counter is what was charged, whatever writes fail.\<close>

definition uncrashed :: "nat \<Rightarrow> time \<Rightarrow> quota \<Rightarrow> nat \<Rightarrow> bool" where
  "uncrashed b c q h \<longleftrightarrow> (q_cycleStart q = c \<longrightarrow> h \<le> unat (q_used q)) \<and> (q_cycleStart q < c \<longrightarrow> h = 0) \<and> h \<le> b"

lemma uncrashed_rollover: "uncrashed b c (fst w) h \<Longrightarrow> uncrashed b c (fst (rollover off ok now w)) h"
  by (cases rule: rollover_cases [of w off now ok]) (auto simp: uncrashed_def)

lemma uncrashed_charge:
  assumes "uncrashed b c (fst w) h" and "reserved l streams chunk w (Suc f)"
    and b: "b = overshoot l streams chunk" "b \<le> 2 ^ 64" and n: "unat n \<le> chunk"
  shows "uncrashed b c (fst (AddForwarded off oks n now w))
    (h + (if c = q_cycleStart (fst (AddForwarded off oks n now w)) then 2 * unat n else 0))"
proof -
  note room = reserved_room [OF reserved_rollover [OF assms(2), of off "fst oks" now] b(2) [unfolded b(1)] n]
  have used: "unat (q_used (fst (rollover off (fst oks) now w)) + n * LinkCrossings) =
      unat (q_used (fst (rollover off (fst oks) now w))) + 2 * unat n"
    using unat_add_below [OF _ b(2), of "q_used (fst (rollover off (fst oks) now w))" "n * LinkCrossings"] room b(1) by simp
  show ?thesis
  proof (cases "n * LinkCrossings = 0")
    case True
    then have "unat n = 0" using room(1) by simp
    then show ?thesis using assms(1) True by (auto simp: AddForwarded_def quota_Add_def)
  next
    case False
    then show ?thesis
      using uncrashed_rollover [OF assms(1), of off "fst oks" now] used room(2) b(1)
      by (auto simp: uncrashed_def AddForwarded_def quota_Add_def)
  qed
qed

lemma uncrashed_op:
  assumes "node_op off may streams chunk s s'" and un: "uncrashed b c (n_quota s) (n_charged s c)"
    and res: "reserved l streams chunk (node_world s) (n_inflight s)"
    and b: "b = overshoot l streams chunk" "b \<le> 2 ^ 64"
  shows "uncrashed b c (n_quota s') (n_charged s' c)"
proof -
  have un': "uncrashed b c (fst (node_world s)) (n_charged s c)" using un by simp
  show ?thesis
    using assms(1)
  proof (cases rule: node_op_cases)
    case (roll ok now)
    then show ?thesis using uncrashed_rollover [OF un', of off ok now] by (simp flip: roll(2))
  next
    case (charge n oks now)
    then show ?thesis
      using uncrashed_charge [OF un' res [unfolded charge(1)] b charge(2), of off oks now]
      by (simp add: node_cycle_def flip: charge(5))
  next
    case (flush ok now)
    then show ?thesis using un' checkpoint_fields [of ok now "node_world s"] by (simp add: uncrashed_def flip: flush(2))
  qed
qed

lemma uncrashed_reachable:
  assumes "node_reachable off l path may streams chunk s" and room: "overshoot l streams chunk \<le> 2 ^ 64"
  shows "n_crashes s = (\<lambda>_. 0) \<longrightarrow> uncrashed (overshoot l streams chunk) c (n_quota s) (n_charged s c)"
  using assms(1)
proof (induction rule: node_reachable.induct)
  case (first_run now q)
  then show ?case by (simp add: uncrashed_def)
next
  case (step s s')
  note res = reserved_reachable [OF step(1) room]
  from step(2) show ?case
  proof cases
    case run
    moreover have "n_crashes s' = n_crashes s" using run by (cases rule: node_op_cases)
    ultimately show ?thesis using uncrashed_op [OF run _ res refl room] step.IH by simp
  next
    case (crash s1 now q)
    then have "n_crashes s' (node_cycle s) \<noteq> 0" by simp
    then show ?thesis by fastforce
  qed
qed


section \<open>A crash does not reset the quota\<close>

text \<open>Within a cycle what the file has never falls, and an operation leaves it behind by at most its charge.\<close>

lemma interrupted_trailing:
  assumes "interrupted off streams chunk s s'" and "reserved l streams chunk (node_world s) (n_inflight s)"
    and "overshoot l streams chunk \<le> 2 ^ 64"
  shows "trailing (n_quota s') \<le> trailing (n_quota s) + (if s' = s then 0 else 2 * chunk)"
proof -
  consider "s' = s" | "node_op off (\<lambda>_. True) streams chunk s s'" using assms(1) by (auto simp: interrupted_def)
  then show ?thesis
  proof cases
    case 2
    have "trailing (fst (node_world s')) \<le> trailing (n_quota s) + 2 * chunk \<and> (s' = s \<longrightarrow> trailing (n_quota s') \<le> trailing (n_quota s))"
      using 2
    proof (cases rule: node_op_cases)
      case (roll ok now)
      then show ?thesis using trailing_rollover [of off ok now "node_world s"] by simp
    next
      case (charge n oks now)
      note room = reserved_room [OF reserved_rollover [OF assms(2), of off "fst oks" now, unfolded charge(1)] assms(3) charge(2)]
      show ?thesis
        unfolding charge(5)
        using trailing_rollover [of off "fst oks" now "node_world s"] room(1) charge(2)
          trailing_Add_locked [of "snd oks" "n * LinkCrossings" now "rollover off (fst oks) now (node_world s)"]
        by (auto simp: AddForwarded_def quota_Add_def)
    next
      case (flush ok now)
      then show ?thesis using trailing_checkpoint [of ok now "node_world s"] by simp
    qed
    then show ?thesis by simp
  qed simp
qed

lemma checkpoint_flushed:
  "q_flushedAt (fst (checkpoint ok now w)) = q_used (fst w) \<or> q_flushedAt (fst (checkpoint ok now w)) = q_flushedAt (fst w)"
  by (simp add: checkpoint_def Let_def case_prod_unfold)

lemma Add_locked_flushed:
  assumes "q_flushedAt (fst w) \<le> q_used (fst w)" and "unat (q_used (fst w)) + unat n < b" and "b \<le> 2 ^ 64"
  shows "q_flushedAt (fst w) \<le> q_flushedAt (fst (Add_locked ok n now w))"
proof -
  have "q_flushedAt (fst w) \<le> q_used (fst w) + n"
    using assms(1) unat_add_below [OF assms(2,3)] by (simp add: word_le_nat_alt)
  then show ?thesis
    using checkpoint_flushed [of ok now "((fst w)\<lparr>q_used := q_used (fst w) + n\<rparr>, snd w)"]
    by (cases rule: Add_locked_cases [of ok n now w]) auto
qed

lemma flushed_mono:
  assumes "interrupted off streams chunk s s'" and dur: "durable (node_world s)"
    and res: "reserved l streams chunk (node_world s) (n_inflight s)" and room: "overshoot l streams chunk \<le> 2 ^ 64"
    and cyc: "node_cycle s' = node_cycle s"
  shows "q_flushedAt (n_quota s) \<le> q_flushedAt (n_quota s')"
proof -
  have le: "q_flushedAt (n_quota s) \<le> q_used (n_quota s)" using dur by (simp add: durable_def Let_def)
  consider "s' = s" | "node_op off (\<lambda>_. True) streams chunk s s'" using assms(1) by (auto simp: interrupted_def)
  then show ?thesis
  proof cases
    case 2
    then have "q_flushedAt (n_quota s) \<le> q_flushedAt (fst (node_world s'))"
    proof (cases rule: node_op_cases)
      case (roll ok now)
      then have "q_cycleStart (fst (rollover off ok now (node_world s))) = q_cycleStart (fst (node_world s))"
        using cyc by (simp add: node_cycle_def flip: roll(2))
      then show ?thesis unfolding roll(2) by (simp add: rollover_monotone(2))
    next
      case (charge n oks now)
      let ?w = "rollover off (fst oks) now (node_world s)"
      note r = reserved_room [OF reserved_rollover [OF res, of off "fst oks" now, unfolded charge(1)] room charge(2)]
      show ?thesis
      proof (cases "n * LinkCrossings = 0")
        case True
        then show ?thesis unfolding charge(5) by (simp add: AddForwarded_def quota_Add_def)
      next
        case False
        then have add: "node_world s' = Add_locked (snd oks) (n * LinkCrossings) now ?w"
          unfolding charge(5) by (simp add: AddForwarded_def quota_Add_def)
        then have "q_cycleStart (fst ?w) = q_cycleStart (fst (node_world s))"
          using cyc by (metis Add_locked_fields(2) node_cycle_def node_world_simps(1))
        then have same: "?w = node_world s" by (rule rollover_monotone(2))
        show ?thesis
          unfolding add same using Add_locked_flushed [of "node_world s" "n * LinkCrossings" "overshoot l streams chunk"] le r room unfolding same by simp
      qed
    next
      case (flush ok now)
      then show ?thesis using checkpoint_flushed [of ok now "node_world s"] le by auto
    qed
    then show ?thesis by simp
  qed simp
qed

text \<open>A restart in the cycle of the dead process, or by a clock that lags behind it, comes back with what the file has.\<close>

lemma restart_reads_file:
  assumes "tracks (node_world s)" and "q_limit (n_quota s) = MonthlyQuota l" and "MonthlyQuota l \<noteq> 0" and "path \<noteq> []"
    and "CycleStart off now (if CycleDay l = 0 then 1 else CycleDay l) \<le> node_cycle s"
  shows "\<exists>q. NewQuota off l path now (n_file s) = Inr (Some q) \<and> q_flushedAt (n_quota s) \<le> q_used q"
  using assms by (cases "n_file s") (auto simp: tracks_def NewQuota_def Let_def node_cycle_def)

text \<open>C22: A process that dies, between two operations or inside one, and is started again by a clock that
  has not reached a later cycle, comes back with at least the counter of the last checkpoint that went
  through, whatever writes failed. If every write other than those the crash cuts short goes through, then
  the counter has lost less than one checkpoint granularity when the process dies between operations,
  and at most one read more when it dies inside one; and a quota that was spent before the operation,
  in the cycle the process dies in, is still spent. So no crash, and no clock that boots in the past,
  mints a fresh month. The node has a state file, and keeps its quota and reset day over the restart.\<close>

theorem crash_keeps_the_quota:
  assumes "node_reachable off l path may streams chunk s" and "path \<noteq> []"
    and "unat (MonthlyQuota l) + 2 * chunk * streams \<le> 2 ^ 64"
    and "interrupted off streams chunk s s'"
    and "CycleStart off now (if CycleDay l = 0 then 1 else CycleDay l) \<le> node_cycle s'"
  shows "\<exists>q. NewQuota off l path now (n_file s') = Inr (Some q)
    \<and> q_flushedAt (n_quota s') \<le> q_used q
    \<and> (may = (\<lambda>ok. ok) \<longrightarrow>
        unat (q_used (n_quota s'))
          < unat (q_used q) + unat (granularity (n_quota s)) + (if s' = s then 0 else 2 * chunk)
        \<and> (MonthlyQuota l \<le> q_used (n_quota s) \<and> node_cycle s' = node_cycle s \<longrightarrow> MonthlyQuota l \<le> q_used q))"
proof -
  have room: "overshoot l streams chunk \<le> 2 ^ 64" using assms(3) by (simp add: overshoot_def)
  note res = reserved_reachable [OF assms(1) room]
  note res' = reserved_interrupted [OF assms(4) res room]
  have "tracks (node_world s')"
    using tracks_reachable [OF assms(1,2)] assms(4) by (auto simp: interrupted_def intro: tracks_op)
  moreover have "q_limit (n_quota s') = MonthlyQuota l" "MonthlyQuota l \<noteq> 0" and lim: "q_limit (n_quota s) = MonthlyQuota l"
    using res res' by (auto simp: reserved_def below_def)
  ultimately obtain q where q: "NewQuota off l path now (n_file s') = Inr (Some q)" "q_flushedAt (n_quota s') \<le> q_used q"
    using restart_reads_file assms(2,5) by blast
  have "unat (q_used (n_quota s'))
          < unat (q_used q) + unat (granularity (n_quota s)) + (if s' = s then 0 else 2 * chunk)
        \<and> (MonthlyQuota l \<le> q_used (n_quota s) \<and> node_cycle s' = node_cycle s \<longrightarrow> MonthlyQuota l \<le> q_used q)"
    if "may = (\<lambda>ok. ok)"
  proof -
    have dur: "durable (node_world s)" using durable_reachable assms(1,2) room that by blast
    have "trailing (n_quota s') < unat (granularity (n_quota s)) + (if s' = s then 0 else 2 * chunk)"
      using interrupted_trailing [OF assms(4) res room] durable_trailing [OF dur] by auto
    moreover have "unat (q_flushedAt (n_quota s')) \<le> unat (q_used q)" using q(2) by (simp add: word_le_nat_alt)
    moreover have "MonthlyQuota l \<le> q_used q" if spent: "MonthlyQuota l \<le> q_used (n_quota s)" "node_cycle s' = node_cycle s"
    proof -
      have "MonthlyQuota l \<le> q_flushedAt (n_quota s)" using dur spent(1) lim by (simp add: durable_def Let_def)
      also have "\<dots> \<le> q_flushedAt (n_quota s')" by (rule flushed_mono [OF assms(4) dur res room spent(2)])
      finally show ?thesis using q(2) by (rule order_trans)
    qed
    ultimately show ?thesis by (auto simp: trailing_def)
  qed
  with q show ?thesis by blast
qed

section \<open>A run that spends the quota and crashes\<close>

definition demo_limits :: limits where
  "demo_limits = \<lparr>SpeedCap = 0, MonthlyQuota = 1000, CycleDay = 15\<rparr>"

definition demo_quota :: "byte_count \<Rightarrow> byte_count \<Rightarrow> quota" where
  "demo_quota used flushed =
     \<lparr>q_limit = 1000, q_cycleDay = 15, q_used = used, q_cycleStart = CycleStart 0 0 15,
      q_path = ''q'', q_flushedAt = flushed, q_flushedTime = 0, q_flushErr = False\<rparr>"

definition demo_state :: quota_state where
  "demo_state = \<lparr>qs_CycleStart = CycleStart 0 0 15, qs_Used = 1200, qs_Limit = 1000, qs_CycleDay = 15\<rparr>"

text \<open>One read of 600 bytes passes its check and is charged, which spends the quota of 1000.\<close>

definition demo_spent :: node where
  "demo_spent =
     \<lparr>n_quota = demo_quota 1200 1200, n_file = Checkpoint demo_state, n_inflight = 0,
      n_charged = (\<lambda>_. 0)(CycleStart 0 0 15 := 1200), n_crashes = (\<lambda>_. 0)\<rparr>"

lemmas demo_quota_defs = demo_limits_def demo_quota_def demo_state_def demo_spent_def

lemma demo_spent_reachable: "node_reachable 0 demo_limits ''q'' (\<lambda>ok. ok) 2 32768 demo_spent"
proof -
  let ?r = "node_reachable 0 demo_limits ''q'' (\<lambda>ok. ok) 2 32768"
  have roll: "rollover 0 ok 0 (demo_quota u f, w) = (demo_quota u f, w)" for ok u f w
    by (simp add: rollover_def demo_quota_def)
  have s0: "?r (first_node (demo_quota 0 0))"
    by (rule node_reachable.first_run [where now = 0]) (simp add: NewQuota_def demo_quota_defs Let_def)
  have "node_op 0 (\<lambda>ok. ok) 2 32768 (first_node (demo_quota 0 0)) (node_with (demo_quota 0 0, NoFile) 1 (first_node (demo_quota 0 0)))"
    using node_op.admit [where s = "first_node (demo_quota 0 0)" and ok = True and now = 0 and w = "(demo_quota 0 0, NoFile)"
        and off = 0 and streams = 2 and chunk = 32768 and may = "\<lambda>ok. ok"]
    by (simp add: Exhausted_def Let_def roll) (simp add: demo_quota_def)
  then have s1: "?r (node_with (demo_quota 0 0, NoFile) 1 (first_node (demo_quota 0 0)))"
    by (rule node_reachable.step [OF s0 node_step.run])
  have add: "AddForwarded 0 (True, True) 600 0 (demo_quota 0 0, NoFile) = (demo_quota 1200 1200, Checkpoint demo_state)"
    by (simp add: AddForwarded_def quota_Add_def roll LinkCrossings_def Add_locked_def)
       (simp add: demo_quota_def demo_state_def checkpoint_def)
  let ?s1 = "node_with (demo_quota 0 0, NoFile) 1 (first_node (demo_quota 0 0))" and ?w = "(demo_quota 1200 1200, Checkpoint demo_state)"
  have "demo_spent = count_charge (q_cycleStart (fst ?w)) (2 * unat (600 :: uint64)) (node_with ?w (n_inflight ?s1 - 1) ?s1)"
    by (simp add: count_charge_def node_with_def first_node_def demo_spent_def) (simp add: demo_quota_def)
  moreover have "node_op 0 (\<lambda>ok. ok) 2 32768 ?s1
      (count_charge (q_cycleStart (fst ?w)) (2 * unat (600 :: uint64)) (node_with ?w (n_inflight ?s1 - 1) ?s1))"
    by (rule node_op.charge [where oks = "(True, True)" and now = 0]) (simp_all add: add)
  ultimately have "node_op 0 (\<lambda>ok. ok) 2 32768 ?s1 demo_spent" by simp
  then show ?thesis by (rule node_reachable.step [OF s1 node_step.run])
qed

definition demo_crashed :: node where
  "demo_crashed = count_crash (CycleStart 0 0 15) (CycleStart 0 0 15) (node_with (demo_quota 1200 1200, Checkpoint demo_state) 0 demo_spent)"

lemma demo_restart: "NewQuota 0 demo_limits ''q'' 0 (Checkpoint demo_state) = Inr (Some (demo_quota 1200 1200))"
  by (simp add: NewQuota_def demo_quota_defs Let_def)

lemma demo_crashed_reachable: "node_reachable 0 demo_limits ''q'' (\<lambda>ok. ok) 2 32768 demo_crashed"
proof (rule node_reachable.step [OF demo_spent_reachable])
  have "node_cycle demo_spent = CycleStart 0 0 15" by (simp add: node_cycle_def demo_quota_defs)
  then show "node_step 0 demo_limits ''q'' (\<lambda>ok. ok) 2 32768 demo_spent demo_crashed"
    using node_step.crash [where s = demo_spent and s' = demo_spent and now = 0 and l = demo_limits and path = "''q''" and off = 0
        and q = "demo_quota 1200 1200" and streams = 2 and chunk = 32768 and may = "\<lambda>ok. ok"] demo_restart
    by (simp add: interrupted_def demo_crashed_def demo_spent_def)
qed


theorem crash_keeps_the_quota_witness:
  "1000 \<le> q_used (n_quota demo_spent)
   \<and> (\<exists>q. NewQuota 0 demo_limits ''q'' 0 (n_file demo_spent) = Inr (Some q) \<and> 1000 \<le> q_used q)"
proof
  show spent: "1000 \<le> q_used (n_quota demo_spent)" by (simp add: demo_quota_defs)
  have "interrupted 0 2 32768 demo_spent demo_spent" by (simp add: interrupted_def)
  from crash_keeps_the_quota [OF demo_spent_reachable _ _ this, of 0]
  show "\<exists>q. NewQuota 0 demo_limits ''q'' 0 (n_file demo_spent) = Inr (Some q) \<and> 1000 \<le> q_used q"
    using spent by (auto simp: node_cycle_def demo_quota_defs)
qed

end
