(* ===== verification/Float64.thy ===== *)
theory Float64
  imports Complex_Main Prelude
begin

text \<open>
  The IEEE 754 double arithmetic the capacity code uses: conversion of an unsigned integer to
  \<open>float64\<close>, multiplication, and conversion back by truncation. A finite double is its exact
  rational value, and an operation is the exact result rounded to 53 significant bits, ties to
  even. The exponent is unbounded: the products the code forms lie between \<open>0\<close> and \<open>2 ^ 128\<close>,
  and a product below the normal range truncates to zero either way. A double that does not fit
  the target integer type converts to a value the Go specification leaves to the
  implementation, which is the parameter \<open>oob\<close>.
\<close>

section \<open>Rounding to an integer, ties to even\<close>

definition rne :: "rat \<Rightarrow> int" where
  "rne x =
     (let n = floor x; d = x - of_int n
      in if d < 1 / 2 then n else if d > 1 / 2 then n + 1 else if even n then n else n + 1)"

lemma rne_of_int [simp]: "rne (of_int n) = n"
  by (simp add: rne_def)

lemma rne_range: "floor x \<le> rne x" "rne x \<le> floor x + 1"
  by (auto simp: rne_def Let_def)

lemma rne_le_of_int: "x \<le> of_int n \<Longrightarrow> rne x \<le> n"
proof -
  assume "x \<le> of_int n"
  then have "floor x < n \<or> x = of_int n"
    by (metis floor_less_iff less_eq_rat_def)
  then show ?thesis
    using rne_range(2) [of x] by auto
qed

lemma of_int_le_rne: "of_int n \<le> x \<Longrightarrow> n \<le> rne x"
  using rne_range(1) [of x] by (metis le_floor_iff order.trans)

lemma rne_mono: "x \<le> y \<Longrightarrow> rne x \<le> rne y"
proof -
  assume le: "x \<le> y"
  then have fl: "floor x \<le> floor y" by (rule floor_mono)
  show ?thesis
  proof (cases "floor x = floor y")
    case True
    with le show ?thesis by (auto simp: rne_def Let_def)
  next
    case False
    with fl rne_range(2) [of x] rne_range(1) [of y] show ?thesis by simp
  qed
qed

section \<open>Rounding to 53 significant bits\<close>

text \<open>The exponent \<open>e\<close> of a positive rational: \<open>2 ^ e \<le> x < 2 ^ (e + 1)\<close>.\<close>

definition exponent_ok :: "rat \<Rightarrow> int \<Rightarrow> bool" where
  "exponent_ok x e \<longleftrightarrow> 2 powi e \<le> x \<and> x < 2 powi (e + 1)"

fun bits_of_nat :: "nat \<Rightarrow> nat" where
  "bits_of_nat n = (if n < 2 then 0 else Suc (bits_of_nat (n div 2)))"

declare bits_of_nat.simps [simp del]

definition exponent :: "rat \<Rightarrow> int" where
  "exponent x =
     (let (a, b) = quotient_of x;
          e = int (bits_of_nat (nat a)) - int (bits_of_nat (nat b))
      in if 2 powi e \<le> x then e else e - 1)"

lemma bits_of_nat_bounds:
  "0 < n \<Longrightarrow> 2 ^ bits_of_nat n \<le> n \<and> n < 2 ^ (bits_of_nat n + 1)"
proof (induction n rule: bits_of_nat.induct)
  case (1 n)
  show ?case
  proof (cases "n < 2")
    case True
    with 1(2) show ?thesis by (simp add: bits_of_nat.simps)
  next
    case False
    with 1(1) have "2 ^ bits_of_nat (n div 2) \<le> n div 2" "n div 2 < 2 ^ (bits_of_nat (n div 2) + 1)"
      by auto
    then show ?thesis
      using False by (simp add: bits_of_nat.simps [of n]) linarith
  qed
qed

lemma exponent_ok_exponent:
  assumes "0 < x"
  shows "exponent_ok x (exponent x)"
proof -
  obtain a b where ab: "quotient_of x = (a, b)" by (cases "quotient_of x")
  have b: "0 < b" using quotient_of_denom_pos [OF ab] .
  have x: "x = of_int a / of_int b" by (rule quotient_of_div [OF ab])
  have a: "0 < a" using assms b x by (simp add: zero_less_divide_iff)
  let ?m = "bits_of_nat (nat a)" and ?n = "bits_of_nat (nat b)"
  let ?e = "int ?m - int ?n"
  have fromNat: "(2 :: rat) ^ bits_of_nat (nat c) \<le> of_int c" "of_int c < (2 :: rat) ^ (bits_of_nat (nat c) + 1)"
    if "0 < c" for c :: int
  proof -
    have "2 ^ bits_of_nat (nat c) \<le> c" "c < 2 ^ (bits_of_nat (nat c) + 1)"
      using bits_of_nat_bounds [of "nat c"] that by (auto simp: le_nat_iff nat_less_iff)
    then show "(2 :: rat) ^ bits_of_nat (nat c) \<le> of_int c" "of_int c < (2 :: rat) ^ (bits_of_nat (nat c) + 1)"
      by (metis of_int_le_iff of_int_less_iff of_int_numeral of_int_power)+
  qed
  have pe: "(2 :: rat) powi ?e = 2 ^ ?m / 2 ^ ?n"
    by (simp add: power_int_diff)
  have pe1: "(2 :: rat) powi (?e + 1) = 2 ^ (?m + 1) / 2 ^ ?n" "(2 :: rat) powi (?e - 1) = 2 ^ ?m / 2 ^ (?n + 1)"
    by (simp_all add: power_int_diff power_int_add)
  have up: "x < 2 powi (?e + 1)"
    unfolding x pe1 using fromNat [OF a] fromNat [OF b] a b
    by (intro frac_less) auto
  have low: "2 powi (?e - 1) \<le> x"
    unfolding x pe1 using fromNat [OF a] fromNat [OF b] a b
    by (intro frac_le) auto
  show ?thesis
    using up low by (auto simp: exponent_ok_def exponent_def ab Let_def)
qed

text \<open>\<open>fl_pos x\<close> is the double nearest to a non-negative rational \<open>x\<close>, \<open>fl\<close> that of any.\<close>

definition fl_pos :: "rat \<Rightarrow> rat" where
  "fl_pos x = (if x \<le> 0 then 0
     else let q = 2 powi (exponent x - 52) in of_int (rne (x / q)) * q)"

lemma powi_two_pos [simp]: "0 < (2 :: rat) powi e"
  by (simp add: zero_less_power_int)

lemma fl_pos_nonneg [simp]: "0 \<le> fl_pos x"
proof (cases "0 < x")
  case True
  then have "0 \<le> x / 2 powi (exponent x - 52)"
    by (simp add: less_imp_le)
  then have "0 \<le> rne (x / 2 powi (exponent x - 52))"
    using of_int_le_rne [of 0] by simp
  then show ?thesis by (simp add: fl_pos_def Let_def less_imp_le)
qed (simp add: fl_pos_def)

lemma powi_mono: "d \<le> e \<Longrightarrow> (2 :: rat) powi d \<le> 2 powi e"
  by (rule power_int_increasing) simp_all

lemma powi_53: "(2 :: rat) powi (e + 1) = 9007199254740992 * 2 powi (e - 52)"
  "(2 :: rat) powi e = 4503599627370496 * 2 powi (e - 52)"
  by (simp_all add: power_int_add power_int_diff)

lemma exponent_mono:
  assumes "0 < x" and "x \<le> y"
  shows "exponent x \<le> exponent y"
proof -
  have "2 powi exponent x \<le> x" "y < 2 powi (exponent y + 1)"
    using assms exponent_ok_exponent [of x] exponent_ok_exponent [of y] by (auto simp: exponent_ok_def)
  with assms(2) have "(2 :: rat) powi exponent x < 2 powi (exponent y + 1)" by linarith
  moreover have "(2 :: rat) powi (exponent y + 1) \<le> 2 powi exponent x" if "exponent y < exponent x"
    using that by (intro powi_mono) simp
  ultimately show ?thesis by linarith
qed

lemma fl_pos_bounds:
  assumes "0 < x"
  shows "2 powi exponent x \<le> fl_pos x" "fl_pos x \<le> 2 powi (exponent x + 1)"
proof -
  let ?q = "(2 :: rat) powi (exponent x - 52)"
  have ok: "2 powi exponent x \<le> x" "x < 2 powi (exponent x + 1)"
    using exponent_ok_exponent [OF assms] by (simp_all add: exponent_ok_def)
  have "4503599627370496 \<le> rne (x / ?q)"
    by (rule of_int_le_rne) (use ok(1) in \<open>simp add: powi_53(2) [of "exponent x"] pos_le_divide_eq\<close>)
  then have "(4503599627370496 :: rat) \<le> of_int (rne (x / ?q))" by simp
  then have "4503599627370496 * ?q \<le> of_int (rne (x / ?q)) * ?q"
    by (rule mult_right_mono) (simp add: less_imp_le)
  then show "2 powi exponent x \<le> fl_pos x"
    using assms by (simp add: fl_pos_def Let_def powi_53(2) [of "exponent x"])
  have "rne (x / ?q) \<le> 9007199254740992"
    by (rule rne_le_of_int)
       (use ok(2) in \<open>simp add: powi_53(1) [of "exponent x"] pos_divide_le_eq less_imp_le\<close>)
  then have "of_int (rne (x / ?q)) \<le> (9007199254740992 :: rat)" by simp
  then have "of_int (rne (x / ?q)) * ?q \<le> 9007199254740992 * ?q"
    by (rule mult_right_mono) (simp add: less_imp_le)
  then show "fl_pos x \<le> 2 powi (exponent x + 1)"
    using assms by (simp add: fl_pos_def Let_def powi_53(1) [of "exponent x"])
qed

lemma fl_pos_mono: "x \<le> y \<Longrightarrow> fl_pos x \<le> fl_pos y"
proof (cases "0 < x")
  case True
  assume le: "x \<le> y"
  then have y: "0 < y" using True by simp
  have e: "exponent x \<le> exponent y" by (rule exponent_mono [OF True le])
  show ?thesis
  proof (cases "exponent x = exponent y")
    case eq: True
    have "rne (x / 2 powi (exponent x - 52)) \<le> rne (y / 2 powi (exponent x - 52))"
      using le by (intro rne_mono divide_right_mono) (simp_all add: less_imp_le)
    then show ?thesis
      using True y eq by (simp add: fl_pos_def Let_def)
  next
    case False
    then have "(2 :: rat) powi (exponent x + 1) \<le> 2 powi exponent y"
      using e by (intro powi_mono) simp
    with fl_pos_bounds [OF True] fl_pos_bounds [OF y] show ?thesis by linarith
  qed
next
  case False
  then have "fl_pos x = 0" by (simp add: fl_pos_def)
  then show ?thesis by simp
qed

lemma fl_pos_exact:
  assumes "0 < x" and "x / 2 powi (exponent x - 52) = of_int n"
  shows "fl_pos x = x"
proof -
  have "fl_pos x = of_int n * 2 powi (exponent x - 52)"
    using assms(1) by (simp add: fl_pos_def Let_def assms(2))
  also have "\<dots> = x"
    by (simp flip: assms(2))
  finally show ?thesis .
qed

lemma fl_pos_of_nat:
  assumes "n \<le> 2 ^ 53"
  shows "fl_pos (of_nat n) = of_nat n"
proof (cases "n = 0 \<or> n = 2 ^ 53")
  case True
  have "exponent (9007199254740992 :: rat) = 53"
  proof -
    have "exponent_ok 9007199254740992 (exponent 9007199254740992)"
      by (rule exponent_ok_exponent) simp
    moreover have "e \<le> 53" if "2 powi e \<le> (9007199254740992 :: rat)" for e
    proof (rule ccontr)
      assume "\<not> e \<le> 53"
      then have "(2 :: rat) powi 54 \<le> 2 powi e" by (intro powi_mono) simp
      with that show False by simp
    qed
    moreover have "53 \<le> e" if "(9007199254740992 :: rat) < 2 powi (e + 1)" for e
    proof (rule ccontr)
      assume "\<not> 53 \<le> e"
      then have "(2 :: rat) powi (e + 1) \<le> 2 powi 53" by (intro powi_mono) simp
      with that show False by simp
    qed
    ultimately show ?thesis by (simp add: exponent_ok_def eq_iff)
  qed
  then have "fl_pos 9007199254740992 = 9007199254740992"
    using rne_of_int [of 4503599627370496] by (simp add: fl_pos_def Let_def)
  with True show ?thesis by (auto simp: fl_pos_def)
next
  case False
  then have "0 < n" "n < 2 ^ 53" using assms by auto
  then have "(of_nat 0 :: rat) < of_nat n" "(of_nat n :: rat) < of_nat (2 ^ 53)"
    by (simp_all only: of_nat_less_iff)
  then have n: "0 < (of_nat n :: rat)" "(of_nat n :: rat) < 2 ^ 53" by simp_all
  let ?e = "exponent (of_nat n)"
  have "?e \<le> 52"
  proof (rule ccontr)
    assume "\<not> ?e \<le> 52"
    then have "(2 :: rat) powi 53 \<le> 2 powi ?e" by (intro powi_mono) simp
    with n exponent_ok_exponent [OF n(1)] show False by (simp add: exponent_ok_def)
  qed
  then have "(2 :: rat) powi (?e - 52) = inverse (2 ^ nat (52 - ?e))"
    by (simp add: power_int_def power_inverse inverse_eq_divide power_one_over)
  then have "of_nat n / 2 powi (?e - 52) = (of_int (int n * 2 ^ nat (52 - ?e)) :: rat)"
    by (simp add: divide_inverse)
  with n(1) show ?thesis by (rule fl_pos_exact)
qed

definition fl :: "rat \<Rightarrow> rat" where
  "fl x = (if x < 0 then - fl_pos (- x) else fl_pos x)"

lemma fl_eq_pos: "0 \<le> x \<Longrightarrow> fl x = fl_pos x"
  by (simp add: fl_def)

lemma fl_nonneg: "0 \<le> x \<Longrightarrow> 0 \<le> fl x"
  by (simp add: fl_def)

lemma fl_mono: "x \<le> y \<Longrightarrow> fl x \<le> fl y"
  using fl_pos_mono [of x y] fl_pos_mono [of "- y" "- x"] fl_pos_nonneg [of "- x"]
    fl_pos_nonneg [of y]
  by (auto simp: fl_def simp del: fl_pos_nonneg)

lemma fl_of_nat: "n \<le> 2 ^ 53 \<Longrightarrow> fl (of_nat n) = of_nat n"
  by (simp add: fl_eq_pos fl_pos_of_nat)

section \<open>Conversions and products\<close>

definition float_of :: "uint64 \<Rightarrow> rat" where
  "float_of w = fl (of_nat (unat w))"

definition fmul :: "rat \<Rightarrow> rat \<Rightarrow> rat" where
  "fmul x y = fl (x * y)"

definition uint64_of :: "(rat \<Rightarrow> uint64) \<Rightarrow> rat \<Rightarrow> uint64" where
  "uint64_of oob x =
     (if - 1 < x \<and> x < 18446744073709551616 then word_of_int (if x < 0 then 0 else floor x)
      else oob x)"

definition int_of_float :: "rat \<Rightarrow> int" where
  "int_of_float x = (if x < 0 then - floor (- x) else floor x)"

lemma unat_uint64_of:
  assumes "0 \<le> x" and "x < 18446744073709551616"
  shows "of_nat (unat (uint64_of oob x)) \<le> x"
proof -
  have "0 \<le> floor x" "floor x < 18446744073709551616"
    using assms by (auto simp: floor_less_iff)
  then have "int (unat (uint64_of oob x)) = floor x"
    using assms by (simp add: uint64_of_def unat_eq_nat_uint uint_word_of_int)
  then have "(of_nat (unat (uint64_of oob x)) :: rat) = of_int (floor x)"
    by (metis of_int_of_nat_eq)
  then show ?thesis by simp
qed

text \<open>A value of at most 53 bits times a factor of at most one, truncated, never grows.\<close>

lemma scale_down:
  assumes w: "unat w \<le> 2 ^ 53" and f: "0 \<le> f" "f \<le> 1"
  shows "uint64_of oob (fmul (float_of w) f) \<le> w"
proof -
  have fw: "float_of w = of_nat (unat w)"
    unfolding float_of_def by (rule fl_of_nat [OF w])
  have "of_nat (unat w) * f \<le> (of_nat (unat w) :: rat)"
    by (rule mult_left_le [OF f(2) of_nat_0_le_iff])
  then have le: "fmul (float_of w) f \<le> of_nat (unat w)"
    unfolding fw fmul_def using fl_mono fl_of_nat [OF w] by metis
  have "(of_nat (unat w) :: rat) \<le> of_nat (2 ^ 53)"
    using w by (simp only: of_nat_le_iff)
  with le have "fmul (float_of w) f < 18446744073709551616" by simp
  then have "(of_nat (unat (uint64_of oob (fmul (float_of w) f))) :: rat) \<le> fmul (float_of w) f"
    unfolding fmul_def fw
    by (intro unat_uint64_of fl_nonneg mult_nonneg_nonneg of_nat_0_le_iff f) assumption
  with le have "(of_nat (unat (uint64_of oob (fmul (float_of w) f))) :: rat) \<le> of_nat (unat w)"
    by linarith
  then show ?thesis by (simp only: word_le_nat_alt of_nat_le_iff)
qed

end
