(* ===== verification/Estimator.thy ===== *)
theory Estimator
  imports Capacity Float64 "HOL-Library.AList" "HOL-Library.Multiset"
begin

text \<open>
  The measured-rate estimator of \<open>core/capacity/estimator.go\<close> and the two-stream node rating
  and rating store of \<open>rating.go\<close>. Go maps are association lists with distinct keys, in some
  order: the code iterates over them, and the results are shown not to depend on the order.

  The floating-point unit is the record \<open>fpu\<close>: what an out-of-range double converts to, and
  \<open>math.Pow(0.5, elapsed / halfLife)\<close>, of which only \<open>0 \<le> f \<le> 1\<close> is relied on.
\<close>

section \<open>Parameters and samples\<close>

record fpu =
  fp_oob :: "rat \<Rightarrow> uint64"
  fp_pow_half :: "duration \<Rightarrow> duration \<Rightarrow> rat"

record sample =
  sm_Throughput :: rate
  sm_Saturated :: bool
  sm_Attester :: string
  sm_AS :: string

record params =
  p_Window :: duration
  p_Quantile :: rat
  p_RiseFactor :: rat
  p_RiseThreshold :: rat
  p_FallThreshold :: rat
  p_MinASes :: int
  p_Ceiling :: rate
  p_CeilingASes :: int
  p_HardCeiling :: bool
  p_Floor :: rate
  p_HalfLife :: duration

definition DefaultParams :: params where
  "DefaultParams =
     \<lparr>p_Window = 60 * 1000000000, p_Quantile = 1 / 4, p_RiseFactor = 5 / 4,
      p_RiseThreshold = fl (9 / 10), p_FallThreshold = fl (7 / 10), p_MinASes = 2,
      p_Ceiling = 5 * Mbit, p_CeilingASes = 3, p_HardCeiling = False, p_Floor = 256 * Kbit,
      p_HalfLife = 24 * 3600 * 1000000000\<rparr>"

datatype params_error =
  BadWindow | BadQuantile | BadRiseFactor | ThresholdsOverlap | ZeroFloor | CeilingBelowFloor
| HardCeilingZero | BadMinASes | BadHalfLife

definition params_Validate :: "params \<Rightarrow> params_error option" where
  "params_Validate p =
     (if p_Window p \<le> 0 then Some BadWindow
      else if p_Quantile p < 0 \<or> p_Quantile p > 1 then Some BadQuantile
      else if p_RiseFactor p \<le> 1 then Some BadRiseFactor
      else if p_RiseThreshold p \<le> p_FallThreshold p then Some ThresholdsOverlap
      else if p_Floor p = 0 then Some ZeroFloor
      else if p_Ceiling p \<noteq> 0 \<and> p_Ceiling p < p_Floor p then Some CeilingBelowFloor
      else if p_HardCeiling p \<and> p_Ceiling p = 0 then Some HardCeilingZero
      else if p_MinASes p < 1 then Some BadMinASes
      else if p_HalfLife p \<le> 0 then Some BadHalfLife
      else None)"

section \<open>The estimator\<close>

record estimator =
  e_p :: params
  e_est :: rate
  e_pending :: "(string \<times> rate list) list"
  e_asOf :: "(string \<times> string) list"
  e_baseEst :: rate
  e_lastInform :: time
  e_lastObs :: rate
  e_lastASes :: nat
  e_informed :: bool

text \<open>Reading an absent key of a Go map of strings or slices gives the empty value.\<close>

definition lookup :: "('k \<times> 'v list) list \<Rightarrow> 'k \<Rightarrow> 'v list" where
  "lookup m k = (case map_of m k of None \<Rightarrow> [] | Some v \<Rightarrow> v)"

definition NewEstimator :: "params \<Rightarrow> time \<Rightarrow> params_error + estimator" where
  "NewEstimator p now =
     (case params_Validate p of
        Some err \<Rightarrow> Inl err
      | None \<Rightarrow>
          Inr \<lparr>e_p = p, e_est = p_Floor p, e_pending = [], e_asOf = [], e_baseEst = p_Floor p,
               e_lastInform = now, e_lastObs = 0, e_lastASes = 0, e_informed = False\<rparr>)"

definition Seed :: "rate \<Rightarrow> time \<Rightarrow> estimator \<Rightarrow> estimator" where
  "Seed r now e =
     (let r = (if r < p_Floor (e_p e) then p_Floor (e_p e) else r);
          r = (if p_Ceiling (e_p e) \<noteq> 0 \<and> r > p_Ceiling (e_p e) then p_Ceiling (e_p e) else r)
      in e\<lparr>e_est := r, e_baseEst := r, e_lastInform := now\<rparr>)"

definition Observe :: "sample \<Rightarrow> estimator \<Rightarrow> estimator" where
  "Observe s e =
     (if \<not> sm_Saturated s \<or> sm_Attester s = [] \<or> sm_AS s = [] then e
      else e\<lparr>e_pending := AList.update (sm_Attester s)
               (lookup (e_pending e) (sm_Attester s) @ [sm_Throughput s]) (e_pending e),
             e_asOf := AList.update (sm_Attester s) (sm_AS s) (e_asOf e)\<rparr>)"

definition median :: "rate list \<Rightarrow> rate" where
  "median xs = (if xs = [] then 0 else sort xs ! ((length xs - 1) div 2))"

definition quantile_index :: "nat \<Rightarrow> rat \<Rightarrow> nat" where
  "quantile_index n q =
     (let i = int_of_float (fmul q (fl (of_nat (n - 1))))
      in if i < 0 then 0 else if i \<ge> int n then n - 1 else nat i)"

definition quantile :: "rate list \<Rightarrow> rat \<Rightarrow> rate" where
  "quantile xs q = (if xs = [] then 0 else sort xs ! quantile_index (length xs) q)"

fun minRate :: "rate list \<Rightarrow> rate" where
  "minRate [] = 0"
| "minRate (x # xs) = fold (\<lambda>x m. if x < m then x else m) xs x"

fun group_by_as ::
    "(string \<times> string) list \<Rightarrow> (string \<times> rate list) list \<Rightarrow> (string \<times> rate list) list
      \<Rightarrow> (string \<times> rate list) list" where
  "group_by_as asOf [] byAS = byAS"
| "group_by_as asOf ((attester, rates) # rest) byAS =
     (let as = lookup asOf attester
      in if as = [] \<or> rates = [] then group_by_as asOf rest byAS
         else group_by_as asOf rest (AList.update as (lookup byAS as @ [median rates]) byAS))"

definition collapse :: "estimator \<Rightarrow> rate list \<times> nat" where
  "collapse e =
     (let byAS = group_by_as (e_asOf e) (e_pending e) []
      in (map (minRate \<circ> snd) byAS, length byAS))"

text \<open>\<open>Rate(float64(r) * factor)\<close>.\<close>

definition scaled :: "fpu \<Rightarrow> rate \<Rightarrow> rat \<Rightarrow> rate" where
  "scaled fp r factor = uint64_of (fp_oob fp) (fmul (float_of r) factor)"

definition decay :: "fpu \<Rightarrow> time \<Rightarrow> estimator \<Rightarrow> estimator" where
  "decay fp now e =
     (let elapsed = time_sub now (e_lastInform e)
      in if elapsed \<le> 0 then e
         else
           (let f = fp_pow_half fp elapsed (p_HalfLife (e_p e));
                next_est = scaled fp (e_baseEst e) f
            in if next_est < p_Floor (e_p e)
               then e\<lparr>e_informed := False, e_est := p_Floor (e_p e)\<rparr>
               else e\<lparr>e_est := next_est\<rparr>))"

definition move :: "fpu \<Rightarrow> params \<Rightarrow> rate \<Rightarrow> rate \<Rightarrow> rate \<Rightarrow> rate" where
  "move fp p ceil observed est =
     (let est =
        (if observed \<ge> scaled fp est (p_RiseThreshold p)
         then (let next_est = scaled fp est (p_RiseFactor p);
                   next_est = (if next_est > ceil then ceil else next_est)
               in if next_est > est then next_est else est)
         else if observed < scaled fp est (p_FallThreshold p) then observed
         else est);
          est = (if est < p_Floor p then p_Floor p else est)
      in if est > ceil then ceil else est)"

definition ceiling_now :: "params \<Rightarrow> nat \<Rightarrow> rate" where
  "ceiling_now p ases =
     (if p_Ceiling p \<noteq> 0 \<and> (p_HardCeiling p \<or> int ases < p_CeilingASes p) then p_Ceiling p
      else - 1)"

definition Advance :: "fpu \<Rightarrow> time \<Rightarrow> estimator \<Rightarrow> estimator" where
  "Advance fp now e =
     (let (votes, ases) = collapse e;
          e = e\<lparr>e_pending := [], e_asOf := [], e_lastASes := length votes\<rparr>;
          e = decay fp now e
      in if int (length votes) < p_MinASes (e_p e) then e
         else
           (let observed = quantile votes (p_Quantile (e_p e));
                est = move fp (e_p e) (ceiling_now (e_p e) ases) observed (e_est e)
            in e\<lparr>e_lastObs := observed, e_est := est, e_lastInform := now, e_baseEst := est,
                 e_informed := True\<rparr>))"

definition Estimate :: "estimator \<Rightarrow> rate" where
  "Estimate e = e_est e"

definition Informed :: "estimator \<Rightarrow> bool" where
  "Informed e = e_informed e"

section \<open>Votes\<close>

text \<open>The ASes that attest in the open window, and the vote of one of them.\<close>

definition attests :: "estimator \<Rightarrow> string \<Rightarrow> rate \<Rightarrow> bool" where
  "attests e as m \<longleftrightarrow>
     as \<noteq> [] \<and> (\<exists>a r. (a, r) \<in> set (e_pending e) \<and> r \<noteq> [] \<and> lookup (e_asOf e) a = as \<and> m = median r)"

definition attesting :: "estimator \<Rightarrow> string set" where
  "attesting e = {as. \<exists>m. attests e as m}"

definition as_vote :: "estimator \<Rightarrow> string \<Rightarrow> rate" where
  "as_vote e as = Min {m. attests e as m}"

lemma fold_min_eq: "fold (\<lambda>x m. if x < m then x else m) xs x = Min (insert x (set xs))" for x :: rate
proof (induction xs arbitrary: x)
  case (Cons y ys)
  have "(if y < x then y else x) = min y x" by (auto simp: min_def)
  with Cons.IH [of "min y x"] show ?case
    by (cases "ys = []") (auto simp: min_def Min_insert2 insert_commute)
qed simp

lemma minRate_Min: "xs \<noteq> [] \<Longrightarrow> minRate xs = Min (set xs)"
  by (cases xs) (simp_all add: fold_min_eq)

lemma lookup_update:
  "lookup (AList.update k v m) k' = (if k' = k then v else lookup m k')"
  by (simp add: lookup_def update_conv)

definition contributions ::
    "(string \<times> string) list \<Rightarrow> (string \<times> rate list) list \<Rightarrow> string \<Rightarrow> rate list" where
  "contributions asOf xs as =
     map (median \<circ> snd) (filter (\<lambda>(a, r). r \<noteq> [] \<and> lookup asOf a = as) xs)"

lemma group_lookup:
  "as \<noteq> [] \<Longrightarrow> lookup (group_by_as asOf xs acc) as = lookup acc as @ contributions asOf xs as"
  by (induction asOf xs acc rule: group_by_as.induct)
     (auto simp: contributions_def Let_def lookup_update)

lemma group_distinct:
  "distinct (map fst acc) \<Longrightarrow> distinct (map fst (group_by_as asOf xs acc))"
  by (induction asOf xs acc rule: group_by_as.induct) (auto simp: Let_def distinct_update)

lemma group_keys:
  "set (map fst (group_by_as asOf xs acc)) =
    set (map fst acc) \<union> {lookup asOf a |a r. (a, r) \<in> set xs \<and> r \<noteq> [] \<and> lookup asOf a \<noteq> []}"
  by (induction asOf xs acc rule: group_by_as.induct) (auto simp: Let_def dom_update)

lemma attests_contributions:
  "as \<noteq> [] \<Longrightarrow> {m. attests e as m} = set (contributions (e_asOf e) (e_pending e) as)"
  by (force simp: attests_def contributions_def)

lemma finite_attests [simp]: "finite {m. attests e as m}"
proof (cases "as = []")
  case True
  then show ?thesis by (simp add: attests_def)
next
  case False
  then show ?thesis by (simp add: attests_contributions)
qed

lemma attesting_keys:
  "set (map fst (group_by_as (e_asOf e) (e_pending e) [])) = attesting e"
  unfolding group_keys by (auto simp: attesting_def attests_def)

lemma finite_attesting [simp]: "finite (attesting e)"
  by (simp flip: attesting_keys)

lemma attesting_nonempty: "as \<in> attesting e \<Longrightarrow> as \<noteq> [] \<and> {m. attests e as m} \<noteq> {}"
  by (auto simp: attesting_def attests_def)

lemma as_vote_le_iff: "as \<in> attesting e \<Longrightarrow> as_vote e as \<le> v \<longleftrightarrow> (\<exists>m\<le>v. attests e as m)"
  using attesting_nonempty [of as e] by (auto simp: as_vote_def Min_le_iff)

lemma collapse_votes: "mset (fst (collapse e)) = image_mset (as_vote e) (mset_set (attesting e))"
proof -
  let ?g = "group_by_as (e_asOf e) (e_pending e) []"
  have dist: "distinct (map fst ?g)" by (rule group_distinct) simp
  have vote: "minRate v = as_vote e k" if "(k, v) \<in> set ?g" for k v
  proof -
    have k: "k \<in> attesting e" using that attesting_keys [of e] by force
    have "v = lookup ?g k" using that dist by (simp add: lookup_def)
    also have "\<dots> = contributions (e_asOf e) (e_pending e) k"
      using attesting_nonempty [OF k] by (simp add: group_lookup) (simp add: lookup_def)
    finally have "set v = {m. attests e k m}"
      using attesting_nonempty [OF k] attests_contributions by simp
    with attesting_nonempty [OF k] show ?thesis
      by (metis as_vote_def minRate_Min set_empty)
  qed
  have "fst (collapse e) = map (as_vote e) (map fst ?g)"
    by (auto simp: collapse_def Let_def intro!: map_cong vote)
  then have "mset (fst (collapse e)) = image_mset (as_vote e) (mset (map fst ?g))"
    by (simp only: mset_map)
  also have "mset (map fst ?g) = mset_set (attesting e)"
    using dist attesting_keys [of e] by (metis mset_set_set)
  finally show ?thesis .
qed

lemma collapse_length:
  "length (fst (collapse e)) = card (attesting e)" "snd (collapse e) = card (attesting e)"
proof -
  show "length (fst (collapse e)) = card (attesting e)"
    using arg_cong [OF collapse_votes, of size] by simp
  then show "snd (collapse e) = card (attesting e)"
    by (simp add: collapse_def Let_def)
qed

lemma sorted_nth_le:
  "sorted ys \<Longrightarrow> i < length (filter (\<lambda>x. x \<le> v) ys) \<Longrightarrow> ys ! i \<le> (v :: rate)"
proof (induction ys arbitrary: i)
  case (Cons y ys)
  show ?case
  proof (cases i)
    case 0
    with Cons.prems show ?thesis
      by (cases "y \<le> v") (auto simp: filter_empty_conv split: if_splits dest!: filter_eq_ConsD)
  next
    case (Suc j)
    with Cons show ?thesis by (auto split: if_splits)
  qed
qed simp

lemma quantile_mset: "mset xs = mset ys \<Longrightarrow> quantile xs q = quantile ys q"
proof -
  assume eq: "mset xs = mset ys"
  then have "sort xs = sort ys"
    by (intro properties_for_sort) simp_all
  moreover have "length xs = length ys" using eq by (rule mset_eq_length)
  ultimately show ?thesis by (cases "xs = []") (auto simp: quantile_def)
qed

lemma quantile_le:
  assumes "quantile_index (length xs) q < length (filter (\<lambda>x. x \<le> v) xs)"
  shows "quantile xs q \<le> v"
proof -
  have "length (filter (\<lambda>x. x \<le> v) (sort xs)) = length (filter (\<lambda>x. x \<le> v) xs)"
    by (metis mset_filter mset_sort size_mset)
  with assms have "sort xs ! quantile_index (length xs) q \<le> v"
    by (intro sorted_nth_le) simp_all
  with assms show ?thesis by (auto simp: quantile_def)
qed

text \<open>The votes no higher than \<open>v\<close> are those of the ASes with one attester at or below \<open>v\<close>.\<close>

lemma low_votes:
  "length (filter (\<lambda>x. x \<le> v) (fst (collapse e))) = card {as. \<exists>m\<le>v. attests e as m}"
proof -
  have "length (filter (\<lambda>x. x \<le> v) (fst (collapse e))) =
      size (filter_mset (\<lambda>x. x \<le> v) (mset (fst (collapse e))))"
    by (metis mset_filter size_mset)
  also have "\<dots> = card {as \<in> attesting e. as_vote e as \<le> v}"
    by (simp add: collapse_votes filter_mset_image_mset)
  also have "{as \<in> attesting e. as_vote e as \<le> v} = {as. \<exists>m\<le>v. attests e as m}"
    using as_vote_le_iff [of _ e v] unfolding attesting_def by blast
  finally show ?thesis .
qed

section \<open>Honest attesters only have to exist\<close>

text \<open>the observation a window yields is at most \<open>v\<close> as soon as more ASes than the
  quantile index contain one attester whose median sample is at most \<open>v\<close>, however many other
  attesters, samples and ASes report more: within an AS the lowest attester decides, and an
  attester's number of samples does not count.\<close>

lemma low_minority_bounds_observation:
  assumes "quantile_index (card (attesting e)) q < card {as. \<exists>m\<le>v. attests e as m}"
  shows "quantile (fst (collapse e)) q \<le> v"
  by (rule quantile_le) (use assms in \<open>simp add: collapse_length low_votes\<close>)

definition demo_fpu :: fpu where
  "demo_fpu = \<lparr>fp_oob = (\<lambda>_. 0), fp_pow_half = (\<lambda>_ _. 1 / 2)\<rparr>"

section \<open>The order of the map does not matter\<close>

text \<open>closing a window does not depend on the order in which Go iterates over the
  pending samples.\<close>

lemma advance_ignores_map_order:
  assumes "set pending' = set (e_pending e)"
  shows "Advance fp now (e\<lparr>e_pending := pending'\<rparr>) = Advance fp now e"
proof -
  let ?e = "e\<lparr>e_pending := pending'\<rparr>"
  have at: "attests ?e = attests e"
    using assms by (simp add: attests_def fun_eq_iff)
  have "mset (fst (collapse ?e)) = mset (fst (collapse e))"
    unfolding collapse_votes by (simp add: at attesting_def as_vote_def [abs_def])
  then have q: "quantile (fst (collapse ?e)) = quantile (fst (collapse e))"
    by (intro ext quantile_mset)
  have len: "length (fst (collapse ?e)) = length (fst (collapse e))" "snd (collapse ?e) = snd (collapse e)"
    by (simp_all add: collapse_length attesting_def at)
  show ?thesis
    unfolding Advance_def Let_def case_prod_unfold q len by simp
qed

section \<open>The bounds of the estimate\<close>

text \<open>What is relied on of the floating-point library.\<close>

definition fpu_ok :: "fpu \<Rightarrow> bool" where
  "fpu_ok fp \<longleftrightarrow> (\<forall>elapsed half. 0 < elapsed \<longrightarrow> 0 < half \<longrightarrow>
     0 \<le> fp_pow_half fp elapsed half \<and> fp_pow_half fp elapsed half \<le> 1)"

definition params_ok :: "params \<Rightarrow> bool" where
  "params_ok p \<longleftrightarrow> params_Validate p = None \<and> unat (p_Ceiling p) \<le> 2 ^ 53"

definition est_ok :: "estimator \<Rightarrow> bool" where
  "est_ok e \<longleftrightarrow> params_ok (e_p e)
     \<and> p_Floor (e_p e) \<le> e_est e \<and> p_Floor (e_p e) \<le> e_baseEst e
     \<and> (p_HardCeiling (e_p e) \<longrightarrow> e_est e \<le> p_Ceiling (e_p e) \<and> e_baseEst e \<le> p_Ceiling (e_p e))"

lemma params_Validate_None:
  "params_Validate p = None \<longleftrightarrow>
    0 < p_Window p \<and> 0 \<le> p_Quantile p \<and> p_Quantile p \<le> 1 \<and> 1 < p_RiseFactor p
    \<and> p_FallThreshold p < p_RiseThreshold p \<and> p_Floor p \<noteq> 0
    \<and> (p_Ceiling p \<noteq> 0 \<longrightarrow> p_Floor p \<le> p_Ceiling p)
    \<and> (p_HardCeiling p \<longrightarrow> p_Ceiling p \<noteq> 0) \<and> 1 \<le> p_MinASes p \<and> 0 < p_HalfLife p"
  by (auto simp: params_Validate_def)

lemma hard_ceiling_params:
  "params_ok p \<Longrightarrow> p_HardCeiling p \<Longrightarrow> p_Floor p \<le> p_Ceiling p \<and> unat (p_Ceiling p) \<le> 2 ^ 53"
  by (auto simp: params_ok_def params_Validate_None)

lemma floor_le_ceiling_now: "params_ok p \<Longrightarrow> p_Floor p \<le> ceiling_now p n"
  by (auto simp: params_ok_def params_Validate_None ceiling_now_def word_order.extremum)

lemma move_bounds:
  assumes "p_Floor p \<le> ceil"
  shows "p_Floor p \<le> move fp p ceil observed est" "move fp p ceil observed est \<le> ceil"
  using assms by (auto simp: move_def Let_def)

lemma decay_params [simp]: "e_p (decay fp now e) = e_p e"
  by (simp add: decay_def Let_def)

lemma decay_base [simp]:
  "e_baseEst (decay fp now e) = e_baseEst e" "e_lastInform (decay fp now e) = e_lastInform e"
  by (simp_all add: decay_def Let_def)

lemma scaled_down:
  "unat r \<le> 2 ^ 53 \<Longrightarrow> 0 \<le> f \<Longrightarrow> f \<le> 1 \<Longrightarrow> scaled fp r f \<le> r"
  unfolding scaled_def by (rule scale_down)

lemma est_ok_decay:
  assumes "est_ok e" and "fpu_ok fp"
  shows "est_ok (decay fp now e)"
proof -
  have "scaled fp (e_baseEst e) (fp_pow_half fp d (p_HalfLife (e_p e))) \<le> e_baseEst e"
    if "p_HardCeiling (e_p e)" "0 < d" for d
  proof (rule scaled_down)
    have "unat (e_baseEst e) \<le> unat (p_Ceiling (e_p e))"
      using assms(1) that by (simp add: est_ok_def word_le_nat_alt)
    then show "unat (e_baseEst e) \<le> 2 ^ 53"
      using assms(1) by (simp add: est_ok_def params_ok_def)
  qed (use assms that in \<open>auto simp: fpu_ok_def est_ok_def params_ok_def params_Validate_None\<close>)
  then show ?thesis
    using assms(1) hard_ceiling_params [of "e_p e"]
    by (fastforce simp: est_ok_def decay_def Let_def not_less)
qed

lemma est_ok_Advance:
  assumes "est_ok e" and "fpu_ok fp"
  shows "est_ok (Advance fp now e)"
proof -
  let ?e = "decay fp now (e\<lparr>e_pending := [], e_asOf := [], e_lastASes := length (fst (collapse e))\<rparr>)"
  have d: "est_ok ?e"
    using assms by (intro est_ok_decay) (simp_all add: est_ok_def)
  have "p_Floor (e_p e) \<le> ceiling_now (e_p e) n" for n
    using assms(1) by (intro floor_le_ceiling_now) (simp add: est_ok_def)
  note mv = move_bounds [OF this]
  have hard: "ceiling_now (e_p e) n = p_Ceiling (e_p e)" if "p_HardCeiling (e_p e)" for n
    using assms(1) that by (auto simp: ceiling_now_def est_ok_def params_ok_def params_Validate_None)
  show ?thesis
    using d mv hard assms(1)
    by (fastforce simp: Advance_def Let_def case_prod_unfold est_ok_def)
qed

lemma est_ok_Observe: "est_ok e \<Longrightarrow> est_ok (Observe s e)"
  by (simp add: Observe_def est_ok_def)

lemma est_ok_Seed: "est_ok e \<Longrightarrow> est_ok (Seed r now e)"
  by (auto simp: Seed_def Let_def est_ok_def params_ok_def params_Validate_None)

lemma est_ok_New: "NewEstimator p now = Inr e \<Longrightarrow> unat (p_Ceiling p) \<le> 2 ^ 53 \<Longrightarrow> est_ok e"
  by (auto simp: NewEstimator_def est_ok_def params_ok_def params_Validate_None split: option.splits)

datatype est_event = ESeed rate time | EObserve sample | EAdvance time

fun est_step :: "fpu \<Rightarrow> est_event \<Rightarrow> estimator \<Rightarrow> estimator" where
  "est_step fp (ESeed r now) e = Seed r now e"
| "est_step fp (EObserve s) e = Observe s e"
| "est_step fp (EAdvance now) e = Advance fp now e"

lemma est_ok_step: "est_ok e \<Longrightarrow> fpu_ok fp \<Longrightarrow> est_ok (est_step fp ev e)"
  by (cases ev) (simp_all add: est_ok_Seed est_ok_Observe est_ok_Advance)

lemma est_ok_run: "est_ok e \<Longrightarrow> fpu_ok fp \<Longrightarrow> est_ok (fold (est_step fp) evs e)"
  by (induction evs arbitrary: e) (simp_all add: est_ok_step)

lemma est_step_params [simp]: "e_p (est_step fp ev e) = e_p e"
  by (cases ev) (simp_all add: Seed_def Observe_def Advance_def Let_def case_prod_unfold)

lemma est_run_params [simp]: "e_p (fold (est_step fp) evs e) = e_p e"
  by (induction evs arbitrary: e) simp_all

text \<open>C33: whatever samples, seeds and window closings an estimator with a hard ceiling
  sees, in any order and at any times, its estimate stays between the floor and the
  ceiling.\<close>

theorem hard_ceiling_holds:
  assumes "NewEstimator p now = Inr e" and "p_HardCeiling p" and "unat (p_Ceiling p) \<le> 2 ^ 53"
    and "fpu_ok fp"
  shows "p_Floor p \<le> Estimate (fold (est_step fp) evs e)
    \<and> Estimate (fold (est_step fp) evs e) \<le> p_Ceiling p"
proof -
  have p: "e_p e = p"
    using assms(1) by (auto simp: NewEstimator_def split: option.splits)
  have "est_ok (fold (est_step fp) evs e)"
    using assms by (intro est_ok_run est_ok_New)
  with p assms(2) show ?thesis by (simp add: est_ok_def Estimate_def)
qed

definition demo_params :: params where
  "demo_params =
     \<lparr>p_Window = 60, p_Quantile = 1 / 4, p_RiseFactor = 5 / 4, p_RiseThreshold = 3 / 4,
      p_FallThreshold = 1 / 2, p_MinASes = 2, p_Ceiling = 5000, p_CeilingASes = 3,
      p_HardCeiling = True, p_Floor = 256, p_HalfLife = 3600\<rparr>"

definition demo_estimator :: estimator where
  "demo_estimator =
     \<lparr>e_p = demo_params, e_est = 256, e_pending = [], e_asOf = [], e_baseEst = 256,
      e_lastInform = 0, e_lastObs = 0, e_lastASes = 0, e_informed = False\<rparr>"

lemma demo_estimator_new: "NewEstimator demo_params 0 = Inr demo_estimator"
  by (simp add: NewEstimator_def params_Validate_def demo_params_def demo_estimator_def)

lemma demo_fpu_ok: "fpu_ok demo_fpu"
  by (simp add: fpu_ok_def demo_fpu_def)

theorem hard_ceiling_holds_witness:
  "p_Floor demo_params \<le> Estimate (fold (est_step demo_fpu) [ESeed 900000 1, EAdvance 2] demo_estimator)
    \<and> Estimate (fold (est_step demo_fpu) [ESeed 900000 1, EAdvance 2] demo_estimator) \<le> p_Ceiling demo_params"
  by (rule hard_ceiling_holds [OF demo_estimator_new]) (simp_all add: demo_fpu_ok, simp_all add: demo_params_def)

section \<open>Slow to trust, fast to distrust\<close>

lemma Advance_est:
  "e_est (Advance fp now e) =
    (if int (card (attesting e)) < p_MinASes (e_p e) then e_est (decay fp now e)
     else move fp (e_p e) (ceiling_now (e_p e) (card (attesting e)))
       (quantile (fst (collapse e)) (p_Quantile (e_p e))) (e_est (decay fp now e)))"
proof -
  have "e_est (decay fp now (e\<lparr>e_pending := a, e_asOf := b, e_lastASes := c\<rparr>)) = e_est (decay fp now e)"
    for a b c by (simp add: decay_def Let_def)
  then show ?thesis
    by (simp add: Advance_def Let_def case_prod_unfold collapse_length)
qed

lemma move_rise_capped:
  assumes "unat est \<le> 2 ^ 53" and "0 \<le> p_FallThreshold p" and "p_FallThreshold p \<le> 1"
  shows "move fp p ceil observed est \<le> max (max (p_Floor p) est) (scaled fp est (p_RiseFactor p))"
  using scaled_down [OF assms, of fp] by (auto simp: move_def Let_def max_def)

text \<open>no window, whatever samples it holds, lifts the estimate above the rise factor
  times the (decayed) rating the node already has, or the floor.\<close>

lemma rise_is_capped:
  assumes "unat (e_est (decay fp now e)) \<le> 2 ^ 53"
    and "0 \<le> p_FallThreshold (e_p e)" and "p_FallThreshold (e_p e) \<le> 1"
  shows "e_est (Advance fp now e) \<le>
    max (max (p_Floor (e_p e)) (e_est (decay fp now e)))
      (scaled fp (e_est (decay fp now e)) (p_RiseFactor (e_p e)))"
  using move_rise_capped [OF assms] by (simp add: Advance_est le_max_iff_disj)

text \<open>a window in which more ASes than the quantile index contain an attester that got
  at most \<open>v\<close>, with \<open>v\<close> below the fall threshold of the current rating, snaps the estimate
  down to at most \<open>v\<close> or the floor.\<close>

lemma throttling_snaps_down:
  assumes low: "quantile_index (card (attesting e)) (p_Quantile (e_p e)) < card {as. \<exists>m\<le>v. attests e as m}"
    and enough: "p_MinASes (e_p e) \<le> int (card (attesting e))"
    and fall: "v < scaled fp (e_est (decay fp now e)) (p_FallThreshold (e_p e))"
    and gap: "scaled fp (e_est (decay fp now e)) (p_FallThreshold (e_p e))
      \<le> scaled fp (e_est (decay fp now e)) (p_RiseThreshold (e_p e))"
  shows "e_est (Advance fp now e) \<le> max (p_Floor (e_p e)) v"
proof -
  have "quantile (fst (collapse e)) (p_Quantile (e_p e)) \<le> v"
    by (rule quantile_le) (use low in \<open>simp add: collapse_length low_votes\<close>)
  with fall gap enough show ?thesis
    by (auto simp: Advance_est move_def Let_def max_def)
qed

lemma demo_scaled:
  "scaled demo_fpu 1000 (1 / 2) = 500" "scaled demo_fpu 1000 (3 / 4) = 750"
proof -
  have "float_of 1000 = 1000" using fl_of_nat [of 1000] by (simp add: float_of_def)
  moreover have "fl 500 = 500" "fl 750 = 750"
    using fl_of_nat [of 500] fl_of_nat [of 750] by simp_all
  ultimately show "scaled demo_fpu 1000 (1 / 2) = 500" "scaled demo_fpu 1000 (3 / 4) = 750"
    by (simp_all add: scaled_def fmul_def uint64_of_def)
qed

text \<open>a rating nobody attests to decays as a function of the time since its last
  evidence alone: closing extra empty windows on the way does not change it.\<close>

lemma decay_ignores_tick_rate:
  assumes "e_pending e = []" and "1 \<le> p_MinASes (e_p e)" and "e_lastInform e < t"
  shows "e_est (Advance fp t (Advance fp t' e)) = e_est (Advance fp t e)"
proof -
  have empty: "attesting x = {}" if "e_pending x = []" for x :: estimator
    using that by (simp add: attesting_def attests_def)
  have fields: "e_pending (Advance fp t' e) = []" "e_p (Advance fp t' e) = e_p e"
    "e_baseEst (Advance fp t' e) = e_baseEst e" "e_lastInform (Advance fp t' e) = e_lastInform e"
    using assms(2) empty [OF assms(1)]
    by (simp_all add: Advance_def Let_def case_prod_unfold collapse_length decay_def)
  have "e_est (decay fp t (Advance fp t' e)) = e_est (decay fp t e)"
    using assms(3) time_sub_pos_iff [of t "e_lastInform e"]
    by (simp add: decay_def Let_def fields del: time_sub_pos_iff)
  then show ?thesis
    using assms(2) empty [OF assms(1)] empty [OF fields(1)] by (simp add: Advance_est fields)
qed

end
