(* ===== verification/Rating.thy ===== *)
theory Rating
  imports Estimator
begin

text \<open>
  The node rating and the rating store of \<open>core/capacity/rating.go\<close>: two estimators per node,
  one fed by vouched attesters and one by anyone, the rule that combines them, and the
  coordinator's map of ratings with its own eviction clock. The interface the coordinator
  relies on is the locale \<open>measured_rates\<close>; the store is its interpretation.
\<close>

section \<open>Two streams per node\<close>

record node_rating =
  r_trusted :: estimator
  r_untrusted :: estimator

datatype rating_error =
  NeedsCeiling | TrustedParams params_error | UntrustedParams params_error | BadParams params_error
| BadIdleTTL

definition NewNodeRating :: "params \<Rightarrow> time \<Rightarrow> rating_error + node_rating" where
  "NewNodeRating p now =
     (if p_Ceiling p = 0 then Inl NeedsCeiling
      else case NewEstimator p now of
             Inl err \<Rightarrow> Inl (TrustedParams err)
           | Inr trusted \<Rightarrow>
               (case NewEstimator (p\<lparr>p_HardCeiling := True\<rparr>) now of
                  Inl err \<Rightarrow> Inl (UntrustedParams err)
                | Inr untrusted \<Rightarrow> Inr \<lparr>r_trusted = trusted, r_untrusted = untrusted\<rparr>))"

definition ObserveTrusted :: "sample \<Rightarrow> node_rating \<Rightarrow> node_rating" where
  "ObserveTrusted s r = r\<lparr>r_trusted := Observe s (r_trusted r)\<rparr>"

definition ObserveUntrusted :: "sample \<Rightarrow> node_rating \<Rightarrow> node_rating" where
  "ObserveUntrusted s r = r\<lparr>r_untrusted := Observe s (r_untrusted r)\<rparr>"

definition rating_Measured :: "node_rating \<Rightarrow> rate" where
  "rating_Measured r =
     (if Informed (r_trusted r) then Estimate (r_trusted r) else Estimate (r_untrusted r))"

definition rating_TrustedRating :: "node_rating \<Rightarrow> rate option" where
  "rating_TrustedRating r =
     (if \<not> Informed (r_trusted r) then None else Some (Estimate (r_trusted r)))"

definition rating_Advance :: "fpu \<Rightarrow> time \<Rightarrow> node_rating \<Rightarrow> rate \<times> node_rating" where
  "rating_Advance fp now r =
     (let r' = \<lparr>r_trusted = Advance fp now (r_trusted r), r_untrusted = Advance fp now (r_untrusted r)\<rparr>
      in (rating_Measured r', r'))"

section \<open>The store\<close>

record rating_entry =
  re_rating :: node_rating
  re_lastSeen :: time

record rating_store =
  rs_params :: params
  rs_idleTTL :: duration
  rs_entries :: "string \<rightharpoonup> rating_entry"

definition NewRatingStore :: "params \<Rightarrow> duration \<Rightarrow> rating_error + rating_store" where
  "NewRatingStore p idleTTL =
     (case params_Validate p of
        Some err \<Rightarrow> Inl (BadParams err)
      | None \<Rightarrow>
          if p_Ceiling p = 0 then Inl NeedsCeiling
          else if idleTTL \<le> 0 then Inl BadIdleTTL
          else Inr \<lparr>rs_params = p, rs_idleTTL = idleTTL, rs_entries = Map.empty\<rparr>)"

text \<open>A sample whose rating cannot be created is dropped.\<close>

definition store_Observe :: "string \<Rightarrow> bool \<Rightarrow> sample \<Rightarrow> time \<Rightarrow> rating_store \<Rightarrow> rating_store" where
  "store_Observe nodeID trusted s now st =
     (let put = (\<lambda>r. st\<lparr>rs_entries := (rs_entries st)(nodeID \<mapsto>
            \<lparr>re_rating = (if trusted then ObserveTrusted s r else ObserveUntrusted s r),
             re_lastSeen = now\<rparr>)\<rparr>)
      in case rs_entries st nodeID of
           Some e \<Rightarrow> put (re_rating e)
         | None \<Rightarrow> (case NewNodeRating (rs_params st) now of Inl _ \<Rightarrow> st | Inr r \<Rightarrow> put r))"

definition Measured :: "rating_store \<Rightarrow> string \<Rightarrow> rate option" where
  "Measured st nodeID = map_option (rating_Measured \<circ> re_rating) (rs_entries st nodeID)"

definition TrustedRating :: "rating_store \<Rightarrow> string \<Rightarrow> rate option" where
  "TrustedRating st nodeID =
     (case rs_entries st nodeID of None \<Rightarrow> None | Some e \<Rightarrow> rating_TrustedRating (re_rating e))"

definition store_Usable :: "rating_store \<Rightarrow> string \<Rightarrow> rate \<Rightarrow> rate" where
  "store_Usable st nodeID declared =
     (case Measured st nodeID of None \<Rightarrow> declared | Some m \<Rightarrow> Usable declared m)"

definition store_Advance :: "fpu \<Rightarrow> time \<Rightarrow> rating_store \<Rightarrow> rating_store" where
  "store_Advance fp now st =
     st\<lparr>rs_entries := (\<lambda>nd. case rs_entries st nd of
          None \<Rightarrow> None
        | Some e \<Rightarrow>
            if time_sub now (re_lastSeen e) > rs_idleTTL st then None
            else Some (e\<lparr>re_rating := snd (rating_Advance fp now (re_rating e))\<rparr>))\<rparr>"

definition store_Len :: "rating_store \<Rightarrow> nat" where
  "store_Len st = card (dom (rs_entries st))"

section \<open>The interface assignment relies on\<close>

text \<open>
  A source of measured rates: a trusted rating decides outright where it exists, and a
  measured rate that no trusted rating backs is at most the ceiling.
\<close>

locale measured_rates =
  fixes good :: "'s \<Rightarrow> bool"
    and ceil :: "'s \<Rightarrow> rate"
    and measured :: "'s \<Rightarrow> string \<Rightarrow> rate option"
    and trusted :: "'s \<Rightarrow> string \<Rightarrow> rate option"
    and usable :: "'s \<Rightarrow> string \<Rightarrow> rate \<Rightarrow> rate"
  assumes trusted_decides: "good s \<Longrightarrow> trusted s nd = Some r \<Longrightarrow> measured s nd = Some r"
    and untrusted_clamped:
      "good s \<Longrightarrow> measured s nd = Some r \<Longrightarrow> trusted s nd = None \<Longrightarrow> r \<le> ceil s"
    and usable_measured: "measured s nd = Some r \<Longrightarrow> usable s nd declared \<le> r"
    and usable_unmeasured: "measured s nd = None \<Longrightarrow> usable s nd declared = declared"
begin

lemma above_ceiling_is_trusted:
  assumes "good s" and "measured s nd = Some r" and "ceil s < r"
  shows "trusted s nd = Some r"
proof (cases "trusted s nd")
  case None
  with assms untrusted_clamped have "r \<le> ceil s" by blast
  with assms show ?thesis by simp
next
  case (Some t)
  with assms trusted_decides show ?thesis by fastforce
qed

text \<open>A declaration buys a rated node nothing beyond its measured rate.\<close>

lemma declaration_inert:
  "measured s nd = Some r \<Longrightarrow> usable s nd d \<le> r"
  by (rule usable_measured)

end

section \<open>The store keeps both streams within their bounds\<close>

definition rating_ok :: "params \<Rightarrow> node_rating \<Rightarrow> bool" where
  "rating_ok p r \<longleftrightarrow> est_ok (r_trusted r) \<and> est_ok (r_untrusted r)
     \<and> e_p (r_trusted r) = p \<and> e_p (r_untrusted r) = p\<lparr>p_HardCeiling := True\<rparr>"

definition store_ok :: "rating_store \<Rightarrow> bool" where
  "store_ok st \<longleftrightarrow> params_ok (rs_params st) \<and> p_Ceiling (rs_params st) \<noteq> 0
     \<and> (\<forall>nd e. rs_entries st nd = Some e \<longrightarrow> rating_ok (rs_params st) (re_rating e))"

lemma Observe_params [simp]: "e_p (Observe s e) = e_p e"
  by (simp add: Observe_def)

lemma Advance_params [simp]: "e_p (Advance fp now e) = e_p e"
  by (simp add: Advance_def Let_def case_prod_unfold)

lemma rating_ok_Observe:
  "rating_ok p r \<Longrightarrow> rating_ok p (ObserveTrusted s r)"
  "rating_ok p r \<Longrightarrow> rating_ok p (ObserveUntrusted s r)"
  by (simp_all add: rating_ok_def ObserveTrusted_def ObserveUntrusted_def est_ok_Observe)

lemma rating_ok_Advance:
  "rating_ok p r \<Longrightarrow> fpu_ok fp \<Longrightarrow> rating_ok p (snd (rating_Advance fp now r))"
  by (simp add: rating_ok_def rating_Advance_def Let_def est_ok_Advance)

lemma NewEstimator_params: "NewEstimator p now = Inr e \<Longrightarrow> e_p e = p"
  by (auto simp: NewEstimator_def split: option.splits)

lemma rating_ok_New:
  "NewNodeRating p now = Inr r \<Longrightarrow> params_ok p \<Longrightarrow> rating_ok p r"
  by (auto simp: NewNodeRating_def rating_ok_def params_ok_def dest: NewEstimator_params est_ok_New
      split: if_splits sum.splits)

lemma store_ok_New:
  "NewRatingStore p ttl = Inr st \<Longrightarrow> unat (p_Ceiling p) \<le> 2 ^ 53 \<Longrightarrow> store_ok st"
  by (auto simp: NewRatingStore_def store_ok_def params_ok_def split: option.splits if_splits)

lemma store_ok_Observe: "store_ok st \<Longrightarrow> store_ok (store_Observe nd trusted s now st)"
  by (auto simp: store_ok_def store_Observe_def Let_def rating_ok_Observe
      dest: rating_ok_New split: option.splits sum.splits)

lemma store_ok_Advance: "store_ok st \<Longrightarrow> fpu_ok fp \<Longrightarrow> store_ok (store_Advance fp now st)"
  by (auto simp: store_ok_def store_Advance_def rating_ok_Advance split: option.splits if_splits)

lemma rating_ok_untrusted:
  "rating_ok p r \<Longrightarrow> \<not> Informed (r_trusted r) \<Longrightarrow> rating_Measured r \<le> p_Ceiling p"
proof -
  assume ok: "rating_ok p r" and not_informed: "\<not> Informed (r_trusted r)"
  have "est_ok (r_untrusted r)" "e_p (r_untrusted r) = p\<lparr>p_HardCeiling := True\<rparr>"
    using ok by (simp_all add: rating_ok_def)
  then have "e_est (r_untrusted r) \<le> p_Ceiling p"
    by (simp add: est_ok_def)
  with not_informed show ?thesis by (simp add: rating_Measured_def Estimate_def)
qed

interpretation rating_source: measured_rates store_ok "p_Ceiling \<circ> rs_params" Measured TrustedRating store_Usable
proof unfold_locales
  fix st nd r
  show "store_ok st \<Longrightarrow> TrustedRating st nd = Some r \<Longrightarrow> Measured st nd = Some r"
    by (auto simp: TrustedRating_def Measured_def rating_TrustedRating_def rating_Measured_def
        split: option.splits if_splits)
  show "store_ok st \<Longrightarrow> Measured st nd = Some r \<Longrightarrow> TrustedRating st nd = None
      \<Longrightarrow> r \<le> (p_Ceiling \<circ> rs_params) st"
    by (auto simp: TrustedRating_def Measured_def rating_TrustedRating_def store_ok_def
        intro: rating_ok_untrusted split: option.splits if_splits)
  fix declared
  show "Measured st nd = Some r \<Longrightarrow> store_Usable st nd declared \<le> r"
    by (simp add: store_Usable_def Usable_le_measured)
  show "Measured st nd = None \<Longrightarrow> store_Usable st nd declared = declared"
    by (simp add: store_Usable_def)
qed

section \<open>Runs of the store\<close>

datatype store_event = SObserve string bool sample time | SAdvance time

fun store_step :: "fpu \<Rightarrow> store_event \<Rightarrow> rating_store \<Rightarrow> rating_store" where
  "store_step fp (SObserve nd trusted s now) st = store_Observe nd trusted s now st"
| "store_step fp (SAdvance now) st = store_Advance fp now st"

lemma store_ok_run: "store_ok st \<Longrightarrow> fpu_ok fp \<Longrightarrow> store_ok (fold (store_step fp) evs st)"
proof (induction evs arbitrary: st)
  case (Cons ev evs)
  then have "store_ok (store_step fp ev st)"
    by (cases ev) (simp_all add: store_ok_Observe store_ok_Advance)
  with Cons show ?case by simp
qed simp

lemma store_step_params [simp]: "rs_params (store_step fp ev st) = rs_params st"
  by (cases ev) (auto simp: store_Observe_def store_Advance_def Let_def split: option.splits sum.splits)

lemma store_run_params [simp]: "rs_params (fold (store_step fp) evs st) = rs_params st"
  by (induction evs arbitrary: st) simp_all

text \<open>A trusted stream nobody has reported to: nothing pending and never informed.\<close>

definition quiet :: "estimator \<Rightarrow> bool" where
  "quiet e \<longleftrightarrow> e_pending e = [] \<and> \<not> e_informed e"

definition unvouched :: "string \<Rightarrow> rating_store \<Rightarrow> bool" where
  "unvouched nd st \<longleftrightarrow> (\<forall>e. rs_entries st nd = Some e \<longrightarrow> quiet (r_trusted (re_rating e)))"

lemma quiet_New: "NewNodeRating p now = Inr r \<Longrightarrow> quiet (r_trusted r)"
  by (auto simp: NewNodeRating_def NewEstimator_def quiet_def split: if_splits option.splits)

lemma quiet_Advance: "quiet e \<Longrightarrow> est_ok e \<Longrightarrow> quiet (Advance fp now e)"
  by (auto simp: quiet_def Advance_def collapse_def decay_def est_ok_def params_ok_def params_Validate_None Let_def)

lemma unvouched_Observe:
  "unvouched nd st \<Longrightarrow> \<not> (nd' = nd \<and> trusted) \<Longrightarrow> unvouched nd (store_Observe nd' trusted s now st)"
  by (auto simp: unvouched_def store_Observe_def Let_def ObserveUntrusted_def dest: quiet_New
      split: option.splits sum.splits if_splits)

lemma unvouched_Advance: "unvouched nd st \<Longrightarrow> store_ok st \<Longrightarrow> unvouched nd (store_Advance fp now st)"
  by (auto simp: unvouched_def store_Advance_def store_ok_def rating_ok_def rating_Advance_def Let_def
      intro!: quiet_Advance split: option.splits if_splits)

lemma unvouched_run:
  assumes "store_ok st" and "fpu_ok fp" and "unvouched nd st" and "\<nexists>s t. SObserve nd True s t \<in> set evs"
  shows "unvouched nd (fold (store_step fp) evs st)"
  using assms
proof (induction evs arbitrary: st)
  case (Cons ev evs)
  then have "store_ok (store_step fp ev st)" "unvouched nd (store_step fp ev st)"
    by (cases ev; auto simp: store_ok_Observe store_ok_Advance unvouched_Observe unvouched_Advance)+
  with Cons show ?case by simp
qed simp

text \<open>after any sequence of reports and window closings, a node whose measured rate
  exceeds the ceiling holds a trusted rating, that rating is the measured rate, and some vouched
  attester reported on that very node: unvouched reports buy at most the ceiling.\<close>

lemma only_trusted_exceeds_ceiling:
  assumes "NewRatingStore p ttl = Inr st" and "unat (p_Ceiling p) \<le> 2 ^ 53" and "fpu_ok fp"
    and "Measured (fold (store_step fp) evs st) nd = Some r" and "p_Ceiling p < r"
  shows "TrustedRating (fold (store_step fp) evs st) nd = Some r
    \<and> (\<exists>s t. SObserve nd True s t \<in> set evs)"
proof -
  have ok: "store_ok st" using assms by (intro store_ok_New)
  have new: "rs_params st = p" "unvouched nd st"
    using assms(1) by (auto simp: NewRatingStore_def unvouched_def split: option.splits if_splits)
  have rated: "TrustedRating (fold (store_step fp) evs st) nd = Some r"
  proof (rule rating_source.above_ceiling_is_trusted)
    show "store_ok (fold (store_step fp) evs st)"
      using ok assms(3) by (rule store_ok_run)
    show "(p_Ceiling \<circ> rs_params) (fold (store_step fp) evs st) < r"
      using assms(5) new by simp
  qed (rule assms(4))
  then have "\<not> unvouched nd (fold (store_step fp) evs st)"
    by (auto simp: TrustedRating_def rating_TrustedRating_def Informed_def unvouched_def quiet_def
        split: option.splits if_splits)
  with unvouched_run [OF ok assms(3) new(2)] rated show ?thesis by blast
qed

definition demo_store_params :: params where
  "demo_store_params =
     \<lparr>p_Window = 60, p_Quantile = 0, p_RiseFactor = 2, p_RiseThreshold = 3 / 4,
      p_FallThreshold = 1 / 2, p_MinASes = 1, p_Ceiling = 300, p_CeilingASes = 1,
      p_HardCeiling = False, p_Floor = 256, p_HalfLife = 3600\<rparr>"

definition demo_store :: rating_store where
  "demo_store = \<lparr>rs_params = demo_store_params, rs_idleTTL = 100, rs_entries = Map.empty\<rparr>"

definition demo_sample :: sample where
  "demo_sample = \<lparr>sm_Throughput = 1000, sm_Saturated = True, sm_Attester = ''a'', sm_AS = ''as1''\<rparr>"

lemma demo_store_scaled:
  "scaled demo_fpu 256 (3 / 4) = 192" "scaled demo_fpu 256 2 = 512"
proof -
  have "float_of 256 = 256" using fl_of_nat [of 256] by (simp add: float_of_def)
  moreover have "fl 192 = 192" "fl 512 = 512"
    using fl_of_nat [of 192] fl_of_nat [of 512] by simp_all
  ultimately show "scaled demo_fpu 256 (3 / 4) = 192" "scaled demo_fpu 256 2 = 512"
    by (simp_all add: scaled_def fmul_def uint64_of_def)
qed

lemma demo_store_new: "NewRatingStore demo_store_params 100 = Inr demo_store"
  by (simp add: NewRatingStore_def params_Validate_def demo_store_params_def demo_store_def)

lemma demo_store_measured:
  "Measured (fold (store_step demo_fpu) [SObserve ''n'' True demo_sample 0, SAdvance 0] demo_store) ''n'' = Some 512"
proof -
  have q: "quantile_index (Suc 0) 0 = 0"
    by (simp add: quantile_index_def Let_def int_of_float_def fmul_def fl_def fl_pos_def)
  show ?thesis
    by (simp add: demo_store_def store_Observe_def store_Advance_def Let_def NewNodeRating_def
        NewEstimator_def params_Validate_def demo_store_params_def ObserveTrusted_def Observe_def
        demo_sample_def lookup_def Measured_def rating_Measured_def Informed_def Estimate_def
        rating_Advance_def Advance_def collapse_def median_def decay_def time_sub_def max_int64_def
        min_int64_def quantile_def q move_def ceiling_now_def demo_store_scaled)
qed

end
