(* ===== verification/Delegation.thy ===== *)
theory Delegation
  imports Prelude
begin

text \<open>
  The signed-object framing and the delegation certificate of
  \<open>core/delegation/delegation.go\<close>: \<open>body || sig\<close> with the signature over
  \<open>tag || 0x00 || body\<close>, and the leaf delegation from the offline root to an operational
  key for one role. The signature check of \<open>crypto/ed25519\<close> and the JSON decoder are
  parameters.
\<close>

section \<open>Tags and framing\<close>

definition TagDelegationCert :: string where "TagDelegationCert = ''bacchus/delegation/v1''"

definition TagPolicyDoc :: string where "TagPolicyDoc = ''bacchus/policy/v1''"

definition TagIssuerCert :: string where "TagIssuerCert = ''bacchus/issuer-cert/v1''"

definition TagDeviceCred :: string where "TagDeviceCred = ''bacchus/device-cred/v1''"

definition TagRevocationsDoc :: string where "TagRevocationsDoc = ''bacchus/revocations/v1''"

definition TagUpdateManifest :: string where "TagUpdateManifest = ''bacchus/update-manifest/v1''"

lemmas tag_defs =
  TagDelegationCert_def TagPolicyDoc_def TagIssuerCert_def TagDeviceCred_def TagRevocationsDoc_def
  TagUpdateManifest_def

definition registered_tags :: "string list" where
  "registered_tags =
     [TagDelegationCert, TagPolicyDoc, TagIssuerCert, TagDeviceCred, TagRevocationsDoc,
      TagUpdateManifest]"

definition ClockSkew :: duration where
  "ClockSkew = 2 * 60 * 1000000000"

definition sigLen :: nat where "sigLen = 64"

definition PublicKeySize :: nat where "PublicKeySize = 32"

datatype delegation_error =
  DMalformed | DUnsupportedVersion int | DBadSignature | DNotYetValid | DExpired | DRevoked
| DWrongRole string string | DNoRoot

definition signingMessage :: "string \<Rightarrow> bytes \<Rightarrow> bytes" where
  "signingMessage tag body = bytes_of_string tag @ [0] @ body"

definition OpenSigned ::
    "(bytes \<Rightarrow> bytes \<Rightarrow> bytes \<Rightarrow> bool) \<Rightarrow> bytes \<Rightarrow> string \<Rightarrow> bytes \<Rightarrow> delegation_error + bytes" where
  "OpenSigned verify pub tag signed_bytes =
     (if length pub \<noteq> PublicKeySize then Inl DMalformed
      else if length signed_bytes \<le> sigLen then Inl DMalformed
      else
        (let body = take (length signed_bytes - sigLen) signed_bytes;
             sig = drop (length signed_bytes - sigLen) signed_bytes
         in if \<not> verify pub (signingMessage tag body) sig then Inl DBadSignature else Inr body))"

section \<open>Certificates\<close>

definition RolePolicy :: string where "RolePolicy = ''policy''"

definition RoleUpdate :: string where "RoleUpdate = ''update''"

definition RoleRevocations :: string where "RoleRevocations = ''revocations''"

definition role_Known :: "string \<Rightarrow> bool" where
  "role_Known r \<longleftrightarrow> r = RolePolicy \<or> r = RoleUpdate \<or> r = RoleRevocations"

record cert =
  dc_Version :: int
  dc_Serial :: string
  dc_Role :: string
  dc_Pub :: bytes
  dc_NotBefore :: time
  dc_NotAfter :: time
  dc_Note :: string

definition delegation_Version :: int where "delegation_Version = 1"

definition ParseCert ::
    "(bytes \<Rightarrow> bytes \<Rightarrow> bytes \<Rightarrow> bool) \<Rightarrow> (bytes \<Rightarrow> cert option) \<Rightarrow> bytes \<Rightarrow> bytes
      \<Rightarrow> delegation_error + cert" where
  "ParseCert verify unmarshal rootPub signed_bytes =
     (case OpenSigned verify rootPub TagDelegationCert signed_bytes of
        Inl err \<Rightarrow> Inl err
      | Inr body \<Rightarrow>
          (case unmarshal body of
             None \<Rightarrow> Inl DMalformed
           | Some c \<Rightarrow>
               if dc_Version c \<noteq> delegation_Version then Inl (DUnsupportedVersion (dc_Version c))
               else if length (dc_Pub c) \<noteq> PublicKeySize then Inl DMalformed
               else Inr c))"

definition VerifyDelegationCert ::
    "(bytes \<Rightarrow> bytes \<Rightarrow> bytes \<Rightarrow> bool) \<Rightarrow> (bytes \<Rightarrow> cert option) \<Rightarrow> bytes \<Rightarrow> bytes \<Rightarrow> string \<Rightarrow> time
      \<Rightarrow> (string \<Rightarrow> bool) option \<Rightarrow> delegation_error + cert" where
  "VerifyDelegationCert verify unmarshal rootPub signed_bytes expect now revoked =
     (if length rootPub \<noteq> PublicKeySize then Inl DNoRoot
      else case ParseCert verify unmarshal rootPub signed_bytes of
        Inl err \<Rightarrow> Inl err
      | Inr c \<Rightarrow>
          if dc_Role c \<noteq> expect then Inl (DWrongRole (dc_Role c) expect)
          else if (case revoked of None \<Rightarrow> False | Some f \<Rightarrow> f (dc_Serial c)) then Inl DRevoked
          else if now < dc_NotBefore c - ClockSkew then Inl DNotYetValid
          else if \<not> now < dc_NotAfter c then Inl DExpired
          else Inr c)"

section \<open>What an accepted object shows\<close>

text \<open>The bytes \<open>signed_bytes\<close> are a body and a signature by \<open>pub\<close> over it under \<open>tag\<close>.\<close>

definition signed_by ::
    "(bytes \<Rightarrow> bytes \<Rightarrow> bytes \<Rightarrow> bool) \<Rightarrow> bytes \<Rightarrow> string \<Rightarrow> bytes \<Rightarrow> bytes \<Rightarrow> bool" where
  "signed_by verify pub tag signed_bytes body \<longleftrightarrow>
     length pub = PublicKeySize \<and>
     (\<exists>sig. signed_bytes = body @ sig \<and> length sig = sigLen \<and> body \<noteq> []
       \<and> verify pub (signingMessage tag body) sig)"

lemma OpenSigned_Inr:
  "OpenSigned verify pub tag s = Inr body \<longleftrightarrow> signed_by verify pub tag s body"
proof
  assume open_ok: "OpenSigned verify pub tag s = Inr body"
  then have "sigLen < length s" "body = take (length s - sigLen) s"
    "verify pub (signingMessage tag body) (drop (length s - sigLen) s)"
    "length pub = PublicKeySize"
    by (auto simp: OpenSigned_def Let_def split: if_splits)
  then show "signed_by verify pub tag s body"
    unfolding signed_by_def
    by (intro conjI exI [of _ "drop (length s - sigLen) s"]) auto
next
  assume "signed_by verify pub tag s body"
  then show "OpenSigned verify pub tag s = Inr body"
    by (auto simp: signed_by_def OpenSigned_def Let_def)
qed

lemma byte_zero_notin_tag: "CHR 0x00 \<notin> set tag \<Longrightarrow> 0 \<notin> set (bytes_of_string tag)"
proof
  assume tag: "CHR 0x00 \<notin> set tag" and "0 \<in> set (bytes_of_string tag)"
  then have "char_of_byte 0 \<in> char_of_byte ` set (bytes_of_string tag)" by blast
  also have "char_of_byte ` set (bytes_of_string tag) = set (string_of_bytes (bytes_of_string tag))"
    unfolding string_of_bytes_def by simp
  finally have "char_of_byte 0 \<in> set tag" by simp
  moreover have "char_of_byte 0 = CHR 0x00"
    by (simp add: char_of_byte_def char_of_def)
  ultimately show False using tag by simp
qed

lemma append_sep_inject:
  "x \<notin> set a \<Longrightarrow> x \<notin> set b \<Longrightarrow> a @ x # u = b @ x # v \<longleftrightarrow> a = b \<and> u = v"
proof (induction a arbitrary: b)
  case Nil
  then show ?case by (cases b) auto
next
  case (Cons y a)
  then show ?case by (cases b) auto
qed

lemma registered_tags_no_nul: "tag \<in> set registered_tags \<Longrightarrow> 0 \<notin> set (bytes_of_string tag)"
  by (rule byte_zero_notin_tag) (auto simp: registered_tags_def tag_defs)

text \<open>no two registered contexts share a signed message: equal messages have the same
  tag and the same body, so a signature made for one kind of object verifies as no other.\<close>

lemma domain_separation:
  assumes "tag \<in> set registered_tags" and "tag' \<in> set registered_tags"
  shows "signingMessage tag body = signingMessage tag' body' \<longleftrightarrow> tag = tag' \<and> body = body'"
  using assms registered_tags_no_nul
    append_sep_inject [of 0 "bytes_of_string tag" "bytes_of_string tag'" body body']
  by (simp add: signingMessage_def)

text \<open>A delegation that is live for a role at an instant, read off the signed bytes.\<close>

definition live_delegation ::
    "(bytes \<Rightarrow> bytes \<Rightarrow> bytes \<Rightarrow> bool) \<Rightarrow> (bytes \<Rightarrow> cert option) \<Rightarrow> bytes \<Rightarrow> bytes \<Rightarrow> string \<Rightarrow> time
      \<Rightarrow> (string \<Rightarrow> bool) option \<Rightarrow> cert \<Rightarrow> bool" where
  "live_delegation verify unmarshal rootPub signed_bytes expect now revoked c \<longleftrightarrow>
     (\<exists>body. signed_by verify rootPub TagDelegationCert signed_bytes body \<and> unmarshal body = Some c)
     \<and> dc_Version c = delegation_Version \<and> length (dc_Pub c) = PublicKeySize \<and> dc_Role c = expect
     \<and> (\<forall>f. revoked = Some f \<longrightarrow> \<not> f (dc_Serial c))
     \<and> dc_NotBefore c - ClockSkew \<le> now \<and> now < dc_NotAfter c"

lemma signed_by_fun: "signed_by verify pub tag s b \<Longrightarrow> signed_by verify pub tag s b' \<Longrightarrow> b = b'"
  by (metis OpenSigned_Inr sum.inject(2))

lemma VerifyDelegationCert_Inr:
  "VerifyDelegationCert verify unmarshal root s expect now revoked = Inr c \<longleftrightarrow>
    live_delegation verify unmarshal root s expect now revoked c"
proof
  assume "VerifyDelegationCert verify unmarshal root s expect now revoked = Inr c"
  then show "live_delegation verify unmarshal root s expect now revoked c"
    by (auto simp: VerifyDelegationCert_def ParseCert_def live_delegation_def OpenSigned_Inr not_less
        split: if_splits sum.splits option.splits)
next
  assume live: "live_delegation verify unmarshal root s expect now revoked c"
  then obtain body where "OpenSigned verify root TagDelegationCert s = Inr body" "unmarshal body = Some c"
    by (auto simp: live_delegation_def OpenSigned_Inr)
  moreover have "length root = PublicKeySize"
    using live by (auto simp: live_delegation_def signed_by_def)
  ultimately show "VerifyDelegationCert verify unmarshal root s expect now revoked = Inr c"
    using live
    by (auto simp: VerifyDelegationCert_def ParseCert_def live_delegation_def split: option.splits)
qed

text \<open>a delegation is accepted exactly when the root signed those bytes under the
  delegation tag and the certificate they decode to has the known version, a full-size key,
  exactly the role the caller asked for, no revocation, and a window containing the instant.\<close>

lemma delegation_accepted_iff:
  "VerifyDelegationCert verify unmarshal rootPub signed_bytes expect now revoked = Inr c \<longleftrightarrow>
    length rootPub = PublicKeySize
    \<and> (\<exists>body sig. signed_bytes = body @ sig \<and> length sig = sigLen \<and> body \<noteq> []
        \<and> verify rootPub (signingMessage TagDelegationCert body) sig \<and> unmarshal body = Some c)
    \<and> dc_Version c = delegation_Version \<and> length (dc_Pub c) = PublicKeySize \<and> dc_Role c = expect
    \<and> (case revoked of None \<Rightarrow> True | Some f \<Rightarrow> \<not> f (dc_Serial c))
    \<and> dc_NotBefore c - ClockSkew \<le> now \<and> now < dc_NotAfter c"
  unfolding VerifyDelegationCert_Inr live_delegation_def signed_by_def
  by (auto split: option.splits)

end
