(* ===== verification/Release.thy ===== *)
theory Release
  imports Prelude
begin

text \<open>
  The release version of \<open>core/version\<close> (parse, print, compare, the node fence and the
  client force-update rule), the two stricter release checks of \<open>core/policy\<close> and
  \<open>core/update\<close>, the protocol hello of \<open>core/handshake\<close> and the client's latch on the
  network's release in \<open>core/engine.go\<close>. The lemmas show that \<open>Parse\<close> inverts
  \<open>String\<close>, that the wrapping subtraction of \<open>Compare\<close> never misorders two releases
  a peer can send, and that the fence is the order it is documented to be.
\<close>

section \<open>The version type\<close>

text \<open>\<open>type Version struct { Major, Minor, Patch int }\<close>; an \<open>int\<close> is 64 bits wide.\<close>

datatype version = Version (Major: int) (Minor: int) (Patch: int)

datatype version_error =
    NotThreeParts string
  | InvalidComponent string string

definition zero_version :: version where
  "zero_version = Version 0 0 0"

definition parse_component :: "string \<Rightarrow> string \<Rightarrow> version_error + int" where
  "parse_component s part =
     (case atoi part of
        None \<Rightarrow> Inl (InvalidComponent s part)
      | Some n \<Rightarrow> if n < 0 then Inl (InvalidComponent s part) else Inr n)"

definition Parse :: "string \<Rightarrow> version_error + version" where
  "Parse s =
     (case split_on CHR ''.'' s of
        [a, b, c] \<Rightarrow>
          (case parse_component s a of
             Inl e \<Rightarrow> Inl e
           | Inr major \<Rightarrow>
               (case parse_component s b of
                  Inl e \<Rightarrow> Inl e
                | Inr minor \<Rightarrow>
                    (case parse_component s c of
                       Inl e \<Rightarrow> Inl e
                     | Inr patch \<Rightarrow> Inr (Version major minor patch))))
      | _ \<Rightarrow> Inl (NotThreeParts s))"

definition String :: "version \<Rightarrow> string" where
  "String v = show_int (Major v) @ ''.'' @ show_int (Minor v) @ ''.'' @ show_int (Patch v)"

text \<open>\<open>Compare\<close>: the first non-zero difference decides; the subtraction wraps.\<close>

fun compare_diffs :: "int list \<Rightarrow> int" where
  "compare_diffs [] = 0"
| "compare_diffs (d # ds) = (if d < 0 then - 1 else if d > 0 then 1 else compare_diffs ds)"

definition Compare :: "version \<Rightarrow> version \<Rightarrow> int" where
  "Compare v w =
     compare_diffs
       [wrap64 (Major v - Major w), wrap64 (Minor v - Minor w), wrap64 (Patch v - Patch w)]"

definition ServingAllowed :: "version \<Rightarrow> version \<Rightarrow> bool" where
  "ServingAllowed node floor \<longleftrightarrow> Compare node floor \<ge> 0"

definition ClientMustUpdate :: "version \<Rightarrow> version \<Rightarrow> bool" where
  "ClientMustUpdate client network \<longleftrightarrow> Major client < Major network"

text \<open>
  \<open>Current\<close> over the stamp the linker wrote: the \<open>sync.Once\<close> flag says whether the
  unstamped warning was printed. The result is the panic or the version, the flag
  afterwards, and whether this call printed the warning.
\<close>

definition Stamped :: "string \<Rightarrow> bool" where
  "Stamped current \<longleftrightarrow> current \<noteq> []"

definition Current :: "string \<Rightarrow> bool \<Rightarrow> (version_error + version) \<times> bool \<times> bool" where
  "Current current warned =
     (if \<not> Stamped current then (Inr zero_version, True, \<not> warned)
      else (Parse current, warned, False))"

section \<open>The strict release checks\<close>

text \<open>
  \<open>checkServingVersion\<close> (core/policy) and \<open>checkRelease\<close> (core/update): three runs of
  ASCII digits, no sign, no leading zero, each below \<open>2 ^ 31\<close>. The error values name the
  branch; their text is not modelled.
\<close>

datatype release_error =
    ReleaseRequired
  | ReleaseNotThreeParts
  | EmptyComponent
  | LeadingZero string
  | NonDigit string
  | OutOfRange string

definition check_release_part :: "string \<Rightarrow> release_error option" where
  "check_release_part p =
     (if p = [] then Some EmptyComponent
      else if length p > 1 \<and> hd p = CHR ''0'' then Some (LeadingZero p)
      else if \<not> list_all is_digit p then Some (NonDigit p)
      else if parse_uint p 31 = None then Some (OutOfRange p)
      else None)"

fun check_release_parts :: "string list \<Rightarrow> release_error option" where
  "check_release_parts [] = None"
| "check_release_parts (p # ps) =
     (case check_release_part p of Some e \<Rightarrow> Some e | None \<Rightarrow> check_release_parts ps)"

definition checkServingVersion :: "string \<Rightarrow> release_error option" where
  "checkServingVersion s =
     (if s = [] then Some ReleaseRequired
      else if length (split_on CHR ''.'' s) \<noteq> 3 then Some ReleaseNotThreeParts
      else check_release_parts (split_on CHR ''.'' s))"

definition checkRelease :: "string \<Rightarrow> release_error option" where
  "checkRelease s =
     (if s = [] then Some ReleaseRequired
      else if length (split_on CHR ''.'' s) \<noteq> 3 then Some ReleaseNotThreeParts
      else check_release_parts (split_on CHR ''.'' s))"

section \<open>The protocol hello\<close>

definition ProtocolVersion :: int where
  "ProtocolVersion = 1"

definition Magic :: string where
  "Magic = ''bacchus-hello-1''"

record hello =
  hello_magic :: string
  hello_version :: int
  hello_capabilities :: "string list"

datatype hello_reject = BadMagic | PeerOlder int | PeerNewer int

definition Local :: hello where
  "Local = \<lparr>hello_magic = Magic, hello_version = ProtocolVersion, hello_capabilities = []\<rparr>"

definition Check :: "hello \<Rightarrow> hello_reject option" where
  "Check peer =
     (if hello_magic peer \<noteq> Magic then Some BadMagic
      else if hello_version peer < ProtocolVersion then Some (PeerOlder (hello_version peer))
      else if hello_version peer > ProtocolVersion then Some (PeerNewer (hello_version peer))
      else None)"

section \<open>The client's update latch\<close>

text \<open>
  \<open>Engine.observeNetworkVersion\<close> and \<open>updateRequired\<close>: the state is the last advert
  seen and the latched force-update pair; the emitted event is returned beside it. The
  build's own version is \<open>version.Current()\<close>.
\<close>

record update_latch =
  lastNetVersion :: string
  updateReq :: "(version \<times> version) option"

datatype update_event = UpdateRequired version version | UpdateAvailable version version

definition observeNetworkVersion ::
    "version \<Rightarrow> update_latch \<Rightarrow> string \<Rightarrow> update_latch \<times> update_event option" where
  "observeNetworkVersion self e release =
     (if release = [] then (e, None)
      else if release = lastNetVersion e then (e, None)
      else
        (let e1 = e\<lparr>lastNetVersion := release\<rparr> in
         case Parse release of
           Inl _ \<Rightarrow> (e1, None)
         | Inr nv \<Rightarrow>
             if ClientMustUpdate self nv
             then (e1\<lparr>updateReq := Some (self, nv)\<rparr>, Some (UpdateRequired self nv))
             else if Compare self nv < 0 then (e1, Some (UpdateAvailable nv self))
             else (e1, None)))"

definition updateRequired :: "update_latch \<Rightarrow> (version \<times> version) option" where
  "updateRequired e = updateReq e"

fun observe_all :: "version \<Rightarrow> update_latch \<Rightarrow> string list \<Rightarrow> update_latch" where
  "observe_all self e [] = e"
| "observe_all self e (r # rs) = observe_all self (fst (observeNetworkVersion self e r)) rs"

section \<open>The order of releases\<close>

instantiation version :: linorder
begin

definition less_eq_version :: "version \<Rightarrow> version \<Rightarrow> bool" where
  "less_eq_version v w \<longleftrightarrow>
     Major v < Major w \<or> Major v = Major w \<and>
       (Minor v < Minor w \<or> Minor v = Minor w \<and> Patch v \<le> Patch w)"

definition less_version :: "version \<Rightarrow> version \<Rightarrow> bool" where
  "less_version v w \<longleftrightarrow>
     Major v < Major w \<or> Major v = Major w \<and>
       (Minor v < Minor w \<or> Minor v = Minor w \<and> Patch v < Patch w)"

instance
  by standard (auto simp: less_eq_version_def less_version_def version.expand)

end

text \<open>What \<open>Parse\<close> can produce: every component is a non-negative 64-bit \<open>int\<close>.\<close>

definition version_ok :: "version \<Rightarrow> bool" where
  "version_ok v \<longleftrightarrow>
     0 \<le> Major v \<and> Major v \<le> max_int64 \<and> 0 \<le> Minor v \<and> Minor v \<le> max_int64 \<and>
     0 \<le> Patch v \<and> Patch v \<le> max_int64"

lemma zero_version_ok [simp]: "version_ok zero_version"
  by (simp add: version_ok_def zero_version_def max_int64_def)

lemma zero_version_least: "version_ok v \<Longrightarrow> zero_version \<le> v"
  by (auto simp: version_ok_def zero_version_def less_eq_version_def)

lemma atoi_range:
  assumes "atoi s = Some n" and "0 \<le> n"
  shows "n \<le> max_int64"
proof (cases s)
  case Nil
  with assms show ?thesis by (simp add: atoi_def)
next
  case (Cons c cs)
  with assms show ?thesis
    by (auto simp: atoi_def max_int64_def split: if_splits option.splits)
qed

lemma parse_component_ok:
  "parse_component s p = Inr n \<Longrightarrow> 0 \<le> n \<and> n \<le> max_int64"
  by (auto simp: parse_component_def atoi_range split: option.splits if_splits)

lemma parse_component_show:
  assumes "0 \<le> n" and "n \<le> max_int64"
  shows "parse_component s (show_int n) = Inr n"
proof -
  have "nat n < 2 ^ 63" using assms by (simp add: max_int64_def)
  then have "atoi (show_nat (nat n)) = Some n"
    using assms(1) by (simp add: atoi_digits)
  with assms(1) show ?thesis
    by (simp add: parse_component_def show_int_def)
qed

lemma show_int_no_dot: "0 \<le> n \<Longrightarrow> CHR ''.'' \<notin> set (show_int n)"
  using show_nat_digits [of "nat n"] digit_not_special
  by (auto simp: show_int_def list_all_iff)

lemma split_String:
  assumes "version_ok v"
  shows "split_on CHR ''.'' (String v) =
    [show_int (Major v), show_int (Minor v), show_int (Patch v)]"
proof -
  have "CHR ''.'' \<notin> set (show_int (Major v))" "CHR ''.'' \<notin> set (show_int (Minor v))"
    "CHR ''.'' \<notin> set (show_int (Patch v))"
    using assms by (simp_all add: show_int_no_dot version_ok_def)
  then show ?thesis
    by (simp add: String_def split_on_append split_on_no_sep)
qed

lemma Parse_ok: "Parse s = Inr v \<Longrightarrow> version_ok v"
  by (auto simp: Parse_def version_ok_def split: list.splits sum.splits dest!: parse_component_ok)

text \<open>\<open>Parse\<close> reads back exactly what \<open>String\<close> prints, for every version a build
  can hold, and everything \<open>Parse\<close> accepts is such a version.\<close>

lemma parse_inverts_string:
  assumes "version_ok v"
  shows "Parse (String v) = Inr v"
  using assms
  by (simp add: Parse_def split_String parse_component_show version_ok_def)

section \<open>Comparing releases\<close>

lemma wrap64_diff:
  "0 \<le> a \<Longrightarrow> a \<le> max_int64 \<Longrightarrow> 0 \<le> b \<Longrightarrow> b \<le> max_int64 \<Longrightarrow> wrap64 (a - b) = a - b"
  by (rule wrap64_in_range) (auto simp: min_int64_def max_int64_def)

lemma Compare_ok:
  assumes "version_ok v" and "version_ok w"
  shows "Compare v w = (if v < w then - 1 else if v = w then 0 else 1)"
  using assms
  by (auto simp: Compare_def version_ok_def wrap64_diff less_version_def version.expand)

text \<open>
  What a three-way comparison promises its callers: it is antisymmetric and its
  non-negative half is transitive, on the values that satisfy \<open>ok\<close>.
\<close>

locale comparison =
  fixes cmp :: "'a \<Rightarrow> 'a \<Rightarrow> int" and ok :: "'a \<Rightarrow> bool"
  assumes cmp_antisym: "ok a \<Longrightarrow> ok b \<Longrightarrow> cmp a b = - cmp b a"
    and cmp_trans: "ok a \<Longrightarrow> ok b \<Longrightarrow> ok c \<Longrightarrow> cmp a b \<ge> 0 \<Longrightarrow> cmp b c \<ge> 0 \<Longrightarrow> cmp a c \<ge> 0"
    and cmp_zero: "ok a \<Longrightarrow> ok b \<Longrightarrow> cmp a b = 0 \<longleftrightarrow> a = b"
begin

lemma cmp_refl: "ok a \<Longrightarrow> cmp a a = 0"
  by (simp add: cmp_zero)

lemma cmp_total: "ok a \<Longrightarrow> ok b \<Longrightarrow> cmp a b \<ge> 0 \<or> cmp b a \<ge> 0"
  using cmp_antisym [of a b] by linarith

text \<open>Raising a floor only removes nodes: whoever clears the higher floor clears the lower.\<close>

lemma floor_antimono:
  "ok n \<Longrightarrow> ok lo \<Longrightarrow> ok hi \<Longrightarrow> cmp hi lo \<ge> 0 \<Longrightarrow> cmp n hi \<ge> 0 \<Longrightarrow> cmp n lo \<ge> 0"
  using cmp_trans by blast

lemma at_floor_allowed: "ok n \<Longrightarrow> cmp n n \<ge> 0"
  by (simp add: cmp_refl)

end

interpretation release_cmp: comparison Compare version_ok
proof
  fix a b :: version
  assume "version_ok a" "version_ok b"
  then show "Compare a b = - Compare b a" and "Compare a b = 0 \<longleftrightarrow> a = b"
    by (auto simp: Compare_ok)
next
  fix a b c :: version
  assume "version_ok a" "version_ok b" "version_ok c" "Compare a b \<ge> 0" "Compare b c \<ge> 0"
  then show "Compare a c \<ge> 0"
    by (auto simp: Compare_ok split: if_splits)
qed

text \<open>for releases a peer can send, \<open>Compare\<close> is the lexicographic order although its
  64-bit subtraction wraps: it answers \<open>-1\<close>, \<open>0\<close> or \<open>1\<close> exactly when the first release
  is older, equal or newer.\<close>

lemma compare_is_lexicographic:
  assumes "Parse s = Inr v" and "Parse t = Inr w"
  shows "Compare v w = (if v < w then - 1 else if v = w then 0 else 1)"
  using assms by (simp add: Compare_ok Parse_ok)

lemma ServingAllowed_iff:
  "version_ok n \<Longrightarrow> version_ok f \<Longrightarrow> ServingAllowed n f \<longleftrightarrow> f \<le> n"
  by (auto simp: ServingAllowed_def Compare_ok)

section \<open>The strict checks\<close>

lemma check_release_part_None:
  assumes "check_release_part p = None"
  shows "list_all is_digit p" and "p \<noteq> []" and "length p = 1 \<or> hd p \<noteq> CHR ''0''"
    and "digits_value p < 2 ^ 31"
  using assms
  by (cases p; auto simp: check_release_part_def parse_uint_def split: if_splits)+

lemma strict_component:
  assumes "check_release_part p = None"
  shows "parse_component s p = Inr (int (digits_value p))"
    and "show_int (int (digits_value p)) = p"
proof -
  note facts = check_release_part_None [OF assms]
  have "digits_value p < 2 ^ 63" using facts(4) by simp
  then have "atoi p = Some (int (digits_value p))"
    using facts by (intro atoi_digits)
  then show "parse_component s p = Inr (int (digits_value p))"
    by (simp add: parse_component_def)
  show "show_int (int (digits_value p)) = p"
    using facts by (simp add: show_int_def show_nat_digits_value)
qed

lemma check_release_parts_None:
  "check_release_parts ps = None \<longleftrightarrow> (\<forall>p \<in> set ps. check_release_part p = None)"
  by (induction ps) (auto split: option.splits)

lemma strict_release_canonical:
  assumes "length (split_on CHR ''.'' s) = 3"
    and "check_release_parts (split_on CHR ''.'' s) = None"
  shows "\<exists>v. Parse s = Inr v \<and> String v = s"
proof -
  from assms(1) obtain a b c where sp: "split_on CHR ''.'' s = [a, b, c]"
    by (auto simp: length_Suc_conv numeral_3_eq_3)
  with assms(2) have parts: "check_release_part a = None" "check_release_part b = None"
    "check_release_part c = None"
    by (auto split: option.splits)
  let ?v = "Version (int (digits_value a)) (int (digits_value b)) (int (digits_value c))"
  have "Parse s = Inr ?v"
    using parts by (simp add: Parse_def sp strict_component)
  moreover have "String ?v = s"
    using parts split_on_join [OF sp] by (simp add: String_def strict_component)
  ultimately show ?thesis by blast
qed

text \<open>a release string the signed documents accept is canonical: \<open>version.Parse\<close>
  reads it, and printing what it read gives the same string back.\<close>

lemma strict_checks_imply_canonical:
  assumes "checkServingVersion s = None \<or> checkRelease s = None"
  shows "\<exists>v. Parse s = Inr v \<and> String v = s"
  using assms
  by (intro strict_release_canonical)
    (auto simp: checkServingVersion_def checkRelease_def split: if_splits)

text \<open>\<open>Parse\<close> itself is laxer than its comment says: a sign and leading zeros are
  accepted, so two different wire strings name one release.\<close>

lemma parse_accepts_non_canonical:
  "Parse ''+1.02.-0'' = Inr (Version 1 2 0) \<and> String (Version 1 2 0) \<noteq> ''+1.02.-0''
    \<and> checkRelease ''+1.02.-0'' \<noteq> None"
  by (simp add: Parse_def parse_component_def String_def checkRelease_def check_release_part_def
      go_simps)

section \<open>The update latch\<close>

definition forces_update :: "version \<Rightarrow> string \<Rightarrow> bool" where
  "forces_update self r \<longleftrightarrow>
     (case Parse r of Inl _ \<Rightarrow> False | Inr nv \<Rightarrow> ClientMustUpdate self nv)"

definition latch_inv :: "version \<Rightarrow> update_latch \<Rightarrow> bool" where
  "latch_inv self e \<longleftrightarrow> (forces_update self (lastNetVersion e) \<longrightarrow> updateReq e \<noteq> None)"

definition init_latch :: update_latch where
  "init_latch = \<lparr>lastNetVersion = [], updateReq = None\<rparr>"

lemma forces_iff: "forces_update self r \<longleftrightarrow> (\<exists>nv. Parse r = Inr nv \<and> Major self < Major nv)"
  by (cases "Parse r") (simp_all add: forces_update_def ClientMustUpdate_def)

lemma not_forces_empty [simp]: "\<not> forces_update self []"
  by (simp add: forces_update_def Parse_def)

lemma observe_latch:
  assumes "latch_inv self e"
  shows "latch_inv self (fst (observeNetworkVersion self e r))"
    and "updateReq (fst (observeNetworkVersion self e r)) = None \<longleftrightarrow>
      updateReq e = None \<and> \<not> forces_update self r"
proof -
  consider (skip) "r = [] \<or> r = lastNetVersion e"
    | (bad) x where "r \<noteq> []" "r \<noteq> lastNetVersion e" "Parse r = Inl x"
    | (parsed) nv where "r \<noteq> []" "r \<noteq> lastNetVersion e" "Parse r = Inr nv"
    by (cases "Parse r") auto
  then have "latch_inv self (fst (observeNetworkVersion self e r)) \<and>
    (updateReq (fst (observeNetworkVersion self e r)) = None \<longleftrightarrow>
      updateReq e = None \<and> \<not> forces_update self r)"
  proof cases
    case skip
    then have "observeNetworkVersion self e r = (e, None)"
      by (auto simp: observeNetworkVersion_def)
    with skip assms show ?thesis by (auto simp: latch_inv_def)
  qed (simp_all add: observeNetworkVersion_def latch_inv_def forces_update_def Let_def)
  then show "latch_inv self (fst (observeNetworkVersion self e r))"
    and "updateReq (fst (observeNetworkVersion self e r)) = None \<longleftrightarrow>
      updateReq e = None \<and> \<not> forces_update self r"
    by simp_all
qed

lemma observe_all_latch:
  assumes "latch_inv self e"
  shows "updateReq (observe_all self e rs) = None \<longleftrightarrow>
    updateReq e = None \<and> (\<forall>r \<in> set rs. \<not> forces_update self r)"
  using assms
proof (induction rs arbitrary: e)
  case (Cons r rs)
  from observe_latch [OF Cons.prems, of r] Cons.IH show ?case by auto
qed simp

text \<open>over any sequence of adverts the client ends up refusing to proceed exactly when
  one of them parsed to a higher MAJOR than its own, whatever repeats, garbled adverts or
  later lower releases came around it.\<close>

lemma update_latch_exact:
  "updateRequired (observe_all self init_latch rs) \<noteq> None \<longleftrightarrow>
    (\<exists>r \<in> set rs. \<exists>nv. Parse r = Inr nv \<and> Major self < Major nv)"
proof -
  have "latch_inv self init_latch"
    by (simp add: latch_inv_def init_latch_def)
  from observe_all_latch [OF this, of rs] show ?thesis
    unfolding updateRequired_def forces_iff by (simp add: init_latch_def)
qed

end
