(* ===== verification/Policy.thy ===== *)
theory Policy
  imports Delegation Release
begin

text \<open>
  Signed network policy: the document, its validation and tier lookup
  (\<open>core/policy/policy.go\<close>), the offline verifier (\<open>verify.go\<close>), the enforcer's persistent
  rollback floor (\<open>cache.go\<close>), and the coordinator's gate and refresh cycle
  (\<open>cmd/coordinator/policy.go\<close>). The JSON decoders, the ed25519 check and the outcome of
  every fetch and file write are parameters. The anti-rollback contract is the locale
  \<open>floor_ratchet\<close>, which the state of the refresh loop together with its cache file
  instantiates.
\<close>

section \<open>The document\<close>

record serve_floor =
  MinMeasuredBps :: uint64
  MinDeclaredQuotaBytes :: uint64
  MinServingVersion :: string

record backpressure =
  MinCountryHeadroomBps :: uint64
  MinNodeHeadroomBps :: uint64

record vouch =
  v_K :: int
  v_Budget :: int
  v_Period :: duration
  v_Tenure :: duration
  v_AdmitCapPerPeriod :: int

record tier_limit =
  t_Trust :: string
  t_Plan :: string
  t_SpeedCapBps :: uint64
  t_Priority :: int
  t_EndpointQuality :: int

record policy =
  pl_Version :: int
  pl_Seq :: uint64
  pl_Issued :: "time option"
  pl_Expires :: "time option"
  pl_Grace :: duration
  pl_Note :: string
  pl_ServeFloor :: serve_floor
  pl_Backpressure :: backpressure
  pl_Vouch :: vouch
  pl_Tiers :: "tier_limit list"

text \<open>\<open>None\<close> is the zero \<open>time.Time\<close>, an absent member of the document.\<close>

definition policy_Version :: int where "policy_Version = 1"

definition TrustEphemeral :: string where "TrustEphemeral = ''ephemeral''"

definition TrustStable :: string where "TrustStable = ''stable''"

definition trust_valid :: "string \<Rightarrow> bool" where
  "trust_valid t \<longleftrightarrow> t = TrustEphemeral \<or> t = TrustStable"

datatype policy_error =
  PUnsupportedVersion int | PMalformed | PInvalid string | PServingVersion release_error
| PNotYetIssued | PStale | PRollback uint64 uint64 | PUnknownTier string string
| PDelegation delegation_error | PDocument delegation_error

fun find_tier :: "tier_limit list \<Rightarrow> string \<Rightarrow> string \<Rightarrow> tier_limit option" where
  "find_tier [] trust plan = None"
| "find_tier (t # ts) trust plan =
     (if t_Trust t = trust \<and> t_Plan t = plan then Some t else find_tier ts trust plan)"

definition Limits :: "policy \<Rightarrow> string \<Rightarrow> string \<Rightarrow> policy_error + tier_limit" where
  "Limits p trust plan =
     (case find_tier (pl_Tiers p) trust plan of
        Some t \<Rightarrow> Inr t
      | None \<Rightarrow> Inl (PUnknownTier trust plan))"

fun check_tiers :: "tier_limit list \<Rightarrow> (string \<times> string) list \<Rightarrow> policy_error option" where
  "check_tiers [] seen = None"
| "check_tiers (t # ts) seen =
     (if \<not> trust_valid (t_Trust t) then Some (PInvalid ''unknown trust tier'')
      else if t_Priority t < 0 then Some (PInvalid ''negative priority'')
      else if t_EndpointQuality t < 0 then Some (PInvalid ''negative endpoint quality'')
      else if (t_Trust t, t_Plan t) \<in> set seen then Some (PInvalid ''duplicate tier row'')
      else check_tiers ts ((t_Trust t, t_Plan t) # seen))"

definition policy_Validate :: "policy \<Rightarrow> policy_error option" where
  "policy_Validate p =
     (if pl_Version p \<noteq> policy_Version then Some (PUnsupportedVersion (pl_Version p))
      else if pl_Seq p = 0 then Some (PInvalid ''seq must be at least 1'')
      else case (pl_Issued p, pl_Expires p) of
        (Some issued, Some expires) \<Rightarrow>
          (if \<not> issued < expires then Some (PInvalid ''empty window'')
           else if pl_Grace p < 0 then Some (PInvalid ''negative grace'')
           else case checkServingVersion (MinServingVersion (pl_ServeFloor p)) of
                  Some err \<Rightarrow> Some (PServingVersion err)
                | None \<Rightarrow>
                    if v_K (pl_Vouch p) < 1 then Some (PInvalid ''vouch k'')
                    else if v_Budget (pl_Vouch p) < 0 then Some (PInvalid ''negative vouch budget'')
                    else if v_Period (pl_Vouch p) \<le> 0 then Some (PInvalid ''vouch period'')
                    else if v_Tenure (pl_Vouch p) < 0 then Some (PInvalid ''negative vouch tenure'')
                    else if v_AdmitCapPerPeriod (pl_Vouch p) < 0
                    then Some (PInvalid ''negative admission cap'')
                    else if pl_Tiers p = [] then Some (PInvalid ''no tier limits'')
                    else check_tiers (pl_Tiers p) [])
      | _ \<Rightarrow> Some (PInvalid ''issued and exp are both required''))"

definition Issued :: "policy \<Rightarrow> time" where
  "Issued p = (case pl_Issued p of Some t \<Rightarrow> t | None \<Rightarrow> zero_time)"

definition Expires :: "policy \<Rightarrow> time" where
  "Expires p = (case pl_Expires p of Some t \<Rightarrow> t | None \<Rightarrow> zero_time)"

definition Fresh :: "policy \<Rightarrow> time \<Rightarrow> bool" where
  "Fresh p now \<longleftrightarrow> \<not> now < Issued p - ClockSkew \<and> now < Expires p"

definition Deadline :: "policy \<Rightarrow> time" where
  "Deadline p = Expires p + pl_Grace p"

section \<open>Verification\<close>

record policy_bundle =
  b_Doc :: bytes
  b_Cert :: bytes

text \<open>The code the verifier calls: the signature check and the JSON decoders. \<open>pe_indent\<close> is what the encoder
  makes of the bytes of a \<open>json.RawMessage\<close> inside an indented document: it fails on bytes that are not
  exactly one JSON value, where the stream decoder behind \<open>pe_bundle\<close> reads the first value only.\<close>

record policy_env =
  pe_verify :: "bytes \<Rightarrow> bytes \<Rightarrow> bytes \<Rightarrow> bool"
  pe_cert :: "bytes \<Rightarrow> cert option"
  pe_policy :: "bytes \<Rightarrow> policy option"
  pe_bundle :: "bytes \<Rightarrow> policy_bundle option"
  pe_indent :: "bytes \<Rightarrow> bytes option"

definition ParseBundle :: "policy_env \<Rightarrow> bytes \<Rightarrow> policy_error + policy_bundle" where
  "ParseBundle env data =
     (case pe_bundle env data of
        None \<Rightarrow> Inl PMalformed
      | Some b \<Rightarrow> if b_Doc b = [] \<or> b_Cert b = [] then Inl PMalformed else Inr b)"

record verifier =
  vf_rootPub :: bytes
  vf_revoked :: "string \<Rightarrow> bool"

definition NewVerifier :: "bytes \<Rightarrow> (string \<Rightarrow> bool) option \<Rightarrow> delegation_error + verifier" where
  "NewVerifier rootPub revoked =
     (if length rootPub \<noteq> PublicKeySize then Inl DNoRoot
      else Inr \<lparr>vf_rootPub = rootPub,
                vf_revoked = (case revoked of None \<Rightarrow> (\<lambda>_. False) | Some f \<Rightarrow> f)\<rparr>)"

definition policy_Verify ::
    "policy_env \<Rightarrow> verifier \<Rightarrow> policy_bundle \<Rightarrow> time \<Rightarrow> uint64 \<Rightarrow> policy_error + policy" where
  "policy_Verify env v b now minSeq =
     (case VerifyDelegationCert (pe_verify env) (pe_cert env) (vf_rootPub v) (b_Cert b) RolePolicy now
             (Some (vf_revoked v)) of
        Inl err \<Rightarrow> Inl (PDelegation err)
      | Inr c \<Rightarrow>
          (case OpenSigned (pe_verify env) (dc_Pub c) TagPolicyDoc (b_Doc b) of
             Inl DMalformed \<Rightarrow> Inl PMalformed
           | Inl err \<Rightarrow> Inl (PDocument err)
           | Inr body \<Rightarrow>
               (case pe_policy env body of
                  None \<Rightarrow> Inl PMalformed
                | Some p \<Rightarrow>
                    (case policy_Validate p of
                       Some err \<Rightarrow> Inl err
                     | None \<Rightarrow>
                         if now < Issued p - ClockSkew then Inl PNotYetIssued
                         else if \<not> now < Deadline p then Inl PStale
                         else if pl_Seq p < minSeq then Inl (PRollback (pl_Seq p) minSeq)
                         else Inr p))))"

section \<open>The persistent floor (cache.go)\<close>

definition cacheVersion :: int where "cacheVersion = 1"

record cache_state =
  cf_Version :: int
  cf_MinSeq :: uint64
  cf_Bundle :: bytes

datatype cache_file = CacheMissing | CacheUnreadable | CacheUnparseable | CacheFile cache_state

datatype cache_error = CacheRead | CacheParse | CacheVersion int | CacheBundle policy_error

text \<open>The floor, the policy if the cached bundle still verifies, and the error.\<close>

definition cache_Load ::
    "policy_env \<Rightarrow> verifier \<Rightarrow> time \<Rightarrow> cache_file \<Rightarrow> uint64 \<times> policy option \<times> cache_error option" where
  "cache_Load env v now file =
     (case file of
        CacheMissing \<Rightarrow> (0, None, None)
      | CacheUnreadable \<Rightarrow> (0, None, Some CacheRead)
      | CacheUnparseable \<Rightarrow> (0, None, Some CacheParse)
      | CacheFile f \<Rightarrow>
          if cf_Version f \<noteq> cacheVersion then (cf_MinSeq f, None, Some (CacheVersion (cf_Version f)))
          else if cf_Bundle f = [] then (cf_MinSeq f, None, None)
          else (case ParseBundle env (cf_Bundle f) of
                  Inl err \<Rightarrow> (cf_MinSeq f, None, Some (CacheBundle err))
                | Inr b \<Rightarrow>
                    (case policy_Verify env v b now (cf_MinSeq f) of
                       Inl err \<Rightarrow> (cf_MinSeq f, None, Some (CacheBundle err))
                     | Inr p \<Rightarrow> (cf_MinSeq f, Some p, None))))"

definition peek :: "cache_file \<Rightarrow> uint64 \<times> cache_state" where
  "peek file =
     (let zero = \<lparr>cf_Version = 0, cf_MinSeq = 0, cf_Bundle = []\<rparr>
      in case file of
           CacheFile f \<Rightarrow> (cf_MinSeq f, if cf_Version f \<noteq> cacheVersion then zero else f)
         | _ \<Rightarrow> (0, zero))"

text \<open>Whether the state file can be read at this moment, and whether the atomic install of a new one goes
  through; otherwise the file is untouched.\<close>

record cache_io =
  ci_read :: bool
  ci_write :: bool

definition read_cache :: "bool \<Rightarrow> cache_file \<Rightarrow> cache_file" where
  "read_cache readable file = (if readable then file else CacheUnreadable)"

definition cache_Store :: "policy_env \<Rightarrow> cache_io \<Rightarrow> bytes \<Rightarrow> uint64 \<Rightarrow> cache_file \<Rightarrow> cache_file" where
  "cache_Store env io raw seq file =
     (let prev = fst (peek (read_cache (ci_read io) file));
          seq = (if seq < prev then prev else seq)
      in case pe_indent env raw of
           None \<Rightarrow> file
         | Some bundled \<Rightarrow>
             if ci_write io then CacheFile \<lparr>cf_Version = cacheVersion, cf_MinSeq = seq, cf_Bundle = bundled\<rparr> else file)"

definition cache_StoreFloor :: "policy_env \<Rightarrow> cache_io \<Rightarrow> uint64 \<Rightarrow> cache_file \<Rightarrow> cache_file" where
  "cache_StoreFloor env io seq file =
     (let (prev, f) = peek (read_cache (ci_read io) file);
          seq = (if seq < prev then prev else seq)
      in case (if cf_Bundle f = [] then Some [] else pe_indent env (cf_Bundle f)) of
           None \<Rightarrow> file
         | Some bundled \<Rightarrow>
             if ci_write io then CacheFile (f\<lparr>cf_Version := cacheVersion, cf_MinSeq := seq, cf_Bundle := bundled\<rparr>) else file)"

section \<open>The coordinator's gate and refresh (cmd/coordinator/policy.go)\<close>

record policy_gate =
  g_configured :: bool
  g_held :: "policy option"

definition policyAllowsAssignment :: "policy_gate \<Rightarrow> bool" where
  "policyAllowsAssignment g \<longleftrightarrow> (if \<not> g_configured g then True else g_held g \<noteq> None)"

definition installPolicy :: "policy \<Rightarrow> policy_gate \<Rightarrow> policy_gate" where
  "installPolicy p g = g\<lparr>g_held := Some p\<rparr>"

definition clearPolicy :: "policy_gate \<Rightarrow> policy_gate" where
  "clearPolicy g = g\<lparr>g_held := None\<rparr>"

definition policyServingFloor :: "version \<Rightarrow> policy_gate \<Rightarrow> version" where
  "policyServingFloor servingFloor g =
     (case g_held g of
        None \<Rightarrow> servingFloor
      | Some p \<Rightarrow>
          (case Parse (MinServingVersion (pl_ServeFloor p)) of
             Inl _ \<Rightarrow> servingFloor
           | Inr f \<Rightarrow> f))"

definition policyMeasuredFloor :: "policy_gate \<Rightarrow> uint64" where
  "policyMeasuredFloor g =
     (case g_held g of None \<Rightarrow> 0 | Some p \<Rightarrow> MinMeasuredBps (pl_ServeFloor p))"

definition policyDeclaredQuotaFloor :: "policy_gate \<Rightarrow> uint64" where
  "policyDeclaredQuotaFloor g =
     (case g_held g of None \<Rightarrow> 0 | Some p \<Rightarrow> MinDeclaredQuotaBytes (pl_ServeFloor p))"

text \<open>The coordinator process: the gate, the loop's floor, and the state file.\<close>

record policy_proc =
  pp_gate :: policy_gate
  pp_minSeq :: uint64
  pp_file :: cache_file

definition age_out :: "time \<Rightarrow> policy_gate \<Rightarrow> policy_gate" where
  "age_out now g =
     (case g_held g of
        Some held \<Rightarrow> if \<not> now < Deadline held then clearPolicy g else g
      | None \<Rightarrow> g)"

text \<open>\<open>fetched = None\<close> is a failed fetch. The result says whether the cycle succeeded.\<close>

definition refreshPolicyOnce ::
    "policy_env \<Rightarrow> verifier \<Rightarrow> cache_io \<Rightarrow> bytes option \<Rightarrow> time \<Rightarrow> policy_proc \<Rightarrow> bool \<times> policy_proc" where
  "refreshPolicyOnce env v io fetched now pp =
     (let pp = pp\<lparr>pp_gate := age_out now (pp_gate pp)\<rparr>
      in case fetched of
           None \<Rightarrow> (False, pp)
         | Some raw \<Rightarrow>
             (case ParseBundle env raw of
                Inl _ \<Rightarrow> (False, pp)
              | Inr b \<Rightarrow>
                  (case policy_Verify env v b now (pp_minSeq pp) of
                     Inl _ \<Rightarrow> (False, pp)
                   | Inr p \<Rightarrow>
                       (let seq = (if pl_Seq p > pp_minSeq pp then pl_Seq p else pp_minSeq pp)
                        in (True, pp\<lparr>pp_gate := installPolicy p (pp_gate pp), pp_minSeq := seq,
                                    pp_file := cache_Store env io raw seq (pp_file pp)\<rparr>)))))"

text \<open>Startup with a usable root and source: load the cache, install what it still proves.\<close>

definition startPolicy :: "policy_env \<Rightarrow> verifier \<Rightarrow> time \<Rightarrow> bool \<Rightarrow> cache_file \<Rightarrow> policy_proc" where
  "startPolicy env v now readable file =
     (let (minSeq, cached, _) = cache_Load env v now (read_cache readable file)
      in \<lparr>pp_gate = \<lparr>g_configured = True, g_held = cached\<rparr>, pp_minSeq = minSeq, pp_file = file\<rparr>)"

definition policyRefresh :: duration where "policyRefresh = 10 * 1000000000"

definition policyBackoffMax :: duration where "policyBackoffMax = 2 * 60 * 1000000000"

fun backoff_loop :: "nat \<Rightarrow> duration \<Rightarrow> duration" where
  "backoff_loop 0 d = d"
| "backoff_loop (Suc n) d = (if d < policyBackoffMax then backoff_loop n (2 * d) else d)"

definition policyBackoffFor :: "int \<Rightarrow> duration" where
  "policyBackoffFor fails =
     (if fails \<le> 0 then policyRefresh else min (backoff_loop (nat fails) policyRefresh) policyBackoffMax)"

section \<open>Validation\<close>

lemma find_tier_Some:
  "find_tier ts trust plan = Some t \<Longrightarrow> t \<in> set ts \<and> t_Trust t = trust \<and> t_Plan t = plan"
  by (induction ts) (auto split: if_splits)

lemma find_tier_None: "find_tier ts trust plan = None \<longleftrightarrow> (\<forall>t \<in> set ts. (t_Trust t, t_Plan t) \<noteq> (trust, plan))"
  by (induction ts) auto

definition tier_key :: "tier_limit \<Rightarrow> string \<times> string" where
  "tier_key t = (t_Trust t, t_Plan t)"

lemma check_tiers_None:
  "check_tiers ts seen = None \<longleftrightarrow>
    (\<forall>t \<in> set ts. trust_valid (t_Trust t) \<and> 0 \<le> t_Priority t \<and> 0 \<le> t_EndpointQuality t)
    \<and> distinct (map tier_key ts) \<and> tier_key ` set ts \<inter> set seen = {}"
  by (induction ts arbitrary: seen) (auto simp: tier_key_def)

lemma policy_Validate_None:
  "policy_Validate p = None \<longleftrightarrow>
    pl_Version p = policy_Version \<and> pl_Seq p \<noteq> 0
    \<and> (\<exists>issued expires. pl_Issued p = Some issued \<and> pl_Expires p = Some expires \<and> issued < expires)
    \<and> 0 \<le> pl_Grace p \<and> checkServingVersion (MinServingVersion (pl_ServeFloor p)) = None
    \<and> 1 \<le> v_K (pl_Vouch p) \<and> 0 \<le> v_Budget (pl_Vouch p) \<and> 0 < v_Period (pl_Vouch p)
    \<and> 0 \<le> v_Tenure (pl_Vouch p) \<and> 0 \<le> v_AdmitCapPerPeriod (pl_Vouch p)
    \<and> pl_Tiers p \<noteq> [] \<and> check_tiers (pl_Tiers p) [] = None"
  by (auto simp: policy_Validate_def split: if_splits option.splits)

text \<open>in a validated policy a (trust, plan) pair resolves to the one row that carries it,
  whatever order the rows are read in, and to an error exactly when no row does.\<close>

lemma limits_unambiguous:
  assumes "policy_Validate p = None"
  shows "(Limits p trust plan = Inr t \<longleftrightarrow> t \<in> set (pl_Tiers p) \<and> t_Trust t = trust \<and> t_Plan t = plan)
    \<and> (Limits p trust plan = Inl (PUnknownTier trust plan) \<longleftrightarrow>
        (\<forall>t' \<in> set (pl_Tiers p). (t_Trust t', t_Plan t') \<noteq> (trust, plan)))"
proof -
  have dist: "distinct (map tier_key (pl_Tiers p))"
    using assms by (simp add: policy_Validate_None check_tiers_None)
  have uniq: "s = t'" if "s \<in> set (pl_Tiers p)" "t' \<in> set (pl_Tiers p)" "tier_key s = tier_key t'" for s t'
    using that dist by (simp add: distinct_map inj_on_def)
  show ?thesis
  proof (cases "find_tier (pl_Tiers p) trust plan")
    case None
    have "Limits p trust plan = Inl (PUnknownTier trust plan)"
      by (simp add: Limits_def None)
    with None show ?thesis unfolding find_tier_None by auto
  next
    case (Some s)
    then show ?thesis
      using find_tier_Some [OF Some] uniq by (auto simp: Limits_def tier_key_def)
  qed
qed

lemma validated_floor_parses:
  assumes "policy_Validate p = None"
  obtains f where "Parse (MinServingVersion (pl_ServeFloor p)) = Inr f"
    "String f = MinServingVersion (pl_ServeFloor p)"
proof -
  have "checkServingVersion (MinServingVersion (pl_ServeFloor p)) = None"
    using assms by (simp add: policy_Validate_None)
  then have "\<exists>f. Parse (MinServingVersion (pl_ServeFloor p)) = Inr f
      \<and> String f = MinServingVersion (pl_ServeFloor p)"
    by (intro strict_release_canonical) (auto simp: checkServingVersion_def split: if_splits)
  then show thesis using that by blast
qed

section \<open>Verification\<close>

definition verified ::
    "policy_env \<Rightarrow> verifier \<Rightarrow> policy_bundle \<Rightarrow> time \<Rightarrow> uint64 \<Rightarrow> policy \<Rightarrow> bool" where
  "verified env v b now minSeq p \<longleftrightarrow>
     (\<exists>c body. live_delegation (pe_verify env) (pe_cert env) (vf_rootPub v) (b_Cert b) RolePolicy now
          (Some (vf_revoked v)) c
        \<and> signed_by (pe_verify env) (dc_Pub c) TagPolicyDoc (b_Doc b) body \<and> pe_policy env body = Some p)
     \<and> policy_Validate p = None \<and> Issued p - ClockSkew \<le> now \<and> now < Deadline p \<and> minSeq \<le> pl_Seq p"

lemma policy_Verify_Inr: "policy_Verify env v b now minSeq = Inr p \<longleftrightarrow> verified env v b now minSeq p"
proof
  assume "policy_Verify env v b now minSeq = Inr p"
  then show "verified env v b now minSeq p"
    by (auto simp: policy_Verify_def verified_def VerifyDelegationCert_Inr OpenSigned_Inr not_less
        split: sum.splits option.splits if_splits delegation_error.splits)
next
  assume ver: "verified env v b now minSeq p"
  then obtain c body where
    "VerifyDelegationCert (pe_verify env) (pe_cert env) (vf_rootPub v) (b_Cert b) RolePolicy now
      (Some (vf_revoked v)) = Inr c"
    "OpenSigned (pe_verify env) (dc_Pub c) TagPolicyDoc (b_Doc b) = Inr body" "pe_policy env body = Some p"
    by (auto simp: verified_def VerifyDelegationCert_Inr OpenSigned_Inr)
  with ver show "policy_Verify env v b now minSeq = Inr p"
    by (auto simp: policy_Verify_def verified_def)
qed

text \<open>Three numbers without sign or leading zero, each below \<open>2 ^ 31\<close>, joined by dots.\<close>

lemma part_show_nat: "n < 2 ^ 31 \<Longrightarrow> check_release_part (show_nat n) = None"
  using show_nat_canonical [of n] by (auto simp: check_release_part_def)

lemma checkServingVersion_None:
  "checkServingVersion s = None \<longleftrightarrow>
     (\<exists>a b c. a < 2 ^ 31 \<and> b < 2 ^ 31 \<and> c < 2 ^ 31 \<and> s = show_nat a @ CHR ''.'' # show_nat b @ CHR ''.'' # show_nat c)"
proof
  assume none: "checkServingVersion s = None"
  then have "length (split_on CHR ''.'' s) = 3" "check_release_parts (split_on CHR ''.'' s) = None"
    by (auto simp: checkServingVersion_def split: if_splits)
  then obtain a b c where sp: "split_on CHR ''.'' s = [a, b, c]" and parts: "\<forall>p \<in> {a, b, c}. check_release_part p = None"
    by (auto simp: length_Suc_conv numeral_3_eq_3 check_release_parts_None)
  have part: "show_nat (digits_value p) = p \<and> digits_value p < 2 ^ 31" if "check_release_part p = None" for p
    using check_release_part_None [OF that] by (simp add: show_nat_digits_value)
  have "check_release_part a = None" "check_release_part b = None" "check_release_part c = None"
    using parts by simp_all
  then show "\<exists>a b c. a < 2 ^ 31 \<and> b < 2 ^ 31 \<and> c < 2 ^ 31 \<and> s = show_nat a @ CHR ''.'' # show_nat b @ CHR ''.'' # show_nat c"
    using split_on_join [OF sp] part by (intro exI [of _ "digits_value a"] exI [of _ "digits_value b"] exI [of _ "digits_value c"]) auto
next
  assume "\<exists>a b c. a < 2 ^ 31 \<and> b < 2 ^ 31 \<and> c < 2 ^ 31 \<and> s = show_nat a @ CHR ''.'' # show_nat b @ CHR ''.'' # show_nat c"
  then obtain a b c where n: "a < 2 ^ 31" "b < 2 ^ 31" "c < 2 ^ 31" and s: "s = show_nat a @ CHR ''.'' # show_nat b @ CHR ''.'' # show_nat c"
    by blast
  have dots: "CHR ''.'' \<notin> set (show_nat k)" for k
    using show_nat_digits [of k] digit_not_special by (auto simp: list_all_iff)
  have "split_on CHR ''.'' s = [show_nat a, show_nat b, show_nat c]"
    unfolding s by (simp add: split_on_append [OF dots] split_on_no_sep [OF dots])
  moreover have "s \<noteq> []" by (simp add: s)
  ultimately show "checkServingVersion s = None"
    by (simp add: checkServingVersion_def check_release_parts_None part_show_nat [OF n(1)] part_show_nat [OF n(2)] part_show_nat [OF n(3)])
qed

text \<open>C19: A policy is accepted exactly when these hold. The delegation bytes are a body and a signature of the
  offline root under the delegation tag, and the body decodes to a certificate of the supported version
  for a full-size key, with the policy role, a serial that is not revoked, and a validity window that
  contains the instant (with the clock skew before it). The document bytes are a body and a signature of
  that key under the policy tag. The body decodes to a policy of the supported version with a positive
  sequence number, a non-empty window, no negative grace, a serving version of three canonical numbers,
  sane vouching parameters, and at least one tier, each row with a known trust, no negative priority or
  quality, and no two rows for one trust and plan. The instant lies between the start of the window, less
  the clock skew, and its end plus grace, and the sequence number is not below the floor.\<close>

theorem policy_accepted_iff:
  "policy_Verify env v b now minSeq = Inr p \<longleftrightarrow>
    length (vf_rootPub v) = 32
    \<and> (\<exists>cbody csig c body sig.
        b_Cert b = cbody @ csig \<and> length csig = 64 \<and> cbody \<noteq> []
      \<and> pe_verify env (vf_rootPub v) (bytes_of_string TagDelegationCert @ [0] @ cbody) csig \<and> pe_cert env cbody = Some c
      \<and> dc_Version c = 1 \<and> length (dc_Pub c) = 32 \<and> dc_Role c = ''policy'' \<and> \<not> vf_revoked v (dc_Serial c)
      \<and> dc_NotBefore c - ClockSkew \<le> now \<and> now < dc_NotAfter c
      \<and> b_Doc b = body @ sig \<and> length sig = 64 \<and> body \<noteq> []
      \<and> pe_verify env (dc_Pub c) (bytes_of_string TagPolicyDoc @ [0] @ body) sig \<and> pe_policy env body = Some p)
    \<and> pl_Version p = 1 \<and> pl_Seq p \<noteq> 0 \<and> 0 \<le> pl_Grace p
    \<and> (\<exists>issued expires. pl_Issued p = Some issued \<and> pl_Expires p = Some expires \<and> issued < expires
        \<and> issued - ClockSkew \<le> now \<and> now < expires + pl_Grace p)
    \<and> (\<exists>x y z. x < 2 ^ 31 \<and> y < 2 ^ 31 \<and> z < 2 ^ 31
        \<and> MinServingVersion (pl_ServeFloor p) = show_nat x @ CHR ''.'' # show_nat y @ CHR ''.'' # show_nat z)
    \<and> 1 \<le> v_K (pl_Vouch p) \<and> 0 \<le> v_Budget (pl_Vouch p) \<and> 0 < v_Period (pl_Vouch p)
    \<and> 0 \<le> v_Tenure (pl_Vouch p) \<and> 0 \<le> v_AdmitCapPerPeriod (pl_Vouch p)
    \<and> pl_Tiers p \<noteq> [] \<and> distinct (map (\<lambda>t. (t_Trust t, t_Plan t)) (pl_Tiers p))
    \<and> list_all (\<lambda>t. t_Trust t \<in> {''ephemeral'', ''stable''} \<and> 0 \<le> t_Priority t \<and> 0 \<le> t_EndpointQuality t) (pl_Tiers p)
    \<and> minSeq \<le> pl_Seq p"
proof -
  have key: "tier_key = (\<lambda>t. (t_Trust t, t_Plan t))" by (simp add: fun_eq_iff tier_key_def)
  have valid: "policy_Validate p = None \<and> Issued p - ClockSkew \<le> now \<and> now < Deadline p \<longleftrightarrow>
      pl_Version p = 1 \<and> pl_Seq p \<noteq> 0 \<and> 0 \<le> pl_Grace p
    \<and> (\<exists>issued expires. pl_Issued p = Some issued \<and> pl_Expires p = Some expires \<and> issued < expires
        \<and> issued - ClockSkew \<le> now \<and> now < expires + pl_Grace p)
    \<and> (\<exists>x y z. x < 2 ^ 31 \<and> y < 2 ^ 31 \<and> z < 2 ^ 31
        \<and> MinServingVersion (pl_ServeFloor p) = show_nat x @ CHR ''.'' # show_nat y @ CHR ''.'' # show_nat z)
    \<and> 1 \<le> v_K (pl_Vouch p) \<and> 0 \<le> v_Budget (pl_Vouch p) \<and> 0 < v_Period (pl_Vouch p)
    \<and> 0 \<le> v_Tenure (pl_Vouch p) \<and> 0 \<le> v_AdmitCapPerPeriod (pl_Vouch p)
    \<and> pl_Tiers p \<noteq> [] \<and> distinct (map (\<lambda>t. (t_Trust t, t_Plan t)) (pl_Tiers p))
    \<and> (\<forall>t \<in> set (pl_Tiers p). t_Trust t \<in> {''ephemeral'', ''stable''} \<and> 0 \<le> t_Priority t \<and> 0 \<le> t_EndpointQuality t)"
    unfolding policy_Validate_None check_tiers_None checkServingVersion_None key policy_Version_def trust_valid_def TrustEphemeral_def TrustStable_def
    by (auto simp: Issued_def Deadline_def Expires_def)
  have certs: "(\<exists>c body. live_delegation (pe_verify env) (pe_cert env) (vf_rootPub v) (b_Cert b) RolePolicy now
          (Some (vf_revoked v)) c
        \<and> signed_by (pe_verify env) (dc_Pub c) TagPolicyDoc (b_Doc b) body \<and> pe_policy env body = Some p) \<longleftrightarrow>
      length (vf_rootPub v) = 32
    \<and> (\<exists>cbody csig c body sig.
        b_Cert b = cbody @ csig \<and> length csig = 64 \<and> cbody \<noteq> []
      \<and> pe_verify env (vf_rootPub v) (bytes_of_string TagDelegationCert @ [0] @ cbody) csig \<and> pe_cert env cbody = Some c
      \<and> dc_Version c = 1 \<and> length (dc_Pub c) = 32 \<and> dc_Role c = ''policy'' \<and> \<not> vf_revoked v (dc_Serial c)
      \<and> dc_NotBefore c - ClockSkew \<le> now \<and> now < dc_NotAfter c
      \<and> b_Doc b = body @ sig \<and> length sig = 64 \<and> body \<noteq> []
      \<and> pe_verify env (dc_Pub c) (bytes_of_string TagPolicyDoc @ [0] @ body) sig \<and> pe_policy env body = Some p)"
    unfolding live_delegation_def signed_by_def signingMessage_def sigLen_def PublicKeySize_def
      delegation_Version_def RolePolicy_def
    by (simp, blast)
  show ?thesis
    unfolding policy_Verify_Inr verified_def list_all_iff using certs valid by satx
qed

section \<open>The refresh cycle\<close>

text \<open>What a fetched bundle verifies to, if anything.\<close>

definition fetched_policy ::
    "policy_env \<Rightarrow> verifier \<Rightarrow> bytes option \<Rightarrow> time \<Rightarrow> uint64 \<Rightarrow> policy option" where
  "fetched_policy env v fetched now minSeq =
     (case fetched of
        None \<Rightarrow> None
      | Some raw \<Rightarrow>
          (case ParseBundle env raw of
             Inl _ \<Rightarrow> None
           | Inr b \<Rightarrow> (case policy_Verify env v b now minSeq of Inl _ \<Rightarrow> None | Inr p \<Rightarrow> Some p)))"

lemma refresh_gate:
  "g_held (pp_gate (snd (refreshPolicyOnce env v io fetched now pp))) =
    (case fetched_policy env v fetched now (pp_minSeq pp) of
       Some p \<Rightarrow> Some p
     | None \<Rightarrow> g_held (age_out now (pp_gate pp)))"
  by (auto simp: refreshPolicyOnce_def fetched_policy_def installPolicy_def Let_def
      split: option.splits sum.splits)

lemma age_out_held:
  "g_held (age_out now g) = (case g_held g of Some h \<Rightarrow> if now < Deadline h then Some h else None | None \<Rightarrow> None)"
  by (auto simp: age_out_def clearPolicy_def split: option.splits)

lemma fetched_policy_Some:
  "fetched_policy env v fetched now minSeq = Some p \<Longrightarrow>
    \<exists>raw b. fetched = Some raw \<and> ParseBundle env raw = Inr b \<and> verified env v b now minSeq p"
  by (auto simp: fetched_policy_def policy_Verify_Inr split: option.splits sum.splits)

text \<open>after a refresh at an instant the coordinator enforces the fetched policy if it
  verified, otherwise what it held, and nothing past its deadline: a source that fails or
  lies can neither unload a live policy nor keep an expired one enforced.\<close>

lemma refresh_outcome:
  "g_held (pp_gate (snd (refreshPolicyOnce env v io fetched now pp))) =
     (case fetched_policy env v fetched now (pp_minSeq pp) of
        Some p \<Rightarrow> Some p
      | None \<Rightarrow> (case g_held (pp_gate pp) of
                   Some h \<Rightarrow> if now < Deadline h then Some h else None
                 | None \<Rightarrow> None))
   \<and> (case g_held (pp_gate (snd (refreshPolicyOnce env v io fetched now pp))) of
        None \<Rightarrow> True
      | Some p \<Rightarrow> now < Deadline p)"
proof -
  have "now < Deadline p" if "fetched_policy env v fetched now (pp_minSeq pp) = Some p" for p
    using fetched_policy_Some [OF that] by (auto simp: verified_def)
  then show ?thesis
    by (auto simp: refresh_gate age_out_held split: option.splits if_splits)
qed

section \<open>The rollback floor\<close>

text \<open>
  The contract of a rollback floor: the allowed events never lower the floor, and what they newly
  put in force is at or above it. Then no run of allowed events replaces a generation the floor has
  reached by an older one. Which floor and which events it is interpreted on says what a process
  relies on: the one in memory lasts as long as the process does, the one on disk as long as a
  restart can read it.
\<close>

locale floor_ratchet =
  fixes good :: "'s \<Rightarrow> bool"
    and floor_of :: "'s \<Rightarrow> 'f::linorder"
    and enforced :: "'s \<Rightarrow> 'f option"
    and step :: "'e \<Rightarrow> 's \<Rightarrow> 's"
    and allowed :: "'e \<Rightarrow> bool"
  assumes good_step: "good s \<Longrightarrow> allowed e \<Longrightarrow> good (step e s)"
    and floor_step: "good s \<Longrightarrow> allowed e \<Longrightarrow> floor_of s \<le> floor_of (step e s)"
    and enforced_step: "good s \<Longrightarrow> allowed e \<Longrightarrow> enforced (step e s) = Some n \<Longrightarrow>
      enforced s = Some n \<or> floor_of s \<le> n"
begin

lemma good_run: "good s \<Longrightarrow> list_all allowed es \<Longrightarrow> good (fold step es s)"
  by (induction es arbitrary: s) (simp_all add: good_step)

lemma floor_run: "good s \<Longrightarrow> list_all allowed es \<Longrightarrow> floor_of s \<le> floor_of (fold step es s)"
proof (induction es arbitrary: s)
  case (Cons e es)
  then have e: "allowed e" and es: "list_all allowed es" by simp_all
  have "floor_of s \<le> floor_of (step e s)" by (rule floor_step [OF Cons.prems(1) e])
  also have "\<dots> \<le> floor_of (fold step es (step e s))"
    by (rule Cons.IH [OF good_step [OF Cons.prems(1) e] es])
  finally show ?case by simp
qed simp

lemma no_rollback:
  assumes "good s" and "enforced s = Some m" and "m \<le> floor_of s" and "enforced (fold step es s) = Some n"
    and "list_all allowed es"
  shows "m \<le> n"
  using assms(4,5)
proof (induction es arbitrary: n rule: rev_induct)
  case Nil
  then show ?case using assms(2) by simp
next
  case (snoc e es)
  let ?s = "fold step es s"
  have run: "list_all allowed es" and e: "allowed e" using snoc.prems(2) by simp_all
  have "good ?s" by (rule good_run [OF assms(1) run])
  with snoc.prems e have "enforced ?s = Some n \<or> floor_of ?s \<le> n"
    using enforced_step by simp
  moreover have "m \<le> floor_of ?s"
    using assms(3) floor_run [OF assms(1) run] by simp
  ultimately show ?case using snoc.IH run by force
qed

end

text \<open>The life of the coordinator: refresh cycles, each with what the source served and how the state
  file answered, and restarts, each with whether the state file could be read then.\<close>

datatype policy_event = Refresh "bytes option" time cache_io | Restart time bool

fun policy_step :: "policy_env \<Rightarrow> verifier \<Rightarrow> policy_event \<Rightarrow> policy_proc \<Rightarrow> policy_proc" where
  "policy_step env v (Refresh fetched now io) pp = snd (refreshPolicyOnce env v io fetched now pp)"
| "policy_step env v (Restart now readable) pp = startPolicy env v now readable (pp_file pp)"

fun same_process :: "policy_event \<Rightarrow> bool" where
  "same_process (Refresh _ _ _) \<longleftrightarrow> True"
| "same_process (Restart _ _) \<longleftrightarrow> False"

fun reads_state :: "policy_event \<Rightarrow> bool" where
  "reads_state (Refresh _ _ _) \<longleftrightarrow> True"
| "reads_state (Restart _ readable) \<longleftrightarrow> readable"

fun keeps_state :: "policy_env \<Rightarrow> policy_event \<Rightarrow> bool" where
  "keeps_state env (Refresh None _ _) \<longleftrightarrow> True"
| "keeps_state env (Refresh (Some raw) _ io) \<longleftrightarrow> ci_write io \<and> pe_indent env raw \<noteq> None"
| "keeps_state env (Restart _ readable) \<longleftrightarrow> readable"

text \<open>The document of a bundle decodes the same whoever verifies it and when; and what the encoder
  makes of a bundle is the same bundle to the decoder.\<close>

definition bundle_policy :: "policy_env \<Rightarrow> bytes \<Rightarrow> policy option" where
  "bundle_policy env raw =
     (case ParseBundle env raw of
        Inl _ \<Rightarrow> None
      | Inr b \<Rightarrow> pe_policy env (take (length (b_Doc b) - sigLen) (b_Doc b)))"

definition indent_keeps :: "policy_env \<Rightarrow> bool" where
  "indent_keeps env \<longleftrightarrow> (\<forall>raw s. pe_indent env raw = Some s \<longrightarrow> pe_bundle env s = pe_bundle env raw)"

lemma indented_policy: "indent_keeps env \<Longrightarrow> pe_indent env raw = Some s \<Longrightarrow> bundle_policy env s = bundle_policy env raw"
  unfolding indent_keeps_def by (drule spec2, drule (1) mp) (simp add: bundle_policy_def ParseBundle_def)

lemma verified_bundle_policy:
  "ParseBundle env raw = Inr b \<Longrightarrow> verified env v b now m p \<Longrightarrow> bundle_policy env raw = Some p"
  by (auto simp: bundle_policy_def verified_def signed_by_def)

text \<open>A state file this code wrote; the process that holds no more than its floor; the process whose floor
  covers the file's; and the process whose floor is on file.\<close>

definition own_file :: "policy_env \<Rightarrow> cache_file \<Rightarrow> bool" where
  "own_file env file \<longleftrightarrow>
     (case file of
        CacheMissing \<Rightarrow> True
      | CacheFile f \<Rightarrow> cf_Version f = cacheVersion
          \<and> (\<forall>p. bundle_policy env (cf_Bundle f) = Some p \<longrightarrow> pl_Seq p \<le> cf_MinSeq f)
      | _ \<Rightarrow> False)"

definition disk_floor :: "policy_proc \<Rightarrow> uint64" where
  "disk_floor pp = fst (peek (pp_file pp))"

definition held_ok :: "policy_env \<Rightarrow> policy_proc \<Rightarrow> bool" where
  "held_ok env pp \<longleftrightarrow> own_file env (pp_file pp)
     \<and> (\<forall>p. g_held (pp_gate pp) = Some p \<longrightarrow> pl_Seq p \<le> pp_minSeq pp)"

definition on_file :: "policy_env \<Rightarrow> policy_proc \<Rightarrow> bool" where
  "on_file env pp \<longleftrightarrow> held_ok env pp \<and> disk_floor pp = pp_minSeq pp"

definition enforced_seq :: "policy_proc \<Rightarrow> uint64 option" where
  "enforced_seq pp = map_option pl_Seq (g_held (pp_gate pp))"

lemma refresh_failed:
  "fetched_policy env v fetched now (pp_minSeq pp) = None \<Longrightarrow>
    snd (refreshPolicyOnce env v io fetched now pp) = pp\<lparr>pp_gate := age_out now (pp_gate pp)\<rparr>"
  by (auto simp: refreshPolicyOnce_def fetched_policy_def Let_def split: option.splits sum.splits)

lemma refresh_ok:
  assumes "fetched_policy env v fetched now (pp_minSeq pp) = Some p"
  obtains raw where "fetched = Some raw" "bundle_policy env raw = Some p" "pp_minSeq pp \<le> pl_Seq p"
    "snd (refreshPolicyOnce env v io fetched now pp) =
      pp\<lparr>pp_gate := installPolicy p (age_out now (pp_gate pp)), pp_minSeq := pl_Seq p,
         pp_file := cache_Store env io raw (pl_Seq p) (pp_file pp)\<rparr>"
proof -
  obtain raw b where fetch: "fetched = Some raw" "ParseBundle env raw = Inr b"
    "verified env v b now (pp_minSeq pp) p"
    using fetched_policy_Some [OF assms(1)] by blast
  then have seq: "pp_minSeq pp \<le> pl_Seq p" by (simp add: verified_def)
  then have "snd (refreshPolicyOnce env v io fetched now pp) =
      pp\<lparr>pp_gate := installPolicy p (age_out now (pp_gate pp)), pp_minSeq := pl_Seq p,
         pp_file := cache_Store env io raw (pl_Seq p) (pp_file pp)\<rparr>"
    using fetch by (auto simp: refreshPolicyOnce_def Let_def policy_Verify_Inr [symmetric])
  with fetch seq that verified_bundle_policy show thesis by blast
qed

text \<open>A state file is replaced by one of ours with at least its floor, or kept.\<close>

lemma peek_read: "fst (peek (read_cache r f)) \<le> fst (peek f)"
  by (simp add: read_cache_def peek_def Let_def)

lemma Store_own:
  assumes "own_file env file" and "bundle_policy env raw = Some p" and "indent_keeps env"
  shows "own_file env (cache_Store env io raw (pl_Seq p) file)"
  using assms indented_policy [OF assms(3), of raw]
  by (auto simp: cache_Store_def own_file_def Let_def split: option.splits)

lemma Store_floor:
  assumes "fst (peek f) \<le> seq"
  shows "fst (peek (cache_Store env io raw seq f)) =
    (if ci_write io \<and> pe_indent env raw \<noteq> None then seq else fst (peek f))"
proof -
  have "\<not> seq < fst (peek (read_cache (ci_read io) f))"
    using peek_read [of "ci_read io" f] assms by simp
  then show ?thesis
    by (auto simp: cache_Store_def Let_def peek_def cacheVersion_def split: option.splits)
qed

lemma held_ok_refresh:
  assumes "held_ok env pp" and "indent_keeps env"
  shows "held_ok env (snd (refreshPolicyOnce env v io fetched now pp))"
proof (cases "fetched_policy env v fetched now (pp_minSeq pp)")
  case None
  with assms show ?thesis
    by (auto simp: refresh_failed held_ok_def age_out_held split: option.splits if_splits)
next
  case (Some p)
  then show ?thesis
    by (rule refresh_ok [where io = io]) (use assms Store_own in \<open>auto simp: held_ok_def installPolicy_def\<close>)
qed

lemma start_sel:
  "pp_minSeq (startPolicy env v now readable file) =
     (case read_cache readable file of CacheFile f \<Rightarrow> cf_MinSeq f | _ \<Rightarrow> 0)"
  "pp_file (startPolicy env v now readable file) = file"
  by (auto simp: startPolicy_def cache_Load_def case_prod_unfold split: sum.splits cache_file.splits)

lemma start_floor: "readable \<Longrightarrow> pp_minSeq (startPolicy env v now readable file) = fst (peek file)"
  by (simp add: start_sel read_cache_def peek_def Let_def split: cache_file.splits)

lemma start_held:
  assumes "g_held (pp_gate (startPolicy env v now readable file)) = Some p"
  obtains f where "file = CacheFile f" "readable" "bundle_policy env (cf_Bundle f) = Some p" "cf_MinSeq f \<le> pl_Seq p"
proof -
  obtain f b where f: "file = CacheFile f" "readable" "ParseBundle env (cf_Bundle f) = Inr b"
    "verified env v b now (cf_MinSeq f) p"
    using assms
    by (auto simp: startPolicy_def cache_Load_def read_cache_def Let_def case_prod_unfold policy_Verify_Inr
        split: cache_file.splits sum.splits if_splits)
  then show thesis
    using that verified_bundle_policy [OF f(3,4)] by (simp add: verified_def)
qed

lemma held_ok_start: "own_file env file \<Longrightarrow> held_ok env (startPolicy env v now readable file)"
  by (auto simp: held_ok_def start_sel own_file_def read_cache_def elim!: start_held)

lemma start_not_below: "g_held (pp_gate (startPolicy env v now readable file)) = Some p \<Longrightarrow> fst (peek file) \<le> pl_Seq p"
  by (erule start_held) (simp add: peek_def Let_def)

text \<open>Every event keeps a process with a file of its own in order, and changes what is in force only to
  something at or above the floor it goes by.\<close>

lemma held_ok_step: "held_ok env pp \<Longrightarrow> indent_keeps env \<Longrightarrow> held_ok env (policy_step env v e pp)"
  by (cases e) (simp_all add: held_ok_refresh held_ok_start held_ok_def [of _ pp])

lemma refresh_raises:
  "pp_minSeq pp \<le> pp_minSeq (snd (refreshPolicyOnce env v io fetched now pp))
    \<and> (enforced_seq (snd (refreshPolicyOnce env v io fetched now pp)) = Some n \<longrightarrow>
        enforced_seq pp = Some n \<or> pp_minSeq pp \<le> n)"
proof (cases "fetched_policy env v fetched now (pp_minSeq pp)")
  case None
  then show ?thesis
    by (auto simp: refresh_failed enforced_seq_def age_out_held split: option.splits if_splits)
next
  case (Some p)
  then show ?thesis
    by (rule refresh_ok [where io = io]) (auto simp: enforced_seq_def installPolicy_def)
qed

lemma disk_refresh:
  assumes "disk_floor pp \<le> pp_minSeq pp"
  shows "disk_floor pp \<le> disk_floor (snd (refreshPolicyOnce env v io fetched now pp))
    \<and> disk_floor (snd (refreshPolicyOnce env v io fetched now pp))
        \<le> pp_minSeq (snd (refreshPolicyOnce env v io fetched now pp))
    \<and> (keeps_state env (Refresh fetched now io) \<longrightarrow> disk_floor pp = pp_minSeq pp \<longrightarrow>
        disk_floor (snd (refreshPolicyOnce env v io fetched now pp)) =
          pp_minSeq (snd (refreshPolicyOnce env v io fetched now pp)))"
proof (cases "fetched_policy env v fetched now (pp_minSeq pp)")
  case None
  then show ?thesis using assms by (simp add: refresh_failed disk_floor_def)
next
  case (Some p)
  obtain raw where raw: "fetched = Some raw" "pp_minSeq pp \<le> pl_Seq p"
    "snd (refreshPolicyOnce env v io fetched now pp) =
      pp\<lparr>pp_gate := installPolicy p (age_out now (pp_gate pp)), pp_minSeq := pl_Seq p,
         pp_file := cache_Store env io raw (pl_Seq p) (pp_file pp)\<rparr>"
    by (rule refresh_ok [OF Some])
  have "fst (peek (pp_file pp)) \<le> pl_Seq p" using assms raw(2) by (simp add: disk_floor_def)
  then show ?thesis
    using assms raw(1,2) unfolding raw(3) by (simp add: disk_floor_def Store_floor)
qed

lemma on_file_step:
  assumes "on_file env pp" and "indent_keeps env" and "keeps_state env e"
  shows "on_file env (policy_step env v e pp)"
proof (cases e)
  case (Refresh fetched now io)
  then show ?thesis
    using assms disk_refresh [of pp env v io fetched now] held_ok_refresh [of env pp v io fetched now]
    by (simp add: on_file_def)
next
  case (Restart now readable)
  then show ?thesis
    using assms held_ok_step [of env pp v e] by (simp add: on_file_def disk_floor_def start_sel(2) start_floor)
qed

lemma on_file_run: "on_file env pp \<Longrightarrow> indent_keeps env \<Longrightarrow> list_all (keeps_state env) es \<Longrightarrow> on_file env (fold (policy_step env v) es pp)"
  by (induction es arbitrary: pp) (simp_all add: on_file_step)

text \<open>The floor in memory, for as long as the process runs.\<close>

interpretation policy_memory: floor_ratchet "\<lambda>_. True" pp_minSeq enforced_seq "policy_step env v" same_process
  for env v
proof unfold_locales
  fix pp e n
  assume "same_process e"
  then obtain fetched now io where "e = Refresh fetched now io" by (cases e) simp_all
  then show "pp_minSeq pp \<le> pp_minSeq (policy_step env v e pp)"
    "enforced_seq (policy_step env v e pp) = Some n \<Longrightarrow> enforced_seq pp = Some n \<or> pp_minSeq pp \<le> n"
    using refresh_raises [of pp env v io fetched now n] by simp_all
qed simp

text \<open>The floor on disk, whatever the writes, as long as a restart can read it.\<close>

interpretation policy_disk: floor_ratchet "\<lambda>pp. disk_floor pp \<le> pp_minSeq pp" disk_floor enforced_seq
    "policy_step env v" reads_state
  for env v
proof unfold_locales
  fix pp e n
  assume cover: "disk_floor pp \<le> pp_minSeq pp" and "reads_state e"
  have "disk_floor (policy_step env v e pp) \<le> pp_minSeq (policy_step env v e pp)
      \<and> disk_floor pp \<le> disk_floor (policy_step env v e pp)
      \<and> (enforced_seq (policy_step env v e pp) = Some n \<longrightarrow> enforced_seq pp = Some n \<or> disk_floor pp \<le> n)"
  proof (cases e)
    case (Refresh fetched now io)
    then show ?thesis
      using disk_refresh [OF cover, of env v io fetched now] refresh_raises [of pp env v io fetched now n] cover by auto
  next
    case (Restart now readable)
    with \<open>reads_state e\<close> have "readable" by simp
    then show ?thesis
      unfolding Restart by (auto simp: disk_floor_def start_sel(2) start_floor enforced_seq_def start_not_below)
  qed
  then show "disk_floor (policy_step env v e pp) \<le> pp_minSeq (policy_step env v e pp)"
    "disk_floor pp \<le> disk_floor (policy_step env v e pp)"
    "enforced_seq (policy_step env v e pp) = Some n \<Longrightarrow> enforced_seq pp = Some n \<or> disk_floor pp \<le> n"
    by blast+
qed

lemma held_ok_run: "held_ok env pp \<Longrightarrow> indent_keeps env \<Longrightarrow> held_ok env (fold (policy_step env v) es pp)"
  by (induction es arbitrary: pp) (simp_all add: held_ok_step)

text \<open>C1: A policy the coordinator enforces is never followed by one of a lower sequence number, even when
  the old one expired in between, whatever the source serves. Within one process this holds whether
  or not any write or read of the state file succeeds and whatever happened before. Across restarts it
  holds when every bundle fetched up to then could be written to the state file (the write went through,
  and the bytes are exactly one JSON value, so that the encoder takes them) and every restart, before
  and after, could read the file; later writes may fail. The hypothesis on the JSON encoder is that
  re-indenting a bundle does not change what it decodes to.\<close>

theorem policy_never_rolls_back:
  assumes "indent_keeps env"
    and "g_held (pp_gate (fold (policy_step env v) before (startPolicy env v start readable CacheMissing))) = Some p"
    and "g_held (pp_gate (fold (policy_step env v) (before @ after) (startPolicy env v start readable CacheMissing))) = Some q"
    and "list_all same_process after \<or> list_all (keeps_state env) before \<and> list_all reads_state after"
  shows "pl_Seq p \<le> pl_Seq q"
proof -
  let ?start = "startPolicy env v start readable CacheMissing"
  let ?s = "fold (policy_step env v) before ?start"
  have start: "held_ok env ?start" by (simp add: held_ok_start own_file_def)
  have held: "held_ok env ?s" by (rule held_ok_run [OF start assms(1)])
  have p: "enforced_seq ?s = Some (pl_Seq p)" and q: "enforced_seq (fold (policy_step env v) after ?s) = Some (pl_Seq q)"
    using assms(2,3) by (simp_all add: enforced_seq_def)
  have mem: "pl_Seq p \<le> pp_minSeq ?s" using held assms(2) by (simp add: held_ok_def)
  from assms(4) show ?thesis
  proof
    assume "list_all same_process after"
    then show ?thesis by (rule policy_memory.no_rollback [OF TrueI p mem q])
  next
    assume runs: "list_all (keeps_state env) before \<and> list_all reads_state after"
    have "on_file env ?start"
      using start by (simp add: on_file_def disk_floor_def start_sel peek_def Let_def read_cache_def)
    then have "on_file env ?s" using on_file_run assms(1) runs by blast
    then have disk: "disk_floor ?s = pp_minSeq ?s" by (simp add: on_file_def)
    show ?thesis
      by (rule policy_disk.no_rollback [OF _ p _ q]) (use disk mem runs in simp_all)
  qed
qed

section \<open>Concrete runs\<close>

definition demo_policy :: "byte \<Rightarrow> policy" where
  "demo_policy n =
     \<lparr>pl_Version = 1, pl_Seq = ucast n, pl_Issued = Some 0, pl_Expires = Some 100, pl_Grace = 50,
      pl_Note = [],
      pl_ServeFloor = \<lparr>MinMeasuredBps = 0, MinDeclaredQuotaBytes = 0, MinServingVersion = ''0.9.0''\<rparr>,
      pl_Backpressure = \<lparr>MinCountryHeadroomBps = 0, MinNodeHeadroomBps = 0\<rparr>,
      pl_Vouch = \<lparr>v_K = 2, v_Budget = 3, v_Period = 10, v_Tenure = 5, v_AdmitCapPerPeriod = 0\<rparr>,
      pl_Tiers = [\<lparr>t_Trust = ''stable'', t_Plan = ''basic'', t_SpeedCapBps = 0, t_Priority = 1,
        t_EndpointQuality = 0\<rparr>]\<rparr>"

definition demo_cert :: cert where
  "demo_cert = \<lparr>dc_Version = 1, dc_Serial = ''s'', dc_Role = ''policy'', dc_Pub = replicate 32 7,
     dc_NotBefore = 0, dc_NotAfter = 20, dc_Note = []\<rparr>"

text \<open>An environment whose bundles are one byte, the sequence number of the document; a second byte is
  one the stream decoder ignores and the encoder rejects.\<close>

definition demo_env :: policy_env where
  "demo_env =
     \<lparr>pe_verify = (\<lambda>_ _ _. True), pe_cert = (\<lambda>_. Some demo_cert),
      pe_policy = (\<lambda>body. case body of [] \<Rightarrow> None | n # _ \<Rightarrow> Some (demo_policy n)),
      pe_bundle = (\<lambda>raw. Some \<lparr>b_Doc = raw @ replicate 64 0, b_Cert = replicate 65 1\<rparr>),
      pe_indent = (\<lambda>raw. if length raw = 1 then Some raw else None)\<rparr>"

definition demo_verifier :: verifier where
  "demo_verifier = \<lparr>vf_rootPub = replicate 32 9, vf_revoked = (\<lambda>_. False)\<rparr>"

definition working :: cache_io where "working = \<lparr>ci_read = True, ci_write = True\<rparr>"

lemma demo_indent: "indent_keeps demo_env"
  by (simp add: indent_keeps_def demo_env_def)

lemma demo_policy_valid: "n = 1 \<or> n = 2 \<Longrightarrow> policy_Validate (demo_policy n) = None"
  by (simp add: policy_Validate_def demo_policy_def policy_Version_def trust_valid_def TrustStable_def
      checkServingVersion_def check_release_part_def go_simps, elim disjE, simp_all)

lemma demo_verify:
  "n = 1 \<or> n = 2 \<Longrightarrow> 0 \<le> now \<Longrightarrow> now < 20 \<Longrightarrow> m \<le> ucast n \<Longrightarrow>
    fetched_policy demo_env demo_verifier (Some (n # junk)) now m = Some (demo_policy n)"
  using demo_policy_valid [of n]
  by (simp add: fetched_policy_def ParseBundle_def policy_Verify_def VerifyDelegationCert_def ParseCert_def
      OpenSigned_def Let_def demo_env_def demo_verifier_def PublicKeySize_def sigLen_def
      delegation_Version_def RolePolicy_def demo_cert_def ClockSkew_def Issued_def Expires_def Deadline_def)
     (simp add: demo_policy_def)

lemma demo_start: "startPolicy demo_env demo_verifier now r CacheMissing =
    \<lparr>pp_gate = \<lparr>g_configured = True, g_held = None\<rparr>, pp_minSeq = 0, pp_file = CacheMissing\<rparr>"
  by (simp add: startPolicy_def cache_Load_def read_cache_def)

lemma demo_seq: "n = 1 \<or> n = 2 \<Longrightarrow> pl_Seq (demo_policy n) = ucast n"
  by (simp add: demo_policy_def)

lemma demo_refresh:
  assumes "n = 1 \<or> n = 2" and "0 \<le> now" and "now < 20" and "pp_minSeq pp \<le> ucast n"
  shows "snd (refreshPolicyOnce demo_env demo_verifier io (Some (n # junk)) now pp) =
    pp\<lparr>pp_gate := installPolicy (demo_policy n) (age_out now (pp_gate pp)), pp_minSeq := ucast n,
       pp_file := cache_Store demo_env io (n # junk) (ucast n) (pp_file pp)\<rparr>"
  by (rule refresh_ok [OF demo_verify [OF assms], where io = io]) (simp add: demo_seq [OF assms(1)])

lemmas demo_run = demo_refresh demo_start installPolicy_def age_out_def clearPolicy_def cache_Store_def peek_def
  read_cache_def working_def Let_def

lemma demo_first_refresh:
  "fold (policy_step demo_env demo_verifier) [Refresh (Some [1]) 1 working]
      (startPolicy demo_env demo_verifier 0 True CacheMissing) =
    \<lparr>pp_gate = \<lparr>g_configured = True, g_held = Some (demo_policy 1)\<rparr>, pp_minSeq = 1,
     pp_file = CacheFile \<lparr>cf_Version = cacheVersion, cf_MinSeq = 1, cf_Bundle = [1]\<rparr>\<rparr>"
  by (simp add: demo_run) (simp add: demo_env_def)

theorem policy_never_rolls_back_witness:
  "pl_Seq (demo_policy 1) \<le> pl_Seq (demo_policy 2)
    \<and> g_held (pp_gate (fold (policy_step demo_env demo_verifier)
        [Refresh (Some [1]) 1 working, Restart 2 True, Refresh (Some [2]) 3 working]
        (startPolicy demo_env demo_verifier 0 True CacheMissing))) = Some (demo_policy 2)"
proof
  show after: "g_held (pp_gate (fold (policy_step demo_env demo_verifier)
      [Refresh (Some [1]) 1 working, Restart 2 True, Refresh (Some [2]) 3 working]
      (startPolicy demo_env demo_verifier 0 True CacheMissing))) = Some (demo_policy 2)"
    unfolding fold_simps demo_first_refresh [unfolded fold_simps]
    by (simp add: refresh_gate demo_verify start_floor peek_def)
  show "pl_Seq (demo_policy 1) \<le> pl_Seq (demo_policy 2)"
  proof (rule policy_never_rolls_back [where before = "[Refresh (Some [1]) 1 working]"
        and after = "[Restart 2 True, Refresh (Some [2]) 3 working]"
        and env = demo_env and v = demo_verifier and start = 0 and readable = True])
    show "g_held (pp_gate (fold (policy_step demo_env demo_verifier) [Refresh (Some [1]) 1 working]
        (startPolicy demo_env demo_verifier 0 True CacheMissing))) = Some (demo_policy 1)"
      unfolding demo_first_refresh by simp
    show "g_held (pp_gate (fold (policy_step demo_env demo_verifier)
        ([Refresh (Some [1]) 1 working] @ [Restart 2 True, Refresh (Some [2]) 3 working])
        (startPolicy demo_env demo_verifier 0 True CacheMissing))) = Some (demo_policy 2)"
      using after by simp
  qed (simp_all add: demo_indent working_def, simp add: demo_env_def)
qed

text \<open>What the condition on the bytes is for: a bundle followed by anything at all verifies and is enforced,
  since the stream decoder reads the first value only, but never reaches the state file, since the
  encoder refuses bytes that are not one value. No write failed, no file is unreadable, and yet after
  a restart the generation before it is accepted again.\<close>

lemma trailing_bytes_lose_the_floor:
  "g_held (pp_gate (fold (policy_step demo_env demo_verifier) [Refresh (Some [2, 0]) 1 working]
      (startPolicy demo_env demo_verifier 0 True CacheMissing))) = Some (demo_policy 2)"
  "g_held (pp_gate (fold (policy_step demo_env demo_verifier)
      [Refresh (Some [2, 0]) 1 working, Restart 2 True, Refresh (Some [1]) 3 working]
      (startPolicy demo_env demo_verifier 0 True CacheMissing))) = Some (demo_policy 1)"
proof -
  have first: "policy_step demo_env demo_verifier (Refresh (Some [2, 0]) 1 working)
      (startPolicy demo_env demo_verifier 0 True CacheMissing) =
    \<lparr>pp_gate = \<lparr>g_configured = True, g_held = Some (demo_policy 2)\<rparr>, pp_minSeq = 2, pp_file = CacheMissing\<rparr>"
    by (simp add: demo_run) (simp add: demo_env_def)
  then show "g_held (pp_gate (fold (policy_step demo_env demo_verifier) [Refresh (Some [2, 0]) 1 working]
      (startPolicy demo_env demo_verifier 0 True CacheMissing))) = Some (demo_policy 2)" by simp
  show "g_held (pp_gate (fold (policy_step demo_env demo_verifier)
      [Refresh (Some [2, 0]) 1 working, Restart 2 True, Refresh (Some [1]) 3 working]
      (startPolicy demo_env demo_verifier 0 True CacheMissing))) = Some (demo_policy 1)"
    unfolding fold_simps first by (simp add: refresh_gate demo_verify demo_start)
qed

text \<open>the coordinator re-verifies a delegation only when a new bundle arrives. A policy
  installed under a certificate that has since expired stays enforced until the policy's own
  deadline when the source stops answering, although the verifier's documentation says that a
  policy never outlives the authorization of the key that signed it.\<close>

lemma held_policy_outlives_delegation:
  "\<exists>pp. fold (policy_step demo_env demo_verifier) [Refresh (Some [1]) 1 working]
        (startPolicy demo_env demo_verifier 0 True CacheMissing) = pp
    \<and> dc_NotAfter demo_cert \<le> 120
    \<and> VerifyDelegationCert (pe_verify demo_env) (pe_cert demo_env) (vf_rootPub demo_verifier)
        (replicate 65 1) RolePolicy 120 None = Inl DExpired
    \<and> g_held (pp_gate (snd (refreshPolicyOnce demo_env demo_verifier working None 120 pp))) = Some (demo_policy 1)
    \<and> policyAllowsAssignment (pp_gate (snd (refreshPolicyOnce demo_env demo_verifier working None 120 pp)))"
proof (intro exI conjI)
  show "fold (policy_step demo_env demo_verifier) [Refresh (Some [1]) 1 working]
      (startPolicy demo_env demo_verifier 0 True CacheMissing) =
    \<lparr>pp_gate = \<lparr>g_configured = True, g_held = Some (demo_policy 1)\<rparr>, pp_minSeq = 1,
     pp_file = CacheFile \<lparr>cf_Version = cacheVersion, cf_MinSeq = 1, cf_Bundle = [1]\<rparr>\<rparr>" (is "_ = ?pp")
    by (rule demo_first_refresh)
  show "dc_NotAfter demo_cert \<le> 120"
    by (simp add: demo_cert_def)
  show "VerifyDelegationCert (pe_verify demo_env) (pe_cert demo_env) (vf_rootPub demo_verifier)
        (replicate 65 1) RolePolicy 120 None = Inl DExpired"
    by (simp add: VerifyDelegationCert_def ParseCert_def OpenSigned_def Let_def demo_env_def
        demo_verifier_def PublicKeySize_def sigLen_def delegation_Version_def RolePolicy_def
        demo_cert_def ClockSkew_def)
  have "Deadline (demo_policy 1) = 150"
    by (simp add: Deadline_def Expires_def demo_policy_def)
  then show held: "g_held (pp_gate (snd (refreshPolicyOnce demo_env demo_verifier working None 120 ?pp))) =
      Some (demo_policy 1)"
    by (simp add: refreshPolicyOnce_def age_out_def)
  then show "policyAllowsAssignment (pp_gate (snd (refreshPolicyOnce demo_env demo_verifier working None 120 ?pp)))"
    by (simp add: policyAllowsAssignment_def)
qed

end
