(* ===== verification/Text.thy ===== *)
theory Text
  imports Prelude
begin

text \<open>
  The text helpers the wire formats use: \<open>strings.TrimSpace\<close> on UTF-8 bytes with the full list
  of Unicode white space, \<open>strings.HasPrefix\<close>, and the two base64 encodings of
  \<open>encoding/base64\<close> (\<open>RawURLEncoding\<close> and \<open>StdEncoding\<close>), whose decoders skip line breaks and
  ignore the unused bits of the last digit.
\<close>

section \<open>Trimming white space\<close>

definition char_byte :: "char \<Rightarrow> nat" where
  "char_byte c = of_char c"

lemma char_byte_less [simp]: "char_byte c < 256"
  using nat_of_char_less_256 [of c] by (simp add: char_byte_def)

text \<open>The UTF-8 encodings of the white space characters of \<open>unicode.IsSpace\<close>.\<close>

definition space_encodings :: "nat list list" where
  "space_encodings =
     [[9], [10], [11], [12], [13], [32], [194, 133], [194, 160], [225, 154, 128],
      [226, 128, 128], [226, 128, 129], [226, 128, 130], [226, 128, 131], [226, 128, 132],
      [226, 128, 133], [226, 128, 134], [226, 128, 135], [226, 128, 136], [226, 128, 137],
      [226, 128, 138], [226, 128, 168], [226, 128, 169], [226, 128, 175], [226, 129, 159],
      [227, 128, 128]]"

definition space_prefix :: "nat list list \<Rightarrow> string \<Rightarrow> nat" where
  "space_prefix encs s =
     (case filter (\<lambda>enc. take (length enc) (map char_byte s) = enc) encs of
        [] \<Rightarrow> 0
      | enc # _ \<Rightarrow> length enc)"

function trim_left :: "nat list list \<Rightarrow> string \<Rightarrow> string" where
  "trim_left encs s =
     (if s = [] \<or> space_prefix encs s = 0 then s else trim_left encs (drop (space_prefix encs s) s))"
  by pat_completeness auto

termination
  by (relation "measure (length \<circ> snd)") auto

declare trim_left.simps [simp del]

definition TrimSpace :: "string \<Rightarrow> string" where
  "TrimSpace s =
     rev (trim_left (map rev space_encodings) (rev (trim_left space_encodings s)))"

text \<open>A string of visible ASCII characters is left alone.\<close>

definition visible :: "char \<Rightarrow> bool" where
  "visible c \<longleftrightarrow> 33 \<le> char_byte c \<and> char_byte c \<le> 126"

lemma space_prefix_visible: "visible c \<Longrightarrow> space_prefix space_encodings (c # s) = 0"
  by (simp add: space_prefix_def space_encodings_def visible_def)

lemma space_suffix_visible: "visible c \<Longrightarrow> space_prefix (map rev space_encodings) (c # s) = 0"
  by (simp add: space_prefix_def space_encodings_def visible_def)

lemma trim_left_visible:
  assumes "list_all visible s"
  shows "trim_left space_encodings s = s" and "trim_left (map rev space_encodings) s = s"
  using assms
  by (cases s; subst trim_left.simps; simp add: space_prefix_visible space_suffix_visible)+

lemma TrimSpace_visible: "list_all visible s \<Longrightarrow> TrimSpace s = s"
  by (simp add: TrimSpace_def trim_left_visible list_all_rev)

section \<open>Prefixes\<close>

definition HasPrefix :: "string \<Rightarrow> string \<Rightarrow> bool" where
  "HasPrefix s p \<longleftrightarrow> take (length p) s = p"

lemma HasPrefix_append [simp]: "HasPrefix (p @ s) p"
  by (simp add: HasPrefix_def)

section \<open>Hexadecimal\<close>

definition hex_digit :: "nat \<Rightarrow> char" where
  "hex_digit n = (if n < 10 then char_of (n + 48) else char_of (n + 87))"

text \<open>\<open>hex.EncodeToString\<close>.\<close>

definition hex_encode :: "bytes \<Rightarrow> string" where
  "hex_encode b = concat (map (\<lambda>x. [hex_digit (unat x div 16), hex_digit (unat x mod 16)]) b)"

section \<open>Base64\<close>

text \<open>An alphabet is its last two digits; the first 62 are common.\<close>

type_synonym b64_alphabet = "char \<times> char"

definition url_alphabet :: b64_alphabet where "url_alphabet = (CHR ''-'', CHR ''_'')"

definition std_alphabet :: b64_alphabet where "std_alphabet = (CHR ''+'', CHR ''/'')"

definition b64_char :: "b64_alphabet \<Rightarrow> nat \<Rightarrow> char" where
  "b64_char alpha n =
     (if n < 26 then char_of (n + 65)
      else if n < 52 then char_of (n + 71)
      else if n < 62 then char_of (n - 4)
      else if n = 62 then fst alpha else snd alpha)"

definition b64_value :: "b64_alphabet \<Rightarrow> char \<Rightarrow> nat option" where
  "b64_value alpha c =
     (let n = char_byte c
      in if 65 \<le> n \<and> n \<le> 90 then Some (n - 65)
         else if 97 \<le> n \<and> n \<le> 122 then Some (n - 71)
         else if 48 \<le> n \<and> n \<le> 57 then Some (n + 4)
         else if c = fst alpha then Some 62
         else if c = snd alpha then Some 63
         else None)"

fun b64_digits :: "bytes \<Rightarrow> nat list" where
  "b64_digits [] = []"
| "b64_digits [x] = [unat x div 4, unat x mod 4 * 16]"
| "b64_digits [x, y] = [unat x div 4, unat x mod 4 * 16 + unat y div 16, unat y mod 16 * 4]"
| "b64_digits (x # y # z # rest) =
     unat x div 4 # (unat x mod 4 * 16 + unat y div 16) # (unat y mod 16 * 4 + unat z div 64)
       # unat z mod 64 # b64_digits rest"

fun b64_bytes :: "nat list \<Rightarrow> bytes option" where
  "b64_bytes [] = Some []"
| "b64_bytes [a] = None"
| "b64_bytes [a, b] = Some [of_nat (a * 4 + b div 16)]"
| "b64_bytes [a, b, c] = Some [of_nat (a * 4 + b div 16), of_nat (b mod 16 * 16 + c div 4)]"
| "b64_bytes (a # b # c # d # rest) =
     map_option (\<lambda>bs. of_nat (a * 4 + b div 16) # of_nat (b mod 16 * 16 + c div 4)
         # of_nat (c mod 4 * 64 + d) # bs) (b64_bytes rest)"

definition skip_breaks :: "string \<Rightarrow> string" where
  "skip_breaks s = filter (\<lambda>c. char_byte c \<noteq> 10 \<and> char_byte c \<noteq> 13) s"

definition raw_encode :: "b64_alphabet \<Rightarrow> bytes \<Rightarrow> string" where
  "raw_encode alpha b = map (b64_char alpha) (b64_digits b)"

definition raw_decode :: "b64_alphabet \<Rightarrow> string \<Rightarrow> bytes option" where
  "raw_decode alpha s = Option.bind (those (map (b64_value alpha) (skip_breaks s))) b64_bytes"

definition padding :: "nat \<Rightarrow> string" where
  "padding n = (if n mod 4 = 2 then ''=='' else if n mod 4 = 3 then ''='' else [])"

definition std_encode :: "bytes \<Rightarrow> string" where
  "std_encode b = raw_encode std_alphabet b @ padding (length (b64_digits b))"

definition strip_padding :: "string \<Rightarrow> string" where
  "strip_padding s =
     (if drop (length s - 2) s = ''=='' then take (length s - 2) s
      else if drop (length s - 1) s = ''='' then take (length s - 1) s
      else s)"

definition std_decode :: "string \<Rightarrow> bytes option" where
  "std_decode s =
     (let s = skip_breaks s
      in if length s mod 4 \<noteq> 0 then None
         else raw_decode std_alphabet (strip_padding s))"

lemma b64_digits_less: "list_all (\<lambda>n. n < 64) (b64_digits b)"
proof (induction b rule: b64_digits.induct)
  case (2 x)
  have "unat x < 256" using unat_less_exp [of x] by simp
  then show ?case by auto
next
  case (3 x y)
  have "unat x < 256" "unat y < 256" using unat_less_exp [of x] unat_less_exp [of y] by simp_all
  then show ?case by auto
next
  case (4 x y z rest)
  have "unat x < 256" "unat y < 256" "unat z < 256"
    using unat_less_exp [of x] unat_less_exp [of y] unat_less_exp [of z] by simp_all
  with 4 show ?case by auto
qed simp

lemma b64_regroup:
  fixes n m :: nat
  assumes "m < k" and "k * j = 256"
  shows "n div j * j + (n mod j * k + m) div k = n"
  using assms by (cases "k = 0") auto

lemma b64_first: "n div 4 * 4 + (n mod 4 * 16 + m div 16) div 16 = n" if "m < 256" for n m :: nat
  using that b64_regroup [of "m div 16" 16 4 n] by simp

lemma b64_second: "(n mod 4 * 16 + m div 16) mod 16 * 16 + (m mod 16 * 4 + l div 64) div 4 = m"
  if "m < 256" "l < 256" for n m l :: nat
  using that b64_regroup [of "l div 64" 4 16 m] by simp

lemma b64_third: "(m mod 16 * 4 + l div 64) mod 4 * 64 + l mod 64 = l" if "l < 256" for m l :: nat
  using that by simp

lemma b64_bytes_digits: "b64_bytes (b64_digits b) = Some b"
proof (induction b rule: b64_digits.induct)
  case (2 x)
  show ?case using b64_first [of 0 "unat x"] by simp
next
  case (3 x y)
  have "unat y < 256" using unat_less_exp [of y] by simp
  then show ?case using b64_first [of "unat y" "unat x"] b64_second [of "unat y" 0 "unat x"] by simp
next
  case (4 x y z rest)
  have "unat y < 256" "unat z < 256" using unat_less_exp [of y] unat_less_exp [of z] by simp_all
  with 4 show ?case
    using b64_first [of "unat y" "unat x"] b64_second [of "unat y" "unat z" "unat x"]
      b64_third [of "unat z" "unat y"] by simp
qed simp

definition alphabet_ok :: "b64_alphabet \<Rightarrow> bool" where
  "alphabet_ok alpha \<longleftrightarrow> alpha = url_alphabet \<or> alpha = std_alphabet"

lemma b64_char_less:
  assumes "n < 64" and "alphabet_ok alpha"
  shows "b64_value alpha (b64_char alpha n) = Some n" and "visible (b64_char alpha n)"
    and "b64_char alpha n \<noteq> CHR ''=''"
proof -
  have byte: "char_byte (char_of k) = k" if "k < 256" for k :: nat
    using that by (simp add: char_byte_def)
  consider "n < 26" | "26 \<le> n" "n < 52" | "52 \<le> n" "n < 62" | "n = 62" | "n = 63"
    using assms(1) by linarith
  then show "b64_value alpha (b64_char alpha n) = Some n" "visible (b64_char alpha n)"
      "b64_char alpha n \<noteq> CHR ''=''"
    using assms(2)
    by (cases; auto simp: b64_char_def b64_value_def byte visible_def Let_def alphabet_ok_def
        url_alphabet_def std_alphabet_def char_byte_def dest: arg_cong [where f = char_byte])+
qed

lemma raw_encode_visible: "alphabet_ok alpha \<Longrightarrow> list_all visible (raw_encode alpha b)"
  using b64_digits_less [of b] b64_char_less(2) by (auto simp: raw_encode_def list_all_iff)

lemma skip_breaks_visible: "list_all visible s \<Longrightarrow> skip_breaks s = s"
  by (auto simp: skip_breaks_def list_all_iff visible_def intro!: filter_True)

lemma those_map_Some: "\<forall>x \<in> set xs. f (g x) = Some x \<Longrightarrow> those (map f (map g xs)) = Some xs"
  by (induction xs) auto

lemma raw_decode_encode [simp]:
  assumes "alphabet_ok alpha"
  shows "raw_decode alpha (raw_encode alpha b) = Some b"
proof -
  have "those (map (b64_value alpha) (raw_encode alpha b)) = Some (b64_digits b)"
    unfolding raw_encode_def
    using b64_digits_less [of b] b64_char_less(1) [OF _ assms]
    by (intro those_map_Some) (auto simp: list_all_iff)
  then show ?thesis
    using raw_encode_visible [OF assms, of b] by (simp add: raw_decode_def skip_breaks_visible b64_bytes_digits)
qed

lemma length_b64_digits: "length (b64_digits b) mod 4 \<in> {0, 2, 3}"
  by (induction b rule: b64_digits.induct) simp_all

lemma raw_encode_no_pad: "alphabet_ok alpha \<Longrightarrow> CHR ''='' \<notin> set (raw_encode alpha b)"
  using b64_digits_less [of b] b64_char_less(3) [of _ alpha]
  by (auto simp: raw_encode_def list_all_iff image_iff dest: sym)

lemma drop_suffix_pad:
  assumes "CHR ''='' \<notin> set s" and "drop (length s - n) s = replicate n CHR ''=''"
  shows "n = 0"
  using assms in_set_dropD [of "CHR ''=''" "length s - n" s] by (cases n) auto

lemma strip_padding_append:
  assumes "CHR ''='' \<notin> set s"
  shows "strip_padding (s @ padding n) = s"
proof -
  have "replicate 2 CHR ''='' = ''==''" "replicate 1 CHR ''='' = ''=''"
    by (simp_all add: numeral_2_eq_2)
  then have "drop (length s - 2) s \<noteq> ''==''" "drop (length s - 1) s \<noteq> ''=''"
    using drop_suffix_pad [OF assms, of 2] drop_suffix_pad [OF assms, of 1] by (metis zero_neq_numeral zero_neq_one)+
  moreover have "drop (Suc (length s) - 2) (s @ ''='') \<noteq> ''==''"
    using assms by (cases s rule: rev_cases) auto
  ultimately show ?thesis by (simp add: strip_padding_def padding_def)
qed

lemma std_decode_encode [simp]: "std_decode (std_encode b) = Some b"
proof -
  let ?e = "raw_encode std_alphabet b"
  have ok: "alphabet_ok std_alphabet" by (simp add: alphabet_ok_def)
  have len: "length ?e = length (b64_digits b)" by (simp add: raw_encode_def)
  have "list_all visible (std_encode b)"
    using raw_encode_visible [OF ok, of b]
    by (auto simp: std_encode_def padding_def visible_def char_byte_def)
  moreover have "length (std_encode b) mod 4 = 0"
    using length_b64_digits [of b] len by (auto simp: std_encode_def padding_def mod_Suc)
  ultimately show ?thesis
    using strip_padding_append [OF raw_encode_no_pad [OF ok]] ok
    by (simp add: std_decode_def skip_breaks_visible) (simp add: std_encode_def)
qed

end
