(* ===== verification/Geoip.thy ===== *)
theory Geoip
  imports Text
begin

text \<open>
  Country tags: \<open>Canonical\<close> of \<open>core/geoip/geoip.go\<close>, through which every country tag of the
  system passes. \<open>strings.ToUpper\<close> is exact on ASCII; on a string with a non-ASCII byte it is the
  Unicode mapping, the parameter \<open>up\<close>.
\<close>

section \<open>Upper case\<close>

definition is_ascii :: "char \<Rightarrow> bool" where
  "is_ascii c \<longleftrightarrow> char_byte c < 128"

definition ascii_upper :: "char \<Rightarrow> char" where
  "ascii_upper c =
     (if 97 \<le> char_byte c \<and> char_byte c \<le> 122 then char_of (char_byte c - 32) else c)"

text \<open>The two runes outside ASCII whose upper case is an ASCII letter: U+0131 and U+017F.\<close>

definition dotless_i :: string where
  "dotless_i = [char_of (196 :: nat), char_of (177 :: nat)]"

definition long_s :: string where
  "long_s = [char_of (197 :: nat), char_of (191 :: nat)]"

definition ToUpper :: "(string \<Rightarrow> string) \<Rightarrow> string \<Rightarrow> string" where
  "ToUpper up s =
     (if list_all is_ascii s then map ascii_upper s
      else if s = dotless_i then ''I''
      else if s = long_s then ''S''
      else up s)"

section \<open>Canonical country tags\<close>

definition is_upper_letter :: "char \<Rightarrow> bool" where
  "is_upper_letter c \<longleftrightarrow> 65 \<le> char_byte c \<and> char_byte c \<le> 90"

definition Canonical :: "(string \<Rightarrow> string) \<Rightarrow> string \<Rightarrow> string" where
  "Canonical up cc =
     (let cc = TrimSpace cc
      in if length cc \<noteq> 2 then []
         else
           (let out = ToUpper up cc
            in if list_all is_upper_letter out then out else []))"

definition countryUnknown :: string where
  "countryUnknown = []"

lemma Canonical_letters: "list_all is_upper_letter (Canonical up cc)"
  by (simp add: Canonical_def Let_def)

lemma Canonical_ascii_length:
  assumes "list_all is_ascii (TrimSpace cc)"
  shows "Canonical up cc = [] \<or> length (Canonical up cc) = 2"
  using assms by (auto simp: Canonical_def Let_def ToUpper_def)

lemma TrimSpace_letters: "list_all is_upper_letter s \<Longrightarrow> TrimSpace s = s"
  by (rule TrimSpace_visible) (auto simp: list_all_iff is_upper_letter_def visible_def)

lemma ascii_upper_letter: "is_upper_letter c \<Longrightarrow> ascii_upper c = c \<and> is_ascii c"
  by (auto simp: is_upper_letter_def ascii_upper_def is_ascii_def)

lemma Canonical_fixed:
  assumes "list_all is_upper_letter s" and "length s = 2"
  shows "Canonical up s = s"
proof -
  have "list_all is_ascii s" "map ascii_upper s = s"
    using assms(1) ascii_upper_letter by (auto simp: list_all_iff intro!: map_idI)
  with assms show ?thesis
    by (simp add: Canonical_def TrimSpace_letters ToUpper_def)
qed

text \<open>A tag of ASCII characters is canonicalized to two upper-case ASCII letters or to the
  empty tag, and canonicalizing again changes nothing.\<close>

lemma canonical_ascii_tags:
  assumes "list_all is_ascii (TrimSpace cc)"
  shows "(Canonical up cc = [] \<or> length (Canonical up cc) = 2 \<and> list_all is_upper_letter (Canonical up cc))
    \<and> Canonical up (Canonical up cc) = Canonical up cc"
proof -
  have "Canonical up [] = []"
    by (simp add: Canonical_def TrimSpace_def trim_left.simps)
  then show ?thesis
    using Canonical_ascii_length [OF assms, of up] Canonical_letters [of up cc] Canonical_fixed by auto
qed

text \<open>Outside ASCII the two-letter promise fails. The two-byte encoding of the dotless i,
  U+0131, whose upper case is the letter I, passes the length check and canonicalizes to the
  one-letter tag I.\<close>

lemma canonical_dotless_i: "Canonical up dotless_i = ''I''"
  by (simp add: Canonical_def TrimSpace_def trim_left.simps space_prefix_def space_encodings_def
      char_byte_def ToUpper_def is_ascii_def is_upper_letter_def dotless_i_def)

end
