(* ===== verification/Country.thy ===== *)
theory Country
  imports Geoip "HOL-Library.AList"
begin

text \<open>
  Where the coordinator places a node: \<open>cmd/coordinator/geo.go\<close>. The tag is derived from the
  observed source address, falls back to the node's own claim unless that is switched off, is
  qualified for exits by the endpoint they advertise, and may be replaced by an operator override.
  The database lookup, \<open>net.ParseIP\<close> and \<open>net.SplitHostPort\<close> are parameters of the environment.
\<close>

text \<open>A UDP address: its IP in the shortest form and its \<open>String()\<close>, by which addresses are compared.\<close>

record udp_addr =
  ua_IP :: bytes
  ua_String :: string

record geo_env =
  ge_up :: "string \<Rightarrow> string"
  ge_lookup :: "bytes \<Rightarrow> string option"
  ge_parseIP :: "string \<Rightarrow> bytes option"
  ge_splitHost :: "string \<Rightarrow> string option"
  ge_require :: bool
  ge_overrides :: "(string \<rightharpoonup> string) option"

definition countryObserved :: string where "countryObserved = ''observed''"

definition countryHinted :: string where "countryHinted = ''hint''"

definition countrySplit :: string where "countrySplit = ''observed-signaling-only''"

definition countryNoEndpoint :: string where "countryNoEndpoint = ''unverifiable-no-endpoint''"

definition countryOverride :: string where "countryOverride = ''admin-override''"

lemmas country_sources = countryObserved_def countryHinted_def countrySplit_def countryNoEndpoint_def
  countryOverride_def countryUnknown_def

record country_claims =
  cl_derived :: string
  cl_source :: string
  cl_declared :: string
  cl_displaced :: string

definition derivedCountry :: "geo_env \<Rightarrow> udp_addr option \<Rightarrow> string \<Rightarrow> country_claims" where
  "derivedCountry g src hint =
     (let c = \<lparr>cl_derived = [], cl_source = [], cl_declared = Canonical (ge_up g) hint, cl_displaced = []\<rparr>;
          observed = (case src of
              None \<Rightarrow> []
            | Some a \<Rightarrow> (case ge_lookup g (ua_IP a) of None \<Rightarrow> [] | Some cc \<Rightarrow> Canonical (ge_up g) cc))
      in if observed \<noteq> [] then c\<lparr>cl_derived := observed, cl_source := countryObserved\<rparr>
         else if ge_require g then c
         else if cl_declared c \<noteq> [] then c\<lparr>cl_derived := cl_declared c, cl_source := countryHinted\<rparr>
         else c)"

definition countryOverrideFor :: "geo_env \<Rightarrow> string \<Rightarrow> string" where
  "countryOverrideFor g nd =
     (case ge_overrides g of
        None \<Rightarrow> []
      | Some m \<Rightarrow> (case m nd of None \<Rightarrow> [] | Some cc \<Rightarrow> cc))"

definition applyCountryOverride :: "geo_env \<Rightarrow> string \<Rightarrow> country_claims \<Rightarrow> country_claims" where
  "applyCountryOverride g nd c =
     (let cc = countryOverrideFor g nd
      in if cc = [] then c
         else c\<lparr>cl_displaced := cl_source c, cl_derived := cc, cl_source := countryOverride\<rparr>)"

datatype endpoint_verdict = endpointAgrees | endpointDisagrees | endpointAbsent

definition exitEndpoint :: "geo_env \<Rightarrow> string \<Rightarrow> udp_addr option \<Rightarrow> endpoint_verdict" where
  "exitEndpoint g advertised src =
     (if advertised = [] then endpointAbsent
      else case src of
             None \<Rightarrow> endpointAbsent
           | Some a \<Rightarrow>
               (let host = (case ge_splitHost g advertised of Some h \<Rightarrow> h | None \<Rightarrow> advertised)
                in case ge_parseIP g (TrimSpace host) of
                     None \<Rightarrow> endpointDisagrees
                   | Some ip \<Rightarrow> if ip = ua_IP a then endpointAgrees else endpointDisagrees))"

definition derivedExitCountry :: "geo_env \<Rightarrow> udp_addr option \<Rightarrow> string \<Rightarrow> string \<Rightarrow> country_claims" where
  "derivedExitCountry g src hint advertised =
     (let c = derivedCountry g src hint
      in if cl_source c \<noteq> countryObserved then c
         else case exitEndpoint g advertised src of
                endpointAgrees \<Rightarrow> c
              | endpointAbsent \<Rightarrow>
                  if ge_require g then c\<lparr>cl_derived := countryUnknown, cl_source := countryNoEndpoint\<rparr> else c
              | endpointDisagrees \<Rightarrow>
                  (let c = (if ge_require g then c\<lparr>cl_derived := countryUnknown\<rparr> else c)
                   in c\<lparr>cl_source := countrySplit\<rparr>))"

definition deriveCountry :: "geo_env \<Rightarrow> string \<Rightarrow> udp_addr option \<Rightarrow> string \<Rightarrow> country_claims" where
  "deriveCountry g nd src hint = applyCountryOverride g nd (derivedCountry g src hint)"

definition deriveExitCountry :: "geo_env \<Rightarrow> string \<Rightarrow> udp_addr option \<Rightarrow> string \<Rightarrow> string \<Rightarrow> country_claims" where
  "deriveExitCountry g nd src hint advertised = applyCountryOverride g nd (derivedExitCountry g src hint advertised)"

definition rederiveHint :: "country_claims \<Rightarrow> string" where
  "rederiveHint stored = (if cl_source stored = countryHinted then cl_derived stored else [])"

definition rederiveCountry :: "geo_env \<Rightarrow> string \<Rightarrow> udp_addr option \<Rightarrow> country_claims \<Rightarrow> country_claims" where
  "rederiveCountry g nd src stored =
     (deriveCountry g nd src (rederiveHint stored))\<lparr>cl_declared := cl_declared stored\<rparr>"

definition rederiveExitCountry ::
    "geo_env \<Rightarrow> string \<Rightarrow> udp_addr option \<Rightarrow> string \<Rightarrow> country_claims \<Rightarrow> country_claims" where
  "rederiveExitCountry g nd src advertised stored =
     (deriveExitCountry g nd src (rederiveHint stored) advertised)\<lparr>cl_declared := cl_declared stored\<rparr>"

definition publishedDeclaration :: "geo_env \<Rightarrow> string \<Rightarrow> string" where
  "publishedDeclaration g declared = (if ge_require g then [] else declared)"

section \<open>Overrides (loadCountryOverrides)\<close>

datatype override_error = OvRead | OvParse | OvEmptyID | OvBadCountry string string

datatype override_file = OvMissing | OvUnreadable | OvUnparseable | OvFile "(string \<times> string) list"

fun check_overrides :: "(string \<Rightarrow> string) \<Rightarrow> (string \<times> string) list \<Rightarrow> override_error + (string \<rightharpoonup> string)" where
  "check_overrides up [] = Inr Map.empty"
| "check_overrides up ((nd, cc) # rest) =
     (if TrimSpace nd = [] then Inl OvEmptyID
      else if Canonical up cc = [] then Inl (OvBadCountry nd cc)
      else case check_overrides up rest of
             Inl err \<Rightarrow> Inl err
           | Inr m \<Rightarrow> Inr (m(nd \<mapsto> Canonical up cc)))"

definition loadCountryOverrides ::
    "(string \<Rightarrow> string) \<Rightarrow> string \<Rightarrow> override_file \<Rightarrow> override_error + (string \<rightharpoonup> string)" where
  "loadCountryOverrides up path f =
     (if path = [] then Inr Map.empty
      else case f of
             OvMissing \<Rightarrow> Inr Map.empty
           | OvUnreadable \<Rightarrow> Inl OvRead
           | OvUnparseable \<Rightarrow> Inl OvParse
           | OvFile raw \<Rightarrow> check_overrides up raw)"

text \<open>\<open>reloadCountryOverrides\<close>: a file that is refused leaves the overrides in force.\<close>

definition reloadCountryOverrides :: "string \<Rightarrow> override_file \<Rightarrow> geo_env \<Rightarrow> geo_env" where
  "reloadCountryOverrides path f g =
     (case loadCountryOverrides (ge_up g) path f of
        Inl _ \<Rightarrow> g
      | Inr next_map \<Rightarrow>
          if next_map = (case ge_overrides g of None \<Rightarrow> Map.empty | Some m \<Rightarrow> m) then g
          else g\<lparr>ge_overrides := Some next_map\<rparr>)"

section \<open>What decides a country\<close>

definition observed_country :: "geo_env \<Rightarrow> udp_addr option \<Rightarrow> string" where
  "observed_country g src =
     (case src of
        None \<Rightarrow> []
      | Some a \<Rightarrow> (case ge_lookup g (ua_IP a) of None \<Rightarrow> [] | Some cc \<Rightarrow> Canonical (ge_up g) cc))"

lemma derivedCountry_cases:
  "derivedCountry g src hint =
    (if observed_country g src \<noteq> []
     then \<lparr>cl_derived = observed_country g src, cl_source = countryObserved,
           cl_declared = Canonical (ge_up g) hint, cl_displaced = []\<rparr>
     else if ge_require g \<or> Canonical (ge_up g) hint = []
     then \<lparr>cl_derived = [], cl_source = [], cl_declared = Canonical (ge_up g) hint, cl_displaced = []\<rparr>
     else \<lparr>cl_derived = Canonical (ge_up g) hint, cl_source = countryHinted,
           cl_declared = Canonical (ge_up g) hint, cl_displaced = []\<rparr>)"
  by (simp add: derivedCountry_def observed_country_def Let_def)

text \<open>under \<open>-geoip-required\<close>, and with no operator override for it, an exit has a country
  exactly when the database places the address it registers from and the endpoint it advertises is
  that very address, and the country is then the database's: nothing the exit claims decides it.\<close>

lemma required_geoip_trusts_no_claim:
  assumes "ge_require g" and "countryOverrideFor g nd = []"
  shows "cl_derived (deriveExitCountry g nd src hint advertised) =
    (if exitEndpoint g advertised src = endpointAgrees then observed_country g src else [])"
  using assms
  by (auto simp: deriveExitCountry_def applyCountryOverride_def derivedExitCountry_def Let_def derivedCountry_cases
      country_sources split: endpoint_verdict.splits)

text \<open>a heartbeat from the address a node registered from, with the database and the overrides
  unchanged, keeps the country, its provenance and the node's declaration as they were; what a
  database once observed is never recycled as a claim.\<close>

lemma heartbeat_keeps_country:
  assumes "list_all is_ascii (TrimSpace hint)" and c: "c = deriveExitCountry g nd src hint advertised"
  shows "cl_derived (rederiveExitCountry g nd src advertised c) = cl_derived c
    \<and> cl_source (rederiveExitCountry g nd src advertised c) = cl_source c
    \<and> cl_declared (rederiveExitCountry g nd src advertised c) = cl_declared c"
proof -
  let ?cc = "Canonical (ge_up g) hint"
  have again: "Canonical (ge_up g) ?cc = ?cc" and empty: "Canonical (ge_up g) [] = []"
    using canonical_ascii_tags [OF assms(1), of "ge_up g"]
    by (simp_all add: Canonical_def TrimSpace_def trim_left.simps)
  consider (override) "countryOverrideFor g nd \<noteq> []"
    | (plain) "countryOverrideFor g nd = []" by blast
  then show ?thesis
  proof cases
    case override
    then show ?thesis
      unfolding c
      by (simp add: rederiveExitCountry_def deriveExitCountry_def applyCountryOverride_def Let_def)
  next
    case plain
    then show ?thesis
      unfolding c
      by (auto simp: rederiveExitCountry_def deriveExitCountry_def applyCountryOverride_def Let_def
          rederiveHint_def derivedExitCountry_def derivedCountry_cases again empty country_sources
          split: endpoint_verdict.splits)
  qed
qed

definition demo_geo :: "bool \<Rightarrow> geo_env" where
  "demo_geo req =
     \<lparr>ge_up = (\<lambda>s. s), ge_lookup = (\<lambda>ip. if ip = [192, 0, 2, 1] then Some ''NL'' else None),
      ge_parseIP = (\<lambda>s. if s = ''192.0.2.1'' then Some [192, 0, 2, 1] else None),
      ge_splitHost = (\<lambda>_. Some ''192.0.2.1''), ge_require = req, ge_overrides = None\<rparr>"

definition demo_addr :: udp_addr where
  "demo_addr = \<lparr>ua_IP = [192, 0, 2, 1], ua_String = ''192.0.2.1:4000''\<rparr>"

lemma demo_host: "TrimSpace ''192.0.2.1'' = ''192.0.2.1''"
  by (rule TrimSpace_visible) (simp add: visible_def char_byte_def)

lemma demo_tags: "Canonical up ''NL'' = ''NL''" "Canonical up ''DE'' = ''DE''"
  by (rule Canonical_fixed; simp add: is_upper_letter_def char_byte_def)+

end
