(* ===== verification/Admission.thy ===== *)
theory Admission
  imports Text Delegation "HOL-Library.Char_ord" "HOL-Library.List_Lexorder"
begin

text \<open>
  Network membership: \<open>core/admission\<close>. Credentials and their checks (\<open>credential.go\<close>,
  \<open>verify.go\<close>), the revocation list of the coordinator, and the signed revocation bundle a client
  carries (\<open>crl.go\<close>). The signature check, the signer and the JSON codecs are parameters.
\<close>

section \<open>Credentials (credential.go)\<close>

definition RoleClient :: string where "RoleClient = ''client''"

definition RoleRelay :: string where "RoleRelay = ''relay''"

definition RoleExit :: string where "RoleExit = ''exit''"

definition AllRoles :: "string list" where
  "AllRoles = [RoleClient, RoleRelay, RoleExit]"

definition admission_Known :: "string \<Rightarrow> bool" where
  "admission_Known r \<longleftrightarrow> r \<in> set AllRoles"

definition CredentialVersion :: int where "CredentialVersion = 1"

record credential =
  cr_Version :: int
  cr_Serial :: string
  cr_Subject :: string
  cr_Roles :: "string list"
  cr_NotBefore :: time
  cr_NotAfter :: time
  cr_Note :: string
  cr_Vouched :: bool
  cr_Trust :: string
  cr_Plan :: string

definition zero_credential :: credential where
  "zero_credential =
     \<lparr>cr_Version = 0, cr_Serial = [], cr_Subject = [], cr_Roles = [], cr_NotBefore = zero_time,
      cr_NotAfter = zero_time, cr_Note = [], cr_Vouched = False, cr_Trust = [], cr_Plan = []\<rparr>"

datatype admission_error =
  AMalformed | ABadSignature | AUnsupportedVersion int | ANotYetValid | AExpired | ARoleNotAuthorized
| ASubjectMismatch | ARevoked | ANoAuthorityForRole string

record crl =
  crl_Version :: int
  crl_IssuedAt :: time
  crl_ExpiresAt :: time
  crl_Serials :: "string list"

record admission_env =
  ae_verify :: "bytes \<Rightarrow> bytes \<Rightarrow> bytes \<Rightarrow> bool"
  ae_sign :: "bytes \<Rightarrow> bytes \<Rightarrow> bytes"
  ae_cred :: "bytes \<Rightarrow> credential option"
  ae_put_cred :: "credential \<Rightarrow> bytes"
  ae_crl :: "bytes \<Rightarrow> crl option"
  ae_put_crl :: "crl \<Rightarrow> bytes"

definition IsVouched :: "credential \<Rightarrow> bool" where
  "IsVouched c = cr_Vouched c"

definition HasRole :: "credential \<Rightarrow> string \<Rightarrow> bool" where
  "HasRole c want = list_ex (\<lambda>r. r = want) (cr_Roles c)"

definition Sign_credential :: "admission_env \<Rightarrow> bytes \<Rightarrow> credential \<Rightarrow> bytes" where
  "Sign_credential env priv c = (let body = ae_put_cred env c in body @ ae_sign env priv body)"

definition parse_credential :: "admission_env \<Rightarrow> bytes \<Rightarrow> bytes \<Rightarrow> admission_error + credential" where
  "parse_credential env pub signed_bytes =
     (if length pub \<noteq> PublicKeySize then Inl AMalformed
      else if length signed_bytes \<le> sigLen then Inl AMalformed
      else
        (let body = take (length signed_bytes - sigLen) signed_bytes;
             sig = drop (length signed_bytes - sigLen) signed_bytes
         in if \<not> ae_verify env pub body sig then Inl ABadSignature
            else case ae_cred env body of
                   None \<Rightarrow> Inl AMalformed
                 | Some c \<Rightarrow>
                     if cr_Version c \<noteq> CredentialVersion then Inl (AUnsupportedVersion (cr_Version c))
                     else Inr c))"

definition credPrefix :: string where "credPrefix = ''bacchusc1:''"

definition Encode_credential :: "bytes \<Rightarrow> string" where
  "Encode_credential signed_bytes = credPrefix @ raw_encode url_alphabet signed_bytes"

definition Decode_credential :: "string \<Rightarrow> admission_error + bytes" where
  "Decode_credential s =
     (let s = TrimSpace s
      in if \<not> HasPrefix s credPrefix then Inl AMalformed
         else case raw_decode url_alphabet (drop (length credPrefix) s) of
                None \<Rightarrow> Inl AMalformed
              | Some b \<Rightarrow> Inr b)"

text \<open>\<open>Issue\<close>, with the serial \<open>newSerial\<close> drew; \<open>None\<close> is the error for an empty role list.\<close>

definition Issue ::
    "admission_env \<Rightarrow> bytes \<Rightarrow> string \<Rightarrow> string \<Rightarrow> string list \<Rightarrow> time \<Rightarrow> time \<Rightarrow> string
      \<Rightarrow> (credential \<times> string) option" where
  "Issue env priv serial subject roles notBefore notAfter note =
     (if roles = [] then None
      else
        (let c = zero_credential\<lparr>cr_Version := CredentialVersion, cr_Serial := serial, cr_Subject := subject,
               cr_Roles := roles, cr_NotBefore := notBefore, cr_NotAfter := notAfter, cr_Note := note\<rparr>
         in Some (c, Encode_credential (Sign_credential env priv c))))"

section \<open>The verifier (verify.go)\<close>

record authority =
  au_Pub :: bytes
  au_Roles :: "string list"

definition admits :: "authority \<Rightarrow> string \<Rightarrow> bool" where
  "admits a want = list_ex (\<lambda>r. r = want) (au_Roles a)"

record admission_verifier =
  av_authorities :: "authority list"
  av_revoked :: "string \<Rightarrow> bool"

definition revokedOrNothing :: "(string \<Rightarrow> bool) option \<Rightarrow> string \<Rightarrow> bool" where
  "revokedOrNothing revoked = (case revoked of None \<Rightarrow> (\<lambda>_. False) | Some f \<Rightarrow> f)"

definition NewVerifier_admission :: "bytes \<Rightarrow> (string \<Rightarrow> bool) option \<Rightarrow> admission_verifier" where
  "NewVerifier_admission pub revoked =
     \<lparr>av_authorities = [\<lparr>au_Pub = pub, au_Roles = AllRoles\<rparr>], av_revoked = revokedOrNothing revoked\<rparr>"

datatype authority_error =
  NoAuthorities | BadKeyLength nat | NoRoles nat | UnknownRole nat string | DuplicateKey nat nat

fun first_unknown :: "string list \<Rightarrow> string option" where
  "first_unknown [] = None"
| "first_unknown (r # rs) = (if admission_Known r then first_unknown rs else Some r)"

text \<open>The loop over the authorities: \<open>i\<close> is the index and \<open>seen\<close> the keys already anchored.\<close>

fun anchor_loop :: "nat \<Rightarrow> (bytes \<times> nat) list \<Rightarrow> authority list \<Rightarrow> authority_error + authority list" where
  "anchor_loop i seen [] = Inr []"
| "anchor_loop i seen (a # as) =
     (if length (au_Pub a) \<noteq> PublicKeySize then Inl (BadKeyLength (i + 1))
      else if au_Roles a = [] then Inl (NoRoles (i + 1))
      else case first_unknown (au_Roles a) of
             Some r \<Rightarrow> Inl (UnknownRole (i + 1) r)
           | None \<Rightarrow>
               (case map_of seen (au_Pub a) of
                  Some first \<Rightarrow> Inl (DuplicateKey (i + 1) (first + 1))
                | None \<Rightarrow>
                    (case anchor_loop (i + 1) ((au_Pub a, i) # seen) as of
                       Inl err \<Rightarrow> Inl err
                     | Inr rest \<Rightarrow> Inr (a # rest))))"

definition NewAuthoritySetVerifier ::
    "authority list \<Rightarrow> (string \<Rightarrow> bool) option \<Rightarrow> authority_error + admission_verifier" where
  "NewAuthoritySetVerifier authorities revoked =
     (if authorities = [] then Inl NoAuthorities
      else case anchor_loop 0 [] authorities of
             Inl err \<Rightarrow> Inl err
           | Inr anchored \<Rightarrow> Inr \<lparr>av_authorities = anchored, av_revoked = revokedOrNothing revoked\<rparr>)"

definition admission_ClockSkew :: duration where "admission_ClockSkew = 2 * 60 * 1000000000"

definition accept ::
    "credential \<Rightarrow> time \<Rightarrow> string \<Rightarrow> string \<Rightarrow> (string \<Rightarrow> bool) \<Rightarrow> admission_error option" where
  "accept c now want subject revoked =
     (if revoked (cr_Serial c) then Some ARevoked
      else if now < cr_NotBefore c - admission_ClockSkew then Some ANotYetValid
      else if \<not> now < cr_NotAfter c then Some AExpired
      else if \<not> HasRole c want then Some ARoleNotAuthorized
      else if subject \<noteq> [] \<and> subject \<noteq> cr_Subject c then Some ASubjectMismatch
      else None)"

fun verify_loop ::
    "admission_env \<Rightarrow> bytes \<Rightarrow> time \<Rightarrow> string \<Rightarrow> string \<Rightarrow> (string \<Rightarrow> bool) \<Rightarrow> nat \<Rightarrow> authority list
      \<Rightarrow> admission_error + credential" where
  "verify_loop env signed_bytes now want subject revoked candidates [] =
     (if candidates = 0 then Inl (ANoAuthorityForRole want) else Inl ABadSignature)"
| "verify_loop env signed_bytes now want subject revoked candidates (a # as) =
     (if \<not> admits a want then verify_loop env signed_bytes now want subject revoked candidates as
      else case parse_credential env (au_Pub a) signed_bytes of
             Inl ABadSignature \<Rightarrow> verify_loop env signed_bytes now want subject revoked (candidates + 1) as
           | Inl err \<Rightarrow> Inl err
           | Inr c \<Rightarrow> (case accept c now want subject revoked of Some err \<Rightarrow> Inl err | None \<Rightarrow> Inr c))"

definition admission_Verify ::
    "admission_env \<Rightarrow> admission_verifier \<Rightarrow> string \<Rightarrow> time \<Rightarrow> string \<Rightarrow> string \<Rightarrow> admission_error + credential" where
  "admission_Verify env v encoded now want subject =
     (case Decode_credential encoded of
        Inl err \<Rightarrow> Inl err
      | Inr signed_bytes \<Rightarrow>
          verify_loop env signed_bytes now want subject (av_revoked v) 0 (av_authorities v))"

section \<open>Revocation bundles (crl.go)\<close>

definition CRLVersion :: int where "CRLVersion = 1"

definition crlPrefix :: string where "crlPrefix = ''bacchusr1:''"

datatype crl_error = CRLMalformed | CRLBadSignature | CRLUnsupportedVersion int | CRLExpired

definition ParseCRL :: "admission_env \<Rightarrow> bytes \<Rightarrow> string \<Rightarrow> crl_error + crl" where
  "ParseCRL env pub encoded =
     (let encoded = TrimSpace encoded
      in if \<not> HasPrefix encoded crlPrefix then Inl CRLMalformed
         else if length pub \<noteq> PublicKeySize then Inl CRLMalformed
         else case raw_decode url_alphabet (drop (length crlPrefix) encoded) of
                None \<Rightarrow> Inl CRLMalformed
              | Some signed_bytes \<Rightarrow>
                  if length signed_bytes \<le> sigLen then Inl CRLMalformed
                  else
                    (let body = take (length signed_bytes - sigLen) signed_bytes;
                         sig = drop (length signed_bytes - sigLen) signed_bytes
                     in if \<not> ae_verify env pub body sig then Inl CRLBadSignature
                        else case ae_crl env body of
                               None \<Rightarrow> Inl CRLMalformed
                             | Some c \<Rightarrow>
                                 if crl_Version c \<noteq> CRLVersion then Inl (CRLUnsupportedVersion (crl_Version c))
                                 else Inr c))"

definition VerifyCRL :: "admission_env \<Rightarrow> bytes \<Rightarrow> string \<Rightarrow> time \<Rightarrow> crl_error + crl" where
  "VerifyCRL env pub encoded now =
     (case ParseCRL env pub encoded of
        Inl err \<Rightarrow> Inl err
      | Inr c \<Rightarrow> if \<not> now < crl_ExpiresAt c then Inl CRLExpired else Inr c)"

definition crl_Revoked :: "crl \<Rightarrow> string \<Rightarrow> bool" where
  "crl_Revoked c serial = list_ex (\<lambda>s. s = serial) (crl_Serials c)"

record client_crl =
  cc_pub :: bytes
  cc_cur :: "crl option"

definition NewClientCRL :: "bytes \<Rightarrow> client_crl" where
  "NewClientCRL pub = \<lparr>cc_pub = pub, cc_cur = None\<rparr>"

definition ClientCRL_Set :: "admission_env \<Rightarrow> string \<Rightarrow> time \<Rightarrow> client_crl \<Rightarrow> crl_error option \<times> client_crl" where
  "ClientCRL_Set env encoded now c =
     (case VerifyCRL env (cc_pub c) encoded now of
        Inl err \<Rightarrow> (Some err, c)
      | Inr l \<Rightarrow> (None, c\<lparr>cc_cur := Some l\<rparr>))"

definition ClientCRL_Revoked :: "client_crl \<Rightarrow> string \<Rightarrow> bool" where
  "ClientCRL_Revoked c serial = (case cc_cur c of None \<Rightarrow> False | Some l \<Rightarrow> crl_Revoked l serial)"

section \<open>The coordinator's revocation list\<close>

text \<open>
  The set of revoked serials and the file it is loaded from: \<open>RevFile\<close> is a file that parses,
  with its version and serials. \<open>reload_revocations\<close> is the body of \<open>reloadRevocationsLoop\<close>,
  which keeps the list in force when the file cannot be used.
\<close>

type_synonym revocation_list = "string set"

datatype revocation_file = RevMissing | RevUnreadable | RevUnparseable | RevFile int "string list"

datatype revocation_error = RevNotExist | RevRead | RevParse | RevVersion int

definition revocationFileVersion :: int where "revocationFileVersion = 1"

definition NewRevocationList :: revocation_list where "NewRevocationList = {}"

definition LoadRevocationList :: "revocation_file \<Rightarrow> revocation_error + revocation_list" where
  "LoadRevocationList f =
     (case f of
        RevMissing \<Rightarrow> Inl RevNotExist
      | RevUnreadable \<Rightarrow> Inl RevRead
      | RevUnparseable \<Rightarrow> Inl RevParse
      | RevFile v serials \<Rightarrow>
          if v \<noteq> revocationFileVersion then Inl (RevVersion v)
          else Inr (fold insert serials NewRevocationList))"

definition list_Revoked :: "revocation_list \<Rightarrow> string \<Rightarrow> bool" where
  "list_Revoked r serial \<longleftrightarrow> serial \<in> r"

definition Revoke :: "string \<Rightarrow> revocation_list \<Rightarrow> revocation_list" where
  "Revoke serial r = insert serial r"

definition SaveFile :: "revocation_list \<Rightarrow> revocation_file" where
  "SaveFile r = RevFile revocationFileVersion (sorted_list_of_set r)"

definition reload_revocations :: "revocation_file \<Rightarrow> revocation_list \<Rightarrow> revocation_list" where
  "reload_revocations f current = (case LoadRevocationList f of Inl _ \<Rightarrow> current | Inr rl \<Rightarrow> rl)"

lemma load_saved: "finite r \<Longrightarrow> LoadRevocationList (SaveFile r) = Inr r"
  by (simp add: LoadRevocationList_def SaveFile_def NewRevocationList_def flip: union_set_fold)

section \<open>What the verifier accepts\<close>

text \<open>The bytes end in a signature of the key over the rest, which decodes to the credential.\<close>

definition credential_signed :: "admission_env \<Rightarrow> bytes \<Rightarrow> bytes \<Rightarrow> credential \<Rightarrow> bool" where
  "credential_signed env pub sb c \<longleftrightarrow>
     (\<exists>body sig. sb = body @ sig \<and> length sig = sigLen \<and> body \<noteq> [] \<and> ae_verify env pub body sig
        \<and> ae_cred env body = Some c \<and> cr_Version c = CredentialVersion)"

lemma split_signature:
  assumes "sb = body @ sig" and "length sig = sigLen"
  shows "take (length sb - sigLen) sb = body" and "drop (length sb - sigLen) sb = sig"
  using assms by simp_all

lemma parse_credential_Inr:
  assumes "length pub = PublicKeySize"
  shows "parse_credential env pub sb = Inr c \<longleftrightarrow> credential_signed env pub sb c"
proof
  assume parsed: "parse_credential env pub sb = Inr c"
  let ?body = "take (length sb - sigLen) sb" and ?sig = "drop (length sb - sigLen) sb"
  have "sb = ?body @ ?sig" "length ?sig = sigLen" "?body \<noteq> []"
    using parsed by (auto simp: parse_credential_def split: if_splits)
  moreover have "ae_verify env pub ?body ?sig" "ae_cred env ?body = Some c" "cr_Version c = CredentialVersion"
    using parsed by (auto simp: parse_credential_def Let_def split: if_splits option.splits)
  ultimately show "credential_signed env pub sb c"
    unfolding credential_signed_def by blast
next
  assume "credential_signed env pub sb c"
  then show "parse_credential env pub sb = Inr c"
    using assms by (auto simp: credential_signed_def parse_credential_def Let_def)
qed

lemma parse_credential_other:
  assumes "parse_credential env pub sb = Inl err" and "err \<noteq> ABadSignature" and "length pub = PublicKeySize"
  shows "\<not> credential_signed env pub' sb c"
proof
  assume "credential_signed env pub' sb c"
  then show False
    using assms by (auto simp: credential_signed_def parse_credential_def Let_def split: if_splits)
qed

lemma credential_signed_unique:
  "credential_signed env pub sb c \<Longrightarrow> credential_signed env pub' sb c' \<Longrightarrow> c = c'"
  by (auto simp: credential_signed_def append_eq_append_conv)

lemma verify_loop_Inr:
  assumes "\<forall>a \<in> set as. length (au_Pub a) = PublicKeySize"
  shows "verify_loop env sb now want subject revoked n as = Inr c \<longleftrightarrow>
    (\<exists>a \<in> set as. admits a want \<and> credential_signed env (au_Pub a) sb c) \<and> accept c now want subject revoked = None"
  using assms
proof (induction as arbitrary: n)
  case (Cons a as)
  then have len: "length (au_Pub a) = PublicKeySize" by simp
  show ?case
  proof (cases "admits a want")
    case admitted: True
    show ?thesis
    proof (cases "parse_credential env (au_Pub a) sb")
      case (Inl err)
      show ?thesis
      proof (cases "err = ABadSignature")
        case True
        with Inl len have "\<not> credential_signed env (au_Pub a) sb c"
          by (metis parse_credential_Inr sum.distinct(1))
        with True Inl admitted Cons show ?thesis by simp
      next
        case False
        with Inl admitted parse_credential_other [OF Inl False len] show ?thesis
          by (cases err) simp_all
      qed
    next
      case (Inr c')
      then have "credential_signed env (au_Pub a) sb c'" using len by (simp add: parse_credential_Inr)
      moreover from this have "credential_signed env pub sb c \<Longrightarrow> c = c'" for pub
        using credential_signed_unique by blast
      ultimately show ?thesis using Inr admitted by (auto split: option.splits)
    qed
  qed (use Cons in simp)
qed simp

lemma anchor_loop_Inr:
  "anchor_loop i seen as = Inr bs \<Longrightarrow>
    bs = as \<and> (\<forall>a \<in> set as. length (au_Pub a) = PublicKeySize \<and> au_Roles a \<noteq> [])
      \<and> distinct (map au_Pub as) \<and> (\<forall>a \<in> set as. au_Pub a \<notin> fst ` set seen)"
proof (induction i seen as arbitrary: bs rule: anchor_loop.induct)
  case (2 i seen a as)
  from 2(2) obtain rest where rest: "anchor_loop (i + 1) ((au_Pub a, i) # seen) as = Inr rest"
    and bs: "bs = a # rest" and here: "length (au_Pub a) = PublicKeySize" "au_Roles a \<noteq> []"
      "first_unknown (au_Roles a) = None" "map_of seen (au_Pub a) = None"
    by (auto split: if_splits option.splits sum.splits)
  have "au_Pub a \<notin> fst ` set seen" using here(4) by (simp add: map_of_eq_None_iff)
  with 2(1) [OF _ _ here(3,4) rest] here bs show ?case by auto
qed simp

text \<open>a credential is admitted for a role and subject exactly when it decodes to bytes signed
  by one of the authorities anchored for that role, and the credential inside them is of the known
  version, not revoked, inside its window (with the clock skew at the start only), itself names
  that role, and is bound to that subject when one is asked for. An authority anchored for other
  roles admits nothing, whatever it signs.\<close>

lemma admission_accepted_iff:
  assumes "NewAuthoritySetVerifier authorities revoked = Inr v"
  shows "admission_Verify env v encoded now want subject = Inr c \<longleftrightarrow>
    (\<exists>sb a. Decode_credential encoded = Inr sb \<and> a \<in> set authorities \<and> want \<in> set (au_Roles a)
       \<and> credential_signed env (au_Pub a) sb c)
    \<and> \<not> revokedOrNothing revoked (cr_Serial c)
    \<and> cr_NotBefore c - admission_ClockSkew \<le> now \<and> now < cr_NotAfter c
    \<and> want \<in> set (cr_Roles c) \<and> (subject = [] \<or> subject = cr_Subject c)"
proof -
  from assms obtain anchored where "anchor_loop 0 [] authorities = Inr anchored"
    and v: "v = \<lparr>av_authorities = anchored, av_revoked = revokedOrNothing revoked\<rparr>"
    by (auto simp: NewAuthoritySetVerifier_def split: if_splits sum.splits)
  note anchored = anchor_loop_Inr [OF this(1)]
  have "accept c now want subject (revokedOrNothing revoked) = None \<longleftrightarrow>
      \<not> revokedOrNothing revoked (cr_Serial c) \<and> cr_NotBefore c - admission_ClockSkew \<le> now \<and> now < cr_NotAfter c
      \<and> want \<in> set (cr_Roles c) \<and> (subject = [] \<or> subject = cr_Subject c)"
    by (auto simp: accept_def HasRole_def list_ex_iff)
  then show ?thesis
    using anchored v
    by (auto simp: admission_Verify_def verify_loop_Inr admits_def list_ex_iff split: sum.splits)
qed

section \<open>Issued credentials\<close>

lemma url_alphabet_ok [simp]: "alphabet_ok url_alphabet"
  by (simp add: alphabet_ok_def)

lemma armour_visible:
  "list_all visible (credPrefix @ raw_encode url_alphabet b)"
  "list_all visible (crlPrefix @ raw_encode url_alphabet b)"
  by (simp_all add: raw_encode_visible credPrefix_def crlPrefix_def visible_def char_byte_def)

lemma Decode_Encode_credential [simp]: "Decode_credential (Encode_credential b) = Inr b"
  using armour_visible(1) [of b]
  by (simp add: Decode_credential_def Encode_credential_def TrimSpace_visible)

text \<open>a credential the issuer mints is admitted by a verifier anchored at the matching key, for
  each role it names, bound to its subject or as a bearer credential, throughout its window while
  its serial is not revoked.\<close>

lemma issued_credential_admitted:
  assumes "Issue env priv serial subject roles notBefore notAfter note = Some (c, s)"
    and keys: "\<And>m. ae_verify env pub m (ae_sign env priv m)" "\<And>m. length (ae_sign env priv m) = sigLen"
      "length pub = PublicKeySize"
    and codec: "ae_put_cred env c \<noteq> []" "ae_cred env (ae_put_cred env c) = Some c"
    and "want \<in> set roles" and "want \<in> set AllRoles" and "\<not> revokedOrNothing revoked serial"
    and "notBefore - admission_ClockSkew \<le> now" and "now < notAfter" and "asked = [] \<or> asked = subject"
  shows "admission_Verify env (NewVerifier_admission pub revoked) s now want asked = Inr c"
proof -
  have c: "cr_Version c = CredentialVersion" "cr_Serial c = serial" "cr_Subject c = subject"
      "cr_Roles c = roles" "cr_NotBefore c = notBefore" "cr_NotAfter c = notAfter"
    and s: "s = Encode_credential (Sign_credential env priv c)"
    using assms(1) by (auto simp: Issue_def Let_def split: if_splits)
  have "credential_signed env pub (Sign_credential env priv c) c"
    unfolding credential_signed_def
    by (intro exI [of _ "ae_put_cred env c"] exI [of _ "ae_sign env priv (ae_put_cred env c)"])
       (simp add: Sign_credential_def Let_def keys codec c)
  moreover have "accept c now want asked (revokedOrNothing revoked) = None"
    using assms by (auto simp: accept_def HasRole_def list_ex_iff c)
  ultimately show ?thesis
    using assms(8) keys(3)
    by (auto simp: admission_Verify_def s NewVerifier_admission_def admits_def list_ex_iff
        verify_loop_Inr simp del: verify_loop.simps)
qed

section \<open>Revocation bundles\<close>

definition crl_signed :: "admission_env \<Rightarrow> bytes \<Rightarrow> string \<Rightarrow> crl \<Rightarrow> bool" where
  "crl_signed env pub encoded l \<longleftrightarrow>
     HasPrefix (TrimSpace encoded) crlPrefix
     \<and> (\<exists>body sig. raw_decode url_alphabet (drop (length crlPrefix) (TrimSpace encoded)) = Some (body @ sig)
          \<and> length sig = sigLen \<and> body \<noteq> [] \<and> ae_verify env pub body sig \<and> ae_crl env body = Some l)
     \<and> crl_Version l = CRLVersion"

lemma ParseCRL_Inr:
  assumes "length pub = PublicKeySize"
  shows "ParseCRL env pub encoded = Inr l \<longleftrightarrow> crl_signed env pub encoded l"
proof
  assume parsed: "ParseCRL env pub encoded = Inr l"
  then obtain sb where dec: "raw_decode url_alphabet (drop (length crlPrefix) (TrimSpace encoded)) = Some sb"
    and long: "\<not> length sb \<le> sigLen" and pre: "HasPrefix (TrimSpace encoded) crlPrefix"
    by (auto simp: ParseCRL_def Let_def split: if_splits option.splits)
  let ?body = "take (length sb - sigLen) sb" and ?sig = "drop (length sb - sigLen) sb"
  have "raw_decode url_alphabet (drop (length crlPrefix) (TrimSpace encoded)) = Some (?body @ ?sig)"
    "length ?sig = sigLen" "?body \<noteq> []"
    using dec long by auto
  moreover have "ae_verify env pub ?body ?sig" "ae_crl env ?body = Some l" "crl_Version l = CRLVersion"
    using parsed dec long pre by (auto simp: ParseCRL_def Let_def split: if_splits option.splits)
  ultimately show "crl_signed env pub encoded l"
    using pre unfolding crl_signed_def by blast
next
  assume "crl_signed env pub encoded l"
  then show "ParseCRL env pub encoded = Inr l"
    using assms by (auto simp: crl_signed_def ParseCRL_def Let_def)
qed

text \<open>C36: a revocation bundle and a credential are signed over untagged bytes by the same key. A
  live credential of any holder, its text prefix replaced by that of a bundle, is accepted by a
  client as a revocation bundle that revokes nothing, and replaces the one the client held: the
  JSON decoder ignores the members a bundle does not have, finds the shared version and expiry,
  and leaves the absent list of serials empty.\<close>

theorem credential_passes_as_empty_crl:
  assumes "Decode_credential encoded = Inr sb" and "credential_signed env (cc_pub cc) sb c"
    and "length (cc_pub cc) = PublicKeySize" and "now < cr_NotAfter c"
    and json: "ae_crl env (take (length sb - sigLen) sb) = Some l"
      "crl_Version l = cr_Version c" "crl_ExpiresAt l = cr_NotAfter c" "crl_Serials l = []"
  shows "ClientCRL_Set env (crlPrefix @ raw_encode url_alphabet sb) now cc = (None, cc\<lparr>cc_cur := Some l\<rparr>)
    \<and> \<not> ClientCRL_Revoked (snd (ClientCRL_Set env (crlPrefix @ raw_encode url_alphabet sb) now cc)) serial"
proof -
  let ?s = "crlPrefix @ raw_encode url_alphabet sb"
  obtain body sig where sb: "sb = body @ sig" "length sig = sigLen" "body \<noteq> []"
    "ae_verify env (cc_pub cc) body sig" "cr_Version c = CredentialVersion"
    using assms(2) by (auto simp: credential_signed_def)
  have "TrimSpace ?s = ?s" using armour_visible(2) by (rule TrimSpace_visible)
  then have "crl_signed env (cc_pub cc) ?s l"
    using sb json unfolding crl_signed_def by (auto simp: CRLVersion_def CredentialVersion_def)
  then have "ClientCRL_Set env ?s now cc = (None, cc\<lparr>cc_cur := Some l\<rparr>)"
    using assms(3,4) json(3) by (simp add: ClientCRL_Set_def VerifyCRL_def flip: ParseCRL_Inr)
  then show ?thesis using json(4) by (simp add: ClientCRL_Revoked_def crl_Revoked_def)
qed

section \<open>Witnesses\<close>

definition demo_credential :: credential where
  "demo_credential = zero_credential\<lparr>cr_Version := 1, cr_Serial := ''7f'', cr_Subject := ''u'',
     cr_Roles := [''client''], cr_NotBefore := 0, cr_NotAfter := 100\<rparr>"

definition demo_admission :: admission_env where
  "demo_admission =
     \<lparr>ae_verify = (\<lambda>_ body sig. sig = replicate 64 (hd body)), ae_sign = (\<lambda>_ body. replicate 64 (hd body)),
      ae_cred = (\<lambda>body. if body = [1] then Some demo_credential else None), ae_put_cred = (\<lambda>_. [1]),
      ae_crl = (\<lambda>_. Some \<lparr>crl_Version = 1, crl_IssuedAt = zero_time, crl_ExpiresAt = 100, crl_Serials = []\<rparr>),
      ae_put_crl = (\<lambda>_. [2])\<rparr>"

definition demo_key :: bytes where "demo_key = replicate 32 3"

lemma demo_issue:
  "Issue demo_admission [] ''7f'' ''u'' [''client''] 0 100 [] =
     Some (demo_credential, Encode_credential (1 # replicate 64 1))"
  by (simp add: Issue_def Let_def demo_credential_def Sign_credential_def CredentialVersion_def demo_admission_def
      zero_credential_def)

lemma demo_signed: "credential_signed demo_admission demo_key (1 # replicate 64 1) demo_credential"
  unfolding credential_signed_def
  by (intro exI [of _ "[1]"] exI [of _ "replicate 64 1"])
     (simp add: demo_admission_def sigLen_def CredentialVersion_def demo_credential_def zero_credential_def)

lemma demo_anchor:
  "NewAuthoritySetVerifier [\<lparr>au_Pub = demo_key, au_Roles = [''client'']\<rparr>] None =
     Inr \<lparr>av_authorities = [\<lparr>au_Pub = demo_key, au_Roles = [''client'']\<rparr>], av_revoked = revokedOrNothing None\<rparr>"
  by (simp add: NewAuthoritySetVerifier_def demo_key_def PublicKeySize_def admission_Known_def AllRoles_def
      RoleClient_def)

theorem credential_passes_as_empty_crl_witness:
  "\<not> ClientCRL_Revoked
     (snd (ClientCRL_Set demo_admission (crlPrefix @ raw_encode url_alphabet (1 # replicate 64 1)) 50
       \<lparr>cc_pub = demo_key,
        cc_cur = Some \<lparr>crl_Version = 1, crl_IssuedAt = 0, crl_ExpiresAt = 90, crl_Serials = [''bad'']\<rparr>\<rparr>))
     ''bad''"
proof (rule conjunct2 [OF credential_passes_as_empty_crl [OF Decode_Encode_credential]])
  show "credential_signed demo_admission
      (cc_pub \<lparr>cc_pub = demo_key,
        cc_cur = Some \<lparr>crl_Version = 1, crl_IssuedAt = 0, crl_ExpiresAt = 90, crl_Serials = [''bad'']\<rparr>\<rparr>)
      (1 # replicate 64 1) demo_credential"
    using demo_signed by simp
  show "ae_crl demo_admission (take (length (1 # replicate 64 (1 :: byte)) - sigLen) (1 # replicate 64 1)) =
      Some \<lparr>crl_Version = 1, crl_IssuedAt = zero_time, crl_ExpiresAt = 100, crl_Serials = []\<rparr>"
    by (simp add: demo_admission_def)
qed (simp_all add: demo_key_def PublicKeySize_def demo_credential_def)

end
