(* ===== verification/Device.thy ===== *)
theory Device
  imports Text Delegation "HOL-Library.AList"
begin

text \<open>
  Device credentials: \<open>core/devicecred\<close> and the challenge store of
  \<open>cmd/coordinator/devicecred.go\<close>. A connect carries a credential signed by a delegated issuer and
  an assertion of the device key over a challenge this coordinator issued to that address. The
  signature check and the JSON decoders are parameters; base64 is computed.
\<close>

section \<open>Objects (devicecred.go)\<close>

definition devicecred_Version :: int where "devicecred_Version = 1"

record issuer_cert =
  ic_Version :: int
  ic_Serial :: string
  ic_IssuerPub :: bytes
  ic_NotBefore :: time
  ic_NotAfter :: time
  ic_MaxCredTTL :: duration

record device_credential =
  dv_Version :: int
  dv_Serial :: string
  dv_DevicePub :: bytes
  dv_Epoch :: uint64
  dv_NotBefore :: time
  dv_NotAfter :: time

datatype device_error =
  VMalformed | VUnsupportedVersion int | VBadSignature | VNotYetValid | VExpired | VRevoked
| VCredTTLTooLong | VBadAssertion | VNoRoot

record device_env =
  de_verify :: "bytes \<Rightarrow> bytes \<Rightarrow> bytes \<Rightarrow> bool"
  de_issuer :: "bytes \<Rightarrow> issuer_cert option"
  de_device :: "bytes \<Rightarrow> device_credential option"

definition openSigned :: "device_env \<Rightarrow> bytes \<Rightarrow> string \<Rightarrow> bytes \<Rightarrow> device_error + bytes" where
  "openSigned env pub tag signed_bytes =
     (case OpenSigned (de_verify env) pub tag signed_bytes of
        Inl DBadSignature \<Rightarrow> Inl VBadSignature
      | Inl _ \<Rightarrow> Inl VMalformed
      | Inr body \<Rightarrow> Inr body)"

definition issuerCertPrefix :: string where "issuerCertPrefix = ''bacchusi1:''"

definition deviceCredPrefix :: string where "deviceCredPrefix = ''bacchusd1:''"

definition armour_encode :: "string \<Rightarrow> bytes \<Rightarrow> string" where
  "armour_encode prefix signed_bytes = prefix @ raw_encode url_alphabet signed_bytes"

definition armour_decode :: "string \<Rightarrow> string \<Rightarrow> device_error + bytes" where
  "armour_decode prefix s =
     (let s = TrimSpace s
      in if \<not> HasPrefix s prefix then Inl VMalformed
         else case raw_decode url_alphabet (drop (length prefix) s) of
                None \<Rightarrow> Inl VMalformed
              | Some b \<Rightarrow> Inr b)"

definition DecodeIssuerCert :: "string \<Rightarrow> device_error + bytes" where
  "DecodeIssuerCert s = armour_decode issuerCertPrefix s"

definition DecodeDeviceCredential :: "string \<Rightarrow> device_error + bytes" where
  "DecodeDeviceCredential s = armour_decode deviceCredPrefix s"

section \<open>Assertions (assert.go)\<close>

definition PurposeConnect :: string where "PurposeConnect = ''bacchus/assert-connect/v1''"

definition MinChallenge :: nat where "MinChallenge = 16"

definition assertionMessage :: "string \<Rightarrow> string \<Rightarrow> bytes \<Rightarrow> bytes" where
  "assertionMessage p audience challenge =
     bytes_of_string p @ [0] @ put_uint32 (of_nat (length audience)) @ bytes_of_string audience
       @ put_uint32 (of_nat (length challenge)) @ challenge"

definition VerifyAssertion ::
    "device_env \<Rightarrow> bytes \<Rightarrow> string \<Rightarrow> string \<Rightarrow> bytes \<Rightarrow> bytes \<Rightarrow> device_error option" where
  "VerifyAssertion env pub p audience challenge sig =
     (if length pub \<noteq> PublicKeySize then Some VMalformed
      else if length challenge < MinChallenge then Some VBadAssertion
      else if \<not> de_verify env pub (assertionMessage p audience challenge) sig then Some VBadAssertion
      else None)"

section \<open>The verifier (verify.go)\<close>

definition checkWindow :: "time \<Rightarrow> time \<Rightarrow> time \<Rightarrow> device_error option" where
  "checkWindow notBefore notAfter now =
     (if now < notBefore - ClockSkew then Some VNotYetValid
      else if \<not> now < notAfter then Some VExpired
      else None)"

definition ParseIssuerCert :: "device_env \<Rightarrow> bytes \<Rightarrow> bytes \<Rightarrow> device_error + issuer_cert" where
  "ParseIssuerCert env rootPub signed_bytes =
     (case openSigned env rootPub TagIssuerCert signed_bytes of
        Inl err \<Rightarrow> Inl err
      | Inr body \<Rightarrow>
          (case de_issuer env body of
             None \<Rightarrow> Inl VMalformed
           | Some c \<Rightarrow>
               if ic_Version c \<noteq> devicecred_Version then Inl (VUnsupportedVersion (ic_Version c))
               else if length (ic_IssuerPub c) \<noteq> PublicKeySize then Inl VMalformed
               else Inr c))"

definition VerifyIssuerCert ::
    "device_env \<Rightarrow> bytes \<Rightarrow> bytes \<Rightarrow> time \<Rightarrow> (string \<Rightarrow> bool) option \<Rightarrow> device_error + issuer_cert" where
  "VerifyIssuerCert env rootPub signed_bytes now revoked =
     (if length rootPub \<noteq> PublicKeySize then Inl VNoRoot
      else
        (case ParseIssuerCert env rootPub signed_bytes of
           Inl err \<Rightarrow> Inl err
         | Inr c \<Rightarrow>
             if (case revoked of None \<Rightarrow> False | Some f \<Rightarrow> f (ic_Serial c)) then Inl VRevoked
             else
               (case checkWindow (ic_NotBefore c) (ic_NotAfter c) now of
                  Some err \<Rightarrow> Inl err
                | None \<Rightarrow> Inr c)))"

record presentation =
  pr_Credential :: bytes
  pr_IssuerCert :: bytes
  pr_Assertion :: bytes

definition ParsePresentation :: "string \<Rightarrow> string \<Rightarrow> bytes \<Rightarrow> device_error + presentation" where
  "ParsePresentation credential issuerCert assertion =
     (case DecodeDeviceCredential credential of
        Inl err \<Rightarrow> Inl err
      | Inr cred \<Rightarrow>
          (case DecodeIssuerCert issuerCert of
             Inl err \<Rightarrow> Inl err
           | Inr cert \<Rightarrow>
               if assertion = [] then Inl VMalformed
               else Inr \<lparr>pr_Credential = cred, pr_IssuerCert = cert, pr_Assertion = assertion\<rparr>))"

record device_verifier =
  dvf_rootPub :: bytes
  dvf_revoked :: "string \<Rightarrow> bool"

definition NewVerifier_device :: "bytes \<Rightarrow> (string \<Rightarrow> bool) option \<Rightarrow> device_error + device_verifier" where
  "NewVerifier_device rootPub revoked =
     (if length rootPub \<noteq> PublicKeySize then Inl VNoRoot
      else Inr \<lparr>dvf_rootPub = rootPub,
                dvf_revoked = (case revoked of None \<Rightarrow> (\<lambda>_. False) | Some f \<Rightarrow> f)\<rparr>)"

definition device_Verify ::
    "device_env \<Rightarrow> device_verifier \<Rightarrow> presentation \<Rightarrow> time \<Rightarrow> string \<Rightarrow> bytes \<Rightarrow> device_error + device_credential" where
  "device_Verify env v p now audience challenge =
     (case VerifyIssuerCert env (dvf_rootPub v) (pr_IssuerCert p) now (Some (dvf_revoked v)) of
        Inl err \<Rightarrow> Inl err
      | Inr c \<Rightarrow>
          (case openSigned env (ic_IssuerPub c) TagDeviceCred (pr_Credential p) of
             Inl err \<Rightarrow> Inl err
           | Inr body \<Rightarrow>
               (case de_device env body of
                  None \<Rightarrow> Inl VMalformed
                | Some cred \<Rightarrow>
                    if dv_Version cred \<noteq> devicecred_Version then Inl (VUnsupportedVersion (dv_Version cred))
                    else if length (dv_DevicePub cred) \<noteq> PublicKeySize then Inl VMalformed
                    else if dvf_revoked v (dv_Serial cred) then Inl VRevoked
                    else
                      (case checkWindow (dv_NotBefore cred) (dv_NotAfter cred) now of
                         Some err \<Rightarrow> Inl err
                       | None \<Rightarrow>
                           if time_sub (dv_NotAfter cred) (dv_NotBefore cred) > ic_MaxCredTTL c
                           then Inl VCredTTLTooLong
                           else
                             (case VerifyAssertion env (dv_DevicePub cred) PurposeConnect audience challenge
                                     (pr_Assertion p) of
                                Some err \<Rightarrow> Inl err
                              | None \<Rightarrow> Inr cred)))))"

section \<open>The challenge store (cmd/coordinator/devicecred.go)\<close>

definition deviceChallengeLen :: nat where "deviceChallengeLen = 32"

definition deviceChallengeTTL :: duration where "deviceChallengeTTL = 2 * 60 * 1000000000"

definition maxPendingChallenges :: nat where "maxPendingChallenges = 65536"

definition atCapacitySweep :: duration where "atCapacitySweep = 1000000000"

definition maxStashedIssuerCert :: nat where "maxStashedIssuerCert = 1024"

record pending_challenge =
  pc_value :: bytes
  pc_expires :: time
  pc_spentBy :: string
  pc_spent :: bool
  pc_cred :: string
  pc_issuerCert :: string

record challenge_store =
  cs_entries :: "(string \<times> pending_challenge) list"
  cs_capacity :: int
  cs_lastSweep :: time
  cs_atCapacity :: bool

definition challenge_cap :: "challenge_store \<Rightarrow> nat" where
  "challenge_cap s = (if cs_capacity s > 0 then nat (cs_capacity s) else maxPendingChallenges)"

definition sweepLocked :: "time \<Rightarrow> challenge_store \<Rightarrow> challenge_store" where
  "sweepLocked now s = s\<lparr>cs_entries := filter (\<lambda>(k, e). now < pc_expires e) (cs_entries s)\<rparr>"

text \<open>
  \<open>issue\<close>, where \<open>v\<close> is what \<open>rand.Read\<close> produced, \<open>None\<close> when it failed: a new key that
  finds the store full triggers a sweep, at most one a second, before it is refused.
\<close>

definition store_full :: "string \<Rightarrow> challenge_store \<Rightarrow> bool" where
  "store_full key s \<longleftrightarrow> map_of (cs_entries s) key = None \<and> length (cs_entries s) \<ge> challenge_cap s"

definition make_room :: "time \<Rightarrow> challenge_store \<Rightarrow> challenge_store" where
  "make_room now s =
     (if time_sub now (cs_lastSweep s) \<ge> atCapacitySweep then sweepLocked now (s\<lparr>cs_lastSweep := now\<rparr>) else s)"

definition put_challenge :: "bytes \<Rightarrow> string \<Rightarrow> string \<Rightarrow> string \<Rightarrow> time \<Rightarrow> challenge_store \<Rightarrow> challenge_store" where
  "put_challenge v key cred issuerCert now s =
     s\<lparr>cs_atCapacity := False,
       cs_entries := AList.update key
         \<lparr>pc_value = v, pc_expires = now + deviceChallengeTTL, pc_spentBy = [], pc_spent = False,
          pc_cred = cred, pc_issuerCert = issuerCert\<rparr> (cs_entries s)\<rparr>"

definition issue_challenge ::
    "bytes option \<Rightarrow> string \<Rightarrow> string \<Rightarrow> string \<Rightarrow> time \<Rightarrow> challenge_store \<Rightarrow> bytes option \<times> challenge_store" where
  "issue_challenge v key cred issuerCert now s =
     (case v of
        None \<Rightarrow> (None, s)
      | Some v \<Rightarrow>
          if store_full key s
          then (let s = make_room now s
                in if length (cs_entries s) \<ge> challenge_cap s then (None, s\<lparr>cs_atCapacity := True\<rparr>)
                   else (Some v, put_challenge v key cred issuerCert now s))
          else (Some v, put_challenge v key cred issuerCert now s))"

definition live_entry :: "challenge_store \<Rightarrow> string \<Rightarrow> time \<Rightarrow> pending_challenge option" where
  "live_entry s key now =
     (case map_of (cs_entries s) key of
        None \<Rightarrow> None
      | Some e \<Rightarrow> if \<not> now < pc_expires e then None else Some e)"

definition stashedCred :: "challenge_store \<Rightarrow> string \<Rightarrow> time \<Rightarrow> string" where
  "stashedCred s key now = (case live_entry s key now of None \<Rightarrow> [] | Some e \<Rightarrow> pc_cred e)"

definition stashedIssuerCert :: "challenge_store \<Rightarrow> string \<Rightarrow> time \<Rightarrow> string" where
  "stashedIssuerCert s key now = (case live_entry s key now of None \<Rightarrow> [] | Some e \<Rightarrow> pc_issuerCert e)"

definition spend :: "string \<Rightarrow> string \<Rightarrow> time \<Rightarrow> challenge_store \<Rightarrow> bytes option \<times> challenge_store" where
  "spend key nonce now s =
     (case live_entry s key now of
        None \<Rightarrow> (None, s)
      | Some e \<Rightarrow>
          if pc_spent e
          then (if pc_spentBy e = [] \<or> nonce = [] \<or> pc_spentBy e \<noteq> nonce then (None, s) else (Some (pc_value e), s))
          else (Some (pc_value e),
                s\<lparr>cs_entries := AList.update key (e\<lparr>pc_spent := True, pc_spentBy := nonce\<rparr>) (cs_entries s)\<rparr>))"

definition drop_challenge :: "string \<Rightarrow> challenge_store \<Rightarrow> challenge_store" where
  "drop_challenge key s = s\<lparr>cs_entries := AList.delete key (cs_entries s)\<rparr>"

section \<open>What a presentation proves\<close>

lemma openSigned_Inr: "openSigned env pub tag s = Inr body \<longleftrightarrow> signed_by (de_verify env) pub tag s body"
  unfolding OpenSigned_Inr [symmetric] by (auto simp: openSigned_def split: sum.splits delegation_error.splits)

lemma checkWindow_None: "checkWindow nb na now = None \<longleftrightarrow> nb - ClockSkew \<le> now \<and> now < na"
  by (auto simp: checkWindow_def)

text \<open>An issuer certificate the root signed, of the known version, unrevoked and in its window.\<close>

definition live_issuer ::
    "device_env \<Rightarrow> bytes \<Rightarrow> bytes \<Rightarrow> time \<Rightarrow> (string \<Rightarrow> bool) \<Rightarrow> issuer_cert \<Rightarrow> bool" where
  "live_issuer env root s now revoked c \<longleftrightarrow>
     (\<exists>body. signed_by (de_verify env) root TagIssuerCert s body \<and> de_issuer env body = Some c)
     \<and> ic_Version c = devicecred_Version \<and> length (ic_IssuerPub c) = PublicKeySize
     \<and> \<not> revoked (ic_Serial c) \<and> ic_NotBefore c - ClockSkew \<le> now \<and> now < ic_NotAfter c"

lemma ParseIssuerCert_Inr:
  "ParseIssuerCert env root s = Inr c \<longleftrightarrow>
    (\<exists>body. openSigned env root TagIssuerCert s = Inr body \<and> de_issuer env body = Some c)
    \<and> ic_Version c = devicecred_Version \<and> length (ic_IssuerPub c) = PublicKeySize"
  by (auto simp: ParseIssuerCert_def split: sum.splits option.splits if_splits)

lemma VerifyIssuerCert_Inr:
  "VerifyIssuerCert env root s now (Some revoked) = Inr c \<longleftrightarrow> live_issuer env root s now revoked c"
proof -
  have "VerifyIssuerCert env root s now (Some revoked) = Inr c \<longleftrightarrow>
      length root = PublicKeySize \<and> ParseIssuerCert env root s = Inr c \<and> \<not> revoked (ic_Serial c)
      \<and> checkWindow (ic_NotBefore c) (ic_NotAfter c) now = None"
    by (auto simp: VerifyIssuerCert_def split: sum.splits option.splits if_splits)
  then show ?thesis
    unfolding ParseIssuerCert_Inr openSigned_Inr checkWindow_None live_issuer_def
    by (auto simp: signed_by_def)
qed

text \<open>a presentation is accepted exactly when the root signed a live, unrevoked issuer
  certificate, that issuer signed a device credential of the known version that is unrevoked, in
  its window and no longer-lived than the certificate allows, and the device key in it signed this
  verifier's audience and challenge, the challenge being at least sixteen bytes.\<close>

lemma device_admitted_iff:
  "device_Verify env v p now audience challenge = Inr cred \<longleftrightarrow>
    (\<exists>c body. live_issuer env (dvf_rootPub v) (pr_IssuerCert p) now (dvf_revoked v) c
       \<and> signed_by (de_verify env) (ic_IssuerPub c) TagDeviceCred (pr_Credential p) body
       \<and> de_device env body = Some cred
       \<and> time_sub (dv_NotAfter cred) (dv_NotBefore cred) \<le> ic_MaxCredTTL c)
    \<and> dv_Version cred = devicecred_Version \<and> length (dv_DevicePub cred) = PublicKeySize
    \<and> \<not> dvf_revoked v (dv_Serial cred) \<and> dv_NotBefore cred - ClockSkew \<le> now \<and> now < dv_NotAfter cred
    \<and> 16 \<le> length challenge
    \<and> de_verify env (dv_DevicePub cred) (assertionMessage PurposeConnect audience challenge) (pr_Assertion p)"
proof -
  have "device_Verify env v p now audience challenge = Inr cred \<longleftrightarrow>
      (\<exists>c body. VerifyIssuerCert env (dvf_rootPub v) (pr_IssuerCert p) now (Some (dvf_revoked v)) = Inr c
         \<and> openSigned env (ic_IssuerPub c) TagDeviceCred (pr_Credential p) = Inr body
         \<and> de_device env body = Some cred
         \<and> time_sub (dv_NotAfter cred) (dv_NotBefore cred) \<le> ic_MaxCredTTL c)
      \<and> dv_Version cred = devicecred_Version \<and> length (dv_DevicePub cred) = PublicKeySize
      \<and> \<not> dvf_revoked v (dv_Serial cred) \<and> checkWindow (dv_NotBefore cred) (dv_NotAfter cred) now = None
      \<and> VerifyAssertion env (dv_DevicePub cred) PurposeConnect audience challenge (pr_Assertion p) = None"
    by (auto simp: device_Verify_def not_less split: sum.splits option.splits if_splits)
  then show ?thesis
    unfolding VerifyIssuerCert_Inr openSigned_Inr checkWindow_None
    by (auto simp: VerifyAssertion_def MinChallenge_def split: if_splits)
qed

text \<open>an assertion speaks for one purpose, audience and challenge: two messages of registered
  purposes (which hold no NUL) are equal only when all three are, so an assertion made for one
  coordinator or one challenge verifies for no other.\<close>

lemma assertion_binds:
  assumes "0 \<notin> set (bytes_of_string p)" and "0 \<notin> set (bytes_of_string p')"
    and "length audience < 2 ^ 32" and "length audience' < 2 ^ 32"
  shows "assertionMessage p audience challenge = assertionMessage p' audience' challenge' \<longleftrightarrow>
    p = p' \<and> audience = audience' \<and> challenge = challenge'"
proof
  assume eq: "assertionMessage p audience challenge = assertionMessage p' audience' challenge'"
  have "takeWhile (\<lambda>b. b \<noteq> 0) (assertionMessage q a c) = bytes_of_string q" if "0 \<notin> set (bytes_of_string q)" for q a c
    using that by (auto simp: assertionMessage_def takeWhile_append2 takeWhile_eq_all_conv takeWhile_append)
  from this [OF assms(1)] this [OF assms(2)] eq have p: "p = p'" by (metis bytes_of_string_inject)
  with eq have rest: "put_uint32 (of_nat (length audience)) @ bytes_of_string audience
      @ put_uint32 (of_nat (length challenge)) @ challenge
    = put_uint32 (of_nat (length audience')) @ bytes_of_string audience'
      @ put_uint32 (of_nat (length challenge')) @ challenge'"
    by (simp add: assertionMessage_def)
  then have "length audience = length audience'"
    using put_length_inject [OF assms(3,4)] by (metis append_eq_append_conv length_put_uint32)
  with rest p show "p = p' \<and> audience = audience' \<and> challenge = challenge'"
    by simp
qed simp

section \<open>Challenges\<close>

datatype challenge_event =
  ChIssue "bytes option" string string string time | ChSpend string string time | ChDrop string | ChSweep time

fun challenge_step :: "challenge_event \<Rightarrow> challenge_store \<Rightarrow> challenge_store" where
  "challenge_step (ChIssue v key cred issuerCert now) s = snd (issue_challenge v key cred issuerCert now s)"
| "challenge_step (ChSpend key nonce now) s = snd (spend key nonce now s)"
| "challenge_step (ChDrop key) s = drop_challenge key s"
| "challenge_step (ChSweep now) s = sweepLocked now s"

definition empty_challenges :: "int \<Rightarrow> challenge_store" where
  "empty_challenges cap =
     \<lparr>cs_entries = [], cs_capacity = cap, cs_lastSweep = zero_time, cs_atCapacity = False\<rparr>"

definition challenges_ok :: "int \<Rightarrow> challenge_store \<Rightarrow> bool" where
  "challenges_ok cap s \<longleftrightarrow> cs_capacity s = cap \<and> distinct (map fst (cs_entries s))
     \<and> length (cs_entries s) \<le> challenge_cap s"

lemma length_update_held: "map_of al k \<noteq> None \<Longrightarrow> length (AList.update k v al) = length al"
  by (induction al) (auto split: if_splits)

lemma length_update_le: "length (AList.update k v al) \<le> Suc (length al)"
  by (induction al) auto

lemma cap_cong [simp]:
  "challenge_cap (s\<lparr>cs_entries := es\<rparr>) = challenge_cap s" "challenge_cap (s\<lparr>cs_lastSweep := t\<rparr>) = challenge_cap s"
  "challenge_cap (s\<lparr>cs_atCapacity := b\<rparr>) = challenge_cap s"
  by (simp_all add: challenge_cap_def)

lemma sweepLocked_ok:
  "challenges_ok cap s \<Longrightarrow> challenges_ok cap (sweepLocked now s)"
  using le_trans [OF length_filter_le]
  by (auto simp: challenges_ok_def sweepLocked_def distinct_map_filter)

lemma make_room_ok: "challenges_ok cap s \<Longrightarrow> challenges_ok cap (make_room now s)"
  using sweepLocked_ok [of cap "s\<lparr>cs_lastSweep := now\<rparr>" now] by (simp add: make_room_def challenges_ok_def)

lemma put_ok:
  assumes "challenges_ok cap s"
    and "map_of (cs_entries s) key \<noteq> None \<or> length (cs_entries s) < challenge_cap s"
  shows "challenges_ok cap (put_challenge v key cred ic now s)"
proof -
  have "length (AList.update key e (cs_entries s)) \<le> challenge_cap s" for e
    using assms length_update_held [of "cs_entries s" key e] length_update_le [of key e "cs_entries s"]
    by (auto simp: challenges_ok_def simp del: not_None_eq)
  with assms(1) show ?thesis by (simp add: put_challenge_def challenges_ok_def distinct_update)
qed

lemma issue_ok: "challenges_ok cap s \<Longrightarrow> challenges_ok cap (snd (issue_challenge v key cred ic now s))"
proof (cases v)
  case (Some w)
  assume ok: "challenges_ok cap s"
  show ?thesis
  proof (cases "store_full key s")
    case True
    then show ?thesis
      using make_room_ok [OF ok, of now] put_ok [OF make_room_ok [OF ok], where key = key and v = w and cred = cred and ic = ic and now = now]
      by (simp add: issue_challenge_def Some Let_def) (simp add: challenges_ok_def)
  next
    case False
    then have "challenges_ok cap (put_challenge w key cred ic now s)"
      by (intro put_ok [OF ok]) (auto simp: store_full_def)
    with False show ?thesis by (simp add: issue_challenge_def Some)
  qed
qed (simp add: issue_challenge_def)

lemma spend_ok: "challenges_ok cap s \<Longrightarrow> challenges_ok cap (snd (spend key nonce now s))"
  by (auto simp: spend_def live_entry_def challenges_ok_def distinct_update length_update_held
      split: option.splits if_splits)

lemma drop_ok: "challenges_ok cap s \<Longrightarrow> challenges_ok cap (drop_challenge key s)"
  using le_trans [OF length_delete_le]
  by (auto simp: challenges_ok_def drop_challenge_def distinct_delete)

lemma step_ok: "challenges_ok cap s \<Longrightarrow> challenges_ok cap (challenge_step ev s)"
  by (cases ev) (simp_all add: issue_ok spend_ok drop_ok sweepLocked_ok)

lemma run_ok: "challenges_ok cap s \<Longrightarrow> challenges_ok cap (fold challenge_step evs s)"
  by (induction evs arbitrary: s) (simp_all add: step_ok)

lemma empty_ok: "challenges_ok cap (empty_challenges cap)"
  by (simp add: challenges_ok_def empty_challenges_def)

text \<open>The challenge of a key is gone or was spent under one nonce.\<close>

definition spent_under :: "string \<Rightarrow> string \<Rightarrow> bytes \<Rightarrow> challenge_store \<Rightarrow> bool" where
  "spent_under key nonce v s \<longleftrightarrow>
     (\<forall>e. map_of (cs_entries s) key = Some e \<longrightarrow> pc_spent e \<and> pc_spentBy e = nonce \<and> pc_value e = v)"

lemma map_of_filter_distinct:
  "distinct (map fst al) \<Longrightarrow> map_of (filter P al) k = Some e \<Longrightarrow> map_of al k = Some e"
  by (induction al) (auto split: if_splits dest: map_of_SomeD simp: rev_image_eqI)

lemma spend_spent_under:
  "spend key nonce now s = (Some v, s') \<Longrightarrow> spent_under key nonce v s'"
  by (auto simp: spend_def live_entry_def spent_under_def update_conv' split: option.splits if_splits)

lemma sweep_entries: "cs_entries (sweepLocked now s) = filter (\<lambda>(k, e). now < pc_expires e) (cs_entries s)"
  by (simp add: sweepLocked_def)

lemma sweep_spent_under:
  assumes "distinct (map fst (cs_entries s))" and "spent_under key nonce v s"
  shows "spent_under key nonce v (sweepLocked now s)"
  unfolding spent_under_def
proof (intro allI impI)
  fix e
  assume "map_of (cs_entries (sweepLocked now s)) key = Some e"
  then have "map_of (filter (\<lambda>(k, e). now < pc_expires e) (cs_entries s)) key = Some e"
    unfolding sweep_entries .
  from map_of_filter_distinct [OF assms(1) this] assms(2)
  show "pc_spent e \<and> pc_spentBy e = nonce \<and> pc_value e = v" unfolding spent_under_def by blast
qed

lemma make_room_spent_under:
  "distinct (map fst (cs_entries s)) \<Longrightarrow> spent_under key nonce v s \<Longrightarrow> spent_under key nonce v (make_room now s)"
  using sweep_spent_under [of "s\<lparr>cs_lastSweep := now\<rparr>" key nonce v now]
  by (simp add: make_room_def) (simp add: spent_under_def)

lemma put_spent_under:
  "key' \<noteq> key \<Longrightarrow> spent_under key nonce v (put_challenge w key' cred ic now s) \<longleftrightarrow> spent_under key nonce v s"
  by (simp add: spent_under_def put_challenge_def update_conv')

lemma issue_other:
  assumes "key' \<noteq> key" and "distinct (map fst (cs_entries s))" and "spent_under key nonce v s"
  shows "spent_under key nonce v (snd (issue_challenge w key' cred ic now s))"
  using make_room_spent_under [OF assms(2,3), of now] assms(3)
  by (cases w)
     (simp_all add: issue_challenge_def put_spent_under [OF assms(1)] Let_def, simp add: spent_under_def)

lemma step_spent_under:
  assumes "challenges_ok cap s" and "spent_under key nonce v s" and "\<nexists>w cred ic t. ev = ChIssue w key cred ic t"
  shows "spent_under key nonce v (challenge_step ev s)"
proof (cases ev)
  case (ChIssue w key' cred ic t)
  with assms show ?thesis by (auto simp: challenges_ok_def intro: issue_other)
next
  case (ChSpend key' nonce' t)
  with assms(2) show ?thesis
    by (auto simp: spend_def live_entry_def spent_under_def update_conv' split: option.splits if_splits)
next
  case (ChDrop key')
  with assms(2) show ?thesis by (auto simp: drop_challenge_def spent_under_def delete_conv')
next
  case (ChSweep t)
  with assms show ?thesis by (simp add: sweep_spent_under challenges_ok_def)
qed

lemma run_spent_under:
  assumes "challenges_ok cap s" and "spent_under key nonce v s"
    and "\<nexists>w cred ic t. ChIssue w key cred ic t \<in> set evs"
  shows "spent_under key nonce v (fold challenge_step evs s)"
  using assms
proof (induction evs arbitrary: s)
  case (Cons ev evs)
  have "spent_under key nonce v (challenge_step ev s)"
    using Cons.prems by (intro step_spent_under) auto
  with Cons show ?case by (simp add: step_ok)
qed simp

text \<open>from a fresh store on, whatever is issued, spent, dropped and swept around it, a challenge
  issued to an address is good for one nonce: if it was spent under one and no new challenge was
  issued to that address since, a later spend succeeds only under the same, non-empty nonce, and
  then yields the same challenge. The store never holds more entries than its capacity.\<close>

lemma challenge_spent_once:
  assumes "spend key nonce t (fold challenge_step before (empty_challenges cap)) = (Some v, s)"
    and "\<nexists>w cred ic u. ChIssue w key cred ic u \<in> set evs"
    and "spend key nonce' t' (fold challenge_step evs s) = (Some v', s')"
  shows "nonce' = nonce \<and> nonce \<noteq> [] \<and> v' = v \<and> length (cs_entries s') \<le> challenge_cap s'"
proof -
  let ?s = "fold challenge_step before (empty_challenges cap)"
  have "challenges_ok cap (snd (spend key nonce t ?s))"
    by (intro spend_ok run_ok empty_ok)
  then have ok: "challenges_ok cap s" by (simp add: assms(1))
  have "spent_under key nonce v (fold challenge_step evs s)"
    using ok spend_spent_under [OF assms(1)] assms(2) by (rule run_spent_under)
  with assms(3) have "nonce' = nonce \<and> nonce \<noteq> [] \<and> v' = v"
    by (auto simp: spend_def live_entry_def spent_under_def split: option.splits if_splits)
  moreover have "challenges_ok cap (snd (spend key nonce' t' (fold challenge_step evs s)))"
    using ok by (intro spend_ok run_ok)
  ultimately show ?thesis unfolding assms(3) by (simp add: challenges_ok_def)
qed

definition demo_challenges :: challenge_store where
  "demo_challenges = fold challenge_step [ChIssue (Some [7]) ''k'' [] [] 0] (empty_challenges 0)"

lemma demo_challenge_spends:
  "spend ''k'' ''n'' 0 demo_challenges = (Some [7], snd (spend ''k'' ''n'' 0 demo_challenges))"
  "spend ''k'' ''n'' 1 (fold challenge_step [ChDrop ''j''] (snd (spend ''k'' ''n'' 0 demo_challenges)))
    = (Some [7], snd (spend ''k'' ''n'' 0 demo_challenges))"
  by (simp_all add: demo_challenges_def issue_challenge_def empty_challenges_def Let_def challenge_cap_def
      store_full_def put_challenge_def maxPendingChallenges_def spend_def live_entry_def deviceChallengeTTL_def drop_challenge_def)

end
