(* ===== verification/Accounting.thy ===== *)
theory Accounting
  imports Delegation
begin

text \<open>
  Co-signed usage receipts: \<open>core/accounting\<close>. An exit proposes a byte count over a session, the
  client co-signs it only if it counted the same, and either may later hand the receipt to a
  coordinator, with a separate client signature over the saturation bit. Ed25519 is a parameter;
  the JSON messages of the exchange are passed as values.
\<close>

record receipt =
  rc_SessionID :: string
  rc_Seq :: uint64
  rc_IntervalSec :: uint32
  rc_Bytes :: uint64
  rc_ExitID :: string
  rc_ExitAcctPub :: bytes
  rc_ClientAcctPub :: bytes
  rc_ExitSig :: bytes
  rc_ClientSig :: bytes
  rc_Saturated :: bool

datatype accounting_error =
  MalformedExitKey | MalformedClientKey | BadExitSig | BadClientSig | BadReportSig | ByteMismatch uint64 uint64
| BadClaimSig | CosignedUnverifiable accounting_error

definition appendString :: "bytes \<Rightarrow> string \<Rightarrow> bytes" where
  "appendString b s = b @ put_uint32 (of_nat (length s)) @ bytes_of_string s"

definition canonical :: "string \<Rightarrow> uint64 \<Rightarrow> uint32 \<Rightarrow> uint64 \<Rightarrow> string \<Rightarrow> bytes" where
  "canonical sessionID seq intervalSec bytesN exitID =
     (let b = appendString [] sessionID;
          b = b @ put_uint64 seq;
          b = b @ put_uint32 intervalSec;
          b = b @ put_uint64 bytesN
      in appendString b exitID)"

definition receipt_canonical :: "receipt \<Rightarrow> bytes" where
  "receipt_canonical r = canonical (rc_SessionID r) (rc_Seq r) (rc_IntervalSec r) (rc_Bytes r) (rc_ExitID r)"

definition receipt_Verify :: "(bytes \<Rightarrow> bytes \<Rightarrow> bytes \<Rightarrow> bool) \<Rightarrow> receipt \<Rightarrow> accounting_error option" where
  "receipt_Verify verify r =
     (if length (rc_ExitAcctPub r) \<noteq> PublicKeySize then Some MalformedExitKey
      else if length (rc_ClientAcctPub r) \<noteq> PublicKeySize then Some MalformedClientKey
      else
        (let c = receipt_canonical r
         in if \<not> verify (rc_ExitAcctPub r) c (rc_ExitSig r) then Some BadExitSig
            else if \<not> verify (rc_ClientAcctPub r) c (rc_ClientSig r) then Some BadClientSig
            else None))"

definition capacityReportDomain :: bytes where
  "capacityReportDomain = bytes_of_string ''bacchus-capacity-report'' @ [0]"

definition reportCanonical :: "receipt \<Rightarrow> bytes" where
  "reportCanonical r = capacityReportDomain @ receipt_canonical r @ [if rc_Saturated r then 1 else 0]"

definition VerifyReport :: "(bytes \<Rightarrow> bytes \<Rightarrow> bytes \<Rightarrow> bool) \<Rightarrow> receipt \<Rightarrow> bytes \<Rightarrow> accounting_error option" where
  "VerifyReport verify r sig =
     (if length (rc_ClientAcctPub r) \<noteq> PublicKeySize then Some MalformedClientKey
      else if \<not> verify (rc_ClientAcctPub r) (reportCanonical r) sig then Some BadReportSig
      else None)"

section \<open>The exchange\<close>

record claim_msg =
  cm_SessionID :: string
  cm_Seq :: uint64
  cm_IntervalSec :: uint32
  cm_Bytes :: uint64
  cm_ExitID :: string
  cm_ExitAcctPub :: bytes
  cm_ExitSig :: bytes

record ack_msg =
  am_OK :: bool
  am_ClientAcctPub :: bytes
  am_ClientSig :: bytes
  am_LocalBytes :: uint64

definition Reconcile :: "uint64 \<Rightarrow> uint64 \<Rightarrow> bool" where
  "Reconcile localBytes claimed \<longleftrightarrow> localBytes = claimed"

text \<open>\<open>ExitPropose\<close> up to its read: the claim it sends. A key is its public half and a signer.\<close>

record acct_key =
  ak_pub :: bytes
  ak_sign :: "bytes \<Rightarrow> bytes"

definition ExitPropose_claim ::
    "acct_key \<Rightarrow> string \<Rightarrow> string \<Rightarrow> uint64 \<Rightarrow> uint32 \<Rightarrow> uint64 \<Rightarrow> claim_msg" where
  "ExitPropose_claim key exitID sessionID seq intervalSec bytesN =
     \<lparr>cm_SessionID = sessionID, cm_Seq = seq, cm_IntervalSec = intervalSec, cm_Bytes = bytesN,
      cm_ExitID = exitID, cm_ExitAcctPub = ak_pub key,
      cm_ExitSig = ak_sign key (canonical sessionID seq intervalSec bytesN exitID)\<rparr>"

text \<open>\<open>ExitPropose\<close> from its read on: what it makes of the acknowledgement.\<close>

definition ExitPropose_ack ::
    "(bytes \<Rightarrow> bytes \<Rightarrow> bytes \<Rightarrow> bool) \<Rightarrow> claim_msg \<Rightarrow> ack_msg \<Rightarrow> accounting_error + receipt" where
  "ExitPropose_ack verify claim ack =
     (if \<not> am_OK ack then Inl (ByteMismatch (cm_Bytes claim) (am_LocalBytes ack))
      else
        (let r = \<lparr>rc_SessionID = cm_SessionID claim, rc_Seq = cm_Seq claim, rc_IntervalSec = cm_IntervalSec claim,
               rc_Bytes = cm_Bytes claim, rc_ExitID = cm_ExitID claim, rc_ExitAcctPub = cm_ExitAcctPub claim,
               rc_ClientAcctPub = am_ClientAcctPub ack, rc_ExitSig = cm_ExitSig claim,
               rc_ClientSig = am_ClientSig ack, rc_Saturated = False\<rparr>
         in case receipt_Verify verify r of
              Some err \<Rightarrow> Inl (CosignedUnverifiable err)
            | None \<Rightarrow> Inr r))"

text \<open>\<open>ClientCosign\<close>: the acknowledgement it sends and what it returns.\<close>

definition ClientCosign ::
    "(bytes \<Rightarrow> bytes \<Rightarrow> bytes \<Rightarrow> bool) \<Rightarrow> acct_key \<Rightarrow> uint64 \<Rightarrow> claim_msg \<Rightarrow> ack_msg \<times> (accounting_error + receipt)" where
  "ClientCosign verify key localBytes claim =
     (let c = canonical (cm_SessionID claim) (cm_Seq claim) (cm_IntervalSec claim) (cm_Bytes claim) (cm_ExitID claim);
          nack = \<lparr>am_OK = False, am_ClientAcctPub = [], am_ClientSig = [], am_LocalBytes = localBytes\<rparr>
      in if length (cm_ExitAcctPub claim) \<noteq> PublicKeySize \<or> \<not> verify (cm_ExitAcctPub claim) c (cm_ExitSig claim)
         then (nack, Inl BadClaimSig)
         else if \<not> Reconcile localBytes (cm_Bytes claim) then (nack, Inl (ByteMismatch (cm_Bytes claim) localBytes))
         else
           (let sig = ak_sign key c;
                r = \<lparr>rc_SessionID = cm_SessionID claim, rc_Seq = cm_Seq claim, rc_IntervalSec = cm_IntervalSec claim,
                  rc_Bytes = cm_Bytes claim, rc_ExitID = cm_ExitID claim, rc_ExitAcctPub = cm_ExitAcctPub claim,
                  rc_ClientAcctPub = ak_pub key, rc_ExitSig = cm_ExitSig claim, rc_ClientSig = sig,
                  rc_Saturated = False\<rparr>
            in (\<lparr>am_OK = True, am_ClientAcctPub = ak_pub key, am_ClientSig = sig, am_LocalBytes = 0\<rparr>,
                case receipt_Verify verify r of Some err \<Rightarrow> Inl err | None \<Rightarrow> Inr r)))"

section \<open>The signed bytes name one receipt\<close>

definition receipt_ok :: "receipt \<Rightarrow> bool" where
  "receipt_ok r \<longleftrightarrow> length (rc_SessionID r) < 2 ^ 30 \<and> length (rc_ExitID r) < 2 ^ 30"

lemma put_uint64_inject: "put_uint64 v = put_uint64 w \<longleftrightarrow> v = w"
proof
  assume "put_uint64 v = put_uint64 w"
  then have "put_uint32 (ucast (drop_bit 32 v)) = put_uint32 (ucast (drop_bit 32 w))"
      "put_uint32 (ucast v) = put_uint32 (ucast w)"
    unfolding put_uint64_def by (simp_all add: append_eq_append_conv)
  then have hi: "(ucast (drop_bit 32 v) :: uint32) = ucast (drop_bit 32 w)" and lo: "(ucast v :: uint32) = ucast w"
    by (simp_all add: put_uint32_inject)
  show "v = w"
  proof (rule bit_word_eqI)
    fix n
    assume "n < LENGTH(64)"
    then show "bit v n \<longleftrightarrow> bit w n"
      using arg_cong [OF hi, of "\<lambda>x. bit x (n - 32)"] arg_cong [OF lo, of "\<lambda>x. bit x n"]
      by (cases "n < 32") (auto simp: bit_ucast_iff bit_drop_bit_eq)
  qed
qed simp

lemma canonical_inject:
  assumes "length s < 2 ^ 32" and "length s' < 2 ^ 32"
  shows "canonical s q i b x = canonical s' q' i' b' x' \<longleftrightarrow> s = s' \<and> q = q' \<and> i = i' \<and> b = b' \<and> x = x'"
proof
  assume eq: "canonical s q i b x = canonical s' q' i' b' x'"
  then have "length s = length s'"
    using put_length_inject [OF assms] by (simp add: canonical_def appendString_def Let_def append_eq_append_conv)
  with eq have "s = s' \<and> put_uint64 q = put_uint64 q' \<and> put_uint32 i = put_uint32 i' \<and> put_uint64 b = put_uint64 b'
      \<and> bytes_of_string x = bytes_of_string x'"
    by (simp add: canonical_def appendString_def Let_def append_eq_append_conv)
  then show "s = s' \<and> q = q' \<and> i = i' \<and> b = b' \<and> x = x'"
    by (simp add: put_uint64_inject put_uint32_inject)
qed simp

lemma canonical_head: "take 4 (receipt_canonical r) = put_uint32 (of_nat (length (rc_SessionID r)))"
  by (simp add: receipt_canonical_def canonical_def appendString_def Let_def)

lemma report_head: "nat_of_be (take 4 (reportCanonical r)) = 1650549603"
  by (simp add: reportCanonical_def capacityReportDomain_def bytes_of_string_def nat_of_be_def byte_of_char_def)

text \<open>the bytes a receipt signature covers determine the session, interval, count and exit, the
  bytes a capacity report signature covers determine those and the saturation bit, and no bytes are
  both: a co-signature cannot be replayed as a report, nor the bit of a report flipped.\<close>

lemma receipt_bytes_unambiguous:
  assumes "receipt_ok r" and "receipt_ok r'"
  shows "(receipt_canonical r = receipt_canonical r' \<longleftrightarrow>
      rc_SessionID r = rc_SessionID r' \<and> rc_Seq r = rc_Seq r' \<and> rc_IntervalSec r = rc_IntervalSec r'
      \<and> rc_Bytes r = rc_Bytes r' \<and> rc_ExitID r = rc_ExitID r')
    \<and> (reportCanonical r = reportCanonical r' \<longleftrightarrow>
      receipt_canonical r = receipt_canonical r' \<and> rc_Saturated r = rc_Saturated r')
    \<and> reportCanonical r \<noteq> receipt_canonical r'"
proof -
  have len: "length (rc_SessionID r) < 2 ^ 32" "length (rc_SessionID r') < 2 ^ 32"
    using assms by (simp_all add: receipt_ok_def)
  have "reportCanonical r \<noteq> receipt_canonical r'"
  proof
    assume "reportCanonical r = receipt_canonical r'"
    then have "nat_of_be (put_uint32 (of_nat (length (rc_SessionID r')))) = 1650549603"
      using report_head [of r] canonical_head [of r'] by simp
    then have "length (rc_SessionID r') = 1650549603"
      using len(2) by (simp add: nat_of_be_put_uint32 unat_of_nat)
    then show False using assms(2) by (simp add: receipt_ok_def)
  qed
  moreover have "reportCanonical r = reportCanonical r' \<longleftrightarrow>
      receipt_canonical r = receipt_canonical r' \<and> rc_Saturated r = rc_Saturated r'"
    by (auto simp: reportCanonical_def)
  ultimately show ?thesis
    using canonical_inject [OF len] by (simp add: receipt_canonical_def)
qed

text \<open>Keys whose signatures verify.\<close>

definition key_ok :: "(bytes \<Rightarrow> bytes \<Rightarrow> bytes \<Rightarrow> bool) \<Rightarrow> acct_key \<Rightarrow> bool" where
  "key_ok verify k \<longleftrightarrow> length (ak_pub k) = PublicKeySize \<and> (\<forall>m. verify (ak_pub k) m (ak_sign k m))"

text \<open>the exchange ends with both sides holding the same receipt, signed by both over the
  exit's count, when the client counted the same number of bytes; otherwise both sides report the
  mismatch with both counts and no receipt exists.\<close>

lemma exchange_agrees:
  assumes "key_ok verify ek" and "key_ok verify ck"
    and "claim = ExitPropose_claim ek exitID sid seq i n" and "ClientCosign verify ck localBytes claim = (ack, res)"
  shows "if localBytes = n
    then \<exists>r. res = Inr r \<and> ExitPropose_ack verify claim ack = Inr r \<and> receipt_Verify verify r = None
      \<and> rc_Bytes r = n \<and> rc_SessionID r = sid \<and> rc_Seq r = seq \<and> rc_ExitID r = exitID
    else res = Inl (ByteMismatch n localBytes)
      \<and> ExitPropose_ack verify claim ack = Inl (ByteMismatch n localBytes)"
proof (cases "localBytes = n")
  case True
  let ?c = "canonical sid seq i n exitID"
  let ?r = "\<lparr>rc_SessionID = sid, rc_Seq = seq, rc_IntervalSec = i, rc_Bytes = n, rc_ExitID = exitID,
      rc_ExitAcctPub = ak_pub ek, rc_ClientAcctPub = ak_pub ck, rc_ExitSig = ak_sign ek ?c,
      rc_ClientSig = ak_sign ck ?c, rc_Saturated = False\<rparr>"
  have "receipt_Verify verify ?r = None"
    using assms(1,2) by (simp add: receipt_Verify_def receipt_canonical_def key_ok_def)
  then show ?thesis
    using assms True
    by (auto simp: ClientCosign_def ExitPropose_claim_def ExitPropose_ack_def Reconcile_def key_ok_def Let_def)
next
  case False
  then show ?thesis
    using assms
    by (auto simp: ClientCosign_def ExitPropose_claim_def ExitPropose_ack_def Reconcile_def key_ok_def Let_def)
qed

definition demo_acct_key :: "byte \<Rightarrow> acct_key" where
  "demo_acct_key b = \<lparr>ak_pub = replicate 32 b, ak_sign = (\<lambda>m. replicate 64 b)\<rparr>"

definition demo_acct_verify :: "bytes \<Rightarrow> bytes \<Rightarrow> bytes \<Rightarrow> bool" where
  "demo_acct_verify pub m sig \<longleftrightarrow> sig = replicate 64 (hd pub)"

lemma demo_acct_ok: "key_ok demo_acct_verify (demo_acct_key b)"
  by (simp add: key_ok_def demo_acct_verify_def demo_acct_key_def PublicKeySize_def)

definition demo_receipt :: "bool \<Rightarrow> receipt" where
  "demo_receipt sat =
     \<lparr>rc_SessionID = ''s'', rc_Seq = 1, rc_IntervalSec = 30, rc_Bytes = 7, rc_ExitID = ''x'',
      rc_ExitAcctPub = [], rc_ClientAcctPub = [], rc_ExitSig = [], rc_ClientSig = [], rc_Saturated = sat\<rparr>"

end
