(* ===== verification/Registry.thy ===== *)
theory Registry
  imports Rating Policy Country Admission Device Accounting
begin

text \<open>
  The coordinator's state: the globals of \<open>cmd/coordinator/main.go\<close>, its messages and its
  registry entries. A Go map is an association list with distinct keys; ranging over it is running
  through the list, so the order of the list is the iteration order of that range, which Go leaves
  arbitrary, and a statement for every list is a statement for every order. The texts a peer is
  sent as a reason are the constructors of \<open>reason\<close>.
\<close>

section \<open>Refusals\<close>

datatype assign_refusal =
  refuseNoCountry | refuseCountryBusy | refuseNoHop | refuseHopNotRelayMode | refuseNoNonce
| refuseUnknownTier

datatype serve_refusal =
  NoValidRelease string version | BelowServingVersion version version
| BelowDeclaredQuota uint64 uint64 | BelowMeasured rate rate

datatype device_refusal = NoChallenge | WrongChallenge | DeviceError device_error

datatype reason =
  NoReason | Refused assign_refusal | Unadmitted admission_error | Unserving serve_refusal
| NoEnforceablePolicy | BadHello hello_reject | BadDevice device_refusal | PeerReason string

section \<open>Messages\<close>

record country_info =
  ci_Country :: string
  ci_Exits :: int
  ci_Available :: int
  ci_Busy :: bool
  ci_PingMs :: int

record wire =
  w_Type :: string
  w_Role :: string
  w_ID :: string
  w_Country :: string
  w_Addr :: string
  w_Mode :: string
  w_Session :: string
  w_ExitID :: string
  w_FirstHop :: string
  w_Nonce :: string
  w_ExcludeSessions :: "string list"
  w_ExitAddr :: string
  w_Countries :: "country_info list"
  w_SDP :: string
  w_Cand :: bytes
  w_Magic :: string
  w_Version :: int
  w_Capabilities :: "string list"
  w_Reason :: reason
  w_Cred :: string
  w_Release :: string
  w_Build :: string
  w_Relay :: string
  w_RelayTag :: string
  w_IngressPort :: int
  w_SpeedCap :: uint64
  w_DeclaredQuotaBytes :: uint64
  w_SessionCapBps :: uint64
  w_QuotaState :: string
  w_Receipt :: "receipt option"
  w_ReportSig :: bytes
  w_Challenge :: string
  w_DeviceCred :: string
  w_IssuerCert :: string
  w_DeviceAssert :: string

definition zero_wire :: wire where
  "zero_wire =
     \<lparr>w_Type = [], w_Role = [], w_ID = [], w_Country = [], w_Addr = [], w_Mode = [], w_Session = [],
      w_ExitID = [], w_FirstHop = [], w_Nonce = [], w_ExcludeSessions = [], w_ExitAddr = [],
      w_Countries = [], w_SDP = [], w_Cand = [], w_Magic = [], w_Version = 0, w_Capabilities = [],
      w_Reason = NoReason, w_Cred = [], w_Release = [], w_Build = [], w_Relay = [], w_RelayTag = [],
      w_IngressPort = 0, w_SpeedCap = 0, w_DeclaredQuotaBytes = 0, w_SessionCapBps = 0,
      w_QuotaState = [], w_Receipt = None, w_ReportSig = [], w_Challenge = [], w_DeviceCred = [],
      w_IssuerCert = [], w_DeviceAssert = []\<rparr>"

section \<open>Registry entries\<close>

record exit_node =
  x_id :: string
  x_tcpAddr :: string
  x_udp :: "udp_addr option"
  x_release :: string
  x_silentWarned :: bool
  x_speedCap :: uint64
  x_declaredQuota :: uint64
  x_exhausted :: bool
  x_lastSeen :: time
  x_country :: string
  x_countrySource :: string
  x_declaredCountry :: string

record relay_node =
  rl_id :: string
  rl_addr :: udp_addr
  rl_ingressPort :: int
  rl_release :: string
  rl_silentWarned :: bool
  rl_speedCap :: uint64
  rl_declaredQuota :: uint64
  rl_exhausted :: bool
  rl_lastSeen :: time
  rl_country :: string
  rl_countrySource :: string
  rl_declaredCountry :: string

record session =
  ss_client :: udp_addr
  ss_peer :: udp_addr
  ss_relayID :: string
  ss_exitID :: string
  ss_signaled :: bool
  ss_answered :: bool
  ss_lastSeen :: time

text \<open>An answered connect, held so that its retransmitted copies replay it (\<open>idempotency.go\<close>).\<close>

record minted_connect =
  mc_peer :: udp_addr
  mc_assign :: wire
  mc_reply :: wire
  mc_at :: time

section \<open>The coordinator\<close>

record coord =
  co_up :: "string \<Rightarrow> string"
  co_ratings :: "rating_store option"
  co_gate :: policy_gate
  co_admission_env :: admission_env
  co_admission :: "admission_verifier option"
  co_device_env :: device_env
  co_device :: "device_verifier option"
  co_deviceAudience :: string
  co_challenges :: challenge_store
  co_geo :: geo_env
  co_asOf :: "bytes \<Rightarrow> string"
  co_exitClass :: "(string \<Rightarrow> int option) option"
  co_minShare :: rate
  co_serveFloor :: rate
  co_servingFloor :: version
  co_release :: string
  co_helloLogged :: "time option"
  co_helloSuppressed :: int
  co_exits :: "(string \<times> exit_node) list"
  co_relays :: "(string \<times> relay_node) list"
  co_sessions :: "(string \<times> session) list"
  co_minted :: "(string \<times> minted_connect) list"

definition ttl :: duration where "ttl = 35 * 1000000000"

definition sessionTTL :: duration where "sessionTTL = 2 * 60 * 1000000000"

definition answerGrace :: duration where "answerGrace = 30 * 1000000000"

end
