(* ===== verification/Assign.thy ===== *)
theory Assign
  imports Registry
begin

text \<open>
  The coordinator's country-scoped exit assignment: the capacity gates of \<open>capacity_feed.go\<close>, tier
  resolution of \<open>tier.go\<close>, the serving fence of \<open>main.go\<close> and \<open>policy.go\<close>, and all of
  \<open>assign.go\<close>, over the state of theory \<open>Registry\<close>.
\<close>

section \<open>Capacity gates (capacity_feed.go)\<close>

definition capacityParams :: params where
  "capacityParams = DefaultParams"

definition measuredUsable :: "coord \<Rightarrow> string \<Rightarrow> uint64 \<Rightarrow> uint64" where
  "measuredUsable c nodeID declared =
     (case co_ratings c of None \<Rightarrow> declared | Some st \<Rightarrow> store_Usable st nodeID declared)"

definition meetsServeFloor :: "coord \<Rightarrow> string \<Rightarrow> uint64 \<Rightarrow> bool" where
  "meetsServeFloor c nodeID declared \<longleftrightarrow> measuredUsable c nodeID declared \<ge> co_serveFloor c"

section \<open>The serving fence (main.go, policy.go)\<close>

definition versionCheck :: "coord \<Rightarrow> string \<Rightarrow> serve_refusal option" where
  "versionCheck c release =
     (let fl = policyServingFloor (co_servingFloor c) (co_gate c)
      in if fl = zero_version then None
         else case Parse release of
                Inl _ \<Rightarrow> Some (NoValidRelease release fl)
              | Inr nv \<Rightarrow> if \<not> ServingAllowed nv fl then Some (BelowServingVersion nv fl) else None)"

definition meetsDeclaredQuotaFloor :: "coord \<Rightarrow> uint64 \<Rightarrow> serve_refusal option" where
  "meetsDeclaredQuotaFloor c declared =
     (let fl = policyDeclaredQuotaFloor (co_gate c)
      in if fl = 0 then None
         else if declared = 0 then None
         else if declared < fl then Some (BelowDeclaredQuota declared fl)
         else None)"

definition meetsMeasuredFloor :: "coord \<Rightarrow> string \<Rightarrow> serve_refusal option" where
  "meetsMeasuredFloor c nodeID =
     (let fl = policyMeasuredFloor (co_gate c)
      in if fl = 0 then None
         else case co_ratings c of
                None \<Rightarrow> None
              | Some st \<Rightarrow>
                  (case TrustedRating st nodeID of
                     None \<Rightarrow> None
                   | Some measured \<Rightarrow> if measured < fl then Some (BelowMeasured measured fl) else None))"

definition servingCheck :: "coord \<Rightarrow> string \<Rightarrow> string \<Rightarrow> uint64 \<Rightarrow> serve_refusal option" where
  "servingCheck c release nodeID declaredQuota =
     (case versionCheck c release of
        Some r \<Rightarrow> Some r
      | None \<Rightarrow>
          (case meetsDeclaredQuotaFloor c declaredQuota of
             Some r \<Rightarrow> Some r
           | None \<Rightarrow> meetsMeasuredFloor c nodeID))"

section \<open>Tiers (tier.go)\<close>

definition zero_tier :: tier_limit where
  "zero_tier = \<lparr>t_Trust = [], t_Plan = [], t_SpeedCapBps = 0, t_Priority = 0, t_EndpointQuality = 0\<rparr>"

definition resolveTier :: "coord \<Rightarrow> credential \<Rightarrow> assign_refusal + tier_limit" where
  "resolveTier c cred =
     (if \<not> g_configured (co_gate c) then Inr zero_tier
      else if co_admission c = None then Inr zero_tier
      else case g_held (co_gate c) of
             None \<Rightarrow> Inl refuseUnknownTier
           | Some p \<Rightarrow>
               (case Limits p (cr_Trust cred) (cr_Plan cred) of
                  Inl _ \<Rightarrow> Inl refuseUnknownTier
                | Inr limit \<Rightarrow> Inr limit))"

definition tierMinShare :: "coord \<Rightarrow> tier_limit \<Rightarrow> rate" where
  "tierMinShare c l =
     (if t_Priority l \<le> 1 then co_minShare c else co_minShare c div word_of_int (t_Priority l))"

definition meetsEndpointQuality :: "coord \<Rightarrow> string \<Rightarrow> tier_limit \<Rightarrow> bool" where
  "meetsEndpointQuality c nodeID l =
     (if t_EndpointQuality l \<le> 0 then True
      else case co_exitClass c of
             None \<Rightarrow> True
           | Some class_of \<Rightarrow>
               (case class_of nodeID of
                  None \<Rightarrow> True
                | Some cl \<Rightarrow> \<not> cl < t_EndpointQuality l))"

section \<open>Assignment (assign.go)\<close>

definition resolveFirstHop :: "coord \<Rightarrow> string \<Rightarrow> assign_refusal + exit_node" where
  "resolveFirstHop c hop =
     (case map_of (co_exits c) hop of
        None \<Rightarrow> Inl refuseNoHop
      | Some e \<Rightarrow> if x_exhausted e \<or> x_udp e = None then Inl refuseNoHop else Inr e)"

text \<open>The usable rate and whether a measured rating exists.\<close>

definition exitRating :: "coord \<Rightarrow> string \<Rightarrow> uint64 \<Rightarrow> rate \<times> bool" where
  "exitRating c nodeID declared =
     (case co_ratings c of
        None \<Rightarrow> (declared, False)
      | Some st \<Rightarrow> (store_Usable st nodeID declared, Measured st nodeID \<noteq> None))"

definition exitSessions :: "coord \<Rightarrow> time \<Rightarrow> string \<Rightarrow> int" where
  "exitSessions c now x =
     int (length (filter (\<lambda>s. ss_exitID s \<noteq> [] \<and> \<not> time_sub now (ss_lastSeen s) > sessionTTL
       \<and> ss_exitID s = x) (map snd (co_sessions c))))"

definition exitAssignable :: "coord \<Rightarrow> exit_node \<Rightarrow> int \<Rightarrow> tier_limit \<Rightarrow> bool" where
  "exitAssignable c e sessions l =
     (if x_exhausted e then False
      else if x_country e = countryUnknown then False
      else if \<not> meetsServeFloor c (x_id e) (x_speedCap e) then False
      else if \<not> meetsEndpointQuality c (x_id e) l then False
      else
        (let (usable, rated) = exitRating c (x_id e) (x_speedCap e)
         in \<not> Full usable sessions (Unmetered (x_speedCap e) rated) (tierMinShare c l)))"

definition bump :: "bool \<Rightarrow> string \<Rightarrow> (string \<times> country_info) list \<Rightarrow> (string \<times> country_info) list" where
  "bump assignable cc agg =
     (let ci = (case map_of agg cc of
          Some ci \<Rightarrow> ci
        | None \<Rightarrow> \<lparr>ci_Country = cc, ci_Exits = 0, ci_Available = 0, ci_Busy = False, ci_PingMs = 0\<rparr>);
          ci = ci\<lparr>ci_Exits := ci_Exits ci + 1\<rparr>;
          ci = (if assignable then ci\<lparr>ci_Available := ci_Available ci + 1\<rparr> else ci)
      in AList.update cc ci agg)"

fun aggregate ::
    "coord \<Rightarrow> (string \<Rightarrow> int) \<Rightarrow> tier_limit \<Rightarrow> exit_node list \<Rightarrow> (string \<times> country_info) list
      \<Rightarrow> (string \<times> country_info) list" where
  "aggregate c load l [] agg = agg"
| "aggregate c load l (e # es) agg =
     aggregate c load l es
       (if x_country e = countryUnknown then agg
        else bump (exitAssignable c e (load (x_id e)) l) (x_country e) agg)"

definition countrySnapshot :: "coord \<Rightarrow> time \<Rightarrow> tier_limit \<Rightarrow> country_info list" where
  "countrySnapshot c now l =
     sort_key ci_Country
       (map (\<lambda>(_, ci). ci\<lparr>ci_Busy := (ci_Available ci = 0)\<rparr>)
         (aggregate c (exitSessions c now) l (map snd (co_exits c)) []))"

definition maxExcludeSessions :: nat where "maxExcludeSessions = 4"

definition minCandidatesAfterExclude :: nat where "minCandidatesAfterExclude = 2"

definition excludedExits :: "coord \<Rightarrow> udp_addr \<Rightarrow> string list \<Rightarrow> string list" where
  "excludedExits c src sids =
     List.map_filter
       (\<lambda>sid. case map_of (co_sessions c) sid of
          None \<Rightarrow> None
        | Some s \<Rightarrow>
            if ss_exitID s = [] then None
            else if ua_String (ss_client s) \<noteq> ua_String src then None
            else Some (ss_exitID s))
       (take maxExcludeSessions sids)"

definition rankShare :: "coord \<Rightarrow> exit_node \<Rightarrow> int \<Rightarrow> rate" where
  "rankShare c e sessions =
     (let (usable, rated) = exitRating c (x_id e) (x_speedCap e)
      in RankShare usable sessions rated (p_Ceiling capacityParams))"

definition tierFloor :: "coord \<Rightarrow> exit_node list \<Rightarrow> (string \<Rightarrow> int) \<Rightarrow> rate" where
  "tierFloor c candidates load =
     OctaveFloor (fold (\<lambda>e best. let s = rankShare c e (load (x_id e)) in if s > best then s else best)
       candidates 0)"

definition apply_exclusions :: "string list \<Rightarrow> exit_node list \<Rightarrow> exit_node list" where
  "apply_exclusions excl candidates =
     (if excl = [] then candidates
      else
        (let kept = filter (\<lambda>e. x_id e \<notin> set excl) candidates
         in if length kept \<ge> minCandidatesAfterExclude then kept else candidates))"

definition chooseExit ::
    "coord \<Rightarrow> string \<Rightarrow> string list \<Rightarrow> time \<Rightarrow> tier_limit \<Rightarrow> assign_refusal + exit_node" where
  "chooseExit c country excl now l =
     (let cc = Canonical (co_up c) country
      in if cc = countryUnknown then Inl refuseNoCountry
         else
           (let load = exitSessions c now;
                here = filter (\<lambda>e. x_country e = cc) (map snd (co_exits c));
                candidates = filter (\<lambda>e. exitAssignable c e (load (x_id e)) l) here
            in if here = [] then Inl refuseNoCountry
               else if candidates = [] then Inl refuseCountryBusy
               else
                 (let candidates = apply_exclusions excl candidates;
                      fl = tierFloor c candidates load
                  in case filter (\<lambda>e. rankShare c e (load (x_id e)) \<ge> fl) candidates of
                       e # _ \<Rightarrow> Inr e
                     | [] \<Rightarrow> Inl refuseCountryBusy)))"

section \<open>Ranking\<close>

lemma ceiling_value: "unat (p_Ceiling capacityParams) = 5000000"
  by (simp add: capacityParams_def DefaultParams_def unit_defs)

lemma rankShare_bound: "unat (rankShare c e n) \<le> 5000000"
  using RankShare_le_ceiling [of _ n _ "p_Ceiling capacityParams"] ceiling_value
  by (simp add: rankShare_def Let_def case_prod_unfold word_le_nat_alt)

definition best_share :: "coord \<Rightarrow> exit_node list \<Rightarrow> (string \<Rightarrow> int) \<Rightarrow> rate" where
  "best_share c cs load = Max (insert 0 ((\<lambda>e. rankShare c e (load (x_id e))) ` set cs))"

lemma fold_max: "fold (\<lambda>e b. if f e > b then f e else b) cs b = Max (insert b (f ` set cs))" for b :: rate
proof (induction cs arbitrary: b)
  case (Cons e cs)
  have "(if f e > b then f e else b) = max b (f e)" by (auto simp: max_def)
  then show ?case
    using Cons.IH [of "max b (f e)"]
    by (cases "cs = []") (auto simp: max_def insert_commute Max_insert2)
qed simp

lemma tierFloor_best: "tierFloor c cs load = OctaveFloor (best_share c cs load)"
  by (simp add: tierFloor_def best_share_def Let_def fold_max [of "\<lambda>e. rankShare c e (load (x_id e))"])

lemma best_share_ge: "e \<in> set cs \<Longrightarrow> rankShare c e (load (x_id e)) \<le> best_share c cs load"
  by (simp add: best_share_def)

lemma best_share_attained:
  assumes "cs \<noteq> []"
  obtains e where "e \<in> set cs" "rankShare c e (load (x_id e)) = best_share c cs load"
proof -
  let ?f = "\<lambda>e. rankShare c e (load (x_id e))"
  have "best_share c cs load \<in> insert 0 (?f ` set cs)"
    unfolding best_share_def by (rule Max_in) simp_all
  moreover have "?f (hd cs) = 0" if "best_share c cs load = 0"
    using best_share_ge [of "hd cs" cs c load] assms that by simp
  ultimately have "\<exists>e \<in> set cs. ?f e = best_share c cs load"
  proof (elim insertE imageE)
    assume zero: "best_share c cs load = 0"
      and "best_share c cs load = 0 \<Longrightarrow> ?f (hd cs) = 0"
    then have "?f (hd cs) = best_share c cs load" by simp
    with hd_in_set [OF assms] show ?thesis by blast
  next
    fix e
    assume "best_share c cs load = ?f e" "e \<in> set cs"
    then show ?thesis by metis
  qed
  then show thesis using that by blast
qed

lemma best_share_not_max: "best_share c cs load \<noteq> - 1"
proof (cases "cs = []")
  case False
  then obtain e where "rankShare c e (load (x_id e)) = best_share c cs load"
    by (rule best_share_attained)
  then have "unat (best_share c cs load) \<le> 5000000"
    using rankShare_bound by metis
  moreover have "unat (- 1 :: rate) = 18446744073709551615"
    by (simp add: unsigned_minus_1_eq_mask mask_eq_exp_minus_1)
  ultimately show ?thesis by (intro notI) simp
qed (simp add: best_share_def)

lemma tier_nonempty:
  assumes "cs \<noteq> []"
  shows "filter (\<lambda>e. rankShare c e (load (x_id e)) \<ge> tierFloor c cs load) cs \<noteq> []"
proof -
  obtain e where "e \<in> set cs" "rankShare c e (load (x_id e)) = best_share c cs load"
    using assms by (rule best_share_attained)
  then have "e \<in> set cs \<and> tierFloor c cs load \<le> rankShare c e (load (x_id e))"
    by (simp add: tierFloor_best OctaveFloor_le)
  then show ?thesis by (auto simp: filter_empty_conv)
qed

text \<open>The members of the top tier are those within a factor of two of every candidate.\<close>

lemma tier_member:
  assumes "e \<in> set cs"
  shows "tierFloor c cs load \<le> rankShare c e (load (x_id e)) \<longleftrightarrow>
    (\<forall>e' \<in> set cs. unat (rankShare c e' (load (x_id e'))) \<le> 2 * unat (rankShare c e (load (x_id e))))"
proof -
  obtain m where m: "m \<in> set cs" "rankShare c m (load (x_id m)) = best_share c cs load"
    using best_share_attained [of cs c load] assms by (metis empty_iff list.set(1))
  have "tierFloor c cs load \<le> rankShare c e (load (x_id e)) \<longleftrightarrow>
      unat (best_share c cs load) \<le> 2 * unat (rankShare c e (load (x_id e)))"
    unfolding tierFloor_best OctaveFloor_band [OF best_share_not_max] ..
  also have "\<dots> \<longleftrightarrow> (\<forall>e' \<in> set cs. unat (rankShare c e' (load (x_id e'))) \<le> 2 * unat (rankShare c e (load (x_id e))))"
    using m best_share_ge [of _ cs c load] by (metis order.trans word_le_nat_alt)
  finally show ?thesis .
qed

section \<open>Candidates\<close>

definition candidates :: "coord \<Rightarrow> string \<Rightarrow> time \<Rightarrow> tier_limit \<Rightarrow> exit_node list" where
  "candidates c cc now l =
     filter (\<lambda>e. exitAssignable c e (exitSessions c now (x_id e)) l)
       (filter (\<lambda>e. x_country e = cc) (map snd (co_exits c)))"

lemma apply_exclusions_subset: "set (apply_exclusions excl cs) \<subseteq> set cs"
  by (auto simp: apply_exclusions_def Let_def)

lemma apply_exclusions_nonempty: "cs \<noteq> [] \<Longrightarrow> apply_exclusions excl cs \<noteq> []"
  by (auto simp: apply_exclusions_def Let_def minCandidatesAfterExclude_def)

lemma apply_exclusions_size: "min 2 (length cs) \<le> length (apply_exclusions excl cs)"
  by (auto simp: apply_exclusions_def Let_def minCandidatesAfterExclude_def)

lemma chooseExit_cases:
  assumes "Canonical (co_up c) country = cc"
  shows "chooseExit c country excl now l =
    (if cc = [] \<or> (\<forall>e \<in> snd ` set (co_exits c). x_country e \<noteq> cc) then Inl refuseNoCountry
     else if candidates c cc now l = [] then Inl refuseCountryBusy
     else Inr (hd (filter (\<lambda>e. rankShare c e (exitSessions c now (x_id e))
                  \<ge> tierFloor c (apply_exclusions excl (candidates c cc now l)) (exitSessions c now))
               (apply_exclusions excl (candidates c cc now l)))))"
proof -
  let ?cs = "apply_exclusions excl (candidates c cc now l)"
  have "candidates c cc now l \<noteq> [] \<Longrightarrow>
      filter (\<lambda>e. rankShare c e (exitSessions c now (x_id e)) \<ge> tierFloor c ?cs (exitSessions c now)) ?cs \<noteq> []"
    by (intro tier_nonempty apply_exclusions_nonempty)
  then show ?thesis
    using assms
    by (auto simp: chooseExit_def Let_def countryUnknown_def candidates_def filter_empty_conv
        split: list.splits)
qed

text \<open>the exit a country-scoped connect is given is registered in that country and
  assignable to this client; no candidate it was chosen over can offer more than twice its
  share; and unless honouring the client's exclusions would leave fewer than two candidates it
  is none of the excluded exits.\<close>

lemma choose_exit_sound:
  assumes "chooseExit c country excl now l = Inr e"
  shows "e \<in> snd ` set (co_exits c) \<and> x_country e = Canonical (co_up c) country
    \<and> exitAssignable c e (exitSessions c now (x_id e)) l
    \<and> (\<forall>e' \<in> set (apply_exclusions excl (candidates c (Canonical (co_up c) country) now l)).
         unat (rankShare c e' (exitSessions c now (x_id e')))
           \<le> 2 * unat (rankShare c e (exitSessions c now (x_id e))))
    \<and> (2 \<le> length (filter (\<lambda>e. x_id e \<notin> set excl) (candidates c (Canonical (co_up c) country) now l))
        \<longrightarrow> x_id e \<notin> set excl)"
proof -
  let ?cc = "Canonical (co_up c) country"
  let ?all = "candidates c ?cc now l"
  let ?cs = "apply_exclusions excl ?all"
  let ?tier = "filter (\<lambda>e. rankShare c e (exitSessions c now (x_id e)) \<ge> tierFloor c ?cs (exitSessions c now)) ?cs"
  have e: "e = hd ?tier" "?all \<noteq> []"
    using assms by (simp_all add: chooseExit_cases [OF refl] split: if_splits)
  have "?tier \<noteq> []"
    using e(2) by (intro tier_nonempty apply_exclusions_nonempty)
  then have mem: "e \<in> set ?tier" unfolding e(1) by (rule hd_in_set)
  then have "e \<in> set ?all" using apply_exclusions_subset [of excl ?all] by auto
  then have "e \<in> snd ` set (co_exits c)" "x_country e = ?cc"
    "exitAssignable c e (exitSessions c now (x_id e)) l"
    by (auto simp: candidates_def)
  moreover have "\<forall>e' \<in> set ?cs. unat (rankShare c e' (exitSessions c now (x_id e')))
      \<le> 2 * unat (rankShare c e (exitSessions c now (x_id e)))"
    using mem tier_member [of e ?cs c "exitSessions c now"] by simp
  moreover have "x_id e \<notin> set excl" if "2 \<le> length (filter (\<lambda>e. x_id e \<notin> set excl) ?all)"
  proof (cases "excl = []")
    case False
    with that have "?cs = filter (\<lambda>e. x_id e \<notin> set excl) ?all"
      by (simp add: apply_exclusions_def minCandidatesAfterExclude_def)
    with mem show ?thesis by simp
  qed simp
  ultimately show ?thesis by blast
qed

section \<open>The country list and the connect agree\<close>

definition zero_info :: "string \<Rightarrow> country_info" where
  "zero_info cc = \<lparr>ci_Country = cc, ci_Exits = 0, ci_Available = 0, ci_Busy = False, ci_PingMs = 0\<rparr>"

definition info_of :: "(string \<times> country_info) list \<Rightarrow> string \<Rightarrow> country_info" where
  "info_of agg cc = (case map_of agg cc of Some ci \<Rightarrow> ci | None \<Rightarrow> zero_info cc)"

definition counted :: "country_info \<Rightarrow> nat \<Rightarrow> nat \<Rightarrow> country_info" where
  "counted ci n a = ci\<lparr>ci_Exits := ci_Exits ci + int n, ci_Available := ci_Available ci + int a\<rparr>"

lemma counted_0 [simp]: "counted ci 0 0 = ci"
  by (simp add: counted_def)

lemma counted_counted [simp]: "counted (counted ci n a) m b = counted ci (n + m) (a + b)"
  by (simp add: counted_def)

lemma counted_country [simp]:
  "ci_Country (counted ci n a) = ci_Country ci" "ci_Exits (counted ci n a) = ci_Exits ci + int n"
  "ci_Available (counted ci n a) = ci_Available ci + int a"
  by (simp_all add: counted_def)

lemma bump_update: "bump b cc agg = AList.update cc (counted (info_of agg cc) 1 (if b then 1 else 0)) agg"
  by (cases "map_of agg cc") (simp_all add: bump_def Let_def info_of_def zero_info_def counted_def)

lemma info_of_Nil: "info_of [] cc = zero_info cc"
  by (simp add: info_of_def)

lemma info_of_bump:
  "info_of (bump b cc agg) k = (if k = cc then counted (info_of agg cc) 1 (if b then 1 else 0) else info_of agg k)"
  by (simp add: bump_update info_of_def update_conv)

lemma aggregate_info:
  "cc \<noteq> [] \<Longrightarrow> info_of (aggregate c load l es agg) cc =
    counted (info_of agg cc) (length (filter (\<lambda>e. x_country e = cc) es))
      (length (filter (\<lambda>e. x_country e = cc \<and> exitAssignable c e (load (x_id e)) l) es))"
  by (induction c load l es agg rule: aggregate.induct) (auto simp: info_of_bump countryUnknown_def)

lemma aggregate_keys:
  "fst ` set (aggregate c load l es agg) = fst ` set agg \<union> (x_country ` set es - {[]})"
  by (induction c load l es agg rule: aggregate.induct)
     (auto simp: bump_update dom_update countryUnknown_def)

lemma aggregate_distinct: "distinct (map fst agg) \<Longrightarrow> distinct (map fst (aggregate c load l es agg))"
  by (induction c load l es agg rule: aggregate.induct) (auto simp: bump_update distinct_update)

lemma set_update: "set (AList.update k v al) \<subseteq> insert (k, v) (set al)"
  by (induction al) auto

lemma aggregate_country:
  "\<forall>(k, ci) \<in> set agg. ci_Country ci = k \<Longrightarrow>
    \<forall>(k, ci) \<in> set (aggregate c load l es agg). ci_Country ci = k"
proof (induction c load l es agg rule: aggregate.induct)
  case (2 c load l e es agg)
  have "ci_Country (info_of agg k) = k" for k
    using 2(2) by (auto simp: info_of_def zero_info_def dest: map_of_SomeD split: option.splits)
  then have "\<forall>(k, ci) \<in> set (bump b (x_country e) agg). ci_Country ci = k" for b
    using 2(2) set_update [of "x_country e" _ agg] unfolding bump_update by fastforce
  then show ?case using 2 by simp
qed simp

lemma info_of_graph: "distinct (map fst al) \<Longrightarrow> set al = (\<lambda>k. (k, info_of al k)) ` fst ` set al"
  by (force simp: info_of_def image_iff)

text \<open>The line of one country, and the list as the lines of the countries exits are in.\<close>

definition country_line :: "coord \<Rightarrow> time \<Rightarrow> tier_limit \<Rightarrow> string \<Rightarrow> country_info" where
  "country_line c now l cc =
     \<lparr>ci_Country = cc, ci_Exits = int (length (filter (\<lambda>e. x_country e = cc) (map snd (co_exits c)))),
      ci_Available = int (length (candidates c cc now l)),
      ci_Busy = (candidates c cc now l = []), ci_PingMs = 0\<rparr>"

lemma country_line_sel [simp]: "ci_Country (country_line c now l cc) = cc"
  "ci_Busy (country_line c now l cc) \<longleftrightarrow> candidates c cc now l = []"
  by (simp_all add: country_line_def)

lemma aggregate_line:
  assumes "cc \<noteq> []"
  shows "(let ci = info_of (aggregate c (exitSessions c now) l (map snd (co_exits c)) []) cc
    in ci\<lparr>ci_Busy := ci_Available ci = 0\<rparr>) = country_line c now l cc"
  unfolding aggregate_info [OF assms] info_of_Nil candidates_def filter_filter country_line_def
  by (simp add: zero_info_def counted_def conj_commute del: filter_map length_filter_map)

lemma set_snapshot:
  "set (countrySnapshot c now l) = country_line c now l ` (x_country ` snd ` set (co_exits c) - {[]})"
proof -
  let ?agg = "aggregate c (exitSessions c now) l (map snd (co_exits c)) []"
  let ?fin = "\<lambda>ci. ci\<lparr>ci_Busy := ci_Available ci = 0\<rparr>"
  have "set (countrySnapshot c now l) = ?fin ` snd ` set ?agg"
    by (simp add: countrySnapshot_def image_image case_prod_unfold)
  also have "snd ` set ?agg = info_of ?agg ` fst ` set ?agg"
    by (subst info_of_graph) (auto simp: aggregate_distinct image_image)
  also have "fst ` set ?agg = x_country ` snd ` set (co_exits c) - {[]}"
    by (simp add: aggregate_keys)
  also have "?fin ` info_of ?agg ` (x_country ` snd ` set (co_exits c) - {[]})
      = country_line c now l ` (x_country ` snd ` set (co_exits c) - {[]})"
    unfolding image_comp [of ?fin]
    using aggregate_line [of _ c now l] by (intro image_cong) (auto simp: Let_def)
  finally show ?thesis .
qed

lemma snapshot_sorted: "sorted (map ci_Country (countrySnapshot c now l))"
  by (simp add: countrySnapshot_def)

lemma snapshot_countries_distinct: "distinct (map ci_Country (countrySnapshot c now l))"
proof -
  let ?agg = "aggregate c (exitSessions c now) l (map snd (co_exits c)) []"
  let ?fin = "\<lambda>(k :: string, ci). ci\<lparr>ci_Busy := ci_Available ci = 0\<rparr>"
  have "mset (map ci_Country (countrySnapshot c now l)) = mset (map (ci_Country \<circ> ?fin) ?agg)"
    by (simp add: countrySnapshot_def multiset.map_comp)
  also have "map (ci_Country \<circ> ?fin) ?agg = map fst ?agg"
    using aggregate_country [of "[]" c "exitSessions c now" l "map snd (co_exits c)"]
    by (intro map_cong) auto
  finally show ?thesis
    using aggregate_distinct [of "[]" c "exitSessions c now" l "map snd (co_exits c)"]
    by (metis mset_eq_imp_distinct_iff distinct.simps(1) list.map(1))
qed

text \<open>C7: the country list and the connect agree. For one registry, clock and tier, a connect
  for a country succeeds exactly when the list shows that country as not busy, is refused as busy
  exactly when the list shows it as busy, and is refused as unknown exactly when the list does not
  show it, whatever the client excludes; and the list names every country once, in order.\<close>

theorem country_list_matches_connect:
  "((\<exists>e. chooseExit c country excl now l = Inr e) \<longleftrightarrow>
      (\<exists>ci \<in> set (countrySnapshot c now l). ci_Country ci = Canonical (co_up c) country \<and> \<not> ci_Busy ci))
   \<and> (chooseExit c country excl now l = Inl refuseCountryBusy \<longleftrightarrow>
      (\<exists>ci \<in> set (countrySnapshot c now l). ci_Country ci = Canonical (co_up c) country \<and> ci_Busy ci))
   \<and> (chooseExit c country excl now l = Inl refuseNoCountry \<longleftrightarrow>
      Canonical (co_up c) country \<notin> ci_Country ` set (countrySnapshot c now l))
   \<and> sorted (map ci_Country (countrySnapshot c now l))
   \<and> distinct (map ci_Country (countrySnapshot c now l))"
proof -
  let ?cc = "Canonical (co_up c) country"
  have listed: "(\<exists>ci \<in> set (countrySnapshot c now l). ci_Country ci = ?cc \<and> P ci)
      \<longleftrightarrow> ?cc \<noteq> [] \<and> ?cc \<in> x_country ` snd ` set (co_exits c) \<and> P (country_line c now l ?cc)" for P
    unfolding set_snapshot by auto
  have "?cc \<notin> ci_Country ` set (countrySnapshot c now l) \<longleftrightarrow>
      ?cc = [] \<or> ?cc \<notin> x_country ` snd ` set (co_exits c)"
    unfolding set_snapshot image_image country_line_sel by blast
  moreover have "(\<forall>e \<in> snd ` set (co_exits c). x_country e \<noteq> ?cc) \<longleftrightarrow> ?cc \<notin> x_country ` snd ` set (co_exits c)"
    by (auto simp: image_iff)
  ultimately show ?thesis
    unfolding listed chooseExit_cases [OF refl]
    using snapshot_sorted snapshot_countries_distinct by simp
qed

section \<open>Which exits a connect may be given\<close>

lemma update_exits_simps [simp]:
  "exitRating (c\<lparr>co_exits := es\<rparr>) = exitRating c"
  "exitSessions (c\<lparr>co_exits := es\<rparr>) = exitSessions c"
  "exitAssignable (c\<lparr>co_exits := es\<rparr>) = exitAssignable c"
  "rankShare (c\<lparr>co_exits := es\<rparr>) = rankShare c"
proof -
  show rating: "exitRating (c\<lparr>co_exits := es\<rparr>) = exitRating c"
    by (intro ext) (simp add: exitRating_def)
  show "exitSessions (c\<lparr>co_exits := es\<rparr>) = exitSessions c"
    by (intro ext) (simp add: exitSessions_def)
  show "exitAssignable (c\<lparr>co_exits := es\<rparr>) = exitAssignable c"
    by (intro ext) (simp add: exitAssignable_def rating meetsServeFloor_def measuredUsable_def
        meetsEndpointQuality_def tierMinShare_def)
  show "rankShare (c\<lparr>co_exits := es\<rparr>) = rankShare c"
    by (intro ext) (simp add: rankShare_def rating)
qed

lemma exitAssignable_country: "exitAssignable c e n l \<Longrightarrow> x_country e \<noteq> []"
  by (simp add: exitAssignable_def countryUnknown_def split: if_splits)

lemma tierFloor_cong: "set cs = set cs' \<Longrightarrow> tierFloor (c\<lparr>co_exits := es\<rparr>) cs load = tierFloor c cs' load"
  by (simp add: tierFloor_best best_share_def)

lemma candidates_perm:
  "mset es = mset (co_exits c) \<Longrightarrow>
    mset (candidates (c\<lparr>co_exits := es\<rparr>) cc now l) = mset (candidates c cc now l)"
  by (simp add: candidates_def mset_filter)

lemma apply_exclusions_perm:
  assumes "mset cs = mset cs'"
  shows "mset (apply_exclusions excl cs) = mset (apply_exclusions excl cs')"
proof -
  have "mset (filter P cs) = mset (filter P cs')" for P using assms by (simp add: mset_filter)
  moreover from this have "length (filter P cs) = length (filter P cs')" for P
    by (metis size_mset)
  ultimately show ?thesis using assms by (simp add: apply_exclusions_def Let_def)
qed

lemma apply_exclusions_Cons:
  assumes "e \<in> set (apply_exclusions excl (e # cs))"
  shows "\<exists>rest. apply_exclusions excl (e # cs) = e # rest"
proof (cases "x_id e \<in> set excl")
  case False
  then show ?thesis by (simp add: apply_exclusions_def Let_def)
next
  case True
  then have "apply_exclusions excl (e # cs) = e # cs"
    using assms by (auto simp: apply_exclusions_def Let_def split: if_splits)
  then show ?thesis by blast
qed

text \<open>The top tier of a country's candidates, and the assignment in another iteration order.\<close>

definition top_tier :: "coord \<Rightarrow> string \<Rightarrow> string list \<Rightarrow> time \<Rightarrow> tier_limit \<Rightarrow> exit_node list \<Rightarrow> exit_node list" where
  "top_tier c cc excl now l es =
     filter (\<lambda>e. tierFloor c (apply_exclusions excl (candidates c cc now l)) (exitSessions c now)
         \<le> rankShare c e (exitSessions c now (x_id e))) es"

lemma same_after_exclusion:
  assumes "mset es = mset (co_exits c)"
  shows "set (apply_exclusions excl (candidates (c\<lparr>co_exits := es\<rparr>) cc now l))
    = set (apply_exclusions excl (candidates c cc now l))"
  using apply_exclusions_perm [OF candidates_perm [OF assms]] by (rule mset_eq_setD)

lemma chooseExit_any_order:
  fixes excl :: "string list"
  assumes es: "mset es = mset (co_exits c)" and some: "candidates c (Canonical (co_up c) country) now l \<noteq> []"
  defines "cc \<equiv> Canonical (co_up c) country"
  defines "tier \<equiv> top_tier c cc excl now l (apply_exclusions excl (candidates (c\<lparr>co_exits := es\<rparr>) cc now l))"
  shows "chooseExit (c\<lparr>co_exits := es\<rparr>) country excl now l = Inr (hd tier)" and "tier \<noteq> []"
proof -
  have "candidates (c\<lparr>co_exits := es\<rparr>) cc now l \<noteq> []"
    using some candidates_perm [OF es, of cc now l] unfolding cc_def by (metis mset_zero_iff)
  moreover from this have "cc \<noteq> []" "\<not> (\<forall>e \<in> snd ` set es. x_country e \<noteq> cc)"
    by (auto simp: candidates_def filter_empty_conv dest: exitAssignable_country)
  moreover note same = same_after_exclusion [OF es, of excl cc now l]
  ultimately show "chooseExit (c\<lparr>co_exits := es\<rparr>) country excl now l = Inr (hd tier)" and "tier \<noteq> []"
    using tier_nonempty [OF apply_exclusions_nonempty, of "candidates (c\<lparr>co_exits := es\<rparr>) cc now l" c
        excl "exitSessions c now"]
      tierFloor_cong [OF same, where c = c and es = es] tierFloor_cong [OF same, where c = c and es = "co_exits c"]
    by (simp_all add: chooseExit_cases [OF refl] tier_def top_tier_def flip: cc_def)
qed

lemma chooseExit_in_tier:
  assumes es: "mset es = mset (co_exits c)" and res: "chooseExit (c\<lparr>co_exits := es\<rparr>) country excl now l = Inr e"
  defines "cc \<equiv> Canonical (co_up c) country"
  shows "e \<in> set (top_tier c cc excl now l (apply_exclusions excl (candidates c cc now l)))"
proof -
  have "candidates (c\<lparr>co_exits := es\<rparr>) cc now l \<noteq> []"
    using res by (simp add: chooseExit_cases [OF refl] flip: cc_def split: if_splits)
  then have "candidates c cc now l \<noteq> []"
    using candidates_perm [OF es, of cc now l] by (metis mset_zero_iff_right)
  note out = chooseExit_any_order [OF es this [unfolded cc_def], of excl, folded cc_def]
  from out(1) res hd_in_set [OF out(2)] show ?thesis
    using same_after_exclusion [OF es, of excl cc now l] by (simp add: top_tier_def)
qed

lemma tier_member_reachable:
  fixes c :: coord and country :: string
  defines "cc \<equiv> Canonical (co_up c) country"
  assumes e: "e \<in> set (top_tier c cc excl now l (apply_exclusions excl (candidates c cc now l)))"
  shows "\<exists>es. mset es = mset (co_exits c) \<and> chooseExit (c\<lparr>co_exits := es\<rparr>) country excl now l = Inr e"
proof -
  let ?at = "\<lambda>es. apply_exclusions excl (candidates (c\<lparr>co_exits := es\<rparr>) cc now l)"
  have cand: "e \<in> set (candidates c cc now l)"
    using e apply_exclusions_subset by (fastforce simp: top_tier_def)
  then obtain k where k: "(k, e) \<in> set (co_exits c)" by (auto simp: candidates_def)
  let ?es = "(k, e) # remove1 (k, e) (co_exits c)"
  have es: "mset ?es = mset (co_exits c)" using k by simp
  have "\<exists>rest. candidates (c\<lparr>co_exits := ?es\<rparr>) cc now l = e # rest"
    using cand by (simp add: candidates_def)
  moreover have "e \<in> set (?at ?es)"
    using e same_after_exclusion [OF es, of excl cc now l] by (simp add: top_tier_def)
  ultimately obtain rest where "?at ?es = e # rest"
    using apply_exclusions_Cons by metis
  then have "hd (top_tier c cc excl now l (?at ?es)) = e"
    using e by (simp add: top_tier_def)
  moreover have "candidates c cc now l \<noteq> []" using cand by auto
  ultimately have "chooseExit (c\<lparr>co_exits := ?es\<rparr>) country excl now l = Inr e"
    using chooseExit_any_order(1) [OF es, of country now l excl, folded cc_def] by simp
  with es show ?thesis by blast
qed

text \<open>over all the orders in which the registry can be iterated, the exits a connect may be
  given are exactly the candidates left after exclusion whose share is at least half of every
  such candidate's: the iteration order decides among them and nothing else does.\<close>

lemma assignment_outcomes:
  "(\<exists>es. mset es = mset (co_exits c) \<and> chooseExit (c\<lparr>co_exits := es\<rparr>) country excl now l = Inr e) \<longleftrightarrow>
    (let cs = apply_exclusions excl (candidates c (Canonical (co_up c) country) now l); load = exitSessions c now
     in e \<in> set cs \<and> (\<forall>e' \<in> set cs. unat (rankShare c e' (load (x_id e'))) \<le> 2 * unat (rankShare c e (load (x_id e)))))"
  (is "?lhs \<longleftrightarrow> _")
proof -
  have "?lhs \<longleftrightarrow> e \<in> set (top_tier c (Canonical (co_up c) country) excl now l
      (apply_exclusions excl (candidates c (Canonical (co_up c) country) now l)))"
    by (blast intro: chooseExit_in_tier tier_member_reachable)
  then show ?thesis
    by (simp add: top_tier_def Let_def tier_member cong: conj_cong)
qed

section \<open>Exclusion, declarations and the serving fence\<close>

lemma in_map_filter: "y \<in> set (List.map_filter f xs) \<longleftrightarrow> (\<exists>x \<in> set xs. f x = Some y)"
  by (induction xs) (auto simp: List.map_filter_simps split: option.splits)

lemma length_map_filter: "length (List.map_filter f xs) \<le> length xs"
  by (induction xs) (auto simp: List.map_filter_simps split: option.splits)

text \<open>an exclusion names an exit only through a live session this coordinator minted for the
  same source address with that exit as its terminating exit, and at most four are looked at.\<close>

lemma excluded_exits_are_own:
  "(x \<in> set (excludedExits c src sids) \<longleftrightarrow>
     (\<exists>sid s. sid \<in> set (take 4 sids) \<and> map_of (co_sessions c) sid = Some s \<and> ss_exitID s = x \<and> x \<noteq> []
       \<and> ua_String (ss_client s) = ua_String src))
   \<and> length (excludedExits c src sids) \<le> 4"
proof
  show "x \<in> set (excludedExits c src sids) \<longleftrightarrow>
    (\<exists>sid s. sid \<in> set (take 4 sids) \<and> map_of (co_sessions c) sid = Some s \<and> ss_exitID s = x \<and> x \<noteq> []
      \<and> ua_String (ss_client s) = ua_String src)"
    by (auto simp: excludedExits_def maxExcludeSessions_def in_map_filter split: option.splits if_splits)
  show "length (excludedExits c src sids) \<le> 4"
    by (simp add: excludedExits_def maxExcludeSessions_def order.trans [OF length_map_filter])
qed

lemma RankShare_mono:
  "u \<le> v \<Longrightarrow> u \<noteq> 0 \<Longrightarrow> RankShare u n rated ceil \<le> RankShare v n rated ceil"
  by (auto simp: RankShare_def ProjectedShare_def Let_def word_le_nat_alt unat_div word_less_nat_alt
      intro!: div_le_mono split: if_splits)

text \<open>what an exit declares of its own capacity never raises its rank: declaring any cap
  ranks it at most where declaring none would, rated or not.\<close>

lemma declaration_never_raises_rank:
  "rankShare c (e\<lparr>x_speedCap := d\<rparr>) n \<le> rankShare c (e\<lparr>x_speedCap := 0\<rparr>) n"
  by (auto simp: rankShare_def exitRating_def store_Usable_def Usable_def RankShare_unrated [of d]
      intro!: RankShare_mono split: option.splits)


text \<open>while a verified policy is held, whether a node may serve is decided by that policy's
  floors alone: its release must be at or above the signed minimum (any release when the minimum is
  0.0.0), a declared quota must not fall below the signed one, and a trusted rating must not fall
  below the signed rate, where a node with no quota or no trusted rating passes.\<close>

lemma signed_policy_is_the_fence:
  assumes held: "g_held (co_gate c) = Some p" and valid: "policy_Validate p = None"
  shows "servingCheck c release nodeID quota = None \<longleftrightarrow>
    (\<exists>f. Parse (MinServingVersion (pl_ServeFloor p)) = Inr f
       \<and> (f = zero_version \<or> (\<exists>nv. Parse release = Inr nv \<and> f \<le> nv)))
    \<and> (quota = 0 \<or> MinDeclaredQuotaBytes (pl_ServeFloor p) \<le> quota)
    \<and> (case Option.bind (co_ratings c) (\<lambda>st. TrustedRating st nodeID) of
         None \<Rightarrow> True | Some r \<Rightarrow> MinMeasuredBps (pl_ServeFloor p) \<le> r)"
proof -
  obtain f where f: "Parse (MinServingVersion (pl_ServeFloor p)) = Inr f"
    using validated_floor_parses [OF valid] by metis
  have "versionCheck c release = None \<longleftrightarrow> f = zero_version \<or> (\<exists>nv. Parse release = Inr nv \<and> f \<le> nv)"
    using Parse_ok [OF f] ServingAllowed_iff [OF Parse_ok [of release]]
    by (auto simp: versionCheck_def policyServingFloor_def held f Let_def split: sum.splits)
  moreover have "meetsDeclaredQuotaFloor c quota = None \<longleftrightarrow> quota = 0 \<or> MinDeclaredQuotaBytes (pl_ServeFloor p) \<le> quota"
    by (auto simp: meetsDeclaredQuotaFloor_def policyDeclaredQuotaFloor_def held Let_def)
  moreover have "meetsMeasuredFloor c nodeID = None \<longleftrightarrow>
      (case Option.bind (co_ratings c) (\<lambda>st. TrustedRating st nodeID) of
         None \<Rightarrow> True | Some r \<Rightarrow> MinMeasuredBps (pl_ServeFloor p) \<le> r)"
    by (auto simp: meetsMeasuredFloor_def policyMeasuredFloor_def held Let_def split: option.splits bind_splits)
  moreover have "servingCheck c release nodeID quota = None \<longleftrightarrow>
      versionCheck c release = None \<and> meetsDeclaredQuotaFloor c quota = None \<and> meetsMeasuredFloor c nodeID = None"
    by (simp add: servingCheck_def split: option.splits)
  ultimately show ?thesis using f by simp
qed

section \<open>Witnesses\<close>

definition demo_exit :: "string \<Rightarrow> exit_node" where
  "demo_exit x =
     \<lparr>x_id = x, x_tcpAddr = [], x_udp = Some demo_addr, x_release = ''0.1.0'', x_silentWarned = False,
      x_speedCap = 0, x_declaredQuota = 0, x_exhausted = False, x_lastSeen = 0, x_country = ''DE'',
      x_countrySource = [], x_declaredCountry = []\<rparr>"

definition demo_coord :: coord where
  "demo_coord =
     \<lparr>co_up = (\<lambda>s. s), co_ratings = None, co_gate = \<lparr>g_configured = True, g_held = Some (demo_policy 1)\<rparr>,
      co_admission_env = demo_admission, co_admission = None,
      co_device_env = \<lparr>de_verify = (\<lambda>_ _ _. False), de_issuer = (\<lambda>_. None), de_device = (\<lambda>_. None)\<rparr>,
      co_device = None, co_deviceAudience = [], co_challenges = empty_challenges 0, co_geo = demo_geo False,
      co_asOf = (\<lambda>_. []), co_exitClass = None, co_minShare = 0, co_serveFloor = 0,
      co_servingFloor = zero_version, co_release = ''0.1.0'', co_helloLogged = None, co_helloSuppressed = 0,
      co_exits = [(''a'', demo_exit ''a''), (''b'', demo_exit ''b''), (''c'', demo_exit ''c'')],
      co_relays = [], co_sessions = [], co_minted = []\<rparr>"

lemma demo_canonical: "Canonical up ''DE'' = ''DE''"
  by (rule Canonical_fixed) (simp_all add: is_upper_letter_def char_byte_def)

end
