(* ===== verification/Coordinator.thy ===== *)
theory Coordinator
  imports Assign Hashes
begin

text \<open>
  The coordinator's datagram handler and timer: \<open>handle\<close>, \<open>prune\<close>, \<open>pickRelay\<close> and the sweeps of
  \<open>cmd/coordinator/main.go\<close>, the connect table of \<open>idempotency.go\<close>, \<open>admit\<close> of \<open>admission.go\<close>, the
  device gate of \<open>devicecred.go\<close>, \<open>hello.go\<close> and the capacity feed of \<open>capacity_feed.go\<close>. The
  handler runs under one lock, so a datagram is one step from state to state and the list of what
  it sends; it reads the clock once, as \<open>now\<close>. The draws of \<open>crypto/rand\<close> are arguments: \<open>sid\<close> for
  \<open>randID\<close> and \<open>ch\<close> for a challenge. A datagram always has a source address.
\<close>

type_synonym sends = "(udp_addr \<times> wire) list"

section \<open>Replies\<close>

definition reject_wire :: "reason \<Rightarrow> wire" where
  "reject_wire r = zero_wire\<lparr>w_Type := ''reject'', w_Reason := r\<rparr>"

definition error_wire :: "reason \<Rightarrow> string \<Rightarrow> wire" where
  "error_wire r country = zero_wire\<lparr>w_Type := ''error'', w_Reason := r, w_Country := country\<rparr>"

definition relayPeer :: string where "relayPeer = ''peer''"

definition relayTURN :: string where "relayTURN = ''turn''"

definition quotaExhausted :: string where "quotaExhausted = ''exhausted''"

definition relayTag :: "string \<Rightarrow> string" where
  "relayTag nd = hex_encode (take 8 (sha256 (bytes_of_string ''bacchus-relay-tag'' @ [0] @ bytes_of_string nd)))"

section \<open>Connect idempotency (idempotency.go)\<close>

definition connectDedupeTTL :: duration where "connectDedupeTTL = 30 * 1000000000"

definition maxNonceLen :: nat where "maxNonceLen = 64"

definition connectKey :: "udp_addr \<Rightarrow> string \<Rightarrow> string" where
  "connectKey src nonce = ua_String src @ [CHR 0x00] @ nonce"

definition replayMintedConnect :: "coord \<Rightarrow> udp_addr \<Rightarrow> string \<Rightarrow> time \<Rightarrow> sends option" where
  "replayMintedConnect c src nonce now =
     (if nonce = [] then None
      else case map_of (co_minted c) (connectKey src nonce) of
             None \<Rightarrow> None
           | Some mc \<Rightarrow>
               if time_sub now (mc_at mc) > connectDedupeTTL then None
               else Some [(mc_peer mc, mc_assign mc), (src, mc_reply mc)])"

definition pairAndReply ::
    "udp_addr \<Rightarrow> string \<Rightarrow> udp_addr \<Rightarrow> wire \<Rightarrow> wire \<Rightarrow> time \<Rightarrow> coord \<Rightarrow> coord \<times> sends" where
  "pairAndReply src nonce peer assign reply now c =
     ((if nonce = [] then c
       else c\<lparr>co_minted := AList.update (connectKey src nonce)
              \<lparr>mc_peer = peer, mc_assign = assign, mc_reply = reply, mc_at = now\<rparr> (co_minted c)\<rparr>),
      [(peer, assign), (src, reply)])"

definition pruneMintedConnects :: "time \<Rightarrow> coord \<Rightarrow> coord" where
  "pruneMintedConnects now c =
     c\<lparr>co_minted := filter (\<lambda>(k, mc). \<not> time_sub now (mc_at mc) > connectDedupeTTL) (co_minted c)\<rparr>"

section \<open>Pruning and relays (main.go)\<close>

definition session_kept :: "time \<Rightarrow> session \<Rightarrow> bool" where
  "session_kept now s \<longleftrightarrow>
     ss_relayID s \<noteq> [] \<and> (ss_signaled s \<or> time_sub now (ss_lastSeen s) \<le> sessionTTL)
     \<or> \<not> time_sub now (ss_lastSeen s) > sessionTTL"

definition prune :: "time \<Rightarrow> coord \<Rightarrow> coord" where
  "prune now c =
     pruneMintedConnects now
       (c\<lparr>co_relays := filter (\<lambda>(k, r). \<not> time_sub now (rl_lastSeen r) > ttl) (co_relays c),
          co_exits := filter (\<lambda>(k, e). \<not> time_sub now (x_lastSeen e) > ttl) (co_exits c),
          co_sessions := filter (\<lambda>(k, s). session_kept now s) (co_sessions c)\<rparr>)"

definition pickRelay :: "coord \<Rightarrow> string \<Rightarrow> time \<Rightarrow> relay_node option" where
  "pickRelay c excludeID now =
     map_option snd
       (List.find
         (\<lambda>(k, r). k \<noteq> excludeID \<and> \<not> time_sub now (rl_lastSeen r) > ttl div 2 \<and> \<not> rl_exhausted r
            \<and> meetsServeFloor c (rl_id r) (rl_speedCap r))
         (co_relays c))"

definition validIngressPort :: "int \<Rightarrow> bool" where
  "validIngressPort p \<longleftrightarrow> p \<ge> 1 \<and> p \<le> 65535"

section \<open>Admission and the hello log\<close>

definition admit :: "coord \<Rightarrow> wire \<Rightarrow> udp_addr \<Rightarrow> string \<Rightarrow> string \<Rightarrow> time \<Rightarrow> sends + credential" where
  "admit c m src want subject now =
     (case co_admission c of
        None \<Rightarrow> Inr zero_credential
      | Some v \<Rightarrow>
          (case admission_Verify (co_admission_env c) v (w_Cred m) now want subject of
             Inl err \<Rightarrow> Inl [(src, reject_wire (Unadmitted err))]
           | Inr cred \<Rightarrow> Inr cred))"

definition helloRejectLogInterval :: duration where "helloRejectLogInterval = 60 * 1000000000"

definition noteHelloReject :: "time \<Rightarrow> coord \<Rightarrow> coord" where
  "noteHelloReject now c =
     (if (case co_helloLogged c of None \<Rightarrow> False | Some t \<Rightarrow> time_sub now t < helloRejectLogInterval)
      then c\<lparr>co_helloSuppressed := co_helloSuppressed c + 1\<rparr>
      else c\<lparr>co_helloLogged := Some now, co_helloSuppressed := 0\<rparr>)"

section \<open>The device gate (devicecred.go)\<close>

definition stashCred :: "coord \<Rightarrow> string \<Rightarrow> string" where
  "stashCred c cred = (if co_admission c = None then [] else cred)"

definition stashIssuerCert :: "coord \<Rightarrow> string \<Rightarrow> time \<Rightarrow> string" where
  "stashIssuerCert c issuerCert now =
     (case co_device c of
        None \<Rightarrow> []
      | Some v \<Rightarrow>
          if issuerCert = [] \<or> length issuerCert > maxStashedIssuerCert then []
          else (case DecodeIssuerCert issuerCert of
                  Inl _ \<Rightarrow> []
                | Inr signed_bytes \<Rightarrow>
                    (case VerifyIssuerCert (co_device_env c) (dvf_rootPub v) signed_bytes now (Some (dvf_revoked v)) of
                       Inl _ \<Rightarrow> []
                     | Inr _ \<Rightarrow> issuerCert)))"

definition issueDeviceChallenge ::
    "bytes option \<Rightarrow> udp_addr \<Rightarrow> string \<Rightarrow> string \<Rightarrow> time \<Rightarrow> coord \<Rightarrow> string \<times> coord" where
  "issueDeviceChallenge ch src cred issuerCert now c =
     (if co_device c = None then ([], c)
      else
        (let (v, st) = issue_challenge ch (ua_String src) (stashCred c cred) (stashIssuerCert c issuerCert now) now
                         (co_challenges c)
         in (case v of None \<Rightarrow> [] | Some v \<Rightarrow> std_encode v, c\<lparr>co_challenges := st\<rparr>)))"

definition admissionCredFor :: "coord \<Rightarrow> wire \<Rightarrow> udp_addr \<Rightarrow> time \<Rightarrow> string" where
  "admissionCredFor c m src now =
     (if w_Cred m \<noteq> [] then w_Cred m else stashedCred (co_challenges c) (ua_String src) now)"

definition issuerCertFor :: "coord \<Rightarrow> wire \<Rightarrow> udp_addr \<Rightarrow> time \<Rightarrow> string" where
  "issuerCertFor c m src now =
     (if w_IssuerCert m \<noteq> [] then w_IssuerCert m else stashedIssuerCert (co_challenges c) (ua_String src) now)"

definition check_presentation ::
    "coord \<Rightarrow> device_verifier \<Rightarrow> wire \<Rightarrow> bytes \<Rightarrow> time \<Rightarrow> device_refusal option" where
  "check_presentation c v m issued now =
     (if std_decode (w_Challenge m) \<noteq> Some issued then Some WrongChallenge
      else case std_decode (w_DeviceAssert m) of
             None \<Rightarrow> Some (DeviceError VMalformed)
           | Some assertion \<Rightarrow>
               (case ParsePresentation (w_DeviceCred m) (w_IssuerCert m) assertion of
                  Inl err \<Rightarrow> Some (DeviceError err)
                | Inr p \<Rightarrow>
                    (case device_Verify (co_device_env c) v p now (co_deviceAudience c) issued of
                       Inl err \<Rightarrow> Some (DeviceError err)
                     | Inr _ \<Rightarrow> None)))"

text \<open>The result is the new state and what was sent when the device was refused.\<close>

definition admitDevice :: "wire \<Rightarrow> udp_addr \<Rightarrow> time \<Rightarrow> coord \<Rightarrow> coord \<times> sends option" where
  "admitDevice m src now c =
     (case co_device c of
        None \<Rightarrow> (c, None)
      | Some v \<Rightarrow>
          (let key = ua_String src;
               (issued, st) = spend key (w_Nonce m) now (co_challenges c);
               refusal = (case issued of
                   None \<Rightarrow> Some NoChallenge
                 | Some ch \<Rightarrow> check_presentation c v m ch now)
           in case refusal of
                Some r \<Rightarrow> (c\<lparr>co_challenges := drop_challenge key st\<rparr>, Some [(src, reject_wire (BadDevice r))])
              | None \<Rightarrow> (c\<lparr>co_challenges := st\<rparr>, None)))"

section \<open>The handlers (handle)\<close>

definition handle_hello :: "wire \<Rightarrow> udp_addr \<Rightarrow> time \<Rightarrow> coord \<Rightarrow> coord \<times> sends" where
  "handle_hello m src now c =
     (case Check \<lparr>hello_magic = w_Magic m, hello_version = w_Version m, hello_capabilities = w_Capabilities m\<rparr> of
        Some r \<Rightarrow> (noteHelloReject now c, [(src, reject_wire (BadHello r))])
      | None \<Rightarrow> (c, []))"

definition register_relay :: "wire \<Rightarrow> udp_addr \<Rightarrow> country_claims \<Rightarrow> time \<Rightarrow> coord \<Rightarrow> coord" where
  "register_relay m src claims now c =
     (let prior = map_of (co_relays c) (w_ID m);
          port = (if w_IngressPort m \<noteq> 0 \<and> \<not> validIngressPort (w_IngressPort m) then 0 else w_IngressPort m)
      in c\<lparr>co_relays := AList.update (w_ID m)
           \<lparr>rl_id = w_ID m, rl_addr = src, rl_ingressPort = port, rl_release = w_Release m,
            rl_silentWarned = (case prior of None \<Rightarrow> False | Some r \<Rightarrow> rl_silentWarned r),
            rl_speedCap = w_SpeedCap m, rl_declaredQuota = w_DeclaredQuotaBytes m,
            rl_exhausted = (w_QuotaState m = quotaExhausted), rl_lastSeen = now,
            rl_country = cl_derived claims, rl_countrySource = cl_source claims,
            rl_declaredCountry = cl_declared claims\<rparr> (co_relays c)\<rparr>)"

definition register_exit :: "wire \<Rightarrow> udp_addr \<Rightarrow> country_claims \<Rightarrow> time \<Rightarrow> coord \<Rightarrow> coord" where
  "register_exit m src claims now c =
     (let prior = map_of (co_exits c) (w_ID m)
      in c\<lparr>co_exits := AList.update (w_ID m)
           \<lparr>x_id = w_ID m, x_tcpAddr = w_Addr m, x_udp = Some src, x_release = w_Release m,
            x_silentWarned = (case prior of None \<Rightarrow> False | Some e \<Rightarrow> x_silentWarned e),
            x_speedCap = w_SpeedCap m, x_declaredQuota = w_DeclaredQuotaBytes m,
            x_exhausted = (w_QuotaState m = quotaExhausted), x_lastSeen = now,
            x_country = cl_derived claims, x_countrySource = cl_source claims,
            x_declaredCountry = cl_declared claims\<rparr> (co_exits c)\<rparr>)"

definition handle_register :: "wire \<Rightarrow> udp_addr \<Rightarrow> time \<Rightarrow> coord \<Rightarrow> coord \<times> sends" where
  "handle_register m src now c =
     (case admit c m src (w_Role m) (w_ID m) now of
        Inl out \<Rightarrow> (c, out)
      | Inr _ \<Rightarrow>
          (case servingCheck c (w_Release m) (w_ID m) (w_DeclaredQuotaBytes m) of
             Some r \<Rightarrow> (c, [(src, reject_wire (Unserving r))])
           | None \<Rightarrow>
               if \<not> policyAllowsAssignment (co_gate c) then (c, [(src, reject_wire NoEnforceablePolicy)])
               else if w_Role m = ''relay''
               then (register_relay m src (deriveCountry (co_geo c) (w_ID m) (Some src) (w_Country m)) now c, [])
               else if w_Role m = ''exit''
               then (register_exit m src
                       (deriveExitCountry (co_geo c) (w_ID m) (Some src) (w_Country m) (w_Addr m)) now c, [])
               else (c, [])))"

definition relay_claims :: "relay_node \<Rightarrow> country_claims" where
  "relay_claims r = \<lparr>cl_derived = rl_country r, cl_source = rl_countrySource r, cl_declared = rl_declaredCountry r,
     cl_displaced = []\<rparr>"

definition exit_claims :: "exit_node \<Rightarrow> country_claims" where
  "exit_claims e = \<lparr>cl_derived = x_country e, cl_source = x_countrySource e, cl_declared = x_declaredCountry e,
     cl_displaced = []\<rparr>"

definition beat_relay :: "geo_env \<Rightarrow> string \<Rightarrow> udp_addr \<Rightarrow> time \<Rightarrow> relay_node \<Rightarrow> relay_node" where
  "beat_relay g nd src now r =
     (let cl = rederiveCountry g nd (Some src) (relay_claims r)
      in r\<lparr>rl_lastSeen := now, rl_addr := src, rl_country := cl_derived cl, rl_countrySource := cl_source cl,
           rl_declaredCountry := cl_declared cl\<rparr>)"

definition beat_exit :: "geo_env \<Rightarrow> string \<Rightarrow> udp_addr \<Rightarrow> time \<Rightarrow> exit_node \<Rightarrow> exit_node" where
  "beat_exit g nd src now e =
     (let cl = rederiveExitCountry g nd (Some src) (x_tcpAddr e) (exit_claims e)
      in e\<lparr>x_lastSeen := now, x_udp := Some src, x_country := cl_derived cl, x_countrySource := cl_source cl,
           x_declaredCountry := cl_declared cl\<rparr>)"

definition handle_heartbeat :: "wire \<Rightarrow> udp_addr \<Rightarrow> time \<Rightarrow> coord \<Rightarrow> coord \<times> sends" where
  "handle_heartbeat m src now c =
     (let c = (case map_of (co_relays c) (w_ID m) of
            None \<Rightarrow> c
          | Some r \<Rightarrow> c\<lparr>co_relays := AList.update (w_ID m) (beat_relay (co_geo c) (w_ID m) src now r) (co_relays c)\<rparr>);
          c = (case map_of (co_exits c) (w_ID m) of
            None \<Rightarrow> c
          | Some e \<Rightarrow> c\<lparr>co_exits := AList.update (w_ID m) (beat_exit (co_geo c) (w_ID m) src now e) (co_exits c)\<rparr>)
      in (c, []))"

definition handle_list :: "wire \<Rightarrow> udp_addr \<Rightarrow> time \<Rightarrow> coord \<Rightarrow> coord \<times> sends" where
  "handle_list m src now c =
     (case admit c m src RoleClient [] now of
        Inl out \<Rightarrow> (c, out)
      | Inr cred \<Rightarrow>
          (case resolveTier c cred of
             Inl r \<Rightarrow> (c, [(src, error_wire (Refused r) [])])
           | Inr l \<Rightarrow>
               (c, [(src, zero_wire\<lparr>w_Type := ''countries'', w_Countries := countrySnapshot c now l,
                      w_Release := co_release c\<rparr>)])))"

definition handle_challenge :: "bytes option \<Rightarrow> wire \<Rightarrow> udp_addr \<Rightarrow> time \<Rightarrow> coord \<Rightarrow> coord \<times> sends" where
  "handle_challenge ch m src now c =
     (case admit c m src RoleClient [] now of
        Inl out \<Rightarrow> (c, out)
      | Inr _ \<Rightarrow>
          (let (v, c) = issueDeviceChallenge ch src (w_Cred m) (w_IssuerCert m) now c
           in (c, [(src, zero_wire\<lparr>w_Type := ''challenge'', w_Challenge := v\<rparr>)])))"

definition choose_hop :: "wire \<Rightarrow> udp_addr \<Rightarrow> time \<Rightarrow> tier_limit \<Rightarrow> coord \<Rightarrow> assign_refusal + exit_node" where
  "choose_hop m src now l c =
     (if w_FirstHop m \<noteq> [] \<and> w_Mode m \<noteq> ''relay'' then Inl refuseHopNotRelayMode
      else if w_FirstHop m \<noteq> [] then resolveFirstHop c (w_FirstHop m)
      else chooseExit c (w_Country m) (excludedExits c src (w_ExcludeSessions m)) now l)"

text \<open>The pairing once an exit is chosen: direct, through a peer relay, or falling back to TURN.\<close>

definition pair_session ::
    "string \<Rightarrow> wire \<Rightarrow> udp_addr \<Rightarrow> time \<Rightarrow> tier_limit \<Rightarrow> exit_node \<Rightarrow> coord \<Rightarrow> coord \<times> sends" where
  "pair_session sid m src now l e c =
     (let exitID = (if w_FirstHop m \<noteq> [] then [] else x_id e);
          mint = (\<lambda>peer relay assign reply.
             pairAndReply src (w_Nonce m) peer assign reply now
               (c\<lparr>co_sessions := AList.update sid
                  \<lparr>ss_client = src, ss_peer = peer, ss_relayID = relay, ss_exitID = exitID, ss_signaled = False,
                   ss_answered = False, ss_lastSeen = now\<rparr> (co_sessions c)\<rparr>));
          assign = zero_wire\<lparr>w_Type := ''assign'', w_Session := sid, w_SessionCapBps := t_SpeedCapBps l\<rparr>;
          reply = zero_wire\<lparr>w_Type := ''session'', w_Session := sid, w_ExitID := exitID, w_Release := co_release c\<rparr>
      in if w_Mode m = ''direct''
         then (case x_udp e of
                 None \<Rightarrow> (c, [(src, error_wire NoReason [])])
               | Some peer \<Rightarrow> mint peer [] assign reply)
         else (case pickRelay c (x_id e) now of
                 Some r \<Rightarrow>
                   mint (rl_addr r) (rl_id r) (assign\<lparr>w_ExitAddr := x_tcpAddr e\<rparr>)
                     (reply\<lparr>w_Relay := relayPeer, w_RelayTag := relayTag (rl_id r)\<rparr>)
               | None \<Rightarrow>
                   (case x_udp e of
                      Some peer \<Rightarrow> mint peer [] assign (reply\<lparr>w_Relay := relayTURN\<rparr>)
                    | None \<Rightarrow> (c, [(src, error_wire NoReason [])]))))"

definition handle_connect :: "string \<Rightarrow> wire \<Rightarrow> udp_addr \<Rightarrow> time \<Rightarrow> coord \<Rightarrow> coord \<times> sends" where
  "handle_connect sid m src now c =
     (let m = m\<lparr>w_Cred := admissionCredFor c m src now\<rparr>;
          m = m\<lparr>w_IssuerCert := issuerCertFor c m src now\<rparr>;
          here = Canonical (co_up c) (w_Country m)
      in case admit c m src RoleClient [] now of
           Inl out \<Rightarrow> (c, out)
         | Inr cred \<Rightarrow>
             if \<not> policyAllowsAssignment (co_gate c) then (c, [(src, reject_wire NoEnforceablePolicy)])
             else if w_Nonce m = [] \<or> length (w_Nonce m) > maxNonceLen
             then (c, [(src, error_wire (Refused refuseNoNonce) here)])
             else (case replayMintedConnect c src (w_Nonce m) now of
                     Some out \<Rightarrow> (c, out)
                   | None \<Rightarrow>
                       (case admitDevice m src now c of
                          (c, Some out) \<Rightarrow> (c, out)
                        | (c, None) \<Rightarrow>
                            (case resolveTier c cred of
                               Inl r \<Rightarrow> (c, [(src, error_wire (Refused r) here)])
                             | Inr l \<Rightarrow>
                                 (case choose_hop m src now l c of
                                    Inl r \<Rightarrow> (c, [(src, error_wire (Refused r) here)])
                                  | Inr e \<Rightarrow> pair_session sid m src now l e c)))))"

definition handle_signal :: "wire \<Rightarrow> udp_addr \<Rightarrow> time \<Rightarrow> coord \<Rightarrow> coord \<times> sends" where
  "handle_signal m src now c =
     (case map_of (co_sessions c) (w_Session m) of
        None \<Rightarrow> (c, [])
      | Some s \<Rightarrow>
          (let from_peer = (ua_String src = ua_String (ss_peer s));
               s' = s\<lparr>ss_lastSeen := now, ss_signaled := True, ss_answered := (ss_answered s \<or> from_peer)\<rparr>
           in (c\<lparr>co_sessions := AList.update (w_Session m) s' (co_sessions c)\<rparr>,
               [(if from_peer then ss_client s else ss_peer s, m)])))"

definition attesterIsVouched :: "coord \<Rightarrow> wire \<Rightarrow> time \<Rightarrow> bool \<times> bool" where
  "attesterIsVouched c m now =
     (case co_admission c of
        None \<Rightarrow> (True, False)
      | Some v \<Rightarrow>
          (case admission_Verify (co_admission_env c) v (w_Cred m) now RoleClient [] of
             Inl _ \<Rightarrow> (False, False)
           | Inr cred \<Rightarrow> (True, IsVouched cred)))"

definition sampleFrom :: "receipt \<Rightarrow> string \<Rightarrow> sample" where
  "sampleFrom r as =
     \<lparr>sm_Throughput = (if rc_IntervalSec r > 0 then rc_Bytes r * 8 div ucast (rc_IntervalSec r) else 0),
      sm_Saturated = rc_Saturated r, sm_Attester = hex_encode (rc_ClientAcctPub r), sm_AS = as\<rparr>"

definition handleCapacityReport :: "wire \<Rightarrow> udp_addr \<Rightarrow> time \<Rightarrow> coord \<Rightarrow> coord" where
  "handleCapacityReport m src now c =
     (case (co_ratings c, w_Receipt m) of
        (Some st, Some r) \<Rightarrow>
          (let (ok, vouched) = attesterIsVouched c m now
           in if \<not> ok then c
              else if receipt_Verify (ae_verify (co_admission_env c)) r \<noteq> None then c
              else if VerifyReport (ae_verify (co_admission_env c)) r (w_ReportSig m) \<noteq> None then c
              else if co_asOf c (ua_IP src) = [] then c
              else c\<lparr>co_ratings := Some (store_Observe (rc_ExitID r) vouched
                     (sampleFrom r (co_asOf c (ua_IP src))) now st)\<rparr>)
      | _ \<Rightarrow> c)"

definition dispatch :: "string \<Rightarrow> bytes option \<Rightarrow> wire \<Rightarrow> udp_addr \<Rightarrow> time \<Rightarrow> coord \<Rightarrow> coord \<times> sends" where
  "dispatch sid ch m src now c =
     (if w_Type m = ''hello'' then handle_hello m src now c
      else if w_Type m = ''register'' then handle_register m src now c
      else if w_Type m = ''heartbeat'' then handle_heartbeat m src now c
      else if w_Type m = ''list'' then handle_list m src now c
      else if w_Type m = ''challenge'' then handle_challenge ch m src now c
      else if w_Type m = ''connect'' then handle_connect sid m src now c
      else if w_Type m = ''offer'' \<or> w_Type m = ''answer'' \<or> w_Type m = ''candidate'' then handle_signal m src now c
      else if w_Type m = ''capacity-report'' then (handleCapacityReport m src now c, [])
      else (c, []))"

definition handle :: "string \<Rightarrow> bytes option \<Rightarrow> wire \<Rightarrow> udp_addr \<Rightarrow> time \<Rightarrow> coord \<Rightarrow> coord \<times> sends" where
  "handle sid ch m src now c = dispatch sid ch m src now (prune now c)"

section \<open>The sweeps\<close>

definition relay_live :: "coord \<Rightarrow> time \<Rightarrow> session \<Rightarrow> bool" where
  "relay_live c now s \<longleftrightarrow>
     (case map_of (co_relays c) (ss_relayID s) of
        None \<Rightarrow> False
      | Some r \<Rightarrow> time_sub now (rl_lastSeen r) \<le> ttl div 2 \<and> ua_String (rl_addr r) = ua_String (ss_peer s))"

definition reselectDeadRelays :: "time \<Rightarrow> coord \<Rightarrow> coord \<times> sends" where
  "reselectDeadRelays now c =
     (let (keep, dead) = partition (\<lambda>(k, s). ss_relayID s = [] \<or> relay_live c now s) (co_sessions c)
      in (c\<lparr>co_sessions := keep\<rparr>,
          map (\<lambda>(k, s). (ss_client s, zero_wire\<lparr>w_Type := ''reselect'', w_Session := k\<rparr>)) dead))"

datatype node_ref = RelayRef string | ExitRef string

definition assignedNode :: "session \<Rightarrow> node_ref option" where
  "assignedNode s =
     (if ss_relayID s \<noteq> [] then Some (RelayRef (ss_relayID s))
      else if ss_exitID s \<noteq> [] then Some (ExitRef (ss_exitID s))
      else None)"

definition node_answered :: "coord \<Rightarrow> node_ref \<Rightarrow> bool" where
  "node_answered c ref = list_ex (\<lambda>(k, s). assignedNode s = Some ref \<and> ss_answered s) (co_sessions c)"

definition node_unanswered :: "coord \<Rightarrow> time \<Rightarrow> node_ref \<Rightarrow> bool" where
  "node_unanswered c now ref =
     list_ex (\<lambda>(k, s). assignedNode s = Some ref \<and> \<not> ss_answered s \<and> ss_signaled s
       \<and> time_sub now (ss_lastSeen s) > answerGrace) (co_sessions c)"

definition silent_flag :: "coord \<Rightarrow> time \<Rightarrow> node_ref \<Rightarrow> bool \<Rightarrow> bool" where
  "silent_flag c now ref warned =
     (if node_answered c ref then False
      else if \<not> node_unanswered c now ref \<or> warned then warned
      else True)"

definition reportUnansweredNodes :: "time \<Rightarrow> coord \<Rightarrow> coord" where
  "reportUnansweredNodes now c =
     c\<lparr>co_relays := map (\<lambda>(k, r). (k, r\<lparr>rl_silentWarned := silent_flag c now (RelayRef k) (rl_silentWarned r)\<rparr>))
          (co_relays c),
       co_exits := map (\<lambda>(k, e). (k, e\<lparr>x_silentWarned := silent_flag c now (ExitRef k) (x_silentWarned e)\<rparr>))
          (co_exits c)\<rparr>"

definition sweepTick :: "time \<Rightarrow> coord \<Rightarrow> coord \<times> sends" where
  "sweepTick now c =
     (let (c, out) = reselectDeadRelays now (prune now c)
      in (reportUnansweredNodes now c, out))"

section \<open>Runs\<close>

datatype coord_event = Datagram string "bytes option" wire udp_addr time | Sweep time

fun coord_step :: "coord_event \<Rightarrow> coord \<Rightarrow> coord" where
  "coord_step (Datagram sid ch m src now) c = fst (handle sid ch m src now c)"
| "coord_step (Sweep now) c = fst (sweepTick now c)"

fun event_time :: "coord_event \<Rightarrow> time" where
  "event_time (Datagram sid ch m src now) = now"
| "event_time (Sweep now) = now"

end
