(* ===== verification/Pairing.thy ===== *)
theory Pairing
  imports Coordinator
begin

text \<open>
  What the datagram handler and the sweeps guarantee over whole runs: the registry stays well
  formed, a connect is answered once however often it is retransmitted, a session is minted only
  behind every gate and pairs the two parties it names, refusals change nothing, and a sweep
  leaves no session on a dead relay.
\<close>

section \<open>What an operation may touch\<close>

lemma prune_sel [simp]:
  "co_gate (prune now c) = co_gate c" "co_admission (prune now c) = co_admission c"
  "co_admission_env (prune now c) = co_admission_env c" "co_device (prune now c) = co_device c"
  "co_device_env (prune now c) = co_device_env c" "co_challenges (prune now c) = co_challenges c"
  "co_deviceAudience (prune now c) = co_deviceAudience c" "co_up (prune now c) = co_up c"
  "co_release (prune now c) = co_release c" "co_geo (prune now c) = co_geo c"
  "co_minted (prune now c) = filter (\<lambda>(k, mc). \<not> time_sub now (mc_at mc) > connectDedupeTTL) (co_minted c)"
  "co_exits (prune now c) = filter (\<lambda>(k, e). \<not> time_sub now (x_lastSeen e) > ttl) (co_exits c)"
  "co_relays (prune now c) = filter (\<lambda>(k, r). \<not> time_sub now (rl_lastSeen r) > ttl) (co_relays c)"
  "co_sessions (prune now c) = filter (\<lambda>(k, s). session_kept now s) (co_sessions c)"
  by (simp_all add: prune_def pruneMintedConnects_def)

lemma admit_off [simp]: "co_admission c = None \<Longrightarrow> admit c m src want subject now = Inr zero_credential"
  by (simp add: admit_def)

text \<open>The device gate changes only the challenge store.\<close>

lemma admitDevice_state:
  "\<exists>st. fst (admitDevice m src now c) = c\<lparr>co_challenges := st\<rparr>"
proof -
  have "\<exists>st. c = c\<lparr>co_challenges := st\<rparr>" by (rule exI [of _ "co_challenges c"]) simp
  then show ?thesis
    by (auto simp: admitDevice_def Let_def split: option.split prod.split)
qed

lemma pairAndReply_sends [simp]:
  "snd (pairAndReply src nonce peer assign reply now c) = [(peer, assign), (src, reply)]"
  by (simp add: pairAndReply_def)

lemma pairAndReply_sel [simp]:
  "co_sessions (fst (pairAndReply src nonce peer assign reply now c)) = co_sessions c"
  "co_exits (fst (pairAndReply src nonce peer assign reply now c)) = co_exits c"
  "co_relays (fst (pairAndReply src nonce peer assign reply now c)) = co_relays c"
  "nonce \<noteq> [] \<Longrightarrow> co_minted (fst (pairAndReply src nonce peer assign reply now c)) =
     AList.update (connectKey src nonce) \<lparr>mc_peer = peer, mc_assign = assign, mc_reply = reply, mc_at = now\<rparr>
       (co_minted c)"
  by (simp_all add: pairAndReply_def)

section \<open>The outcomes of a connect\<close>

text \<open>The connect as the handler judges it, with the credentials its challenge stashed.\<close>

definition judged :: "coord \<Rightarrow> wire \<Rightarrow> udp_addr \<Rightarrow> time \<Rightarrow> wire" where
  "judged c m src now =
     (let m = m\<lparr>w_Cred := admissionCredFor c m src now\<rparr> in m\<lparr>w_IssuerCert := issuerCertFor c m src now\<rparr>)"

lemma judged_sel [simp]:
  "w_Nonce (judged c m src now) = w_Nonce m" "w_Mode (judged c m src now) = w_Mode m"
  "w_FirstHop (judged c m src now) = w_FirstHop m" "w_Country (judged c m src now) = w_Country m"
  "w_ExcludeSessions (judged c m src now) = w_ExcludeSessions m"
  "w_Cred (judged c m src now) = admissionCredFor c m src now"
  by (simp_all add: judged_def Let_def)

text \<open>The state in which a fresh session stands for \<open>sid\<close>.\<close>

definition with_session :: "string \<Rightarrow> session \<Rightarrow> coord \<Rightarrow> coord" where
  "with_session sid s c = c\<lparr>co_sessions := AList.update sid s (co_sessions c)\<rparr>"

lemma with_session_sel [simp]:
  "co_minted (with_session sid s c) = co_minted c" "co_exits (with_session sid s c) = co_exits c"
  "co_relays (with_session sid s c) = co_relays c"
  "co_sessions (with_session sid s c) = AList.update sid s (co_sessions c)"
  by (simp_all add: with_session_def)

lemma pair_session_direct:
  "w_Mode m = ''direct'' \<Longrightarrow> x_udp e = Some peer \<Longrightarrow>
   pair_session sid m src now l e c =
     pairAndReply src (w_Nonce m) peer
       (zero_wire\<lparr>w_Type := ''assign'', w_Session := sid, w_SessionCapBps := t_SpeedCapBps l\<rparr>)
       (zero_wire\<lparr>w_Type := ''session'', w_Session := sid,
          w_ExitID := (if w_FirstHop m \<noteq> [] then [] else x_id e), w_Release := co_release c\<rparr>) now
       (with_session sid
          \<lparr>ss_client = src, ss_peer = peer, ss_relayID = [],
           ss_exitID = (if w_FirstHop m \<noteq> [] then [] else x_id e), ss_signaled = False, ss_answered = False,
           ss_lastSeen = now\<rparr> c)"
  by (simp add: pair_session_def with_session_def Let_def)

lemma pair_session_relay:
  "w_Mode m \<noteq> ''direct'' \<Longrightarrow> pickRelay c (x_id e) now = Some r \<Longrightarrow>
   pair_session sid m src now l e c =
     pairAndReply src (w_Nonce m) (rl_addr r)
       (zero_wire\<lparr>w_Type := ''assign'', w_Session := sid, w_SessionCapBps := t_SpeedCapBps l,
          w_ExitAddr := x_tcpAddr e\<rparr>)
       (zero_wire\<lparr>w_Type := ''session'', w_Session := sid,
          w_ExitID := (if w_FirstHop m \<noteq> [] then [] else x_id e), w_Release := co_release c,
          w_Relay := relayPeer, w_RelayTag := relayTag (rl_id r)\<rparr>) now
       (with_session sid
          \<lparr>ss_client = src, ss_peer = rl_addr r, ss_relayID = rl_id r,
           ss_exitID = (if w_FirstHop m \<noteq> [] then [] else x_id e), ss_signaled = False, ss_answered = False,
           ss_lastSeen = now\<rparr> c)"
  by (simp add: pair_session_def with_session_def Let_def)

lemma pair_session_turn:
  "w_Mode m \<noteq> ''direct'' \<Longrightarrow> pickRelay c (x_id e) now = None \<Longrightarrow> x_udp e = Some peer \<Longrightarrow>
   pair_session sid m src now l e c =
     pairAndReply src (w_Nonce m) peer
       (zero_wire\<lparr>w_Type := ''assign'', w_Session := sid, w_SessionCapBps := t_SpeedCapBps l\<rparr>)
       (zero_wire\<lparr>w_Type := ''session'', w_Session := sid,
          w_ExitID := (if w_FirstHop m \<noteq> [] then [] else x_id e), w_Release := co_release c,
          w_Relay := relayTURN\<rparr>) now
       (with_session sid
          \<lparr>ss_client = src, ss_peer = peer, ss_relayID = [],
           ss_exitID = (if w_FirstHop m \<noteq> [] then [] else x_id e), ss_signaled = False, ss_answered = False,
           ss_lastSeen = now\<rparr> c)"
  by (simp add: pair_session_def with_session_def Let_def)

lemma pair_session_nothing:
  "x_udp e = None \<Longrightarrow> w_Mode m = ''direct'' \<or> pickRelay c (x_id e) now = None \<Longrightarrow>
   pair_session sid m src now l e c = (c, [(src, error_wire NoReason [])])"
  by (auto simp: pair_session_def Let_def)

text \<open>What a minted session, its assignment and its reply say, whichever way the pair is joined.\<close>

definition joins ::
    "coord \<Rightarrow> string \<Rightarrow> wire \<Rightarrow> udp_addr \<Rightarrow> time \<Rightarrow> tier_limit \<Rightarrow> exit_node \<Rightarrow> session \<Rightarrow> wire \<Rightarrow> wire \<Rightarrow> bool" where
  "joins c sid m src now l e s assign reply \<longleftrightarrow>
     w_Type assign = ''assign'' \<and> w_Type reply = ''session''
     \<and> w_Session assign = sid \<and> w_Session reply = sid
     \<and> w_SessionCapBps assign = t_SpeedCapBps l
     \<and> ss_client s = src \<and> ss_lastSeen s = now \<and> \<not> ss_signaled s \<and> \<not> ss_answered s
     \<and> ss_exitID s = w_ExitID reply \<and> w_ExitID reply = (if w_FirstHop m \<noteq> [] then [] else x_id e)
     \<and> (if w_Relay reply = relayPeer
        then (\<exists>r. pickRelay c (x_id e) now = Some r \<and> ss_peer s = rl_addr r \<and> ss_relayID s = rl_id r
               \<and> w_RelayTag reply = relayTag (rl_id r) \<and> w_ExitAddr assign = x_tcpAddr e \<and> w_Mode m \<noteq> ''direct'')
        else x_udp e = Some (ss_peer s) \<and> ss_relayID s = [] \<and> w_ExitAddr assign = [])"

lemmas joins_simps = joins_def zero_wire_def relayPeer_def relayTURN_def

lemma pair_session_outcome:
  "pair_session sid m src now l e c = (c, [(src, error_wire NoReason [])])
   \<or> (\<exists>peer assign reply s.
        pair_session sid m src now l e c =
            pairAndReply src (w_Nonce m) peer assign reply now (with_session sid s c)
        \<and> ss_peer s = peer \<and> joins c sid m src now l e s assign reply)"
proof (cases "x_udp e = None \<and> (w_Mode m = ''direct'' \<or> pickRelay c (x_id e) now = None)")
  case True
  then show ?thesis by (simp add: pair_session_nothing)
next
  case False
  then consider (direct) peer where "w_Mode m = ''direct''" "x_udp e = Some peer"
    | (relay) r where "w_Mode m \<noteq> ''direct''" "pickRelay c (x_id e) now = Some r"
    | (turn) peer where "w_Mode m \<noteq> ''direct''" "pickRelay c (x_id e) now = None" "x_udp e = Some peer"
    by fastforce
  then show ?thesis
  proof cases
    case direct
    from pair_session_direct [OF this] show ?thesis
      using direct by (intro disjI2 exI conjI) (assumption, simp_all add: joins_simps)
  next
    case relay
    from pair_session_relay [OF this] show ?thesis
      using relay by (intro disjI2 exI conjI) (assumption, simp_all add: joins_simps)
  next
    case turn
    from pair_session_turn [OF this] show ?thesis
      using turn by (intro disjI2 exI conjI) (assumption, simp_all add: joins_simps)
  qed
qed

text \<open>A connect answers with what it holds, refuses, or passes every gate and pairs.\<close>

definition gates_passed ::
    "wire \<Rightarrow> udp_addr \<Rightarrow> time \<Rightarrow> coord \<Rightarrow> credential \<Rightarrow> tier_limit \<Rightarrow> exit_node \<Rightarrow> coord \<Rightarrow> bool" where
  "gates_passed m src now c cred l e c' \<longleftrightarrow>
     admit c m src RoleClient [] now = Inr cred \<and> policyAllowsAssignment (co_gate c)
     \<and> w_Nonce m \<noteq> [] \<and> length (w_Nonce m) \<le> maxNonceLen
     \<and> replayMintedConnect c src (w_Nonce m) now = None
     \<and> admitDevice m src now c = (c', None)
     \<and> resolveTier c' cred = Inr l \<and> choose_hop m src now l c' = Inr e"

definition refused :: "udp_addr \<Rightarrow> sends \<Rightarrow> bool" where
  "refused src out \<longleftrightarrow> (\<exists>w. out = [(src, w)] \<and> w_Type w \<in> {''reject'', ''error''})"

lemma refusedI [simp]: "refused src [(src, reject_wire r)]" "refused src [(src, error_wire r x)]"
  by (simp_all add: refused_def reject_wire_def error_wire_def zero_wire_def)

lemma admit_refuses: "admit c m src want subject now = Inl out \<Longrightarrow> refused src out"
  by (auto simp: admit_def split: option.splits sum.splits)

lemma admitDevice_refuses: "admitDevice m src now c = (c', Some out) \<Longrightarrow> refused src out"
  by (auto simp: admitDevice_def Let_def split: option.splits prod.splits)

lemma handle_connect_judged:
  "handle_connect sid m src now c =
     (let m = judged c m src now; here = Canonical (co_up c) (w_Country m)
      in case admit c m src RoleClient [] now of
           Inl out \<Rightarrow> (c, out)
         | Inr cred \<Rightarrow>
             if \<not> policyAllowsAssignment (co_gate c) then (c, [(src, reject_wire NoEnforceablePolicy)])
             else if w_Nonce m = [] \<or> length (w_Nonce m) > maxNonceLen
             then (c, [(src, error_wire (Refused refuseNoNonce) here)])
             else (case replayMintedConnect c src (w_Nonce m) now of
                     Some out \<Rightarrow> (c, out)
                   | None \<Rightarrow>
                       (case admitDevice m src now c of
                          (c, Some out) \<Rightarrow> (c, out)
                        | (c, None) \<Rightarrow>
                            (case resolveTier c cred of
                               Inl r \<Rightarrow> (c, [(src, error_wire (Refused r) here)])
                             | Inr l \<Rightarrow>
                                 (case choose_hop m src now l c of
                                    Inl r \<Rightarrow> (c, [(src, error_wire (Refused r) here)])
                                  | Inr e \<Rightarrow> pair_session sid m src now l e c)))))"
  unfolding handle_connect_def judged_def Let_def ..

lemma connect_outcome:
  obtains (refused) st out where "handle_connect sid m src now c = (c\<lparr>co_challenges := st\<rparr>, out)" "refused src out"
  | (replayed) out where "handle_connect sid m src now c = (c, out)"
      "replayMintedConnect c src (w_Nonce m) now = Some out"
  | (paired) cred l e c' where "gates_passed (judged c m src now) src now c cred l e c'"
      "handle_connect sid m src now c = pair_session sid (judged c m src now) src now l e c'"
proof -
  let ?m = "judged c m src now"
  let ?h = "handle_connect sid m src now c"
  obtain c' r where dev: "admitDevice ?m src now c = (c', r)" by fastforce
  with admitDevice_state [of ?m src now c] obtain st where c': "c' = c\<lparr>co_challenges := st\<rparr>" by auto
  have stay: thesis if "?h = (c, out)" "refused src out" for out
    using refused [of "co_challenges c" out] that by simp
  have stay': thesis if "?h = (c', out)" "refused src out" for out
    using refused [of st out] that by (simp add: c')
  note h = handle_connect_judged [of sid m src now c, unfolded Let_def]
  show ?thesis
  proof (cases "admit c ?m src RoleClient [] now")
    case (Inl out)
    then show ?thesis using admit_refuses [OF Inl] by (intro stay) (simp_all add: h)
  next
    case (Inr cred)
    let ?here = "Canonical (co_up c) (w_Country ?m)"
    show ?thesis
    proof (cases "policyAllowsAssignment (co_gate c) \<and> w_Nonce m \<noteq> [] \<and> length (w_Nonce m) \<le> maxNonceLen")
      case False
      then have "?h = (c, if policyAllowsAssignment (co_gate c) then [(src, error_wire (Refused refuseNoNonce) ?here)]
          else [(src, reject_wire NoEnforceablePolicy)])"
        using Inr by (auto simp: h)
      then show ?thesis by (rule stay) simp
    next
      case ok: True
      show ?thesis
      proof (cases "replayMintedConnect c src (w_Nonce m) now")
        case (Some out)
        then show ?thesis using Inr ok replayed [of out] by (simp add: h)
      next
        case None
        have h: "?h = (case r of Some out \<Rightarrow> (c', out)
            | None \<Rightarrow> (case resolveTier c' cred of Inl t \<Rightarrow> (c', [(src, error_wire (Refused t) ?here)])
               | Inr l \<Rightarrow> (case choose_hop ?m src now l c' of Inl t \<Rightarrow> (c', [(src, error_wire (Refused t) ?here)])
                  | Inr e \<Rightarrow> pair_session sid ?m src now l e c')))"
          using Inr ok None by (simp add: h dev)
        have gates: "gates_passed ?m src now c cred l e c'"
          if "r = None" "resolveTier c' cred = Inr l" "choose_hop ?m src now l c' = Inr e" for l e
          using that Inr ok None dev by (simp add: gates_passed_def)
        show ?thesis
          using stay' paired [OF gates] admitDevice_refuses [of ?m src now c c'] dev h
          by (simp split: option.splits sum.splits)
      qed
    qed
  qed
qed

section \<open>A connect is answered once\<close>

text \<open>
  The table of answered connects as its clients rely on it: an answer stays, unchanged, through
  every step taken within its life.
\<close>

locale answer_table =
  fixes held :: "'s \<Rightarrow> 'k \<Rightarrow> 'a option"
    and born :: "'a \<Rightarrow> time"
    and life :: duration
    and step :: "'e \<Rightarrow> 's \<Rightarrow> 's"
    and clock_at :: "'e \<Rightarrow> time"
  assumes step_keeps: "held s k = Some a \<Longrightarrow> clock_at e \<le> born a + life \<Longrightarrow> held (step e s) k = Some a"
begin

lemma run_keeps:
  "held s k = Some a \<Longrightarrow> (\<And>e. e \<in> set es \<Longrightarrow> clock_at e \<le> born a + life) \<Longrightarrow> held (fold step es s) k = Some a"
  by (induction es arbitrary: s) (simp_all add: step_keeps)

end

lemma within_dedupe: "time_sub now t > connectDedupeTTL \<longleftrightarrow> now > t + connectDedupeTTL"
  by (rule time_sub_le_iff) (simp_all add: connectDedupeTTL_def max_int64_def min_int64_def)

lemma map_of_filter_kept:
  "map_of xs k = Some v \<Longrightarrow> P (k, v) \<Longrightarrow> map_of (filter P xs) k = Some v"
  by (induction xs) (auto split: if_splits)

text \<open>Which fields the other messages leave alone.\<close>

lemma handler_frame [simp]:
  "co_minted (fst (handle_hello m src now c)) = co_minted c"
  "co_minted (fst (handle_register m src now c)) = co_minted c"
  "co_minted (fst (handle_heartbeat m src now c)) = co_minted c"
  "co_minted (fst (handle_list m src now c)) = co_minted c"
  "co_minted (fst (handle_challenge ch m src now c)) = co_minted c"
  "co_minted (fst (handle_signal m src now c)) = co_minted c"
  "co_minted (handleCapacityReport m src now c) = co_minted c"
  "co_sessions (fst (handle_hello m src now c)) = co_sessions c"
  "co_sessions (fst (handle_register m src now c)) = co_sessions c"
  "co_sessions (fst (handle_heartbeat m src now c)) = co_sessions c"
  "co_sessions (fst (handle_list m src now c)) = co_sessions c"
  "co_sessions (fst (handle_challenge ch m src now c)) = co_sessions c"
  "co_sessions (handleCapacityReport m src now c) = co_sessions c"
  by (auto simp: handle_hello_def noteHelloReject_def handle_register_def register_relay_def register_exit_def
      handle_heartbeat_def handle_list_def handle_challenge_def issueDeviceChallenge_def handle_signal_def
      handleCapacityReport_def Let_def split: option.split sum.split prod.split)

lemma gates_state:
  assumes "gates_passed m src now c cred l e c'"
  shows "\<exists>st. c' = c\<lparr>co_challenges := st\<rparr>"
proof -
  have "fst (admitDevice m src now c) = c'" using assms by (simp add: gates_passed_def)
  then show ?thesis using admitDevice_state [of m src now c] by simp
qed

lemma connect_minted:
  assumes "map_of (co_minted c) k = Some mc" and "now \<le> mc_at mc + connectDedupeTTL"
  shows "map_of (co_minted (fst (handle_connect sid m src now c))) k = Some mc"
proof -
  let ?m = "judged c m src now"
  show ?thesis
  proof (cases rule: connect_outcome [of sid m src now c])
    case (paired cred l e c')
    have fresh: "connectKey src (w_Nonce m) \<noteq> k" and nonce: "w_Nonce m \<noteq> []"
      using paired(1) assms by (auto simp: gates_passed_def replayMintedConnect_def within_dedupe)
    obtain st where c': "c' = c\<lparr>co_challenges := st\<rparr>" using gates_state [OF paired(1)] by blast
    from pair_session_outcome [of sid ?m src now l e c'] show ?thesis
      unfolding paired(2) using fresh nonce assms(1) by (auto simp: c' update_conv')
  qed (use assms(1) in simp_all)
qed

lemma dispatch_minted:
  assumes "map_of (co_minted c) k = Some mc" and "now \<le> mc_at mc + connectDedupeTTL"
  shows "map_of (co_minted (fst (dispatch sid ch m src now c))) k = Some mc"
  using assms connect_minted [OF assms] by (simp add: dispatch_def)

lemma prune_minted:
  assumes "map_of (co_minted c) k = Some mc" and "now \<le> mc_at mc + connectDedupeTTL"
  shows "map_of (co_minted (prune now c)) k = Some mc"
  unfolding prune_sel by (rule map_of_filter_kept [OF assms(1)]) (use assms(2) in \<open>simp add: within_dedupe\<close>)

lemma sweep_frame [simp]:
  "co_minted (fst (sweepTick now c)) = co_minted (prune now c)"
  by (simp add: sweepTick_def reselectDeadRelays_def reportUnansweredNodes_def Let_def)

lemma step_minted:
  assumes "map_of (co_minted c) k = Some mc" and "event_time e \<le> mc_at mc + connectDedupeTTL"
  shows "map_of (co_minted (coord_step e c)) k = Some mc"
proof (cases e)
  case (Datagram sid ch m src now)
  then show ?thesis using assms by (simp add: handle_def dispatch_minted prune_minted del: prune_sel)
next
  case (Sweep now)
  then show ?thesis using assms by (simp add: prune_minted del: prune_sel)
qed

interpretation minted_table: answer_table "\<lambda>c. map_of (co_minted c)" mc_at connectDedupeTTL coord_step event_time
  by unfold_locales (rule step_minted)


text \<open>What a connect that mints leaves behind, seen from its reply.\<close>

lemma connect_answer:
  assumes "handle_connect sid m src now c = (c', out)"
    and "map_of (co_minted c) (connectKey src (w_Nonce m)) = None"
    and "(src, reply) \<in> set out" and "w_Type reply = ''session''"
  obtains mc where "map_of (co_minted c') (connectKey src (w_Nonce m)) = Some mc" "mc_at mc = now"
    "out = [(mc_peer mc, mc_assign mc), (src, mc_reply mc)]" "w_Nonce m \<noteq> []" "length (w_Nonce m) \<le> maxNonceLen"
proof (cases rule: connect_outcome [of sid m src now c])
  case refused
  then show ?thesis using assms by (auto simp: refused_def)
next
  case replayed
  then show ?thesis using assms by (auto simp: replayMintedConnect_def split: if_splits)
next
  case (paired cred l e c0)
  let ?m = "judged c m src now"
  have nonce: "w_Nonce m \<noteq> []" "length (w_Nonce m) \<le> maxNonceLen" using paired(1) by (simp_all add: gates_passed_def)
  from pair_session_outcome [of sid ?m src now l e c0] show ?thesis
  proof
    assume "pair_session sid ?m src now l e c0 = (c0, [(src, error_wire NoReason [])])"
    then show ?thesis using assms paired(2) by (auto simp: error_wire_def zero_wire_def)
  next
    assume "\<exists>peer assign reply s. pair_session sid ?m src now l e c0 =
        pairAndReply src (w_Nonce ?m) peer assign reply now (with_session sid s c0)
      \<and> ss_peer s = peer \<and> joins c0 sid ?m src now l e s assign reply"
    then obtain peer assign rep s where
      h: "(c', out) = pairAndReply src (w_Nonce m) peer assign rep now (with_session sid s c0)"
      using assms(1) paired(2) by auto
    have "fst (c', out) = c'" "snd (c', out) = out" by simp_all
    then show ?thesis
      unfolding h using nonce
      by (intro that [of "\<lparr>mc_peer = peer, mc_assign = assign, mc_reply = rep, mc_at = now\<rparr>"])
         (auto simp: update_conv' simp del: fst_conv snd_conv)
  qed
qed

lemma connect_replay:
  assumes "map_of (co_minted c) (connectKey src (w_Nonce m)) = Some mc" and "now \<le> mc_at mc + connectDedupeTTL"
    and "w_Nonce m \<noteq> []" and "length (w_Nonce m) \<le> maxNonceLen"
  shows "handle_connect sid m src now c =
    (c, case admit c (judged c m src now) src RoleClient [] now of
          Inl out \<Rightarrow> out
        | Inr _ \<Rightarrow> if policyAllowsAssignment (co_gate c)
                 then [(mc_peer mc, mc_assign mc), (src, mc_reply mc)]
                 else [(src, reject_wire NoEnforceablePolicy)])"
proof -
  have "replayMintedConnect c src (w_Nonce m) now = Some [(mc_peer mc, mc_assign mc), (src, mc_reply mc)]"
    using assms by (simp add: replayMintedConnect_def within_dedupe not_less)
  then show ?thesis
    unfolding handle_connect_def judged_def [symmetric, unfolded Let_def] Let_def
    using assms(3,4) by (simp split: sum.split)
qed

text \<open>C2: A connect is answered once. Take a connect that finds no held answer and is answered with a
  session. Whatever happens next, any datagrams and sweeps within the thirty seconds of the dedupe
  window, a further copy of it, from the same source with the same nonce, in any content otherwise,
  mints nothing: the state is only pruned, and the copy is refused by admission or the policy, or
  gets exactly the two sends of the first answer, the same session at the same node.\<close>

theorem connect_answered_once:
  assumes "handle sid ch m src now c = (c', out)" and "w_Type m = ''connect''"
    and "map_of (co_minted (prune now c)) (connectKey src (w_Nonce m)) = None"
    and "(src, reply) \<in> set out" and "w_Type reply = ''session''"
    and "\<And>e. e \<in> set es \<Longrightarrow> event_time e \<le> now + connectDedupeTTL"
    and "w_Type m' = ''connect''" and "w_Nonce m' = w_Nonce m" and "now' \<le> now + connectDedupeTTL"
  shows "handle sid' ch' m' src now' (fold coord_step es c') =
    (let c'' = prune now' (fold coord_step es c')
     in (c'', case admit c'' (judged c'' m' src now') src RoleClient [] now' of
                Inl rejection \<Rightarrow> rejection
              | Inr _ \<Rightarrow> if policyAllowsAssignment (co_gate c'') then out
                       else [(src, reject_wire NoEnforceablePolicy)]))"
proof -
  have "handle_connect sid m src now (prune now c) = (c', out)"
    using assms(1,2) by (simp add: handle_def dispatch_def)
  from connect_answer [OF this assms(3-5)] obtain mc where
    mc: "map_of (co_minted c') (connectKey src (w_Nonce m)) = Some mc" "mc_at mc = now"
      "out = [(mc_peer mc, mc_assign mc), (src, mc_reply mc)]" "w_Nonce m \<noteq> []" "length (w_Nonce m) \<le> maxNonceLen" .
  let ?c = "prune now' (fold coord_step es c')"
  have "map_of (co_minted (fold coord_step es c')) (connectKey src (w_Nonce m)) = Some mc"
    by (rule minted_table.run_keeps [OF mc(1)]) (simp add: mc(2) assms(6))
  then have "map_of (co_minted ?c) (connectKey src (w_Nonce m')) = Some mc"
    unfolding assms(8) by (rule prune_minted) (simp add: mc(2) assms(9))
  from connect_replay [OF this, of now' sid'] show ?thesis
    unfolding mc(3) using assms(7,8,9) mc(2,4,5) by (simp add: handle_def dispatch_def Let_def)
qed

section \<open>A session is minted only behind every gate\<close>

lemma admit_verified:
  "admit c m src want subject now = Inr cred \<Longrightarrow> co_admission c = Some v \<Longrightarrow>
   admission_Verify (co_admission_env c) v (w_Cred m) now want subject = Inr cred"
  by (auto simp: admit_def split: sum.splits)

lemma device_verified:
  assumes "admitDevice m src now c = (c', None)" and "co_device c = Some v"
  shows "\<exists>issued st assertion p dc. spend (ua_String src) (w_Nonce m) now (co_challenges c) = (Some issued, st)
    \<and> std_decode (w_Challenge m) = Some issued \<and> std_decode (w_DeviceAssert m) = Some assertion
    \<and> ParsePresentation (w_DeviceCred m) (w_IssuerCert m) assertion = Inr p
    \<and> device_Verify (co_device_env c) v p now (co_deviceAudience c) issued = Inr dc"
  using assms
  by (auto simp: admitDevice_def check_presentation_def Let_def split: prod.splits option.splits sum.splits if_splits)

lemma dispatch_new_session:
  assumes "map_of (co_sessions c) k = None" and "map_of (co_sessions (fst (dispatch sid ch m src now c))) k \<noteq> None"
  shows "w_Type m = ''connect'' \<and> k = sid
    \<and> (\<exists>cred l e c'. gates_passed (judged c m src now) src now c cred l e c')"
proof -
  have conn: "w_Type m = ''connect''"
    using assms by (auto simp: dispatch_def handle_signal_def update_conv' Let_def split: if_splits option.splits)
  then have "map_of (co_sessions (fst (handle_connect sid m src now c))) k \<noteq> None"
    using assms(2) by (simp add: dispatch_def)
  then show ?thesis
  proof (cases rule: connect_outcome [of sid m src now c])
    case (paired cred l e c')
    moreover obtain st where "c' = c\<lparr>co_challenges := st\<rparr>" using gates_state [OF paired(1)] by blast
    ultimately show ?thesis
      using pair_session_outcome [of sid "judged c m src now" src now l e c'] conn assms(1)
        \<open>map_of (co_sessions (fst (handle_connect sid m src now c))) k \<noteq> None\<close>
      by (auto simp: update_conv' split: if_splits)
  qed (use assms(1) in simp_all)
qed

text \<open>The device that presents what a connect carries, against a challenge: its credential and the issuer's
  certificate decode from the datagram, the certificate from the stash of the challenge if it sent
  none; the root signed the certificate, the certified issuer the credential, and the device key in it
  this coordinator's audience with the challenge.\<close>

definition presents_device :: "coord \<Rightarrow> device_verifier \<Rightarrow> wire \<Rightarrow> udp_addr \<Rightarrow> time \<Rightarrow> bytes \<Rightarrow> device_credential \<Rightarrow> bool" where
  "presents_device c v m src now issued dc \<longleftrightarrow>
     (\<exists>cert cred assertion ic body.
        DecodeDeviceCredential (w_DeviceCred m) = Inr cred \<and> DecodeIssuerCert (issuerCertFor c m src now) = Inr cert
      \<and> std_decode (w_DeviceAssert m) = Some assertion
      \<and> live_issuer (co_device_env c) (dvf_rootPub v) cert now (dvf_revoked v) ic
      \<and> signed_by (de_verify (co_device_env c)) (ic_IssuerPub ic) TagDeviceCred cred body
      \<and> de_device (co_device_env c) body = Some dc
      \<and> de_verify (co_device_env c) (dv_DevicePub dc)
          (assertionMessage PurposeConnect (co_deviceAudience c) issued) assertion)
     \<and> \<not> dvf_revoked v (dv_Serial dc) \<and> dv_NotBefore dc - ClockSkew \<le> now \<and> now < dv_NotAfter dc"

lemma parsed_presents_device:
  assumes "std_decode (w_DeviceAssert m) = Some assertion"
    and "ParsePresentation (w_DeviceCred m) (issuerCertFor c m src now) assertion = Inr p"
    and "device_Verify (co_device_env c) v p now (co_deviceAudience c) issued = Inr dc"
  shows "presents_device c v m src now issued dc"
proof -
  from assms(2) have "DecodeDeviceCredential (w_DeviceCred m) = Inr (pr_Credential p)"
    "DecodeIssuerCert (issuerCertFor c m src now) = Inr (pr_IssuerCert p)" "pr_Assertion p = assertion"
    by (auto simp: ParsePresentation_def split: sum.splits if_splits)
  with assms(1,3) show ?thesis unfolding presents_device_def device_admitted_iff by blast
qed

text \<open>C3: No session without the gates that are configured. Whatever datagram arrives, if it leaves a session
  under an id that had none, then it was a connect and the id is the one freshly drawn; policy, where
  it is configured, is in force; the connect's nonce was present and bounded; if the admission gate is on,
  the credential it sent, or stashed with its challenge, verified for the client role; and if the device
  gate is on, it spent the challenge issued to its own source address, repeated that challenge, and the
  device credential, the issuer certificate (its own, or the one stashed with the challenge) and the
  assertion in that same datagram form a chain from the root to a signature over the challenge, the
  credential neither revoked nor outside its window.\<close>

theorem session_behind_every_gate:
  assumes "map_of (co_sessions (prune now c)) k = None"
    and "map_of (co_sessions (fst (handle sid ch m src now c))) k \<noteq> None"
  shows "w_Type m = ''connect'' \<and> k = sid \<and> policyAllowsAssignment (co_gate c)
    \<and> w_Nonce m \<noteq> [] \<and> length (w_Nonce m) \<le> 64
    \<and> (\<forall>v. co_admission c = Some v \<longrightarrow>
         (\<exists>cred. admission_Verify (co_admission_env c) v (admissionCredFor c m src now) now ''client'' [] = Inr cred))
    \<and> (\<forall>v. co_device c = Some v \<longrightarrow>
         (\<exists>issued st dc. spend (ua_String src) (w_Nonce m) now (co_challenges c) = (Some issued, st)
            \<and> std_decode (w_Challenge m) = Some issued \<and> presents_device c v m src now issued dc))"
proof -
  let ?c = "prune now c" and ?m = "judged (prune now c) m src now"
  from dispatch_new_session [OF assms(1), of sid ch m src now] assms(2) obtain cred l e c' where
    conn: "w_Type m = ''connect''" "k = sid" and g: "gates_passed ?m src now ?c cred l e c'"
    by (auto simp: handle_def)
  have adm: "admit ?c ?m src RoleClient [] now = Inr cred" and dev: "admitDevice ?m src now ?c = (c', None)"
    using g by (simp_all add: gates_passed_def)
  have sent: "w_Challenge ?m = w_Challenge m" "w_DeviceAssert ?m = w_DeviceAssert m" "w_DeviceCred ?m = w_DeviceCred m"
    "w_IssuerCert ?m = issuerCertFor c m src now"
    by (simp_all add: judged_def Let_def issuerCertFor_def)
  have cred: "admissionCredFor ?c m src now = admissionCredFor c m src now" by (simp add: admissionCredFor_def)
  have device: "\<exists>issued st dc. spend (ua_String src) (w_Nonce m) now (co_challenges c) = (Some issued, st)
      \<and> std_decode (w_Challenge m) = Some issued \<and> presents_device c v m src now issued dc"
    if "co_device c = Some v" for v
    using device_verified [OF dev, of v] that parsed_presents_device [of m _ c src now] by (fastforce simp: sent)
  show ?thesis
    using conn g admit_verified [OF adm] device
    by (auto simp: gates_passed_def maxNonceLen_def RoleClient_def cred)
qed

section \<open>What a pairing says\<close>

lemma find_SomeD: "List.find P xs = Some y \<Longrightarrow> y \<in> set xs \<and> P y"
  by (induction xs) (auto split: if_splits)

lemma within_half_ttl: "time_sub now t > ttl div 2 \<longleftrightarrow> now > t + ttl div 2"
  by (rule time_sub_le_iff) (simp_all add: ttl_def max_int64_def min_int64_def)

lemma pickRelay_live:
  assumes "pickRelay c x now = Some r"
  shows "\<exists>k. (k, r) \<in> set (co_relays c) \<and> k \<noteq> x \<and> now \<le> rl_lastSeen r + ttl div 2 \<and> \<not> rl_exhausted r
    \<and> meetsServeFloor c (rl_id r) (rl_speedCap r)"
  using assms by (auto simp: pickRelay_def within_half_ttl not_less dest!: find_SomeD)

lemma challenges_irrelevant [simp]:
  "pickRelay (c\<lparr>co_challenges := st\<rparr>) x now = pickRelay c x now"
  "resolveFirstHop (c\<lparr>co_challenges := st\<rparr>) h = resolveFirstHop c h"
  "resolveTier (c\<lparr>co_challenges := st\<rparr>) cred = resolveTier c cred"
  "exitSessions (c\<lparr>co_challenges := st\<rparr>) now x = exitSessions c now x"
  "exitAssignable (c\<lparr>co_challenges := st\<rparr>) e n l = exitAssignable c e n l"
  by (simp_all add: pickRelay_def meetsServeFloor_def measuredUsable_def resolveFirstHop_def resolveTier_def
      exitSessions_def exitAssignable_def meetsEndpointQuality_def exitRating_def tierMinShare_def)


text \<open>The node a connect is paired with: the exit chosen in the asked country, or the hop it named.\<close>

definition chosen :: "coord \<Rightarrow> wire \<Rightarrow> time \<Rightarrow> tier_limit \<Rightarrow> exit_node \<Rightarrow> bool" where
  "chosen c m now l e \<longleftrightarrow>
     (if w_FirstHop m = []
      then e \<in> snd ` set (co_exits c) \<and> x_country e = Canonical (co_up c) (w_Country m)
           \<and> exitAssignable c e (exitSessions c now (x_id e)) l
      else w_Mode m = ''relay'' \<and> map_of (co_exits c) (w_FirstHop m) = Some e \<and> \<not> x_exhausted e \<and> x_udp e \<noteq> None)"

lemma choose_hop_chosen:
  assumes "choose_hop m src now l c = Inr e"
  shows "chosen c m now l e"
proof (cases "w_FirstHop m = []")
  case True
  then have "chooseExit c (w_Country m) (excludedExits c src (w_ExcludeSessions m)) now l = Inr e"
    using assms by (simp add: choose_hop_def)
  then show ?thesis using choose_exit_sound True by (simp add: chosen_def)
next
  case False
  then show ?thesis
    using assms by (auto simp: choose_hop_def resolveFirstHop_def chosen_def split: if_splits option.splits)
qed

lemma chosen_challenges [simp]: "chosen (c\<lparr>co_challenges := st\<rparr>) m now l e = chosen c m now l e"
  by (simp add: chosen_def)

lemma chosen_judged [simp]: "chosen c (judged c' m src now) t l e = chosen c m t l e"
  by (simp add: chosen_def)

lemma connect_pairs:
  assumes "handle_connect sid m src now c = (c', out)"
    and "map_of (co_minted c) (connectKey src (w_Nonce m)) = None"
    and "(src, reply) \<in> set out" and "w_Type reply = ''session''"
  obtains cred l e s assign where "admit c (judged c m src now) src RoleClient [] now = Inr cred"
    "resolveTier c cred = Inr l" "chosen c m now l e"
    "out = [(ss_peer s, assign), (src, reply)]"
    "co_sessions c' = AList.update sid s (co_sessions c)" "joins c sid (judged c m src now) src now l e s assign reply"
proof (cases rule: connect_outcome [of sid m src now c])
  case refused
  then show ?thesis using assms by (auto simp: refused_def)
next
  case replayed
  then show ?thesis using assms by (auto simp: replayMintedConnect_def split: if_splits)
next
  case (paired cred l e c0)
  let ?m = "judged c m src now"
  obtain st where c0: "c0 = c\<lparr>co_challenges := st\<rparr>" using gates_state [OF paired(1)] by blast
  have g: "admit c ?m src RoleClient [] now = Inr cred" "resolveTier c cred = Inr l" "chosen c m now l e"
    using paired(1) choose_hop_chosen [of ?m src now l c0 e] by (auto simp: gates_passed_def c0)
  from pair_session_outcome [of sid ?m src now l e c0] show ?thesis
  proof
    assume "pair_session sid ?m src now l e c0 = (c0, [(src, error_wire NoReason [])])"
    then show ?thesis using assms paired(2) by (auto simp: error_wire_def zero_wire_def)
  next
    assume "\<exists>peer assign reply s. pair_session sid ?m src now l e c0 =
        pairAndReply src (w_Nonce ?m) peer assign reply now (with_session sid s c0)
      \<and> ss_peer s = peer \<and> joins c0 sid ?m src now l e s assign reply"
    then obtain assign rep s where
      h: "(c', out) = pairAndReply src (w_Nonce m) (ss_peer s) assign rep now (with_session sid s c0)"
      and j: "joins c0 sid ?m src now l e s assign rep"
      using assms(1) paired(2) by auto
    have out: "out = [(ss_peer s, assign), (src, rep)]" and ss: "co_sessions c' = AList.update sid s (co_sessions c)"
      using h by (simp_all add: pairAndReply_def c0 split: if_splits)
    have "w_Type assign \<noteq> ''session''" using j by (simp add: joins_def)
    then have "reply = rep" using assms(3,4) out by auto
    moreover have "joins c sid ?m src now l e s assign rep" using j by (auto simp: joins_def c0 split: if_splits)
    ultimately show ?thesis using that [OF g] out ss by simp
  qed
qed

text \<open>C23: A connect answered with a fresh session is paired consistently. The two sends go to the node
  recorded as the session's peer and to the client, under the freshly drawn id, with the speed cap
  of the client's tier. Without a first hop the node is an assignable exit of the asked country and
  its id is told to the client; with one, only in relay mode, the named hop is used and no exit is
  named to anyone. Either a live, unspent relay other than that node carries the session and is
  told the exit's address, or the node itself is the peer.\<close>

theorem pairing_consistent:
  assumes "handle sid ch m src now c = (c', out)" and "w_Type m = ''connect''"
    and "map_of (co_minted (prune now c)) (connectKey src (w_Nonce m)) = None"
    and "(src, reply) \<in> set out" and "w_Type reply = ''session''"
  shows "\<exists>l e s assign. out = [(ss_peer s, assign), (src, reply)]
    \<and> map_of (co_sessions c') sid = Some s \<and> ss_client s = src
    \<and> w_Session assign = sid \<and> w_Session reply = sid \<and> w_SessionCapBps assign = t_SpeedCapBps l
    \<and> (\<exists>cred. admit (prune now c) (judged (prune now c) m src now) src RoleClient [] now = Inr cred
         \<and> resolveTier (prune now c) cred = Inr l)
    \<and> chosen (prune now c) m now l e
    \<and> ss_exitID s = w_ExitID reply \<and> w_ExitID reply = (if w_FirstHop m = [] then x_id e else [])
    \<and> (if w_Relay reply = relayPeer
       then \<exists>k r. (k, r) \<in> set (co_relays (prune now c)) \<and> k \<noteq> x_id e \<and> now \<le> rl_lastSeen r + ttl div 2
              \<and> \<not> rl_exhausted r \<and> ss_relayID s = rl_id r \<and> ss_peer s = rl_addr r
              \<and> w_RelayTag reply = relayTag (rl_id r) \<and> w_ExitAddr assign = x_tcpAddr e
       else x_udp e = Some (ss_peer s) \<and> ss_relayID s = [] \<and> w_ExitAddr assign = [])"
proof -
  let ?c = "prune now c"
  have "handle_connect sid m src now ?c = (c', out)"
    using assms(1,2) by (simp add: handle_def dispatch_def)
  from connect_pairs [OF this assms(3-5)] obtain cred l e s assign where
    h: "admit ?c (judged ?c m src now) src RoleClient [] now = Inr cred" "resolveTier ?c cred = Inr l"
      "chosen ?c m now l e" "out = [(ss_peer s, assign), (src, reply)]"
      "co_sessions c' = AList.update sid s (co_sessions ?c)"
      "joins ?c sid (judged ?c m src now) src now l e s assign reply" .
  have relay: "\<exists>k r. (k, r) \<in> set (co_relays ?c) \<and> k \<noteq> x_id e \<and> now \<le> rl_lastSeen r + ttl div 2
      \<and> \<not> rl_exhausted r \<and> ss_relayID s = rl_id r \<and> ss_peer s = rl_addr r
      \<and> w_RelayTag reply = relayTag (rl_id r) \<and> w_ExitAddr assign = x_tcpAddr e"
    if peer: "w_Relay reply = relayPeer"
  proof -
    obtain r where r: "pickRelay ?c (x_id e) now = Some r" "ss_relayID s = rl_id r" "ss_peer s = rl_addr r"
      "w_RelayTag reply = relayTag (rl_id r)" "w_ExitAddr assign = x_tcpAddr e"
      using h(6) peer by (auto simp: joins_def simp del: prune_sel)
    then show ?thesis using pickRelay_live [OF r(1)] by blast
  qed
  show ?thesis
    using h relay
    by (intro exI [of _ l] exI [of _ e] exI [of _ s] exI [of _ assign])
       (simp add: joins_def update_conv' del: prune_sel split: if_splits)
qed

section \<open>The registry stays well formed\<close>

definition relay_ok :: "string \<times> relay_node \<Rightarrow> bool" where
  "relay_ok p \<longleftrightarrow> rl_id (snd p) = fst p \<and> (rl_ingressPort (snd p) = 0 \<or> validIngressPort (rl_ingressPort (snd p)))"

definition exit_ok :: "string \<times> exit_node \<Rightarrow> bool" where
  "exit_ok p \<longleftrightarrow> x_id (snd p) = fst p \<and> x_udp (snd p) \<noteq> None"

definition session_ok :: "string \<times> session \<Rightarrow> bool" where
  "session_ok p \<longleftrightarrow> (ss_answered (snd p) \<longrightarrow> ss_signaled (snd p))"

definition minted_ok :: "string \<times> minted_connect \<Rightarrow> bool" where
  "minted_ok p \<longleftrightarrow> w_Type (mc_assign (snd p)) = ''assign'' \<and> w_Type (mc_reply (snd p)) = ''session''
     \<and> w_Session (mc_assign (snd p)) = w_Session (mc_reply (snd p))"

text \<open>A table: one entry per key, each entry well formed.\<close>

definition table :: "('k \<times> 'v \<Rightarrow> bool) \<Rightarrow> ('k \<times> 'v) list \<Rightarrow> bool" where
  "table ok xs \<longleftrightarrow> distinct (map fst xs) \<and> (\<forall>p \<in> set xs. ok p)"

definition registry_ok :: "coord \<Rightarrow> bool" where
  "registry_ok c \<longleftrightarrow> table relay_ok (co_relays c) \<and> table exit_ok (co_exits c) \<and> table session_ok (co_sessions c)
     \<and> table minted_ok (co_minted c)"

lemma table_Nil [simp]: "table ok []"
  by (simp add: table_def)

lemma table_filter [simp]: "table ok xs \<Longrightarrow> table ok (filter P xs)"
  by (simp add: table_def distinct_map_filter)

lemma in_update_cases: "p \<in> set (AList.update k v xs) \<Longrightarrow> p = (k, v) \<or> p \<in> set xs"
  by (induction xs) (auto split: if_splits)

lemma table_update: "table ok xs \<Longrightarrow> ok (k, v) \<Longrightarrow> table ok (AList.update k v xs)"
  by (auto simp: table_def distinct_update dest!: in_update_cases)

lemma table_map: "table ok xs \<Longrightarrow> (\<And>k v. (k, v) \<in> set xs \<Longrightarrow> ok (k, v) \<Longrightarrow> ok (k, f k v))
    \<Longrightarrow> table ok (map (\<lambda>(k, v). (k, f k v)) xs)"
  by (auto simp: table_def comp_def case_prod_unfold)

lemma table_lookup: "table ok xs \<Longrightarrow> map_of xs k = Some v \<Longrightarrow> ok (k, v)"
  by (auto simp: table_def dest: map_of_SomeD)

lemma registry_ok_challenges [simp]: "registry_ok (c\<lparr>co_challenges := st\<rparr>) = registry_ok c"
  by (simp add: registry_ok_def)

lemma prune_ok: "registry_ok c \<Longrightarrow> registry_ok (prune now c)"
  by (simp add: registry_ok_def)

lemma register_ok:
  assumes "registry_ok c"
  shows "registry_ok (fst (handle_register m src now c))"
proof -
  have "registry_ok (register_relay m src claims now c)" for claims
    using assms by (auto simp: registry_ok_def register_relay_def Let_def relay_ok_def validIngressPort_def
        intro!: table_update)
  moreover have "registry_ok (register_exit m src claims now c)" for claims
    using assms by (auto simp: registry_ok_def register_exit_def Let_def exit_ok_def intro!: table_update)
  ultimately show ?thesis
    using assms by (simp add: handle_register_def split: sum.split option.split)
qed

lemma beat_ok:
  "relay_ok (k, r) \<Longrightarrow> relay_ok (k, beat_relay g nd src now r)"
  "exit_ok (k, e) \<Longrightarrow> exit_ok (k, beat_exit g nd src now e)"
  by (simp_all add: relay_ok_def exit_ok_def beat_relay_def beat_exit_def Let_def)

lemma heartbeat_ok: "registry_ok c \<Longrightarrow> registry_ok (fst (handle_heartbeat m src now c))"
  by (auto simp: handle_heartbeat_def registry_ok_def Let_def intro!: table_update beat_ok intro: table_lookup
      split: option.splits)

lemma signal_ok: "registry_ok c \<Longrightarrow> registry_ok (fst (handle_signal m src now c))"
  by (auto simp: handle_signal_def registry_ok_def Let_def session_ok_def intro!: table_update split: option.splits)

lemma connect_ok:
  assumes "registry_ok c"
  shows "registry_ok (fst (handle_connect sid m src now c))"
proof (cases rule: connect_outcome [of sid m src now c])
  case (paired cred l e c')
  obtain st where "c' = c\<lparr>co_challenges := st\<rparr>" using gates_state [OF paired(1)] by blast
  then have "registry_ok c'" using assms by simp
  then show ?thesis
    using pair_session_outcome [of sid "judged c m src now" src now l e c'] paired(2)
    by (auto simp: registry_ok_def pairAndReply_def joins_def session_ok_def minted_ok_def intro!: table_update)
qed (use assms in simp_all)

lemma dispatch_ok:
  assumes "registry_ok c"
  shows "registry_ok (fst (dispatch sid ch m src now c))"
proof -
  have "registry_ok (fst (handle_hello m src now c))" "registry_ok (fst (handle_list m src now c))"
    "registry_ok (fst (handle_challenge ch m src now c))" "registry_ok (handleCapacityReport m src now c)"
    using assms by (auto simp: registry_ok_def handle_hello_def noteHelloReject_def handle_list_def handle_challenge_def
        issueDeviceChallenge_def handleCapacityReport_def Let_def split: option.split sum.split prod.split)
  then show ?thesis
    using assms register_ok heartbeat_ok connect_ok signal_ok by (simp add: dispatch_def)
qed

lemma report_ok: "registry_ok c \<Longrightarrow> registry_ok (reportUnansweredNodes now c)"
  unfolding registry_ok_def reportUnansweredNodes_def
  by (auto simp: relay_ok_def exit_ok_def intro!: table_map)

lemma sweep_ok:
  assumes "registry_ok c"
  shows "registry_ok (fst (sweepTick now c))"
proof -
  have "registry_ok (fst (reselectDeadRelays now (prune now c)))"
    using prune_ok [OF assms, of now] by (simp add: registry_ok_def reselectDeadRelays_def Let_def del: prune_sel)
  then show ?thesis
    unfolding sweepTick_def Let_def by (simp add: case_prod_unfold report_ok)
qed

lemma registry_step_ok: "registry_ok c \<Longrightarrow> registry_ok (coord_step e c)"
  by (cases e) (simp_all add: handle_def dispatch_ok prune_ok sweep_ok)

text \<open>C21: The registry is well formed in every state a coordinator reaches from empty tables, whatever
  datagrams arrive and sweeps run: one entry per id in each table, every node filed under its own
  id, every exit with a signaling address, every relay with a dialable ingress port or none, every
  answered session also signaled, and every held answer an assignment and a session reply that name
  the same session.\<close>

theorem registry_well_formed:
  assumes "co_relays c = []" and "co_exits c = []" and "co_sessions c = []" and "co_minted c = []"
  shows "registry_ok (fold coord_step es c)"
proof -
  have "registry_ok c" using assms by (simp add: registry_ok_def)
  then show ?thesis by (induction es arbitrary: c) (simp_all add: registry_step_ok)
qed


section \<open>The sweep\<close>

lemma map_of_map_values:
  "map_of (map (\<lambda>(nd, e). (nd, g nd e)) tbl) nd = (case map_of tbl nd of None \<Rightarrow> None | Some e \<Rightarrow> Some (g nd e))"
  by (induction tbl) (simp_all add: split_beta)

lemma report_sel [simp]:
  "co_sessions (reportUnansweredNodes now c) = co_sessions c"
  "co_minted (reportUnansweredNodes now c) = co_minted c"
  "relay_live (reportUnansweredNodes now c) now' s = relay_live c now' s"
  by (simp_all add: reportUnansweredNodes_def relay_live_def map_of_map_values option.case_eq_if option.map_sel)

lemma relay_live_sessions [simp]: "relay_live (c\<lparr>co_sessions := ss\<rparr>) now s = relay_live c now s"
  by (simp add: relay_live_def)

definition carried :: "coord \<Rightarrow> time \<Rightarrow> string \<times> session \<Rightarrow> bool" where
  "carried c now p \<longleftrightarrow> ss_relayID (snd p) = [] \<or> relay_live c now (snd p)"

definition nudge :: "string \<times> session \<Rightarrow> udp_addr \<times> wire" where
  "nudge p = (ss_client (snd p), zero_wire\<lparr>w_Type := ''reselect'', w_Session := fst p\<rparr>)"

lemma reselect_eq:
  "reselectDeadRelays now c =
    (c\<lparr>co_sessions := filter (carried c now) (co_sessions c)\<rparr>,
     map nudge (filter (\<lambda>p. \<not> carried c now p) (co_sessions c)))"
proof -
  have "(\<lambda>(k, s). ss_relayID s = [] \<or> relay_live c now s) = carried c now"
    by (auto simp: carried_def)
  moreover have "(\<lambda>(k, s). (ss_client s, zero_wire\<lparr>w_Type := ''reselect'', w_Session := k\<rparr>)) = nudge"
    by (auto simp: nudge_def)
  ultimately show ?thesis by (simp add: reselectDeadRelays_def comp_def Let_def)
qed

lemma sweep_carried [simp]: "carried (fst (sweepTick now c)) now' p = carried (prune now c) now' p"
  by (simp add: carried_def sweepTick_def reselect_eq del: prune_sel)


lemma swept_sel:
  "co_sessions (fst (sweepTick now c)) = filter (carried (prune now c) now) (co_sessions (prune now c))"
  "snd (sweepTick now c) = map nudge (filter (\<lambda>p. \<not> carried (prune now c) now p) (co_sessions (prune now c)))"
  by (simp_all add: sweepTick_def reselect_eq del: prune_sel)

lemma prune_swept:
  "co_sessions (prune now (fst (sweepTick now c))) = co_sessions (fst (sweepTick now c))"
  "co_relays (prune now (fst (sweepTick now c))) = co_relays (fst (sweepTick now c))"
proof -
  show "co_sessions (prune now (fst (sweepTick now c))) = co_sessions (fst (sweepTick now c))"
    by (auto simp: swept_sel intro!: filter_cong)
  have "co_relays (fst (sweepTick now c)) =
      map (\<lambda>(k, r). (k, r\<lparr>rl_silentWarned := silent_flag (fst (reselectDeadRelays now (prune now c))) now (RelayRef k)
        (rl_silentWarned r)\<rparr>)) (co_relays (prune now c))"
    by (simp add: sweepTick_def reselect_eq reportUnansweredNodes_def del: prune_sel)
  then show "co_relays (prune now (fst (sweepTick now c))) = co_relays (fst (sweepTick now c))"
    by (auto simp: filter_id_conv)
qed

lemma carried_swept [simp]:
  "carried (prune now (fst (sweepTick now c))) now p = carried (prune now c) now p"
  using sweep_carried [of now c now p]
  by (simp add: carried_def relay_live_def prune_swept del: prune_sel)

text \<open>A sweep leaves no session on a dead relay and nudges each client once. After it, the sessions are
  exactly those of the pruned table that need no relay or whose relay, in the table the sweep
  leaves, was seen within half its lifetime at the address the session was built on; the sends are
  one reselect to the client of each other session, naming that session; and a second sweep at the
  same instant sends nothing and drops no session.\<close>

lemma sweep_reaps_dead_relays:
  "let c' = fst (sweepTick now c); dead = (\<lambda>p. \<not> carried c' now p)
   in co_sessions c' = filter (\<lambda>p. \<not> dead p) (co_sessions (prune now c))
    \<and> snd (sweepTick now c) =
        map (\<lambda>(k, s). (ss_client s, zero_wire\<lparr>w_Type := ''reselect'', w_Session := k\<rparr>))
          (filter dead (co_sessions (prune now c)))
    \<and> snd (sweepTick now c') = [] \<and> co_sessions (fst (sweepTick now c')) = co_sessions c'"
proof -
  have "(\<lambda>(k, s). (ss_client s, zero_wire\<lparr>w_Type := ''reselect'', w_Session := k\<rparr>)) = nudge"
    by (auto simp: nudge_def)
  then show ?thesis
    by (auto simp: Let_def swept_sel prune_swept(1) simp del: prune_sel intro!: filter_cong)
qed

section \<open>Refusals\<close>

text \<open>An unadmitted message is refused and changes nothing. With admission on, a register without a
  valid credential for its role bound to its id, or a list, a challenge or a connect without a valid
  client credential (a connect may have stashed it with its challenge), is answered with one reject
  that names the error, and the state is only pruned.\<close>

lemma unadmitted_refused:
  assumes "co_admission c = Some v"
    and "(w_Type m, role, subject, cred) \<in>
      {(''register'', w_Role m, w_ID m, w_Cred m), (''list'', ''client'', [], w_Cred m),
       (''challenge'', ''client'', [], w_Cred m), (''connect'', ''client'', [], admissionCredFor c m src now)}"
    and "admission_Verify (co_admission_env c) v cred now role subject = Inl err"
  shows "handle sid ch m src now c = (prune now c, [(src, reject_wire (Unadmitted err))])"
proof -
  have "admissionCredFor (prune now c) m src now = admissionCredFor c m src now" by (simp add: admissionCredFor_def)
  then show ?thesis
    using assms
    by (auto simp: handle_def dispatch_def handle_register_def handle_list_def handle_challenge_def handle_connect_judged
        Let_def admit_def RoleClient_def)
qed

section \<open>A drained coordinator\<close>


text \<open>The tables a message may add an id to, and the gate it is judged by.\<close>

definition no_new_ids :: "coord \<Rightarrow> coord \<Rightarrow> bool" where
  "no_new_ids c c' \<longleftrightarrow> co_gate c' = co_gate c \<and> fst ` set (co_sessions c') \<subseteq> fst ` set (co_sessions c)
     \<and> fst ` set (co_exits c') \<subseteq> fst ` set (co_exits c) \<and> fst ` set (co_relays c') \<subseteq> fst ` set (co_relays c)"

lemma no_new_ids_trans: "no_new_ids c c' \<Longrightarrow> no_new_ids c' c'' \<Longrightarrow> no_new_ids c c''"
  unfolding no_new_ids_def by (simp, meson order_trans)

lemma no_new_ids_prune: "no_new_ids c (prune now c)"
  by (auto simp: no_new_ids_def)

lemma no_new_ids_same [simp]:
  "no_new_ids c c" "no_new_ids c (c\<lparr>co_challenges := st\<rparr>)" "no_new_ids c (c\<lparr>co_ratings := rs\<rparr>)"
  "no_new_ids c (noteHelloReject now c)"
  by (simp_all add: no_new_ids_def noteHelloReject_def)

lemma in_ids: "map_of xs k = Some v \<Longrightarrow> k \<in> fst ` set xs"
  by (force dest: map_of_SomeD)

lemma fst_update: "fst ` set (AList.update k v xs) = insert k (fst ` set xs)"
  by (induction xs) auto

lemma no_new_ids_register:
  assumes "\<not> policyAllowsAssignment (co_gate c)"
  shows "fst (handle_register m src now c) = c"
  using assms by (simp add: handle_register_def split: sum.split option.split)

lemma no_new_ids_heartbeat: "no_new_ids c (fst (handle_heartbeat m src now c))"
  by (auto simp: no_new_ids_def handle_heartbeat_def Let_def fst_update in_ids split: option.splits)

lemma no_new_ids_signal: "no_new_ids c (fst (handle_signal m src now c))"
  by (auto simp: no_new_ids_def handle_signal_def Let_def fst_update in_ids split: option.splits)

lemma no_new_ids_challenge: "no_new_ids c (fst (handle_challenge ch m src now c))"
  by (auto simp: handle_challenge_def issueDeviceChallenge_def Let_def split: sum.split prod.split)

lemma no_new_ids_report: "no_new_ids c (handleCapacityReport m src now c)"
  by (auto simp: handleCapacityReport_def Let_def split: option.split prod.split)

lemma no_new_ids_connect:
  assumes "\<not> policyAllowsAssignment (co_gate c)"
  shows "no_new_ids c (fst (handle_connect sid m src now c))"
proof (cases rule: connect_outcome [of sid m src now c])
  case (paired cred l e c')
  then show ?thesis using assms by (simp add: gates_passed_def)
qed simp_all

lemma no_new_ids_dispatch:
  assumes "\<not> policyAllowsAssignment (co_gate c)"
  shows "no_new_ids c (fst (dispatch sid ch m src now c))"
proof -
  have "no_new_ids c (fst (handle_hello m src now c))" by (simp add: handle_hello_def split: option.split)
  moreover have "fst (handle_list m src now c) = c" by (simp add: handle_list_def split: sum.split)
  ultimately show ?thesis
    using no_new_ids_register [OF assms, of m src now] no_new_ids_connect [OF assms, of sid m src now]
    by (simp add: dispatch_def no_new_ids_heartbeat no_new_ids_signal no_new_ids_challenge no_new_ids_report)
qed

lemma no_new_ids_sweep: "no_new_ids c (fst (sweepTick now c))"
  by (auto simp: no_new_ids_def sweepTick_def reselect_eq reportUnansweredNodes_def intro: rev_image_eqI)

lemma no_new_ids_step:
  assumes "\<not> policyAllowsAssignment (co_gate c)"
  shows "no_new_ids c (coord_step e c)"
proof (cases e)
  case (Datagram sid ch m src now)
  have "no_new_ids (prune now c) (fst (dispatch sid ch m src now (prune now c)))"
    by (rule no_new_ids_dispatch) (simp add: assms)
  then show ?thesis
    using no_new_ids_trans [OF no_new_ids_prune] by (simp add: Datagram handle_def)
next
  case (Sweep now)
  then show ?thesis by (simp add: no_new_ids_sweep)
qed

text \<open>Failing closed drains and never grows. While no enforceable policy is in force, no sequence of
  datagrams and sweeps adds a session, an exit or a relay: every id in a table afterwards was in it
  before, and the gate itself stays as it was.\<close>

lemma drained_never_grows:
  assumes "\<not> policyAllowsAssignment (co_gate c)"
  shows "co_gate (fold coord_step es c) = co_gate c
    \<and> fst ` set (co_sessions (fold coord_step es c)) \<subseteq> fst ` set (co_sessions c)
    \<and> fst ` set (co_exits (fold coord_step es c)) \<subseteq> fst ` set (co_exits c)
    \<and> fst ` set (co_relays (fold coord_step es c)) \<subseteq> fst ` set (co_relays c)"
proof -
  have "no_new_ids c (fold coord_step es c)"
    using assms
  proof (induction es arbitrary: c)
    case (Cons e es)
    note step = no_new_ids_step [OF Cons.prems, of e]
    then have "\<not> policyAllowsAssignment (co_gate (coord_step e c))" using Cons.prems by (simp add: no_new_ids_def)
    from no_new_ids_trans [OF step Cons.IH [OF this]] show ?case by simp
  qed simp
  then show ?thesis by (simp add: no_new_ids_def)
qed


section \<open>Witnesses\<close>

text \<open>A network of one exit, with or without a relay last seen at time zero, and one client.\<close>

definition demo_net :: "(string \<times> relay_node) list \<Rightarrow> coord" where
  "demo_net rs = demo_coord\<lparr>co_exits := [(''a'', demo_exit ''a'')], co_relays := rs\<rparr>"

definition demo_client :: udp_addr where
  "demo_client = \<lparr>ua_IP = [198, 51, 100, 7], ua_String = ''198.51.100.7:9''\<rparr>"

definition demo_relay :: relay_node where
  "demo_relay =
     \<lparr>rl_id = ''r'', rl_addr = \<lparr>ua_IP = [203, 0, 113, 5], ua_String = ''203.0.113.5:5''\<rparr>, rl_ingressPort = 0,
      rl_release = ''0.1.0'', rl_silentWarned = False, rl_speedCap = 0, rl_declaredQuota = 0, rl_exhausted = False,
      rl_lastSeen = 0, rl_country = [], rl_countrySource = [], rl_declaredCountry = []\<rparr>"

definition demo_connect :: "string \<Rightarrow> wire" where
  "demo_connect mode = zero_wire\<lparr>w_Type := ''connect'', w_Nonce := ''n1'', w_Mode := mode, w_Country := ''DE''\<rparr>"

lemma demo_net_sel [simp]:
  "co_exits (demo_net rs) = [(''a'', demo_exit ''a'')]" "co_relays (demo_net rs) = rs"
  "co_sessions (demo_net rs) = []" "co_minted (demo_net rs) = []" "co_admission (demo_net rs) = None"
  "co_device (demo_net rs) = None" "co_ratings (demo_net rs) = None" "co_serveFloor (demo_net rs) = 0"
  "co_exitClass (demo_net rs) = None" "co_minShare (demo_net rs) = 0"
  "policyAllowsAssignment (co_gate (demo_net rs))"
  by (simp_all add: demo_net_def demo_coord_def policyAllowsAssignment_def)

lemma demo_exit_sel [simp]:
  "x_id (demo_exit k) = k" "x_udp (demo_exit k) = Some demo_addr" "x_lastSeen (demo_exit k) = 0"
  "x_country (demo_exit k) = ''DE''" "x_tcpAddr (demo_exit k) = []" "\<not> x_exhausted (demo_exit k)"
  "x_speedCap (demo_exit k) = 0"
  by (simp_all add: demo_exit_def)

lemma demo_connect_sel [simp]:
  "w_Type (demo_connect mode) = ''connect''" "w_Nonce (demo_connect mode) = ''n1''"
  "w_Mode (demo_connect mode) = mode" "w_FirstHop (demo_connect mode) = []"
  "w_Country (demo_connect mode) = ''DE''" "w_ExcludeSessions (demo_connect mode) = []"
  by (simp_all add: demo_connect_def zero_wire_def)

lemma demo_hop: "chooseExit (demo_net rs) ''DE'' [] now zero_tier = Inr (demo_exit ''a'')"
proof -
  have "exitAssignable (demo_net rs) (demo_exit ''a'') n zero_tier" for n
    by (simp add: exitAssignable_def countryUnknown_def meetsServeFloor_def measuredUsable_def meetsEndpointQuality_def
        zero_tier_def exitRating_def Unmetered_def)
  moreover have "OctaveFloor 0 = 0" using OctaveFloor_le [of 0] by simp
  ultimately show ?thesis
    by (simp add: chooseExit_def Let_def countryUnknown_def demo_canonical apply_exclusions_def
        minCandidatesAfterExclude_def tierFloor_def OctaveFloor_le)
qed

lemma demo_prune:
  "0 \<le> now \<Longrightarrow> now \<le> 35000000000 \<Longrightarrow> (\<And>k r. (k, r) \<in> set rs \<Longrightarrow> rl_lastSeen r = 0) \<Longrightarrow> prune now (demo_net rs) = demo_net rs"
  by (simp add: prune_def pruneMintedConnects_def filter_id_conv ttl_def time_sub_def max_int64_def min_int64_def
      demo_net_def demo_coord_def) auto

lemma demo_connects:
  assumes "0 \<le> now" and "now \<le> 35000000000" and "\<And>k r. (k, r) \<in> set rs \<Longrightarrow> rl_lastSeen r = 0"
  shows "handle sid ch (demo_connect mode) demo_client now (demo_net rs) =
    pair_session sid (judged (demo_net rs) (demo_connect mode) demo_client now) demo_client now zero_tier
      (demo_exit ''a'') (demo_net rs)"
proof -
  let ?m = "judged (demo_net rs) (demo_connect mode) demo_client now"
  have "resolveTier (demo_net rs) cred = Inr zero_tier" for cred by (simp add: resolveTier_def)
  moreover have "choose_hop ?m demo_client now zero_tier (demo_net rs) = Inr (demo_exit ''a'')"
    by (simp add: choose_hop_def excludedExits_def map_filter_def demo_hop)
  ultimately show ?thesis
    by (simp add: handle_def demo_prune [OF assms] dispatch_def handle_connect_judged Let_def maxNonceLen_def
        replayMintedConnect_def admitDevice_def)
qed


lemma demo_direct:
  "handle ''s1'' ch (demo_connect ''direct'') demo_client 0 (demo_net []) =
    pairAndReply demo_client ''n1'' demo_addr
      (zero_wire\<lparr>w_Type := ''assign'', w_Session := ''s1''\<rparr>)
      (zero_wire\<lparr>w_Type := ''session'', w_Session := ''s1'', w_ExitID := ''a'', w_Release := ''0.1.0''\<rparr>) 0
      (with_session ''s1''
        \<lparr>ss_client = demo_client, ss_peer = demo_addr, ss_relayID = [], ss_exitID = ''a'', ss_signaled = False,
         ss_answered = False, ss_lastSeen = 0\<rparr> (demo_net []))"
proof -
  have "t_SpeedCapBps zero_tier = 0" "co_release (demo_net []) = ''0.1.0''"
    by (simp_all add: zero_tier_def demo_net_def demo_coord_def)
  moreover have "zero_wire\<lparr>w_Type := ty, w_Session := sd, w_SessionCapBps := 0\<rparr> = zero_wire\<lparr>w_Type := ty, w_Session := sd\<rparr>"
    for ty sd by (simp add: zero_wire_def)
  ultimately show ?thesis
    by (subst demo_connects) (simp_all add: pair_session_direct)
qed

definition demo_reply :: wire where
  "demo_reply = zero_wire\<lparr>w_Type := ''session'', w_Session := ''s1'', w_ExitID := ''a'', w_Release := ''0.1.0''\<rparr>"

definition demo_paired :: coord where
  "demo_paired = fst (handle ''s1'' None (demo_connect ''direct'') demo_client 0 (demo_net []))"

lemma demo_handled:
  "handle ''s1'' None (demo_connect ''direct'') demo_client 0 (demo_net []) =
     (demo_paired, [(demo_addr, zero_wire\<lparr>w_Type := ''assign'', w_Session := ''s1''\<rparr>), (demo_client, demo_reply)])"
  by (simp add: demo_paired_def demo_direct demo_reply_def pairAndReply_def)

lemma demo_reply_type: "w_Type demo_reply = ''session''"
  by (simp add: demo_reply_def zero_wire_def)

lemma demo_paired_sel:
  "co_admission demo_paired = None" "policyAllowsAssignment (co_gate demo_paired)"
  by (simp_all add: demo_paired_def demo_direct pairAndReply_def with_session_def)

lemma demo_prune0: "prune 0 (demo_net []) = demo_net []"
  by (rule demo_prune) simp_all

lemma demo_unheld: "map_of (co_minted (prune 0 (demo_net []))) k = None"
  by (simp add: demo_prune0)

theorem connect_answered_once_witness:
  "snd (handle ''s2'' None (demo_connect ''relay'') demo_client 30000000000
      (fold coord_step [Sweep 20000000000] demo_paired)) =
    [(demo_addr, zero_wire\<lparr>w_Type := ''assign'', w_Session := ''s1''\<rparr>), (demo_client, demo_reply)]"
proof -
  have adm: "co_admission (coord_step (Sweep t) c) = co_admission c" for t c
    by (simp add: sweepTick_def reselect_eq reportUnansweredNodes_def)
  have gate: "co_gate (coord_step (Sweep t) c) = co_gate c" for t c
    by (simp add: sweepTick_def reselect_eq reportUnansweredNodes_def)
  show ?thesis
    by (subst connect_answered_once [OF demo_handled _ _ _ demo_reply_type])
       (auto simp: demo_unheld adm gate demo_paired_sel connectDedupeTTL_def Let_def simp del: coord_step.simps)
qed

theorem pairing_consistent_witness:
  "\<exists>s (e::exit_node). map_of (co_sessions demo_paired) ''s1'' = Some s \<and> ss_client s = demo_client \<and> ss_exitID s = x_id e
     \<and> x_country e = Canonical (co_up (demo_net [])) ''DE''"
proof -
  note paired = pairing_consistent [OF demo_handled _ _ _ demo_reply_type, unfolded demo_prune0]
  have "\<exists>l e s assign. map_of (co_sessions demo_paired) ''s1'' = Some s \<and> ss_client s = demo_client
      \<and> chosen (demo_net []) (demo_connect ''direct'') 0 l e
      \<and> ss_exitID s = w_ExitID demo_reply \<and> w_ExitID demo_reply = x_id e"
    using paired by (simp, elim exE conjE) (intro exI conjI, assumption+)
  then show ?thesis by (auto simp: chosen_def intro!: exI [of _ "demo_exit ''a''"])
qed

text \<open>A coordinator with every gate on: policy held, admission anchored at one key, and a device verifier that
  issued a challenge to the client with the issuer's certificate stashed beside it.\<close>

definition gate_challenge :: bytes where "gate_challenge = replicate 16 5"

definition gated_net :: coord where
  "gated_net = (demo_net [])
     \<lparr>co_admission := Some \<lparr>av_authorities = [\<lparr>au_Pub = demo_key, au_Roles = [''client'']\<rparr>], av_revoked = (\<lambda>_. False)\<rparr>,
      co_admission_env := demo_admission\<lparr>ae_cred := (\<lambda>_. Some (demo_credential\<lparr>cr_Trust := ''stable'', cr_Plan := ''basic''\<rparr>))\<rparr>,
      co_device_env :=
        \<lparr>de_verify = (\<lambda>_ _ _. True),
         de_issuer = (\<lambda>_. Some \<lparr>ic_Version = 1, ic_Serial = ''i'', ic_IssuerPub = demo_key, ic_NotBefore = 0,
           ic_NotAfter = 100, ic_MaxCredTTL = 200\<rparr>),
         de_device = (\<lambda>_. Some \<lparr>dv_Version = 1, dv_Serial = ''d'', dv_DevicePub = demo_key, dv_Epoch = 0, dv_NotBefore = 0,
           dv_NotAfter = 100\<rparr>)\<rparr>,
      co_device := Some \<lparr>dvf_rootPub = demo_key, dvf_revoked = (\<lambda>_. False)\<rparr>,
      co_challenges := (empty_challenges 0)\<lparr>cs_entries := [(''198.51.100.7:9'',
        \<lparr>pc_value = gate_challenge, pc_expires = 50, pc_spentBy = [], pc_spent = False, pc_cred = [],
         pc_issuerCert = armour_encode issuerCertPrefix (3 # replicate 64 0)\<rparr>)]\<rparr>\<rparr>"

definition gated_connect :: wire where
  "gated_connect = (demo_connect ''direct'')
     \<lparr>w_Cred := Encode_credential (1 # replicate 64 1), w_Challenge := std_encode gate_challenge,
      w_DeviceCred := armour_encode deviceCredPrefix (2 # replicate 64 0), w_DeviceAssert := std_encode [9]\<rparr>"

definition gated_tier :: tier_limit where
  "gated_tier = \<lparr>t_Trust = ''stable'', t_Plan = ''basic'', t_SpeedCapBps = 0, t_Priority = 1, t_EndpointQuality = 0\<rparr>"

lemma gated_net_sel [simp]:
  "co_exits gated_net = [(''a'', demo_exit ''a'')]" "co_relays gated_net = []"
  "co_sessions gated_net = []" "co_minted gated_net = []" "co_admission gated_net \<noteq> None"
  "co_ratings gated_net = None" "co_serveFloor gated_net = 0" "co_exitClass gated_net = None" "co_minShare gated_net = 0"
  "policyAllowsAssignment (co_gate gated_net)" "prune 0 gated_net = gated_net"
  by (simp_all add: gated_net_def demo_net_def demo_coord_def policyAllowsAssignment_def prune_def pruneMintedConnects_def
      demo_exit_def ttl_def time_sub_def max_int64_def min_int64_def)

lemma gated_connect_sel [simp]:
  "w_Type gated_connect = ''connect''" "w_Nonce gated_connect = ''n1''" "w_Mode gated_connect = ''direct''"
  "w_FirstHop gated_connect = []" "w_Country gated_connect = ''DE''" "w_ExcludeSessions gated_connect = []"
  by (simp_all add: gated_connect_def)

lemma gated_admit:
  "admit gated_net (judged gated_net gated_connect demo_client 0) demo_client RoleClient [] 0 =
     Inr (demo_credential\<lparr>cr_Trust := ''stable'', cr_Plan := ''basic''\<rparr>)"
proof -
  have "w_Cred (judged gated_net gated_connect demo_client 0) = Encode_credential (1 # replicate 64 1)"
    by (simp add: judged_def Let_def admissionCredFor_def gated_connect_def Encode_credential_def credPrefix_def)
  then show ?thesis
    by (simp add: admit_def admission_Verify_def gated_net_def admits_def parse_credential_def accept_def
        demo_admission_def demo_credential_def demo_key_def CredentialVersion_def HasRole_def RoleClient_def
        admission_ClockSkew_def sigLen_def PublicKeySize_def zero_credential_def Let_def)
qed

lemma armour_round_trip:
  "DecodeIssuerCert (armour_encode issuerCertPrefix b) = Inr b" "DecodeDeviceCredential (armour_encode deviceCredPrefix b) = Inr b"
proof -
  have "list_all visible (issuerCertPrefix @ raw_encode url_alphabet b)" "list_all visible (deviceCredPrefix @ raw_encode url_alphabet b)"
    by (simp_all add: raw_encode_visible issuerCertPrefix_def deviceCredPrefix_def visible_def char_byte_def)
  then show "DecodeIssuerCert (armour_encode issuerCertPrefix b) = Inr b" "DecodeDeviceCredential (armour_encode deviceCredPrefix b) = Inr b"
    by (simp_all add: DecodeIssuerCert_def DecodeDeviceCredential_def armour_decode_def armour_encode_def TrimSpace_visible)
qed

lemma gated_device:
  "\<exists>st. admitDevice (judged gated_net gated_connect demo_client 0) demo_client 0 gated_net = (gated_net\<lparr>co_challenges := st\<rparr>, None)"
proof -
  let ?m = "judged gated_net gated_connect demo_client 0"
  have m: "w_Challenge ?m = std_encode gate_challenge" "w_DeviceAssert ?m = std_encode [9]"
    "w_DeviceCred ?m = armour_encode deviceCredPrefix (2 # replicate 64 0)"
    "w_IssuerCert ?m = armour_encode issuerCertPrefix (3 # replicate 64 0)"
    by (simp_all add: judged_def Let_def gated_connect_def issuerCertFor_def stashedIssuerCert_def live_entry_def gated_net_def
        demo_client_def demo_connect_def zero_wire_def)
  have "check_presentation gated_net \<lparr>dvf_rootPub = demo_key, dvf_revoked = (\<lambda>_. False)\<rparr> ?m gate_challenge 0 = None"
    unfolding check_presentation_def m
    by (simp add: armour_round_trip ParsePresentation_def device_Verify_def VerifyIssuerCert_def ParseIssuerCert_def openSigned_def
        OpenSigned_def Let_def gated_net_def demo_key_def PublicKeySize_def sigLen_def devicecred_Version_def checkWindow_def
        ClockSkew_def time_sub_def max_int64_def min_int64_def VerifyAssertion_def MinChallenge_def gate_challenge_def)
  moreover have "\<exists>st. spend (ua_String demo_client) ''n1'' 0 (co_challenges gated_net) = (Some gate_challenge, st)"
    by (simp add: spend_def live_entry_def gated_net_def demo_client_def)
  moreover have "co_device gated_net = Some \<lparr>dvf_rootPub = demo_key, dvf_revoked = (\<lambda>_. False)\<rparr>"
    by (simp add: gated_net_def)
  ultimately show ?thesis by (auto simp: admitDevice_def Let_def)
qed

lemma gated_hop: "chooseExit (gated_net\<lparr>co_challenges := st\<rparr>) ''DE'' [] 0 gated_tier = Inr (demo_exit ''a'')"
proof -
  have "exitAssignable (gated_net\<lparr>co_challenges := st\<rparr>) (demo_exit ''a'') n gated_tier" for n
    by (simp add: exitAssignable_def countryUnknown_def meetsServeFloor_def measuredUsable_def meetsEndpointQuality_def
        gated_tier_def exitRating_def Unmetered_def tierMinShare_def)
  moreover have "OctaveFloor 0 = 0" using OctaveFloor_le [of 0] by simp
  ultimately show ?thesis
    by (simp add: chooseExit_def Let_def countryUnknown_def demo_canonical apply_exclusions_def
        minCandidatesAfterExclude_def tierFloor_def OctaveFloor_le)
qed

lemma gated_session:
  "map_of (co_sessions (fst (handle ''s1'' None gated_connect demo_client 0 gated_net))) ''s1'' \<noteq> None"
proof -
  let ?m = "judged gated_net gated_connect demo_client 0"
  obtain st where dev: "admitDevice ?m demo_client 0 gated_net = (gated_net\<lparr>co_challenges := st\<rparr>, None)"
    using gated_device by blast
  have tier: "resolveTier gated_net (demo_credential\<lparr>cr_Trust := ''stable'', cr_Plan := ''basic''\<rparr>) = Inr gated_tier"
    by (simp add: resolveTier_def gated_net_def demo_net_def demo_coord_def Limits_def demo_policy_def gated_tier_def)
  have hop: "choose_hop ?m demo_client 0 gated_tier (gated_net\<lparr>co_challenges := st\<rparr>) = Inr (demo_exit ''a'')"
    by (simp add: choose_hop_def excludedExits_def map_filter_def gated_hop)
  have "handle ''s1'' None gated_connect demo_client 0 gated_net =
      pair_session ''s1'' ?m demo_client 0 gated_tier (demo_exit ''a'') (gated_net\<lparr>co_challenges := st\<rparr>)"
    by (simp add: handle_def dispatch_def handle_connect_judged Let_def gated_admit maxNonceLen_def replayMintedConnect_def
        dev tier hop)
  then show ?thesis by (simp add: pair_session_direct pairAndReply_def with_session_def update_conv')
qed

theorem session_behind_every_gate_witness:
  "(\<exists>v cred. co_admission gated_net = Some v
      \<and> admission_Verify (co_admission_env gated_net) v (admissionCredFor gated_net gated_connect demo_client 0) 0 ''client'' [] = Inr cred)
   \<and> (\<exists>v issued dc. co_device gated_net = Some v \<and> std_decode (w_Challenge gated_connect) = Some issued
      \<and> presents_device gated_net v gated_connect demo_client 0 issued dc)"
proof -
  obtain v d where "co_admission gated_net = Some v" "co_device gated_net = Some d" by (simp add: gated_net_def)
  moreover have "map_of (co_sessions (prune 0 gated_net)) ''s1'' = None" by simp
  ultimately show ?thesis using session_behind_every_gate [OF _ gated_session] by blast
qed

theorem registry_well_formed_witness:
  "registry_ok (fold coord_step [Sweep 5, Datagram ''x'' None (demo_connect ''direct'') demo_client 7]
     (demo_coord\<lparr>co_exits := []\<rparr>))"
  by (rule registry_well_formed) (simp_all add: demo_coord_def)

section \<open>An answer can outlive its session\<close>

abbreviation relayed_net :: coord where
  "relayed_net \<equiv> demo_net [(''r'', demo_relay)]"

definition demo_session :: session where
  "demo_session =
     \<lparr>ss_client = demo_client, ss_peer = rl_addr demo_relay, ss_relayID = ''r'', ss_exitID = ''a'', ss_signaled = False,
      ss_answered = False, ss_lastSeen = 17000000000\<rparr>"

lemma demo_relay_sel [simp]: "rl_lastSeen demo_relay = 0" "rl_id demo_relay = ''r''" "\<not> rl_exhausted demo_relay"
  "rl_speedCap demo_relay = 0"
  by (simp_all add: demo_relay_def)

lemma demo_relayed:
  "\<exists>assign reply. handle ''s1'' None (demo_connect ''relay'') demo_client 17000000000 relayed_net =
     pairAndReply demo_client ''n1'' (rl_addr demo_relay) assign reply 17000000000
       (with_session ''s1'' demo_session relayed_net)"
proof -
  have "pickRelay relayed_net ''a'' 17000000000 = Some demo_relay"
    by (simp add: pickRelay_def ttl_def time_sub_def max_int64_def min_int64_def meetsServeFloor_def measuredUsable_def)
  moreover have "handle ''s1'' None (demo_connect ''relay'') demo_client 17000000000 relayed_net =
      pair_session ''s1'' (judged relayed_net (demo_connect ''relay'') demo_client 17000000000) demo_client 17000000000
        zero_tier (demo_exit ''a'') relayed_net"
    by (rule demo_connects) simp_all
  ultimately show ?thesis
    by (simp add: pair_session_relay demo_session_def) blast
qed

text \<open>C35: A held answer can outlive the session it names. A relay seen seventeen seconds ago is still picked
  for a connect; a second later the sweep finds it stale, reaps the session and nudges the client;
  and a late copy of the connect is still answered with that session, of which nothing is left.\<close>

theorem replayed_session_may_be_gone:
  "let (c1, out) = handle ''s1'' None (demo_connect ''relay'') demo_client 17000000000 relayed_net;
       (c2, nudges) = sweepTick 18000000000 c1;
       (c3, again) = handle ''s2'' None (demo_connect ''relay'') demo_client 19000000000 c2
   in map_of (co_sessions c1) ''s1'' = Some demo_session
    \<and> nudges = [(demo_client, zero_wire\<lparr>w_Type := ''reselect'', w_Session := ''s1''\<rparr>)]
    \<and> again = out \<and> co_sessions c3 = []"
proof -
  from demo_relayed obtain assign reply where
    h: "handle ''s1'' None (demo_connect ''relay'') demo_client 17000000000 relayed_net =
     pairAndReply demo_client ''n1'' (rl_addr demo_relay) assign reply 17000000000
       (with_session ''s1'' demo_session relayed_net)" by blast
  let ?c1 = "fst (pairAndReply demo_client ''n1'' (rl_addr demo_relay) assign reply 17000000000
       (with_session ''s1'' demo_session relayed_net))"
  let ?c2 = "fst (sweepTick 18000000000 ?c1)"
  let ?k = "connectKey demo_client ''n1''"
  let ?mc = "\<lparr>mc_peer = rl_addr demo_relay, mc_assign = assign, mc_reply = reply, mc_at = 17000000000\<rparr>"
  have kept: "co_sessions (prune 18000000000 ?c1) = [(''s1'', demo_session)]"
    "co_relays (prune 18000000000 ?c1) = [(''r'', demo_relay)]"
    by (simp_all add: session_kept_def demo_session_def sessionTTL_def ttl_def time_sub_def max_int64_def min_int64_def)
  have dead: "\<not> carried (prune 18000000000 ?c1) 18000000000 (''s1'', demo_session)"
    by (simp add: carried_def relay_live_def kept ttl_def time_sub_def max_int64_def min_int64_def del: prune_sel)
       (simp add: demo_session_def)
  have gone: "co_sessions ?c2 = []" and nudged: "snd (sweepTick 18000000000 ?c1) = [nudge (''s1'', demo_session)]"
    using dead by (simp_all add: swept_sel kept del: prune_sel)
  have "map_of (co_minted ?c2) ?k = Some ?mc"
    using minted_table.step_keeps [of ?c1 ?k ?mc "Sweep 18000000000"] by (simp add: connectDedupeTTL_def)
  then have "map_of (co_minted (prune 19000000000 ?c2)) ?k = Some ?mc"
    by (rule prune_minted) (simp add: connectDedupeTTL_def)
  moreover have "co_admission ?c2 = None" "policyAllowsAssignment (co_gate ?c2)"
    by (simp_all add: sweepTick_def reselect_eq reportUnansweredNodes_def pairAndReply_def with_session_def)
  ultimately have "handle ''s2'' None (demo_connect ''relay'') demo_client 19000000000 ?c2 =
      (prune 19000000000 ?c2, [(rl_addr demo_relay, assign), (demo_client, reply)])"
    using connect_replay [of "prune 19000000000 ?c2" demo_client "demo_connect ''relay''" ?mc 19000000000 "''s2''"]
    by (simp add: handle_def dispatch_def connectDedupeTTL_def maxNonceLen_def del: prune_sel(11))
  then show ?thesis
    using gone nudged by (simp add: h case_prod_unfold Let_def nudge_def demo_session_def del: prune_sel(1-13))
qed

end
