(* ===== verification/Revocation.thy ===== *)
theory Revocation
  imports Policy Admission
begin

text \<open>
  Signed revocation lists: \<open>core/revocation\<close> (the document, its verifier and its state file) and
  the refresh cycle of \<open>cmd/coordinator/revocations.go\<close>, one namespace at a time. The state file
  and the fetch are values, and every read and write of the file may fail. The rollback floor is an
  instant; in memory and on disk it meets the interface \<open>floor_ratchet\<close> of theory Policy.
\<close>

section \<open>Documents and bundles (revocation.go)\<close>

definition revocation_Version :: int where "revocation_Version = 1"

datatype rev_doc_error =
  RMalformed | RUnsupportedVersion int | RRollback time time | RDelegation delegation_error | RDocument delegation_error

record rev_doc =
  rd_Version :: int
  rd_AsOf :: time
  rd_Revoked :: "string list"

record rev_bundle =
  rb_Revocations :: bytes
  rb_Cert :: bytes

text \<open>The signature check and the JSON decoders the package calls; \<open>re_indent\<close> is what the encoder makes of
  a raw bundle inside the indented state file, as in theory Policy.\<close>

record rev_env =
  re_verify :: "bytes \<Rightarrow> bytes \<Rightarrow> bytes \<Rightarrow> bool"
  re_cert :: "bytes \<Rightarrow> cert option"
  re_doc :: "bytes \<Rightarrow> rev_doc option"
  re_bundle :: "bytes \<Rightarrow> rev_bundle option"
  re_indent :: "bytes \<Rightarrow> bytes option"

definition rev_ParseBundle :: "rev_env \<Rightarrow> bytes \<Rightarrow> rev_doc_error + rev_bundle" where
  "rev_ParseBundle env data =
     (case re_bundle env data of
        None \<Rightarrow> Inl RMalformed
      | Some b \<Rightarrow> if rb_Revocations b = [] \<or> rb_Cert b = [] then Inl RMalformed else Inr b)"

section \<open>The verifier (verify.go)\<close>

record rev_verifier =
  rvf_rootPub :: bytes
  rvf_revoked :: "string \<Rightarrow> bool"

definition rev_NewVerifier :: "bytes \<Rightarrow> (string \<Rightarrow> bool) option \<Rightarrow> delegation_error + rev_verifier" where
  "rev_NewVerifier rootPub revoked =
     (if length rootPub \<noteq> PublicKeySize then Inl DNoRoot
      else Inr \<lparr>rvf_rootPub = rootPub,
                rvf_revoked = (case revoked of None \<Rightarrow> (\<lambda>_. False) | Some f \<Rightarrow> f)\<rparr>)"

definition rev_Verify :: "rev_env \<Rightarrow> rev_verifier \<Rightarrow> rev_bundle \<Rightarrow> time \<Rightarrow> time \<Rightarrow> rev_doc_error + rev_doc" where
  "rev_Verify env v b now minAsOf =
     (case VerifyDelegationCert (re_verify env) (re_cert env) (rvf_rootPub v) (rb_Cert b) RoleRevocations now
             (Some (rvf_revoked v)) of
        Inl err \<Rightarrow> Inl (RDelegation err)
      | Inr c \<Rightarrow>
          (case OpenSigned (re_verify env) (dc_Pub c) TagRevocationsDoc (rb_Revocations b) of
             Inl DMalformed \<Rightarrow> Inl RMalformed
           | Inl err \<Rightarrow> Inl (RDocument err)
           | Inr body \<Rightarrow>
               (case re_doc env body of
                  None \<Rightarrow> Inl RMalformed
                | Some d \<Rightarrow>
                    if rd_Version d \<noteq> revocation_Version then Inl (RUnsupportedVersion (rd_Version d))
                    else if rd_AsOf d < minAsOf then Inl (RRollback (rd_AsOf d) minAsOf)
                    else Inr d)))"

section \<open>The state file (cache.go)\<close>

definition rev_cacheVersion :: int where "rev_cacheVersion = 1"

record rev_cache_state =
  rcf_Version :: int
  rcf_MinAsOf :: time
  rcf_Bundle :: bytes

datatype rev_cache_file = RCacheMissing | RCacheUnreadable | RCacheUnparseable | RCacheFile rev_cache_state

datatype rev_cache_error = RCacheRead | RCacheParse | RCacheVersion int | RCacheBundle rev_doc_error

definition rev_Load ::
    "rev_env \<Rightarrow> rev_verifier \<Rightarrow> time \<Rightarrow> rev_cache_file \<Rightarrow> time \<times> rev_doc option \<times> rev_cache_error option" where
  "rev_Load env v now f =
     (case f of
        RCacheMissing \<Rightarrow> (zero_time, None, None)
      | RCacheUnreadable \<Rightarrow> (zero_time, None, Some RCacheRead)
      | RCacheUnparseable \<Rightarrow> (zero_time, None, Some RCacheParse)
      | RCacheFile f \<Rightarrow>
          if rcf_Version f \<noteq> rev_cacheVersion then (rcf_MinAsOf f, None, Some (RCacheVersion (rcf_Version f)))
          else if rcf_Bundle f = [] then (rcf_MinAsOf f, None, None)
          else (case rev_ParseBundle env (rcf_Bundle f) of
                  Inl err \<Rightarrow> (rcf_MinAsOf f, None, Some (RCacheBundle err))
                | Inr b \<Rightarrow>
                    (case rev_Verify env v b now (rcf_MinAsOf f) of
                       Inl err \<Rightarrow> (rcf_MinAsOf f, None, Some (RCacheBundle err))
                     | Inr d \<Rightarrow> (rcf_MinAsOf f, Some d, None))))"

definition rev_peek :: "rev_cache_file \<Rightarrow> time \<times> rev_cache_state" where
  "rev_peek f =
     (let zero = \<lparr>rcf_Version = 0, rcf_MinAsOf = zero_time, rcf_Bundle = []\<rparr>
      in case f of
           RCacheFile f \<Rightarrow> (rcf_MinAsOf f, if rcf_Version f \<noteq> rev_cacheVersion then zero else f)
         | _ \<Rightarrow> (zero_time, zero))"

definition rev_read_cache :: "bool \<Rightarrow> rev_cache_file \<Rightarrow> rev_cache_file" where
  "rev_read_cache readable f = (if readable then f else RCacheUnreadable)"

definition rev_Store :: "rev_env \<Rightarrow> cache_io \<Rightarrow> bytes \<Rightarrow> time \<Rightarrow> rev_cache_file \<Rightarrow> rev_cache_file" where
  "rev_Store env io raw asOf f =
     (let prev = fst (rev_peek (rev_read_cache (ci_read io) f));
          asOf = (if asOf < prev then prev else asOf)
      in case re_indent env raw of
           None \<Rightarrow> f
         | Some bundled \<Rightarrow>
             if ci_write io
             then RCacheFile \<lparr>rcf_Version = rev_cacheVersion, rcf_MinAsOf = asOf, rcf_Bundle = bundled\<rparr> else f)"

definition rev_StoreFloor :: "rev_env \<Rightarrow> cache_io \<Rightarrow> time \<Rightarrow> rev_cache_file \<Rightarrow> rev_cache_file" where
  "rev_StoreFloor env io asOf f =
     (let (prev, st) = rev_peek (rev_read_cache (ci_read io) f);
          asOf = (if asOf < prev then prev else asOf)
      in case (if rcf_Bundle st = [] then Some [] else re_indent env (rcf_Bundle st)) of
           None \<Rightarrow> f
         | Some bundled \<Rightarrow>
             if ci_write io
             then RCacheFile (st\<lparr>rcf_Version := rev_cacheVersion, rcf_MinAsOf := asOf, rcf_Bundle := bundled\<rparr>) else f)"

section \<open>One namespace of the coordinator (cmd/coordinator/revocations.go)\<close>

definition revocationsRefresh :: duration where "revocationsRefresh = 10 * 1000000000"

definition revocationsBackoffMax :: duration where "revocationsBackoffMax = 2 * 60 * 1000000000"

text \<open>The list the gate consults, the loop's floor, the last signed generation installed by this
  process (\<open>had\<close> and \<open>lastAsOf\<close>), and the state file.\<close>

record rev_proc =
  rp_target :: revocation_list
  rp_minAsOf :: time
  rp_lastAsOf :: "time option"
  rp_file :: rev_cache_file

definition installRevocationsDoc :: "rev_doc \<Rightarrow> revocation_list" where
  "installRevocationsDoc d = fold Revoke (rd_Revoked d) NewRevocationList"

definition startRevocationsNamespace ::
    "rev_env \<Rightarrow> rev_verifier \<Rightarrow> time \<Rightarrow> revocation_list \<Rightarrow> bool \<Rightarrow> rev_cache_file \<Rightarrow> rev_proc" where
  "startRevocationsNamespace env v now target readable f =
     (let (minAsOf, cached, _) = rev_Load env v now (rev_read_cache readable f)
      in \<lparr>rp_target = (case cached of None \<Rightarrow> target | Some d \<Rightarrow> installRevocationsDoc d),
          rp_minAsOf = minAsOf, rp_lastAsOf = map_option rd_AsOf cached, rp_file = f\<rparr>)"

text \<open>
  One namespace of the configuration, and the start-up of all of them in order. A namespace whose
  gate is not configured is not started; \<open>hex\<close> is \<open>hex.DecodeString\<close>. The first failing namespace ends
  the start-up with its error.
\<close>

record rev_namespace =
  rn_source :: string
  rn_target :: "revocation_list option"
  rn_state :: rev_cache_file
  rn_readable :: bool

datatype rev_start_error = RevRootHex | RevRootSize nat | RevVerifier delegation_error | RevNoSource

definition startNamespace ::
    "rev_env \<Rightarrow> rev_verifier \<Rightarrow> time \<Rightarrow> rev_namespace \<Rightarrow> rev_start_error + rev_proc option" where
  "startNamespace env v now ns =
     (case rn_target ns of
        None \<Rightarrow> Inr None
      | Some target \<Rightarrow>
          if rn_source ns = [] then Inl RevNoSource
          else Inr (Some (startRevocationsNamespace env v now target (rn_readable ns) (rn_state ns))))"

fun startNamespaces ::
    "rev_env \<Rightarrow> rev_verifier \<Rightarrow> time \<Rightarrow> rev_namespace list \<Rightarrow> rev_start_error + rev_proc option list" where
  "startNamespaces env v now [] = Inr []"
| "startNamespaces env v now (ns # rest) =
     (case startNamespace env v now ns of
        Inl err \<Rightarrow> Inl err
      | Inr p \<Rightarrow> (case startNamespaces env v now rest of Inl err \<Rightarrow> Inl err | Inr ps \<Rightarrow> Inr (p # ps)))"

definition startRevocations ::
    "(string \<Rightarrow> bytes option) \<Rightarrow> rev_env \<Rightarrow> time \<Rightarrow> string \<Rightarrow> rev_namespace list
     \<Rightarrow> rev_start_error + rev_proc option list" where
  "startRevocations hex env now rootHex namespaces =
     (if rootHex = [] then Inr (map (\<lambda>_. None) namespaces)
      else
        case hex (TrimSpace rootHex) of
          None \<Rightarrow> Inl RevRootHex
        | Some rootPub \<Rightarrow>
            if length rootPub \<noteq> PublicKeySize then Inl (RevRootSize (length rootPub))
            else
              case rev_NewVerifier rootPub None of
                Inl err \<Rightarrow> Inl (RevVerifier err)
              | Inr v \<Rightarrow> startNamespaces env v now namespaces)"

definition refreshRevocationsOnce ::
    "rev_env \<Rightarrow> rev_verifier \<Rightarrow> cache_io \<Rightarrow> bytes option \<Rightarrow> time \<Rightarrow> rev_proc \<Rightarrow> bool \<times> rev_proc" where
  "refreshRevocationsOnce env v io fetched now rp =
     (case fetched of
        None \<Rightarrow> (False, rp)
      | Some raw \<Rightarrow>
          (case rev_ParseBundle env raw of
             Inl _ \<Rightarrow> (False, rp)
           | Inr b \<Rightarrow>
               (case rev_Verify env v b now (rp_minAsOf rp) of
                  Inl _ \<Rightarrow> (False, rp)
                | Inr d \<Rightarrow>
                    (let asOf = (if rd_AsOf d > rp_minAsOf rp then rd_AsOf d else rp_minAsOf rp)
                     in (True, rp\<lparr>rp_target := installRevocationsDoc d, rp_minAsOf := asOf,
                                 rp_file := rev_Store env io raw asOf (rp_file rp), rp_lastAsOf := Some (rd_AsOf d)\<rparr>)))))"

fun rev_backoff_loop :: "nat \<Rightarrow> duration \<Rightarrow> duration" where
  "rev_backoff_loop 0 d = d"
| "rev_backoff_loop (Suc n) d = (if d < revocationsBackoffMax then rev_backoff_loop n (2 * d) else d)"

definition revocationsBackoffFor :: "int \<Rightarrow> duration" where
  "revocationsBackoffFor fails =
     (if fails \<le> 0 then revocationsRefresh
      else min (rev_backoff_loop (nat fails) revocationsRefresh) revocationsBackoffMax)"

text \<open>What happens to a namespace: a refresh, with how the state file answered; a restart, which begins
  with an empty list and the state file if it can be read; and a reload of the plain list.\<close>

datatype rev_event =
  RevRefresh cache_io "bytes option" time | RevRestart time bool | RevReload revocation_file

fun rev_step :: "rev_env \<Rightarrow> rev_verifier \<Rightarrow> rev_event \<Rightarrow> rev_proc \<Rightarrow> rev_proc" where
  "rev_step env v (RevRefresh io fetched now) rp = snd (refreshRevocationsOnce env v io fetched now rp)"
| "rev_step env v (RevRestart now readable) rp =
     startRevocationsNamespace env v now NewRevocationList readable (rp_file rp)"
| "rev_step env v (RevReload plain) rp = rp\<lparr>rp_target := reload_revocations plain (rp_target rp)\<rparr>"

definition rev_run :: "rev_env \<Rightarrow> rev_verifier \<Rightarrow> time \<Rightarrow> revocation_list \<Rightarrow> rev_event list \<Rightarrow> rev_proc" where
  "rev_run env v start target es =
     fold (rev_step env v) es (startRevocationsNamespace env v start target True RCacheMissing)"

fun rev_same_process :: "rev_event \<Rightarrow> bool" where
  "rev_same_process (RevRestart _ _) \<longleftrightarrow> False"
| "rev_same_process _ \<longleftrightarrow> True"

fun rev_reads_state :: "rev_event \<Rightarrow> bool" where
  "rev_reads_state (RevRestart _ readable) \<longleftrightarrow> readable"
| "rev_reads_state _ \<longleftrightarrow> True"

fun rev_keeps_state :: "rev_env \<Rightarrow> rev_event \<Rightarrow> bool" where
  "rev_keeps_state env (RevRefresh io (Some raw) _) \<longleftrightarrow> ci_write io \<and> re_indent env raw \<noteq> None"
| "rev_keeps_state env (RevRestart _ readable) \<longleftrightarrow> readable"
| "rev_keeps_state env _ \<longleftrightarrow> True"

section \<open>What verifies\<close>

definition rev_verified :: "rev_env \<Rightarrow> rev_verifier \<Rightarrow> rev_bundle \<Rightarrow> time \<Rightarrow> time \<Rightarrow> rev_doc \<Rightarrow> bool" where
  "rev_verified env v b now minAsOf d \<longleftrightarrow>
     (\<exists>c body. VerifyDelegationCert (re_verify env) (re_cert env) (rvf_rootPub v) (rb_Cert b) RoleRevocations now
          (Some (rvf_revoked v)) = Inr c
        \<and> signed_by (re_verify env) (dc_Pub c) TagRevocationsDoc (rb_Revocations b) body \<and> re_doc env body = Some d)
     \<and> rd_Version d = revocation_Version \<and> minAsOf \<le> rd_AsOf d"

lemma rev_Verify_Inr: "rev_Verify env v b now minAsOf = Inr d \<longleftrightarrow> rev_verified env v b now minAsOf d"
proof
  assume "rev_Verify env v b now minAsOf = Inr d"
  then show "rev_verified env v b now minAsOf d"
    by (auto simp: rev_Verify_def rev_verified_def OpenSigned_Inr not_less
        split: sum.splits option.splits if_splits delegation_error.splits)
next
  assume ver: "rev_verified env v b now minAsOf d"
  then obtain c body where
    "VerifyDelegationCert (re_verify env) (re_cert env) (rvf_rootPub v) (rb_Cert b) RoleRevocations now
      (Some (rvf_revoked v)) = Inr c"
    "OpenSigned (re_verify env) (dc_Pub c) TagRevocationsDoc (rb_Revocations b) = Inr body" "re_doc env body = Some d"
    by (auto simp: rev_verified_def OpenSigned_Inr)
  with ver show "rev_Verify env v b now minAsOf = Inr d"
    by (auto simp: rev_Verify_def rev_verified_def)
qed

text \<open>The document of a bundle decodes the same whoever verifies it and when.\<close>

definition bundle_doc :: "rev_env \<Rightarrow> bytes \<Rightarrow> rev_doc option" where
  "bundle_doc env raw =
     (case rev_ParseBundle env raw of
        Inl _ \<Rightarrow> None
      | Inr b \<Rightarrow> re_doc env (take (length (rb_Revocations b) - sigLen) (rb_Revocations b)))"

lemma verified_bundle_doc:
  "rev_ParseBundle env raw = Inr b \<Longrightarrow> rev_verified env v b now m d \<Longrightarrow> bundle_doc env raw = Some d"
  by (auto simp: bundle_doc_def rev_verified_def signed_by_def)

lemma refresh_outcome_cases:
  obtains (kept) "refreshRevocationsOnce env v io fetched now rp = (False, rp)"
  | (installed) raw b d where "fetched = Some raw" "rev_ParseBundle env raw = Inr b"
      "rev_verified env v b now (rp_minAsOf rp) d"
      "refreshRevocationsOnce env v io fetched now rp =
        (True, rp\<lparr>rp_target := installRevocationsDoc d, rp_minAsOf := rd_AsOf d,
                  rp_file := rev_Store env io raw (rd_AsOf d) (rp_file rp), rp_lastAsOf := Some (rd_AsOf d)\<rparr>)"
proof -
  have "(if rp_minAsOf rp < rd_AsOf d then rd_AsOf d else rp_minAsOf rp) = rd_AsOf d"
    if "rev_verified env v b now (rp_minAsOf rp) d" for b d
    using that by (auto simp: rev_verified_def)
  then show thesis
    using that by (cases fetched; force simp: refreshRevocationsOnce_def Let_def rev_Verify_Inr [symmetric] split: sum.splits)
qed

lemma install_set: "installRevocationsDoc d = set (rd_Revoked d)"
proof -
  have "fold Revoke xs r = r \<union> set xs" for xs r
    by (induction xs arbitrary: r) (auto simp: Revoke_def)
  then show ?thesis by (simp add: installRevocationsDoc_def NewRevocationList_def)
qed

section \<open>The rollback floor\<close>

definition rev_floor :: "rev_proc \<Rightarrow> time" where
  "rev_floor rp = fst (rev_peek (rp_file rp))"

text \<open>No instant on file is before the zero time, which stands for no floor.\<close>

definition rev_dated :: "rev_proc \<Rightarrow> bool" where
  "rev_dated rp \<longleftrightarrow> zero_time \<le> rev_floor rp \<and> rev_floor rp \<le> rp_minAsOf rp"

lemma Load_floor: "fst (rev_Load env v now f) = fst (rev_peek f)"
  by (simp add: rev_Load_def rev_peek_def Let_def split: rev_cache_file.split sum.split)

lemma Load_doc:
  assumes "fst (snd (rev_Load env v now f)) = Some d"
  obtains b where "rev_verified env v b now (fst (rev_peek f)) d"
  using assms that
  by (auto simp: rev_Load_def rev_peek_def Let_def rev_Verify_Inr
      split: rev_cache_file.splits sum.splits if_splits)

lemma peek_Store:
  assumes "zero_time \<le> fst (rev_peek f)" and "fst (rev_peek f) \<le> a"
  shows "fst (rev_peek (rev_Store env io raw a f)) =
    (if ci_write io \<and> re_indent env raw \<noteq> None then a else fst (rev_peek f))"
proof -
  have "fst (rev_peek (rev_read_cache (ci_read io) f)) \<le> fst (rev_peek f)"
    using assms(1) by (simp add: rev_read_cache_def rev_peek_def [of RCacheUnreadable] Let_def)
  then have "\<not> a < fst (rev_peek (rev_read_cache (ci_read io) f))" using assms(2) by simp
  then show ?thesis
    by (auto simp: rev_Store_def Let_def rev_peek_def rev_cacheVersion_def split: option.splits)
qed

lemma start_rev_sel:
  "rp_minAsOf (startRevocationsNamespace env v now target readable f) = fst (rev_peek (rev_read_cache readable f))"
  "rp_file (startRevocationsNamespace env v now target readable f) = f"
  "rp_lastAsOf (startRevocationsNamespace env v now target readable f) =
     map_option rd_AsOf (fst (snd (rev_Load env v now (rev_read_cache readable f))))"
  "rp_target (startRevocationsNamespace env v now target readable f) =
     (case fst (snd (rev_Load env v now (rev_read_cache readable f))) of
        None \<Rightarrow> target | Some d \<Rightarrow> set (rd_Revoked d))"
  by (simp_all add: startRevocationsNamespace_def Let_def case_prod_unfold Load_floor install_set split: option.split)

text \<open>What an event leaves in force: what was, a document signed for revocations whose instant is at least
  the floor, a plain list, or nothing, on a restart that finds no usable document.\<close>

definition signed_list :: "rev_env \<Rightarrow> rev_verifier \<Rightarrow> time \<Rightarrow> revocation_list \<Rightarrow> bool" where
  "signed_list env v a r \<longleftrightarrow>
     (\<exists>b at' m d. rev_verified env v b at' m d \<and> a \<le> rd_AsOf d \<and> r = set (rd_Revoked d))"

fun unsigned_list :: "rev_event \<Rightarrow> revocation_list \<Rightarrow> bool" where
  "unsigned_list (RevReload (RevFile version serials)) r \<longleftrightarrow> version = revocationFileVersion \<and> r = set serials"
| "unsigned_list (RevRestart _ _) r \<longleftrightarrow> r = {}"
| "unsigned_list _ r \<longleftrightarrow> False"

lemma signed_list_mono: "signed_list env v a r \<Longrightarrow> b \<le> a \<Longrightarrow> signed_list env v b r"
  unfolding signed_list_def using order_trans by blast

lemma fold_insert_set: "fold insert serials r = r \<union> set serials"
  by (induction serials arbitrary: r) auto

lemma reload_in_force:
  "reload_revocations plain r = r \<or> unsigned_list (RevReload plain) (reload_revocations plain r)"
  by (cases plain) (auto simp: reload_revocations_def LoadRevocationList_def NewRevocationList_def fold_insert_set)

lemma refresh_in_force:
  "rp_target (rev_step env v (RevRefresh io fetched now) rp) = rp_target rp
    \<or> signed_list env v (rp_minAsOf rp) (rp_target (rev_step env v (RevRefresh io fetched now) rp))"
proof (cases rule: refresh_outcome_cases [of env v io fetched now rp])
  case (installed raw b d)
  then have "signed_list env v (rp_minAsOf rp) (set (rd_Revoked d))"
    unfolding signed_list_def by (intro exI [of _ b] exI [of _ now] exI [of _ "rp_minAsOf rp"] exI [of _ d])
      (auto simp: rev_verified_def)
  with installed(4) show ?thesis by (simp add: install_set)
qed simp

lemma restart_in_force:
  assumes "readable"
  shows "signed_list env v (rev_floor rp) (rp_target (rev_step env v (RevRestart now readable) rp))
    \<or> unsigned_list (RevRestart now readable) (rp_target (rev_step env v (RevRestart now readable) rp))"
proof (cases "fst (snd (rev_Load env v now (rp_file rp)))")
  case None
  then show ?thesis using assms by (simp add: start_rev_sel rev_read_cache_def NewRevocationList_def)
next
  case (Some d)
  then obtain b where "rev_verified env v b now (rev_floor rp) d"
    unfolding rev_floor_def by (rule Load_doc)
  then have "signed_list env v (rev_floor rp) (set (rd_Revoked d))"
    unfolding signed_list_def by (intro exI [of _ b] exI [of _ now] exI [of _ "rev_floor rp"] exI [of _ d])
      (auto simp: rev_verified_def)
  then show ?thesis using assms Some by (simp add: start_rev_sel rev_read_cache_def)
qed

lemma rev_refresh_raises:
  "rp_minAsOf rp \<le> rp_minAsOf (snd (refreshRevocationsOnce env v io fetched now rp))
    \<and> (rp_lastAsOf (snd (refreshRevocationsOnce env v io fetched now rp)) = Some n \<longrightarrow>
        rp_lastAsOf rp = Some n \<or> rp_minAsOf rp \<le> n)"
  by (cases rule: refresh_outcome_cases [of env v io fetched now rp]) (auto simp: rev_verified_def)

lemma rev_refresh_disk:
  assumes "rev_dated rp"
  shows "rev_dated (snd (refreshRevocationsOnce env v io fetched now rp))
    \<and> rev_floor rp \<le> rev_floor (snd (refreshRevocationsOnce env v io fetched now rp))
    \<and> (rev_keeps_state env (RevRefresh io fetched now) \<longrightarrow> rev_floor rp = rp_minAsOf rp \<longrightarrow>
        rev_floor (snd (refreshRevocationsOnce env v io fetched now rp)) =
          rp_minAsOf (snd (refreshRevocationsOnce env v io fetched now rp)))"
proof (cases rule: refresh_outcome_cases [of env v io fetched now rp])
  case kept
  then show ?thesis using assms by simp
next
  case (installed raw b d)
  then have "rp_minAsOf rp \<le> rd_AsOf d" by (simp add: rev_verified_def)
  then show ?thesis
    using installed(1,4) assms peek_Store [of "rp_file rp" "rd_AsOf d" env io raw]
    by (auto simp: rev_dated_def rev_floor_def)
qed

text \<open>The floor in memory, for as long as the process runs; and the floor on disk, whatever the writes, as
  long as a restart can read it.\<close>

interpretation rev_memory: floor_ratchet "\<lambda>_. True" rp_minAsOf rp_lastAsOf "rev_step env v" rev_same_process
  for env v
proof unfold_locales
  fix rp :: rev_proc and e n
  assume "rev_same_process e"
  then show "rp_minAsOf rp \<le> rp_minAsOf (rev_step env v e rp)"
    "rp_lastAsOf (rev_step env v e rp) = Some n \<Longrightarrow> rp_lastAsOf rp = Some n \<or> rp_minAsOf rp \<le> n"
    using rev_refresh_raises [of rp env v] by (cases e; simp; blast)+
qed simp

interpretation rev_disk: floor_ratchet rev_dated rev_floor rp_lastAsOf "rev_step env v" rev_reads_state
  for env v
proof unfold_locales
  fix rp :: rev_proc and e n
  assume dated: "rev_dated rp" and "rev_reads_state e"
  have "rev_dated (rev_step env v e rp) \<and> rev_floor rp \<le> rev_floor (rev_step env v e rp)
      \<and> (rp_lastAsOf (rev_step env v e rp) = Some n \<longrightarrow> rp_lastAsOf rp = Some n \<or> rev_floor rp \<le> n)"
  proof (cases e)
    case (RevRefresh io fetched now)
    then show ?thesis using rev_refresh_disk [OF dated, of env v io fetched now] rev_refresh_raises [of rp env v io fetched now n] dated by (auto simp: rev_dated_def)
  next
    case (RevRestart now readable)
    then have "readable" using \<open>rev_reads_state e\<close> by simp
    then show ?thesis
      using dated
      by (auto simp: RevRestart rev_dated_def rev_floor_def start_rev_sel rev_read_cache_def rev_verified_def elim!: Load_doc)
  next
    case (RevReload plain)
    then show ?thesis using dated by (simp add: rev_dated_def rev_floor_def)
  qed
  then show "rev_dated (rev_step env v e rp)" "rev_floor rp \<le> rev_floor (rev_step env v e rp)"
    "rp_lastAsOf (rev_step env v e rp) = Some n \<Longrightarrow> rp_lastAsOf rp = Some n \<or> rev_floor rp \<le> n"
    by blast+
qed

text \<open>While every write and every restart's read goes through, the floor in memory is the one on file.\<close>

lemma rev_on_file_step:
  assumes "rev_dated rp" and "rev_floor rp = rp_minAsOf rp" and "rev_keeps_state env e"
  shows "rev_dated (rev_step env v e rp) \<and> rev_floor (rev_step env v e rp) = rp_minAsOf (rev_step env v e rp)"
proof (cases e)
  case (RevRefresh io fetched now)
  then show ?thesis using assms rev_refresh_disk [OF assms(1), of env v io fetched now] by simp
next
  case (RevRestart now readable)
  then show ?thesis using assms by (simp add: rev_dated_def rev_floor_def start_rev_sel rev_read_cache_def)
next
  case (RevReload plain)
  then show ?thesis using assms by (simp add: rev_dated_def rev_floor_def)
qed

lemma rev_on_file_run:
  "rev_dated rp \<Longrightarrow> rev_floor rp = rp_minAsOf rp \<Longrightarrow> list_all (rev_keeps_state env) es \<Longrightarrow>
    rev_dated (fold (rev_step env v) es rp)
    \<and> rev_floor (fold (rev_step env v) es rp) = rp_minAsOf (fold (rev_step env v) es rp)"
  by (induction es arbitrary: rp) (simp_all add: rev_on_file_step)

text \<open>Along a run over whose every prefix a floor stays at or above an instant, what is in force stays at or
  above it too.\<close>

lemma in_force_run:
  assumes "signed_list env v a (rp_target rp)"
    and step: "\<And>pre e post. es = pre @ e # post \<Longrightarrow>
      (let s = fold (rev_step env v) pre rp; s' = rev_step env v e s
       in rp_target s' = rp_target s \<or> signed_list env v a (rp_target s') \<or> unsigned_list e (rp_target s'))"
  shows "signed_list env v a (rp_target (fold (rev_step env v) es rp))
    \<or> (\<exists>e \<in> set es. unsigned_list e (rp_target (fold (rev_step env v) es rp)))"
  using step
proof (induction es rule: rev_induct)
  case (snoc e es)
  have "signed_list env v a (rp_target (fold (rev_step env v) es rp))
    \<or> (\<exists>e \<in> set es. unsigned_list e (rp_target (fold (rev_step env v) es rp)))"
    by (rule snoc.IH) (use snoc.prems in force)
  with snoc.prems [of es e "[]"] show ?case by (auto simp: Let_def)
qed (use assms(1) in simp)

lemma step_in_force:
  assumes "a \<le> rp_minAsOf s" and "rev_same_process e \<or> rev_reads_state e \<and> a \<le> rev_floor s"
  shows "rp_target (rev_step env v e s) = rp_target s \<or> signed_list env v a (rp_target (rev_step env v e s))
    \<or> unsigned_list e (rp_target (rev_step env v e s))"
proof (cases e)
  case (RevRefresh io fetched now)
  show ?thesis
    unfolding RevRefresh using refresh_in_force [of env v io fetched now s] signed_list_mono [OF _ assms(1)] by blast
next
  case (RevRestart now readable)
  then have "readable" "a \<le> rev_floor s" using assms(2) by simp_all
  then show ?thesis
    unfolding RevRestart using restart_in_force [of readable env v s now] signed_list_mono by blast
next
  case (RevReload plain)
  show ?thesis unfolding RevReload using reload_in_force [of plain "rp_target s"] by simp blast
qed

lemma memory_in_force:
  assumes "a \<le> rp_minAsOf rp" and "signed_list env v a (rp_target rp)"
    and "list_all rev_same_process es"
  shows "signed_list env v a (rp_target (fold (rev_step env v) es rp))
    \<or> (\<exists>e \<in> set es. unsigned_list e (rp_target (fold (rev_step env v) es rp)))"
proof (rule in_force_run [OF assms(2)])
  fix pre e post
  assume es: "es = pre @ e # post"
  let ?s = "fold (rev_step env v) pre rp"
  have "a \<le> rp_minAsOf ?s"
    using rev_memory.floor_run [OF TrueI, of pre rp env v] assms(1,3) es by simp
  moreover have "rev_same_process e" using assms(3) es by simp
  ultimately show "let s = ?s; s' = rev_step env v e s
       in rp_target s' = rp_target s \<or> signed_list env v a (rp_target s') \<or> unsigned_list e (rp_target s')"
    unfolding Let_def by (intro step_in_force) simp_all
qed

lemma disk_in_force:
  assumes "rev_dated rp" and "a \<le> rev_floor rp" and "signed_list env v a (rp_target rp)"
    and "list_all rev_reads_state es"
  shows "signed_list env v a (rp_target (fold (rev_step env v) es rp))
    \<or> (\<exists>e \<in> set es. unsigned_list e (rp_target (fold (rev_step env v) es rp)))"
proof (rule in_force_run [OF assms(3)])
  fix pre e post
  assume es: "es = pre @ e # post"
  let ?s = "fold (rev_step env v) pre rp"
  have "rev_dated ?s" "a \<le> rev_floor ?s"
    using rev_disk.floor_run [OF assms(1), of pre env v] rev_disk.good_run [OF assms(1), of pre env v] assms(2,4) es
    by simp_all
  then have "a \<le> rev_floor ?s" "a \<le> rp_minAsOf ?s" by (auto simp: rev_dated_def)
  moreover have "rev_reads_state e" using assms(4) es by simp
  ultimately show "let s = ?s; s' = rev_step env v e s
       in rp_target s' = rp_target s \<or> signed_list env v a (rp_target s') \<or> unsigned_list e (rp_target s')"
    unfolding Let_def by (intro step_in_force) simp_all
qed

text \<open>C26: The list of revocations in force never falls back to an older signed generation. Start a namespace
  without a state file, let anything happen, and let a refresh then install a document. Whatever follows,
  the list in force is exactly that of a document that verified for the revocation role and is dated no
  earlier than that one, or it was put there by something that is not signed: a plain list that was
  loaded, or a restart that found no document it could verify. For a process that keeps running this
  holds whether or not the state file works. Across restarts it holds when every bundle fetched up to and
  including that document could be written (the write went through, and the bytes are exactly one JSON
  value) and every restart could read the state file; later writes may fail.\<close>

theorem revocations_never_roll_back:
  assumes "refreshRevocationsOnce env v io (Some raw) now (rev_run env v start target before) = (True, s)"
    and "bundle_doc env raw = Some d"
    and "list_all rev_same_process after
      \<or> list_all (rev_keeps_state env) (before @ [RevRefresh io (Some raw) now]) \<and> list_all rev_reads_state after"
  shows "signed_list env v (rd_AsOf d) (rp_target (fold (rev_step env v) after s))
    \<or> (\<exists>e \<in> set after. unsigned_list e (rp_target (fold (rev_step env v) after s)))"
proof -
  let ?start = "startRevocationsNamespace env v start target True RCacheMissing"
  have cold: "rev_dated ?start" "rev_floor ?start = rp_minAsOf ?start"
    by (simp_all add: rev_dated_def rev_floor_def start_rev_sel rev_read_cache_def rev_peek_def)
  have s: "s = fold (rev_step env v) (before @ [RevRefresh io (Some raw) now]) ?start"
    using assms(1) by (simp add: rev_run_def)
  obtain b where b: "rev_verified env v b now (rp_minAsOf (rev_run env v start target before)) d"
    and fields: "rp_target s = set (rd_Revoked d)" "rp_minAsOf s = rd_AsOf d"
    using assms(1,2)
    by (cases rule: refresh_outcome_cases [of env v io "Some raw" now "rev_run env v start target before"])
       (auto simp: install_set verified_bundle_doc)
  have now_signed: "signed_list env v (rd_AsOf d) (rp_target s)"
    unfolding signed_list_def fields(1) using b by blast
  from assms(3) show ?thesis
  proof
    assume same: "list_all rev_same_process after"
    show ?thesis by (rule memory_in_force [OF _ now_signed same]) (simp add: fields(2))
  next
    assume runs: "list_all (rev_keeps_state env) (before @ [RevRefresh io (Some raw) now]) \<and> list_all rev_reads_state after"
    then have "rev_dated s \<and> rev_floor s = rp_minAsOf s"
      unfolding s using rev_on_file_run [OF cold] by blast
    then show ?thesis using disk_in_force [OF _ _ now_signed] runs fields(2) by simp
  qed
qed

section \<open>The two sources\<close>

text \<open>Each source of revocations replaces what the other loaded. A verified signed document leaves
  exactly its own serials revoked, and a readable plain list exactly its own: a serial that only one
  of the two names is accepted again as soon as the other is loaded.\<close>

lemma revocation_sources_replace:
  "rp_target (rev_step env v (RevReload (RevFile revocationFileVersion serials)) rp) = set serials
   \<and> (fst (refreshRevocationsOnce env v io fetched now rp) \<longrightarrow>
        (\<exists>raw d. fetched = Some raw \<and> bundle_doc env raw = Some d
           \<and> rp_target (rev_step env v (RevRefresh io fetched now) rp) = set (rd_Revoked d)))"
proof -
  have "rp_target (rev_step env v (RevReload (RevFile revocationFileVersion serials)) rp) = set serials"
    by (simp add: reload_revocations_def LoadRevocationList_def NewRevocationList_def fold_insert_set)
  moreover have "fst (refreshRevocationsOnce env v io fetched now rp) \<longrightarrow>
        (\<exists>raw d. fetched = Some raw \<and> bundle_doc env raw = Some d
           \<and> rp_target (rev_step env v (RevRefresh io fetched now) rp) = set (rd_Revoked d))"
    by (cases rule: refresh_outcome_cases [of env v io fetched now rp])
       (auto simp: install_set verified_bundle_doc)
  ultimately show ?thesis by blast
qed

section \<open>Witnesses\<close>

definition demo_doc :: "byte \<Rightarrow> rev_doc" where
  "demo_doc n = \<lparr>rd_Version = 1, rd_AsOf = uint n, rd_Revoked = (if n = 1 then [''x''] else [''x'', ''y''])\<rparr>"

text \<open>An environment whose bundles are one byte, the instant of the document.\<close>

definition demo_rev_env :: rev_env where
  "demo_rev_env =
     \<lparr>re_verify = (\<lambda>_ _ _. True), re_cert = (\<lambda>_. Some (demo_cert\<lparr>dc_Role := ''revocations''\<rparr>)),
      re_doc = (\<lambda>body. case body of [] \<Rightarrow> None | n # _ \<Rightarrow> Some (demo_doc n)),
      re_bundle = (\<lambda>raw. Some \<lparr>rb_Revocations = raw @ replicate 64 0, rb_Cert = replicate 65 1\<rparr>), re_indent = Some\<rparr>"

definition demo_rev_verifier :: rev_verifier where
  "demo_rev_verifier = \<lparr>rvf_rootPub = replicate 32 9, rvf_revoked = (\<lambda>_. False)\<rparr>"

lemma demo_rev_refresh:
  assumes "0 \<le> now" and "now < 20" and "rp_minAsOf rp < uint n"
  shows "refreshRevocationsOnce demo_rev_env demo_rev_verifier io (Some [n]) now rp =
    (True, rp\<lparr>rp_target := installRevocationsDoc (demo_doc n), rp_minAsOf := uint n,
              rp_file := rev_Store demo_rev_env io [n] (uint n) (rp_file rp), rp_lastAsOf := Some (uint n)\<rparr>)"
proof -
  have "rev_Verify demo_rev_env demo_rev_verifier \<lparr>rb_Revocations = n # replicate 64 0, rb_Cert = replicate 65 1\<rparr> now
      (rp_minAsOf rp) = Inr (demo_doc n)"
    using assms
    by (simp add: rev_Verify_def VerifyDelegationCert_def ParseCert_def OpenSigned_def Let_def demo_rev_env_def
        demo_rev_verifier_def PublicKeySize_def sigLen_def delegation_Version_def RoleRevocations_def demo_cert_def
        ClockSkew_def demo_doc_def revocation_Version_def)
  moreover have "rev_ParseBundle demo_rev_env [n] = Inr \<lparr>rb_Revocations = n # replicate 64 0, rb_Cert = replicate 65 1\<rparr>"
    by (simp add: rev_ParseBundle_def demo_rev_env_def)
  moreover have "rd_AsOf (demo_doc n) = uint n" by (simp add: demo_doc_def)
  ultimately show ?thesis
    using assms(3) by (simp add: refreshRevocationsOnce_def Let_def)
qed


text \<open>The first list revokes one serial. Then the process restarts, and the second list, which cannot be
  written, revokes two: that one is in force, and it is dated no earlier than the first.\<close>

definition demo_after :: "rev_event list" where
  "demo_after = [RevRestart 2 True, RevRefresh \<lparr>ci_read = True, ci_write = False\<rparr> (Some [2]) 3]"

theorem revocations_never_roll_back_witness:
  "\<exists>s. refreshRevocationsOnce demo_rev_env demo_rev_verifier working (Some [1]) 1
        (rev_run demo_rev_env demo_rev_verifier 0 {} []) = (True, s)
    \<and> rp_target s = {''x''}
    \<and> rp_target (fold (rev_step demo_rev_env demo_rev_verifier) demo_after s) = {''x'', ''y''}
    \<and> (signed_list demo_rev_env demo_rev_verifier 1 {''x'', ''y''} \<or> (\<exists>e \<in> set demo_after. unsigned_list e {''x'', ''y''}))"
proof -
  let ?s0 = "rev_run demo_rev_env demo_rev_verifier 0 {} []"
  have floor: "rp_minAsOf ?s0 < uint (1::byte)" by (simp add: rev_run_def start_rev_sel rev_peek_def rev_read_cache_def zero_time_def)
  have s0: "?s0 = \<lparr>rp_target = {}, rp_minAsOf = zero_time, rp_lastAsOf = None, rp_file = RCacheMissing\<rparr>"
    by (simp add: rev_run_def startRevocationsNamespace_def rev_Load_def rev_read_cache_def)
  have store: "rev_Store demo_rev_env working [1] 1 RCacheMissing =
      RCacheFile \<lparr>rcf_Version = 1, rcf_MinAsOf = 1, rcf_Bundle = [1]\<rparr>"
    by (simp add: rev_Store_def rev_peek_def rev_read_cache_def demo_rev_env_def rev_cacheVersion_def zero_time_def working_def)
  obtain s where s: "refreshRevocationsOnce demo_rev_env demo_rev_verifier working (Some [1]) 1 ?s0 = (True, s)"
    "rp_target s = {''x''}" "rp_minAsOf s = 1" "rp_file s = RCacheFile \<lparr>rcf_Version = 1, rcf_MinAsOf = 1, rcf_Bundle = [1]\<rparr>"
    using demo_rev_refresh [OF _ _ floor, of 1 working] unfolding s0
    by (simp add: install_set demo_doc_def store)
  have last: "rp_target (fold (rev_step demo_rev_env demo_rev_verifier) demo_after s) = {''x'', ''y''}"
    by (simp add: demo_after_def demo_rev_refresh start_rev_sel s(4) rev_read_cache_def rev_peek_def install_set demo_doc_def)
  have "signed_list demo_rev_env demo_rev_verifier (rd_AsOf (demo_doc 1)) (rp_target (fold (rev_step demo_rev_env demo_rev_verifier) demo_after s))
    \<or> (\<exists>e \<in> set demo_after. unsigned_list e (rp_target (fold (rev_step demo_rev_env demo_rev_verifier) demo_after s)))"
    by (rule revocations_never_roll_back [OF s(1)])
       (simp_all add: demo_after_def working_def bundle_doc_def rev_ParseBundle_def demo_rev_env_def sigLen_def)
  then show ?thesis using s(1,2) last by (simp add: demo_doc_def)
qed

end
