(* ===== verification/Netaddr.thy ===== *)
theory Netaddr
  imports Prelude "HOL-Library.Char_ord" "HOL-Library.List_Lexorder" "HOL-Library.Product_Lexorder"
begin

text \<open>
  Addresses and prefixes of package \<open>net/netip\<close> as the range tables use them, the binary search of
  package \<open>slices\<close>, and the interface \<open>span_table\<close>: sorted disjoint spans, in which one probe finds
  the only span that can contain an address.
\<close>

section \<open>Addresses\<close>

text \<open>The zero \<open>Addr\<close>, an IPv4 address, and an IPv6 address with its zone.\<close>

datatype addr = NoAddr | A4 "32 word" | A6 "128 word" string

fun BitLen :: "addr \<Rightarrow> nat" where
  "BitLen NoAddr = 0"
| "BitLen (A4 w) = 32"
| "BitLen (A6 w z) = 128"

text \<open>\<open>Addr.Compare\<close> orders by length, then by value, then by zone.\<close>

fun addr_key :: "addr \<Rightarrow> nat \<times> nat \<times> string" where
  "addr_key NoAddr = (0, 0, [])"
| "addr_key (A4 w) = (32, unat w, [])"
| "addr_key (A6 w z) = (128, unat w, z)"

lemma addr_key_inject [simp]: "addr_key a = addr_key b \<longleftrightarrow> a = b"
  by (cases a; cases b) (auto simp: word_unat_eq_iff)

instantiation addr :: linorder
begin

definition less_eq_addr :: "addr \<Rightarrow> addr \<Rightarrow> bool" where
  "less_eq_addr a b \<longleftrightarrow> addr_key a \<le> addr_key b"

definition less_addr :: "addr \<Rightarrow> addr \<Rightarrow> bool" where
  "less_addr a b \<longleftrightarrow> addr_key a < addr_key b"

instance
  by standard (auto simp: less_eq_addr_def less_addr_def less_le)

end

lemma addr_le_simps [simp]:
  "A4 u \<le> A4 v \<longleftrightarrow> u \<le> v" "A4 u < A4 v \<longleftrightarrow> u < v"
  "A6 s y \<le> A6 t z \<longleftrightarrow> s < t \<or> s = t \<and> y \<le> z"
  "A4 u \<le> A6 t z" "\<not> A6 t z \<le> A4 u" "\<not> A4 u \<le> NoAddr" "\<not> A6 t z \<le> NoAddr"
  by (auto simp: less_eq_addr_def less_addr_def less_eq_prod_simp less_prod_simp word_less_nat_alt word_le_nat_alt
      word_unat_eq_iff simp del: addr_key_inject)

definition Is4 :: "addr \<Rightarrow> bool" where
  "Is4 a \<longleftrightarrow> (case a of A4 w \<Rightarrow> True | _ \<Rightarrow> False)"

definition Is6 :: "addr \<Rightarrow> bool" where
  "Is6 a \<longleftrightarrow> (case a of A6 w z \<Rightarrow> True | _ \<Rightarrow> False)"

text \<open>A v4-mapped address becomes the v4 address it maps, and drops its zone.\<close>

definition Unmap :: "addr \<Rightarrow> addr" where
  "Unmap a = (case a of A6 w z \<Rightarrow> if drop_bit 32 w = 65535 then A4 (ucast w) else a | _ \<Rightarrow> a)"

definition octet :: "nat \<Rightarrow> 32 word \<Rightarrow> nat" where
  "octet i w = unat (drop_bit (24 - 8 * i) w) mod 256"

definition hextet0 :: "128 word \<Rightarrow> nat" where
  "hextet0 w = unat (drop_bit 112 w)"

definition IsLoopback :: "addr \<Rightarrow> bool" where
  "IsLoopback a \<longleftrightarrow> (case a of NoAddr \<Rightarrow> False | A4 w \<Rightarrow> octet 0 w = 127 | A6 w z \<Rightarrow> w = 1)"

definition IsMulticast :: "addr \<Rightarrow> bool" where
  "IsMulticast a \<longleftrightarrow> (case a of NoAddr \<Rightarrow> False | A4 w \<Rightarrow> octet 0 w div 16 = 14 | A6 w z \<Rightarrow> hextet0 w div 256 = 255)"

definition IsLinkLocalUnicast :: "addr \<Rightarrow> bool" where
  "IsLinkLocalUnicast a \<longleftrightarrow>
     (case a of NoAddr \<Rightarrow> False | A4 w \<Rightarrow> octet 0 w = 169 \<and> octet 1 w = 254 | A6 w z \<Rightarrow> hextet0 w div 64 = 1018)"

definition IsPrivate :: "addr \<Rightarrow> bool" where
  "IsPrivate a \<longleftrightarrow>
     (case a of
        NoAddr \<Rightarrow> False
      | A4 w \<Rightarrow> octet 0 w = 10 \<or> octet 0 w = 172 \<and> octet 1 w div 16 = 1 \<or> octet 0 w = 192 \<and> octet 1 w = 168
      | A6 w z \<Rightarrow> hextet0 w div 512 = 126)"

definition IsGlobalUnicast :: "addr \<Rightarrow> bool" where
  "IsGlobalUnicast a \<longleftrightarrow>
     a \<noteq> NoAddr \<and> a \<noteq> A4 0 \<and> a \<noteq> A4 (- 1) \<and> a \<noteq> A6 0 [] \<and> \<not> IsLoopback a \<and> \<not> IsMulticast a \<and> \<not> IsLinkLocalUnicast a"

text \<open>The addresses a table answers for.\<close>

definition routable :: "addr \<Rightarrow> bool" where
  "routable a \<longleftrightarrow> IsGlobalUnicast a \<and> \<not> IsPrivate a \<and> \<not> IsLinkLocalUnicast a"

section \<open>Prefixes\<close>

text \<open>What \<open>ParsePrefix\<close> returns: an address without a zone and a number of bits.\<close>

datatype prefix = Prefix4 "32 word" nat | Prefix6 "128 word" nat

fun prefix_Addr :: "prefix \<Rightarrow> addr" where
  "prefix_Addr (Prefix4 w n) = A4 w"
| "prefix_Addr (Prefix6 w n) = A6 w []"

fun Masked :: "prefix \<Rightarrow> prefix" where
  "Masked (Prefix4 w n) = Prefix4 (push_bit (32 - n) (drop_bit (32 - n) w)) n"
| "Masked (Prefix6 w n) = Prefix6 (push_bit (128 - n) (drop_bit (128 - n) w)) n"

fun Contains :: "prefix \<Rightarrow> addr \<Rightarrow> bool" where
  "Contains (Prefix4 w n) (A4 x) = (drop_bit (32 - n) (xor x w) = 0)"
| "Contains (Prefix6 w n) (A6 x z) = (z = [] \<and> drop_bit (128 - n) (xor x w) = 0)"
| "Contains _ _ = False"

lemma word_xor_zero [simp]: "xor x w = 0 \<longleftrightarrow> x = (w :: 'a::len word)"
  by (auto simp: bit_eq_iff bit_xor_iff)

lemma drop_bit_le:
  fixes x y :: "'a::len word"
  assumes "x \<le> y" shows "drop_bit k x \<le> drop_bit k y"
  using assms unfolding word_le_nat_alt unat_drop_bit_eq by (simp add: drop_bit_eq_div div_le_mono)

lemma push_drop_le: "push_bit k (drop_bit k x) \<le> (x :: 'a::len word)"
proof -
  have "push_bit k (drop_bit k x) = and (not (mask k)) x"
    by (rule bit_eqI) (auto simp: bit_simps)
  then show ?thesis by (simp add: word_and_le1)
qed

lemma drop_push_drop: "drop_bit k (push_bit k (drop_bit k x)) = drop_bit k (x :: 'a::len word)"
  by (rule bit_eqI) (auto simp: bit_simps dest: bit_imp_le_length)

lemma masked_le:
  fixes x w :: "'a::len word"
  assumes "push_bit k (drop_bit k w) = w" "drop_bit k x = drop_bit k w"
  shows "w \<le> x"
  using push_drop_le [of k x] assms by simp

lemma drop_bit_between:
  fixes w y x :: "'a::len word"
  assumes "w \<le> y" "y \<le> x" "drop_bit k x = drop_bit k w"
  shows "drop_bit k y = drop_bit k w"
  using drop_bit_le [OF assms(1), of k] drop_bit_le [OF assms(2), of k] assms(3) by simp

lemma Masked_idem: "Masked (Masked p) = Masked p"
  by (cases p) (simp_all add: drop_push_drop)

lemma Contains_start: "Contains p (prefix_Addr p)"
  by (cases p) (simp_all add: drop_bit_xor)

lemma Contains_from: "Masked p = p \<Longrightarrow> Contains p x \<Longrightarrow> prefix_Addr p \<le> x"
  by (cases "(p, x)" rule: Contains.cases)
    (auto simp: drop_bit_xor order_less_le intro: masked_le)

lemma Contains_between:
  "Contains p x \<Longrightarrow> prefix_Addr p \<le> prefix_Addr q \<Longrightarrow> prefix_Addr q \<le> x \<Longrightarrow> Contains p (prefix_Addr q)"
  by (cases "(p, x)" rule: Contains.cases; cases q)
    (auto simp: drop_bit_xor intro: drop_bit_between less_imp_le)

section \<open>Binary search\<close>

text \<open>The loop of \<open>slices.BinarySearchFunc\<close>; \<open>below\<close> says that the comparison is negative.\<close>

function bsearch :: "('r \<Rightarrow> bool) \<Rightarrow> 'r list \<Rightarrow> nat \<Rightarrow> nat \<Rightarrow> nat" where
  "bsearch below xs i j =
     (if i < j
      then (let h = (i + j) div 2 in if below (xs ! h) then bsearch below xs (h + 1) j else bsearch below xs i h)
      else i)"
  by pat_completeness auto

termination
  by (relation "measure (\<lambda>(below, xs, i, j). j - i)") auto

declare bsearch.simps [simp del]

definition BinarySearchFunc :: "('r \<Rightarrow> bool) \<Rightarrow> 'r list \<Rightarrow> nat" where
  "BinarySearchFunc below xs = bsearch below xs 0 (length xs)"

text \<open>Below the result everything is below the target, from it on nothing is.\<close>

lemma bsearch_insertion:
  assumes "j \<le> length xs" and "i \<le> j"
    and "\<And>a b. a < b \<Longrightarrow> b < length xs \<Longrightarrow> below (xs ! b) \<Longrightarrow> below (xs ! a)"
    and "\<And>a. a < i \<Longrightarrow> below (xs ! a)" and "\<And>a. j \<le> a \<Longrightarrow> a < length xs \<Longrightarrow> \<not> below (xs ! a)"
  shows "bsearch below xs i j \<le> length xs
    \<and> (\<forall>a < length xs. below (xs ! a) \<longleftrightarrow> a < bsearch below xs i j)"
  using assms
proof (induction below xs i j rule: bsearch.induct)
  case (1 below xs i j)
  show ?case
  proof (cases "i < j")
    case False
    then have "i = j" using "1.prems" by simp
    moreover have "bsearch below xs i j = i" using False by (subst bsearch.simps) simp
    ultimately show ?thesis using "1.prems"(1,4,5) by (metis not_le)
  next
    case True
    define h where "h = (i + j) div 2"
    have h: "i \<le> h" "h < j" using True by (auto simp: h_def)
    show ?thesis
    proof (cases "below (xs ! h)")
      case below: True
      have low: "below (xs ! a)" if "a < h + 1" for a
        using that below "1.prems"(3) [of a h] "1.prems"(1) h by (cases "a = h") auto
      have "bsearch below xs (h + 1) j \<le> length xs
          \<and> (\<forall>a < length xs. below (xs ! a) \<longleftrightarrow> a < bsearch below xs (h + 1) j)"
        by (intro "1.IH"(1) [OF True h_def below]) (use "1.prems" h low in auto)
      moreover have "bsearch below xs i j = bsearch below xs (h + 1) j"
        using True below by (subst bsearch.simps) (simp add: Let_def h_def [symmetric])
      ultimately show ?thesis by simp
    next
      case above: False
      have high: "\<not> below (xs ! a)" if "h \<le> a" "a < length xs" for a
        using that above "1.prems"(3) [of h a] by (cases "a = h") auto
      have "bsearch below xs i h \<le> length xs
          \<and> (\<forall>a < length xs. below (xs ! a) \<longleftrightarrow> a < bsearch below xs i h)"
        by (intro "1.IH"(2) [OF True h_def above]) (use "1.prems" h high in auto)
      moreover have "bsearch below xs i j = bsearch below xs i h"
        using True above by (subst bsearch.simps) (simp add: Let_def h_def [symmetric])
      ultimately show ?thesis by simp
    qed
  qed
qed

section \<open>Sorted disjoint spans\<close>

text \<open>
  The contract of a span: it covers its start, nothing before it, and the start of any span that
  begins between its start and an address it covers. \<open>check\<close> is the test the search makes of the last
  span that starts before the address.
\<close>

locale span_table =
  fixes start :: "'r \<Rightarrow> 'a::linorder"
    and covers :: "'r \<Rightarrow> 'a \<Rightarrow> bool"
    and row_ok :: "'r \<Rightarrow> bool"
    and check :: "'r \<Rightarrow> 'a \<Rightarrow> bool"
  assumes covers_start: "row_ok r \<Longrightarrow> covers r (start r)"
    and covers_from: "row_ok r \<Longrightarrow> covers r x \<Longrightarrow> start r \<le> x"
    and covers_between:
      "row_ok r \<Longrightarrow> row_ok r' \<Longrightarrow> covers r x \<Longrightarrow> start r \<le> start r' \<Longrightarrow> start r' \<le> x \<Longrightarrow> covers r (start r')"
    and check_covers: "row_ok r \<Longrightarrow> start r < x \<Longrightarrow> check r x \<longleftrightarrow> covers r x"
begin

text \<open>The probe of both tables: the insertion point, or the row before it.\<close>

definition probe :: "'r list \<Rightarrow> 'a \<Rightarrow> 'r option" where
  "probe rows x =
     (let i = BinarySearchFunc (\<lambda>r. start r < x) rows
      in if i < length rows \<and> start (rows ! i) = x then Some (rows ! i)
         else if i = 0 then None
         else if check (rows ! (i - 1)) x then Some (rows ! (i - 1)) else None)"

definition disjoint_rows :: "'r list \<Rightarrow> bool" where
  "disjoint_rows rows \<longleftrightarrow> sorted (map start rows) \<and> list_all row_ok rows
     \<and> (\<forall>i. Suc i < length rows \<longrightarrow> \<not> covers (rows ! i) (start (rows ! Suc i)))"

lemma rows_ordered:
  assumes "disjoint_rows rows" and "a \<le> b" and "b < length rows"
  shows "start (rows ! a) \<le> start (rows ! b)"
  using assms sorted_nth_mono [of "map start rows" a b] by (simp add: disjoint_rows_def)

lemma later_row_not_covered:
  assumes "disjoint_rows rows" and "a < b" and "b < length rows" and "covers (rows ! a) x"
  shows "x < start (rows ! b)"
proof (rule ccontr)
  assume "\<not> x < start (rows ! b)"
  have ok: "row_ok (rows ! a)" "row_ok (rows ! Suc a)"
    using assms(1-3) by (simp_all add: disjoint_rows_def list_all_length)
  have "start (rows ! a) \<le> start (rows ! Suc a)" "start (rows ! Suc a) \<le> start (rows ! b)"
    using assms(2,3) by (auto intro: rows_ordered [OF assms(1)])
  then have "covers (rows ! a) (start (rows ! Suc a))"
    using \<open>\<not> x < start (rows ! b)\<close> by (intro covers_between [OF ok assms(4)]) auto
  then show False using assms(1-3) by (simp add: disjoint_rows_def)
qed

lemma covering_row_unique:
  assumes "disjoint_rows rows" and "a < length rows" and "b < length rows"
    and "covers (rows ! a) x" and "covers (rows ! b) x"
  shows "a = b"
proof -
  have "start (rows ! i) \<le> x" if "i < length rows" "covers (rows ! i) x" for i
    using assms(1) that covers_from by (simp add: disjoint_rows_def list_all_length)
  then show ?thesis
    using later_row_not_covered [OF assms(1)] assms(2-5) by (metis linorder_neqE_nat not_less)
qed

lemma probe_covers:
  assumes rows: "disjoint_rows rows"
  shows "probe rows x = Some r \<longleftrightarrow> r \<in> set rows \<and> covers r x"
proof -
  let ?i = "BinarySearchFunc (\<lambda>r. start r < x) rows"
  have mono: "start (rows ! a) < x" if "a < b" "b < length rows" "start (rows ! b) < x" for a b
    using rows_ordered [OF rows, of a b] that by auto
  have "?i \<le> length rows \<and> (\<forall>a < length rows. start (rows ! a) < x \<longleftrightarrow> a < ?i)"
    unfolding BinarySearchFunc_def by (rule bsearch_insertion) (use mono in auto)
  then have i: "?i \<le> length rows" "\<And>a. a < length rows \<Longrightarrow> start (rows ! a) < x \<longleftrightarrow> a < ?i" by blast+
  have ok: "row_ok (rows ! a)" if "a < length rows" for a
    using rows that by (simp add: disjoint_rows_def list_all_length)
  have hit: "probe rows x = Some (rows ! a)" if a: "a < length rows" "covers (rows ! a) x" for a
  proof (cases "start (rows ! a) = x")
    case True
    then have "\<not> a < ?i" using i(2) [OF a(1)] by simp
    then have "start (rows ! ?i) \<le> x" "?i < length rows"
      using rows_ordered [OF rows, of ?i a] True a(1) by auto
    then have "start (rows ! ?i) = x" using i(2) [of ?i] by auto
    then have "covers (rows ! ?i) x" using covers_start [OF ok] \<open>?i < length rows\<close> by metis
    then have "?i = a" using covering_row_unique [OF rows] a \<open>?i < length rows\<close> by blast
    then show ?thesis using True a(1) by (simp add: probe_def Let_def)
  next
    case False
    then have "start (rows ! a) < x" using covers_from [OF ok a(2)] a(1) by fastforce
    then have "a < ?i" using i(2) [OF a(1)] by simp
    have "a = ?i - 1"
    proof (rule ccontr)
      assume "a \<noteq> ?i - 1"
      then have "a < ?i - 1" "?i - 1 < length rows" "start (rows ! (?i - 1)) < x"
        using \<open>a < ?i\<close> i(1) i(2) [of "?i - 1"] by auto
      then show False using later_row_not_covered [OF rows _ _ a(2), of "?i - 1"] by auto
    qed
    moreover have "\<not> (?i < length rows \<and> start (rows ! ?i) = x)"
      using later_row_not_covered [OF rows \<open>a < ?i\<close> _ a(2)] by auto
    ultimately show ?thesis
      using a \<open>a < ?i\<close> check_covers [OF ok \<open>start (rows ! a) < x\<close>] by (auto simp: probe_def Let_def)
  qed
  have sound: "r \<in> set rows \<and> covers r x" if "probe rows x = Some r"
  proof (cases "?i < length rows \<and> start (rows ! ?i) = x")
    case True
    then have "r = rows ! ?i" using that by (simp add: probe_def Let_def)
    then show ?thesis using True covers_start [OF ok, of ?i] by auto
  next
    case False
    then have r: "r = rows ! (?i - 1)" "check r x" "?i - 1 < length rows" "?i \<noteq> 0"
      using that i(1) by (auto simp: probe_def Let_def split: if_splits)
    then have "start r < x" using i(2) [of "?i - 1"] by simp
    then show ?thesis using r check_covers [OF ok, of "?i - 1"] by auto
  qed
  show ?thesis using hit sound by (auto simp: in_set_conv_nth)
qed

text \<open>So the probe is a scan of the rows, in whatever order they are scanned.\<close>

lemma probe_scan:
  assumes "disjoint_rows rows" and "set rows' = set rows"
  shows "probe rows x = List.find (\<lambda>r. covers r x) rows'"
proof (cases "List.find (\<lambda>r. covers r x) rows'")
  case None
  then have "probe rows x \<noteq> Some r" for r
    using assms by (auto simp: probe_covers find_None_iff)
  then show ?thesis using None by (cases "probe rows x") auto
next
  case (Some r)
  then have "r \<in> set rows" "covers r x" using assms(2) by (auto simp: find_Some_iff)
  then have "probe rows x = Some r" using probe_covers [OF assms(1)] by blast
  then show ?thesis using Some by simp
qed

end

end
