(* ===== verification/Tables.thy ===== *)
theory Tables
  imports Netaddr Text
begin

text \<open>
  The AS table of \<open>core/asn\<close>. A file is the list of its lines and whether reading it failed;
  \<open>netip.ParsePrefix\<close> and \<open>netip.ParseAddr\<close> are parameters. Sorting is \<open>sort_key\<close>: rows that compare
  equal overlap, and an overlapping table is refused in every order.
\<close>

section \<open>Lines\<close>

definition cut_comment :: "string \<Rightarrow> string" where
  "cut_comment text = takeWhile (\<lambda>c. c \<noteq> CHR ''#'') text"

fun next_word :: "string \<Rightarrow> string" where
  "next_word [] = []"
| "next_word (c # cs) = (if space_prefix space_encodings (c # cs) \<noteq> 0 then [] else c # next_word cs)"

lemma next_word_nonempty: "t \<noteq> [] \<Longrightarrow> space_prefix space_encodings t = 0 \<Longrightarrow> next_word t \<noteq> []"
  by (cases t) auto

lemma trim_left_stops: "trim_left encs s = [] \<or> space_prefix encs (trim_left encs s) = 0"
proof (induction encs s rule: trim_left.induct)
  case (1 encs s)
  then show ?case by (subst (1 2) trim_left.simps) auto
qed

lemma length_trim_left: "length (trim_left encs s) \<le> length s"
proof (induction encs s rule: trim_left.induct)
  case (1 encs s)
  then show ?case by (subst trim_left.simps) (auto intro: order_trans)
qed

text \<open>\<open>strings.Fields\<close>: the words between runs of white space.\<close>

function Fields :: "string \<Rightarrow> string list" where
  "Fields s =
     (let t = trim_left space_encodings s
      in if t = [] then [] else next_word t # Fields (drop (length (next_word t)) t))"
  by pat_completeness auto

termination
proof (relation "measure length")
  fix s t :: string
  assume t: "t = trim_left space_encodings s" "t \<noteq> []"
  have "length (next_word t) > 0" "length t > 0" "length t \<le> length s"
    using length_trim_left [of space_encodings s] trim_left_stops [of space_encodings s] next_word_nonempty t by auto
  then show "(drop (length (next_word t)) t, s) \<in> measure length"
    unfolding in_measure length_drop by linarith
qed simp

declare Fields.simps [simp del]

lemma space_prefix_blank: "space_prefix space_encodings (CHR '' '' # s) = 1"
  by (simp add: space_prefix_def space_encodings_def char_byte_def)

lemma next_word_visible:
  assumes "list_all visible w"
  shows "next_word w = w" and "next_word (w @ CHR '' '' # s) = w"
  using assms by (induction w) (simp_all add: space_prefix_visible space_prefix_blank)

lemma trim_left_first: "visible c \<Longrightarrow> trim_left space_encodings (c # s) = c # s"
  "visible c \<Longrightarrow> trim_left (map rev space_encodings) (c # s) = c # s"
  by (subst trim_left.simps; simp add: space_prefix_visible space_suffix_visible)+

lemma TrimSpace_ends:
  assumes "s \<noteq> []" "visible (hd s)" "visible (last s)"
  shows "TrimSpace s = s"
proof -
  have "rev s = last s # rev (butlast s)" using assms(1) by (metis append_butlast_last_id rev.simps(2) rev_rev_ident rev_swap)
  then have "trim_left (map rev space_encodings) (rev s) = rev s" using assms(3) by (metis trim_left_first(2))
  moreover have "trim_left space_encodings s = s" using assms(1,2) by (cases s) (simp_all add: trim_left_first)
  ultimately show ?thesis by (simp add: TrimSpace_def)
qed

text \<open>A line of two words separated by a blank.\<close>

lemma two_words:
  assumes w: "list_all visible w" "w \<noteq> []" and v: "list_all visible v" "v \<noteq> []"
  shows "TrimSpace (w @ CHR '' '' # v) = w @ CHR '' '' # v"
    and "Fields (w @ CHR '' '' # v) = [w, v]"
proof -
  obtain c cs where c: "w = c # cs" "visible c" using w by (cases w) auto
  have "visible (last (w @ CHR '' '' # v))" using v by (simp add: list_all_iff)
  then show "TrimSpace (w @ CHR '' '' # v) = w @ CHR '' '' # v" using c by (simp add: TrimSpace_ends)
  obtain e es where e: "v = e # es" "visible e" using v by (cases v) auto
  have "trim_left space_encodings (CHR '' '' # v) = v"
    by (subst trim_left.simps) (simp add: space_prefix_blank trim_left_visible v)
  then have "Fields (CHR '' '' # v) = [v]"
    using v by (subst Fields.simps) (simp add: next_word_visible Fields.simps [of "[]"] trim_left.simps [of _ "[]"])
  then show "Fields (w @ CHR '' '' # v) = [w, v]"
    using c w by (subst Fields.simps) (simp add: trim_left_first next_word_visible(2) [OF w(1), unfolded c(1), simplified])
qed


section \<open>The AS table (core/asn/asn.go)\<close>

type_synonym AS = "32 word"

definition AS_String :: "AS \<Rightarrow> string" where
  "AS_String a = ''AS'' @ show_nat (unat a)"

record span =
  sp_p :: prefix
  sp_as :: AS

record asn_table =
  at_v4 :: "span list"
  at_v6 :: "span list"
  at_Rows :: int

datatype asn_error =
  AsnFields nat nat | AsnPrefix nat | AsnHostBits nat | AsnNumber nat | AsnZero nat | AsnScan | AsnEmpty
| AsnOverlap span span

text \<open>One line: nothing, a row, or an error that names the line.\<close>

definition asn_row :: "(string \<Rightarrow> prefix option) \<Rightarrow> nat \<Rightarrow> string \<Rightarrow> asn_error + span option" where
  "asn_row parse line text =
     (let text = TrimSpace (cut_comment text)
      in if text = [] then Inr None
         else case Fields text of
                [f, g] \<Rightarrow>
                  (case parse f of
                     None \<Rightarrow> Inl (AsnPrefix line)
                   | Some p \<Rightarrow>
                       if p \<noteq> Masked p then Inl (AsnHostBits line)
                       else case parse_uint g 32 of
                              None \<Rightarrow> Inl (AsnNumber line)
                            | Some n \<Rightarrow>
                                if n = 0 then Inl (AsnZero line)
                                else Inr (Some \<lparr>sp_p = Masked p, sp_as = of_nat n\<rparr>))
              | fs \<Rightarrow> Inl (AsnFields line (length fs)))"

fun asn_rows :: "(string \<Rightarrow> prefix option) \<Rightarrow> nat \<Rightarrow> string list \<Rightarrow> asn_error + span list" where
  "asn_rows parse line [] = Inr []"
| "asn_rows parse line (t # ts) =
     (case asn_row parse line t of
        Inl err \<Rightarrow> Inl err
      | Inr r \<Rightarrow>
          (case asn_rows parse (line + 1) ts of
             Inl err \<Rightarrow> Inl err
           | Inr rs \<Rightarrow> Inr (case r of None \<Rightarrow> rs | Some s \<Rightarrow> s # rs)))"

definition span_start :: "span \<Rightarrow> addr" where
  "span_start s = prefix_Addr (sp_p s)"

fun asn_validate :: "span list \<Rightarrow> asn_error option" where
  "asn_validate (a # b # rows) =
     (if Contains (sp_p a) (span_start b) then Some (AsnOverlap a b) else asn_validate (b # rows))"
| "asn_validate _ = None"

definition asn_Read :: "(string \<Rightarrow> prefix option) \<Rightarrow> string list \<Rightarrow> bool \<Rightarrow> asn_error + asn_table" where
  "asn_Read parse text scan_failed =
     (case asn_rows parse 1 text of
        Inl err \<Rightarrow> Inl err
      | Inr rows \<Rightarrow>
          if scan_failed then Inl AsnScan
          else if rows = [] then Inl AsnEmpty
          else
            (let v4 = sort_key span_start (filter (\<lambda>s. Is4 (span_start s)) rows);
                 v6 = sort_key span_start (filter (\<lambda>s. \<not> Is4 (span_start s)) rows)
             in case asn_validate v4 of
                  Some err \<Rightarrow> Inl err
                | None \<Rightarrow>
                    (case asn_validate v6 of
                       Some err \<Rightarrow> Inl err
                     | None \<Rightarrow> Inr \<lparr>at_v4 = v4, at_v6 = v6, at_Rows = int (length rows)\<rparr>)))"

definition LookupAS :: "asn_table option \<Rightarrow> addr \<Rightarrow> AS option" where
  "LookupAS t ip =
     (case t of
        None \<Rightarrow> None
      | Some t \<Rightarrow>
          if ip = NoAddr then None
          else
            (let ip = Unmap ip
             in if \<not> IsGlobalUnicast ip \<or> IsPrivate ip \<or> IsLinkLocalUnicast ip then None
                else
                  (let rows = (if Is4 ip then at_v4 t else at_v6 t);
                       i = BinarySearchFunc (\<lambda>s. span_start s < ip) rows
                   in if i < length rows \<and> span_start (rows ! i) = ip then Some (sp_as (rows ! i))
                      else if i = 0 then None
                      else if Contains (sp_p (rows ! (i - 1))) ip then Some (sp_as (rows ! (i - 1)))
                      else None)))"

definition asn_Len :: "asn_table option \<Rightarrow> nat \<times> nat" where
  "asn_Len t = (case t of None \<Rightarrow> (0, 0) | Some t \<Rightarrow> (length (at_v4 t), length (at_v6 t)))"

text \<open>\<open>netip.AddrFromSlice\<close> of four or sixteen bytes.\<close>

definition AddrFromSlice :: "bytes \<Rightarrow> addr option" where
  "AddrFromSlice b =
     (if length b = 4 then Some (A4 (of_nat (nat_of_be b)))
      else if length b = 16 then Some (A6 (of_nat (nat_of_be b)) [])
      else None)"

definition OfAddr :: "asn_table option \<Rightarrow> bytes \<Rightarrow> AS option" where
  "OfAddr t ip = (case AddrFromSlice ip of None \<Rightarrow> None | Some a \<Rightarrow> LookupAS t a)"

text \<open>\<open>split\<close> and \<open>parse\<close> are \<open>net.SplitHostPort\<close> and \<open>netip.ParseAddr\<close>.\<close>

definition OfHostPort ::
    "(string \<Rightarrow> string option) \<Rightarrow> (string \<Rightarrow> addr option) \<Rightarrow> asn_table option \<Rightarrow> string \<Rightarrow> AS option" where
  "OfHostPort split parse t hostport =
     (let host = (case split hostport of None \<Rightarrow> hostport | Some h \<Rightarrow> h)
      in case parse host of None \<Rightarrow> None | Some a \<Rightarrow> LookupAS t a)"

subsection \<open>A lookup is a scan\<close>

definition span_covers :: "span \<Rightarrow> addr \<Rightarrow> bool" where
  "span_covers s x \<longleftrightarrow> Contains (sp_p s) x"

definition span_masked :: "span \<Rightarrow> bool" where
  "span_masked s \<longleftrightarrow> Masked (sp_p s) = sp_p s"

interpretation asn_spans: span_table span_start span_covers span_masked span_covers
  by unfold_locales
    (auto simp: span_start_def span_covers_def span_masked_def
      intro: Contains_start Contains_from Contains_between)

lemma asn_validate_None:
  "asn_validate rows = None \<longleftrightarrow> (\<forall>i. Suc i < length rows \<longrightarrow> \<not> span_covers (rows ! i) (span_start (rows ! Suc i)))"
  by (induction rows rule: asn_validate.induct) (auto simp: span_covers_def nth_Cons split: nat.splits)

lemma asn_row_masked: "asn_row parse line text = Inr (Some s) \<Longrightarrow> span_masked s"
  by (auto simp: asn_row_def span_masked_def Masked_idem Let_def split: if_splits option.splits list.splits)

lemma asn_rows_masked: "asn_rows parse line text = Inr rows \<Longrightarrow> list_all span_masked rows"
  by (induction parse line "text" arbitrary: rows rule: asn_rows.induct)
    (auto split: sum.splits option.splits dest: asn_row_masked)

lemma find_filter_implied:
  "(\<And>r. r \<in> set rows \<Longrightarrow> P r \<Longrightarrow> Q r) \<Longrightarrow> List.find P (filter Q rows) = List.find P rows"
  by (induction rows) auto

lemma span_family: "span_covers s x \<Longrightarrow> Is4 (span_start s) \<longleftrightarrow> Is4 x"
  unfolding span_covers_def span_start_def
  by (cases "(sp_p s, x)" rule: Contains.cases) (auto simp: Is4_def)

lemma asn_family_scan:
  assumes "list_all span_masked rows" and "asn_validate (sort_key span_start (filter Q rows)) = None"
    and "\<And>s. s \<in> set rows \<Longrightarrow> span_covers s x \<Longrightarrow> Q s"
  shows "asn_spans.probe (sort_key span_start (filter Q rows)) x = List.find (\<lambda>s. span_covers s x) rows"
proof -
  have "asn_spans.disjoint_rows (sort_key span_start (filter Q rows))"
    using assms(1,2) by (auto simp: asn_spans.disjoint_rows_def asn_validate_None list_all_iff)
  then have "asn_spans.probe (sort_key span_start (filter Q rows)) x
      = List.find (\<lambda>s. span_covers s x) (filter Q rows)"
    by (rule asn_spans.probe_scan) simp
  then show ?thesis using find_filter_implied [of rows "\<lambda>s. span_covers s x" Q] assms(3) by simp
qed

lemma LookupAS_probe:
  "LookupAS (Some t) ip =
     (if routable (Unmap ip)
      then map_option sp_as (asn_spans.probe (if Is4 (Unmap ip) then at_v4 t else at_v6 t) (Unmap ip))
      else None)"
  by (auto simp: LookupAS_def asn_spans.probe_def routable_def span_covers_def IsGlobalUnicast_def Unmap_def Let_def)

text \<open>In a loaded AS table, \<open>Lookup\<close>'s single binary probe answers exactly as a scan of the file's
  rows in file order would, for every globally routable address, mapped or not, and nothing for any
  other address. (\<open>asn_rows\<close> are the file's rows; \<open>Read\<close> sorts them into two tables.)\<close>

lemma asn_lookup_is_scan:
  assumes "asn_Read parse text failed = Inr t" and "asn_rows parse 1 text = Inr rows"
  shows "LookupAS (Some t) ip =
    (if routable (Unmap ip)
     then map_option sp_as (List.find (\<lambda>s. Contains (sp_p s) (Unmap ip)) rows) else None)"
proof -
  have v4: "asn_validate (at_v4 t) = None" "at_v4 t = sort_key span_start (filter (\<lambda>s. Is4 (span_start s)) rows)"
    and v6: "asn_validate (at_v6 t) = None" "at_v6 t = sort_key span_start (filter (\<lambda>s. \<not> Is4 (span_start s)) rows)"
    using assms by (auto simp: asn_Read_def Let_def split: if_splits option.splits)
  have "asn_spans.probe (if Is4 x then at_v4 t else at_v6 t) x = List.find (\<lambda>s. span_covers s x) rows" for x
    using asn_rows_masked [OF assms(2)] v4 v6 span_family by (auto intro!: asn_family_scan)
  then show ?thesis by (simp add: LookupAS_probe span_covers_def)
qed

definition sample_prefix :: "string \<Rightarrow> prefix option" where
  "sample_prefix s =
     (if s = ''8.0.0.0/9'' then Some (Prefix4 134217728 9)
      else if s = ''9.9.9.0/24'' then Some (Prefix4 151587072 24) else None)"

lemma sample_asn_rows:
  "asn_rows sample_prefix 1 [''9.9.9.0/24 64501'', ''#'', ''8.0.0.0/9 64500''] =
     Inr [\<lparr>sp_p = Prefix4 151587072 24, sp_as = 64501\<rparr>, \<lparr>sp_p = Prefix4 134217728 9, sp_as = 64500\<rparr>]"
proof -
  have "TrimSpace [] = []" by (rule TrimSpace_visible) simp
  then show ?thesis
    using two_words [of "''9.9.9.0/24''" "''64501''"] two_words [of "''8.0.0.0/9''" "''64500''"]
    by (simp add: asn_row_def cut_comment_def visible_def char_byte_def sample_prefix_def push_bit_eq_mult drop_bit_eq_div
        parse_uint_def digits_value_def digit_val_def is_digit_def)
qed

end
