(* ===== verification/CountryDB.thy ===== *)
theory CountryDB
  imports Tables Geoip Float64 "HOL-Library.AList"
begin

text \<open>
  The country database of \<open>core/geoip\<close> in both its formats: the range files of \<open>ranges.go\<close> and the
  MaxMind CSV of \<open>geoip.go\<close>. A file is what the readers get from it: its lines and whether scanning
  them failed, and its CSV records. \<open>netip.ParseAddr\<close> and \<open>netip.ParsePrefix\<close> are the parameters
  \<open>addr\<close> and \<open>pre\<close>, \<open>up\<close> is the upper case of \<open>Geoip\<close>. The interning of codes has no effect.
\<close>

section \<open>The table\<close>

record block =
  bk_lo :: addr
  bk_hi :: addr
  bk_cc :: string

record geo_db =
  db_v4 :: "block list"
  db_v6 :: "block list"
  db_Source :: string
  db_BuiltAt :: time
  db_Stale :: bool
  db_Skipped :: nat

datatype csv_item = CsvRecord "string list" | CsvError

text \<open>\<open>gf_mtime\<close> counts from the zero time.\<close>

record geo_file =
  gf_lines :: "string list"
  gf_scan_failed :: bool
  gf_csv :: "csv_item list"
  gf_open_ok :: bool
  gf_close_ok :: bool
  gf_mtime :: time

datatype geo_error =
  GeoFields nat nat | GeoStart nat | GeoEnd nat | GeoFamilies nat | GeoOrder nat | GeoScan
| GeoHeader | GeoColumn string | GeoCsv | GeoNoRows
| GeoOpen | GeoClose | GeoOverlap block block | GeoImplausible nat nat | GeoEmpty | GeoNoDatabase

definition SourceRanges :: string where "SourceRanges = ''iptoasn ip2country''"

definition SourceMaxMind :: string where "SourceMaxMind = ''GeoLite2 Country CSV''"

definition geo_StaleAfter :: duration where "geo_StaleAfter = 90 * 24 * 3600 * 1000000000"

definition sortBlocks :: "block list \<Rightarrow> block list" where
  "sortBlocks rows = sort_key (\<lambda>b. (bk_lo b, bk_hi b)) rows"

fun geo_validate :: "block list \<Rightarrow> geo_error option" where
  "geo_validate (prev # cur # rows) =
     (if \<not> bk_hi prev < bk_lo cur then Some (GeoOverlap prev cur) else geo_validate (cur # rows))"
| "geo_validate _ = None"

definition geo_plausible :: "nat \<Rightarrow> nat \<Rightarrow> geo_error option" where
  "geo_plausible loaded skipped =
     (if skipped > 0 \<and> fl (fl (of_nat skipped) / fl (of_nat (loaded + skipped))) > 1 / 2
      then Some (GeoImplausible loaded skipped) else None)"

section \<open>The range files (ranges.go)\<close>

definition ccUnattributed :: string where "ccUnattributed = ''ZZ''"

text \<open>One line: a comment or blank line, a row that is skipped, a row, or an error.\<close>

datatype range_item = RangeBlank | RangeSkip | RangeRow block

definition range_line ::
    "(string \<Rightarrow> addr option) \<Rightarrow> (string \<Rightarrow> string) \<Rightarrow> (addr \<Rightarrow> bool) \<Rightarrow> nat \<Rightarrow> string \<Rightarrow> geo_error + range_item" where
  "range_line addr up is line text =
     (let text = cut_comment text
      in if TrimSpace text = [] then Inr RangeBlank
         else case map TrimSpace (split_on (CHR 0x09) text) of
                [f, g, h] \<Rightarrow>
                  (case addr f of
                     None \<Rightarrow> Inl (GeoStart line)
                   | Some lo \<Rightarrow>
                     (case addr g of
                        None \<Rightarrow> Inl (GeoEnd line)
                      | Some hi \<Rightarrow>
                        (let lo = Unmap lo; hi = Unmap hi
                         in if Is4 lo \<noteq> Is4 hi then Inl (GeoFamilies line)
                            else if hi < lo then Inl (GeoOrder line)
                            else if \<not> is lo then Inr RangeSkip
                            else
                              (let cc = Canonical up h
                               in if cc = [] \<or> cc = ccUnattributed then Inr RangeSkip
                                  else Inr (RangeRow \<lparr>bk_lo = lo, bk_hi = hi, bk_cc = cc\<rparr>)))))
              | fs \<Rightarrow> Inl (GeoFields line (length fs)))"

fun range_rows ::
    "(string \<Rightarrow> addr option) \<Rightarrow> (string \<Rightarrow> string) \<Rightarrow> (addr \<Rightarrow> bool) \<Rightarrow> nat \<Rightarrow> string list
     \<Rightarrow> geo_error + block list \<times> nat" where
  "range_rows addr up is line [] = Inr ([], 0)"
| "range_rows addr up is line (t # ts) =
     (case range_line addr up is line t of
        Inl err \<Rightarrow> Inl err
      | Inr r \<Rightarrow>
          (case range_rows addr up is (line + 1) ts of
             Inl err \<Rightarrow> Inl err
           | Inr (out, skipped) \<Rightarrow>
               Inr (case r of
                      RangeBlank \<Rightarrow> (out, skipped)
                    | RangeSkip \<Rightarrow> (out, skipped + 1)
                    | RangeRow b \<Rightarrow> (b # out, skipped))))"

definition readRanges ::
    "(string \<Rightarrow> addr option) \<Rightarrow> (string \<Rightarrow> string) \<Rightarrow> geo_file \<Rightarrow> (addr \<Rightarrow> bool) \<Rightarrow> geo_error + block list \<times> nat" where
  "readRanges addr up f is =
     (case range_rows addr up is 1 (gf_lines f) of
        Inl err \<Rightarrow> Inl err
      | Inr (out, skipped) \<Rightarrow>
          if gf_scan_failed f then Inl GeoScan else Inr (sortBlocks out, skipped))"

section \<open>The MaxMind files (geoip.go)\<close>

definition bom :: string where
  "bom = [CHR 0xEF, CHR 0xBB, CHR 0xBF]"

definition TrimPrefix :: "string \<Rightarrow> string \<Rightarrow> string" where
  "TrimPrefix s p = (if take (length p) s = p then drop (length p) s else s)"

fun column_from :: "nat \<Rightarrow> string list \<Rightarrow> string \<Rightarrow> geo_error + nat" where
  "column_from i [] name = Inl (GeoColumn name)"
| "column_from i (h # hs) name =
     (if TrimSpace (TrimPrefix h bom) = name then Inr i else column_from (i + 1) hs name)"

definition geo_column :: "string list \<Rightarrow> string \<Rightarrow> geo_error + nat" where
  "geo_column head name = column_from 0 head name"

text \<open>A later row for the same id replaces an earlier one.\<close>

fun location_rows ::
    "(string \<Rightarrow> string) \<Rightarrow> nat \<Rightarrow> nat \<Rightarrow> csv_item list \<Rightarrow> (string \<times> string) list \<Rightarrow> geo_error + (string \<times> string) list" where
  "location_rows up idID idCC [] out = Inr out"
| "location_rows up idID idCC (CsvError # _) out = Inl GeoCsv"
| "location_rows up idID idCC (CsvRecord rec # rest) out =
     (if idID \<ge> length rec \<or> idCC \<ge> length rec then location_rows up idID idCC rest out
      else
        (let cc = Canonical up (rec ! idCC)
         in if cc = [] then location_rows up idID idCC rest out
            else location_rows up idID idCC rest (AList.update (rec ! idID) cc out)))"

definition readLocations :: "(string \<Rightarrow> string) \<Rightarrow> csv_item list \<Rightarrow> geo_error + (string \<rightharpoonup> string)" where
  "readLocations up items =
     (case items of
        CsvRecord head # rest \<Rightarrow>
          (case geo_column head ''geoname_id'' of
             Inl err \<Rightarrow> Inl err
           | Inr idID \<Rightarrow>
             (case geo_column head ''country_iso_code'' of
                Inl err \<Rightarrow> Inl err
              | Inr idCC \<Rightarrow>
                (case location_rows up idID idCC rest [] of
                   Inl err \<Rightarrow> Inl err
                 | Inr out \<Rightarrow> if out = [] then Inl GeoNoRows else Inr (map_of out))))
      | _ \<Rightarrow> Inl GeoHeader)"

definition loadLocations :: "(string \<Rightarrow> string) \<Rightarrow> geo_file option \<Rightarrow> geo_error + (string \<rightharpoonup> string)" where
  "loadLocations up f =
     (case f of
        None \<Rightarrow> Inl GeoOpen
      | Some f \<Rightarrow> if gf_open_ok f then readLocations up (gf_csv f) else Inl GeoOpen)"

definition as_bytes :: "addr \<Rightarrow> bytes" where
  "as_bytes a =
     (case a of
        NoAddr \<Rightarrow> []
      | A4 w \<Rightarrow> map (\<lambda>i. ucast (drop_bit (8 * (3 - i)) w)) [0..<4]
      | A6 w z \<Rightarrow> map (\<lambda>i. ucast (drop_bit (8 * (15 - i)) w)) [0..<16])"

text \<open>The host bits of byte \<open>i\<close> are set; \<open>byte(0xff >> (8 - host))\<close> is the low \<open>host\<close> bits.\<close>

definition host_byte :: "nat \<Rightarrow> nat \<Rightarrow> byte \<Rightarrow> byte" where
  "host_byte bits i b =
     (let host = 8 * (int i + 1) - int bits
      in if host \<le> 0 then b
         else
           (let host = (if host > 8 then 8 else host)
            in or b (drop_bit (nat (8 - host)) 255)))"

fun prefix_Bits :: "prefix \<Rightarrow> nat" where
  "prefix_Bits (Prefix4 w n) = n"
| "prefix_Bits (Prefix6 w n) = n"

definition prefixRange :: "prefix \<Rightarrow> addr \<times> addr" where
  "prefixRange p =
     (let p = Masked p;
          lo = prefix_Addr p;
          buf = as_bytes lo;
          buf = map (\<lambda>i. host_byte (prefix_Bits p) i (buf ! i)) [0..<length buf]
      in (lo, case AddrFromSlice buf of None \<Rightarrow> NoAddr | Some hi \<Rightarrow> hi))"

text \<open>The country of a block row: its own location's, else the registrant's.\<close>

definition block_cc :: "(string \<rightharpoonup> string) \<Rightarrow> nat \<Rightarrow> nat \<Rightarrow> string list \<Rightarrow> string" where
  "block_cc locations idGeo idReg rec =
     (let loc = (\<lambda>i. if i < length rec then (case locations (rec ! i) of None \<Rightarrow> [] | Some cc \<Rightarrow> cc) else []);
          cc = loc idGeo
      in if cc = [] then loc idReg else cc)"

definition block_row ::
    "(string \<Rightarrow> prefix option) \<Rightarrow> (string \<rightharpoonup> string) \<Rightarrow> (addr \<Rightarrow> bool) \<Rightarrow> nat \<Rightarrow> nat \<Rightarrow> nat \<Rightarrow> string list
     \<Rightarrow> (prefix \<times> string) option" where
  "block_row pre locations is idNet idGeo idReg rec =
     (if idNet \<ge> length rec then None
      else
        case pre (TrimSpace (rec ! idNet)) of
          None \<Rightarrow> None
        | Some p \<Rightarrow>
            if \<not> is (prefix_Addr p) then None
            else
              (let cc = block_cc locations idGeo idReg rec
               in if cc = [] then None else Some (p, cc)))"

fun block_rows :: "(string list \<Rightarrow> (prefix \<times> string) option) \<Rightarrow> csv_item list \<Rightarrow> geo_error + (prefix \<times> string) list \<times> nat" where
  "block_rows row [] = Inr ([], 0)"
| "block_rows row (CsvError # _) = Inl GeoCsv"
| "block_rows row (CsvRecord rec # rest) =
     (case block_rows row rest of
        Inl err \<Rightarrow> Inl err
      | Inr (out, skipped) \<Rightarrow>
          Inr (case row rec of None \<Rightarrow> (out, skipped + 1) | Some r \<Rightarrow> (r # out, skipped)))"

text \<open>The rows of a blocks file before they become ranges.\<close>

definition csv_rows ::
    "(string \<Rightarrow> prefix option) \<Rightarrow> csv_item list \<Rightarrow> (string \<rightharpoonup> string) \<Rightarrow> (addr \<Rightarrow> bool)
     \<Rightarrow> geo_error + (prefix \<times> string) list \<times> nat" where
  "csv_rows pre items locations is =
     (case items of
        CsvRecord head # rest \<Rightarrow>
          (case geo_column head ''network'' of
             Inl err \<Rightarrow> Inl err
           | Inr idNet \<Rightarrow>
             (case geo_column head ''geoname_id'' of
                Inl err \<Rightarrow> Inl err
              | Inr idGeo \<Rightarrow>
                (case geo_column head ''registered_country_geoname_id'' of
                   Inl err \<Rightarrow> Inl err
                 | Inr idReg \<Rightarrow> block_rows (block_row pre locations is idNet idGeo idReg) rest)))
      | _ \<Rightarrow> Inl GeoHeader)"

definition range_block :: "prefix \<times> string \<Rightarrow> block" where
  "range_block r = (case prefixRange (fst r) of (lo, hi) \<Rightarrow> \<lparr>bk_lo = lo, bk_hi = hi, bk_cc = snd r\<rparr>)"

definition readBlocks ::
    "(string \<Rightarrow> prefix option) \<Rightarrow> (string \<rightharpoonup> string) \<Rightarrow> geo_file \<Rightarrow> (addr \<Rightarrow> bool) \<Rightarrow> geo_error + block list \<times> nat" where
  "readBlocks pre locations f is =
     (case csv_rows pre (gf_csv f) locations is of
        Inl err \<Rightarrow> Inl err
      | Inr (out, skipped) \<Rightarrow> Inr (sortBlocks (map range_block out), skipped))"

section \<open>Loading\<close>

text \<open>A path is \<open>None\<close> when it is empty, and else what the file system holds there.\<close>

type_synonym geo_path = "geo_file option option"

definition newestModTime :: "geo_path list \<Rightarrow> time" where
  "newestModTime paths =
     foldl (\<lambda>newest p. case p of Some (Some f) \<Rightarrow> if newest < gf_mtime f then gf_mtime f else newest | _ \<Rightarrow> newest) 0 paths"

text \<open>One family of \<open>assemble\<close>: nothing for an empty path, else its rows and how many were skipped.\<close>

definition assemble_family ::
    "(geo_file \<Rightarrow> (addr \<Rightarrow> bool) \<Rightarrow> geo_error + block list \<times> nat) \<Rightarrow> geo_path \<Rightarrow> (addr \<Rightarrow> bool)
     \<Rightarrow> geo_error + block list \<times> nat" where
  "assemble_family read path is =
     (case path of
        None \<Rightarrow> Inr ([], 0)
      | Some None \<Rightarrow> Inl GeoOpen
      | Some (Some f) \<Rightarrow>
          if \<not> gf_open_ok f then Inl GeoOpen
          else
            case read f is of
              Inl err \<Rightarrow> Inl err
            | Inr (rows, skipped) \<Rightarrow>
                if \<not> gf_close_ok f then Inl GeoClose
                else
                  case geo_validate rows of
                    Some err \<Rightarrow> Inl err
                  | None \<Rightarrow>
                      (case geo_plausible (length rows) skipped of
                         Some err \<Rightarrow> Inl err
                       | None \<Rightarrow> Inr (rows, skipped)))"

definition assemble ::
    "time \<Rightarrow> string \<Rightarrow> (geo_file \<Rightarrow> (addr \<Rightarrow> bool) \<Rightarrow> geo_error + block list \<times> nat)
     \<Rightarrow> geo_path \<Rightarrow> geo_path \<Rightarrow> geo_path list \<Rightarrow> geo_error + geo_db" where
  "assemble now source read v4Path v6Path alsoStamp =
     (case assemble_family read v4Path Is4 of
        Inl err \<Rightarrow> Inl err
      | Inr (v4, skipped4) \<Rightarrow>
        (case assemble_family read v6Path Is6 of
           Inl err \<Rightarrow> Inl err
         | Inr (v6, skipped6) \<Rightarrow>
             if v4 = [] \<and> v6 = [] then Inl GeoEmpty
             else
               (let built = newestModTime ([v4Path, v6Path] @ alsoStamp)
                in Inr \<lparr>db_v4 = v4, db_v6 = v6, db_Source = source, db_BuiltAt = built,
                        db_Stale = (built \<noteq> 0 \<and> now - built > geo_StaleAfter), db_Skipped = skipped4 + skipped6\<rparr>)))"

definition LoadRanges ::
    "(string \<Rightarrow> addr option) \<Rightarrow> (string \<Rightarrow> string) \<Rightarrow> time \<Rightarrow> geo_path \<Rightarrow> geo_path \<Rightarrow> geo_error + geo_db" where
  "LoadRanges addr up now v4 v6 = assemble now SourceRanges (readRanges addr up) v4 v6 []"

definition geo_Load ::
    "(string \<Rightarrow> prefix option) \<Rightarrow> (string \<Rightarrow> string) \<Rightarrow> time \<Rightarrow> geo_file option \<Rightarrow> geo_path \<Rightarrow> geo_path \<Rightarrow> geo_error + geo_db" where
  "geo_Load pre up now locs v4 v6 =
     (case loadLocations up locs of
        Inl err \<Rightarrow> Inl err
      | Inr locations \<Rightarrow> assemble now SourceMaxMind (readBlocks pre locations) v4 v6 [Some locs])"

text \<open>The directory: the files by the names \<open>LoadDir\<close> looks for.\<close>

record geo_dir =
  gd_RangesV4 :: "geo_file option"
  gd_RangesV6 :: "geo_file option"
  gd_Locations :: "geo_file option"
  gd_BlocksV4 :: "geo_file option"
  gd_BlocksV6 :: "geo_file option"

definition geo_optional :: "geo_file option \<Rightarrow> geo_path" where
  "geo_optional f = map_option Some f"

definition LoadDir ::
    "(string \<Rightarrow> addr option) \<Rightarrow> (string \<Rightarrow> prefix option) \<Rightarrow> (string \<Rightarrow> string) \<Rightarrow> time \<Rightarrow> geo_dir \<Rightarrow> geo_error + geo_db" where
  "LoadDir addr pre up now dir =
     (if gd_RangesV4 dir \<noteq> None
      then LoadRanges addr up now (geo_optional (gd_RangesV4 dir)) (geo_optional (gd_RangesV6 dir))
      else if gd_BlocksV4 dir = None then Inl GeoNoDatabase
      else geo_Load pre up now (gd_Locations dir) (geo_optional (gd_BlocksV4 dir)) (geo_optional (gd_BlocksV6 dir)))"

definition geo_Lookup :: "geo_db option \<Rightarrow> addr \<Rightarrow> string option" where
  "geo_Lookup d ip =
     (case d of
        None \<Rightarrow> None
      | Some d \<Rightarrow>
          if ip = NoAddr then None
          else
            (let ip = Unmap ip
             in if \<not> IsGlobalUnicast ip \<or> IsPrivate ip \<or> IsLinkLocalUnicast ip then None
                else
                  (let table = (if Is4 ip then db_v4 d else db_v6 d);
                       i = BinarySearchFunc (\<lambda>b. bk_lo b < ip) table
                   in if i < length table \<and> bk_lo (table ! i) = ip then Some (bk_cc (table ! i))
                      else if i = 0 then None
                      else if \<not> bk_hi (table ! (i - 1)) < ip then Some (bk_cc (table ! (i - 1)))
                      else None)))"

definition LookupAddr :: "geo_db option \<Rightarrow> bytes \<Rightarrow> string option" where
  "LookupAddr d ip = (case AddrFromSlice ip of None \<Rightarrow> None | Some a \<Rightarrow> geo_Lookup d a)"

definition geo_Len :: "geo_db option \<Rightarrow> nat \<times> nat" where
  "geo_Len d = (case d of None \<Rightarrow> (0, 0) | Some d \<Rightarrow> (length (db_v4 d), length (db_v6 d)))"

section \<open>A lookup is a scan\<close>

definition block_covers :: "block \<Rightarrow> addr \<Rightarrow> bool" where
  "block_covers b x \<longleftrightarrow> bk_lo b \<le> x \<and> x \<le> bk_hi b"

definition block_ordered :: "block \<Rightarrow> bool" where
  "block_ordered b \<longleftrightarrow> bk_lo b \<le> bk_hi b"

interpretation geo_spans: span_table bk_lo block_covers block_ordered "\<lambda>b x. \<not> bk_hi b < x"
  by unfold_locales (auto simp: block_covers_def block_ordered_def)

lemma geo_validate_None:
  assumes "list_all block_ordered rows" and "sorted (map bk_lo rows)"
  shows "geo_validate rows = None \<longleftrightarrow> (\<forall>i. Suc i < length rows \<longrightarrow> \<not> block_covers (rows ! i) (bk_lo (rows ! Suc i)))"
  using assms
  by (induction rows rule: geo_validate.induct)
    (auto simp: block_covers_def block_ordered_def not_less nth_Cons split: nat.splits)

lemma sortBlocks_sorted [simp]: "sorted (map bk_lo (sortBlocks rows))" "set (sortBlocks rows) = set rows"
proof -
  have "sorted (map (\<lambda>b. (bk_lo b, bk_hi b)) (sortBlocks rows))" by (simp add: sortBlocks_def)
  then have "sorted_wrt (\<lambda>b c. (bk_lo b, bk_hi b) \<le> (bk_lo c, bk_hi c)) (sortBlocks rows)"
    by (simp add: sorted_map)
  then show "sorted (map bk_lo (sortBlocks rows))"
    unfolding sorted_map by (rule sorted_wrt_mono_rel [rotated]) (auto simp: less_eq_prod_simp)
qed (simp add: sortBlocks_def)

lemma validated_scan:
  assumes "geo_validate (sortBlocks rows) = None" and "list_all block_ordered rows"
  shows "geo_spans.probe (sortBlocks rows) x = List.find (\<lambda>b. block_covers b x) rows"
proof (rule geo_spans.probe_scan)
  have "list_all block_ordered (sortBlocks rows)" using assms(2) by (simp add: list_all_iff)
  then show "geo_spans.disjoint_rows (sortBlocks rows)"
    using assms(1) by (simp add: geo_spans.disjoint_rows_def geo_validate_None)
qed simp

lemma geo_Lookup_probe:
  "geo_Lookup (Some d) ip =
     (if routable (Unmap ip)
      then map_option bk_cc (geo_spans.probe (if Is4 (Unmap ip) then db_v4 d else db_v6 d) (Unmap ip))
      else None)"
  by (auto simp: geo_Lookup_def geo_spans.probe_def routable_def IsGlobalUnicast_def Unmap_def Let_def)

subsection \<open>The range of a prefix\<close>

lemma nat_of_be_snoc: "nat_of_be (bs @ [b]) = nat_of_be bs * 256 + unat b"
  by (simp add: nat_of_be_def)

lemma bit_nat_of_be:
  "bit (nat_of_be bs) k \<longleftrightarrow> k < 8 * length bs \<and> bit (bs ! (length bs - 1 - k div 8)) (k mod 8)"
proof (induction bs arbitrary: k rule: rev_induct)
  case Nil
  then show ?case by (simp add: nat_of_be_def)
next
  case (snoc b bs)
  have "nat_of_be (bs @ [b]) = or (push_bit 8 (nat_of_be bs)) (unat b)"
  proof -
    have "and (push_bit 8 (nat_of_be bs)) (unat b) = 0"
      by (rule bit_eqI) (auto simp: bit_simps dest: bit_imp_le_length)
    then have "push_bit 8 (nat_of_be bs) + unat b = or (push_bit 8 (nat_of_be bs)) (unat b)"
      by (rule disjunctive_add_eq_or)
    then show ?thesis by (simp add: nat_of_be_snoc push_bit_eq_mult)
  qed
  then have "bit (nat_of_be (bs @ [b])) k \<longleftrightarrow> 8 \<le> k \<and> bit (nat_of_be bs) (k - 8) \<or> bit b k"
    by (auto simp: bit_simps)
  also have "\<dots> \<longleftrightarrow> k < 8 * length (bs @ [b]) \<and> bit ((bs @ [b]) ! (length (bs @ [b]) - 1 - k div 8)) (k mod 8)"
  proof (cases "k < 8")
    case True
    then show ?thesis by (simp add: nth_append)
  next
    case False
    then obtain j where "k = j + 8" by (metis add.commute le_Suc_ex not_less)
    then show ?thesis using snoc [of j] bit_imp_le_length [of b k] by (auto simp: nth_append)
  qed
  finally show ?case .
qed

lemma bit_low_ones: "bit (drop_bit m 255 :: byte) j \<longleftrightarrow> j + m < 8"
proof -
  have "(255 :: byte) = - 1" by simp
  then have "bit (255 :: byte) k \<longleftrightarrow> k < 8" for k by (simp only: bit_minus_1_iff possible_bit_word) simp
  then show ?thesis by (simp add: bit_drop_bit_eq add.commute)
qed

lemma bit_host_byte:
  assumes "j < 8"
  shows "bit (host_byte n i b) j \<longleftrightarrow> bit b j \<or> j + n < 8 * (i + 1)"
proof -
  define h where "h = 8 * (int i + 1) - int n"
  have "j + n < 8 * (i + 1) \<longleftrightarrow> int j < h" unfolding h_def by (simp add: algebra_simps) linarith
  moreover have "j + nat (8 - (if h > 8 then 8 else h)) < 8 \<longleftrightarrow> int j < h" if "h > 0"
    using that assms by auto
  moreover have "host_byte n i b = (if h \<le> 0 then b else or b (drop_bit (nat (8 - (if h > 8 then 8 else h))) 255))"
    unfolding host_byte_def h_def [symmetric] Let_def by simp
  ultimately show ?thesis by (simp add: bit_or_iff bit_low_ones)
qed

lemma host_bytes_word:
  fixes w :: "'a::len word"
  assumes "LENGTH('a) = 8 * L"
  shows "of_nat (nat_of_be (map (\<lambda>i. host_byte n i (ucast (drop_bit (8 * (L - 1 - i)) w))) [0..<L])) = or w (mask (8 * L - n))"
proof (rule bit_word_eqI)
  fix k assume "k < LENGTH('a)"
  define i where "i = L - 1 - k div 8"
  have k: "k < 8 * L" "k div 8 < L" using \<open>k < LENGTH('a)\<close> assms by auto
  then have "i < L" "L - 1 - i = k div 8" "i + k div 8 + 1 = L" by (auto simp: i_def)
  moreover have "8 * (k div 8) + k mod 8 = k" by simp
  moreover have "8 * (i + 1) + k = 8 * L + r" if "i + q + 1 = L" "8 * q + r = k" for q r using that by auto
  ultimately have i: "i < L" "8 * (L - 1 - i) + k mod 8 = k" "8 * (i + 1) + k = 8 * L + k mod 8" by metis+
  have "k mod 8 + n < 8 * (i + 1) \<longleftrightarrow> k < 8 * L - n" using i(3) by linarith
  moreover have "k mod 8 < 8" "L - Suc (k div 8) = i" by (simp_all add: i_def)
  ultimately show "bit (of_nat (nat_of_be (map (\<lambda>i. host_byte n i (ucast (drop_bit (8 * (L - 1 - i)) w))) [0..<L])) :: 'a word) k
      \<longleftrightarrow> bit (or w (mask (8 * L - n))) k"
    using k i \<open>k < LENGTH('a)\<close>
    by (simp add: bit_nat_of_be bit_host_byte bit_of_nat_iff bit_or_iff bit_mask_iff bit_ucast_iff bit_drop_bit_eq)
qed

lemma map_nth_upt: "map (\<lambda>i. f i (map g [0..<m] ! i)) [0..<m] = map (\<lambda>i. f i (g i)) [0..<m]"
  by simp

lemma prefixRange_words:
  "prefixRange (Prefix4 w n) = (prefix_Addr (Masked (Prefix4 w n)), A4 (or (push_bit (32 - n) (drop_bit (32 - n) w)) (mask (32 - n))))"
  "prefixRange (Prefix6 v n) = (prefix_Addr (Masked (Prefix6 v n)), A6 (or (push_bit (128 - n) (drop_bit (128 - n) v)) (mask (128 - n))) [])"
  using host_bytes_word [where 'a = 32 and L = 4] host_bytes_word [where 'a = 128 and L = 16]
  by (simp_all add: prefixRange_def as_bytes_def AddrFromSlice_def Let_def map_nth_upt del: upt_Suc)

lemma word_le_or: "x \<le> or x (m :: 'a::len word)"
proof -
  have "x = and (or x m) x" by (rule bit_word_eqI) (auto simp: bit_simps)
  then show ?thesis by (metis word_and_le2)
qed

lemma mask_range:
  fixes x w :: "'a::len word"
  shows "push_bit k (drop_bit k w) \<le> x \<and> x \<le> or (push_bit k (drop_bit k w)) (mask k) \<longleftrightarrow> drop_bit k x = drop_bit k w"
proof
  assume "push_bit k (drop_bit k w) \<le> x \<and> x \<le> or (push_bit k (drop_bit k w)) (mask k)"
  then have "drop_bit k (push_bit k (drop_bit k w)) \<le> drop_bit k x"
    "drop_bit k x \<le> drop_bit k (or (push_bit k (drop_bit k w)) (mask k))"
    by (blast intro: drop_bit_le)+
  moreover have "drop_bit k (or (push_bit k (drop_bit k w)) (mask k)) = drop_bit k w"
    by (simp add: drop_bit_or drop_push_drop bit_eq_iff bit_simps)
  ultimately show "drop_bit k x = drop_bit k w" by (simp add: drop_push_drop)
next
  assume eq: "drop_bit k x = drop_bit k w"
  have "or (push_bit k (drop_bit k w)) (mask k) = or x (mask k)"
    unfolding eq [symmetric] by (rule bit_word_eqI) (auto simp: bit_simps)
  then have "x \<le> or (push_bit k (drop_bit k w)) (mask k)" by (simp add: word_le_or)
  then show "push_bit k (drop_bit k w) \<le> x \<and> x \<le> or (push_bit k (drop_bit k w)) (mask k)"
    using push_drop_le [of k x] eq by simp
qed

lemma range_block_covers:
  "block_covers (range_block (p, cc)) (A4 x) \<longleftrightarrow> Contains p (A4 x)"
  "block_covers (range_block (p, cc)) (A6 y []) \<longleftrightarrow> Contains p (A6 y [])"
  by (cases p; auto simp: block_covers_def range_block_def prefixRange_words drop_bit_xor mask_range order_le_less [symmetric])+

lemma range_block_ordered: "block_ordered (range_block r)"
  by (cases r; cases "fst r") (simp_all add: block_ordered_def range_block_def prefixRange_words order_le_less [symmetric] word_le_or)

subsection \<open>Whole databases\<close>

text \<open>The rows of a file in file order, none for an empty path or a file that cannot be read.\<close>

definition range_file_rows ::
    "(string \<Rightarrow> addr option) \<Rightarrow> (string \<Rightarrow> string) \<Rightarrow> geo_path \<Rightarrow> (addr \<Rightarrow> bool) \<Rightarrow> block list" where
  "range_file_rows addr up path is =
     (case path of
        Some (Some f) \<Rightarrow> (case range_rows addr up is 1 (gf_lines f) of Inl _ \<Rightarrow> [] | Inr (out, _) \<Rightarrow> out)
      | _ \<Rightarrow> [])"

definition csv_file_rows ::
    "(string \<Rightarrow> prefix option) \<Rightarrow> (string \<rightharpoonup> string) \<Rightarrow> geo_path \<Rightarrow> (addr \<Rightarrow> bool) \<Rightarrow> (prefix \<times> string) list" where
  "csv_file_rows pre locations path is =
     (case path of
        Some (Some f) \<Rightarrow> (case csv_rows pre (gf_csv f) locations is of Inl _ \<Rightarrow> [] | Inr (out, _) \<Rightarrow> out)
      | _ \<Rightarrow> [])"

lemma range_rows_ordered: "range_rows addr up is line ts = Inr (out, skipped) \<Longrightarrow> list_all block_ordered out"
proof (induction addr up "is" line ts arbitrary: out skipped rule: range_rows.induct)
  case (2 addr up "is" line t ts)
  have row: "block_ordered b" if "range_line addr up is line t = Inr (RangeRow b)" for b
    using that by (auto simp: range_line_def block_ordered_def Let_def split: if_splits option.splits list.splits)
  show ?case using "2.prems"
    by (auto split: sum.splits prod.splits range_item.splits intro: "2.IH" [simplified] row)
qed simp

text \<open>What one family of a loaded database holds: its file's rows, sorted and disjoint.\<close>

lemma assemble_family_probe:
  assumes "assemble_family read path is = Inr (rows, skipped)"
    and "\<And>f rows skipped. path = Some (Some f) \<Longrightarrow> read f is = Inr (rows, skipped)
      \<Longrightarrow> rows = sortBlocks raw \<and> list_all block_ordered raw"
    and "path = None \<Longrightarrow> raw = []"
  shows "geo_spans.probe rows x = List.find (\<lambda>b. block_covers b x) raw"
proof (cases path)
  case None
  then show ?thesis using assms(1,3) by (simp add: assemble_family_def geo_spans.probe_def BinarySearchFunc_def bsearch.simps)
next
  case (Some p)
  then obtain f where f: "p = Some f" "read f is = Inr (rows, skipped)" "geo_validate rows = None"
    using assms(1) by (auto simp: assemble_family_def split: option.splits if_splits sum.splits prod.splits)
  moreover have "rows = sortBlocks raw" "list_all block_ordered raw" using assms(2) [OF _ f(2)] Some f(1) by auto
  ultimately show ?thesis by (simp add: validated_scan)
qed

lemma assemble_parts:
  assumes "assemble now source read v4 v6 also = Inr db"
  obtains s4 s6 where "assemble_family read v4 Is4 = Inr (db_v4 db, s4)" "assemble_family read v6 Is6 = Inr (db_v6 db, s6)"
  using assms that by (auto simp: assemble_def Let_def split: sum.splits prod.splits if_splits)

text \<open>So a lookup scans the rows of the file of the address's family.\<close>

lemma assemble_Lookup:
  assumes "assemble now source read v4 v6 also = Inr db"
    and "\<And>path is f rows skipped. path = Some (Some f) \<Longrightarrow> read f is = Inr (rows, skipped)
      \<Longrightarrow> rows = sortBlocks (raw path is) \<and> list_all block_ordered (raw path is)"
    and "\<And>is. raw None is = []"
  shows "geo_Lookup (Some db) ip =
    (if routable (Unmap ip)
     then map_option bk_cc (List.find (\<lambda>b. block_covers b (Unmap ip))
       (if Is4 (Unmap ip) then raw v4 Is4 else raw v6 Is6))
     else None)"
proof -
  obtain s4 s6 where parts: "assemble_family read v4 Is4 = Inr (db_v4 db, s4)" "assemble_family read v6 Is6 = Inr (db_v6 db, s6)"
    using assemble_parts [OF assms(1)] .
  have "geo_spans.probe (db_v4 db) x = List.find (\<lambda>b. block_covers b x) (raw v4 Is4)"
    "geo_spans.probe (db_v6 db) x = List.find (\<lambda>b. block_covers b x) (raw v6 Is6)" for x
    using assms(2,3) by (auto intro: assemble_family_probe [OF parts(1)] assemble_family_probe [OF parts(2)])
  then show ?thesis by (simp add: geo_Lookup_probe)
qed

text \<open>In a database loaded from the range files, \<open>Lookup\<close> answers with the country of the file row
  that holds the address, rows scanned in file order, for every globally routable address of either
  family, and with nothing for any other address; a row that was skipped as unattributed answers
  nothing.\<close>

lemma ranges_lookup_is_scan:
  assumes "LoadRanges addr up now v4 v6 = Inr db"
  shows "geo_Lookup (Some db) ip =
    (if routable (Unmap ip)
     then map_option bk_cc (List.find (\<lambda>b. bk_lo b \<le> Unmap ip \<and> Unmap ip \<le> bk_hi b)
       (if Is4 (Unmap ip) then range_file_rows addr up v4 Is4 else range_file_rows addr up v6 Is6))
     else None)"
proof -
  have "rows = sortBlocks (range_file_rows addr up path is) \<and> list_all block_ordered (range_file_rows addr up path is)"
    if "path = Some (Some f)" "readRanges addr up f is = Inr (rows, skipped)" for path "is" f rows skipped
    using that range_rows_ordered
    by (fastforce simp: readRanges_def range_file_rows_def split: sum.splits prod.splits if_splits)
  then show ?thesis
    using assemble_Lookup [OF assms [unfolded LoadRanges_def], of "range_file_rows addr up"]
    by (simp add: range_file_rows_def block_covers_def)
qed

definition sample_addr :: "string \<Rightarrow> addr option" where
  "sample_addr s =
     (if s = ''8.0.0.0'' then Some (A4 134217728) else if s = ''8.127.0.0'' then Some (A4 142540800)
      else if s = ''9.0.0.0'' then Some (A4 150994944) else if s = ''9.9.0.0'' then Some (A4 151584768) else None)"

definition sample_file :: "string list \<Rightarrow> csv_item list \<Rightarrow> geo_file" where
  "sample_file text csv =
     \<lparr>gf_lines = text, gf_scan_failed = False, gf_csv = csv, gf_open_ok = True, gf_close_ok = True, gf_mtime = 5\<rparr>"

lemma sample_file_eq [simp]:
  "gf_lines (sample_file t c) = t" "gf_scan_failed (sample_file t c) = False" "gf_csv (sample_file t c) = c"
  "gf_open_ok (sample_file t c)" "gf_close_ok (sample_file t c)" "gf_mtime (sample_file t c) = 5"
  by (simp_all add: sample_file_def)

definition sample_ranges :: "string list" where
  "sample_ranges = [''9.0.0.0'' @ [CHR 0x09] @ ''9.9.0.0'' @ [CHR 0x09] @ ''DE'',
     ''8.0.0.0'' @ [CHR 0x09] @ ''8.127.0.0'' @ [CHR 0x09] @ ''US'']"

lemma sample_range_rows:
  "range_rows sample_addr up Is4 1 sample_ranges =
     Inr ([\<lparr>bk_lo = A4 150994944, bk_hi = A4 151584768, bk_cc = ''DE''\<rparr>, \<lparr>bk_lo = A4 134217728, bk_hi = A4 142540800, bk_cc = ''US''\<rparr>], 0)"
proof -
  have words: "TrimSpace s = s" if "s \<in> {''9.0.0.0'', ''9.9.0.0'', ''DE'', ''8.0.0.0'', ''8.127.0.0'', ''US''}" for s
    using that by (intro TrimSpace_visible) (auto simp: visible_def char_byte_def)
  have "TrimSpace (''9.0.0.0'' @ [CHR 0x09] @ ''9.9.0.0'' @ [CHR 0x09] @ ''DE'') \<noteq> []"
    "TrimSpace (''8.0.0.0'' @ [CHR 0x09] @ ''8.127.0.0'' @ [CHR 0x09] @ ''US'') \<noteq> []"
    by (subst TrimSpace_ends; simp add: visible_def char_byte_def)+
  then show ?thesis
    by (simp add: sample_ranges_def range_line_def cut_comment_def words sample_addr_def Unmap_def Is4_def
        Canonical_def ToUpper_def is_ascii_def char_byte_def ascii_upper_def is_upper_letter_def ccUnattributed_def)
qed

lemma find_map_block: "map_option bk_cc (List.find (\<lambda>b. block_covers b x) (map range_block rows))
    = map_option snd (List.find (\<lambda>r. block_covers (range_block r) x) rows)"
  by (induction rows) (auto simp: range_block_def split: prod.splits)

text \<open>C32: In a database loaded from the MaxMind files, whose prefixes are stored as address ranges,
  \<open>LookupAddr\<close> answers for a four- or sixteen-byte address with the country of the block row, in file
  order, whose prefix contains the address: turning prefixes into ranges loses and adds nothing.\<close>

theorem csv_lookup_is_scan:
  assumes "geo_Load pre up now locs v4 v6 = Inr db" and "loadLocations up locs = Inr locations"
    and "AddrFromSlice b = Some a"
  shows "LookupAddr (Some db) b =
    (if routable (Unmap a)
     then map_option snd (List.find (\<lambda>(p, cc). Contains p (Unmap a))
       (if Is4 (Unmap a) then csv_file_rows pre locations v4 Is4 else csv_file_rows pre locations v6 Is6))
     else None)"
proof -
  have load: "assemble now SourceMaxMind (readBlocks pre locations) v4 v6 [Some locs] = Inr db"
    using assms(1,2) by (simp add: geo_Load_def)
  define raw where "raw = (\<lambda>path is. map range_block (csv_file_rows pre locations path is))"
  have read: "rows = sortBlocks (raw path is) \<and> list_all block_ordered (raw path is)"
    if "path = Some (Some f)" "readBlocks pre locations f is = Inr (rows, skipped)" for path "is" f rows skipped
    using that by (auto simp: raw_def readBlocks_def csv_file_rows_def list_all_iff range_block_ordered split: sum.splits prod.splits)
  have "(\<exists>w. Unmap a = A4 w) \<or> (\<exists>z. Unmap a = A6 z [])"
    using assms(3) by (auto simp: AddrFromSlice_def Unmap_def split: if_splits)
  then have "(\<lambda>r. block_covers (range_block r) (Unmap a)) = (\<lambda>(p, cc). Contains p (Unmap a))"
    by (auto simp: range_block_covers)
  then show ?thesis
    using assemble_Lookup [OF load, of raw] read assms(3)
    by (simp add: LookupAddr_def raw_def find_map_block csv_file_rows_def if_distrib)
qed

definition sample_locations :: "csv_item list" where
  "sample_locations = [CsvRecord [bom @ ''geoname_id'', ''country_iso_code''], CsvRecord [''1'', ''US''], CsvRecord [''2'', ''DE'']]"

definition sample_blocks :: "csv_item list" where
  "sample_blocks = [CsvRecord [''network'', ''geoname_id'', ''registered_country_geoname_id''],
     CsvRecord [''9.9.9.0/24'', '''', ''2''], CsvRecord [''8.0.0.0/9'', ''1'', '''']]"

lemma sample_columns:
  "geo_column [bom @ ''geoname_id'', ''country_iso_code''] ''geoname_id'' = Inr 0"
  "geo_column [bom @ ''geoname_id'', ''country_iso_code''] ''country_iso_code'' = Inr 1"
  "geo_column [''network'', ''geoname_id'', ''registered_country_geoname_id''] ''network'' = Inr 0"
  "geo_column [''network'', ''geoname_id'', ''registered_country_geoname_id''] ''geoname_id'' = Inr 1"
  "geo_column [''network'', ''geoname_id'', ''registered_country_geoname_id''] ''registered_country_geoname_id'' = Inr 2"
proof -
  have words: "TrimSpace s = s"
    if "s \<in> {''geoname_id'', ''country_iso_code'', ''network'', ''registered_country_geoname_id''}" for s
    using that by (intro TrimSpace_visible) (auto simp: visible_def char_byte_def)
  show "geo_column [bom @ ''geoname_id'', ''country_iso_code''] ''geoname_id'' = Inr 0"
    "geo_column [bom @ ''geoname_id'', ''country_iso_code''] ''country_iso_code'' = Inr 1"
    "geo_column [''network'', ''geoname_id'', ''registered_country_geoname_id''] ''network'' = Inr 0"
    "geo_column [''network'', ''geoname_id'', ''registered_country_geoname_id''] ''geoname_id'' = Inr 1"
    "geo_column [''network'', ''geoname_id'', ''registered_country_geoname_id''] ''registered_country_geoname_id'' = Inr 2"
    by (simp_all add: geo_column_def TrimPrefix_def bom_def words)
qed

lemma sample_load_locations:
  "loadLocations up (Some (sample_file [] sample_locations)) = Inr [''1'' \<mapsto> ''US'', ''2'' \<mapsto> ''DE'']"
proof -
  have words: "TrimSpace s = s" if "s \<in> {''US'', ''DE''}" for s
    using that by (intro TrimSpace_visible) (auto simp: visible_def char_byte_def)
  show ?thesis
    by (simp add: loadLocations_def sample_file_def readLocations_def sample_locations_def sample_columns words
        Canonical_def ToUpper_def is_ascii_def char_byte_def ascii_upper_def is_upper_letter_def fun_upd_twist)
qed

lemma sample_csv_rows:
  "csv_rows sample_prefix sample_blocks [''1'' \<mapsto> ''US'', ''2'' \<mapsto> ''DE''] Is4 =
     Inr ([(Prefix4 151587072 24, ''DE''), (Prefix4 134217728 9, ''US'')], 0)"
proof -
  have words: "TrimSpace s = s" if "s \<in> {''9.9.9.0/24'', ''8.0.0.0/9''}" for s
    using that by (intro TrimSpace_visible) (auto simp: visible_def char_byte_def)
  show ?thesis
    by (simp add: csv_rows_def sample_blocks_def sample_columns block_row_def block_cc_def words sample_prefix_def Is4_def)
qed

theorem csv_lookup_is_scan_witness:
  "\<exists>db. geo_Load sample_prefix (\<lambda>s. s) 7 (Some (sample_file [] sample_locations)) (Some (Some (sample_file [] sample_blocks))) None = Inr db
     \<and> LookupAddr (Some db) [8, 8, 8, 8] = Some ''US''"
proof (intro exI conjI)
  let ?us = "\<lparr>bk_lo = A4 134217728, bk_hi = A4 142606335, bk_cc = ''US''\<rparr>"
  let ?de = "\<lparr>bk_lo = A4 151587072, bk_hi = A4 151587327, bk_cc = ''DE''\<rparr>"
  let ?db = "\<lparr>db_v4 = [?us, ?de], db_v6 = [], db_Source = SourceMaxMind, db_BuiltAt = 5, db_Stale = False, db_Skipped = 0\<rparr>"
  have blocks: "range_block (Prefix4 151587072 24, ''DE'') = ?de" "range_block (Prefix4 134217728 9, ''US'') = ?us"
    by (simp_all add: range_block_def prefixRange_words drop_bit_eq_div push_bit_eq_mult mask_eq_exp_minus_1)
  show load: "geo_Load sample_prefix (\<lambda>s. s) 7 (Some (sample_file [] sample_locations)) (Some (Some (sample_file [] sample_blocks))) None = Inr ?db"
    by (simp add: geo_Load_def sample_load_locations assemble_def assemble_family_def readBlocks_def
        sample_csv_rows blocks sortBlocks_def geo_plausible_def newestModTime_def geo_StaleAfter_def less_eq_prod_simp)
  have "AddrFromSlice [8, 8, 8, 8] = Some (A4 134744072)" by (simp add: AddrFromSlice_def nat_of_be_def)
  from csv_lookup_is_scan [OF load sample_load_locations this]
  show "LookupAddr (Some ?db) [8, 8, 8, 8] = Some ''US''"
    by (simp add: csv_file_rows_def sample_csv_rows routable_def Unmap_def IsGlobalUnicast_def
        IsLoopback_def IsMulticast_def IsLinkLocalUnicast_def IsPrivate_def octet_def drop_bit_eq_div drop_bit_xor Is4_def)
qed

end
