(* ===== verification/Manifest.thy ===== *)
theory Manifest
  imports Policy Hashes Text
begin

text \<open>
  Signed release manifests (\<open>core/update/manifest.go\<close>, \<open>verify.go\<close>, \<open>sign.go\<close>, \<open>anchor.go\<close>) and the
  atomic file write of \<open>core/atomicfile\<close>. The Ed25519 operations and the JSON codecs are parameters;
  the digest is SHA-256 of theory \<open>Hashes\<close>.
\<close>

section \<open>Atomic writes (core/atomicfile)\<close>

text \<open>
  The outcomes of one write's system calls. The staged file has a fresh name, so the only thing a
  reader can see change is the file itself, in one rename.
\<close>

record write_io =
  wi_create :: bool
  wi_write :: bool
  wi_chmod :: bool
  wi_sync :: bool
  wi_close :: bool
  wi_rename :: bool
  wi_dirsync :: bool

datatype write_error = WStage | WWrite | WInstall | WSyncDir

definition atomic_fill :: "write_io \<Rightarrow> bool" where
  "atomic_fill io \<longleftrightarrow> wi_write io \<and> wi_chmod io \<and> wi_sync io"

definition atomic_Write :: "write_io \<Rightarrow> 'c \<Rightarrow> 'c \<Rightarrow> write_error option \<times> 'c" where
  "atomic_Write io b old =
     (if \<not> wi_create io then (Some WStage, old)
      else if \<not> atomic_fill io then (Some WWrite, old)
      else if \<not> wi_close io then (Some WWrite, old)
      else if \<not> wi_rename io then (Some WInstall, old)
      else (None, b))"

definition atomic_WriteDurable :: "write_io \<Rightarrow> 'c \<Rightarrow> 'c \<Rightarrow> write_error option \<times> 'c" where
  "atomic_WriteDurable io b old =
     (case atomic_Write io b old of
        (Some err, c) \<Rightarrow> (Some err, c)
      | (None, c) \<Rightarrow> (if wi_dirsync io then None else Some WSyncDir, c))"

text \<open>Whatever fails, the file holds the old content or the new one; a clean write holds the new.\<close>

lemma atomic_Write_cases:
  "snd (atomic_Write io b old) \<in> {old, b}" "fst (atomic_Write io b old) = None \<Longrightarrow> snd (atomic_Write io b old) = b"
  "fst (atomic_Write io b old) \<noteq> None \<Longrightarrow> snd (atomic_Write io b old) = old"
  by (auto simp: atomic_Write_def)

lemma atomic_WriteDurable_cases:
  "snd (atomic_WriteDurable io b old) = snd (atomic_Write io b old)"
  "fst (atomic_WriteDurable io b old) = None \<Longrightarrow> snd (atomic_WriteDurable io b old) = b"
  by (auto simp: atomic_WriteDurable_def atomic_Write_def split: if_splits)

definition io_fine :: write_io where
  "io_fine = \<lparr>wi_create = True, wi_write = True, wi_chmod = True, wi_sync = True, wi_close = True, wi_rename = True, wi_dirsync = True\<rparr>"

section \<open>The manifest (manifest.go)\<close>

definition manifest_Version :: int where "manifest_Version = 1"

definition MaxArtifactBytes :: int where "MaxArtifactBytes = 512 * 2 ^ 20"

definition artifact_roles :: "string list" where
  "artifact_roles = [''node'', ''coordinator'', ''netd'', ''client'']"

datatype update_error =
  UDelegation delegation_error | UManifestSignature delegation_error
| UUnsupportedVersion int | UMalformed | UInvalid | UInvalidRelease release_error
| UNotYetIssued | UExpired | URollback uint64 uint64 | UNoArtifact | UHashMismatch | USizeMismatch
| UReadArtifact | UKeySize nat | UNoAnchor | UAnchorHex | UAnchorSize nat

record artifact =
  ar_OS :: string
  ar_Arch :: string
  ar_Role :: string
  ar_Size :: int
  ar_SHA256 :: bytes

definition artifact_Name :: "artifact \<Rightarrow> string" where
  "artifact_Name a = hex_encode (ar_SHA256 a)"

definition artifact_Matches :: "artifact \<Rightarrow> string \<Rightarrow> string \<Rightarrow> string \<Rightarrow> bool" where
  "artifact_Matches a goos goarch role \<longleftrightarrow> ar_OS a = goos \<and> ar_Arch a = goarch \<and> ar_Role a = role"

record manifest =
  mf_Version :: int
  mf_Seq :: uint64
  mf_Release :: string
  mf_Issued :: time
  mf_Expires :: time
  mf_Note :: string
  mf_Artifacts :: "artifact list"

definition manifest_Find :: "manifest \<Rightarrow> string \<Rightarrow> string \<Rightarrow> string \<Rightarrow> update_error + artifact" where
  "manifest_Find m goos goarch role =
     (case List.find (\<lambda>a. artifact_Matches a goos goarch role) (mf_Artifacts m) of
        None \<Rightarrow> Inl UNoArtifact
      | Some a \<Rightarrow> Inr a)"

definition token_char :: "char \<Rightarrow> bool" where
  "token_char c \<longleftrightarrow> 97 \<le> char_byte c \<and> char_byte c \<le> 122 \<or> 48 \<le> char_byte c \<and> char_byte c \<le> 57 \<or> c = CHR ''_''"

definition checkToken :: "string \<Rightarrow> update_error option" where
  "checkToken s =
     (if s = [] then Some UInvalid
      else if length s > 32 then Some UInvalid
      else if \<not> list_all token_char s then Some UInvalid
      else None)"

definition sha256_Size :: nat where "sha256_Size = 32"

text \<open>The loop over the rows with the set of builds already seen.\<close>

fun validate_artifacts :: "(string \<times> string \<times> string) list \<Rightarrow> artifact list \<Rightarrow> update_error option" where
  "validate_artifacts seen [] = None"
| "validate_artifacts seen (a # rest) =
     (case checkToken (ar_OS a) of
        Some err \<Rightarrow> Some err
      | None \<Rightarrow>
        (case checkToken (ar_Arch a) of
           Some err \<Rightarrow> Some err
         | None \<Rightarrow>
             if ar_Role a \<notin> set artifact_roles then Some UInvalid
             else if ar_Size a \<le> 0 then Some UInvalid
             else if ar_Size a > MaxArtifactBytes then Some UInvalid
             else if length (ar_SHA256 a) \<noteq> sha256_Size then Some UInvalid
             else if (ar_OS a, ar_Arch a, ar_Role a) \<in> set seen then Some UInvalid
             else validate_artifacts ((ar_OS a, ar_Arch a, ar_Role a) # seen) rest))"

definition manifest_Validate :: "manifest \<Rightarrow> update_error option" where
  "manifest_Validate m =
     (if mf_Version m \<noteq> manifest_Version then Some (UUnsupportedVersion (mf_Version m))
      else if mf_Seq m = 0 then Some UInvalid
      else case checkRelease (mf_Release m) of
             Some err \<Rightarrow> Some (UInvalidRelease err)
           | None \<Rightarrow>
               if mf_Issued m = zero_time \<or> mf_Expires m = zero_time then Some UInvalid
               else if \<not> mf_Issued m < mf_Expires m then Some UInvalid
               else if mf_Artifacts m = [] then Some UInvalid
               else validate_artifacts [] (mf_Artifacts m))"

section \<open>Verification (verify.go)\<close>

record update_bundle =
  ub_Manifest :: bytes
  ub_Cert :: bytes

text \<open>The signature check, and the decoders of a certificate, a bundle and a manifest.\<close>

record update_env =
  ue_verify :: "bytes \<Rightarrow> bytes \<Rightarrow> bytes \<Rightarrow> bool"
  ue_cert :: "bytes \<Rightarrow> cert option"
  ue_bundle :: "bytes \<Rightarrow> update_bundle option"
  ue_manifest :: "bytes \<Rightarrow> manifest option"

definition update_ParseBundle :: "update_env \<Rightarrow> bytes \<Rightarrow> update_error + update_bundle" where
  "update_ParseBundle env data =
     (case ue_bundle env data of
        None \<Rightarrow> Inl UMalformed
      | Some b \<Rightarrow> if ub_Manifest b = [] \<or> ub_Cert b = [] then Inl UMalformed else Inr b)"

record update_verifier =
  uv_rootPub :: bytes
  uv_revoked :: "string \<Rightarrow> bool"

definition update_NewVerifier :: "bytes \<Rightarrow> (string \<Rightarrow> bool) option \<Rightarrow> update_error + update_verifier" where
  "update_NewVerifier rootPub revoked =
     (if length rootPub \<noteq> PublicKeySize then Inl (UDelegation DNoRoot)
      else Inr \<lparr>uv_rootPub = rootPub, uv_revoked = (case revoked of None \<Rightarrow> (\<lambda>_. False) | Some f \<Rightarrow> f)\<rparr>)"

definition update_Verify ::
    "update_env \<Rightarrow> update_verifier \<Rightarrow> update_bundle \<Rightarrow> time \<Rightarrow> uint64 \<Rightarrow> update_error + manifest" where
  "update_Verify env v b now minSeq =
     (case VerifyDelegationCert (ue_verify env) (ue_cert env) (uv_rootPub v) (ub_Cert b) RoleUpdate now (Some (uv_revoked v)) of
        Inl err \<Rightarrow> Inl (UDelegation err)
      | Inr c \<Rightarrow>
        (case OpenSigned (ue_verify env) (dc_Pub c) TagUpdateManifest (ub_Manifest b) of
           Inl err \<Rightarrow> Inl (if err = DMalformed then UMalformed else UManifestSignature err)
         | Inr body \<Rightarrow>
           (case ue_manifest env body of
              None \<Rightarrow> Inl UMalformed
            | Some m \<Rightarrow>
              (case manifest_Validate m of
                 Some err \<Rightarrow> Inl err
               | None \<Rightarrow>
                   if now < mf_Issued m - ClockSkew then Inl UNotYetIssued
                   else if \<not> now < mf_Expires m then Inl UExpired
                   else if mf_Seq m < minSeq then Inl (URollback (mf_Seq m) minSeq)
                   else Inr m))))"

text \<open>
  \<open>LimitReader\<close> reads at most one byte more than the size, whose increment wraps, and nothing when
  the limit is not positive. A failed read is an absent content.
\<close>

definition VerifyArtifact :: "artifact \<Rightarrow> bytes option \<Rightarrow> update_error option" where
  "VerifyArtifact a content =
     (case content of
        None \<Rightarrow> Some UReadArtifact
      | Some bs \<Rightarrow>
          (let read = take (nat (wrap64 (ar_Size a + 1))) bs
           in if int (length read) \<noteq> ar_Size a then Some USizeMismatch
              else if sha256 read \<noteq> ar_SHA256 a then Some UHashMismatch
              else None))"

section \<open>Signing (sign.go)\<close>

definition PrivateKeySize :: nat where "PrivateKeySize = 64"

text \<open>
  \<open>sign\<close> is \<open>ed25519.Sign\<close>, \<open>marshal\<close> and \<open>unmarshal\<close> are the JSON codec of a manifest, and \<open>known\<close>
  says that the decoder with \<open>DisallowUnknownFields\<close> takes a body.
\<close>

definition SignBody ::
    "(bytes \<Rightarrow> bytes \<Rightarrow> bytes) \<Rightarrow> (bytes \<Rightarrow> manifest option) \<Rightarrow> (bytes \<Rightarrow> bool) \<Rightarrow> bytes \<Rightarrow> bytes \<Rightarrow> update_error + bytes" where
  "SignBody sign unmarshal known priv body =
     (if length priv \<noteq> PrivateKeySize then Inl (UKeySize (length priv))
      else case unmarshal body of
             None \<Rightarrow> Inl UMalformed
           | Some m \<Rightarrow>
               (case manifest_Validate m of
                  Some err \<Rightarrow> Inl err
                | None \<Rightarrow>
                    if \<not> known body then Inl UInvalid
                    else Inr (body @ sign priv (signingMessage TagUpdateManifest body))))"

definition update_Sign ::
    "(bytes \<Rightarrow> bytes \<Rightarrow> bytes) \<Rightarrow> (manifest \<Rightarrow> bytes) \<Rightarrow> (bytes \<Rightarrow> bool) \<Rightarrow> bytes \<Rightarrow> manifest \<Rightarrow> update_error + bytes" where
  "update_Sign sign marshal known priv m =
     (if length priv \<noteq> PrivateKeySize then Inl (UKeySize (length priv))
      else case manifest_Validate m of
             Some err \<Rightarrow> Inl err
           | None \<Rightarrow>
               (let body = marshal m
                in if \<not> known body then Inl UInvalid
                   else Inr (body @ sign priv (signingMessage TagUpdateManifest body))))"

section \<open>The anchor (anchor.go)\<close>

definition ParseAnchor :: "(string \<Rightarrow> bytes option) \<Rightarrow> string \<Rightarrow> update_error + bytes" where
  "ParseAnchor hex s =
     (let s = TrimSpace s
      in if s = [] then Inl UNoAnchor
         else case hex s of
                None \<Rightarrow> Inl UAnchorHex
              | Some b \<Rightarrow> if length b \<noteq> PublicKeySize then Inl (UAnchorSize (length b)) else Inr b)"

definition update_Stamped :: "string \<Rightarrow> bool" where
  "update_Stamped rootPubHex \<longleftrightarrow> TrimSpace rootPubHex \<noteq> []"

definition AnchorFingerprint :: "bytes \<Rightarrow> string" where
  "AnchorFingerprint pub = (if length pub \<noteq> PublicKeySize then ''none'' else hex_encode (take 4 (sha256 pub)))"

section \<open>What verifies\<close>

definition well_formed_artifact :: "artifact \<Rightarrow> bool" where
  "well_formed_artifact a \<longleftrightarrow> checkToken (ar_OS a) = None \<and> checkToken (ar_Arch a) = None \<and> ar_Role a \<in> set artifact_roles
     \<and> 0 < ar_Size a \<and> ar_Size a \<le> MaxArtifactBytes \<and> length (ar_SHA256 a) = sha256_Size"

definition artifact_key :: "artifact \<Rightarrow> string \<times> string \<times> string" where
  "artifact_key a = (ar_OS a, ar_Arch a, ar_Role a)"

lemma validate_artifacts_None:
  "validate_artifacts seen as = None \<longleftrightarrow>
     list_all well_formed_artifact as \<and> distinct (map artifact_key as) \<and> set (map artifact_key as) \<inter> set seen = {}"
  by (induction seen as rule: validate_artifacts.induct)
    (auto simp: well_formed_artifact_def artifact_key_def split: option.splits)

lemma manifest_Validate_None:
  "manifest_Validate m = None \<longleftrightarrow>
     mf_Version m = manifest_Version \<and> mf_Seq m \<noteq> 0 \<and> checkRelease (mf_Release m) = None
     \<and> mf_Issued m \<noteq> zero_time \<and> mf_Expires m \<noteq> zero_time \<and> mf_Issued m < mf_Expires m \<and> mf_Artifacts m \<noteq> []
     \<and> list_all well_formed_artifact (mf_Artifacts m) \<and> distinct (map artifact_key (mf_Artifacts m))"
  by (auto simp: manifest_Validate_def validate_artifacts_None split: option.splits)

text \<open>A verified file is, byte for byte, one of the size and digest of its row.\<close>

definition artifact_bytes :: "artifact \<Rightarrow> bytes \<Rightarrow> bool" where
  "artifact_bytes a bs \<longleftrightarrow> int (length bs) = ar_Size a \<and> sha256 bs = ar_SHA256 a"

lemma limit_reader:
  fixes s :: int
  assumes "s = int (min n (nat (wrap64 (s + 1))))"
  shows "int n = s" and "n \<le> nat (wrap64 (s + 1))"
proof -
  have "wrap64 (s + 1) \<le> max_int64" unfolding wrap64_def max_int64_def by simp
  moreover have "wrap64 (max_int64 + 1) < 0" unfolding wrap64_def max_int64_def by simp
  moreover have s: "0 \<le> s" "s \<le> int (nat (wrap64 (s + 1)))" using assms by linarith+
  moreover have "0 < max_int64" by (simp add: max_int64_def)
  moreover have "s \<noteq> max_int64"
  proof
    assume "s = max_int64"
    then have "wrap64 (s + 1) < 0" using calculation by simp
    then show False using s \<open>s = max_int64\<close> \<open>0 < max_int64\<close> by simp
  qed
  ultimately have "s < max_int64" by linarith
  then have "wrap64 (s + 1) = s + 1" using s(1) by (intro wrap64_in_range) (auto simp: min_int64_def)
  then show "int n = s" "n \<le> nat (wrap64 (s + 1))" using assms s(1) by linarith+
qed

lemma VerifyArtifact_sound:
  assumes "VerifyArtifact a (Some bs) = None"
  shows "artifact_bytes a bs"
proof -
  have size: "ar_Size a = int (min (length bs) (nat (wrap64 (ar_Size a + 1))))"
    and sum: "sha256 (take (nat (wrap64 (ar_Size a + 1))) bs) = ar_SHA256 a"
    using assms by (auto simp: VerifyArtifact_def Let_def split: if_splits)
  then show ?thesis using limit_reader [OF size] by (simp add: artifact_bytes_def)
qed

lemma VerifyArtifact_complete:
  assumes "artifact_bytes a bs" and "ar_Size a \<le> MaxArtifactBytes"
  shows "VerifyArtifact a (Some bs) = None"
proof -
  have "wrap64 (ar_Size a + 1) = ar_Size a + 1"
    using assms by (intro wrap64_in_range) (auto simp: artifact_bytes_def MaxArtifactBytes_def min_int64_def max_int64_def)
  then show ?thesis using assms by (auto simp: VerifyArtifact_def Let_def artifact_bytes_def)
qed

text \<open>What it takes for a bundle to be accepted: the whole chain from the root to the row.\<close>

definition release_authorised :: "update_env \<Rightarrow> update_verifier \<Rightarrow> update_bundle \<Rightarrow> time \<Rightarrow> manifest \<Rightarrow> bool" where
  "release_authorised env v b now m \<longleftrightarrow>
     (\<exists>c body. VerifyDelegationCert (ue_verify env) (ue_cert env) (uv_rootPub v) (ub_Cert b) RoleUpdate now
          (Some (uv_revoked v)) = Inr c
        \<and> signed_by (ue_verify env) (dc_Pub c) TagUpdateManifest (ub_Manifest b) body \<and> ue_manifest env body = Some m)
     \<and> manifest_Validate m = None \<and> mf_Issued m - ClockSkew \<le> now \<and> now < mf_Expires m"

lemma update_Verify_Inr:
  "update_Verify env v b now minSeq = Inr m \<longleftrightarrow> release_authorised env v b now m \<and> minSeq \<le> mf_Seq m"
proof
  assume "update_Verify env v b now minSeq = Inr m"
  then show "release_authorised env v b now m \<and> minSeq \<le> mf_Seq m"
    by (fastforce simp: update_Verify_def release_authorised_def OpenSigned_Inr [symmetric] split: sum.splits option.splits if_splits)
next
  assume "release_authorised env v b now m \<and> minSeq \<le> mf_Seq m"
  then show "update_Verify env v b now minSeq = Inr m"
    by (auto simp: update_Verify_def release_authorised_def OpenSigned_Inr [symmetric])
qed

end
