(* ===== verification/Updater.thy ===== *)
theory Updater
  imports Manifest
begin

text \<open>
  The self-updater of \<open>core/update\<close> (\<open>state.go\<close>, \<open>apply.go\<close>, \<open>updater.go\<close>, \<open>source.go\<close>): the state file
  with the rollback floor, staging, the two renames of an apply, the confirmation marker and the
  startup watchdog. The files beside the target are the record \<open>update_fs\<close>. An operation gets the
  outcomes of its system calls and returns its result and the list of file states it goes through;
  a crash leaves the files in one of them. Temporary files are invisible to every reader.
\<close>

section \<open>Files\<close>

record marker =
  mk_Release :: string
  mk_Previous :: string
  mk_Artifact :: string
  mk_Started :: bool

datatype marker_file = NoMarker | BadMarker | MarkerFile marker

record pending =
  pd_Release :: string
  pd_Seq :: uint64
  pd_Artifact :: artifact
  pd_Staged :: string

record state_doc =
  sd_Version :: int
  sd_MinSeq :: uint64
  sd_AppliedRelease :: string
  sd_Pending :: "pending option"

datatype state_file = NoState | BadState | StateFile state_doc

text \<open>The target, the previous binary and the marker beside it, staged files by path, the state file.\<close>

record update_fs =
  uf_target :: "bytes option"
  uf_prev :: "bytes option"
  uf_marker :: marker_file
  uf_staged :: "string \<rightharpoonup> bytes"
  uf_state :: state_file

definition final :: "update_fs \<Rightarrow> update_fs list \<Rightarrow> update_fs" where
  "final fs ts = last (fs # ts)"

datatype apply_error =
  AVerify update_error | AMarker write_error | AMoveAside | AStat | APublish | APublishRestore
| AReadMarker | AClearMarker | ADemote | ADemoted string | ANoPending
| AStateRead | AStateParse | AStateVersion int | AStateWrite write_error
| AUnstamped | ACurrentRelease version_error | AFetchManifest | AStaging | AFetchArtifact | ADownload

section \<open>The state file (state.go)\<close>

definition stateVersion :: int where "stateVersion = 1"

definition zero_state :: state_doc where
  "zero_state = \<lparr>sd_Version = 0, sd_MinSeq = 0, sd_AppliedRelease = [], sd_Pending = None\<rparr>"

definition state_read :: "bool \<Rightarrow> state_file \<Rightarrow> state_doc \<times> apply_error option" where
  "state_read readable f =
     (if \<not> readable then (zero_state, Some AStateRead)
      else case f of
             NoState \<Rightarrow> (zero_state, None)
           | BadState \<Rightarrow> (zero_state, Some AStateParse)
           | StateFile d \<Rightarrow>
               if sd_Version d \<noteq> stateVersion
               then (zero_state\<lparr>sd_MinSeq := sd_MinSeq d\<rparr>, Some (AStateVersion (sd_Version d)))
               else (d, None))"

definition state_Load :: "bool \<Rightarrow> state_file \<Rightarrow> uint64 \<times> pending option \<times> apply_error option" where
  "state_Load readable f =
     (case state_read readable f of
        (d, Some err) \<Rightarrow> (sd_MinSeq d, None, Some err)
      | (d, None) \<Rightarrow> (sd_MinSeq d, sd_Pending d, None))"

text \<open>The outcomes of one read and one write of the state file.\<close>

record state_io =
  si_read :: bool
  si_write :: write_io

definition state_write :: "state_io \<Rightarrow> state_doc \<Rightarrow> bool \<Rightarrow> state_file \<Rightarrow> apply_error option \<times> state_file" where
  "state_write io d raisesFloor f =
     (let b = StateFile (d\<lparr>sd_Version := stateVersion\<rparr>);
          (err, f') = (if raisesFloor then atomic_WriteDurable (si_write io) b f else atomic_Write (si_write io) b f)
      in (map_option AStateWrite err, f'))"

definition RaiseFloor :: "state_io \<Rightarrow> uint64 \<Rightarrow> state_file \<Rightarrow> apply_error option \<times> state_file" where
  "RaiseFloor io seq f =
     (let (d, _) = state_read (si_read io) f;
          raises = (seq > sd_MinSeq d)
      in state_write io (if raises then d\<lparr>sd_MinSeq := seq\<rparr> else d) raises f)"

definition SetPending :: "state_io \<Rightarrow> pending \<Rightarrow> state_file \<Rightarrow> apply_error option \<times> state_file" where
  "SetPending io p f =
     (let (d, _) = state_read (si_read io) f;
          raises = (pd_Seq p > sd_MinSeq d);
          d = (if raises then d\<lparr>sd_MinSeq := pd_Seq p\<rparr> else d)
      in state_write io (d\<lparr>sd_Pending := Some p\<rparr>) raises f)"

definition ClearPending :: "state_io \<Rightarrow> string \<Rightarrow> state_file \<Rightarrow> apply_error option \<times> state_file" where
  "ClearPending io appliedRelease f =
     (let (d, _) = state_read (si_read io) f;
          d = d\<lparr>sd_Pending := None\<rparr>
      in state_write io (if appliedRelease \<noteq> [] then d\<lparr>sd_AppliedRelease := appliedRelease\<rparr> else d) False f)"

section \<open>Markers (state.go, apply.go)\<close>

definition zero_marker :: marker where
  "zero_marker = \<lparr>mk_Release = [], mk_Previous = [], mk_Artifact = [], mk_Started = False\<rparr>"

definition writeMarker :: "write_io \<Rightarrow> marker \<Rightarrow> update_fs \<Rightarrow> write_error option \<times> update_fs" where
  "writeMarker io m fs =
     (let (err, f) = atomic_WriteDurable io (MarkerFile m) (uf_marker fs) in (err, fs\<lparr>uf_marker := f\<rparr>))"

definition readMarker :: "bool \<Rightarrow> update_fs \<Rightarrow> apply_error + marker option" where
  "readMarker readable fs =
     (if \<not> readable then Inl AReadMarker
      else case uf_marker fs of
             NoMarker \<Rightarrow> Inr None
           | BadMarker \<Rightarrow> Inr (Some zero_marker)
           | MarkerFile m \<Rightarrow> Inr (Some m))"

text \<open>\<open>removed\<close> says that the removal of the marker succeeded.\<close>

definition removeMarker :: "bool \<Rightarrow> update_fs \<Rightarrow> update_fs" where
  "removeMarker removed fs = (if removed then fs\<lparr>uf_marker := NoMarker\<rparr> else fs)"

definition clearMarker :: "bool \<Rightarrow> update_fs \<Rightarrow> apply_error option \<times> update_fs list" where
  "clearMarker removed fs =
     (if removed \<or> uf_marker fs = NoMarker then (None, [fs\<lparr>uf_marker := NoMarker\<rparr>]) else (Some AClearMarker, []))"

definition Confirm :: "bool \<Rightarrow> bool \<Rightarrow> update_fs \<Rightarrow> apply_error option \<times> update_fs list" where
  "Confirm readable removed fs =
     (case readMarker readable fs of
        Inl err \<Rightarrow> (Some err, [])
      | Inr None \<Rightarrow> (None, [])
      | Inr (Some m) \<Rightarrow> if \<not> mk_Started m then (None, []) else clearMarker removed fs)"

record startup_io =
  su_read :: bool
  su_prev_stat :: bool
  su_claim :: write_io
  su_rename :: bool
  su_remove :: bool

definition CheckStartup :: "startup_io \<Rightarrow> update_fs \<Rightarrow> apply_error option \<times> update_fs list" where
  "CheckStartup io fs =
     (case readMarker (su_read io) fs of
        Inl err \<Rightarrow> (Some err, [])
      | Inr None \<Rightarrow> (None, [])
      | Inr (Some m) \<Rightarrow>
          if uf_prev fs = None \<or> \<not> su_prev_stat io then clearMarker (su_remove io) fs
          else if \<not> mk_Started m
          then (let (err, fs') = writeMarker (su_claim io) (m\<lparr>mk_Started := True\<rparr>) fs in (map_option AMarker err, [fs']))
          else if \<not> su_rename io then (Some ADemote, [])
          else
            (let fs1 = fs\<lparr>uf_target := uf_prev fs, uf_prev := None\<rparr>;
                 (err, ts) = clearMarker (su_remove io) fs1
             in (case err of None \<Rightarrow> Some (ADemoted (mk_Release m)) | Some err \<Rightarrow> Some err, fs1 # ts)))"

section \<open>Staging and applying (apply.go)\<close>

text \<open>The target is its directory and its base name.\<close>

record update_target =
  ut_dir :: string
  ut_base :: string

definition target_path :: "update_target \<Rightarrow> string" where
  "target_path t = ut_dir t @ ''/'' @ ut_base t"

definition StagedPath :: "update_target \<Rightarrow> artifact \<Rightarrow> string" where
  "StagedPath t a = ut_dir t @ ''/.'' @ ut_base t @ ''-'' @ artifact_Name a @ ''.staged''"

definition PreviousPath :: "update_target \<Rightarrow> string" where
  "PreviousPath t = target_path t @ ''.prev''"

text \<open>
  What a download does: the stream served, whether the copy and the other calls succeed, and what
  the written file holds when it is read back.
\<close>

record stage_in =
  sg_create :: bool
  sg_served :: "bytes option"
  sg_copy :: bool
  sg_close :: bool
  sg_file :: bool
  sg_disk :: "bytes option"
  sg_rename :: bool

definition Stage :: "stage_in \<Rightarrow> update_target \<Rightarrow> artifact \<Rightarrow> update_fs \<Rightarrow> (apply_error + string) \<times> update_fs list" where
  "Stage sg t a fs =
     (if \<not> sg_create sg then (Inl AStaging, [])
      else case sg_served sg of
             None \<Rightarrow> (Inl AFetchArtifact, [])
           | Some served \<Rightarrow>
               if \<not> sg_copy sg \<or> \<not> sg_close sg then (Inl ADownload, [])
               else if int (length (take (nat (wrap64 (ar_Size a + 1))) served)) \<noteq> ar_Size a then (Inl (AVerify USizeMismatch), [])
               else if \<not> sg_file sg then (Inl AStaging, [])
               else
                 case VerifyArtifact a (sg_disk sg) of
                   Some err \<Rightarrow> (Inl (AVerify err), [])
                 | None \<Rightarrow>
                     if \<not> sg_rename sg then (Inl AStaging, [])
                     else (Inr (StagedPath t a), [fs\<lparr>uf_staged := (uf_staged fs)(StagedPath t a := sg_disk sg)\<rparr>]))"

definition verifyFile :: "bool \<Rightarrow> update_fs \<Rightarrow> string \<Rightarrow> artifact \<Rightarrow> update_error option" where
  "verifyFile readable fs path a = VerifyArtifact a (if readable then uf_staged fs path else None)"

text \<open>The outcomes of the calls of an apply, in order. \<open>ai_swap\<close> is what somebody else does to the staged
  path after it was verified and before it is renamed: nothing, or write or remove the file.\<close>

record apply_io =
  ai_read :: bool
  ai_swap :: "bytes option option"
  ai_marker :: write_io
  ai_stat :: bool
  ai_move :: bool
  ai_publish :: bool
  ai_restore :: bool
  ai_remove :: bool

definition swapped :: "bytes option option \<Rightarrow> string \<Rightarrow> update_fs \<Rightarrow> update_fs" where
  "swapped swap staged fs =
     (case swap of None \<Rightarrow> fs | Some content \<Rightarrow> fs\<lparr>uf_staged := (uf_staged fs)(staged := content)\<rparr>)"

definition Apply ::
    "apply_io \<Rightarrow> update_target \<Rightarrow> string \<Rightarrow> artifact \<Rightarrow> string \<Rightarrow> update_fs \<Rightarrow> apply_error option \<times> update_fs list" where
  "Apply io t staged a release fs =
     (case verifyFile (ai_read io) fs staged a of
        Some err \<Rightarrow> (Some (AVerify err), [])
      | None \<Rightarrow>
          (let m = \<lparr>mk_Release = release, mk_Previous = PreviousPath t, mk_Artifact = artifact_Name a, mk_Started = False\<rparr>;
               (err, fs1) = writeMarker (ai_marker io) m (swapped (ai_swap io) staged fs);
               undo = (\<lambda>fs'. removeMarker (ai_remove io) fs')
           in case err of
                Some err \<Rightarrow> (Some (AMarker err), [fs1, undo fs1])
              | None \<Rightarrow>
                  if \<not> ai_stat io then (Some AStat, [fs1, undo fs1])
                  else if uf_target fs \<noteq> None \<and> \<not> ai_move io then (Some AMoveAside, [fs1, undo fs1])
                  else
                    (let movedAside = (uf_target fs \<noteq> None);
                         fs2 = (if movedAside then fs1\<lparr>uf_prev := uf_target fs1, uf_target := None\<rparr> else fs1)
                     in if ai_publish io \<and> uf_staged fs2 staged \<noteq> None
                        then (None, [fs1, fs2, fs2\<lparr>uf_target := uf_staged fs2 staged,
                                                    uf_staged := (uf_staged fs2)(staged := None)\<rparr>])
                        else if movedAside \<and> \<not> ai_restore io then (Some APublishRestore, [fs1, fs2])
                        else
                          (let fs3 = (if movedAside then fs2\<lparr>uf_target := uf_prev fs2, uf_prev := None\<rparr> else fs2)
                           in (Some APublish, [fs1, fs2, fs3, undo fs3])))))"

section \<open>The updater (updater.go)\<close>

text \<open>The configuration; \<open>up_stamp\<close> is the release the linker stamped into the build.\<close>

record updater =
  up_v :: update_verifier
  up_target :: update_target
  up_Role :: string
  up_OS :: string
  up_Arch :: string
  up_Defer :: bool
  up_CurrentRelease :: string
  up_stamp :: string

record outcome =
  oc_Release :: string
  oc_UpToDate :: bool
  oc_NoArtifact :: bool
  oc_Staged :: string
  oc_Applied :: bool
  oc_Deferred :: bool
  oc_Gated :: bool

definition no_outcome :: outcome where
  "no_outcome = \<lparr>oc_Release = [], oc_UpToDate = False, oc_NoArtifact = False, oc_Staged = [], oc_Applied = False,
     oc_Deferred = False, oc_Gated = False\<rparr>"

text \<open>\<open>Current\<close> panics on a stamp it cannot parse; the panic is the parse error here.\<close>

definition update_self :: "updater \<Rightarrow> apply_error + version" where
  "update_self u =
     (if up_CurrentRelease u \<noteq> []
      then (case Parse (up_CurrentRelease u) of Inl err \<Rightarrow> Inl (ACurrentRelease err) | Inr v \<Rightarrow> Inr v)
      else if \<not> Stamped (up_stamp u) then Inl AUnstamped
      else case fst (Current (up_stamp u) True) of Inl err \<Rightarrow> Inl (ACurrentRelease err) | Inr v \<Rightarrow> Inr v)"

text \<open>The outcomes of one check's calls, in the order the check makes them.\<close>

record check_in =
  ck_gate :: bool
  ck_load :: bool
  ck_manifest :: "bytes option"
  ck_now :: time
  ck_raise :: state_io
  ck_recheck :: bool
  ck_stage :: stage_in
  ck_pending :: state_io
  ck_apply :: apply_io
  ck_clear :: state_io

definition with_state :: "update_fs \<Rightarrow> state_file \<Rightarrow> update_fs" where
  "with_state fs f = fs\<lparr>uf_state := f\<rparr>"

definition publish ::
    "updater \<Rightarrow> apply_io \<Rightarrow> state_io \<Rightarrow> outcome \<Rightarrow> string \<Rightarrow> artifact \<Rightarrow> string \<Rightarrow> update_fs
     \<Rightarrow> (outcome \<times> apply_error option) \<times> update_fs list" where
  "publish u aio sio out staged a release fs =
     (case Apply aio (up_target u) staged a release fs of
        (Some err, ts) \<Rightarrow> ((out, Some err), ts)
      | (None, ts) \<Rightarrow>
          (let fs' = final fs ts
           in ((out\<lparr>oc_Applied := True, oc_Deferred := False\<rparr>, None),
               ts @ [with_state fs' (snd (ClearPending sio release (uf_state fs')))])))"

text \<open>The part of a check up to a verified manifest.\<close>

definition check_manifest ::
    "update_env \<Rightarrow> updater \<Rightarrow> check_in \<Rightarrow> update_fs \<Rightarrow> apply_error + manifest" where
  "check_manifest env u ck fs =
     (case ck_manifest ck of
        None \<Rightarrow> Inl AFetchManifest
      | Some raw \<Rightarrow>
          (case update_ParseBundle env raw of
             Inl err \<Rightarrow> Inl (AVerify err)
           | Inr b \<Rightarrow>
               (case update_Verify env (up_v u) b (ck_now ck) (fst (state_Load (ck_load ck) (uf_state fs))) of
                  Inl err \<Rightarrow> Inl (AVerify err)
                | Inr m \<Rightarrow> Inr m)))"

text \<open>The part that stages the artifact \<open>a\<close> and publishes or defers it.\<close>

definition check_artifact ::
    "updater \<Rightarrow> check_in \<Rightarrow> pending option \<Rightarrow> manifest \<Rightarrow> artifact \<Rightarrow> outcome \<Rightarrow> update_fs
     \<Rightarrow> (outcome \<times> apply_error option) \<times> update_fs list" where
  "check_artifact u ck pend m a out fs =
     (let staged = StagedPath (up_target u) a
      in if (case pend of None \<Rightarrow> False | Some p \<Rightarrow> artifact_Name (pd_Artifact p) = artifact_Name a \<and> pd_Staged p = staged)
            \<and> verifyFile (ck_recheck ck) fs staged a = None
         then (let out = out\<lparr>oc_Staged := staged, oc_Deferred := True\<rparr>
               in if \<not> up_Defer u then publish u (ck_apply ck) (ck_clear ck) out staged a (mf_Release m) fs
                  else ((out, None), []))
         else
           case Stage (ck_stage ck) (up_target u) a fs of
             (Inl err, ts) \<Rightarrow> ((out, Some err), ts)
           | (Inr staged, ts) \<Rightarrow>
               (let out = out\<lparr>oc_Staged := staged\<rparr>;
                    fs1 = final fs ts;
                    p = \<lparr>pd_Release = mf_Release m, pd_Seq = mf_Seq m, pd_Artifact = a, pd_Staged = staged\<rparr>;
                    (err, f) = SetPending (ck_pending ck) p (uf_state fs1);
                    fs2 = with_state fs1 f
                in case err of
                     Some err \<Rightarrow> ((out, Some err), ts @ [fs2])
                   | None \<Rightarrow>
                       if up_Defer u then ((out\<lparr>oc_Deferred := True\<rparr>, None), ts @ [fs2])
                       else (case publish u (ck_apply ck) (ck_clear ck) out staged a (mf_Release m) fs2 of
                               (r, ts') \<Rightarrow> (r, ts @ [fs2] @ ts'))))"

definition Updater_Check ::
    "update_env \<Rightarrow> updater \<Rightarrow> check_in \<Rightarrow> update_fs \<Rightarrow> (outcome \<times> apply_error option) \<times> update_fs list" where
  "Updater_Check env u ck fs =
     (case update_self u of
        Inl err \<Rightarrow> ((no_outcome, Some err), [])
      | Inr self \<Rightarrow>
          if \<not> ck_gate ck then ((no_outcome\<lparr>oc_Gated := True\<rparr>, None), [])
          else
            case check_manifest env u ck fs of
              Inl err \<Rightarrow> ((no_outcome, Some err), [])
            | Inr m \<Rightarrow>
                (let pend = fst (snd (state_Load (ck_load ck) (uf_state fs)));
                     fs1 = with_state fs (snd (RaiseFloor (ck_raise ck) (mf_Seq m) (uf_state fs)));
                     out = no_outcome\<lparr>oc_Release := mf_Release m\<rparr>
                 in case Parse (mf_Release m) of
                      Inl _ \<Rightarrow> ((out, Some (AVerify UInvalid)), [fs1])
                    | Inr theirs \<Rightarrow>
                        if Compare theirs self \<le> 0 then ((out\<lparr>oc_UpToDate := True\<rparr>, None), [fs1])
                        else
                          (case manifest_Find m (up_OS u) (up_Arch u) (up_Role u) of
                             Inl _ \<Rightarrow> ((out\<lparr>oc_NoArtifact := True\<rparr>, None), [fs1])
                           | Inr a \<Rightarrow>
                               (case check_artifact u ck pend m a out fs1 of (r, ts) \<Rightarrow> (r, fs1 # ts)))))"

record pending_in =
  pi_load :: bool
  pi_recheck :: bool
  pi_remove :: bool
  pi_apply :: apply_io
  pi_clear :: state_io

definition ApplyPending ::
    "updater \<Rightarrow> pending_in \<Rightarrow> update_fs \<Rightarrow> (outcome \<times> apply_error option) \<times> update_fs list" where
  "ApplyPending u pin fs =
     (case state_Load (pi_load pin) (uf_state fs) of
        (_, _, Some err) \<Rightarrow> ((no_outcome, Some err), [])
      | (_, None, None) \<Rightarrow> ((no_outcome, Some ANoPending), [])
      | (_, Some p, None) \<Rightarrow>
          (let out = no_outcome\<lparr>oc_Release := pd_Release p, oc_Staged := pd_Staged p\<rparr>
           in case verifyFile (pi_recheck pin) fs (pd_Staged p) (pd_Artifact p) of
                Some err \<Rightarrow>
                  (let fs1 = (if pi_remove pin then fs\<lparr>uf_staged := (uf_staged fs)(pd_Staged p := None)\<rparr> else fs)
                   in ((out, Some (AVerify err)), [fs1, with_state fs1 (snd (ClearPending (pi_clear pin) [] (uf_state fs1)))]))
              | None \<Rightarrow> publish u (pi_apply pin) (pi_clear pin) out (pd_Staged p) (pd_Artifact p) (pd_Release p) fs))"

section \<open>Configuration and sources (updater.go, source.go)\<close>

record updater_config =
  uc_Root :: bytes
  uc_Revoked :: "(string \<Rightarrow> bool) option"
  uc_Source :: bool
  uc_Target :: "update_target option"
  uc_Role :: string
  uc_OS :: string
  uc_Arch :: string
  uc_StatePath :: string
  uc_Defer :: bool
  uc_CurrentRelease :: string

datatype config_error = CNoSource | CNoState | CRole | CExecutable | CVerifier update_error

text \<open>\<open>exe\<close> is \<open>os.Executable\<close>, \<open>goos\<close> and \<open>goarch\<close> the running platform, \<open>stamp\<close> the linker's release.\<close>

definition NewUpdater ::
    "update_target option \<Rightarrow> string \<Rightarrow> string \<Rightarrow> string \<Rightarrow> updater_config \<Rightarrow> config_error + updater" where
  "NewUpdater exe goos goarch stamp cfg =
     (if \<not> uc_Source cfg then Inl CNoSource
      else if uc_StatePath cfg = [] then Inl CNoState
      else if uc_Role cfg \<notin> set artifact_roles then Inl CRole
      else
        case (case uc_Target cfg of None \<Rightarrow> exe | Some t \<Rightarrow> Some t) of
          None \<Rightarrow> Inl CExecutable
        | Some t \<Rightarrow>
            (case update_NewVerifier (uc_Root cfg) (uc_Revoked cfg) of
               Inl err \<Rightarrow> Inl (CVerifier err)
             | Inr v \<Rightarrow>
                 Inr \<lparr>up_v = v, up_target = t, up_Role = uc_Role cfg,
                      up_OS = (if uc_OS cfg = [] then goos else uc_OS cfg),
                      up_Arch = (if uc_Arch cfg = [] then goarch else uc_Arch cfg),
                      up_Defer = uc_Defer cfg, up_CurrentRelease = uc_CurrentRelease cfg, up_stamp = stamp\<rparr>))"

definition maxManifestBytes :: int where "maxManifestBytes = 2 ^ 20"

definition readCapped :: "bytes option \<Rightarrow> int \<Rightarrow> update_error + bytes" where
  "readCapped r cap =
     (case r of
        None \<Rightarrow> Inl UReadArtifact
      | Some bs \<Rightarrow>
          (let b = take (nat (cap + 1)) bs in if int (length b) > cap then Inl UMalformed else Inr b))"

text \<open>\<open>ip_loopback\<close> says of a host that it parses as an address and is a loopback one.\<close>

definition checkSourceURL :: "(string \<Rightarrow> bool) \<Rightarrow> string \<Rightarrow> string \<Rightarrow> bool" where
  "checkSourceURL ip_loopback scheme host \<longleftrightarrow>
     (if scheme = ''https'' then True
      else if scheme = ''http'' then host = ''localhost'' \<or> ip_loopback host
      else False)"

lemma readCapped_Inr:
  assumes "0 \<le> cap"
  shows "readCapped r cap = Inr b \<longleftrightarrow> r = Some b \<and> int (length b) \<le> cap"
  using assms by (auto simp: readCapped_def Let_def split: option.splits)

section \<open>Runs\<close>

text \<open>
  Anyone may write staged files between two operations, and in the window inside an apply. A crash number stops an operation after that
  many of its file states; a large number lets it finish.
\<close>

datatype updater_event =
  UCheck check_in nat | UApplyPending pending_in nat | UStart startup_io nat | UConfirm bool bool nat
| UTamper string "bytes option"

definition crash_at :: "update_fs \<Rightarrow> update_fs list \<Rightarrow> nat \<Rightarrow> update_fs" where
  "crash_at fs ts n = final fs (take n ts)"

fun update_step :: "update_env \<Rightarrow> updater \<Rightarrow> updater_event \<Rightarrow> update_fs \<Rightarrow> update_fs" where
  "update_step env u (UCheck ck n) fs = crash_at fs (snd (Updater_Check env u ck fs)) n"
| "update_step env u (UApplyPending pin n) fs = crash_at fs (snd (ApplyPending u pin fs)) n"
| "update_step env u (UStart io n) fs = crash_at fs (snd (CheckStartup io fs)) n"
| "update_step env u (UConfirm readable removed n) fs = crash_at fs (snd (Confirm readable removed fs)) n"
| "update_step env u (UTamper path content) fs = fs\<lparr>uf_staged := (uf_staged fs)(path := content)\<rparr>"

definition update_run :: "update_env \<Rightarrow> updater \<Rightarrow> updater_event list \<Rightarrow> update_fs \<Rightarrow> update_fs" where
  "update_run env u es fs = fold (update_step env u) es fs"

text \<open>The artifact a check may act on: the row for this build of a newer, fully verified release.\<close>

fun offered :: "update_env \<Rightarrow> updater \<Rightarrow> updater_event \<Rightarrow> artifact \<Rightarrow> bool" where
  "offered env u (UCheck ck n) a \<longleftrightarrow>
     (\<exists>raw b m self theirs. ck_manifest ck = Some raw \<and> update_ParseBundle env raw = Inr b
        \<and> release_authorised env (up_v u) b (ck_now ck) m \<and> manifest_Find m (up_OS u) (up_Arch u) (up_Role u) = Inr a
        \<and> update_self u = Inr self \<and> Parse (mf_Release m) = Inr theirs \<and> Compare theirs self > 0)"
| "offered env u _ a \<longleftrightarrow> False"

text \<open>What was written over the staged file in the window inside the apply of an event.\<close>

fun swapped_in :: "updater_event \<Rightarrow> bytes \<Rightarrow> bool" where
  "swapped_in (UCheck ck n) bs \<longleftrightarrow> ai_swap (ck_apply ck) = Some (Some bs)"
| "swapped_in (UApplyPending pin n) bs \<longleftrightarrow> ai_swap (pi_apply pin) = Some (Some bs)"
| "swapped_in _ bs \<longleftrightarrow> False"

lemma swapped_sel [simp]:
  "uf_target (swapped swap staged fs) = uf_target fs" "uf_prev (swapped swap staged fs) = uf_prev fs"
  "uf_state (swapped swap staged fs) = uf_state fs" "uf_marker (swapped swap staged fs) = uf_marker fs"
  "uf_staged (swapped swap staged fs) staged = (case swap of None \<Rightarrow> uf_staged fs staged | Some content \<Rightarrow> content)"
  "swapped None staged fs = fs"
  by (simp_all add: swapped_def split: option.split)

lemma writeMarker_sel [simp]:
  "uf_target (snd (writeMarker io m fs)) = uf_target fs" "uf_prev (snd (writeMarker io m fs)) = uf_prev fs"
  "uf_staged (snd (writeMarker io m fs)) = uf_staged fs" "uf_state (snd (writeMarker io m fs)) = uf_state fs"
  by (simp_all add: writeMarker_def Let_def case_prod_unfold)

lemma verifyFile_None:
  assumes "verifyFile readable fs path a = None"
  obtains bs where "uf_staged fs path = Some bs" "artifact_bytes a bs"
proof (cases "if readable then uf_staged fs path else None")
  case None
  then show ?thesis using assms by (simp add: verifyFile_def VerifyArtifact_def)
next
  case (Some bs)
  then have "VerifyArtifact a (Some bs) = None" using assms by (simp add: verifyFile_def)
  then show ?thesis using that Some VerifyArtifact_sound by (auto split: if_splits)
qed

lemma removeMarker_sel [simp]:
  "uf_target (removeMarker r fs) = uf_target fs" "uf_prev (removeMarker r fs) = uf_prev fs"
  "uf_staged (removeMarker r fs) = uf_staged fs" "uf_state (removeMarker r fs) = uf_state fs"
  by (simp_all add: removeMarker_def)

text \<open>The states an apply goes through, as far as the two binaries are concerned.\<close>

definition apply_state :: "update_fs \<Rightarrow> bytes option \<Rightarrow> update_fs \<Rightarrow> bool" where
  "apply_state fs content s \<longleftrightarrow> uf_state s = uf_state fs
     \<and> (uf_target s = uf_target fs \<and> uf_prev s \<in> {uf_prev fs, None}
        \<or> uf_target s = None \<and> uf_prev s = uf_target fs \<and> uf_target fs \<noteq> None
        \<or> uf_target s = content \<and> uf_prev s = (if uf_target fs = None then uf_prev fs else uf_target fs))"

lemma Apply_states:
  "list_all (apply_state fs (uf_staged (swapped (ai_swap io) staged fs) staged)) (snd (Apply io t staged a release fs))"
proof -
  let ?c = "uf_staged (swapped (ai_swap io) staged fs) staged"
  obtain err fs1 where w: "writeMarker (ai_marker io)
      \<lparr>mk_Release = release, mk_Previous = PreviousPath t, mk_Artifact = artifact_Name a, mk_Started = False\<rparr>
      (swapped (ai_swap io) staged fs) = (err, fs1)"
    by fastforce
  then have sel: "uf_target fs1 = uf_target fs" "uf_prev fs1 = uf_prev fs" "uf_staged fs1 staged = ?c" "uf_state fs1 = uf_state fs"
    by (metis snd_conv writeMarker_sel swapped_sel)+
  then have base: "apply_state fs ?c fs1" "apply_state fs ?c (removeMarker (ai_remove io) fs1)"
    by (simp_all add: apply_state_def)
  show ?thesis
  proof (cases "verifyFile (ai_read io) fs staged a")
    case None
    then show ?thesis
      using base sel by (cases err; cases "uf_target fs"; cases ?c) (auto simp: Apply_def w Let_def apply_state_def)
  qed (simp add: Apply_def)
qed

lemma Apply_failed_verify: "verifyFile (ai_read io) fs staged a \<noteq> None \<Longrightarrow> snd (Apply io t staged a release fs) = []"
  by (auto simp: Apply_def)

lemma check_offered:
  assumes "check_manifest env u ck fs = Inr m" and "update_self u = Inr self" and "Parse (mf_Release m) = Inr theirs"
    and "\<not> Compare theirs self \<le> 0" and "manifest_Find m (up_OS u) (up_Arch u) (up_Role u) = Inr a"
  shows "offered env u (UCheck ck n) a"
  using assms by (fastforce simp: check_manifest_def update_Verify_Inr split: option.splits sum.splits)

section \<open>Invariants of the files\<close>

text \<open>
  What it takes for a property of the files to hold at every point of every run: the operations of the
  state file keep it when their reads are acceptable, and so do the renames. \<open>ok\<close> says which
  artifacts may be acted on, \<open>reads\<close> which outcomes of a state file read are admitted, \<open>written\<close> what may
  be written over a staged file inside an apply.
\<close>

fun event_reads :: "(bool \<Rightarrow> bool) \<Rightarrow> updater_event \<Rightarrow> bool" where
  "event_reads reads (UCheck ck n) \<longleftrightarrow> reads (si_read (ck_raise ck)) \<and> reads (si_read (ck_pending ck)) \<and> reads (si_read (ck_clear ck))"
| "event_reads reads (UApplyPending pin n) \<longleftrightarrow> reads (si_read (pi_clear pin))"
| "event_reads reads _ \<longleftrightarrow> True"

lemma event_reads_any [simp]: "event_reads (\<lambda>_. True) e"
  by (cases e) simp_all

locale update_invariant =
  fixes inv :: "update_fs \<Rightarrow> bool" and ok :: "artifact \<Rightarrow> bool" and reads :: "bool \<Rightarrow> bool"
    and written :: "bytes \<Rightarrow> bool"
  assumes inv_marker: "inv (fs\<lparr>uf_marker := x\<rparr>) \<longleftrightarrow> inv fs"
    and inv_staged: "inv (fs\<lparr>uf_staged := y\<rparr>) \<longleftrightarrow> inv fs"
    and inv_demote: "inv fs \<Longrightarrow> inv (fs\<lparr>uf_target := uf_prev fs, uf_prev := None\<rparr>)"
    and inv_apply: "inv fs \<Longrightarrow> ok a \<Longrightarrow> verifyFile r fs staged a = None
      \<Longrightarrow> content = uf_staged fs staged \<or> pred_option written content \<Longrightarrow> apply_state fs content s \<Longrightarrow> inv s"
    and inv_raise: "inv fs \<Longrightarrow> reads (si_read io) \<Longrightarrow> inv (with_state fs (snd (RaiseFloor io seq (uf_state fs))))"
    and inv_clear: "inv fs \<Longrightarrow> reads (si_read io) \<Longrightarrow> inv (with_state fs (snd (ClearPending io release (uf_state fs))))"
    and inv_set: "inv fs \<Longrightarrow> reads (si_read io) \<Longrightarrow> ok (pd_Artifact p)
      \<Longrightarrow> inv (with_state fs (snd (SetPending io p (uf_state fs))))"
    and inv_pending: "inv fs \<Longrightarrow> sd_Pending (fst (state_read r (uf_state fs))) = Some p \<Longrightarrow> ok (pd_Artifact p)"
begin

lemma inv_final: "inv fs \<Longrightarrow> list_all inv ts \<Longrightarrow> inv (final fs ts)"
  by (auto simp: final_def list_all_iff)

lemma inv_crash: "inv fs \<Longrightarrow> list_all inv ts \<Longrightarrow> inv (crash_at fs ts n)"
  unfolding crash_at_def by (rule inv_final) (auto simp: list_all_iff dest: in_set_takeD)

lemma inv_writeMarker: "inv (snd (writeMarker io m fs)) \<longleftrightarrow> inv fs"
  by (simp add: writeMarker_def Let_def case_prod_unfold inv_marker)

lemma inv_clearMarker: "inv fs \<Longrightarrow> list_all inv (snd (clearMarker removed fs))"
  by (simp add: clearMarker_def inv_marker)

lemma inv_Confirm: "inv fs \<Longrightarrow> list_all inv (snd (Confirm readable removed fs))"
  by (simp add: Confirm_def inv_clearMarker split: sum.splits option.splits)

lemma inv_CheckStartup:
  assumes "inv fs"
  shows "list_all inv (snd (CheckStartup io fs))"
  using assms inv_demote [OF assms]
  by (simp add: CheckStartup_def inv_clearMarker inv_writeMarker Let_def case_prod_unfold split: sum.splits option.splits)

lemma inv_Apply:
  assumes "inv fs" and "ok a" and "\<And>b. ai_swap io = Some (Some b) \<Longrightarrow> written b"
  shows "list_all inv (snd (Apply io t staged a release fs))"
proof (cases "verifyFile (ai_read io) fs staged a = None")
  case True
  have "uf_staged (swapped (ai_swap io) staged fs) staged = uf_staged fs staged
      \<or> pred_option written (uf_staged (swapped (ai_swap io) staged fs) staged)"
    using assms(3) by (cases "ai_swap io"; cases "the (ai_swap io)") (auto simp: swapped_def)
  then show ?thesis
    using inv_apply [OF assms(1,2) True] Apply_states [of fs io staged t a release] by (auto simp: list_all_iff)
qed (simp add: Apply_failed_verify)

lemma inv_publish:
  assumes "inv fs" and "ok a" and "reads (si_read sio)"
    and "\<And>b. ai_swap aio = Some (Some b) \<Longrightarrow> written b"
  shows "list_all inv (snd (publish u aio sio out staged a release fs))"
proof -
  obtain err ts where ap: "Apply aio (up_target u) staged a release fs = (err, ts)" by fastforce
  then have ts: "list_all inv ts" using inv_Apply [OF assms(1,2,4)] by (metis snd_conv)
  then have "inv (final fs ts)" by (rule inv_final [OF assms(1)])
  then show ?thesis using ts ap assms(3) by (cases err) (simp_all add: publish_def Let_def inv_clear)
qed

lemma inv_Stage: "inv fs \<Longrightarrow> list_all inv (snd (Stage sg t a fs))"
  by (simp add: Stage_def inv_staged split: option.splits)

lemma inv_check_artifact:
  assumes "inv fs" and "ok a" and "reads (si_read (ck_pending ck))" and "reads (si_read (ck_clear ck))"
    and "\<And>b. ai_swap (ck_apply ck) = Some (Some b) \<Longrightarrow> written b"
  shows "list_all inv (snd (check_artifact u ck pend m a out fs))"
proof -
  obtain r ts where st: "Stage (ck_stage ck) (up_target u) a fs = (r, ts)" by fastforce
  then have ts: "list_all inv ts" using inv_Stage [OF assms(1)] by (metis snd_conv)
  then have "inv (final fs ts)" by (rule inv_final [OF assms(1)])
  then have fs2: "inv (with_state (final fs ts) (snd (SetPending (ck_pending ck) p (uf_state (final fs ts)))))"
    if "pd_Artifact p = a" for p
    using that assms by (simp add: inv_set)
  show ?thesis
    using ts fs2 assms st
    by (cases r) (auto simp: check_artifact_def Let_def case_prod_unfold inv_publish split: option.splits)
qed

lemma inv_Check:
  assumes raised: "\<And>m. check_manifest env u ck fs = Inr m
      \<Longrightarrow> inv (with_state fs (snd (RaiseFloor (ck_raise ck) (mf_Seq m) (uf_state fs))))"
    and ok: "\<And>a. offered env u (UCheck ck n) a \<Longrightarrow> ok a"
    and "reads (si_read (ck_pending ck))" and "reads (si_read (ck_clear ck))"
    and "\<And>b. ai_swap (ck_apply ck) = Some (Some b) \<Longrightarrow> written b"
  shows "list_all inv (snd (Updater_Check env u ck fs))"
proof (cases "update_self u")
  case (Inr self)
  show ?thesis
  proof (cases "check_manifest env u ck fs")
    case m: (Inr m)
    show ?thesis
    proof (cases "\<exists>theirs a. Parse (mf_Release m) = Inr theirs \<and> \<not> Compare theirs self \<le> 0
        \<and> manifest_Find m (up_OS u) (up_Arch u) (up_Role u) = Inr a")
      case True
      then obtain theirs a where a: "Parse (mf_Release m) = Inr theirs" "\<not> Compare theirs self \<le> 0"
        "manifest_Find m (up_OS u) (up_Arch u) (up_Role u) = Inr a" by blast
      then have "ok a" using check_offered [OF m Inr] ok by blast
      then show ?thesis
        using a Inr m raised [OF m] inv_check_artifact [OF raised [OF m]] assms(3-5)
        by (simp add: Updater_Check_def Let_def case_prod_unfold)
    next
      case False
      then show ?thesis
        using Inr m raised [OF m] by (auto simp: Updater_Check_def Let_def split: sum.splits)
    qed
  qed (simp add: Updater_Check_def Inr)
qed (simp add: Updater_Check_def)

lemma inv_ApplyPending:
  assumes "inv fs" and "reads (si_read (pi_clear pin))" and "\<And>b. ai_swap (pi_apply pin) = Some (Some b) \<Longrightarrow> written b"
  shows "list_all inv (snd (ApplyPending u pin fs))"
proof -
  obtain seq pend err where ld: "state_Load (pi_load pin) (uf_state fs) = (seq, pend, err)" by (metis prod_cases3)
  have "ok (pd_Artifact p)" if "pend = Some p" for p
    using ld that inv_pending [OF assms(1), of "pi_load pin"]
    by (auto simp: state_Load_def split: prod.splits option.splits)
  moreover have "inv (with_state (fs\<lparr>uf_staged := x\<rparr>) (snd (ClearPending (pi_clear pin) [] (uf_state fs))))" for x
    using inv_clear [of "fs\<lparr>uf_staged := x\<rparr>" "pi_clear pin" "[]"] assms by (simp add: inv_staged)
  ultimately show ?thesis
    using assms inv_publish [OF assms(1)] ld inv_clear [of fs "pi_clear pin"]
    by (auto simp: ApplyPending_def Let_def inv_staged split: option.splits)
qed

lemma inv_step:
  assumes "inv fs" and "\<And>a. offered env u e a \<Longrightarrow> ok a" and "event_reads reads e" and "\<And>b. swapped_in e b \<Longrightarrow> written b"
  shows "inv (update_step env u e fs)"
proof (cases e)
  case (UCheck ck n)
  then show ?thesis
    using inv_Check [of env u ck fs n] inv_raise [OF assms(1)] assms by (auto intro!: inv_crash)
qed (use assms(1,3,4) in \<open>auto intro!: inv_crash inv_ApplyPending inv_CheckStartup inv_Confirm simp: inv_staged\<close>)

lemma inv_run:
  assumes "inv fs" and "\<And>e a. e \<in> set es \<Longrightarrow> offered env u e a \<Longrightarrow> ok a" and "list_all (event_reads reads) es"
    and "\<And>e b. e \<in> set es \<Longrightarrow> swapped_in e b \<Longrightarrow> written b"
  shows "inv (update_run env u es fs)"
  using assms unfolding update_run_def
proof (induction es arbitrary: fs)
  case (Cons e es)
  have "inv (update_step env u e fs)" by (rule inv_step) (use Cons.prems in auto)
  then have "inv (fold (update_step env u) es (update_step env u e fs))"
    by (rule Cons.IH) (use Cons.prems in auto)
  then show ?case by simp
qed simp

end

section \<open>Only authorised bytes are installed\<close>

text \<open>
  \<open>ok\<close> is what the run was offered, \<open>old\<close> the binaries it began with: both binaries on disk are among
  them, and a pending record names an offered artifact.
\<close>

definition installed_ok :: "(artifact \<Rightarrow> bool) \<Rightarrow> bytes set \<Rightarrow> bytes option \<Rightarrow> bool" where
  "installed_ok ok old b \<longleftrightarrow> (\<forall>bs. b = Some bs \<longrightarrow> bs \<in> old \<or> (\<exists>a. ok a \<and> artifact_bytes a bs))"

definition pending_ok :: "(artifact \<Rightarrow> bool) \<Rightarrow> state_file \<Rightarrow> bool" where
  "pending_ok ok f \<longleftrightarrow> (\<forall>d p. f = StateFile d \<longrightarrow> sd_Pending d = Some p \<longrightarrow> ok (pd_Artifact p))"

definition sane_fs :: "(artifact \<Rightarrow> bool) \<Rightarrow> bytes set \<Rightarrow> update_fs \<Rightarrow> bool" where
  "sane_fs ok old fs \<longleftrightarrow> installed_ok ok old (uf_target fs) \<and> installed_ok ok old (uf_prev fs) \<and> pending_ok ok (uf_state fs)"

lemma installed_ok_None [simp]: "installed_ok ok old None"
  by (simp add: installed_ok_def)

lemma pending_ok_read:
  "pending_ok ok f \<Longrightarrow> sd_Pending (fst (state_read readable f)) = Some p \<Longrightarrow> ok (pd_Artifact p)"
  by (auto simp: state_read_def pending_ok_def zero_state_def split: if_splits state_file.splits)

lemma pending_ok_write:
  assumes "pending_ok ok f" and "\<And>p. sd_Pending d = Some p \<Longrightarrow> ok (pd_Artifact p)"
  shows "pending_ok ok (snd (state_write io d raises f))"
proof -
  have "snd (state_write io d raises f) = f \<or> snd (state_write io d raises f) = StateFile (d\<lparr>sd_Version := stateVersion\<rparr>)"
    using atomic_Write_cases(1) [of "si_write io" "StateFile (d\<lparr>sd_Version := stateVersion\<rparr>)" f]
    by (auto simp: state_write_def Let_def case_prod_unfold atomic_WriteDurable_cases(1))
  then show ?thesis using assms by (auto simp: pending_ok_def)
qed

lemma pending_ok_ops:
  assumes "pending_ok ok f"
  shows "pending_ok ok (snd (RaiseFloor io seq f))" and "pending_ok ok (snd (ClearPending io release f))"
    and "ok (pd_Artifact p) \<Longrightarrow> pending_ok ok (snd (SetPending io p f))"
  using assms pending_ok_read [OF assms]
  by (auto simp: RaiseFloor_def ClearPending_def SetPending_def Let_def case_prod_unfold intro!: pending_ok_write)

interpretation sane: update_invariant "sane_fs ok old" ok "\<lambda>_. True" "\<lambda>b. b \<in> old" for ok old
proof unfold_locales
  fix fs a r staged content s
  assume fs: "sane_fs ok old fs" "ok a" "verifyFile r fs staged a = None"
    "content = uf_staged fs staged \<or> pred_option (\<lambda>b. b \<in> old) content" "apply_state fs content s"
  obtain bs where "uf_staged fs staged = Some bs" "artifact_bytes a bs" using fs(3) by (rule verifyFile_None)
  then have "installed_ok ok old content" using fs(2,4) by (cases content) (auto simp: installed_ok_def)
  then show "sane_fs ok old s" using fs(1,5) by (auto simp: apply_state_def sane_fs_def split: if_splits)
next
  fix fs r p
  assume "sane_fs ok old fs" "sd_Pending (fst (state_read r (uf_state fs))) = Some p"
  then show "ok (pd_Artifact p)" using pending_ok_read by (auto simp: sane_fs_def)
qed (auto simp: sane_fs_def with_state_def pending_ok_ops)

text \<open>C4: Whatever an updater is served, whatever is written over its staged files at any time, whichever
  system calls fail and wherever it crashes, the bytes at the target path and at the kept previous path
  are one of three: bytes that were there at the beginning; bytes whose size and SHA-256 are those of the
  row for this build in a manifest that the offline root's chain authorised at the time of a check, for
  a release newer than the running one; or bytes that somebody wrote over the staged file in the window
  inside one apply, after it had verified the file and before it renamed it. Two hypotheses: the run
  starts with no state file, so with nothing staged on record, and nobody but the updater writes the state
  file, the target, the previous binary or the marker.\<close>

theorem installed_bytes_authorised:
  assumes "uf_state fs = NoState" and "fs' = update_run env u es fs"
    and "uf_target fs' = Some bs \<or> uf_prev fs' = Some bs"
  shows "Some bs \<in> {uf_target fs, uf_prev fs}
    \<or> (\<exists>e \<in> set es. \<exists>a. offered env u e a \<and> int (length bs) = ar_Size a \<and> sha256 bs = ar_SHA256 a)
    \<or> (\<exists>e \<in> set es. swapped_in e bs)"
proof -
  let ?ok = "\<lambda>a. \<exists>e \<in> set es. offered env u e a"
    and ?old = "{b. Some b \<in> {uf_target fs, uf_prev fs} \<or> (\<exists>e \<in> set es. swapped_in e b)}"
  have "sane_fs ?ok ?old fs" using assms(1) by (auto simp: sane_fs_def installed_ok_def pending_ok_def)
  then have "sane_fs ?ok ?old fs'"
    unfolding assms(2) by (rule sane.inv_run) (auto simp: list_all_iff)
  then have "installed_ok ?ok ?old (Some bs)" using assms(3) by (auto simp: sane_fs_def)
  then show ?thesis unfolding installed_ok_def artifact_bytes_def by blast
qed

text \<open>The window is open: one write into it is published under the name of a verified release.\<close>

lemma swap_is_published:
  assumes "verifyFile True fs staged a = None" and "ai_read io" and "ai_swap io = Some (Some bs)" and "ai_marker io = io_fine"
    and "ai_stat io" and "ai_move io" and "ai_publish io"
  shows "\<exists>ts. Apply io t staged a release fs = (None, ts) \<and> uf_target (final fs ts) = Some bs"
  using assms
  by (auto simp: Apply_def Let_def writeMarker_def atomic_WriteDurable_def atomic_Write_def atomic_fill_def io_fine_def
      swapped_def final_def)

section \<open>Crashes and the probation of a release\<close>

definition startup_fine :: startup_io where
  "startup_fine = \<lparr>su_read = True, su_prev_stat = True, su_claim = io_fine, su_rename = True, su_remove = True\<rparr>"

lemma writeMarker_fine: "writeMarker io_fine m fs = (None, fs\<lparr>uf_marker := MarkerFile m\<rparr>)"
  by (simp add: writeMarker_def atomic_WriteDurable_def atomic_Write_def atomic_fill_def io_fine_def)

lemma writeMarker_None: "writeMarker io m fs = (None, fs') \<Longrightarrow> fs' = fs\<lparr>uf_marker := MarkerFile m\<rparr>"
  using atomic_WriteDurable_cases(2) [of io "MarkerFile m" "uf_marker fs"]
  by (auto simp: writeMarker_def Let_def case_prod_unfold)

text \<open>What a successful apply leaves behind.\<close>

lemma Apply_None:
  assumes "Apply io t staged a release fs = (None, ts)" and "uf_target fs = Some old" and "ai_swap io = None"
  obtains new where "uf_staged fs staged = Some new" "artifact_bytes a new"
    "final fs ts = fs\<lparr>uf_target := Some new, uf_prev := Some old, uf_staged := (uf_staged fs)(staged := None),
       uf_marker := MarkerFile \<lparr>mk_Release = release, mk_Previous = PreviousPath t, mk_Artifact = artifact_Name a, mk_Started = False\<rparr>\<rparr>"
proof -
  let ?m = "\<lparr>mk_Release = release, mk_Previous = PreviousPath t, mk_Artifact = artifact_Name a, mk_Started = False\<rparr>"
  have v: "verifyFile (ai_read io) fs staged a = None" using assms(1) by (auto simp: Apply_def split: option.splits)
  then obtain new where new: "uf_staged fs staged = Some new" "artifact_bytes a new" by (rule verifyFile_None)
  obtain err fs1 where w: "writeMarker (ai_marker io) ?m fs = (err, fs1)" by fastforce
  then have "err = None" using assms(1,3) v by (auto simp: Apply_def Let_def split: option.splits)
  then have "fs1 = fs\<lparr>uf_marker := MarkerFile ?m\<rparr>" using w writeMarker_None by simp
  then have "final fs ts = fs\<lparr>uf_target := Some new, uf_prev := Some old, uf_staged := (uf_staged fs)(staged := None), uf_marker := MarkerFile ?m\<rparr>"
    using assms v w new \<open>err = None\<close> by (auto simp: Apply_def Let_def final_def split: if_splits)
  then show ?thesis using that new by blast
qed

text \<open>Wherever an apply crashes and whichever of its calls fail, and nobody writes the staged file meanwhile, the old
  binary survives: it is still the target, or it was moved aside and is the kept previous binary, while the target is either missing
  (between the two renames, or when restoring failed) or the complete verified artifact.\<close>

lemma apply_crash_keeps_old:
  assumes "uf_target fs = Some old" and "s = crash_at fs (snd (Apply io t staged a release fs)) n" and "ai_swap io = None"
  shows "uf_target s = Some old
    \<or> uf_prev s = Some old \<and> (uf_target s = None \<or> (\<exists>new. uf_target s = Some new \<and> artifact_bytes a new))"
proof (cases "verifyFile (ai_read io) fs staged a = None")
  case True
  then obtain new where new: "uf_staged fs staged = Some new" "artifact_bytes a new" by (rule verifyFile_None)
  have "s = fs \<or> s \<in> set (snd (Apply io t staged a release fs))"
    unfolding assms(2) crash_at_def final_def by (metis in_set_takeD last_in_set list.discI list.sel(1) set_ConsD last.simps)
  then have "s = fs \<or> apply_state fs (uf_staged fs staged) s"
    using Apply_states [of fs io staged t a release] assms(3) by (auto simp: list_all_iff)
  then show ?thesis using assms(1) new by (auto simp: apply_state_def)
qed (use assms in \<open>simp add: Apply_failed_verify crash_at_def final_def\<close>)

text \<open>The probation of an applied release. The start after the apply runs the new bytes as a trial;
  a release that confirms is kept by every later start; a second start without a confirmation puts the
  old binary back, clears the marker and reports the demotion; and a process of the old binary that
  confirms before the handover leaves the probation in place.\<close>

lemma release_probation:
  assumes "Apply io t staged a release fs = (None, ts)" and "uf_target fs = Some old" and "ai_swap io = None"
  shows "\<exists>new fs1. artifact_bytes a new \<and> Confirm True True (final fs ts) = (None, [])
    \<and> CheckStartup startup_fine (final fs ts) = (None, [fs1]) \<and> uf_target fs1 = Some new
    \<and> (\<exists>fs2. Confirm True True fs1 = (None, [fs2]) \<and> uf_target fs2 = Some new
         \<and> CheckStartup startup_fine fs2 = (None, []))
    \<and> (\<exists>mid fs3. CheckStartup startup_fine fs1 = (Some (ADemoted release), [mid, fs3])
         \<and> uf_target fs3 = Some old \<and> uf_marker fs3 = NoMarker)"
proof -
  obtain new where new: "artifact_bytes a new" and fin: "final fs ts =
      fs\<lparr>uf_target := Some new, uf_prev := Some old, uf_staged := (uf_staged fs)(staged := None),
       uf_marker := MarkerFile \<lparr>mk_Release = release, mk_Previous = PreviousPath t, mk_Artifact = artifact_Name a, mk_Started = False\<rparr>\<rparr>"
    using Apply_None [OF assms] by metis
  show ?thesis
    unfolding fin using new
    by (simp add: Confirm_def CheckStartup_def readMarker_def startup_fine_def writeMarker_fine clearMarker_def)
qed

text \<open>C37: A crash between the marker and the first rename, on a target that was updated before, demotes a
  binary that never failed: the start-up check finds the previous binary of the earlier update beside
  the marker, puts the running old binary on trial, and if that process restarts once before it
  confirms, replaces it by the binary from two releases ago. (The comment at the rename sequence says
  the check finds no previous binary in this case and clears the marker.)\<close>

theorem stale_previous_demotes:
  assumes "verifyFile (ai_read io) fs staged a = None" and "ai_marker io = io_fine"
    and "uf_target fs = Some old" and "uf_prev fs = Some older"
    and "crashed = crash_at fs (snd (Apply io t staged a release fs)) 1"
  shows "uf_target crashed = Some old
    \<and> (\<exists>trial. CheckStartup startup_fine crashed = (None, [trial]) \<and> uf_target trial = Some old
         \<and> (\<exists>mid fs'. CheckStartup startup_fine trial = (Some (ADemoted release), [mid, fs']) \<and> uf_target fs' = Some older))"
proof -
  have "crashed = (swapped (ai_swap io) staged fs)\<lparr>uf_marker := MarkerFile \<lparr>mk_Release = release, mk_Previous = PreviousPath t,
      mk_Artifact = artifact_Name a, mk_Started = False\<rparr>\<rparr>"
    using assms(1,2,5) by (simp add: Apply_def Let_def crash_at_def final_def writeMarker_fine)
  then show ?thesis
    using assms(3,4)
    by (simp add: CheckStartup_def readMarker_def startup_fine_def writeMarker_fine clearMarker_def)
qed

section \<open>The rollback floor\<close>

definition state_floor :: "state_file \<Rightarrow> uint64" where
  "state_floor f = sd_MinSeq (fst (state_read True f))"

lemma state_write_floor:
  "state_floor (snd (state_write io d raises f)) \<in> {state_floor f, sd_MinSeq d}"
  "fst (state_write io d raises f) = None \<Longrightarrow> state_floor (snd (state_write io d raises f)) = sd_MinSeq d"
proof -
  let ?b = "StateFile (d\<lparr>sd_Version := stateVersion\<rparr>)"
  have b: "state_floor ?b = sd_MinSeq d" by (simp add: state_floor_def state_read_def)
  have "snd (state_write io d raises f) \<in> {f, ?b}"
    using atomic_Write_cases(1) [of "si_write io" ?b f]
    by (simp add: state_write_def Let_def case_prod_unfold atomic_WriteDurable_cases(1))
  then show "state_floor (snd (state_write io d raises f)) \<in> {state_floor f, sd_MinSeq d}" using b by auto
  assume "fst (state_write io d raises f) = None"
  then have "snd (state_write io d raises f) = ?b"
    using atomic_Write_cases(2) [of "si_write io" ?b f] atomic_WriteDurable_cases(2) [of "si_write io" ?b f]
    by (auto simp: state_write_def Let_def case_prod_unfold split: if_splits)
  then show "state_floor (snd (state_write io d raises f)) = sd_MinSeq d" using b by simp
qed

lemma floor_ops:
  assumes "si_read io"
  shows "state_floor f \<le> state_floor (snd (RaiseFloor io seq f))"
    and "state_floor f \<le> state_floor (snd (ClearPending io release f))"
    and "state_floor f \<le> state_floor (snd (SetPending io p f))"
    and "fst (RaiseFloor io seq f) = None \<Longrightarrow> seq \<le> state_floor (snd (RaiseFloor io seq f))"
proof -
  let ?d = "fst (state_read True f)"
  have d: "state_floor f = sd_MinSeq ?d" by (simp add: state_floor_def)
  note w = state_write_floor
  have raise: "RaiseFloor io seq f = state_write io (if seq > sd_MinSeq ?d then ?d\<lparr>sd_MinSeq := seq\<rparr> else ?d) (seq > sd_MinSeq ?d) f"
    using assms by (simp add: RaiseFloor_def Let_def case_prod_unfold)
  show "state_floor f \<le> state_floor (snd (RaiseFloor io seq f))"
    using w(1) [of io "if seq > sd_MinSeq ?d then ?d\<lparr>sd_MinSeq := seq\<rparr> else ?d" "seq > sd_MinSeq ?d" f] d
    by (auto simp: raise split: if_splits)
  show "fst (RaiseFloor io seq f) = None \<Longrightarrow> seq \<le> state_floor (snd (RaiseFloor io seq f))"
    using w(2) [of io "if seq > sd_MinSeq ?d then ?d\<lparr>sd_MinSeq := seq\<rparr> else ?d" "seq > sd_MinSeq ?d" f]
    by (auto simp: raise split: if_splits)
  show "state_floor f \<le> state_floor (snd (ClearPending io release f))"
    using w(1) [of io "?d\<lparr>sd_Pending := None\<rparr>" False f] w(1) [of io "?d\<lparr>sd_Pending := None, sd_AppliedRelease := release\<rparr>" False f] d assms
    by (auto simp: ClearPending_def Let_def case_prod_unfold)
  show "state_floor f \<le> state_floor (snd (SetPending io p f))"
    using w(1) [of io "?d\<lparr>sd_Pending := Some p\<rparr>" False f] w(1) [of io "?d\<lparr>sd_MinSeq := pd_Seq p, sd_Pending := Some p\<rparr>" True f] d assms
    by (auto simp: SetPending_def Let_def case_prod_unfold)
qed

interpretation floor_kept: update_invariant "\<lambda>fs. k \<le> state_floor (uf_state fs)" "\<lambda>_. True" "\<lambda>r. r" "\<lambda>_. True" for k
  by unfold_locales (auto simp: with_state_def apply_state_def intro: order_trans floor_ops)

lemma Load_floor_update: "fst (state_Load True f) = state_floor f"
  by (simp add: state_Load_def state_floor_def split: prod.splits option.splits)

lemma accepted_above_floor:
  assumes "check_manifest env u ck fs = Inr m" and "ck_load ck"
  shows "state_floor (uf_state fs) \<le> mf_Seq m"
  using assms by (auto simp: check_manifest_def update_Verify_Inr Load_floor_update split: option.splits sum.splits)

lemma Check_records:
  assumes "check_manifest env u ck fs = Inr m" and "update_self u = Inr self" and "ck_gate ck"
  shows "snd (Updater_Check env u ck fs) \<noteq> []"
  using assms by (simp add: Updater_Check_def Let_def case_prod_unfold split: sum.splits)

lemma crash_in_trace:
  assumes "ts \<noteq> []" and "0 < n"
  shows "crash_at fs ts n \<in> set ts"
proof -
  have "take n ts \<noteq> []" using assms by (cases ts) auto
  then have "crash_at fs ts n = last (take n ts)" by (simp add: crash_at_def final_def)
  then show ?thesis using \<open>take n ts \<noteq> []\<close> by (metis in_set_takeD last_in_set)
qed

text \<open>C20: A release channel never walks an updater back. Once a check accepted a manifest and recorded
  its sequence number, no later check accepts one with a smaller number, whatever happens in between:
  failed writes, crashes, restarts, demotions, tampering with staged files; only the state file has
  to stay readable.\<close>

theorem updates_never_roll_back:
  assumes "check_manifest env u ck fs = Inr m" and "update_self u = Inr self" and "ck_gate ck" and "0 < n"
    and "fst (RaiseFloor (ck_raise ck) (mf_Seq m) (uf_state fs)) = None"
    and "list_all (event_reads (\<lambda>r. r)) (UCheck ck n # es)"
    and "check_manifest env u ck' (update_run env u (UCheck ck n # es) fs) = Inr m'" and "ck_load ck'"
  shows "mf_Seq m \<le> mf_Seq m'"
proof -
  let ?fs1 = "with_state fs (snd (RaiseFloor (ck_raise ck) (mf_Seq m) (uf_state fs)))"
  let ?ts = "snd (Updater_Check env u ck fs)"
  have fs1: "mf_Seq m \<le> state_floor (uf_state ?fs1)"
    using floor_ops(4) [of "ck_raise ck" "mf_Seq m" "uf_state fs"] assms(5,6) by (simp add: with_state_def)
  have ts: "list_all (\<lambda>s. mf_Seq m \<le> state_floor (uf_state s)) ?ts"
    by (rule floor_kept.inv_Check [where n = n]) (use fs1 assms(1,6) in auto)
  have "?ts \<noteq> []" by (rule Check_records [OF assms(1-3)])
  then have "crash_at fs ?ts n \<in> set ?ts" using assms(4) by (rule crash_in_trace)
  then have "mf_Seq m \<le> state_floor (uf_state (update_step env u (UCheck ck n) fs))" using ts by (simp add: list_all_iff)
  then have "mf_Seq m \<le> state_floor (uf_state (update_run env u es (update_step env u (UCheck ck n) fs)))"
    by (rule floor_kept.inv_run) (use assms(6) in auto)
  moreover have "update_run env u es (update_step env u (UCheck ck n) fs) = update_run env u (UCheck ck n # es) fs"
    by (simp add: update_run_def)
  ultimately show ?thesis using accepted_above_floor [OF assms(7,8)] by simp
qed

section \<open>What the floor does not protect\<close>

text \<open>
  A staged release is applied at the next boundary even when the floor has moved past its sequence
  number meanwhile: \<open>ApplyPending\<close> reads the floor and does not use it.
\<close>

lemma pending_ignores_floor:
  assumes "uf_state fs = StateFile d" and "sd_Version d = stateVersion" and "sd_Pending d = Some p"
    and "pd_Seq p < sd_MinSeq d" and "pi_load pin"
    and "verifyFile (pi_recheck pin) fs (pd_Staged p) (pd_Artifact p) = None"
    and "Apply (pi_apply pin) (up_target u) (pd_Staged p) (pd_Artifact p) (pd_Release p) fs = (None, ts)"
  shows "oc_Applied (fst (fst (ApplyPending u pin fs)))"
  using assms by (simp add: ApplyPending_def state_Load_def state_read_def publish_def Let_def)

text \<open>
  And a single failed read loses it: \<open>RaiseFloor\<close> drops the error of the read, starts from an empty
  state and writes the sequence number of the manifest at hand over the higher floor.
\<close>

lemma failed_read_lowers_floor:
  assumes "\<not> si_read io" and "si_write io = io_fine" and "0 < seq" and "seq < state_floor f"
  shows "state_floor (snd (RaiseFloor io seq f)) = seq"
  using assms
  by (simp add: RaiseFloor_def state_read_def state_write_def state_floor_def zero_state_def atomic_WriteDurable_def
      atomic_Write_def atomic_fill_def io_fine_def)

section \<open>A run\<close>

definition demo_artifact :: artifact where
  "demo_artifact = \<lparr>ar_OS = ''linux'', ar_Arch = ''amd64'', ar_Role = ''node'', ar_Size = 3, ar_SHA256 = sha256 [1, 2, 3]\<rparr>"

text \<open>An environment whose bundles are one byte, the sequence number of the manifest.\<close>

definition demo_manifest :: "byte \<Rightarrow> manifest" where
  "demo_manifest k = \<lparr>mf_Version = 1, mf_Seq = ucast k, mf_Release = ''1.2.3'', mf_Issued = 0, mf_Expires = 20, mf_Note = [],
     mf_Artifacts = [demo_artifact]\<rparr>"

definition demo_update_env :: update_env where
  "demo_update_env =
     \<lparr>ue_verify = (\<lambda>_ _ _. True), ue_cert = (\<lambda>_. Some (demo_cert\<lparr>dc_Role := ''update''\<rparr>)),
      ue_bundle = (\<lambda>raw. Some \<lparr>ub_Manifest = raw @ replicate 64 0, ub_Cert = replicate 65 1\<rparr>),
      ue_manifest = (\<lambda>body. case body of [] \<Rightarrow> None | k # _ \<Rightarrow> Some (demo_manifest k))\<rparr>"

definition demo_updater :: updater where
  "demo_updater = \<lparr>up_v = \<lparr>uv_rootPub = replicate 32 9, uv_revoked = (\<lambda>_. False)\<rparr>,
     up_target = \<lparr>ut_dir = ''/bin'', ut_base = ''node''\<rparr>, up_Role = ''node'', up_OS = ''linux'', up_Arch = ''amd64'',
     up_Defer = False, up_CurrentRelease = ''1.0.0'', up_stamp = []\<rparr>"

definition demo_apply_io :: apply_io where
  "demo_apply_io = \<lparr>ai_read = True, ai_swap = None, ai_marker = io_fine, ai_stat = True, ai_move = True, ai_publish = True, ai_restore = True, ai_remove = True\<rparr>"

definition demo_state_io :: state_io where
  "demo_state_io = \<lparr>si_read = True, si_write = io_fine\<rparr>"

definition demo_check :: "byte \<Rightarrow> check_in" where
  "demo_check k =
     \<lparr>ck_gate = True, ck_load = True, ck_manifest = Some [k], ck_now = 1, ck_raise = demo_state_io, ck_recheck = True,
      ck_stage = \<lparr>sg_create = True, sg_served = Some [1, 2, 3], sg_copy = True, sg_close = True, sg_file = True,
        sg_disk = Some [1, 2, 3], sg_rename = True\<rparr>,
      ck_pending = demo_state_io, ck_apply = demo_apply_io, ck_clear = demo_state_io\<rparr>"

lemma demo_check_sel [simp]:
  "ck_gate (demo_check k)" "ck_load (demo_check k)" "ck_manifest (demo_check k) = Some [k]" "ck_now (demo_check k) = 1"
  "ck_raise (demo_check k) = demo_state_io" "ck_pending (demo_check k) = demo_state_io" "ck_clear (demo_check k) = demo_state_io"
  "si_read demo_state_io" "si_write demo_state_io = io_fine"
  by (simp_all add: demo_check_def demo_state_io_def)

definition demo_fs :: update_fs where
  "demo_fs = \<lparr>uf_target = Some [7], uf_prev = None, uf_marker = NoMarker, uf_staged = Map.empty, uf_state = NoState\<rparr>"

lemma demo_valid:
  assumes "(ucast k :: uint64) \<noteq> 0"
  shows "manifest_Validate (demo_manifest k) = None"
proof -
  note assms
  moreover have "checkRelease ''1.2.3'' = None"
    by (simp add: checkRelease_def check_release_part_def go_simps)
  moreover have "checkToken ''linux'' = None" "checkToken ''amd64'' = None"
    by (simp_all add: checkToken_def token_char_def char_byte_def)
  ultimately show ?thesis
    by (simp add: manifest_Validate_def demo_manifest_def demo_artifact_def manifest_Version_def zero_time_def
        artifact_roles_def MaxArtifactBytes_def sha256_Size_def length_sha256)
qed

lemma demo_accepted:
  assumes "(ucast k :: uint64) \<noteq> 0" and "state_floor (uf_state fs) \<le> ucast k"
  shows "check_manifest demo_update_env demo_updater (demo_check k) fs = Inr (demo_manifest k)"
proof -
  have "update_Verify demo_update_env (up_v demo_updater) \<lparr>ub_Manifest = k # replicate 64 0, ub_Cert = replicate 65 1\<rparr> 1
      (state_floor (uf_state fs)) = Inr (demo_manifest k)"
    using assms(2) demo_valid [OF assms(1)]
    by (simp add: update_Verify_def VerifyDelegationCert_def ParseCert_def OpenSigned_def Let_def demo_update_env_def
        demo_updater_def PublicKeySize_def sigLen_def delegation_Version_def RoleUpdate_def demo_cert_def ClockSkew_def)
      (simp add: demo_manifest_def not_less)
  moreover have "update_ParseBundle demo_update_env [k] = Inr \<lparr>ub_Manifest = k # replicate 64 0, ub_Cert = replicate 65 1\<rparr>"
    by (simp add: update_ParseBundle_def demo_update_env_def)
  ultimately show ?thesis by (simp add: check_manifest_def Load_floor_update)
qed

lemma demo_newer:
  "update_self demo_updater = Inr (Version 1 0 0)" "Parse ''1.2.3'' = Inr (Version 1 2 3)"
  "Compare (Version 1 2 3) (Version 1 0 0) = 1"
  by (simp_all add: update_self_def demo_updater_def Parse_def parse_component_def Compare_def wrap64_def go_simps)

lemma demo_find: "manifest_Find (demo_manifest k) ''linux'' ''amd64'' ''node'' = Inr demo_artifact"
  by (simp add: manifest_Find_def demo_manifest_def artifact_Matches_def demo_artifact_def)

lemma demo_verifies: "VerifyArtifact demo_artifact (Some [1, 2, 3]) = None"
  by (rule VerifyArtifact_complete) (simp_all add: artifact_bytes_def demo_artifact_def MaxArtifactBytes_def)

definition demo_staged :: string where "demo_staged = StagedPath (up_target demo_updater) demo_artifact"

lemma demo_apply:
  assumes "uf_target fs = Some old" and "uf_staged fs demo_staged = Some [1, 2, 3]"
  shows "\<exists>ts. Apply demo_apply_io (up_target demo_updater) demo_staged demo_artifact ''1.2.3'' fs = (None, ts)"
    and "uf_target (final fs (snd (Apply demo_apply_io (up_target demo_updater) demo_staged demo_artifact ''1.2.3'' fs))) = Some [1, 2, 3]"
  using assms
  by (simp_all add: Apply_def verifyFile_def demo_apply_io_def demo_verifies writeMarker_fine Let_def final_def)

definition demo_ready :: update_fs where
  "demo_ready = demo_fs\<lparr>uf_staged := [demo_staged \<mapsto> [1, 2, 3]]\<rparr>"

theorem stale_previous_demotes_witness:
  "\<exists>crashed. uf_target crashed = Some [7] \<and> (\<exists>trial. CheckStartup startup_fine crashed = (None, [trial]))"
proof -
  let ?fs = "demo_ready\<lparr>uf_prev := Some [5]\<rparr>"
  have "verifyFile (ai_read demo_apply_io) ?fs demo_staged demo_artifact = None" "ai_marker demo_apply_io = io_fine"
    "uf_target ?fs = Some [7]" "uf_prev ?fs = Some [5]"
    by (simp_all add: verifyFile_def demo_apply_io_def demo_ready_def demo_fs_def demo_verifies)
  from stale_previous_demotes [OF this refl, of "up_target demo_updater" "''1.2.3''"] show ?thesis by blast
qed

theorem updates_never_roll_back_witness: "mf_Seq (demo_manifest 1) \<le> mf_Seq (demo_manifest 2)"
proof (rule updates_never_roll_back [where env = demo_update_env and u = demo_updater and ck = "demo_check 1" and n = 1
      and fs = demo_fs and es = "[UTamper demo_staged None]" and ck' = "demo_check 2" and self = "Version 1 0 0"])
  have fl: "state_floor (uf_state demo_fs) = 0" by (simp add: demo_fs_def state_floor_def state_read_def zero_state_def)
  then show m: "check_manifest demo_update_env demo_updater (demo_check 1) demo_fs = Inr (demo_manifest 1)"
    by (intro demo_accepted) simp_all
  have raise: "RaiseFloor (ck_raise (demo_check 1)) (mf_Seq (demo_manifest 1)) (uf_state demo_fs) =
      (None, StateFile \<lparr>sd_Version = stateVersion, sd_MinSeq = 1, sd_AppliedRelease = [], sd_Pending = None\<rparr>)"
    by (simp add: RaiseFloor_def state_read_def state_write_def zero_state_def atomic_WriteDurable_def atomic_Write_def
        atomic_fill_def io_fine_def demo_fs_def demo_manifest_def)
  then show "fst (RaiseFloor (ck_raise (demo_check 1)) (mf_Seq (demo_manifest 1)) (uf_state demo_fs)) = None" by simp
  let ?fs1 = "with_state demo_fs (snd (RaiseFloor (ck_raise (demo_check 1)) (mf_Seq (demo_manifest 1)) (uf_state demo_fs)))"
  have "crash_at demo_fs (snd (Updater_Check demo_update_env demo_updater (demo_check 1) demo_fs)) 1 = ?fs1"
    using m demo_newer
    by (simp add: Updater_Check_def crash_at_def final_def Let_def case_prod_unfold demo_manifest_def split: sum.splits)
  then have "state_floor (uf_state (update_run demo_update_env demo_updater [UCheck (demo_check 1) 1, UTamper demo_staged None] demo_fs)) = 1"
    by (simp add: update_run_def raise [unfolded demo_check_sel] with_state_def state_floor_def state_read_def)
  then show "check_manifest demo_update_env demo_updater (demo_check 2)
      (update_run demo_update_env demo_updater [UCheck (demo_check 1) 1, UTamper demo_staged None] demo_fs) = Inr (demo_manifest 2)"
    by (intro demo_accepted) simp_all
qed (simp_all add: demo_newer)

lemma state_write_fine: "fst (state_write demo_state_io d r f) = None"
  by (simp add: state_write_def case_prod_unfold Let_def atomic_WriteDurable_def atomic_Write_def atomic_fill_def io_fine_def)

lemma demo_stage:
  "Stage (ck_stage (demo_check k)) (up_target demo_updater) demo_artifact fs =
     (Inr demo_staged, [fs\<lparr>uf_staged := (uf_staged fs)(demo_staged := Some [1, 2, 3])\<rparr>])"
  using demo_verifies by (simp add: Stage_def demo_check_def demo_staged_def) (simp add: demo_artifact_def wrap64_def)

lemma demo_apply_trace:
  assumes "uf_target fs = Some old" and "uf_staged fs demo_staged = Some [1, 2, 3]"
  obtains fs1 fs2 fs3 where "Apply demo_apply_io (up_target demo_updater) demo_staged demo_artifact ''1.2.3'' fs = (None, [fs1, fs2, fs3])"
    "uf_target fs3 = Some [1, 2, 3]"
  using assms that by (simp add: Apply_def verifyFile_def demo_apply_io_def demo_verifies writeMarker_fine Let_def)

lemma demo_installs:
  "uf_target (update_run demo_update_env demo_updater [UCheck (demo_check 1) 9] demo_fs) = Some [1, 2, 3]"
proof -
  let ?fs1 = "with_state demo_fs (snd (RaiseFloor demo_state_io (mf_Seq (demo_manifest 1)) (uf_state demo_fs)))"
  let ?fs2 = "?fs1\<lparr>uf_staged := (uf_staged ?fs1)(demo_staged := Some [1, 2, 3])\<rparr>"
  obtain f where set: "SetPending demo_state_io \<lparr>pd_Release = ''1.2.3'', pd_Seq = mf_Seq (demo_manifest 1),
      pd_Artifact = demo_artifact, pd_Staged = demo_staged\<rparr> (uf_state ?fs1) = (None, f)"
    using state_write_fine by (simp add: SetPending_def Let_def case_prod_unfold) (metis prod.collapse)
  have "uf_target (with_state ?fs2 f) = Some [7]" "uf_staged (with_state ?fs2 f) demo_staged = Some [1, 2, 3]"
    by (simp_all add: with_state_def demo_fs_def)
  then obtain g1 g2 g3 where app: "Apply demo_apply_io (up_target demo_updater) demo_staged demo_artifact ''1.2.3'' (with_state ?fs2 f) =
      (None, [g1, g2, g3])" "uf_target g3 = Some [1, 2, 3]"
    by (rule demo_apply_trace)
  have "check_manifest demo_update_env demo_updater (demo_check 1) demo_fs = Inr (demo_manifest 1)"
    by (rule demo_accepted) (simp_all add: demo_fs_def state_floor_def state_read_def zero_state_def)
  moreover have "mf_Release (demo_manifest 1) = ''1.2.3''" "up_OS demo_updater = ''linux''" "up_Arch demo_updater = ''amd64''"
    "up_Role demo_updater = ''node''" "\<not> up_Defer demo_updater" "ck_apply (demo_check 1) = demo_apply_io"
    by (simp_all add: demo_manifest_def demo_updater_def demo_check_def)
  moreover have "fst (snd (state_Load True (uf_state demo_fs))) = None"
    by (simp add: demo_fs_def state_Load_def state_read_def zero_state_def)
  moreover have "uf_state ?fs2 = uf_state ?fs1" by simp
  ultimately show ?thesis
    using demo_newer set app
    by (simp add: update_run_def Updater_Check_def demo_find check_artifact_def demo_stage Let_def publish_def final_def
        crash_at_def with_state_def)
qed

theorem installed_bytes_authorised_witness:
  "uf_target (update_run demo_update_env demo_updater [UCheck (demo_check 1) 9] demo_fs) = Some [1, 2, 3]
    \<and> (\<exists>a. offered demo_update_env demo_updater (UCheck (demo_check 1) 9) a
         \<and> int (length [1, 2, 3 :: byte]) = ar_Size a \<and> sha256 [1, 2, 3] = ar_SHA256 a)"
proof
  show installs: "uf_target (update_run demo_update_env demo_updater [UCheck (demo_check 1) 9] demo_fs) = Some [1, 2, 3]"
    by (rule demo_installs)
  have "uf_target demo_fs = Some [7]" "uf_prev demo_fs = None" "uf_state demo_fs = NoState" by (simp_all add: demo_fs_def)
  moreover have "\<not> swapped_in (UCheck (demo_check 1) 9) bs" for bs by (simp add: demo_check_def demo_apply_io_def)
  ultimately show "\<exists>a. offered demo_update_env demo_updater (UCheck (demo_check 1) 9) a
         \<and> int (length [1, 2, 3 :: byte]) = ar_Size a \<and> sha256 [1, 2, 3] = ar_SHA256 a"
    using installed_bytes_authorised [OF _ refl disjI1 [OF installs]]
    by (simp del: offered.simps swapped_in.simps)
qed

end
