(* ===== verification/Selection.thy ===== *)
theory Selection
  imports Geoip Manifest "HOL-Library.AList" "HOL-Library.Char_ord" "HOL-Library.List_Lexorder" "HOL-Library.Product_Lexorder"
begin

text \<open>
  Path selection on the client (\<open>core/selection/selection.go\<close>, \<open>store.go\<close>): the ladder of candidate
  paths and the store of what worked on a network. \<open>strings.EqualFold\<close> is exact on ASCII and the
  parameter \<open>eqf\<close> beyond it. The store's map is an association list whose order stands for the
  iteration order.
\<close>

section \<open>The ladder (selection.go)\<close>

definition ModeDirect :: string where "ModeDirect = ''direct''"

definition ModeRelay :: string where "ModeRelay = ''relay''"

record candidate =
  ca_Transport :: string
  ca_Country :: string
  ca_Mode :: string

record sel_country =
  sc_Code :: string
  sc_Available :: int
  sc_Busy :: bool
  sc_RTT :: duration

record ladder_input =
  li_Geo :: string
  li_Countries :: "sel_country list"
  li_Transports :: "string list"
  li_Learned :: "candidate option"
  li_Cooling :: "(candidate \<Rightarrow> bool) option"

definition EqualFold :: "(string \<Rightarrow> string \<Rightarrow> bool) \<Rightarrow> string \<Rightarrow> string \<Rightarrow> bool" where
  "EqualFold eqf s t \<longleftrightarrow>
     (if list_all is_ascii s \<and> list_all is_ascii t then map ascii_upper s = map ascii_upper t else eqf s t)"

fun inScope :: "(string \<Rightarrow> string \<Rightarrow> bool) \<Rightarrow> sel_country list \<Rightarrow> string \<Rightarrow> sel_country list" where
  "inScope eqf [] geo = []"
| "inScope eqf (c # cs) geo =
     (if geo \<noteq> [] then (if EqualFold eqf (sc_Code c) geo then c # inScope eqf cs geo else inScope eqf cs geo)
      else if \<not> sc_Busy c then c # inScope eqf cs geo
      else inScope eqf cs geo)"

text \<open>The comparison of \<open>sortByPing\<close>; a stable sort by it is the sort by \<open>ping_key\<close>.\<close>

definition ping_less :: "sel_country \<Rightarrow> sel_country \<Rightarrow> bool" where
  "ping_less c d \<longleftrightarrow> (if sc_RTT c = 0 then False else if sc_RTT d = 0 then True else sc_RTT c < sc_RTT d)"

definition ping_key :: "sel_country \<Rightarrow> bool \<times> duration" where
  "ping_key c = (sc_RTT c = 0, sc_RTT c)"

definition sortByPing :: "sel_country list \<Rightarrow> sel_country list" where
  "sortByPing cs = sort_key ping_key cs"

lemma ping_less_key: "ping_less c d \<longleftrightarrow> ping_key c < ping_key d"
  by (auto simp: ping_less_def ping_key_def less_prod_simp)

definition countriesAs :: "string \<Rightarrow> sel_country list \<Rightarrow> string \<Rightarrow> candidate list" where
  "countriesAs tr cs mode = map (\<lambda>c. \<lparr>ca_Transport = tr, ca_Country = sc_Code c, ca_Mode = mode\<rparr>) cs"

definition countryPresent :: "(string \<Rightarrow> string \<Rightarrow> bool) \<Rightarrow> sel_country list \<Rightarrow> string \<Rightarrow> bool" where
  "countryPresent eqf cs code \<longleftrightarrow> list_ex (\<lambda>c. EqualFold eqf (sc_Code c) code) cs"

definition isCooling :: "candidate \<Rightarrow> (candidate \<Rightarrow> bool) option \<Rightarrow> bool" where
  "isCooling c cooling \<longleftrightarrow> (case cooling of None \<Rightarrow> False | Some f \<Rightarrow> f c)"

definition sinkCooling :: "candidate list \<Rightarrow> (candidate \<Rightarrow> bool) option \<Rightarrow> candidate list" where
  "sinkCooling tier cooling =
     (case cooling of None \<Rightarrow> tier | Some f \<Rightarrow> filter (\<lambda>c. \<not> f c) tier @ filter f tier)"

fun dedup_from :: "candidate list \<Rightarrow> candidate list \<Rightarrow> candidate list" where
  "dedup_from seen [] = []"
| "dedup_from seen (c # cs) = (if c \<in> set seen then dedup_from seen cs else c # dedup_from (c # seen) cs)"

definition dedup :: "candidate list \<Rightarrow> candidate list" where
  "dedup cs = dedup_from [] cs"

definition ladder_tiers :: "(string \<Rightarrow> string \<Rightarrow> bool) \<Rightarrow> ladder_input \<Rightarrow> candidate list list" where
  "ladder_tiers eqf inp =
     (let countries = sortByPing (inScope eqf (li_Countries inp) (li_Geo inp));
          tier0 = (case li_Learned inp of
                     None \<Rightarrow> []
                   | Some l \<Rightarrow> if countryPresent eqf countries (ca_Country l) \<and> \<not> isCooling l (li_Cooling inp)
                               then [[l]] else [])
      in tier0 @
         (case li_Transports inp of
            [] \<Rightarrow> []
          | primary # rest \<Rightarrow>
              [countriesAs primary countries ModeDirect,
               concat (map (\<lambda>tr. countriesAs tr countries ModeDirect) rest),
               countriesAs primary countries ModeRelay]))"

definition Ladder :: "(string \<Rightarrow> string \<Rightarrow> bool) \<Rightarrow> ladder_input \<Rightarrow> candidate list" where
  "Ladder eqf inp = dedup (concat (map (\<lambda>tier. sinkCooling tier (li_Cooling inp)) (ladder_tiers eqf inp)))"

section \<open>The learned store (store.go)\<close>

definition DefaultTTL :: duration where "DefaultTTL = 14 * 24 * 3600 * 1000000000"

record sel_record =
  sr_Net :: string
  sr_Geo :: string
  sr_Country :: string
  sr_Tr :: string
  sr_Mode :: string
  sr_RTTms :: int
  sr_At :: time

definition record_candidate :: "sel_record \<Rightarrow> candidate" where
  "record_candidate r = \<lparr>ca_Transport = sr_Tr r, ca_Country = sr_Country r, ca_Mode = sr_Mode r\<rparr>"

text \<open>A file on disk is missing, unreadable or corrupt, or the list of its records.\<close>

record sel_store =
  ss_path :: string
  ss_ttl :: duration
  ss_recs :: "(string \<times> sel_record) list"

datatype sel_file = SelMissing | SelBad | SelFile "sel_record list"

definition recKey :: "string \<Rightarrow> string \<Rightarrow> string \<Rightarrow> string" where
  "recKey net geo country = net @ [CHR 0x00] @ geo @ [CHR 0x00] @ country"

definition record_key :: "sel_record \<Rightarrow> string" where
  "record_key r = recKey (sr_Net r) (sr_Geo r) (sr_Country r)"

fun open_recs :: "sel_record list \<Rightarrow> (string \<times> sel_record) list \<Rightarrow> (string \<times> sel_record) list" where
  "open_recs [] recs = recs"
| "open_recs (r # rs) recs =
     (if sr_Country r = [] then open_recs rs recs else open_recs rs (AList.update (record_key r) r recs))"

definition sel_Open :: "string \<Rightarrow> sel_file \<Rightarrow> sel_store" where
  "sel_Open path f =
     \<lparr>ss_path = path, ss_ttl = DefaultTTL,
      ss_recs = (if path = [] then []
                 else case f of SelMissing \<Rightarrow> [] | SelBad \<Rightarrow> [] | SelFile recs \<Rightarrow> open_recs recs [])\<rparr>"

text \<open>The outcome of a write that failed before the atomic write: the directory could not be made.\<close>

definition sel_save :: "bool \<Rightarrow> write_io \<Rightarrow> sel_store \<Rightarrow> sel_file \<Rightarrow> bool \<times> sel_file" where
  "sel_save mkdir io s f =
     (if ss_path s = [] then (True, f)
      else if \<not> mkdir then (False, f)
      else (case atomic_Write io (SelFile (sort_key record_key (map snd (ss_recs s)))) f of
              (err, f') \<Rightarrow> (err = None, f')))"

definition sel_Put :: "bool \<Rightarrow> write_io \<Rightarrow> sel_record \<Rightarrow> sel_store \<Rightarrow> sel_file \<Rightarrow> bool \<times> sel_store \<times> sel_file" where
  "sel_Put mkdir io r s f =
     (let s' = s\<lparr>ss_recs := AList.update (record_key r) r (ss_recs s)\<rparr>;
          (ok, f') = sel_save mkdir io s' f
      in (ok, s', f'))"

definition sel_expired :: "sel_store \<Rightarrow> sel_record \<Rightarrow> time \<Rightarrow> bool" where
  "sel_expired s r now \<longleftrightarrow> ss_ttl s > 0 \<and> time_sub now (sr_At r) > ss_ttl s"

definition best_step :: "sel_store \<Rightarrow> string \<Rightarrow> string \<Rightarrow> time \<Rightarrow> sel_record option \<Rightarrow> sel_record \<Rightarrow> sel_record option" where
  "best_step s net geo now best r =
     (if sr_Net r \<noteq> net \<or> sr_Geo r \<noteq> geo \<or> sel_expired s r now then best
      else case best of None \<Rightarrow> Some r | Some b \<Rightarrow> if sr_RTTms r < sr_RTTms b then Some r else best)"

definition sel_Best :: "sel_store \<Rightarrow> string \<Rightarrow> string \<Rightarrow> time \<Rightarrow> candidate option" where
  "sel_Best s net geo now = map_option record_candidate (foldl (best_step s net geo now) None (map snd (ss_recs s)))"

definition rtt_step :: "sel_store \<Rightarrow> string \<Rightarrow> string \<Rightarrow> time \<Rightarrow> duration \<Rightarrow> sel_record \<Rightarrow> duration" where
  "rtt_step s net country now out r =
     (if sr_Net r \<noteq> net \<or> sr_Country r \<noteq> country \<or> sel_expired s r now then out
      else (let d = wrap64 (sr_RTTms r * 1000000) in if out = 0 \<or> d < out then d else out))"

definition sel_RTT :: "sel_store \<Rightarrow> string \<Rightarrow> string \<Rightarrow> time \<Rightarrow> duration" where
  "sel_RTT s net country now = foldl (rtt_step s net country now) 0 (map snd (ss_recs s))"

definition sel_Reset :: "bool \<Rightarrow> sel_store \<Rightarrow> sel_file \<Rightarrow> bool \<times> sel_store \<times> sel_file" where
  "sel_Reset removed s f =
     (let s' = s\<lparr>ss_recs := []\<rparr>
      in if ss_path s = [] then (True, s', f)
         else if removed \<or> f = SelMissing then (True, s', SelMissing)
         else (False, s', f))"

section \<open>What a ladder holds\<close>

lemma dedup_from_set: "set (dedup_from seen cs) = set cs - set seen"
  by (induction seen cs rule: dedup_from.induct) auto

lemma dedup_from_distinct: "distinct (dedup_from seen cs)"
  by (induction seen cs rule: dedup_from.induct) (auto simp: dedup_from_set)

lemma dedup_from_sorted: "sorted (map f cs) \<Longrightarrow> sorted (map f (dedup_from seen cs))"
  by (induction seen cs rule: dedup_from.induct) (auto simp: dedup_from_set)

lemma sinkCooling_set [simp]: "set (sinkCooling tier cooling) = set tier"
  by (auto simp: sinkCooling_def split: option.splits)

lemma inScope_set:
  "c \<in> set (inScope eqf cs geo) \<longleftrightarrow> c \<in> set cs \<and> (if geo \<noteq> [] then EqualFold eqf (sc_Code c) geo else \<not> sc_Busy c)"
  by (induction eqf cs geo rule: inScope.induct) auto

text \<open>The countries a candidate may be built for, and the learned candidate when it is still usable.\<close>

definition in_scope_code :: "(string \<Rightarrow> string \<Rightarrow> bool) \<Rightarrow> ladder_input \<Rightarrow> string \<Rightarrow> bool" where
  "in_scope_code eqf inp code \<longleftrightarrow>
     (\<exists>c \<in> set (li_Countries inp). sc_Code c = code
        \<and> (if li_Geo inp \<noteq> [] then EqualFold eqf code (li_Geo inp) else \<not> sc_Busy c))"

definition learned_usable :: "(string \<Rightarrow> string \<Rightarrow> bool) \<Rightarrow> ladder_input \<Rightarrow> candidate \<Rightarrow> bool" where
  "learned_usable eqf inp l \<longleftrightarrow> li_Learned inp = Some l \<and> \<not> isCooling l (li_Cooling inp)
     \<and> (\<exists>code. in_scope_code eqf inp code \<and> EqualFold eqf code (ca_Country l))"

text \<open>The tier of a candidate: the main transport, then the others, then relays.\<close>

definition tier_rank :: "ladder_input \<Rightarrow> candidate \<Rightarrow> nat" where
  "tier_rank inp c = (if ca_Mode c = ModeRelay then 2 else if ca_Transport c = hd (li_Transports inp) then 0 else 1)"

lemma in_scope_code_image: "in_scope_code eqf inp code \<longleftrightarrow> code \<in> sc_Code ` set (inScope eqf (li_Countries inp) (li_Geo inp))"
  by (cases "li_Geo inp = []") (auto simp: in_scope_code_def inScope_set)

lemma countriesAs_set:
  "c \<in> set (countriesAs tr (sortByPing (inScope eqf (li_Countries inp) (li_Geo inp))) mode) \<longleftrightarrow>
     ca_Transport c = tr \<and> ca_Mode c = mode \<and> in_scope_code eqf inp (ca_Country c)"
  by (cases c) (auto simp: countriesAs_def sortByPing_def in_scope_code_image)

lemma tier_zero:
  "countryPresent eqf (sortByPing (inScope eqf (li_Countries inp) (li_Geo inp))) code \<longleftrightarrow>
     (\<exists>code'. in_scope_code eqf inp code' \<and> EqualFold eqf code' code)"
  by (auto simp: countryPresent_def list_ex_iff sortByPing_def in_scope_code_image)

lemma mode_neq [simp]: "ModeDirect \<noteq> ModeRelay" "ModeRelay \<noteq> ModeDirect"
  by (simp_all add: ModeDirect_def ModeRelay_def)

lemma sorted_const: "(\<And>c. c \<in> set cs \<Longrightarrow> f c = k) \<Longrightarrow> sorted (map f cs)" for f :: "'a \<Rightarrow> nat"
  by (induction cs) auto

text \<open>The tiers below the learned one, sunk and concatenated: sorted by rank, up to repetitions of the
  main transport among the others, which the deduplication drops.\<close>

definition plain_ladder :: "(string \<Rightarrow> string \<Rightarrow> bool) \<Rightarrow> ladder_input \<Rightarrow> candidate list" where
  "plain_ladder eqf inp = concat (map (\<lambda>tier. sinkCooling tier (li_Cooling inp)) (ladder_tiers eqf (inp\<lparr>li_Learned := None\<rparr>)))"

lemma plain_ladder_set:
  "c \<in> set (plain_ladder eqf inp) \<longleftrightarrow> li_Transports inp \<noteq> [] \<and> in_scope_code eqf inp (ca_Country c)
     \<and> (ca_Mode c = ModeDirect \<and> ca_Transport c \<in> set (li_Transports inp)
        \<or> ca_Mode c = ModeRelay \<and> ca_Transport c = hd (li_Transports inp))"
  by (cases "li_Transports inp") (auto simp: plain_ladder_def ladder_tiers_def countriesAs_set Let_def)

lemma dedup_from_seen: "set seen = set seen' \<Longrightarrow> dedup_from seen cs = dedup_from seen' cs"
proof (induction cs arbitrary: seen seen')
  case (Cons c cs)
  have "c \<in> set seen \<longleftrightarrow> c \<in> set seen'" using Cons.prems by simp
  moreover have "dedup_from (c # seen) cs = dedup_from (c # seen') cs" by (rule Cons.IH) (simp add: Cons.prems)
  moreover have "dedup_from seen cs = dedup_from seen' cs" by (rule Cons.IH [OF Cons.prems])
  ultimately show ?case by simp
qed simp

lemma dedup_from_append: "dedup_from seen (xs @ ys) = dedup_from seen xs @ dedup_from (xs @ seen) ys"
proof (induction seen xs rule: dedup_from.induct)
  case (2 seen c cs)
  have "set ((c # cs) @ seen) = set (cs @ (if c \<in> set seen then seen else c # seen))" by auto
  then have "dedup_from ((c # cs) @ seen) ys = dedup_from (cs @ (if c \<in> set seen then seen else c # seen)) ys"
    by (rule dedup_from_seen)
  then show ?case using "2.IH" by auto
qed simp

lemma plain_ladder_sorted: "sorted (map (tier_rank inp) (dedup_from seen (plain_ladder eqf inp)))"
proof (cases "li_Transports inp")
  case (Cons primary rest)
  let ?as = "\<lambda>tr. countriesAs tr (sortByPing (inScope eqf (li_Countries inp) (li_Geo inp)))"
  let ?sink = "\<lambda>tier. sinkCooling tier (li_Cooling inp)"
  let ?a = "?sink (?as primary ModeDirect)" and ?b = "?sink (concat (map (\<lambda>tr. ?as tr ModeDirect) rest))"
    and ?c = "?sink (?as primary ModeRelay)"
  have "plain_ladder eqf inp = ?a @ ?b @ ?c" by (simp add: plain_ladder_def ladder_tiers_def Let_def Cons)
  moreover have "tier_rank inp c = 0" if "c \<in> set (dedup_from seen ?a)" for c
    using that Cons by (auto simp: dedup_from_set countriesAs_set tier_rank_def)
  moreover have "tier_rank inp c = 1" if "c \<in> set (dedup_from (?a @ seen) ?b)" for c
    using that Cons by (auto simp: dedup_from_set countriesAs_set tier_rank_def)
  moreover have "tier_rank inp c = 2" if "c \<in> set (dedup_from (?b @ ?a @ seen) ?c)" for c
    using that by (auto simp: dedup_from_set countriesAs_set tier_rank_def)
  ultimately show ?thesis by (simp add: dedup_from_append sorted_append sorted_const)
qed (simp add: plain_ladder_def ladder_tiers_def)

lemma Ladder_split:
  "Ladder eqf inp = (case li_Learned inp of
     Some l \<Rightarrow> if learned_usable eqf inp l then l # dedup_from [l] (plain_ladder eqf inp) else dedup (plain_ladder eqf inp)
   | None \<Rightarrow> dedup (plain_ladder eqf inp))"
proof (cases "li_Learned inp")
  case (Some l)
  have "sinkCooling [l] (li_Cooling inp) = [l]" by (simp add: sinkCooling_def split: option.splits)
  then show ?thesis
    using Some by (auto simp: Ladder_def plain_ladder_def ladder_tiers_def Let_def tier_zero learned_usable_def dedup_def)
qed (simp add: Ladder_def plain_ladder_def ladder_tiers_def Let_def)

text \<open>The ladder holds every path the client may try, each exactly once and in the documented order:
  the learned path first when it is still usable, then the main transport over every country in scope,
  then the other transports, then relays. A country the user picked is the only one in scope, busy or
  not; with no pick every country that is not busy is.\<close>

lemma ladder_exact:
  "distinct (Ladder eqf inp)
   \<and> (c \<in> set (Ladder eqf inp) \<longleftrightarrow>
        learned_usable eqf inp c
        \<or> li_Transports inp \<noteq> [] \<and> in_scope_code eqf inp (ca_Country c)
          \<and> (ca_Mode c = ModeDirect \<and> ca_Transport c \<in> set (li_Transports inp)
             \<or> ca_Mode c = ModeRelay \<and> ca_Transport c = hd (li_Transports inp)))
   \<and> (\<exists>rest. sorted (map (tier_rank inp) rest)
        \<and> Ladder eqf inp = (case li_Learned inp of
             Some l \<Rightarrow> if learned_usable eqf inp l then l # rest else rest
           | None \<Rightarrow> rest))"
proof (intro conjI)
  show "distinct (Ladder eqf inp)"
    by (auto simp: Ladder_split dedup_def dedup_from_distinct dedup_from_set split: option.splits)
  have "learned_usable eqf inp c \<Longrightarrow> li_Learned inp = Some c" by (simp add: learned_usable_def)
  then show "c \<in> set (Ladder eqf inp) \<longleftrightarrow> learned_usable eqf inp c
        \<or> li_Transports inp \<noteq> [] \<and> in_scope_code eqf inp (ca_Country c)
          \<and> (ca_Mode c = ModeDirect \<and> ca_Transport c \<in> set (li_Transports inp)
             \<or> ca_Mode c = ModeRelay \<and> ca_Transport c = hd (li_Transports inp))"
    unfolding plain_ladder_set [symmetric]
    by (auto simp: Ladder_split dedup_def dedup_from_set split: option.splits)
  show "\<exists>rest. sorted (map (tier_rank inp) rest) \<and> Ladder eqf inp = (case li_Learned inp of
             Some l \<Rightarrow> if learned_usable eqf inp l then l # rest else rest | None \<Rightarrow> rest)"
    using plain_ladder_sorted [of inp _ eqf] by (auto simp: Ladder_split dedup_def split: option.splits)
qed

section \<open>What the store remembers\<close>

text \<open>Every record is filed under its own key and names a country.\<close>

definition store_ok :: "(string \<times> sel_record) list \<Rightarrow> bool" where
  "store_ok recs \<longleftrightarrow> distinct (map fst recs) \<and> (\<forall>(k, r) \<in> set recs. k = record_key r \<and> sr_Country r \<noteq> [])"

lemma set_AList_update: "set (AList.update k v al) \<subseteq> insert (k, v) (set al)"
  by (induction al) auto

lemma store_ok_update: "store_ok recs \<Longrightarrow> sr_Country r \<noteq> [] \<Longrightarrow> store_ok (AList.update (record_key r) r recs)"
  by (auto simp: store_ok_def distinct_update dest: set_AList_update [THEN subsetD] split: if_splits)

lemma open_recs_ok: "store_ok recs \<Longrightarrow> store_ok (open_recs rs recs)"
  by (induction rs recs rule: open_recs.induct) (simp_all add: store_ok_update)

lemma open_recs_map:
  assumes "\<forall>r \<in> set rs. sr_Country r \<noteq> []"
  shows "map_of (open_recs rs recs) = map_of recs ++ map_of (rev (map (\<lambda>r. (record_key r, r)) rs))"
  using assms
  by (induction rs recs rule: open_recs.induct) (simp_all add: update_conv' map_add_upd_left)

lemma map_of_same: "distinct (map fst xs) \<Longrightarrow> set ys = set xs \<Longrightarrow> distinct (map fst ys) \<Longrightarrow> map_of ys = map_of xs"
  by (metis map_of_eqI map_of_inject_set set_map)

text \<open>What the client learned survives a restart. The file a store writes, read back by \<open>Open\<close>, holds
  exactly the same record for every network, geo and country; and with any failing system call the
  file is the one that was there before.\<close>

lemma store_survives_restart:
  assumes "store_ok (ss_recs s)" and "ss_path s \<noteq> []" and "sel_save mkdir io s f = (saved, f')"
  shows "if saved then map_of (ss_recs (sel_Open (ss_path s) f')) = map_of (ss_recs s) else f' = f"
proof (cases "mkdir \<and> fst (atomic_Write io (SelFile (sort_key record_key (map snd (ss_recs s)))) f) = None")
  case True
  let ?rs = "sort_key record_key (map snd (ss_recs s))"
  have "saved" and f': "f' = SelFile ?rs"
    using assms(2,3) True atomic_Write_cases(2) [of io "SelFile ?rs" f] by (auto simp: sel_save_def case_prod_unfold)
  have keyed: "(k, r) \<in> set (ss_recs s) \<Longrightarrow> k = record_key r \<and> sr_Country r \<noteq> []" for k r
    using assms(1) by (auto simp: store_ok_def)
  have "set (rev (map (\<lambda>r. (record_key r, r)) ?rs)) = set (ss_recs s)" 
  proof -
    have "(\<lambda>x. (record_key (snd x), snd x)) ` set (ss_recs s) = (\<lambda>x. x) ` set (ss_recs s)"
      by (rule image_cong) (use keyed in auto)
    then show ?thesis by (simp add: image_image)
  qed
  moreover have "distinct (map fst (rev (map (\<lambda>r. (record_key r, r)) ?rs)))"
  proof -
    have "map record_key (map snd (ss_recs s)) = map fst (ss_recs s)" using keyed by force
    then have "distinct (map record_key (map snd (ss_recs s)))"
      using assms(1) unfolding store_ok_def by (simp only:)
    then have "distinct (map record_key ?rs)"
      by (metis distinct_map distinct_sort set_sort)
    then show ?thesis by (simp add: rev_map [symmetric] comp_def)
  qed
  ultimately have "map_of (rev (map (\<lambda>r. (record_key r, r)) ?rs)) = map_of (ss_recs s)"
    using assms(1) by (intro map_of_same) (simp_all add: store_ok_def)
  moreover have "\<forall>r \<in> set ?rs. sr_Country r \<noteq> []" using keyed by auto
  ultimately show ?thesis using \<open>saved\<close> assms(2) by (simp add: sel_Open_def f' open_recs_map)
next
  case False
  then show ?thesis
    using assms(2,3) atomic_Write_cases(3) [of io _ f] by (auto simp: sel_save_def case_prod_unfold split: if_splits)
qed

text \<open>The learned candidate is one of the unexpired records of the network and geo, of least round trip.\<close>

definition best_match :: "sel_store \<Rightarrow> string \<Rightarrow> string \<Rightarrow> time \<Rightarrow> sel_record \<Rightarrow> bool" where
  "best_match s net geo now r \<longleftrightarrow> sr_Net r = net \<and> sr_Geo r = geo \<and> \<not> sel_expired s r now"

lemma best_fold:
  "case foldl (best_step s net geo now) None rs of
     None \<Rightarrow> \<forall>r \<in> set rs. \<not> best_match s net geo now r
   | Some b \<Rightarrow> b \<in> set rs \<and> best_match s net geo now b \<and> (\<forall>r \<in> set rs. best_match s net geo now r \<longrightarrow> sr_RTTms b \<le> sr_RTTms r)"
proof (induction rs rule: rev_induct)
  case (snoc r rs)
  then show ?case by (auto simp: best_step_def best_match_def split: option.splits)
qed simp

lemma sel_Best_least:
  "sel_Best s net geo now = Some c \<Longrightarrow> \<exists>r \<in> snd ` set (ss_recs s). record_candidate r = c \<and> best_match s net geo now r
     \<and> (\<forall>r' \<in> snd ` set (ss_recs s). best_match s net geo now r' \<longrightarrow> sr_RTTms r \<le> sr_RTTms r')"
  "sel_Best s net geo now = None \<longleftrightarrow> (\<forall>r \<in> snd ` set (ss_recs s). \<not> best_match s net geo now r)"
  using best_fold [where s = s and net = net and geo = geo and now = now and rs = "map snd (ss_recs s)"]
  by (auto simp: sel_Best_def split: option.splits)

end
