(* ===== verification/Pool.thy ===== *)
theory Pool
  imports Selection "HOL-Library.Multiset"
begin

text \<open>
  The transport pool of a client (\<open>core/pool.go\<close>, the ordering of coordinators of \<open>core/coordpool.go\<close>):
  the memory of failed paths, the staggered race over the ladder as a step relation whose events are
  timer ticks, results of dials, cancellation and shutdown, dialing with one retry inside a country,
  selection and reselection. What a dial, a pairing or a probe returned is an input.
\<close>

section \<open>Health memory\<close>

definition candCooldown :: duration where "candCooldown = 30 * 1000000000"

definition hopCooldown :: duration where "hopCooldown = 5 * 60 * 1000000000"

definition coordCooldown :: duration where "coordCooldown = 30 * 1000000000"

definition markCandidateCooling :: "time \<Rightarrow> candidate \<Rightarrow> (candidate \<rightharpoonup> time) \<Rightarrow> (candidate \<rightharpoonup> time)" where
  "markCandidateCooling now c m = m(c \<mapsto> now)"

definition candidateCooling :: "(candidate \<rightharpoonup> time) \<Rightarrow> time \<Rightarrow> candidate \<Rightarrow> bool" where
  "candidateCooling m now c \<longleftrightarrow> (case m c of None \<Rightarrow> False | Some t \<Rightarrow> time_sub now t < candCooldown)"

definition markHopCooling :: "time \<Rightarrow> string \<Rightarrow> (string \<rightharpoonup> time) \<Rightarrow> (string \<rightharpoonup> time)" where
  "markHopCooling now nd m = (if nd = [] then m else m(nd \<mapsto> now))"

definition hopCooling :: "(string \<rightharpoonup> time) \<Rightarrow> time \<Rightarrow> string \<Rightarrow> bool" where
  "hopCooling m now nd \<longleftrightarrow> (case m nd of None \<Rightarrow> False | Some t \<Rightarrow> time_sub now t < hopCooldown)"

section \<open>The order of coordinators (coordpool.go)\<close>

definition markUnhealthy :: "time \<Rightarrow> string \<Rightarrow> (string \<rightharpoonup> time) \<Rightarrow> (string \<rightharpoonup> time)" where
  "markUnhealthy now raw m = m(raw \<mapsto> now)"

definition coord_cooling :: "(string \<rightharpoonup> time) \<Rightarrow> time \<Rightarrow> duration \<Rightarrow> string \<Rightarrow> bool" where
  "coord_cooling unhealthy now cooldown a \<longleftrightarrow>
     (case unhealthy a of None \<Rightarrow> False | Some t \<Rightarrow> time_sub now t < cooldown)"

definition rankCoordinators :: "string list \<Rightarrow> (string \<rightharpoonup> time) \<Rightarrow> time \<Rightarrow> duration \<Rightarrow> string list" where
  "rankCoordinators addrs unhealthy now cooldown =
     filter (\<lambda>a. \<not> coord_cooling unhealthy now cooldown a) addrs @ filter (coord_cooling unhealthy now cooldown) addrs"

text \<open>\<open>shuffled\<close> is what \<open>rand.Shuffle\<close> made of the pool's addresses.\<close>

definition orderLinks :: "string list \<Rightarrow> (string \<rightharpoonup> time) \<Rightarrow> time \<Rightarrow> string list" where
  "orderLinks shuffled unhealthy now = rankCoordinators shuffled unhealthy now coordCooldown"

fun dedup_non_empty :: "string list \<Rightarrow> string list \<Rightarrow> string list" where
  "dedup_non_empty seen [] = []"
| "dedup_non_empty seen (s # ss) =
     (let t = TrimSpace s
      in if t = [] \<or> t \<in> set seen then dedup_non_empty seen ss else t # dedup_non_empty (t # seen) ss)"

definition dedupNonEmpty :: "string list \<Rightarrow> string list" where
  "dedupNonEmpty ss = dedup_non_empty [] ss"

lemma rankCoordinators_mset: "mset (rankCoordinators addrs unhealthy now cooldown) = mset addrs"
  by (induction addrs) (auto simp: rankCoordinators_def)

lemma dedup_non_empty_set:
  "set (dedup_non_empty seen ss) = TrimSpace ` set ss - {[]} - set seen" "distinct (dedup_non_empty seen ss)"
  by (induction seen ss rule: dedup_non_empty.induct) (auto simp: Let_def)

section \<open>The race\<close>

record dialed_path =
  dp_sess :: nat
  dp_exitID :: string
  dp_exitPub :: bytes
  dp_rtt :: duration

datatype race_end = RaceWon dialed_path candidate | RaceExhausted | RaceCancelled | RaceStopped

text \<open>
  \<open>ra_log\<close> lists the results received so far with the index of their candidate; \<open>ra_waiting\<close> holds the
  candidates started whose result has not arrived. A dial that failed, or came back without a
  session, is \<open>None\<close>. Sessions closed by \<open>drainLosers\<close> are in \<open>ra_closed\<close>.
\<close>

record race =
  ra_launched :: nat
  ra_waiting :: "nat set"
  ra_log :: "(nat \<times> dialed_path option) list"
  ra_cooled :: "candidate list"
  ra_end :: "race_end option"
  ra_closed :: "nat list"

definition race_start :: race where
  "race_start = \<lparr>ra_launched = 1, ra_waiting = {0}, ra_log = [], ra_cooled = [], ra_end = None, ra_closed = []\<rparr>"

definition race_launch :: "race \<Rightarrow> race" where
  "race_launch s = s\<lparr>ra_launched := ra_launched s + 1, ra_waiting := insert (ra_launched s) (ra_waiting s)\<rparr>"

definition race_tick :: "candidate list \<Rightarrow> nat \<Rightarrow> race \<Rightarrow> race" where
  "race_tick ladder parallel s =
     (if ra_launched s < length ladder \<and> ra_launched s - length (ra_log s) < parallel then race_launch s else s)"

definition race_result :: "candidate list \<Rightarrow> nat \<Rightarrow> dialed_path option \<Rightarrow> race \<Rightarrow> race" where
  "race_result ladder i r s =
     (let s = s\<lparr>ra_log := ra_log s @ [(i, r)], ra_waiting := ra_waiting s - {i}\<rparr>
      in case r of
           Some path \<Rightarrow> s\<lparr>ra_end := Some (RaceWon path (ladder ! i))\<rparr>
         | None \<Rightarrow>
             (let s = s\<lparr>ra_cooled := ra_cooled s @ [ladder ! i]\<rparr>
              in if ra_launched s < length ladder then race_launch s
                 else if ra_launched s - length (ra_log s) = 0 then s\<lparr>ra_end := Some RaceExhausted\<rparr>
                 else s))"

text \<open>After a win the losers are drained: a session that came up anyway is closed.\<close>

definition race_drain :: "nat \<Rightarrow> dialed_path option \<Rightarrow> race \<Rightarrow> race" where
  "race_drain i r s =
     s\<lparr>ra_log := ra_log s @ [(i, r)], ra_waiting := ra_waiting s - {i},
       ra_closed := ra_closed s @ (case r of None \<Rightarrow> [] | Some path \<Rightarrow> [dp_sess path])\<rparr>"

text \<open>The reachable states of a race over \<open>ladder\<close> with at most \<open>parallel\<close> paths at a time.\<close>

inductive race_reaches :: "candidate list \<Rightarrow> nat \<Rightarrow> race \<Rightarrow> bool" for ladder parallel where
  race_started: "ladder \<noteq> [] \<Longrightarrow> race_reaches ladder parallel race_start"
| race_ticked: "race_reaches ladder parallel s \<Longrightarrow> ra_end s = None \<Longrightarrow> race_reaches ladder parallel (race_tick ladder parallel s)"
| race_heard: "race_reaches ladder parallel s \<Longrightarrow> ra_end s = None \<Longrightarrow> i \<in> ra_waiting s
    \<Longrightarrow> race_reaches ladder parallel (race_result ladder i r s)"
| race_cancel: "race_reaches ladder parallel s \<Longrightarrow> ra_end s = None
    \<Longrightarrow> race_reaches ladder parallel (s\<lparr>ra_end := Some RaceCancelled\<rparr>)"
| race_stop: "race_reaches ladder parallel s \<Longrightarrow> ra_end s = None
    \<Longrightarrow> race_reaches ladder parallel (s\<lparr>ra_end := Some RaceStopped\<rparr>)"
| race_drained: "race_reaches ladder parallel s \<Longrightarrow> ra_end s = Some (RaceWon p c) \<Longrightarrow> i \<in> ra_waiting s
    \<Longrightarrow> race_reaches ladder parallel (race_drain i r s)"

text \<open>Every candidate below \<open>ra_launched\<close> is waited for or has reported, never both.\<close>

definition race_sets :: "candidate list \<Rightarrow> nat \<Rightarrow> race \<Rightarrow> bool" where
  "race_sets ladder parallel s \<longleftrightarrow>
     ra_launched s \<le> length ladder \<and> distinct (map fst (ra_log s))
     \<and> ra_waiting s \<inter> set (map fst (ra_log s)) = {} \<and> ra_waiting s \<union> set (map fst (ra_log s)) = {..<ra_launched s}
     \<and> card (ra_waiting s) \<le> max 1 parallel"

definition all_failed :: "race \<Rightarrow> bool" where
  "all_failed s \<longleftrightarrow> (\<forall>(i, r) \<in> set (ra_log s). r = None)"

text \<open>\<open>i\<close> won with \<open>p\<close>, and every other session that came up was closed.\<close>

definition sole_winner :: "race \<Rightarrow> nat \<Rightarrow> dialed_path \<Rightarrow> bool" where
  "sole_winner s i p \<longleftrightarrow> (i, Some p) \<in> set (ra_log s)
     \<and> (\<forall>j q. (j, Some q) \<in> set (ra_log s) \<longrightarrow> j = i \<or> dp_sess q \<in> set (ra_closed s))"

definition race_ok :: "candidate list \<Rightarrow> nat \<Rightarrow> race \<Rightarrow> bool" where
  "race_ok ladder parallel s \<longleftrightarrow> race_sets ladder parallel s
     \<and> (case ra_end s of
          None \<Rightarrow> ra_waiting s \<noteq> {} \<and> all_failed s \<and> ra_cooled s = map (\<lambda>(i, r). ladder ! i) (ra_log s)
        | Some RaceExhausted \<Rightarrow> ra_launched s = length ladder \<and> ra_waiting s = {} \<and> all_failed s
            \<and> ra_cooled s = map (\<lambda>(i, r). ladder ! i) (ra_log s)
        | Some (RaceWon p c) \<Rightarrow> (\<exists>i. sole_winner s i p \<and> c = ladder ! i)
        | Some _ \<Rightarrow> all_failed s)"

lemma race_sets_count:
  assumes "race_sets ladder parallel s"
  shows "card (ra_waiting s) + length (ra_log s) = ra_launched s" and "finite (ra_waiting s)"
proof -
  have fin: "finite (ra_waiting s)" using assms by (metis race_sets_def finite_Un finite_lessThan)
  have "card (ra_waiting s \<union> set (map fst (ra_log s))) = card (ra_waiting s) + card (set (map fst (ra_log s)))"
    using assms fin by (intro card_Un_disjoint) (auto simp: race_sets_def)
  moreover have "card (set (map fst (ra_log s))) = length (ra_log s)"
    using assms by (metis distinct_card length_map race_sets_def)
  moreover have "card (ra_waiting s \<union> set (map fst (ra_log s))) = ra_launched s"
    using assms by (simp add: race_sets_def)
  ultimately show "card (ra_waiting s) + length (ra_log s) = ra_launched s" by simp
  show "finite (ra_waiting s)" by (rule fin)
qed

lemma race_sets_launch:
  assumes "race_sets ladder parallel s" and "ra_launched s < length ladder" and "card (ra_waiting s) < max 1 parallel"
  shows "race_sets ladder parallel (race_launch s)"
proof -
  have un: "ra_waiting s \<union> fst ` set (ra_log s) = {..<ra_launched s}" using assms(1) by (simp add: race_sets_def)
  then have new: "ra_launched s \<notin> ra_waiting s" "ra_launched s \<notin> fst ` set (ra_log s)" by (metis Un_iff lessThan_iff less_irrefl)+
  have "card (insert (ra_launched s) (ra_waiting s)) \<le> max 1 parallel"
    using assms(3) new race_sets_count(2) [OF assms(1)] by simp
  moreover have "insert (ra_launched s) (ra_waiting s) \<union> fst ` set (ra_log s) = {..<Suc (ra_launched s)}"
    using un by (simp add: lessThan_Suc)
  ultimately show ?thesis using assms(1,2) new by (simp add: race_sets_def race_launch_def)
qed

lemma race_sets_receive:
  assumes "race_sets ladder parallel s" and "i \<in> ra_waiting s"
    and "ra_launched s' = ra_launched s" and "ra_waiting s' = ra_waiting s - {i}" and "ra_log s' = ra_log s @ [(i, r)]"
  shows "race_sets ladder parallel s'" and "card (ra_waiting s') < max 1 parallel"
proof -
  have "ra_waiting s - {i} \<union> insert i (fst ` set (ra_log s)) = {..<ra_launched s}" "i \<notin> fst ` set (ra_log s)"
    using assms(1,2) by (auto simp: race_sets_def)
  moreover have "card (ra_waiting s - {i}) < card (ra_waiting s)"
    by (rule card_Diff1_less [OF race_sets_count(2) [OF assms(1)] assms(2)])
  ultimately show "race_sets ladder parallel s'" "card (ra_waiting s') < max 1 parallel"
    using assms by (auto simp: race_sets_def)
qed

lemma race_start_ok: "ladder \<noteq> [] \<Longrightarrow> race_ok ladder parallel race_start"
  by (cases ladder) (auto simp: race_ok_def race_sets_def race_start_def all_failed_def)

lemma race_tick_ok:
  assumes "race_ok ladder parallel s" and "ra_end s = None"
  shows "race_ok ladder parallel (race_tick ladder parallel s)"
proof (cases "ra_launched s < length ladder \<and> ra_launched s - length (ra_log s) < parallel")
  case True
  then have "race_sets ladder parallel (race_launch s)"
    using assms(1) race_sets_count(1) [of ladder parallel s] by (intro race_sets_launch) (auto simp: race_ok_def)
  then show ?thesis
    using assms True by (simp add: race_ok_def race_tick_def) (simp add: race_launch_def all_failed_def)
next
  case False
  then have "race_tick ladder parallel s = s" unfolding race_tick_def by (rule if_not_P)
  then show ?thesis using assms(1) by simp
qed

lemma race_result_ok:
  assumes ok: "race_ok ladder parallel s" and run: "ra_end s = None" and i: "i \<in> ra_waiting s"
  shows "race_ok ladder parallel (race_result ladder i r s)"
proof (cases r)
  case (Some p)
  have sets: "race_sets ladder parallel s" and fail: "all_failed s" using ok run by (simp_all add: race_ok_def)
  have "race_sets ladder parallel (race_result ladder i r s)"
    by (rule race_sets_receive(1) [OF sets i, of _ r]) (simp_all add: race_result_def Some)
  moreover have "sole_winner (race_result ladder i r s) i p"
    using fail by (auto simp: sole_winner_def all_failed_def race_result_def Some)
  ultimately show ?thesis by (auto simp: race_ok_def) (auto simp: race_result_def Some)
next
  case None
  let ?s = "s\<lparr>ra_log := ra_log s @ [(i, r)], ra_waiting := ra_waiting s - {i}, ra_cooled := ra_cooled s @ [ladder ! i]\<rparr>"
  have sets: "race_sets ladder parallel s" and fail: "all_failed s"
    and cooled: "ra_cooled s = map (\<lambda>(i, r). ladder ! i) (ra_log s)" using ok run by (simp_all add: race_ok_def)
  have s: "race_sets ladder parallel ?s" "card (ra_waiting ?s) < max 1 parallel"
    by (rule race_sets_receive [OF sets i]; simp)+
  have fail': "all_failed ?s" using fail by (simp add: all_failed_def None)
  have count: "card (ra_waiting ?s) + length (ra_log ?s) = ra_launched ?s" "finite (ra_waiting ?s)"
    using race_sets_count [OF s(1)] by simp_all
  show ?thesis
  proof (cases "ra_launched s < length ladder")
    case True
    then have "race_sets ladder parallel (race_launch ?s)" using s by (intro race_sets_launch) auto
    moreover have "race_result ladder i r s = race_launch ?s" using True by (simp add: race_result_def None)
    ultimately show ?thesis using run fail' cooled by (simp add: race_ok_def) (simp add: race_launch_def all_failed_def)
  next
    case False
    then have all: "ra_launched s = length ladder" using sets by (simp add: race_sets_def)
    show ?thesis
    proof (cases "ra_waiting ?s = {}")
      case True
      then have "ra_launched s = Suc (length (ra_log s))" using count(1) by (simp only: card.empty) simp
      then have "race_result ladder i r s = ?s\<lparr>ra_end := Some RaceExhausted\<rparr>"
        using False by (simp add: race_result_def None Let_def)
      moreover have "race_sets ladder parallel (?s\<lparr>ra_end := Some RaceExhausted\<rparr>)" using s(1) by (simp add: race_sets_def)
      ultimately show ?thesis using True all fail' cooled by (simp add: race_ok_def all_failed_def)
    next
      case waiting: False
      then have "card (ra_waiting ?s) \<noteq> 0" using count(2) by simp
      then have "race_result ladder i r s = ?s" using False count(1) by (simp add: race_result_def None Let_def)
      then show ?thesis using waiting s(1) run fail' cooled by (simp add: race_ok_def)
    qed
  qed
qed

lemma race_drain_ok:
  assumes "race_ok ladder parallel s" and "ra_end s = Some (RaceWon p c)" and "i \<in> ra_waiting s"
  shows "race_ok ladder parallel (race_drain i r s)"
proof -
  have sets: "race_sets ladder parallel s" using assms(1) by (simp add: race_ok_def)
  have "race_sets ladder parallel (race_drain i r s)"
    by (rule race_sets_receive(1) [OF sets assms(3), of _ r]) (simp_all add: race_drain_def)
  moreover obtain k where k: "sole_winner s k p" "c = ladder ! k" using assms(1,2) by (auto simp: race_ok_def)
  then have "sole_winner (race_drain i r s) k p" by (auto simp: sole_winner_def race_drain_def)
  ultimately show ?thesis using assms(2) k(2) by (auto simp: race_ok_def) (auto simp: race_drain_def)
qed

lemma race_reaches_ok: "race_reaches ladder parallel s \<Longrightarrow> race_ok ladder parallel s"
proof (induction rule: race_reaches.induct)
  case (race_cancel s)
  then show ?case by (simp add: race_ok_def race_sets_def all_failed_def)
next
  case (race_stop s)
  then show ?case by (simp add: race_ok_def race_sets_def all_failed_def)
qed (auto intro: race_start_ok race_tick_ok race_result_ok race_drain_ok)

text \<open>C25: The race ends. It never has more paths in flight than the configured number, it always waits
  for at least one dial while it is undecided, no candidate reports twice, and once every candidate of
  the ladder has reported it is over: a race whose dials all return takes at most one result per
  candidate.\<close>

theorem race_terminates:
  assumes "race_reaches ladder parallel s"
  shows "card (ra_waiting s) \<le> max 1 parallel \<and> length (ra_log s) \<le> length ladder \<and> distinct (map fst (ra_log s))
    \<and> (ra_end s = None \<longrightarrow> ra_waiting s \<noteq> {}) \<and> (length (ra_log s) = length ladder \<longrightarrow> ra_end s \<noteq> None)"
proof -
  have ok: "race_ok ladder parallel s" by (rule race_reaches_ok [OF assms])
  then have sets: "race_sets ladder parallel s" by (simp add: race_ok_def)
  note count = race_sets_count [OF sets]
  have "card (ra_waiting s) = 0" if "length (ra_log s) = length ladder"
    using that count(1) sets by (simp add: race_sets_def)
  then have "ra_waiting s = {}" if "length (ra_log s) = length ladder" using that count(2) by simp
  then show ?thesis using ok sets count(1) by (auto simp: race_ok_def race_sets_def)
qed

text \<open>C24: What the race reports is true. A win names a candidate of the ladder and the path its dial
  brought up, and every other session that came up before or after the win and was heard of is closed;
  a race that reports no path has tried every candidate of the ladder, each failed, and each is marked
  cooling.\<close>

theorem race_outcome:
  assumes "race_reaches ladder parallel s"
  shows "(ra_end s = Some (RaceWon p c) \<longrightarrow> c \<in> set ladder
       \<and> (\<exists>i < length ladder. c = ladder ! i \<and> (i, Some p) \<in> set (ra_log s)
            \<and> (\<forall>j q. (j, Some q) \<in> set (ra_log s) \<longrightarrow> j = i \<or> dp_sess q \<in> set (ra_closed s))))
    \<and> (ra_end s = Some RaceExhausted \<longrightarrow> fst ` set (ra_log s) = {..<length ladder}
       \<and> (\<forall>r \<in> snd ` set (ra_log s). r = None) \<and> set (ra_cooled s) = set ladder)"
proof -
  have ok: "race_ok ladder parallel s" by (rule race_reaches_ok [OF assms])
  then have sets: "race_sets ladder parallel s" by (simp add: race_ok_def)
  have bound: "i < length ladder" if "(i, r) \<in> set (ra_log s)" for i r
  proof -
    have "i \<in> {..<ra_launched s}" using that sets unfolding race_sets_def by (metis UnI2 fst_conv image_eqI set_map)
    then show ?thesis using sets by (simp add: race_sets_def)
  qed
  have won: "c \<in> set ladder \<and> (\<exists>i < length ladder. c = ladder ! i \<and> (i, Some p) \<in> set (ra_log s)
            \<and> (\<forall>j q. (j, Some q) \<in> set (ra_log s) \<longrightarrow> j = i \<or> dp_sess q \<in> set (ra_closed s)))"
    if ends: "ra_end s = Some (RaceWon p c)"
  proof -
    obtain i where i: "sole_winner s i p" "c = ladder ! i" using ok ends by (auto simp: race_ok_def)
    then have "i < length ladder" using bound by (auto simp: sole_winner_def)
    then show ?thesis using i by (auto simp: sole_winner_def)
  qed
  have none: "fst ` set (ra_log s) = {..<length ladder} \<and> (\<forall>r \<in> snd ` set (ra_log s). r = None) \<and> set (ra_cooled s) = set ladder"
    if "ra_end s = Some RaceExhausted"
  proof -
    have e: "ra_launched s = length ladder" "ra_waiting s = {}" "all_failed s" "ra_cooled s = map (\<lambda>(i, r). ladder ! i) (ra_log s)"
      using ok that by (simp_all add: race_ok_def)
    have idx: "fst ` set (ra_log s) = {..<length ladder}" using sets e(1,2) by (simp add: race_sets_def)
    have "set (ra_cooled s) = (!) ladder ` fst ` set (ra_log s)" by (force simp: e(4))
    also have "\<dots> = set ladder" unfolding idx by (force simp: in_set_conv_nth)
    finally show ?thesis using idx e(3) by (auto simp: all_failed_def)
  qed
  show ?thesis using won none by blast
qed

section \<open>Dialing one candidate\<close>

definition countryAttempts :: nat where "countryAttempts = 2"

record attempt_result =
  at_sess :: nat
  at_sid :: string
  at_exitID :: string
  at_exitPub :: bytes

datatype dial_error = NoTransport | ChainNotBuilt | NotPaired | FailedValidation | DialCancelled | DialStopped

text \<open>
  What one coordinator made of a request, and the walk over the coordinators in \<open>pairInCountry\<close>: the
  first session is taken, a silent member is marked unhealthy and the walk goes on.
\<close>

datatype link_outcome = LinkOK attempt_result | LinkSilent | LinkRefused | LinkCancelled | LinkStopped

fun pairInCountry :: "(string \<Rightarrow> link_outcome) \<Rightarrow> string list \<Rightarrow> (dial_error + attempt_result) \<times> string list" where
  "pairInCountry out [] = (Inl NotPaired, [])"
| "pairInCountry out (l # ls) =
     (case out l of
        LinkCancelled \<Rightarrow> (Inl DialCancelled, [])
      | LinkStopped \<Rightarrow> (Inl DialStopped, [])
      | LinkOK r \<Rightarrow> (Inr r, [])
      | LinkSilent \<Rightarrow> (let (res, bad) = pairInCountry out ls in (res, l # bad))
      | LinkRefused \<Rightarrow> pairInCountry out ls)"

text \<open>
  The attempts inside the country: \<open>chain k\<close> says that the chain of attempt \<open>k\<close> was built, \<open>pair k ex\<close> is
  the pairing with the failed sessions \<open>ex\<close> excluded and \<open>validate k\<close> the round trip of its probe. The
  sessions closed on the way are returned.
\<close>

fun dial_attempts ::
    "(nat \<Rightarrow> bool) \<Rightarrow> (nat \<Rightarrow> string list \<Rightarrow> dial_error + attempt_result) \<Rightarrow> (nat \<Rightarrow> duration option)
     \<Rightarrow> nat \<Rightarrow> nat \<Rightarrow> string list \<Rightarrow> dial_error option \<Rightarrow> (dial_error + dialed_path) \<times> nat list" where
  "dial_attempts chain pair validate 0 k exclude lastErr = (Inl (case lastErr of None \<Rightarrow> FailedValidation | Some e \<Rightarrow> e), [])"
| "dial_attempts chain pair validate (Suc left) k exclude lastErr =
     (if \<not> chain k then (Inl ChainNotBuilt, [])
      else case pair k exclude of
             Inl err \<Rightarrow> (Inl (case lastErr of None \<Rightarrow> err | Some e \<Rightarrow> e), [])
           | Inr r \<Rightarrow>
               (case validate k of
                  Some rtt \<Rightarrow> (Inr \<lparr>dp_sess = at_sess r, dp_exitID = at_exitID r, dp_exitPub = at_exitPub r, dp_rtt = rtt\<rparr>, [])
                | None \<Rightarrow>
                    (let (res, closed) = dial_attempts chain pair validate left (k + 1)
                           (if at_sid r \<noteq> [] then exclude @ [at_sid r] else exclude) (Some FailedValidation)
                     in (res, at_sess r # closed))))"

definition dialAndValidate ::
    "string list \<Rightarrow> (nat \<Rightarrow> bool) \<Rightarrow> (nat \<Rightarrow> string list \<Rightarrow> dial_error + attempt_result) \<Rightarrow> (nat \<Rightarrow> duration option)
     \<Rightarrow> candidate \<Rightarrow> (dial_error + dialed_path) \<times> nat list" where
  "dialAndValidate transports chain pair validate c =
     (if ca_Transport c \<notin> set transports then (Inl NoTransport, [])
      else dial_attempts chain pair validate countryAttempts 0 [] None)"

definition chainableLadder :: "bool \<Rightarrow> candidate list \<Rightarrow> candidate list" where
  "chainableLadder chaining l = (if \<not> chaining then l else filter (\<lambda>c. ca_Mode c \<noteq> ModeDirect) l)"

text \<open>A chaining client never dials an unchained path.\<close>

lemma chaining_never_direct: "c \<in> set (chainableLadder True (Ladder eqf inp)) \<Longrightarrow> ca_Mode c \<noteq> ModeDirect"
  by (simp add: chainableLadder_def)

text \<open>A silent coordinator is marked, and only those before the one that answered.\<close>

lemma pairInCountry_marks:
  "set (snd (pairInCountry out ls)) \<subseteq> {l \<in> set ls. out l = LinkSilent}"
  "fst (pairInCountry out ls) = Inl NotPaired \<Longrightarrow> set (snd (pairInCountry out ls)) = {l \<in> set ls. out l = LinkSilent}"
  by (induction ls) (auto simp: case_prod_unfold Let_def split: link_outcome.splits)

text \<open>A validated path is a paired session whose probe came back; every other session it paired is closed.\<close>

lemma dialAndValidate_path:
  assumes "dialAndValidate transports chain pair validate c = (Inr path, closed)"
  obtains (first) r where "pair 0 [] = Inr r" "validate 0 = Some (dp_rtt path)" "dp_sess path = at_sess r"
      "dp_exitPub path = at_exitPub r" "closed = []"
  | (second) r0 r ex where "pair 0 [] = Inr r0" "validate 0 = None" "pair 1 ex = Inr r" "validate 1 = Some (dp_rtt path)"
      "dp_sess path = at_sess r" "dp_exitPub path = at_exitPub r" "closed = [at_sess r0]"
proof -
  have run: "dial_attempts chain pair validate (Suc (Suc 0)) 0 [] None = (Inr path, closed)" "chain 0"
    using assms by (auto simp: dialAndValidate_def countryAttempts_def numeral_2_eq_2 split: if_splits)
  then obtain r0 where r0: "pair 0 [] = Inr r0" by (cases "pair 0 []") auto
  show ?thesis
  proof (cases "validate 0")
    case (Some rtt)
    then show ?thesis using first [of r0] run r0 by auto
  next
    case None
    define ex where "ex = (if at_sid r0 \<noteq> [] then [at_sid r0] else [])"
    obtain res cl where d: "dial_attempts chain pair validate (Suc 0) 1 ex (Some FailedValidation) = (res, cl)" by fastforce
    have "dial_attempts chain pair validate (Suc (Suc 0)) 0 [] None = (res, at_sess r0 # cl)"
      by (subst dial_attempts.simps(2)) (use d [unfolded ex_def] r0 None run(2) in \<open>auto simp del: dial_attempts.simps\<close>)
    then have rest: "dial_attempts chain pair validate (Suc 0) 1 ex (Some FailedValidation) = (Inr path, cl)" "closed = at_sess r0 # cl"
      using run(1) d by (simp_all del: dial_attempts.simps)
    then obtain r where r: "pair 1 ex = Inr r" by (cases "pair 1 ex") (auto split: if_splits)
    then have "validate 1 = Some (dp_rtt path) \<and> dp_sess path = at_sess r \<and> dp_exitPub path = at_exitPub r \<and> cl = []"
      using rest(1) by (cases "validate 1") (auto split: if_splits)
    then show ?thesis using second [OF r0 None r] rest(2) by simp
  qed
qed

text \<open>The retry asks for a different exit: it names the session that did not carry traffic.\<close>

lemma dialAndValidate_retry:
  assumes "ca_Transport c \<in> set transports" and "chain 0" and "chain 1" and "pair 0 [] = Inr r" and "validate 0 = None"
    and "at_sid r \<noteq> []" and "pair 1 [at_sid r] = Inr r'" and "validate 1 = Some rtt"
  shows "dialAndValidate transports chain pair validate c =
    (Inr \<lparr>dp_sess = at_sess r', dp_exitID = at_exitID r', dp_exitPub = at_exitPub r', dp_rtt = rtt\<rparr>, [at_sess r])"
  using assms by (simp add: dialAndValidate_def countryAttempts_def numeral_2_eq_2)

section \<open>Selecting a path\<close>

record country_offer =
  co_Country :: string
  co_Available :: int
  co_Busy :: bool

datatype select_error =
  SelUpdateRequired version version | SelNoCoordinator | SelUnroutable | SelNoCountry | SelNoCandidate
| SelRaceFailed | SelCancelled | SelStopped

text \<open>What \<open>poolCountries\<close> makes of the answer of the coordinators.\<close>

definition poolCountries ::
    "update_latch \<Rightarrow> select_error + country_offer list \<Rightarrow> select_error + country_offer list" where
  "poolCountries latch listed =
     (case listed of
        Inr (c # cs) \<Rightarrow> Inr (c # cs)
      | _ \<Rightarrow>
          (case updateRequired latch of
             Some (self, nv) \<Rightarrow> Inl (SelUpdateRequired self nv)
           | None \<Rightarrow>
               (case listed of
                  Inl SelNoCoordinator \<Rightarrow> Inl SelNoCoordinator
                | Inl SelUnroutable \<Rightarrow> Inl SelUnroutable
                | _ \<Rightarrow> Inr [])))"

record pool_config =
  pc_Geo :: string
  pc_transports :: "string list"
  pc_chaining :: bool

definition select_ladder ::
    "(string \<Rightarrow> string \<Rightarrow> bool) \<Rightarrow> pool_config \<Rightarrow> string \<Rightarrow> time \<Rightarrow> (candidate \<rightharpoonup> time) \<Rightarrow> sel_store \<Rightarrow> country_offer list
     \<Rightarrow> candidate list" where
  "select_ladder eqf cfg net now cooling store countries =
     chainableLadder (pc_chaining cfg)
       (Ladder eqf
         \<lparr>li_Geo = pc_Geo cfg,
          li_Countries = map (\<lambda>c. \<lparr>sc_Code = co_Country c, sc_Available = co_Available c, sc_Busy = co_Busy c,
            sc_RTT = sel_RTT store net (co_Country c) now\<rparr>) countries,
          li_Transports = pc_transports cfg, li_Learned = sel_Best store net (pc_Geo cfg) now,
          li_Cooling = Some (candidateCooling cooling now)\<rparr>)"

text \<open>\<open>race\<close> is how the race over a ladder ended; \<open>mkdir\<close> and \<open>io\<close> are the outcomes of persisting the winner.\<close>

definition selectPath ::
    "(string \<Rightarrow> string \<Rightarrow> bool) \<Rightarrow> pool_config \<Rightarrow> update_latch \<Rightarrow> update_latch \<Rightarrow> select_error + country_offer list
     \<Rightarrow> string \<Rightarrow> time \<Rightarrow> (candidate \<rightharpoonup> time) \<Rightarrow> (candidate list \<Rightarrow> race_end) \<Rightarrow> bool \<Rightarrow> write_io
     \<Rightarrow> sel_store \<Rightarrow> sel_file \<Rightarrow> (select_error + dialed_path \<times> candidate) \<times> sel_store \<times> sel_file" where
  "selectPath eqf cfg before after listed net now cooling race mkdir io store f =
     (case updateRequired before of
        Some (self, nv) \<Rightarrow> (Inl (SelUpdateRequired self nv), store, f)
      | None \<Rightarrow>
        (case poolCountries after listed of
           Inl err \<Rightarrow> (Inl err, store, f)
         | Inr countries \<Rightarrow>
             if countries = [] then (Inl SelNoCountry, store, f)
             else
               (let ladder = select_ladder eqf cfg net now cooling store countries
                in if ladder = [] then (Inl SelNoCandidate, store, f)
                   else case race ladder of
                          RaceWon path winner \<Rightarrow>
                            (let ms = dp_rtt path div 1000000;
                                 ms = (if ms < 1 then 1 else ms);
                                 (_, store', f') = sel_Put mkdir io
                                   \<lparr>sr_Net = net, sr_Geo = pc_Geo cfg, sr_Country = ca_Country winner,
                                    sr_Tr = ca_Transport winner, sr_Mode = ca_Mode winner, sr_RTTms = ms, sr_At = now\<rparr> store f
                             in (Inr (path, winner), store', f'))
                        | RaceExhausted \<Rightarrow> (Inl SelRaceFailed, store, f)
                        | RaceCancelled \<Rightarrow> (Inl SelCancelled, store, f)
                        | RaceStopped \<Rightarrow> (Inl SelStopped, store, f))))"

definition reselectRetries :: nat where "reselectRetries = 4"

text \<open>\<open>sel k\<close> is the selection of attempt \<open>k\<close>, \<open>intr k\<close> a cancellation or shutdown during the wait before it.\<close>

fun reselect_loop ::
    "(nat \<Rightarrow> select_error + 'p) \<Rightarrow> (nat \<Rightarrow> select_error option) \<Rightarrow> nat \<Rightarrow> nat \<Rightarrow> select_error \<Rightarrow> (select_error + 'p) \<times> nat" where
  "reselect_loop sel intr 0 k err = (Inl err, k)"
| "reselect_loop sel intr (Suc left) k err =
     (case (if k > 0 then intr k else None) of
        Some e \<Rightarrow> (Inl e, k)
      | None \<Rightarrow>
          (case sel k of
             Inr p \<Rightarrow> (Inr p, k + 1)
           | Inl e \<Rightarrow> reselect_loop sel intr left (k + 1) e))"

definition reselect :: "(nat \<Rightarrow> select_error + 'p) \<Rightarrow> (nat \<Rightarrow> select_error option) \<Rightarrow> (select_error + 'p) \<times> nat" where
  "reselect sel intr = reselect_loop sel intr reselectRetries 0 SelNoCandidate"

record pool_state =
  ps_active :: "dialed_path option"
  ps_current :: candidate
  ps_cooling :: "candidate \<rightharpoonup> time"
  ps_maintained :: bool

text \<open>
  One round of \<open>maintainPath\<close>: the session in use has closed. \<open>mesh\<close> says that the walk over peers found
  a directory and handed over to the supervisor; either way the loop ends when reselection fails.
\<close>

definition maintain_drop ::
    "time \<Rightarrow> select_error + dialed_path \<times> candidate \<Rightarrow> bool \<Rightarrow> pool_state \<Rightarrow> pool_state" where
  "maintain_drop now res mesh s =
     (let s = s\<lparr>ps_cooling := markCandidateCooling now (ps_current s) (ps_cooling s)\<rparr>
      in case res of
           Inr (path, winner) \<Rightarrow> s\<lparr>ps_active := Some path, ps_current := winner\<rparr>
         | Inl err \<Rightarrow> s\<lparr>ps_maintained := False\<rparr>)"

lemma reselect_bounded:
  "snd (reselect_loop sel intr left k err) \<le> k + left"
proof (induction left arbitrary: k err)
  case (Suc left)
  then show ?case using Suc [of "k + 1"] by (auto split: option.splits sum.splits)
qed simp

lemma reselect_selected:
  "fst (reselect_loop sel intr left k err) = Inr p \<Longrightarrow> \<exists>j. k \<le> j \<and> j < k + left \<and> sel j = Inr p"
proof (induction left arbitrary: k err)
  case (Suc left)
  show ?case
  proof (cases "sel k")
    case (Inl e)
    then have "fst (reselect_loop sel intr left (k + 1) e) = Inr p" using Suc.prems by (auto split: if_splits option.splits)
    then obtain j where "k + 1 \<le> j" "j < k + 1 + left" "sel j = Inr p" using Suc.IH by blast
    then show ?thesis by (intro exI [of _ j]) auto
  next
    case (Inr q)
    then show ?thesis using Suc.prems by (intro exI [of _ k]) (auto split: if_splits option.splits)
  qed
qed simp

text \<open>When reselection gives up, the path that closed stays the active one although nothing maintains it.\<close>

lemma gave_up_keeps_dead_path:
  "ps_active (maintain_drop now (Inl err) mesh s) = ps_active s \<and> \<not> ps_maintained (maintain_drop now (Inl err) mesh s)"
  by (simp add: maintain_drop_def)

section \<open>A race\<close>

definition demo_ladder :: "candidate list" where
  "demo_ladder = [\<lparr>ca_Transport = ''webrtc'', ca_Country = ''DE'', ca_Mode = ''direct''\<rparr>,
     \<lparr>ca_Transport = ''reality'', ca_Country = ''DE'', ca_Mode = ''direct''\<rparr>]"

definition demo_path :: dialed_path where
  "demo_path = \<lparr>dp_sess = 7, dp_exitID = ''e'', dp_exitPub = [1], dp_rtt = 5\<rparr>"

definition demo_race :: race where
  "demo_race = race_result demo_ladder 1 (Some demo_path) (race_result demo_ladder 0 None race_start)"

lemma demo_race_reached: "race_reaches demo_ladder 2 demo_race"
proof -
  have "race_reaches demo_ladder 2 (race_result demo_ladder 0 None race_start)"
    by (rule race_heard [OF race_started]) (simp_all add: demo_ladder_def race_start_def)
  then show ?thesis
    unfolding demo_race_def
    by (rule race_heard) (simp_all add: race_result_def race_start_def race_launch_def demo_ladder_def)
qed

theorem race_terminates_witness:
  "length (ra_log demo_race) = length demo_ladder \<and> ra_end demo_race \<noteq> None"
  using race_terminates [OF demo_race_reached]
  by (simp add: demo_race_def race_result_def race_start_def race_launch_def demo_ladder_def)

theorem race_outcome_witness:
  "ra_end demo_race = Some (RaceWon demo_path (demo_ladder ! 1)) \<and> demo_ladder ! 1 \<in> set demo_ladder"
  using race_outcome [OF demo_race_reached, of demo_path "demo_ladder ! 1"]
  by (simp add: demo_race_def race_result_def race_start_def race_launch_def demo_ladder_def)

end
