(* ===== verification/Chain.thy ===== *)
theory Chain
  imports Bootstrap Tables Pool Coordinator
begin

text \<open>
  Relay chains assembled by a client (\<open>core/relaychain.go\<close>): the signed directory of hops, the choice
  of the terminating exit and of the peeling hops with their network diversity, and the check of the
  relay the coordinator assigned. \<open>crypto/rand\<close> is a list of draws, a missing or failed draw being an
  error of the reader; the Ed25519 check, the JSON decoder, address parsing and the AS table embedded
  in the binary are parameters. The lemmas show that a chain is exactly as deep as asked, that its
  diversity report is true, and that diversity is given up only where no candidate could add any.
\<close>

section \<open>Hexadecimal node ids\<close>

definition hex_value :: "char \<Rightarrow> nat option" where
  "hex_value c =
     (let n = char_byte c
      in if 48 \<le> n \<and> n \<le> 57 then Some (n - 48)
         else if 97 \<le> n \<and> n \<le> 102 then Some (n - 87)
         else if 65 \<le> n \<and> n \<le> 70 then Some (n - 55)
         else None)"

text \<open>\<open>hex.DecodeString\<close>.\<close>

fun hex_decode :: "string \<Rightarrow> bytes option" where
  "hex_decode [] = Some []"
| "hex_decode [_] = None"
| "hex_decode (a # b # rest) =
     (case (hex_value a, hex_value b) of
        (Some x, Some y) \<Rightarrow> map_option ((#) (word_of_nat (x * 16 + y))) (hex_decode rest)
      | _ \<Rightarrow> None)"

lemma hex_value_digit: "n < 16 \<Longrightarrow> hex_value (hex_digit n) = Some n"
  by (auto simp: hex_value_def hex_digit_def Let_def char_byte_def)

lemma hex_decode_encode: "hex_decode (hex_encode b) = Some b"
proof (induction b)
  case (Cons x b)
  have "unat x div 16 < 16" using unat_less_exp [of x] by simp
  then show ?case using Cons by (simp add: hex_encode_def hex_value_digit)
qed (simp add: hex_encode_def)

section \<open>The relay directory\<close>

record relay_hop =
  rh_id :: string
  rh_pub :: bytes
  rh_dial :: string
  rh_operator :: string
  rh_country :: string
  rh_countryContradicted :: bool
  rh_pairable :: bool

record relay_directory =
  rd_hops :: "relay_hop list"
  rd_dialable :: "string set"
  rd_exitAddr :: "string \<rightharpoonup> string"
  rd_as :: "asn_table option"
  rd_own :: "string set"
  rd_reloadInterval :: duration

definition relayDirReloadInterval :: duration where
  "relayDirReloadInterval = 5 * 60 * 1000000000"

datatype chain_error =
    ErrNoMeshKey
  | ErrDirectory snapshot_error
  | ErrNoUsableHop
  | ErrHopsAboveMax int
  | ErrIngressNeedsRelayRole
  | ErrIngressNeedsKey
  | ErrIngressNeedsDirectory
  | ErrNoRelayDirectory
  | ErrChainNoExit nat
  | ErrChainTooShort nat
  | ErrChainNoHead
  | ErrChainNoPinnedHead string
  | ErrChainRelayIsHop nat string
  | ErrNoCandidates
  | ErrRandom
  | ErrNoChainToRebuild

text \<open>An entry without an id-key or without an address to dial is no hop.\<close>

definition entry_dial :: "entry \<Rightarrow> string" where
  "entry_dial ent = (if e_Ingress ent = [] \<and> e_Role ent = ''exit'' then e_Addr ent else e_Ingress ent)"

definition entry_hop :: "entry \<Rightarrow> relay_hop option" where
  "entry_hop ent =
     (case hex_decode (e_ID ent) of
        None \<Rightarrow> None
      | Some key \<Rightarrow>
          if length key \<noteq> 32 then None
          else if entry_dial ent = [] then None
          else Some \<lparr>rh_id = e_ID ent, rh_pub = key, rh_dial = entry_dial ent, rh_operator = e_Operator ent,
                     rh_country = e_Country ent, rh_countryContradicted = CountryContradicted ent,
                     rh_pairable = (e_Role ent = ''exit'' \<and> e_Addr ent \<noteq> [])\<rparr>)"

definition add_entry :: "string \<Rightarrow> relay_directory \<Rightarrow> entry \<Rightarrow> relay_directory" where
  "add_entry selfID d ent =
     (let addrs = {e_Addr ent, e_Ingress ent} - {[]};
          d1 = (if selfID \<noteq> [] \<and> e_ID ent = selfID then d\<lparr>rd_own := rd_own d \<union> addrs\<rparr> else d);
          d2 = d1\<lparr>rd_dialable := rd_dialable d1 \<union> addrs\<rparr>;
          d3 = (if e_Role ent = ''exit'' \<and> e_Addr ent \<noteq> []
                then d2\<lparr>rd_exitAddr := (rd_exitAddr d2)(e_ID ent \<mapsto> e_Addr ent)\<rparr> else d2)
      in case entry_hop ent of None \<Rightarrow> d3 | Some h \<Rightarrow> d3\<lparr>rd_hops := rd_hops d3 @ [h]\<rparr>)"

definition loadRelayDirectory ::
    "(bytes \<Rightarrow> bytes \<Rightarrow> bytes \<Rightarrow> bool) \<Rightarrow> (bytes \<Rightarrow> snapshot option) \<Rightarrow> asn_table option
      \<Rightarrow> bytes \<Rightarrow> bytes \<Rightarrow> string \<Rightarrow> time \<Rightarrow> chain_error + relay_directory" where
  "loadRelayDirectory verify unmarshal embeddedAS blob pub selfID now =
     (if length pub \<noteq> 32 then Inl ErrNoMeshKey
      else case VerifySigned verify unmarshal pub blob of
        Inl e \<Rightarrow> Inl (ErrDirectory e)
      | Inr snap \<Rightarrow>
          if now > s_ExpiresAt snap then Inl (ErrDirectory ErrSnapshotExpired)
          else
            (let d = foldl (add_entry selfID)
                       \<lparr>rd_hops = [], rd_dialable = {}, rd_exitAddr = Map.empty, rd_as = embeddedAS, rd_own = {},
                        rd_reloadInterval = relayDirReloadInterval\<rparr> (s_Entries snap)
             in if rd_hops d = [] then Inl ErrNoUsableHop else Inr d))"

text \<open>The configuration fields chaining reads.\<close>

record relay_config =
  rc_RelayIngress :: string
  rc_RelayHops :: int
  rc_ExitKeyHex :: string
  rc_RelayDirectory :: bytes
  rc_RelayDirectoryKey :: bytes
  rc_MeshPubKey :: bytes
  rc_ID :: string
  rc_Advertise :: string

definition RelayHopsMax :: int where "RelayHopsMax = 4"

definition directory_key :: "relay_config \<Rightarrow> bytes" where
  "directory_key cfg = (if rc_RelayDirectoryKey cfg = [] then rc_MeshPubKey cfg else rc_RelayDirectoryKey cfg)"

definition setupRelayChaining ::
    "(bytes \<Rightarrow> bytes \<Rightarrow> bytes \<Rightarrow> bool) \<Rightarrow> (bytes \<Rightarrow> snapshot option) \<Rightarrow> asn_table option
      \<Rightarrow> relay_config \<Rightarrow> string set \<Rightarrow> time \<Rightarrow> chain_error + relay_directory option" where
  "setupRelayChaining verify unmarshal embeddedAS cfg roles now =
     (let wantsForward = rc_RelayIngress cfg \<noteq> [];
          wantsChain = ''client'' \<in> roles \<and> rc_RelayHops cfg \<ge> 2
      in if rc_RelayHops cfg > RelayHopsMax then Inl (ErrHopsAboveMax (rc_RelayHops cfg))
         else if wantsForward \<and> ''relay'' \<notin> roles then Inl ErrIngressNeedsRelayRole
         else if wantsForward \<and> TrimSpace (rc_ExitKeyHex cfg) = [] then Inl ErrIngressNeedsKey
         else if wantsForward \<and> rc_RelayDirectory cfg = [] then Inl ErrIngressNeedsDirectory
         else if wantsChain \<and> rc_RelayDirectory cfg = [] then Inl ErrNoRelayDirectory
         else if rc_RelayDirectory cfg = [] then Inr None
         else map_sum (\<lambda>e. e) Some
                (loadRelayDirectory verify unmarshal embeddedAS (rc_RelayDirectory cfg) (directory_key cfg) (rc_ID cfg) now))"

text \<open>\<open>content\<close> is what reading the configured file returned.\<close>

definition reloadRelayDir ::
    "(bytes \<Rightarrow> bytes \<Rightarrow> bytes \<Rightarrow> bool) \<Rightarrow> (bytes \<Rightarrow> snapshot option) \<Rightarrow> asn_table option
      \<Rightarrow> relay_config \<Rightarrow> bytes option \<Rightarrow> time \<Rightarrow> relay_directory option \<Rightarrow> relay_directory option" where
  "reloadRelayDir verify unmarshal embeddedAS cfg content now held =
     (case content of
        None \<Rightarrow> held
      | Some b \<Rightarrow>
          (case loadRelayDirectory verify unmarshal embeddedAS b (directory_key cfg) (rc_ID cfg) now of
             Inl _ \<Rightarrow> held
           | Inr fresh \<Rightarrow> Some fresh))"

definition isSelfAddr :: "relay_config \<Rightarrow> relay_directory option \<Rightarrow> string \<Rightarrow> bool" where
  "isSelfAddr cfg dir a \<longleftrightarrow>
     a \<noteq> [] \<and> ((case dir of Some d \<Rightarrow> a \<in> rd_own d | None \<Rightarrow> False) \<or> a = rc_RelayIngress cfg
               \<or> rc_Advertise cfg \<noteq> [] \<and> a = rc_Advertise cfg)"

definition chainDepth :: "int \<Rightarrow> int" where
  "chainDepth n = (if n < 1 then 1 else n)"

definition chaining :: "relay_config \<Rightarrow> bool" where
  "chaining cfg \<longleftrightarrow> chainDepth (rc_RelayHops cfg) \<ge> 2"

definition exitsIn :: "(string \<Rightarrow> string) \<Rightarrow> relay_directory \<Rightarrow> string \<Rightarrow> relay_hop list" where
  "exitsIn up d cc =
     filter (\<lambda>h. rh_pairable h \<and> \<not> rh_countryContradicted h
               \<and> (Canonical up cc = [] \<or> Canonical up (rh_country h) = Canonical up cc)) (rd_hops d)"

definition contradictedIn :: "(string \<Rightarrow> string) \<Rightarrow> relay_directory \<Rightarrow> string \<Rightarrow> nat" where
  "contradictedIn up d cc =
     length (filter (\<lambda>h. rh_pairable h \<and> rh_countryContradicted h
               \<and> (Canonical up cc = [] \<or> Canonical up (rh_country h) = Canonical up cc)) (rd_hops d))"

section \<open>Random choices\<close>

type_synonym draws = "nat option list"

definition randIndex :: "nat \<Rightarrow> draws \<Rightarrow> (chain_error + nat) \<times> draws" where
  "randIndex n ds =
     (if n = 0 then (Inl ErrNoCandidates, ds)
      else case ds of
        [] \<Rightarrow> (Inl ErrRandom, [])
      | None # rest \<Rightarrow> (Inl ErrRandom, rest)
      | Some r # rest \<Rightarrow> (Inr (r mod n), rest))"

definition swap :: "'a list \<Rightarrow> nat \<Rightarrow> nat \<Rightarrow> 'a list" where
  "swap xs i k = xs[i := xs ! k, k := xs ! i]"

text \<open>The loop of \<open>shuffleHops\<close> from index \<open>i\<close> down to 1.\<close>

fun shuffle_from :: "nat \<Rightarrow> relay_hop list \<Rightarrow> draws \<Rightarrow> (chain_error + relay_hop list) \<times> draws" where
  "shuffle_from 0 h ds = (Inr h, ds)"
| "shuffle_from (Suc i) h ds =
     (case randIndex (Suc i + 1) ds of
        (Inl e, ds') \<Rightarrow> (Inl e, ds')
      | (Inr k, ds') \<Rightarrow> shuffle_from i (swap h (Suc i) k) ds')"

definition shuffleHops :: "relay_hop list \<Rightarrow> draws \<Rightarrow> (chain_error + relay_hop list) \<times> draws" where
  "shuffleHops h ds = shuffle_from (length h - 1) h ds"


section \<open>Diversity of hops\<close>

definition unknownASKey :: string where "unknownASKey = ''?''"

text \<open>\<open>asl\<close> is \<open>asn.OfHostPort\<close> against the directory's table.\<close>

type_synonym as_lookup = "string \<Rightarrow> AS option"

definition hopASKey :: "as_lookup \<Rightarrow> relay_hop \<Rightarrow> string \<times> bool" where
  "hopASKey asl h = (case asl (rh_dial h) of Some a \<Rightarrow> (AS_String a, True) | None \<Rightarrow> (unknownASKey, False))"

record hop_diversity =
  hd_asRepeated :: bool
  hd_opRepeated :: bool
  hd_resolved :: nat
  hd_unresolved :: nat

definition no_diversity :: hop_diversity where
  "no_diversity = \<lparr>hd_asRepeated = False, hd_opRepeated = False, hd_resolved = 0, hd_unresolved = 0\<rparr>"

definition degraded :: "hop_diversity \<Rightarrow> bool" where
  "degraded dv \<longleftrightarrow> hd_asRepeated dv \<or> hd_unresolved dv > 0"

record chain_fill =
  cf_out :: "relay_hop list"
  cf_usedOp :: "string set"
  cf_usedID :: "string set"
  cf_usedAS :: "string set"
  cf_div :: hop_diversity

definition empty_fill :: chain_fill where
  "empty_fill = \<lparr>cf_out = [], cf_usedOp = {}, cf_usedID = {}, cf_usedAS = {}, cf_div = no_diversity\<rparr>"

definition take_hop :: "as_lookup \<Rightarrow> relay_hop \<Rightarrow> chain_fill \<Rightarrow> chain_fill" where
  "take_hop asl h st =
     (let (key, resolved) = hopASKey asl h; dv = cf_div st
      in \<lparr>cf_out = cf_out st @ [h],
          cf_usedOp = (if rh_operator h \<noteq> [] then insert (rh_operator h) (cf_usedOp st) else cf_usedOp st),
          cf_usedID = insert (rh_id h) (cf_usedID st),
          cf_usedAS = insert key (cf_usedAS st),
          cf_div = \<lparr>hd_asRepeated = (hd_asRepeated dv \<or> key \<in> cf_usedAS st),
                    hd_opRepeated = (hd_opRepeated dv \<or> rh_operator h \<noteq> [] \<and> rh_operator h \<in> cf_usedOp st),
                    hd_resolved = (if resolved then hd_resolved dv + 1 else hd_resolved dv),
                    hd_unresolved = (if resolved then hd_unresolved dv else hd_unresolved dv + 1)\<rparr>\<rparr>)"

text \<open>Whether a pass with the given constraints may place a hop.\<close>

definition may_place :: "as_lookup \<Rightarrow> bool \<Rightarrow> bool \<Rightarrow> chain_fill \<Rightarrow> relay_hop \<Rightarrow> bool" where
  "may_place asl needAS needOp st h \<longleftrightarrow>
     rh_id h \<notin> cf_usedID st
     \<and> (needAS \<longrightarrow> snd (hopASKey asl h) \<and> fst (hopASKey asl h) \<notin> cf_usedAS st)
     \<and> \<not> (needOp \<and> rh_operator h \<noteq> [] \<and> rh_operator h \<in> cf_usedOp st)"

fun fill_pass :: "as_lookup \<Rightarrow> nat \<Rightarrow> bool \<Rightarrow> bool \<Rightarrow> relay_hop list \<Rightarrow> chain_fill \<Rightarrow> chain_fill" where
  "fill_pass asl want needAS needOp [] st = st"
| "fill_pass asl want needAS needOp (h # pool) st =
     (if length (cf_out st) = want then st
      else fill_pass asl want needAS needOp pool
             (if may_place asl needAS needOp st h then take_hop asl h st else st))"

fun fill_passes :: "as_lookup \<Rightarrow> nat \<Rightarrow> nat \<Rightarrow> nat \<Rightarrow> relay_hop list \<Rightarrow> chain_fill \<Rightarrow> chain_fill" where
  "fill_passes asl want pass 0 pool st = st"
| "fill_passes asl want pass (Suc left) pool st =
     (if length (cf_out st) < want
      then fill_passes asl want (pass + 1) left pool
             (fill_pass asl want (pass = 0 \<or> pass = 1) (pass = 0 \<or> pass = 2) pool st)
      else st)"

definition head_ok :: "string \<Rightarrow> relay_hop \<Rightarrow> bool" where
  "head_ok pinHead h \<longleftrightarrow> (if pinHead \<noteq> [] then rh_id h = pinHead else rh_pairable h)"

definition hop_pool :: "relay_hop list \<Rightarrow> string \<Rightarrow> relay_hop list" where
  "hop_pool cand excludeID = filter (\<lambda>h. rh_id h \<noteq> excludeID) cand"

definition selectHopsHeaded ::
    "as_lookup \<Rightarrow> relay_hop list \<Rightarrow> int \<Rightarrow> string \<Rightarrow> string \<Rightarrow> draws
      \<Rightarrow> (chain_error + relay_hop list \<times> hop_diversity) \<times> draws" where
  "selectHopsHeaded asl cand want excludeID pinHead ds =
     (if want \<le> 0 then (Inr ([], no_diversity), ds)
      else case shuffleHops (hop_pool cand excludeID) ds of
        (Inl e, ds') \<Rightarrow> (Inl e, ds')
      | (Inr pool, ds') \<Rightarrow>
          (case List.find (head_ok pinHead) pool of
             None \<Rightarrow> (Inl (if pinHead \<noteq> [] then ErrChainNoPinnedHead pinHead else ErrChainNoHead), ds')
           | Some h \<Rightarrow>
               (let st = fill_passes asl (nat want) 0 4 pool (take_hop asl h empty_fill)
                in if length (cf_out st) < nat want then (Inl (ErrChainTooShort (length (cf_out st))), ds')
                   else (Inr (cf_out st, cf_div st), ds'))))"

definition selectHops ::
    "as_lookup \<Rightarrow> relay_hop list \<Rightarrow> int \<Rightarrow> string \<Rightarrow> draws \<Rightarrow> (chain_error + relay_hop list \<times> hop_diversity) \<times> draws" where
  "selectHops asl cand want excludeID ds = selectHopsHeaded asl cand want excludeID [] ds"

section \<open>Choosing the exit and assembling the chain\<close>

text \<open>\<open>avoid\<close> is the cooling predicate, \<open>None\<close> for \<open>nil\<close>.\<close>

definition hopsAvoiding :: "relay_hop list \<Rightarrow> (string \<Rightarrow> bool) option \<Rightarrow> string \<Rightarrow> relay_hop list" where
  "hopsAvoiding cand avoid pinHead =
     (case avoid of
        None \<Rightarrow> cand
      | Some cooling \<Rightarrow> filter (\<lambda>h. rh_id h = pinHead \<or> \<not> cooling (rh_id h)) cand)"

definition exit_addr :: "relay_directory \<Rightarrow> string \<Rightarrow> string" where
  "exit_addr d nd = (case rd_exitAddr d nd of None \<Rightarrow> [] | Some a \<Rightarrow> a)"

definition chooseChainExitAvoiding ::
    "(string \<Rightarrow> string) \<Rightarrow> relay_directory \<Rightarrow> string \<Rightarrow> (string \<Rightarrow> bool) option \<Rightarrow> draws
      \<Rightarrow> (chain_error + relay_hop) \<times> draws" where
  "chooseChainExitAvoiding up d country avoid ds =
     (let usable = filter (\<lambda>h. \<not> (case avoid of None \<Rightarrow> False | Some cooling \<Rightarrow> cooling (rh_id h))
                             \<and> exit_addr d (rh_id h) \<noteq> []) (exitsIn up d country)
      in if usable = [] then (Inl (ErrChainNoExit (contradictedIn up d country)), ds)
         else case randIndex (length usable) ds of
           (Inl e, ds') \<Rightarrow> (Inl e, ds')
         | (Inr i, ds') \<Rightarrow> (Inr (usable ! i), ds'))"

record chain_choice =
  cc_exit :: relay_hop
  cc_hops :: "relay_hop list"
  cc_div :: hop_diversity

definition selectChain ::
    "(string \<Rightarrow> string) \<Rightarrow> (asn_table option \<Rightarrow> as_lookup) \<Rightarrow> relay_directory \<Rightarrow> int \<Rightarrow> string \<Rightarrow> string
      \<Rightarrow> (string \<Rightarrow> bool) option \<Rightarrow> draws \<Rightarrow> (chain_error + chain_choice) \<times> draws" where
  "selectChain up asOf d n country pinHead avoid ds =
     (case chooseChainExitAvoiding up d country avoid ds of
        (Inl e, ds') \<Rightarrow> (Inl e, ds')
      | (Inr ex, ds') \<Rightarrow>
          (case selectHopsHeaded (asOf (rd_as d)) (hopsAvoiding (rd_hops d) avoid pinHead) (n - 1) (rh_id ex) pinHead ds' of
             (Inl e, ds'') \<Rightarrow> (Inl e, ds'')
           | (Inr (hops, dv), ds'') \<Rightarrow> (Inr \<lparr>cc_exit = ex, cc_hops = hops, cc_div = dv\<rparr>, ds'')))"

record chain_plan =
  cp_hops :: "relay_hop list"
  cp_exitID :: string
  cp_exitPub :: bytes
  cp_exitDia :: string
  cp_country :: string

definition firstHopID :: "chain_plan option \<Rightarrow> string" where
  "firstHopID p = (case p of None \<Rightarrow> [] | Some p \<Rightarrow> if cp_hops p = [] then [] else rh_id (cp_hops p ! 0))"

text \<open>Returned with the plan: whether a cooling node was reused, and the diversity that is reported.\<close>

definition buildChainHeaded ::
    "(string \<Rightarrow> string) \<Rightarrow> (asn_table option \<Rightarrow> as_lookup) \<Rightarrow> relay_directory option \<Rightarrow> (string \<Rightarrow> bool) \<Rightarrow> int
      \<Rightarrow> string \<Rightarrow> string \<Rightarrow> draws \<Rightarrow> (chain_error + chain_plan \<times> bool \<times> hop_diversity) \<times> draws" where
  "buildChainHeaded up asOf dir cooling n country pinHead ds =
     (case dir of
        None \<Rightarrow> (Inl ErrNoRelayDirectory, ds)
      | Some d \<Rightarrow>
          (let plan = (\<lambda>c. \<lparr>cp_hops = cc_hops c, cp_exitID = rh_id (cc_exit c), cp_exitPub = rh_pub (cc_exit c),
                           cp_exitDia = exit_addr d (rh_id (cc_exit c)), cp_country = country\<rparr>)
           in case selectChain up asOf d n country pinHead (Some cooling) ds of
                (Inr c, ds') \<Rightarrow> (Inr (plan c, False, cc_div c), ds')
              | (Inl e, ds') \<Rightarrow>
                  (case selectChain up asOf d n country pinHead None ds' of
                     (Inr c, ds'') \<Rightarrow> (Inr (plan c, True, cc_div c), ds'')
                   | (Inl _, ds'') \<Rightarrow> (Inl e, ds''))))"

definition buildChain ::
    "(string \<Rightarrow> string) \<Rightarrow> (asn_table option \<Rightarrow> as_lookup) \<Rightarrow> relay_directory option \<Rightarrow> (string \<Rightarrow> bool) \<Rightarrow> int
      \<Rightarrow> string \<Rightarrow> draws \<Rightarrow> (chain_error + chain_plan \<times> bool \<times> hop_diversity) \<times> draws" where
  "buildChain up asOf dir cooling n country ds = buildChainHeaded up asOf dir cooling n country [] ds"

definition chainFor ::
    "(string \<Rightarrow> string) \<Rightarrow> (asn_table option \<Rightarrow> as_lookup) \<Rightarrow> relay_directory option \<Rightarrow> (string \<Rightarrow> bool) \<Rightarrow> relay_config
      \<Rightarrow> string \<Rightarrow> string \<Rightarrow> draws \<Rightarrow> (chain_error + chain_plan option) \<times> draws" where
  "chainFor up asOf dir cooling cfg mode country ds =
     (if mode \<noteq> ''relay'' \<or> \<not> chaining cfg then (Inr None, ds)
      else case buildChain up asOf dir cooling (chainDepth (rc_RelayHops cfg)) country ds of
        (Inl e, ds') \<Rightarrow> (Inl e, ds')
      | (Inr (plan, _), ds') \<Rightarrow> (Inr (Some plan), ds'))"

definition rebuildChain ::
    "(string \<Rightarrow> string) \<Rightarrow> (asn_table option \<Rightarrow> as_lookup) \<Rightarrow> relay_directory option \<Rightarrow> (string \<Rightarrow> bool)
      \<Rightarrow> chain_plan option \<Rightarrow> draws \<Rightarrow> (chain_error + chain_plan) \<times> draws" where
  "rebuildChain up asOf dir cooling prev ds =
     (case prev of
        None \<Rightarrow> (Inl ErrNoChainToRebuild, ds)
      | Some p \<Rightarrow>
          if cp_hops p = [] then (Inl ErrNoChainToRebuild, ds)
          else case buildChainHeaded up asOf dir cooling (int (length (cp_hops p)) + 1) (cp_country p) (rh_id (cp_hops p ! 0)) ds of
            (Inl e, ds') \<Rightarrow> (Inl e, ds')
          | (Inr (plan, _), ds') \<Rightarrow> (Inr plan, ds'))"

definition relayTagFor :: "string \<Rightarrow> string" where
  "relayTagFor nd = hex_encode (take 8 (sha256 (bytes_of_string ''bacchus-relay-tag'' @ [0] @ bytes_of_string nd)))"

fun disjoint_from :: "nat \<Rightarrow> relay_hop list \<Rightarrow> string \<Rightarrow> chain_error option" where
  "disjoint_from i [] tag = None"
| "disjoint_from i (h # hs) tag =
     (if relayTagFor (rh_id h) = tag then Some (ErrChainRelayIsHop (i + 1) (rh_id h)) else disjoint_from (i + 1) hs tag)"

definition verifyChainDisjoint :: "chain_plan option \<Rightarrow> string \<Rightarrow> chain_error option" where
  "verifyChainDisjoint plan tag =
     (case plan of None \<Rightarrow> None | Some p \<Rightarrow> if tag = [] then None else disjoint_from 0 (cp_hops p) tag)"


section \<open>What a shuffle and a fill keep\<close>

lemma mset_swap_list: "i < length xs \<Longrightarrow> k < length xs \<Longrightarrow> mset (swap xs i k) = mset xs"
  by (simp add: swap_def mset_swap)

lemma shuffle_from_mset:
  "i < length h \<or> i = 0 \<Longrightarrow> shuffle_from i h ds = (Inr h', ds') \<Longrightarrow> mset h' = mset h"
proof (induction i h ds arbitrary: h' ds' rule: shuffle_from.induct)
  case (2 i h ds)
  then obtain k ds1 where k: "randIndex (Suc i + 1) ds = (Inr k, ds1)"
      and rest: "shuffle_from i (swap h (Suc i) k) ds1 = (Inr h', ds')"
    by (auto split: prod.splits sum.splits)
  have "k < Suc i + 1" using k by (auto simp: randIndex_def split: list.splits option.splits)
  then show ?case using 2(1) [OF k [symmetric] _ _ rest] 2(2) by (simp add: mset_swap_list) (simp add: swap_def)
qed auto

lemma shuffleHops_mset: "shuffleHops h ds = (Inr h', ds') \<Longrightarrow> mset h' = mset h"
  unfolding shuffleHops_def by (rule shuffle_from_mset) auto

lemma shuffleHops_set: "shuffleHops h ds = (Inr h', ds') \<Longrightarrow> set h' = set h"
  by (metis set_mset_mset shuffleHops_mset)

abbreviation as_key :: "as_lookup \<Rightarrow> relay_hop \<Rightarrow> string" where
  "as_key asl h \<equiv> fst (hopASKey asl h)"

abbreviation as_resolved :: "as_lookup \<Rightarrow> relay_hop \<Rightarrow> bool" where
  "as_resolved asl h \<equiv> snd (hopASKey asl h)"

text \<open>The fill's sets and counters describe the hops placed so far.\<close>

definition fill_ok :: "as_lookup \<Rightarrow> relay_hop list \<Rightarrow> chain_fill \<Rightarrow> bool" where
  "fill_ok asl pool st \<longleftrightarrow>
     set (cf_out st) \<subseteq> set pool \<and> distinct (map rh_id (cf_out st))
     \<and> cf_usedID st = rh_id ` set (cf_out st)
     \<and> cf_usedAS st = as_key asl ` set (cf_out st)
     \<and> cf_usedOp st = rh_operator ` set (cf_out st) - {[]}
     \<and> cf_div st =
         \<lparr>hd_asRepeated = (\<not> distinct (map (as_key asl) (cf_out st))),
          hd_opRepeated = (\<not> distinct (filter (\<lambda>p. p \<noteq> []) (map rh_operator (cf_out st)))),
          hd_resolved = length (filter (as_resolved asl) (cf_out st)),
          hd_unresolved = length (filter (\<lambda>h. \<not> as_resolved asl h) (cf_out st))\<rparr>"

lemma fill_ok_empty: "fill_ok asl pool empty_fill"
  by (simp add: fill_ok_def empty_fill_def no_diversity_def)

lemma take_hop_out [simp]: "cf_out (take_hop asl h st) = cf_out st @ [h]"
  by (simp add: take_hop_def Let_def case_prod_unfold)

lemma fill_ok_take:
  assumes "fill_ok asl pool st" and "h \<in> set pool" and "rh_id h \<notin> cf_usedID st"
  shows "fill_ok asl pool (take_hop asl h st)"
  using assms by (auto simp: fill_ok_def take_hop_def Let_def case_prod_unfold)

lemma fill_pass_ok:
  "fill_ok asl pool st \<Longrightarrow> set xs \<subseteq> set pool \<Longrightarrow> fill_ok asl pool (fill_pass asl want na no xs st)"
proof (induction asl want na no xs st rule: fill_pass.induct)
  case (2 asl want na no h xs st)
  have "fill_ok asl pool (if may_place asl na no st h then take_hop asl h st else st)"
    using 2(2,3) fill_ok_take [of asl pool st h] by (simp add: may_place_def)
  with 2 show ?case by simp
qed simp

lemma fill_passes_ok:
  "fill_ok asl pool st \<Longrightarrow> fill_ok asl pool (fill_passes asl want p n pool st)"
  by (induction asl want p n pool st rule: fill_passes.induct) (auto intro: fill_pass_ok)

lemma fill_pass_extends: "\<exists>ys. cf_out (fill_pass asl want na no xs st) = cf_out st @ ys"
proof (induction asl want na no xs st rule: fill_pass.induct)
  case (2 asl want na no h pool st)
  then show ?case by (cases "length (cf_out st) = want") (auto split: if_splits)
qed simp

lemma fill_passes_extends: "\<exists>ys. cf_out (fill_passes asl want p n pool st) = cf_out st @ ys"
proof (induction asl want p n pool st rule: fill_passes.induct)
  case (2 asl want pass left pool st)
  show ?case
    using 2 fill_pass_extends [of asl want "pass = 0 \<or> pass = 1" "pass = 0 \<or> pass = 2" pool st]
    by auto
qed simp

lemma fill_pass_length:
  "length (cf_out st) \<le> want \<Longrightarrow> length (cf_out (fill_pass asl want na no xs st)) \<le> want"
  by (induction asl want na no xs st rule: fill_pass.induct) auto

lemma fill_passes_length:
  "length (cf_out st) \<le> want \<Longrightarrow> length (cf_out (fill_passes asl want p n pool st)) \<le> want"
  by (induction asl want p n pool st rule: fill_passes.induct) (auto simp: fill_pass_length)


section \<open>Diversity is given up last\<close>

text \<open>All hops behind the head are placed in a network, and no network repeats.\<close>

definition tail_diverse :: "as_lookup \<Rightarrow> relay_hop list \<Rightarrow> bool" where
  "tail_diverse asl hs \<longleftrightarrow> distinct (map (as_key asl) hs) \<and> (\<forall>h \<in> set (tl hs). as_resolved asl h)"

text \<open>No candidate outside the chain would add a network to it.\<close>

definition as_exhausted :: "as_lookup \<Rightarrow> relay_hop list \<Rightarrow> relay_hop list \<Rightarrow> bool" where
  "as_exhausted asl pool hs \<longleftrightarrow>
     (\<forall>h \<in> set pool. rh_id h \<notin> rh_id ` set hs \<longrightarrow> as_resolved asl h \<longrightarrow> as_key asl h \<in> as_key asl ` set hs)"

lemma as_exhausted_mono: "as_exhausted asl pool hs \<Longrightarrow> as_exhausted asl pool (hs @ ys)"
  by (auto simp: as_exhausted_def)

lemma take_hop_diverse:
  assumes "fill_ok asl pool st" and "cf_out st \<noteq> []" and "tail_diverse asl (cf_out st)"
    and "may_place asl True no st h"
  shows "tail_diverse asl (cf_out (take_hop asl h st))"
  using assms by (cases "cf_out st") (auto simp: tail_diverse_def may_place_def fill_ok_def)

lemma fill_pass_diverse:
  assumes "fill_ok asl pool st" and "set xs \<subseteq> set pool" and "cf_out st \<noteq> []" and "tail_diverse asl (cf_out st)"
  shows "tail_diverse asl (cf_out (fill_pass asl want True no xs st))"
  using assms
proof (induction xs arbitrary: st)
  case (Cons h xs)
  let ?st = "if may_place asl True no st h then take_hop asl h st else st"
  have "fill_ok asl pool ?st" "cf_out ?st \<noteq> []" "tail_diverse asl (cf_out ?st)"
    using Cons.prems fill_ok_take [of asl pool st h] take_hop_diverse [of asl pool st no h]
    by (auto simp: may_place_def)
  then show ?case using Cons by simp
qed simp

lemma fill_pass_saturates:
  assumes "fill_ok asl pool st" and "set xs \<subseteq> set pool" and "length (cf_out st) \<le> want"
    and "length (cf_out (fill_pass asl want na no xs st)) < want" and "h \<in> set xs"
  shows "\<not> may_place asl na no (fill_pass asl want na no xs st) h"
  using assms
proof (induction xs arbitrary: st)
  case (Cons x xs)
  let ?st = "if may_place asl na no st x then take_hop asl x st else st"
  let ?fin = "fill_pass asl want na no xs ?st"
  have lt: "length (cf_out st) < want" and e: "fill_pass asl want na no (x # xs) st = ?fin"
    using Cons.prems by (auto split: if_splits)
  have ok: "fill_ok asl pool ?st" using Cons.prems fill_ok_take [of asl pool st x] by (auto simp: may_place_def)
  have len: "length (cf_out ?st) \<le> want" using lt by auto
  have fin: "length (cf_out ?fin) < want" using Cons.prems(4) unfolding e .
  have ok': "fill_ok asl pool ?fin" using ok Cons.prems(2) by (intro fill_pass_ok) auto
  obtain ys where ys: "cf_out ?fin = cf_out ?st @ ys" using fill_pass_extends by blast
  show ?case
  proof (cases "h \<in> set xs")
    case True
    show ?thesis unfolding e by (rule Cons.IH [OF ok _ len fin True]) (use Cons.prems(2) in auto)
  next
    case False
    with Cons.prems(5) have [simp]: "h = x" by simp
    show ?thesis
    proof (cases "may_place asl na no st x")
      case True
      then have "x \<in> set (cf_out ?fin)" using ys by simp
      then show ?thesis unfolding e using ok' by (auto simp: fill_ok_def may_place_def)
    next
      case False
      have "cf_usedID st \<subseteq> cf_usedID ?fin" "cf_usedAS st \<subseteq> cf_usedAS ?fin" "cf_usedOp st \<subseteq> cf_usedOp ?fin"
        using ok' ys Cons.prems(1) False by (auto simp: fill_ok_def)
      with False show ?thesis unfolding e by (auto simp: may_place_def)
    qed
  qed
qed simp

lemma fill_pass_exhausts:
  assumes "fill_ok asl pool st" and "length (cf_out st) \<le> want"
    and "length (cf_out (fill_pass asl want True False pool st)) < want"
  shows "as_exhausted asl pool (cf_out (fill_pass asl want True False pool st))"
proof -
  have "fill_ok asl pool (fill_pass asl want True False pool st)" using assms(1) by (intro fill_pass_ok) auto
  then show ?thesis
    using fill_pass_saturates [OF assms(1) _ assms(2,3)]
    by (auto simp: as_exhausted_def may_place_def fill_ok_def)
qed

lemma fill_pass_places_all:
  assumes "fill_ok asl pool st" and "length (cf_out st) \<le> want"
    and "length (cf_out (fill_pass asl want False False pool st)) < want"
  shows "rh_id ` set pool \<subseteq> rh_id ` set (cf_out (fill_pass asl want False False pool st))"
proof -
  have "fill_ok asl pool (fill_pass asl want False False pool st)" using assms(1) by (intro fill_pass_ok) auto
  then show ?thesis
    using fill_pass_saturates [OF assms(1) _ assms(2,3)] by (auto simp: may_place_def fill_ok_def)
qed


lemma fill_four_passes:
  assumes ok: "fill_ok asl pool st" and one: "length (cf_out st) = 1" and want: "1 \<le> want"
  defines "fin \<equiv> fill_passes asl want 0 4 pool st"
  shows "tail_diverse asl (cf_out fin) \<or> as_exhausted asl pool (cf_out fin)"
    and "length (cf_out fin) < want \<Longrightarrow> rh_id ` set pool \<subseteq> rh_id ` set (cf_out fin)"
proof -
  define s1 where "s1 = fill_pass asl want True True pool st"
  define s2 where "s2 = fill_pass asl want True False pool s1"
  define s3 where "s3 = fill_pass asl want False True pool s2"
  define s4 where "s4 = fill_pass asl want False False pool s3"
  have fin: "fin = (if length (cf_out st) < want then if length (cf_out s1) < want then
      if length (cf_out s2) < want then if length (cf_out s3) < want then s4 else s3 else s2 else s1 else st)"
    by (simp add: fin_def s1_def s2_def s3_def s4_def eval_nat_numeral)
  have oks: "fill_ok asl pool s1" "fill_ok asl pool s2" "fill_ok asl pool s3"
    using ok by (simp_all add: s1_def s2_def s3_def fill_pass_ok)
  have lens: "length (cf_out s1) \<le> want" "length (cf_out s2) \<le> want" "length (cf_out s3) \<le> want"
    using one want by (simp_all add: s1_def s2_def s3_def fill_pass_length)
  have "cf_out st \<noteq> []" and d0: "tail_diverse asl (cf_out st)"
    using one by (auto simp: tail_diverse_def length_Suc_conv)
  then have d1: "tail_diverse asl (cf_out s1)" and "cf_out s1 \<noteq> []"
    using fill_pass_diverse [OF ok] fill_pass_extends [of asl want True True pool st] by (auto simp: s1_def)
  then have d2: "tail_diverse asl (cf_out s2)"
    using fill_pass_diverse [OF oks(1)] by (auto simp: s2_def)
  have x2: "as_exhausted asl pool (cf_out s2)" if "length (cf_out s2) < want"
    using fill_pass_exhausts [OF oks(1) lens(1)] that by (simp add: s2_def)
  obtain ys zs where ext: "cf_out s3 = cf_out s2 @ ys" "cf_out s4 = cf_out s3 @ zs"
    using fill_pass_extends unfolding s3_def s4_def by meson
  show "tail_diverse asl (cf_out fin) \<or> as_exhausted asl pool (cf_out fin)"
    using d0 d1 d2 x2 as_exhausted_mono [of asl pool "cf_out s2"]
    by (simp add: fin ext)
  show "rh_id ` set pool \<subseteq> rh_id ` set (cf_out fin)" if "length (cf_out fin) < want"
    using fill_pass_places_all [OF oks(3) lens(3)] that unfolding fin by (auto simp: s4_def split: if_splits)
qed

lemma take_hop_start:
  "h \<in> set pool \<Longrightarrow> fill_ok asl pool (take_hop asl h empty_fill)" "length (cf_out (take_hop asl h empty_fill)) = 1"
  using fill_ok_take [OF fill_ok_empty, of h pool asl] by (simp_all add: empty_fill_def)

text \<open>The result of the selection, with everything the caller relies on.\<close>

lemma selectHopsHeaded_result:
  assumes "selectHopsHeaded asl cand want excludeID pinHead ds = (Inr (hops, dv), ds')" and "1 \<le> want"
  shows "int (length hops) = want" and "distinct (map rh_id hops)" and "set hops \<subseteq> set (hop_pool cand excludeID)"
    and "head_ok pinHead (hops ! 0)"
    and "\<exists>st. fill_ok asl (hop_pool cand excludeID) st \<and> cf_out st = hops \<and> cf_div st = dv"
    and "tail_diverse asl hops \<or> as_exhausted asl (hop_pool cand excludeID) hops"
proof -
  obtain pool ds1 h where sh: "shuffleHops (hop_pool cand excludeID) ds = (Inr pool, ds1)"
      and h: "List.find (head_ok pinHead) pool = Some h"
      and out: "\<not> length (cf_out (fill_passes asl (nat want) 0 4 pool (take_hop asl h empty_fill))) < nat want"
        "hops = cf_out (fill_passes asl (nat want) 0 4 pool (take_hop asl h empty_fill))"
        "dv = cf_div (fill_passes asl (nat want) 0 4 pool (take_hop asl h empty_fill))"
    using assms by (auto simp: selectHopsHeaded_def Let_def
        split: prod.splits sum.splits option.splits if_splits)
  define st where "st = take_hop asl h empty_fill"
  define fin where "fin = fill_passes asl (nat want) 0 4 pool st"
  have sp: "set pool = set (hop_pool cand excludeID)" using shuffleHops_set [OF sh] .
  have hp: "h \<in> set pool" "head_ok pinHead h" using h by (auto simp: find_Some_iff)
  have ok0: "fill_ok asl pool st" "length (cf_out st) = 1"
    using take_hop_start hp by (simp_all add: st_def)
  then have ok: "fill_ok asl pool fin" unfolding fin_def by (intro fill_passes_ok)
  have len: "length (cf_out fin) \<le> nat want"
    unfolding fin_def using ok0 assms(2) by (intro fill_passes_length) simp
  obtain ys where "cf_out fin = [h] @ ys"
    using fill_passes_extends [of asl "nat want" 0 4 pool st] by (auto simp: fin_def st_def empty_fill_def)
  then show "head_ok pinHead (hops ! 0)" using hp out(2) by (simp add: fin_def st_def)
  show "int (length hops) = want" using out(1,2) len assms(2) by (simp add: fin_def st_def)
  have ok': "fill_ok asl (hop_pool cand excludeID) fin" using ok by (simp add: fill_ok_def sp)
  then show "distinct (map rh_id hops)" "set hops \<subseteq> set (hop_pool cand excludeID)"
    using out(2) by (auto simp: fill_ok_def fin_def st_def)
  show "\<exists>st. fill_ok asl (hop_pool cand excludeID) st \<and> cf_out st = hops \<and> cf_div st = dv"
    using ok' out(2,3) by (auto simp: fin_def st_def)
  show "tail_diverse asl hops \<or> as_exhausted asl (hop_pool cand excludeID) hops"
    using fill_four_passes(1) [OF ok0, of "nat want"] assms(2) out(2)
    by (auto simp: as_exhausted_def sp fin_def st_def)
qed


lemma selectHopsHeaded_depth:
  assumes "selectHopsHeaded asl cand (n - 1) excludeID pinHead ds = (Inr (hops, dv), ds')" and "1 \<le> n"
  shows "int (length hops) = n - 1" "distinct (map rh_id hops)" "set hops \<subseteq> set (hop_pool cand excludeID)"
    "2 \<le> n \<Longrightarrow> head_ok pinHead (hops ! 0)"
proof -
  have "n = 1 \<Longrightarrow> hops = []" using assms(1) by (simp add: selectHopsHeaded_def)
  then show "int (length hops) = n - 1" "distinct (map rh_id hops)" "set hops \<subseteq> set (hop_pool cand excludeID)"
      "2 \<le> n \<Longrightarrow> head_ok pinHead (hops ! 0)"
    using selectHopsHeaded_result(1-4) [OF assms(1)] assms(2) by (cases "n = 1"; auto)+
qed

text \<open>The selection fails only for want of hops: of a head, or of enough distinct ids.\<close>

lemma selectHopsHeaded_finds:
  assumes "shuffleHops (hop_pool cand excludeID) ds = (Inr pool, ds')" and "1 \<le> want"
    and "\<exists>h \<in> set (hop_pool cand excludeID). head_ok pinHead h"
    and "nat want \<le> card (rh_id ` set (hop_pool cand excludeID))"
  shows "\<exists>hops dv. selectHopsHeaded asl cand want excludeID pinHead ds = (Inr (hops, dv), ds')"
proof -
  have sp: "set pool = set (hop_pool cand excludeID)" using shuffleHops_set [OF assms(1)] .
  obtain h where h: "List.find (head_ok pinHead) pool = Some h"
    using assms(3) sp by (cases "List.find (head_ok pinHead) pool") (auto simp: find_None_iff)
  then have hp: "h \<in> set pool" by (auto simp: find_Some_iff)
  define fin where "fin = fill_passes asl (nat want) 0 4 pool (take_hop asl h empty_fill)"
  have "\<not> length (cf_out fin) < nat want"
  proof
    assume short: "length (cf_out fin) < nat want"
    have "rh_id ` set pool \<subseteq> rh_id ` set (cf_out fin)"
      using fill_four_passes(2) [OF take_hop_start(1) [OF hp] take_hop_start(2)] assms(2) short
      by (auto simp: fin_def)
    then have "card (rh_id ` set pool) \<le> card (rh_id ` set (cf_out fin))" by (simp add: card_mono)
    also have "\<dots> \<le> length (cf_out fin)" using card_length [of "map rh_id (cf_out fin)"] by simp
    finally show False using short assms(4) sp by simp
  qed
  then show ?thesis using assms(1,2) h by (simp add: selectHopsHeaded_def Let_def fin_def)
qed

section \<open>Chains\<close>

lemma chooseChainExit_result:
  assumes "chooseChainExitAvoiding up d country avoid ds = (Inr ex, ds')"
  shows "ex \<in> set (exitsIn up d country)" and "exit_addr d (rh_id ex) \<noteq> []"
    and "avoid = Some cooling \<Longrightarrow> \<not> cooling (rh_id ex)"
proof -
  define usable where "usable = filter (\<lambda>h. \<not> (case avoid of None \<Rightarrow> False | Some cooling \<Rightarrow> cooling (rh_id h))
      \<and> exit_addr d (rh_id h) \<noteq> []) (exitsIn up d country)"
  obtain i where i: "randIndex (length usable) ds = (Inr i, ds')" and ex: "ex = usable ! i" and ne: "usable \<noteq> []"
    using assms by (auto simp: chooseChainExitAvoiding_def usable_def [symmetric] Let_def
        split: prod.splits sum.splits if_splits)
  have "i < length usable" using i ne by (auto simp: randIndex_def split: list.splits option.splits if_splits)
  then have "ex \<in> set usable" using ex by simp
  then show "ex \<in> set (exitsIn up d country)" "exit_addr d (rh_id ex) \<noteq> []"
      "avoid = Some cooling \<Longrightarrow> \<not> cooling (rh_id ex)"
    by (auto simp: usable_def)
qed

lemma selectChain_parts:
  assumes "selectChain up asOf d n country pinHead avoid ds = (Inr c, ds')"
  obtains ds1 where "chooseChainExitAvoiding up d country avoid ds = (Inr (cc_exit c), ds1)"
    and "selectHopsHeaded (asOf (rd_as d)) (hopsAvoiding (rd_hops d) avoid pinHead) (n - 1) (rh_id (cc_exit c)) pinHead ds1
           = (Inr (cc_hops c, cc_div c), ds')"
  using assms by (auto simp: selectChain_def split: prod.splits sum.splits)

lemma buildChainHeaded_parts:
  assumes "buildChainHeaded up asOf (Some d) cooling n country pinHead ds = (Inr (plan, reused, dv), ds')"
  obtains c ds0 where "selectChain up asOf d n country pinHead (if reused then None else Some cooling) ds0 = (Inr c, ds')"
    and "plan = \<lparr>cp_hops = cc_hops c, cp_exitID = rh_id (cc_exit c), cp_exitPub = rh_pub (cc_exit c),
                 cp_exitDia = exit_addr d (rh_id (cc_exit c)), cp_country = country\<rparr>"
    and "dv = cc_div c"
  using assms by (fastforce simp: buildChainHeaded_def Let_def split: prod.splits sum.splits)

lemma hopsAvoiding_set: "set (hopsAvoiding cand avoid pinHead) \<subseteq> set cand"
  by (auto simp: hopsAvoiding_def split: option.splits)


lemma add_entry_fields [simp]:
  "rd_hops (add_entry selfID d ent) = rd_hops d @ (case entry_hop ent of None \<Rightarrow> [] | Some h \<Rightarrow> [h])"
  "rd_dialable (add_entry selfID d ent) = rd_dialable d \<union> ({e_Addr ent, e_Ingress ent} - {[]})"
  "rd_exitAddr (add_entry selfID d ent) =
     (if e_Role ent = ''exit'' \<and> e_Addr ent \<noteq> [] then (rd_exitAddr d)(e_ID ent \<mapsto> e_Addr ent) else rd_exitAddr d)"
  by (auto simp: add_entry_def Let_def split: option.splits)

lemma entry_hop_fields:
  assumes "entry_hop ent = Some h"
  shows "rh_id h = e_ID ent" "hex_decode (e_ID ent) = Some (rh_pub h)" "length (rh_pub h) = 32"
    "rh_dial h = entry_dial ent" "entry_dial ent \<noteq> []" "rh_country h = e_Country ent" "rh_operator h = e_Operator ent"
    "rh_countryContradicted h = CountryContradicted ent"
    "rh_pairable h \<longleftrightarrow> e_Role ent = ''exit'' \<and> e_Addr ent \<noteq> []"
  using assms by (auto simp: entry_hop_def split: option.splits if_splits)

definition names_exit :: "entry list \<Rightarrow> string \<Rightarrow> string \<Rightarrow> bool" where
  "names_exit ents nd a \<longleftrightarrow> (\<exists>ent \<in> set ents. e_Role ent = ''exit'' \<and> e_ID ent = nd \<and> e_Addr ent = a \<and> a \<noteq> [])"

lemma foldl_add_entry:
  "set (rd_hops (foldl (add_entry selfID) d ents)) = set (rd_hops d) \<union> {h. \<exists>ent \<in> set ents. entry_hop ent = Some h}"
  "rd_dialable (foldl (add_entry selfID) d ents)
     = rd_dialable d \<union> {a. a \<noteq> [] \<and> (\<exists>ent \<in> set ents. a = e_Addr ent \<or> a = e_Ingress ent)}"
  "rd_exitAddr (foldl (add_entry selfID) d ents) nd = Some a \<Longrightarrow> rd_exitAddr d nd = Some a \<or> names_exit ents nd a"
proof (induction ents arbitrary: d)
  case (Cons ent ents)
  { case 1 show ?case using Cons.IH(1) by (auto split: option.splits) }
  { case 2 show ?case using Cons.IH(2) by auto }
  { case 3 then show ?case using Cons.IH(3) [of "add_entry selfID d ent"]
      by (auto simp: names_exit_def split: if_splits) }
qed auto

lemma loaded_directory:
  assumes "loadRelayDirectory verify unmarshal embeddedAS blob pub selfID now = Inr d"
  obtains snap where "VerifySigned verify unmarshal pub blob = Inr snap" and "now \<le> s_ExpiresAt snap"
    and "set (rd_hops d) = {h. \<exists>ent \<in> set (s_Entries snap). entry_hop ent = Some h}"
    and "rd_dialable d = {a. a \<noteq> [] \<and> (\<exists>ent \<in> set (s_Entries snap). a = e_Addr ent \<or> a = e_Ingress ent)}"
    and "\<And>nd a. rd_exitAddr d nd = Some a \<Longrightarrow> names_exit (s_Entries snap) nd a"
    and "rd_hops d \<noteq> []"
proof -
  obtain snap where v: "VerifySigned verify unmarshal pub blob = Inr snap" and n: "now \<le> s_ExpiresAt snap"
    and d: "d = foldl (add_entry selfID) \<lparr>rd_hops = [], rd_dialable = {}, rd_exitAddr = Map.empty, rd_as = embeddedAS,
              rd_own = {}, rd_reloadInterval = relayDirReloadInterval\<rparr> (s_Entries snap)" and ne: "rd_hops d \<noteq> []"
    using assms by (auto simp: loadRelayDirectory_def Let_def split: sum.splits if_splits)
  show thesis
    by (rule that [OF v n _ _ _ ne]) (use foldl_add_entry(3) in \<open>fastforce simp: d foldl_add_entry(1,2)\<close>)+
qed

text \<open>C11: A chain a client builds out of a signed directory is exactly as deep as asked: one hop less
  than the depth (the relay the coordinator assigns is the last node), all distinct and none of them
  the exit, each one an entry the coordinator signed; the head can be paired, or is the pinned one; the
  exit is a signed exit in the asked country whose country the coordinator did not contradict, reached
  at its own address and authenticated by the key that is its id. A cooling node is used only when the
  result says so. No shorter chain is ever returned.\<close>

theorem chain_as_asked:
  assumes "loadRelayDirectory verify unmarshal embeddedAS blob pub selfID now = Inr d"
    and "buildChainHeaded up asOf (Some d) cooling n country pinHead ds = (Inr (plan, reused, dv), ds')"
    and "1 \<le> n"
  shows "\<exists>snap. VerifySigned verify unmarshal pub blob = Inr snap \<and> now \<le> s_ExpiresAt snap
     \<and> int (length (cp_hops plan)) = n - 1
     \<and> distinct (cp_exitID plan # map rh_id (cp_hops plan))
     \<and> (\<forall>h \<in> set (cp_hops plan). (\<exists>ent \<in> set (s_Entries snap). entry_hop ent = Some h)
          \<and> (reused \<or> rh_id h = pinHead \<or> \<not> cooling (rh_id h)))
     \<and> (2 \<le> n \<longrightarrow> head_ok pinHead (cp_hops plan ! 0))
     \<and> names_exit (s_Entries snap) (cp_exitID plan) (cp_exitDia plan)
     \<and> hex_decode (cp_exitID plan) = Some (cp_exitPub plan) \<and> length (cp_exitPub plan) = 32
     \<and> (reused \<or> \<not> cooling (cp_exitID plan))
     \<and> (\<exists>ent \<in> set (s_Entries snap). e_ID ent = cp_exitID plan \<and> e_Role ent = ''exit'' \<and> \<not> CountryContradicted ent
          \<and> (Canonical up country = [] \<or> Canonical up (e_Country ent) = Canonical up country))"
proof (rule loaded_directory [OF assms(1)])
  fix snap
  assume snap: "VerifySigned verify unmarshal pub blob = Inr snap" "now \<le> s_ExpiresAt snap"
      "set (rd_hops d) = {h. \<exists>ent \<in> set (s_Entries snap). entry_hop ent = Some h}"
    and addrs: "\<And>nd a. rd_exitAddr d nd = Some a \<Longrightarrow> names_exit (s_Entries snap) nd a"
  define avoid where "avoid = (if reused then None else Some cooling)"
  obtain c ds0 where c: "selectChain up asOf d n country pinHead avoid ds0 = (Inr c, ds')"
      and plan: "plan = \<lparr>cp_hops = cc_hops c, cp_exitID = rh_id (cc_exit c), cp_exitPub = rh_pub (cc_exit c),
                 cp_exitDia = exit_addr d (rh_id (cc_exit c)), cp_country = country\<rparr>"
    using buildChainHeaded_parts [OF assms(2)] unfolding avoid_def by metis
  obtain ds1 where ex: "chooseChainExitAvoiding up d country avoid ds0 = (Inr (cc_exit c), ds1)"
    and hs: "selectHopsHeaded (asOf (rd_as d)) (hopsAvoiding (rd_hops d) avoid pinHead) (n - 1) (rh_id (cc_exit c)) pinHead ds1
           = (Inr (cc_hops c, cc_div c), ds')"
    using selectChain_parts [OF c] by metis
  note exit_facts = chooseChainExit_result [OF ex]
  have in_dir: "cc_exit c \<in> set (rd_hops d)" and pairable: "rh_pairable (cc_exit c)" "\<not> rh_countryContradicted (cc_exit c)"
      "Canonical up country = [] \<or> Canonical up (rh_country (cc_exit c)) = Canonical up country"
    using exit_facts(1) by (auto simp: exitsIn_def)
  obtain ent where ent: "ent \<in> set (s_Entries snap)" "entry_hop ent = Some (cc_exit c)"
    using in_dir snap(3) by auto
  have key: "hex_decode (cp_exitID plan) = Some (cp_exitPub plan) \<and> length (cp_exitPub plan) = 32"
    and e: "e_ID ent = cp_exitID plan" "e_Role ent = ''exit''" "\<not> CountryContradicted ent"
      "Canonical up country = [] \<or> Canonical up (e_Country ent) = Canonical up country"
    using entry_hop_fields [OF ent(2)] pairable by (auto simp: plan)
  have dia: "names_exit (s_Entries snap) (cp_exitID plan) (cp_exitDia plan)"
    using exit_facts(2) addrs by (auto simp: plan exit_addr_def split: option.splits)
  note hops = selectHopsHeaded_depth [OF hs assms(3)]
  have in_pool: "\<forall>h \<in> set (cc_hops c). h \<in> set (rd_hops d) \<and> rh_id h \<noteq> rh_id (cc_exit c)
      \<and> (reused \<or> rh_id h = pinHead \<or> \<not> cooling (rh_id h))"
    using hops(3) by (auto simp: hop_pool_def hopsAvoiding_def avoid_def split: if_splits option.splits)
  have "reused \<or> \<not> cooling (cp_exitID plan)" using exit_facts(3) by (auto simp: avoid_def plan)
  moreover have "distinct (cp_exitID plan # map rh_id (cp_hops plan))" using hops in_pool by (auto simp: plan)
  ultimately show ?thesis using snap hops in_pool key e dia ent(1) by (auto simp: plan)
qed


text \<open>A directory of two exits and two relays, with AS numbers by address.\<close>

definition demo_entry :: "string \<Rightarrow> char \<Rightarrow> string \<Rightarrow> string \<Rightarrow> entry" where
  "demo_entry role c a ingress = \<lparr>e_Role = role, e_ID = replicate 64 c, e_Country = ''NL'', e_Addr = a,
     e_CountrySource = CountryObserved, e_DeclaredCountry = [], e_Ingress = ingress, e_Operator = []\<rparr>"

definition demo_dir_snapshot :: snapshot where
  "demo_dir_snapshot = \<lparr>s_Version = 1, s_IssuedAt = 0, s_ExpiresAt = 100,
     s_Entries = [demo_entry ''exit'' CHR ''a'' ''192.0.2.1:1'' [], demo_entry ''exit'' CHR ''b'' ''192.0.2.2:1'' [],
                  demo_entry ''relay'' CHR ''c'' [] ''192.0.2.3:1'', demo_entry ''relay'' CHR ''d'' [] ''192.0.2.4:1'']\<rparr>"

definition demo_hop :: "char \<Rightarrow> bytes \<Rightarrow> string \<Rightarrow> bool \<Rightarrow> relay_hop" where
  "demo_hop c key a p = \<lparr>rh_id = replicate 64 c, rh_pub = key, rh_dial = a, rh_operator = [], rh_country = ''NL'',
     rh_countryContradicted = False, rh_pairable = p\<rparr>"

definition demo_hops :: "relay_hop list" where
  "demo_hops = [demo_hop CHR ''a'' (replicate 32 0xAA) ''192.0.2.1:1'' True, demo_hop CHR ''b'' (replicate 32 0xBB) ''192.0.2.2:1'' True,
     demo_hop CHR ''c'' (replicate 32 0xCC) ''192.0.2.3:1'' False, demo_hop CHR ''d'' (replicate 32 0xDD) ''192.0.2.4:1'' False]"

definition demo_directory :: relay_directory where
  "demo_directory = \<lparr>rd_hops = demo_hops, rd_dialable = {''192.0.2.1:1'', ''192.0.2.2:1'', ''192.0.2.3:1'', ''192.0.2.4:1''},
     rd_exitAddr = [replicate 64 CHR ''a'' \<mapsto> ''192.0.2.1:1'', replicate 64 CHR ''b'' \<mapsto> ''192.0.2.2:1''],
     rd_as = None, rd_own = {}, rd_reloadInterval = relayDirReloadInterval\<rparr>"

definition demo_as :: "asn_table option \<Rightarrow> as_lookup" where
  "demo_as t a = (if a = ''192.0.2.3:1'' then Some 3 else if a = ''192.0.2.4:1'' then Some 4 else Some 1)"

lemma demo_entry_fields [simp]:
  "e_Role (demo_entry role c a ingress) = role" "e_ID (demo_entry role c a ingress) = replicate 64 c"
  "e_Addr (demo_entry role c a ingress) = a" "e_Ingress (demo_entry role c a ingress) = ingress"
  by (simp_all add: demo_entry_def)

lemma demo_entry_hop [simp]:
  "entry_hop (demo_entry ''exit'' CHR ''a'' ''192.0.2.1:1'' []) = Some (demo_hop CHR ''a'' (replicate 32 0xAA) ''192.0.2.1:1'' True)"
  "entry_hop (demo_entry ''exit'' CHR ''b'' ''192.0.2.2:1'' []) = Some (demo_hop CHR ''b'' (replicate 32 0xBB) ''192.0.2.2:1'' True)"
  "entry_hop (demo_entry ''relay'' CHR ''c'' [] ''192.0.2.3:1'') = Some (demo_hop CHR ''c'' (replicate 32 0xCC) ''192.0.2.3:1'' False)"
  "entry_hop (demo_entry ''relay'' CHR ''d'' [] ''192.0.2.4:1'') = Some (demo_hop CHR ''d'' (replicate 32 0xDD) ''192.0.2.4:1'' False)"
  by code_simp+

lemma demo_loads:
  "loadRelayDirectory (\<lambda>_ _ _. True) (\<lambda>_. Some demo_dir_snapshot) None (replicate 65 0) (replicate 32 0) [] 50 = Inr demo_directory"
  by (simp add: loadRelayDirectory_def VerifySigned_def signedLen_def demo_dir_snapshot_def Let_def demo_directory_def demo_hops_def
      add_entry_def) auto

lemma demo_builds:
  "buildChainHeaded (\<lambda>s. s) demo_as (Some demo_directory) (\<lambda>_. False) 3 ''NL'' [] (replicate 3 (Some 0))
     = (Inr (\<lparr>cp_hops = [demo_hops ! 1, demo_hops ! 2], cp_exitID = replicate 64 CHR ''a'', cp_exitPub = replicate 32 0xAA,
              cp_exitDia = ''192.0.2.1:1'', cp_country = ''NL''\<rparr>, False,
             \<lparr>hd_asRepeated = False, hd_opRepeated = False, hd_resolved = 2, hd_unresolved = 0\<rparr>), [])"
  by code_simp


theorem chain_as_asked_witness:
  "\<exists>snap. VerifySigned (\<lambda>_ _ _. True) (\<lambda>_. Some demo_dir_snapshot) (replicate 32 (0 :: byte)) (replicate 65 0) = Inr snap
     \<and> names_exit (s_Entries snap) (replicate 64 CHR ''a'') ''192.0.2.1:1''"
  using chain_as_asked [OF demo_loads demo_builds] by auto

lemma AS_String_inject: "AS_String a = AS_String b \<longleftrightarrow> a = b"
  by (metis AS_String_def append_same_eq same_append_eq digits_value_show_nat unsigned_word_eqI)

lemma AS_String_known: "AS_String a \<noteq> unknownASKey"
  by (simp add: AS_String_def unknownASKey_def)

lemma as_key_eq: "as_key asl g = as_key asl h \<longleftrightarrow> asl (rh_dial g) = asl (rh_dial h)"
  by (auto simp: hopASKey_def AS_String_inject AS_String_known AS_String_known [symmetric] split: option.splits)

lemma as_resolved_iff: "as_resolved asl h \<longleftrightarrow> asl (rh_dial h) \<noteq> None"
  by (auto simp: hopASKey_def split: option.splits)

lemma distinct_as_key: "distinct (map (as_key asl) hs) \<longleftrightarrow> distinct (map (\<lambda>h. asl (rh_dial h)) hs)"
  by (auto simp: distinct_map inj_on_def as_key_eq)

text \<open>C30: The diversity a selection reports is the diversity of the chain it returns: the chain is
  reported as degraded exactly when two of its hops share a network or one could not be placed in any,
  networks being those of the client's own table. And it repeats a network, or leans on an unplaced
  hop behind the head, only when no other candidate would have added a network.\<close>

theorem diversity_reported_and_maximal:
  assumes "selectHopsHeaded asl cand want excludeID pinHead ds = (Inr (hops, dv), ds')" and "1 \<le> want"
  shows "(degraded dv \<longleftrightarrow> \<not> (distinct (map (\<lambda>h. asl (rh_dial h)) hops) \<and> (\<forall>h \<in> set hops. asl (rh_dial h) \<noteq> None)))
    \<and> (distinct (map (\<lambda>h. asl (rh_dial h)) hops) \<and> (\<forall>h \<in> set (tl hops). asl (rh_dial h) \<noteq> None)
       \<or> (\<forall>h \<in> set cand. rh_id h \<noteq> excludeID \<longrightarrow> rh_id h \<notin> rh_id ` set hops \<longrightarrow> asl (rh_dial h) \<noteq> None
            \<longrightarrow> (\<exists>g \<in> set hops. asl (rh_dial g) = asl (rh_dial h))))"
proof -
  obtain st where "fill_ok asl (hop_pool cand excludeID) st" "cf_out st = hops" "cf_div st = dv"
    using selectHopsHeaded_result(5) [OF assms] by blast
  then have "degraded dv \<longleftrightarrow> \<not> (distinct (map (as_key asl) hops) \<and> (\<forall>h \<in> set hops. as_resolved asl h))"
    by (auto simp: fill_ok_def degraded_def filter_empty_conv)
  moreover have "tail_diverse asl hops \<or> as_exhausted asl (hop_pool cand excludeID) hops"
    by (rule selectHopsHeaded_result(6) [OF assms])
  ultimately show ?thesis
    by (auto simp: tail_diverse_def as_exhausted_def hop_pool_def distinct_as_key as_resolved_iff image_iff as_key_eq)
qed

theorem diversity_reported_and_maximal_witness:
  "degraded \<lparr>hd_asRepeated = True, hd_opRepeated = False, hd_resolved = 3, hd_unresolved = 0\<rparr> \<longleftrightarrow>
     \<not> (distinct (map (\<lambda>h. demo_as None (rh_dial h)) [demo_hops ! 0, demo_hops ! 2, demo_hops ! 1])
        \<and> (\<forall>h \<in> set [demo_hops ! 0, demo_hops ! 2, demo_hops ! 1]. demo_as None (rh_dial h) \<noteq> None))"
proof -
  have "selectHopsHeaded (demo_as None) (take 3 demo_hops) 3 [] [] [Some 2, Some 1]
      = (Inr ([demo_hops ! 0, demo_hops ! 2, demo_hops ! 1], \<lparr>hd_asRepeated = True, hd_opRepeated = False, hd_resolved = 3, hd_unresolved = 0\<rparr>), [])"
    by code_simp
  from diversity_reported_and_maximal [OF this] show ?thesis by auto
qed


section \<open>The assigned relay\<close>

lemma relayTagFor_relayTag: "relayTagFor = relayTag"
  by (rule ext) (simp add: relayTagFor_def relayTag_def)

lemma length_hex_encode [simp]: "length (hex_encode b) = 2 * length b"
  by (induction b) (simp_all add: hex_encode_def)

lemma length_relayTag: "length (relayTag nd) = 16"
  unfolding relayTag_def by (simp only: length_hex_encode length_take length_sha256)

lemma relayTag_nonempty: "relayTag nd \<noteq> []"
  using length_relayTag [of nd] by auto

lemma disjoint_from_None: "disjoint_from i hs tag = None \<longleftrightarrow> (\<forall>h \<in> set hs. relayTag (rh_id h) \<noteq> tag)"
  by (induction i hs tag rule: disjoint_from.induct) (auto simp: relayTagFor_relayTag)

lemma verifyChainDisjoint_iff:
  "verifyChainDisjoint (Some p) (relayTag nd) = None \<longleftrightarrow> (\<forall>h \<in> set (cp_hops p). relayTag (rh_id h) \<noteq> relayTag nd)"
  by (simp add: verifyChainDisjoint_def relayTag_nonempty disjoint_from_None)

text \<open>Against a coordinator that reports the relay it assigned, the check keeps that relay out of the
  chain's hops; it says nothing of the chain's own exit.\<close>

lemma checked_relay_is_no_hop:
  "verifyChainDisjoint (Some p) (relayTag nd) = None \<Longrightarrow> nd \<notin> rh_id ` set (cp_hops p)"
  by (auto simp: verifyChainDisjoint_iff)

lemma exit_relay_unnoticed:
  "verifyChainDisjoint (Some p) (relayTag (cp_exitID p)) = None
     \<longleftrightarrow> (\<forall>h \<in> set (cp_hops p). relayTag (rh_id h) \<noteq> relayTag (cp_exitID p))"
  by (rule verifyChainDisjoint_iff)

definition demo_plan :: chain_plan where
  "demo_plan = \<lparr>cp_hops = [demo_hops ! 1, demo_hops ! 2], cp_exitID = replicate 64 CHR ''a'', cp_exitPub = replicate 32 0xAA,
     cp_exitDia = ''192.0.2.1:1'', cp_country = ''NL''\<rparr>"

text \<open>A chain rebuilt over a live session is not checked against the relay that session was
  assigned: after the middle hop of a chain fails, the rebuild returns a chain whose last hop is that
  relay, a chain the check made when the session was paired would have refused.\<close>

lemma rebuild_may_hop_over_its_relay:
  "let relay = replicate 64 CHR ''d''; cooling = (\<lambda>nd. nd = replicate 64 CHR ''c'')
   in relay \<notin> rh_id ` set (cp_hops demo_plan)
    \<and> (\<exists>fresh. fst (rebuildChain (\<lambda>s. s) demo_as (Some demo_directory) cooling (Some demo_plan) (replicate 4 (Some 0))) = Inr fresh
        \<and> rh_id (last (cp_hops fresh)) = relay \<and> verifyChainDisjoint (Some fresh) (relayTag relay) \<noteq> None)"
proof -
  let ?relay = "replicate 64 CHR ''d''"
  let ?fresh = "demo_plan\<lparr>cp_hops := [demo_hops ! 1, demo_hops ! 3]\<rparr>"
  have "?relay \<notin> rh_id ` set (cp_hops demo_plan)" by code_simp
  moreover have fresh: "fst (rebuildChain (\<lambda>s. s) demo_as (Some demo_directory) (\<lambda>nd. nd = replicate 64 CHR ''c'') (Some demo_plan)
      (replicate 4 (Some 0))) = Inr ?fresh"
    by code_simp
  moreover have last: "rh_id (last (cp_hops ?fresh)) = ?relay" by code_simp
  moreover have "verifyChainDisjoint (Some ?fresh) (relayTag ?relay) \<noteq> None"
    using last by (auto simp: verifyChainDisjoint_iff)
  ultimately show ?thesis unfolding Let_def by blast
qed

end
