(* ===== verification/Forward.thy ===== *)
theory Forward
  imports Chain
begin

text \<open>
  The relay half of \<open>core/relaychain.go\<close>: a hop's sealed refusal and how the client recognises it, the
  occupancy limits per previous hop and in aggregate, and \<open>relayForward\<close>, which admits a layer only to
  a node of the signed directory. The byte pacers of \<open>golang.org/x/time/rate\<close> are opaque; a pacer is
  named by a number so that keeping one can be told from making a new one. The locale \<open>circuit_slots\<close>
  states what forwarding relies on; \<open>forward_slots\<close> interprets it on \<open>forwardLimits\<close>.
\<close>

section \<open>A hop's refusal\<close>

definition hopRefusedMagic :: bytes where
  "hopRefusedMagic = 0 # bytes_of_string ''bacchus-hop-refused'' @ [0]"

definition maxHopRefusalReason :: nat where "maxHopRefusalReason = 32"

definition refusedNodeBusy :: string where "refusedNodeBusy = ''node-busy''"
definition refusedPeerBusy :: string where "refusedPeerBusy = ''peer-busy''"
definition refusedNotInMesh :: string where "refusedNotInMesh = ''not-in-mesh''"
definition refusedSelfTarget :: string where "refusedSelfTarget = ''self-target''"
definition refusedForwardingOff :: string where "refusedForwardingOff = ''forwarding-off''"

definition hopRefusalFrame :: "string \<Rightarrow> bytes" where
  "hopRefusalFrame reason =
     (let body = hopRefusedMagic @ bytes_of_string (take maxHopRefusalReason reason)
      in put_uint16 (word_of_nat (length body)) @ body)"

definition parseHopRefusal :: "bytes \<Rightarrow> string option" where
  "parseHopRefusal b =
     (if length b < 2 then None
      else
        (let n = unat (get_uint16 (take 2 b))
         in if n < length hopRefusedMagic \<or> length b < 2 + n then None
            else
              (let body = take n (drop 2 b)
               in if take (length hopRefusedMagic) body \<noteq> hopRefusedMagic then None
                  else Some (string_of_bytes (drop (length hopRefusedMagic) body)))))"

text \<open>The sniffer keeps the first bytes read through it, whatever the sizes of the reads.\<close>

definition sniff_cap :: nat where
  "sniff_cap = 2 + length hopRefusedMagic + maxHopRefusalReason"

definition sniff_Read :: "bytes \<Rightarrow> bytes \<Rightarrow> bytes" where
  "sniff_Read buf p =
     (if p \<noteq> [] \<and> length buf < sniff_cap then buf @ take (min (length p) (sniff_cap - length buf)) p else buf)"

definition sniff_refusal :: "bytes list \<Rightarrow> string option" where
  "sniff_refusal reads = parseHopRefusal (foldl sniff_Read [] reads)"

lemma length_hopRefusedMagic [simp]: "length hopRefusedMagic = 21"
  by (simp add: hopRefusedMagic_def)

lemma sniff_Read_take: "sniff_Read (take sniff_cap buf) p = take sniff_cap (buf @ p)"
proof (cases "length buf < sniff_cap")
  case True
  then show ?thesis by (cases "length p \<le> sniff_cap - length buf") (auto simp: sniff_Read_def)
qed (simp add: sniff_Read_def)

lemma sniff_Reads: "foldl sniff_Read (take sniff_cap buf) reads = take sniff_cap (buf @ concat reads)"
proof (induction reads arbitrary: buf)
  case (Cons p reads)
  show ?case using Cons [of "buf @ p"] by (simp add: sniff_Read_take)
qed simp

lemma unat_word_of_nat16: "n < 2 ^ 16 \<Longrightarrow> unat (word_of_nat n :: uint16) = n"
  by (simp add: unat_of_nat)

lemma parse_frame: "parseHopRefusal (hopRefusalFrame reason @ rest) = Some (take maxHopRefusalReason reason)"
proof -
  define body where "body = hopRefusedMagic @ bytes_of_string (take maxHopRefusalReason reason)"
  have body: "21 \<le> length body" "take 21 body = hopRefusedMagic"
      "string_of_bytes (drop 21 body) = take maxHopRefusalReason reason" "length body < 2 ^ 16"
    by (simp_all add: body_def maxHopRefusalReason_def)
  have "hopRefusalFrame reason = put_uint16 (word_of_nat (length body)) @ body"
    by (simp add: hopRefusalFrame_def body_def)
  then show ?thesis
    using body by (simp add: parseHopRefusal_def Let_def unat_word_of_nat16 not_less)
qed

text \<open>A refusal sealed by a hop is recognised by the client with its reason, however the transport
  splits the bytes into reads and whatever follows; the buffer never grows past its fixed size.\<close>

lemma refusal_recognised:
  assumes "concat reads = hopRefusalFrame reason @ rest"
  shows "sniff_refusal reads = Some (take maxHopRefusalReason reason)
    \<and> length (foldl sniff_Read [] reads) \<le> sniff_cap"
proof -
  have len: "length (hopRefusalFrame reason) \<le> sniff_cap"
    by (simp add: hopRefusalFrame_def sniff_cap_def Let_def)
  have buf: "foldl sniff_Read [] reads = take sniff_cap (concat reads)"
    using sniff_Reads [of "[]" reads] by simp
  then have "foldl sniff_Read [] reads = hopRefusalFrame reason @ take (sniff_cap - length (hopRefusalFrame reason)) rest"
    using len assms by simp
  then have "sniff_refusal reads = Some (take maxHopRefusalReason reason)"
    unfolding sniff_refusal_def by (simp only: parse_frame)
  then show ?thesis using buf by simp
qed

section \<open>Occupancy limits\<close>

definition defaultForwardMaxPerPeer :: int where "defaultForwardMaxPerPeer = 32"
definition defaultForwardMaxTotal :: int where "defaultForwardMaxTotal = 256"

text \<open>\<open>fp_idle\<close> says that the peer has an element in the idle list; \<open>fl_made\<close> counts the pacers made so far.\<close>

record forward_peer =
  fp_circuits :: int
  fp_pace :: nat
  fp_saturated :: bool
  fp_refused :: uint64
  fp_idle :: bool

record forward_limits =
  fl_maxPerPeer :: int
  fl_maxTotal :: int
  fl_peerRate :: uint64
  fl_total :: int
  fl_saturated :: bool
  fl_refused :: uint64
  fl_peers :: "string \<rightharpoonup> forward_peer"
  fl_idle :: "string list"
  fl_made :: nat

definition newForwardLimits :: "int \<Rightarrow> int \<Rightarrow> uint64 \<Rightarrow> forward_limits" where
  "newForwardLimits perPeer tot peerRate =
     (let perPeer = (if perPeer \<le> 0 then defaultForwardMaxPerPeer else perPeer);
          tot = (if tot \<le> 0 then defaultForwardMaxTotal else tot);
          perPeer = (if perPeer > tot then tot else perPeer)
      in \<lparr>fl_maxPerPeer = perPeer, fl_maxTotal = tot, fl_peerRate = peerRate, fl_total = 0, fl_saturated = False,
          fl_refused = 0, fl_peers = Map.empty, fl_idle = [], fl_made = 0\<rparr>)"

datatype forward_error = ErrForwardNodeBusy | ErrForwardPeerBusy

text \<open>The entry of a peer that asks for a slot: a new one with a new pacer, or the old one taken off the
  idle list.\<close>

definition find_peer :: "string \<Rightarrow> forward_limits \<Rightarrow> forward_limits \<times> forward_peer" where
  "find_peer peer f =
     (case fl_peers f peer of
        None \<Rightarrow>
          (let p = \<lparr>fp_circuits = 0, fp_pace = fl_made f, fp_saturated = False, fp_refused = 0, fp_idle = False\<rparr>
           in (f\<lparr>fl_peers := (fl_peers f)(peer \<mapsto> p), fl_made := fl_made f + 1\<rparr>, p))
      | Some p \<Rightarrow>
          if fp_idle p
          then (let p = p\<lparr>fp_idle := False\<rparr>
                in (f\<lparr>fl_peers := (fl_peers f)(peer \<mapsto> p), fl_idle := remove1 peer (fl_idle f)\<rparr>, p))
          else (f, p))"

definition acquire :: "string \<Rightarrow> forward_limits \<Rightarrow> forward_limits \<times> (forward_error \<times> bool + nat)" where
  "acquire peer f =
     (if fl_total f \<ge> fl_maxTotal f
      then (f\<lparr>fl_saturated := True, fl_refused := fl_refused f + 1\<rparr>, Inl (ErrForwardNodeBusy, \<not> fl_saturated f))
      else
        (let (f, p) = find_peer peer f
         in if fp_circuits p \<ge> fl_maxPerPeer f
            then (f\<lparr>fl_peers := (if fp_circuits p = 0 then (fl_peers f)(peer := None)
                                else (fl_peers f)(peer \<mapsto> p\<lparr>fp_saturated := True, fp_refused := fp_refused p + 1\<rparr>))\<rparr>,
                  Inl (ErrForwardPeerBusy, \<not> fp_saturated p))
            else (f\<lparr>fl_peers := (fl_peers f)(peer \<mapsto> p\<lparr>fp_circuits := fp_circuits p + 1\<rparr>), fl_total := fl_total f + 1\<rparr>,
                  Inr (fp_pace p))))"

definition maxIdleRetained :: "forward_limits \<Rightarrow> int" where
  "maxIdleRetained f = fl_maxTotal f"

function evict_idle :: "int \<Rightarrow> string list \<Rightarrow> (string \<rightharpoonup> forward_peer) \<Rightarrow> string list \<times> (string \<rightharpoonup> forward_peer)" where
  "evict_idle m idle peers =
     (if int (length idle) > m \<and> idle \<noteq> [] then evict_idle m (butlast idle) (peers(last idle := None)) else (idle, peers))"
  by pat_completeness auto
termination
  by (relation "measure (\<lambda>(m, idle, peers). length idle)") auto

declare evict_idle.simps [simp del]

definition retirePeer :: "string \<Rightarrow> forward_peer \<Rightarrow> forward_limits \<Rightarrow> forward_limits" where
  "retirePeer peer p f =
     (let (idle, peers) = evict_idle (maxIdleRetained f) (peer # fl_idle f) ((fl_peers f)(peer \<mapsto> p\<lparr>fp_idle := True\<rparr>))
      in f\<lparr>fl_idle := idle, fl_peers := peers\<rparr>)"

text \<open>Returns the number of refusals of the episodes the release ended, if it ended any.\<close>

definition release :: "string \<Rightarrow> forward_limits \<Rightarrow> forward_limits \<times> uint64 option" where
  "release peer f =
     (let f1 = (if fl_total f > 0 then f\<lparr>fl_total := fl_total f - 1\<rparr> else f);
          r1 = (if fl_saturated f1 then Some (fl_refused f1) else None);
          f2 = (if fl_saturated f1 then f1\<lparr>fl_saturated := False, fl_refused := 0\<rparr> else f1)
      in case fl_peers f2 peer of
           None \<Rightarrow> (f2, r1)
         | Some p \<Rightarrow>
             (let p1 = p\<lparr>fp_circuits := fp_circuits p - 1\<rparr>;
                  r2 = (if fp_saturated p1 then Some ((case r1 of None \<Rightarrow> 0 | Some n \<Rightarrow> n) + fp_refused p1) else r1);
                  p2 = (if fp_saturated p1 then p1\<lparr>fp_saturated := False, fp_refused := 0\<rparr> else p1);
                  f3 = f2\<lparr>fl_peers := (fl_peers f2)(peer \<mapsto> p2)\<rparr>
              in (if fp_circuits p2 \<le> 0 then retirePeer peer p2 f3 else f3, r2)))"

definition counts :: "string \<Rightarrow> forward_limits \<Rightarrow> int \<times> int" where
  "counts peer f = (case fl_peers f peer of None \<Rightarrow> 0 | Some p \<Rightarrow> fp_circuits p, fl_total f)"

section \<open>Forwarding a layer\<close>

record forward_node =
  fn_cfg :: relay_config
  fn_dir :: "relay_directory option"
  fn_limits :: forward_limits

definition forwardOn :: "forward_node \<Rightarrow> bool" where
  "forwardOn e \<longleftrightarrow> rc_RelayIngress (fn_cfg e) \<noteq> [] \<and> fn_dir e \<noteq> None"

text \<open>\<open>remote\<close> is the remote address of the channel, if it has one, and \<open>split\<close> is \<open>net.SplitHostPort\<close>.\<close>

definition forwardPeerKey :: "(string \<Rightarrow> string option) \<Rightarrow> string option \<Rightarrow> string" where
  "forwardPeerKey split remote =
     (case remote of
        None \<Rightarrow> []
      | Some a \<Rightarrow> (case split a of None \<Rightarrow> a | Some host \<Rightarrow> host))"

datatype forward_outcome = Refused string | DialFailed | Spliced

text \<open>What a hop does with a layer: the refusal it seals to the client, and the address it dials.
  \<open>dial_ok\<close> tells whether the dial of the next hop succeeded; a failed dial returns the slot at once, a
  splice holds it until it ends.\<close>

definition relayForward ::
    "(string \<Rightarrow> string option) \<Rightarrow> string option \<Rightarrow> string \<Rightarrow> bool \<Rightarrow> forward_node
      \<Rightarrow> forward_node \<times> forward_outcome \<times> string list" where
  "relayForward split remote next dial_ok e =
     (if \<not> forwardOn e then (e, Refused refusedForwardingOff, [])
      else if isSelfAddr (fn_cfg e) (fn_dir e) next then (e, Refused refusedSelfTarget, [])
      else if next \<notin> rd_dialable (the (fn_dir e)) then (e, Refused refusedNotInMesh, [])
      else
        (let peer = forwardPeerKey split remote;
             (f, r) = acquire peer (fn_limits e)
         in case r of
              Inl (err, _) \<Rightarrow>
                (e\<lparr>fn_limits := f\<rparr>, Refused (if err = ErrForwardNodeBusy then refusedNodeBusy else refusedPeerBusy), [])
            | Inr _ \<Rightarrow>
                if dial_ok then (e\<lparr>fn_limits := f\<rparr>, Spliced, [next])
                else (e\<lparr>fn_limits := fst (release peer f)\<rparr>, DialFailed, [next])))"

text \<open>The end of a splice gives its slot back.\<close>

definition splice_end :: "(string \<Rightarrow> string option) \<Rightarrow> string option \<Rightarrow> forward_node \<Rightarrow> forward_node" where
  "splice_end split remote e = e\<lparr>fn_limits := fst (release (forwardPeerKey split remote) (fn_limits e))\<rparr>"


section \<open>Slots as a multiset\<close>

datatype slot_event = Take string | Give string

text \<open>One event on the holders, as multisets: a slot is granted when neither cap is reached, and a holder
  returns only a slot it has. \<open>slot_step\<close> is the same event on an implementation.\<close>

definition spec_step :: "nat \<Rightarrow> nat \<Rightarrow> string multiset \<Rightarrow> slot_event \<Rightarrow> string multiset" where
  "spec_step pp tot m e =
     (case e of
        Take p \<Rightarrow> if size m < tot \<and> count m p < pp then add_mset p m else m
      | Give p \<Rightarrow> m - {#p#})"

definition slot_step ::
    "(string \<Rightarrow> 's \<Rightarrow> 's \<times> bool) \<Rightarrow> (string \<Rightarrow> 's \<Rightarrow> 's) \<Rightarrow> ('s \<Rightarrow> string multiset) \<Rightarrow> 's \<Rightarrow> slot_event \<Rightarrow> 's" where
  "slot_step acq rel held s e =
     (case e of Take p \<Rightarrow> fst (acq p s) | Give p \<Rightarrow> if p \<in># held s then rel p s else s)"

lemma spec_step_bounded:
  assumes "size m \<le> tot" and "\<forall>p. count m p \<le> pp"
  shows "size (spec_step pp tot m e) \<le> tot \<and> (\<forall>p. count (spec_step pp tot m e) p \<le> pp)"
  using assms
  by (cases e) (auto simp: spec_step_def size_Diff_singleton_if le_diff_conv intro: le_trans)

lemma spec_run_bounded:
  assumes "size m \<le> tot" and "\<forall>p. count m p \<le> pp"
  shows "size (foldl (spec_step pp tot) m es) \<le> tot \<and> (\<forall>p. count (foldl (spec_step pp tot) m es) p \<le> pp)"
  using assms spec_step_bounded by (induction es arbitrary: m) auto

text \<open>What forwarding relies on: a slot is granted exactly when neither cap is reached, a refusal changes
  no holder, and a release returns the slot of its holder.\<close>

locale circuit_slots =
  fixes acq :: "string \<Rightarrow> 's \<Rightarrow> 's \<times> bool"
    and rel :: "string \<Rightarrow> 's \<Rightarrow> 's"
    and invar :: "'s \<Rightarrow> bool"
    and held :: "'s \<Rightarrow> string multiset"
    and per_peer :: "'s \<Rightarrow> nat"
    and max_total :: "'s \<Rightarrow> nat"
  assumes acq_invar: "invar s \<Longrightarrow> invar (fst (acq p s))"
    and acq_granted: "invar s \<Longrightarrow> snd (acq p s) \<longleftrightarrow> size (held s) < max_total s \<and> count (held s) p < per_peer s"
    and acq_held: "invar s \<Longrightarrow> held (fst (acq p s)) = (if snd (acq p s) then add_mset p (held s) else held s)"
    and acq_caps: "invar s \<Longrightarrow> per_peer (fst (acq p s)) = per_peer s \<and> max_total (fst (acq p s)) = max_total s"
    and rel_invar: "invar s \<Longrightarrow> p \<in># held s \<Longrightarrow> invar (rel p s)"
    and rel_held: "invar s \<Longrightarrow> p \<in># held s \<Longrightarrow> held (rel p s) = held s - {#p#}"
    and rel_caps: "invar s \<Longrightarrow> p \<in># held s \<Longrightarrow> per_peer (rel p s) = per_peer s \<and> max_total (rel p s) = max_total s"
begin

lemma step_refines:
  assumes "invar s"
  shows "invar (slot_step acq rel held s e)"
    and "held (slot_step acq rel held s e) = spec_step (per_peer s) (max_total s) (held s) e"
    and "per_peer (slot_step acq rel held s e) = per_peer s" and "max_total (slot_step acq rel held s e) = max_total s"
  using assms
  by (cases e; simp add: slot_step_def spec_step_def acq_invar acq_held acq_caps acq_granted rel_invar rel_held
      rel_caps diff_single_trivial)+

lemma run_refines:
  "invar s \<Longrightarrow> invar (foldl (slot_step acq rel held) s es)
     \<and> held (foldl (slot_step acq rel held) s es) = foldl (spec_step (per_peer s) (max_total s)) (held s) es"
proof (induction es arbitrary: s)
  case (Cons e es)
  show ?case using Cons.IH [OF step_refines(1) [OF Cons.prems]] by (simp add: step_refines(2-4) [OF Cons.prems])
qed simp

end

section \<open>The limits implement the slots\<close>

definition circuits_of :: "forward_limits \<Rightarrow> string \<Rightarrow> int" where
  "circuits_of f k = (case fl_peers f k of None \<Rightarrow> 0 | Some p \<Rightarrow> fp_circuits p)"

definition held_circuits :: "forward_limits \<Rightarrow> string multiset" where
  "held_circuits f = (\<Sum>k \<in> dom (fl_peers f). replicate_mset (nat (circuits_of f k)) k)"

lemma count_held: "finite (dom (fl_peers f)) \<Longrightarrow> count (held_circuits f) k = nat (circuits_of f k)"
  by (auto simp: held_circuits_def count_sum circuits_of_def dom_def split: option.splits)

text \<open>Every entry is a live one within its cap or an idle one, idle entries are exactly those of the
  bounded list, and the counters of refusals are zero outside an episode.\<close>

definition peer_ok :: "int \<Rightarrow> forward_peer \<Rightarrow> bool" where
  "peer_ok m p \<longleftrightarrow> 0 \<le> fp_circuits p \<and> fp_circuits p \<le> m \<and> (fp_idle p \<longleftrightarrow> fp_circuits p = 0)
     \<and> (fp_circuits p = 0 \<longrightarrow> \<not> fp_saturated p) \<and> (\<not> fp_saturated p \<longrightarrow> fp_refused p = 0)"

definition limits_ok :: "forward_limits \<Rightarrow> bool" where
  "limits_ok f \<longleftrightarrow>
     0 < fl_maxPerPeer f \<and> fl_maxPerPeer f \<le> fl_maxTotal f \<and> finite (dom (fl_peers f))
     \<and> (\<forall>k p. fl_peers f k = Some p \<longrightarrow> peer_ok (fl_maxPerPeer f) p)
     \<and> fl_total f = int (size (held_circuits f)) \<and> fl_total f \<le> fl_maxTotal f
     \<and> distinct (fl_idle f) \<and> set (fl_idle f) = {k. \<exists>p. fl_peers f k = Some p \<and> fp_circuits p = 0}
     \<and> int (length (fl_idle f)) \<le> fl_maxTotal f \<and> (\<not> fl_saturated f \<longrightarrow> fl_refused f = 0)"

lemma newForwardLimits_ok: "limits_ok (newForwardLimits perPeer tot rate)"
  by (auto simp: limits_ok_def newForwardLimits_def Let_def held_circuits_def defaultForwardMaxPerPeer_def
      defaultForwardMaxTotal_def)


lemma held_eqI:
  "finite (dom (fl_peers g)) \<Longrightarrow> (\<And>j. count M j = nat (circuits_of g j)) \<Longrightarrow> held_circuits g = M"
  by (rule multiset_eqI) (simp add: count_held)

lemma held_same_peers: "fl_peers g = fl_peers f \<Longrightarrow> held_circuits g = held_circuits f"
  by (simp add: held_circuits_def circuits_of_def)

lemma limits_okD:
  assumes "limits_ok f"
  shows "0 < fl_maxPerPeer f" "finite (dom (fl_peers f))" "0 \<le> circuits_of f k" "circuits_of f k \<le> fl_maxPerPeer f"
    "fl_peers f k = Some p \<Longrightarrow> peer_ok (fl_maxPerPeer f) p"
    "k \<in> set (fl_idle f) \<longleftrightarrow> (\<exists>p. fl_peers f k = Some p \<and> fp_circuits p = 0)"
    "fl_total f = int (size (held_circuits f))"
  using assms by (auto simp: limits_ok_def circuits_of_def peer_ok_def split: option.splits)

lemma acquire_node_busy:
  "fl_maxTotal f \<le> fl_total f \<Longrightarrow> acquire peer f =
     (f\<lparr>fl_saturated := True, fl_refused := fl_refused f + 1\<rparr>, Inl (ErrForwardNodeBusy, \<not> fl_saturated f))"
  by (simp add: acquire_def)

lemma acquire_peer_busy:
  assumes "limits_ok f" and "fl_total f < fl_maxTotal f" and "fl_maxPerPeer f \<le> circuits_of f peer"
  obtains p where "fl_peers f peer = Some p" and "fp_circuits p = circuits_of f peer"
    and "acquire peer f = (f\<lparr>fl_peers := (fl_peers f)(peer \<mapsto> p\<lparr>fp_saturated := True, fp_refused := fp_refused p + 1\<rparr>)\<rparr>,
           Inl (ErrForwardPeerBusy, \<not> fp_saturated p))"
proof -
  obtain p where p: "fl_peers f peer = Some p" "fp_circuits p = circuits_of f peer" "fp_circuits p \<noteq> 0"
    using assms limits_okD(1) [OF assms(1)] by (auto simp: circuits_of_def split: option.splits)
  moreover have "\<not> fp_idle p" using limits_okD(5) [OF assms(1) p(1)] p(3) by (simp add: peer_ok_def)
  ultimately show thesis using assms by (intro that) (auto simp: acquire_def find_peer_def)
qed

lemma acquire_grants:
  assumes "limits_ok f" and "fl_total f < fl_maxTotal f" and "circuits_of f peer < fl_maxPerPeer f"
  obtains p made where "fp_circuits p = circuits_of f peer + 1" and "\<not> fp_idle p" and "\<not> fp_saturated p \<longrightarrow> fp_refused p = 0"
    and "acquire peer f = (f\<lparr>fl_peers := (fl_peers f)(peer \<mapsto> p), fl_idle := remove1 peer (fl_idle f), fl_made := made,
           fl_total := fl_total f + 1\<rparr>, Inr (fp_pace p))"
    and "\<And>q. fl_peers f peer = Some q \<Longrightarrow> fp_pace p = fp_pace q"
proof (cases "fl_peers f peer")
  case None
  then have "peer \<notin> set (fl_idle f)" using limits_okD(6) [OF assms(1)] by simp
  with None assms show thesis
    by (intro that [of "\<lparr>fp_circuits = 1, fp_pace = fl_made f, fp_saturated = False, fp_refused = 0, fp_idle = False\<rparr>" "fl_made f + 1"])
      (auto simp: acquire_def find_peer_def Let_def circuits_of_def remove1_idem)
next
  case (Some q)
  note q = limits_okD(5) [OF assms(1) Some]
  have idle: "\<not> fp_idle q \<Longrightarrow> remove1 peer (fl_idle f) = fl_idle f"
    using limits_okD(6) [OF assms(1), of peer] q Some by (intro remove1_idem) (auto simp: peer_ok_def)
  let ?p = "q\<lparr>fp_circuits := fp_circuits q + 1, fp_idle := False\<rparr>"
  have "acquire peer f = (f\<lparr>fl_peers := (fl_peers f)(peer \<mapsto> ?p), fl_idle := remove1 peer (fl_idle f), fl_made := fl_made f,
      fl_total := fl_total f + 1\<rparr>, Inr (fp_pace ?p))"
  proof (cases "fp_idle q")
    case True
    then show ?thesis using Some assms
      by (cases f; cases q) (simp add: acquire_def find_peer_def Let_def circuits_of_def)
  next
    case False
    then show ?thesis using Some assms idle
      by (cases f; cases q) (simp add: acquire_def find_peer_def Let_def circuits_of_def)
  qed
  then show thesis
    using Some q by (intro that [of ?p "fl_made f"]) (auto simp: circuits_of_def peer_ok_def)
qed

lemma acquire_ok:
  assumes "limits_ok f"
  shows "limits_ok (fst (acquire peer f))"
    and "(\<exists>pace. snd (acquire peer f) = Inr pace) \<longleftrightarrow>
           fl_total f < fl_maxTotal f \<and> circuits_of f peer < fl_maxPerPeer f"
    and "held_circuits (fst (acquire peer f)) =
           (if fl_total f < fl_maxTotal f \<and> circuits_of f peer < fl_maxPerPeer f
            then add_mset peer (held_circuits f) else held_circuits f)"
    and "fl_maxPerPeer (fst (acquire peer f)) = fl_maxPerPeer f" "fl_maxTotal (fst (acquire peer f)) = fl_maxTotal f"
proof -
  let ?goal = "limits_ok (fst (acquire peer f)) \<and> ((\<exists>pace. snd (acquire peer f) = Inr pace) \<longleftrightarrow>
           fl_total f < fl_maxTotal f \<and> circuits_of f peer < fl_maxPerPeer f)
    \<and> held_circuits (fst (acquire peer f)) = (if fl_total f < fl_maxTotal f \<and> circuits_of f peer < fl_maxPerPeer f
            then add_mset peer (held_circuits f) else held_circuits f)
    \<and> fl_maxPerPeer (fst (acquire peer f)) = fl_maxPerPeer f \<and> fl_maxTotal (fst (acquire peer f)) = fl_maxTotal f"
  note fin = limits_okD(2) [OF assms]
  consider "fl_maxTotal f \<le> fl_total f" | "fl_total f < fl_maxTotal f" "fl_maxPerPeer f \<le> circuits_of f peer"
    | "fl_total f < fl_maxTotal f" "circuits_of f peer < fl_maxPerPeer f" by linarith
  then have ?goal
  proof cases
    case 1
    then show ?thesis using assms
      by (simp add: acquire_node_busy limits_ok_def held_same_peers [of "f\<lparr>fl_saturated := True, fl_refused := _\<rparr>" f])
  next
    case 2
    then obtain p where p: "fl_peers f peer = Some p" "fp_circuits p = circuits_of f peer"
      and a: "acquire peer f = (f\<lparr>fl_peers := (fl_peers f)(peer \<mapsto> p\<lparr>fp_saturated := True, fp_refused := fp_refused p + 1\<rparr>)\<rparr>,
           Inl (ErrForwardPeerBusy, \<not> fp_saturated p))"
      using acquire_peer_busy assms by blast
    have h: "held_circuits (fst (acquire peer f)) = held_circuits f"
      unfolding a using p fin by (intro held_eqI) (auto simp: circuits_of_def count_held)
    have "peer_ok (fl_maxPerPeer f) p" using limits_okD(5) [OF assms p(1)] .
    then show ?thesis
      using assms 2 p h limits_okD(1) [OF assms] unfolding a
      by (auto simp: limits_ok_def peer_ok_def)
  next
    case 3
    then obtain p made where p: "fp_circuits p = circuits_of f peer + 1" "\<not> fp_idle p" "\<not> fp_saturated p \<longrightarrow> fp_refused p = 0"
      and a: "acquire peer f = (f\<lparr>fl_peers := (fl_peers f)(peer \<mapsto> p), fl_idle := remove1 peer (fl_idle f), fl_made := made,
           fl_total := fl_total f + 1\<rparr>, Inr (fp_pace p))"
      using acquire_grants assms by blast
    have c: "0 \<le> circuits_of f peer" using limits_okD(3) [OF assms] .
    have h: "held_circuits (fst (acquire peer f)) = add_mset peer (held_circuits f)"
      unfolding a using p fin c by (intro held_eqI) (auto simp: circuits_of_def count_held nat_add_distrib)
    have "set (remove1 peer (fl_idle f)) = set (fl_idle f) - {peer}" "length (remove1 peer (fl_idle f)) \<le> length (fl_idle f)"
      using assms by (auto simp: limits_ok_def set_remove1_eq length_remove1)
    then show ?thesis
      using assms 3 p h c unfolding a by (auto simp: limits_ok_def peer_ok_def distinct_remove1)
  qed
  then show "limits_ok (fst (acquire peer f))"
    "(\<exists>pace. snd (acquire peer f) = Inr pace) \<longleftrightarrow> fl_total f < fl_maxTotal f \<and> circuits_of f peer < fl_maxPerPeer f"
    "held_circuits (fst (acquire peer f)) = (if fl_total f < fl_maxTotal f \<and> circuits_of f peer < fl_maxPerPeer f
            then add_mset peer (held_circuits f) else held_circuits f)"
    "fl_maxPerPeer (fst (acquire peer f)) = fl_maxPerPeer f" "fl_maxTotal (fst (acquire peer f)) = fl_maxTotal f"
    by blast+
qed


lemma evict_once:
  assumes "int (length idle) \<le> m + 1" and "0 < m"
  shows "evict_idle m idle peers =
     (if int (length idle) = m + 1 then (butlast idle, peers(last idle := None)) else (idle, peers))"
proof (cases "int (length idle) = m + 1")
  case True
  then have "evict_idle m (butlast idle) (peers(last idle := None)) = (butlast idle, peers(last idle := None))"
    using assms(2) by (simp add: evict_idle.simps [of m "butlast idle"] of_nat_diff)
  with True assms show ?thesis by (subst evict_idle.simps) auto
qed (use assms in \<open>subst evict_idle.simps, auto\<close>)

lemma release_shape:
  assumes "limits_ok f" and "fl_peers f peer = Some p" and "1 \<le> fp_circuits p"
  defines "q \<equiv> p\<lparr>fp_circuits := fp_circuits p - 1, fp_saturated := False, fp_refused := 0\<rparr>"
    and "g \<equiv> f\<lparr>fl_total := fl_total f - 1, fl_saturated := False, fl_refused := 0,
               fl_peers := (fl_peers f)(peer \<mapsto> p\<lparr>fp_circuits := fp_circuits p - 1, fp_saturated := False, fp_refused := 0\<rparr>)\<rparr>"
  shows "fst (release peer f) = (if fp_circuits p = 1 then retirePeer peer q g else g)"
proof -
  have p: "fp_saturated p \<or> fp_refused p = 0" using limits_okD(5) [OF assms(1,2)] by (auto simp: peer_ok_def)
  have f: "fl_saturated f \<or> fl_refused f = 0" using assms(1) by (auto simp: limits_ok_def)
  have "count (held_circuits f) peer \<noteq> 0"
    using assms(2,3) limits_okD(2) [OF assms(1)] by (simp add: count_held circuits_of_def)
  then have "0 < fl_total f" using limits_okD(7) [OF assms(1)] by (auto simp: nonempty_has_size [symmetric])
  then show ?thesis
    using assms(2,3) p f unfolding q_def g_def
    by (cases f; cases p; cases "fl_saturated f"; cases "fp_saturated p") (simp_all add: release_def Let_def)
qed

lemma retire_result:
  assumes "int (length (fl_idle g)) \<le> fl_maxTotal g" and "0 < fl_maxTotal g"
  obtains idle peers where "retirePeer peer q g = g\<lparr>fl_idle := idle, fl_peers := peers\<rparr>"
    and "int (length (fl_idle g)) < fl_maxTotal g \<Longrightarrow>
           idle = peer # fl_idle g \<and> peers = (fl_peers g)(peer \<mapsto> q\<lparr>fp_idle := True\<rparr>)"
    and "int (length (fl_idle g)) = fl_maxTotal g \<Longrightarrow>
           idle = peer # butlast (fl_idle g) \<and> peers = (fl_peers g)(peer \<mapsto> q\<lparr>fp_idle := True\<rparr>, last (fl_idle g) := None)"
proof -
  have "fl_idle g \<noteq> []" if "int (length (fl_idle g)) = fl_maxTotal g" using that assms(2) by auto
  then show thesis
    using assms evict_once [of "peer # fl_idle g" "fl_maxTotal g" "(fl_peers g)(peer \<mapsto> q\<lparr>fp_idle := True\<rparr>)"]
    by (cases "int (length (fl_idle g)) = fl_maxTotal g")
      (auto intro!: that simp: retirePeer_def maxIdleRetained_def)
qed

lemma butlast_facts:
  assumes "distinct xs" and "xs \<noteq> []"
  shows "set (butlast xs) = set xs - {last xs}" "distinct (butlast xs)" "last xs \<in> set xs"
  using assms by (cases xs rule: rev_cases; auto)+

lemma release_ok:
  assumes ok: "limits_ok f" and "peer \<in># held_circuits f"
  shows "limits_ok (fst (release peer f))" and "held_circuits (fst (release peer f)) = held_circuits f - {#peer#}"
    and "fl_maxPerPeer (fst (release peer f)) = fl_maxPerPeer f" "fl_maxTotal (fst (release peer f)) = fl_maxTotal f"
proof -
  note fin = limits_okD(2) [OF ok]
  have "0 < circuits_of f peer" using assms(2) fin by (simp add: count_held flip: count_greater_zero_iff)
  then obtain p where p: "fl_peers f peer = Some p" "1 \<le> fp_circuits p"
    by (auto simp: circuits_of_def split: option.splits)
  note pok = limits_okD(5) [OF ok p(1)]
  define q where "q = p\<lparr>fp_circuits := fp_circuits p - 1, fp_saturated := False, fp_refused := 0\<rparr>"
  define g where "g = f\<lparr>fl_total := fl_total f - 1, fl_saturated := False, fl_refused := 0, fl_peers := (fl_peers f)(peer \<mapsto> q)\<rparr>"
  have shape: "fst (release peer f) = (if fp_circuits p = 1 then retirePeer peer q g else g)"
    using release_shape [OF ok p] by (simp add: q_def g_def)
  have le: "fp_circuits p - 1 \<le> fl_maxPerPeer f" "\<not> fp_idle p" using pok p(2) by (auto simp: peer_ok_def)
  have notin: "peer \<notin> set (fl_idle f)" using limits_okD(6) [OF ok] p by simp
  have size: "fl_total f - 1 = int (size (held_circuits f - {#peer#}))"
    using assms(2) limits_okD(7) [OF ok] by (simp add: size_Diff_singleton of_nat_diff nonempty_has_size [symmetric] Suc_le_eq)
      (metis Suc_leI empty_not_add_mset insert_DiffM nonempty_has_size of_nat_1 of_nat_diff One_nat_def)
  have "limits_ok (fst (release peer f)) \<and> held_circuits (fst (release peer f)) = held_circuits f - {#peer#}
    \<and> fl_maxPerPeer (fst (release peer f)) = fl_maxPerPeer f \<and> fl_maxTotal (fst (release peer f)) = fl_maxTotal f"
  proof (cases "fp_circuits p = 1")
    case False
    then have e: "fst (release peer f) = g" using shape by simp
    have h: "held_circuits g = held_circuits f - {#peer#}"
      using p fin by (intro held_eqI) (auto simp: g_def q_def circuits_of_def count_held nat_diff_distrib)
    show ?thesis unfolding e using ok le p False h size notin
      by (auto simp: limits_ok_def g_def q_def peer_ok_def)
  next
    case True
    have bnd: "int (length (fl_idle g)) \<le> fl_maxTotal g" "0 < fl_maxTotal g"
      using ok by (auto simp: limits_ok_def g_def)
    obtain idle peers where r: "retirePeer peer q g = g\<lparr>fl_idle := idle, fl_peers := peers\<rparr>"
      and few: "int (length (fl_idle g)) < fl_maxTotal g \<Longrightarrow>
           idle = peer # fl_idle g \<and> peers = (fl_peers g)(peer \<mapsto> q\<lparr>fp_idle := True\<rparr>)"
      and full: "int (length (fl_idle g)) = fl_maxTotal g \<Longrightarrow>
           idle = peer # butlast (fl_idle g) \<and> peers = (fl_peers g)(peer \<mapsto> q\<lparr>fp_idle := True\<rparr>, last (fl_idle g) := None)"
      using retire_result [OF bnd] by blast
    have e: "fst (release peer f) = g\<lparr>fl_idle := idle, fl_peers := peers\<rparr>" using shape True r by simp
    show ?thesis
    proof (cases "int (length (fl_idle f)) = fl_maxTotal f")
      case False
      then have i: "idle = peer # fl_idle f" "peers = (fl_peers f)(peer \<mapsto> q\<lparr>fp_idle := True\<rparr>)"
        using few bnd by (auto simp: g_def)
      have h: "held_circuits (g\<lparr>fl_idle := idle, fl_peers := peers\<rparr>) = held_circuits f - {#peer#}"
        using p fin True by (intro held_eqI) (auto simp: i q_def circuits_of_def count_held)
      show ?thesis unfolding e using ok le p True h size notin False
        by (auto simp: limits_ok_def g_def q_def peer_ok_def i)
    next
      case full': True
      then have i: "idle = peer # butlast (fl_idle f)"
          "peers = (fl_peers f)(peer \<mapsto> q\<lparr>fp_idle := True\<rparr>, last (fl_idle f) := None)"
        using full by (auto simp: g_def)
      have ne: "fl_idle f \<noteq> []" using full' bnd(2) by (auto simp: g_def)
      note bl = butlast_facts [OF _ ne]
      have v: "circuits_of f (last (fl_idle f)) = 0" "last (fl_idle f) \<noteq> peer"
        using limits_okD(6) [OF ok, of "last (fl_idle f)"] notin ne by (auto simp: circuits_of_def)
      have h: "held_circuits (g\<lparr>fl_idle := idle, fl_peers := peers\<rparr>) = held_circuits f - {#peer#}"
        using p fin True v by (intro held_eqI) (auto simp: i q_def circuits_of_def count_held)
      show ?thesis unfolding e using ok le p True h size notin full' bl v(2)
        by (auto simp: limits_ok_def g_def q_def peer_ok_def i)
    qed
  qed
  then show "limits_ok (fst (release peer f))" "held_circuits (fst (release peer f)) = held_circuits f - {#peer#}"
    "fl_maxPerPeer (fst (release peer f)) = fl_maxPerPeer f" "fl_maxTotal (fst (release peer f)) = fl_maxTotal f" by blast+
qed


definition acquire_slot :: "string \<Rightarrow> forward_limits \<Rightarrow> forward_limits \<times> bool" where
  "acquire_slot peer f = (fst (acquire peer f), \<not> isl (snd (acquire peer f)))"

definition release_slot :: "string \<Rightarrow> forward_limits \<Rightarrow> forward_limits" where
  "release_slot peer f = fst (release peer f)"

lemma granted_iff: "\<not> isl r \<longleftrightarrow> (\<exists>x. r = Inr x)"
  by (cases r) auto

interpretation forward_slots: circuit_slots acquire_slot release_slot limits_ok held_circuits
  "\<lambda>f. nat (fl_maxPerPeer f)" "\<lambda>f. nat (fl_maxTotal f)"
proof
  fix f p assume ok: "limits_ok f"
  show g: "snd (acquire_slot p f) \<longleftrightarrow> size (held_circuits f) < nat (fl_maxTotal f) \<and> count (held_circuits f) p < nat (fl_maxPerPeer f)"
    using acquire_ok(2) [OF ok] limits_okD(1,7) [OF ok] limits_okD(3) [OF ok, of p]
    by (auto simp: acquire_slot_def granted_iff count_held [OF limits_okD(2) [OF ok]] nat_less_eq_zless zless_nat_eq_int_zless)
  show "held_circuits (fst (acquire_slot p f)) = (if snd (acquire_slot p f) then add_mset p (held_circuits f) else held_circuits f)"
    using acquire_ok(2,3) [OF ok, of p] by (auto simp: acquire_slot_def granted_iff)
qed (simp_all add: acquire_slot_def release_slot_def acquire_ok release_ok)

lemma live_peers_bounded:
  assumes "limits_ok f"
  shows "card {k. 0 < circuits_of f k} \<le> size (held_circuits f)"
proof -
  have "{k. 0 < circuits_of f k} = set_mset (held_circuits f)"
    using count_held [OF limits_okD(2) [OF assms]] by (auto simp flip: count_greater_zero_iff)
  moreover have "card (set_mset M) \<le> size M" for M :: "string multiset" by (induction M) (auto simp: card_insert_if)
  ultimately show ?thesis by simp
qed

lemma table_bounded:
  assumes "limits_ok f"
  shows "card (dom (fl_peers f)) \<le> 2 * nat (fl_maxTotal f)"
proof -
  have "dom (fl_peers f) \<subseteq> {k. 0 < circuits_of f k} \<union> set (fl_idle f)"
    using assms by (auto simp: limits_ok_def circuits_of_def peer_ok_def le_less split: option.splits)
  moreover have "finite {k. 0 < circuits_of f k}"
    by (rule finite_subset [OF _ limits_okD(2) [OF assms]]) (auto simp: circuits_of_def split: option.splits)
  ultimately have "card (dom (fl_peers f)) \<le> card {k. 0 < circuits_of f k} + card (set (fl_idle f))"
    by (meson List.finite_set card_Un_le card_mono finite_UnI le_trans)
  also have "\<dots> \<le> nat (fl_maxTotal f) + nat (fl_maxTotal f)"
    using live_peers_bounded [OF assms] card_length [of "fl_idle f"] assms
    by (intro add_mono) (auto simp: limits_ok_def le_nat_iff)
  finally show ?thesis by simp
qed

lemma acquire_answer:
  assumes ok: "limits_ok f"
  shows "\<exists>first pace. snd (acquire p f) =
     (if size (held_circuits f) = nat (fl_maxTotal f) then Inl (ErrForwardNodeBusy, first)
      else if count (held_circuits f) p = nat (fl_maxPerPeer f) then Inl (ErrForwardPeerBusy, first) else Inr pace)"
proof -
  have cnt: "circuits_of f p = int (count (held_circuits f) p)"
    using count_held [OF limits_okD(2) [OF ok], of p] limits_okD(3) [OF ok, of p] by simp
  have tot: "fl_total f = int (size (held_circuits f))" "fl_total f \<le> fl_maxTotal f" "0 < fl_maxPerPeer f"
      "0 < fl_maxTotal f" "circuits_of f p \<le> fl_maxPerPeer f"
    using ok limits_okD(4) [OF ok, of p] by (auto simp: limits_ok_def)
  have iff: "size (held_circuits f) = nat (fl_maxTotal f) \<longleftrightarrow> fl_total f = fl_maxTotal f"
      "count (held_circuits f) p = nat (fl_maxPerPeer f) \<longleftrightarrow> circuits_of f p = fl_maxPerPeer f"
    using tot(1,3,4) cnt by (auto simp: nat_eq_iff2)
  consider "fl_total f = fl_maxTotal f" | "fl_total f < fl_maxTotal f" "circuits_of f p = fl_maxPerPeer f"
    | "fl_total f < fl_maxTotal f" "circuits_of f p < fl_maxPerPeer f"
    using tot by linarith
  then show ?thesis
  proof cases
    case 1
    then show ?thesis using acquire_node_busy [of f p] by (simp add: iff)
  next
    case 2
    obtain begins where "snd (acquire p f) = Inl (ErrForwardPeerBusy, begins)"
      by (rule acquire_peer_busy [OF ok 2(1), of p]) (use 2 that in auto)
    then show ?thesis using 2 by (simp add: iff)
  next
    case 3
    then obtain pace where "snd (acquire p f) = Inr pace" using acquire_ok(2) [OF ok, of p] by auto
    then show ?thesis using 3 by (simp add: iff)
  qed
qed

lemma forward_run:
  fixes es :: "slot_event list" and pp tot :: int and rate :: uint64
  defines "n \<equiv> newForwardLimits pp tot rate"
  shows "limits_ok (foldl (slot_step acquire_slot release_slot held_circuits) n es)"
    and "held_circuits (foldl (slot_step acquire_slot release_slot held_circuits) n es)
           = foldl (spec_step (nat (fl_maxPerPeer n)) (nat (fl_maxTotal n))) {#} es"
    and "fl_maxPerPeer (foldl (slot_step acquire_slot release_slot held_circuits) n es) = fl_maxPerPeer n"
    and "fl_maxTotal (foldl (slot_step acquire_slot release_slot held_circuits) n es) = fl_maxTotal n"
proof -
  have ok: "limits_ok n" and h0: "held_circuits n = {#}"
    by (simp_all add: n_def newForwardLimits_ok) (simp add: held_circuits_def newForwardLimits_def Let_def)
  then show ok': "limits_ok (foldl (slot_step acquire_slot release_slot held_circuits) n es)" for es
    using forward_slots.run_refines by blast
  show "held_circuits (foldl (slot_step acquire_slot release_slot held_circuits) n es)
           = foldl (spec_step (nat (fl_maxPerPeer n)) (nat (fl_maxTotal n))) {#} es"
    using forward_slots.run_refines [OF ok, of es] h0 by simp
  show "fl_maxPerPeer (foldl (slot_step acquire_slot release_slot held_circuits) n es) = fl_maxPerPeer n"
    "fl_maxTotal (foldl (slot_step acquire_slot release_slot held_circuits) n es) = fl_maxTotal n"
    using ok' by (induction es rule: rev_induct)
      (auto simp: slot_step_def acquire_slot_def release_slot_def acquire_ok release_ok split: slot_event.splits)
qed

text \<open>C27: Over any sequence of circuits opened and closed, the limits of a forwarding hop behave as one
  multiset of held slots: a circuit is granted exactly when the hop and its previous hop are below their
  caps, no cap is ever passed, a full hop answers every neighbour alike and a neighbour is turned away for
  itself only at its own cap; and the table never holds more than twice the aggregate cap of entries,
  however many addresses dial in.\<close>

theorem forward_limits_refine_slots:
  "let n = newForwardLimits pp tot rate;
       f = foldl (slot_step acquire_slot release_slot held_circuits) n es;
       perPeer = nat (fl_maxPerPeer n); most = nat (fl_maxTotal n)
   in held_circuits f = foldl (spec_step perPeer most) {#} es
    \<and> size (held_circuits f) \<le> most \<and> (\<forall>p. count (held_circuits f) p \<le> perPeer)
    \<and> fl_total f = int (size (held_circuits f))
    \<and> (\<forall>p. \<exists>first pace. snd (acquire p f) =
          (if size (held_circuits f) = most then Inl (ErrForwardNodeBusy, first)
           else if count (held_circuits f) p = perPeer then Inl (ErrForwardPeerBusy, first) else Inr pace))
    \<and> card (dom (fl_peers f)) \<le> 2 * most"
proof -
  define n where "n = newForwardLimits pp tot rate"
  define f where "f = foldl (slot_step acquire_slot release_slot held_circuits) n es"
  note run = forward_run [where pp = pp and tot = tot and rate = rate and es = es, folded n_def, folded f_def]
  have "size (held_circuits f) \<le> nat (fl_maxTotal n) \<and> (\<forall>p. count (held_circuits f) p \<le> nat (fl_maxPerPeer n))"
    unfolding run(2) by (rule spec_run_bounded) simp_all
  then show ?thesis
    unfolding Let_def n_def [symmetric] f_def [symmetric]
    using acquire_answer [OF run(1), unfolded run(3,4)] limits_okD(7) [OF run(1)] table_bounded [OF run(1), unfolded run(4)] run(2)
    by blast
qed

section \<open>A hop is no open proxy\<close>

lemma reloaded_directory:
  assumes "reloadRelayDir verify unmarshal embeddedAS cfg content now held = Some d"
  shows "held = Some d \<or> (\<exists>b. content = Some b \<and> loadRelayDirectory verify unmarshal embeddedAS b (directory_key cfg) (rc_ID cfg) now = Inr d)"
  using assms by (auto simp: reloadRelayDir_def split: option.splits sum.splits)

lemma acquire_held:
  assumes "limits_ok f" and "snd (acquire p f) = Inr pace"
  shows "held_circuits (fst (acquire p f)) = add_mset p (held_circuits f)"
    and "held_circuits (fst (release p (fst (acquire p f)))) = held_circuits f"
proof -
  show h: "held_circuits (fst (acquire p f)) = add_mset p (held_circuits f)"
    using acquire_ok(2,3) [OF assms(1), of p] assms(2) by auto
  show "held_circuits (fst (release p (fst (acquire p f)))) = held_circuits f"
    using release_ok(2) [OF acquire_ok(1) [OF assms(1), of p], of p] by (simp add: h)
qed

text \<open>A hop that peels a layer dials only a node of the directory its coordinator signed, and never
  itself; every layer it does not carry is answered with a refusal that names the reason, and a refused
  layer costs neither a dial nor a slot.\<close>

lemma hop_dials_only_the_mesh:
  assumes "loadRelayDirectory verify unmarshal embeddedAS blob pub selfID now = Inr d"
    and "fn_dir e = Some d" and "limits_ok (fn_limits e)"
    and "relayForward split remote next dial_ok e = (e', outcome, dials)"
  shows "(dials = [] \<or> dials = [next] \<and> (\<exists>snap. VerifySigned verify unmarshal pub blob = Inr snap
            \<and> (\<exists>ent \<in> set (s_Entries snap). next = e_Addr ent \<or> next = e_Ingress ent))
            \<and> next \<noteq> [] \<and> next \<notin> rd_own d \<and> next \<noteq> rc_RelayIngress (fn_cfg e))
    \<and> (dials = [] \<longleftrightarrow> (\<exists>reason. outcome = Refused reason))
    \<and> held_circuits (fn_limits e') =
        (if outcome = Spliced then add_mset (forwardPeerKey split remote) (held_circuits (fn_limits e)) else held_circuits (fn_limits e))"
proof (rule loaded_directory [OF assms(1)])
  fix snap
  assume snap: "VerifySigned verify unmarshal pub blob = Inr snap"
    and mesh: "rd_dialable d = {a. a \<noteq> [] \<and> (\<exists>ent \<in> set (s_Entries snap). a = e_Addr ent \<or> a = e_Ingress ent)}"
  let ?peer = "forwardPeerKey split remote"
  have own: "next \<notin> rd_own d \<and> next \<noteq> rc_RelayIngress (fn_cfg e) \<and> next \<noteq> []"
    if "\<not> isSelfAddr (fn_cfg e) (fn_dir e) next" "next \<in> rd_dialable d"
    using that assms(2) mesh by (auto simp: isSelfAddr_def)
  show ?thesis
  proof (cases "forwardOn e \<and> \<not> isSelfAddr (fn_cfg e) (fn_dir e) next \<and> next \<in> rd_dialable d")
    case True
    then have in_mesh: "\<exists>ent \<in> set (s_Entries snap). next = e_Addr ent \<or> next = e_Ingress ent" using mesh by blast
    note forward = relayForward_def Let_def split_beta
    show ?thesis
    proof (cases "snd (acquire ?peer (fn_limits e))")
      case (Inl r)
      then show ?thesis
        using assms(2,4) True acquire_ok(2,3) [OF assms(3), of ?peer] by (auto simp: forward)
    next
      case (Inr pace)
      then show ?thesis
        using assms(2,4) True acquire_held(1,2) [OF assms(3) Inr] own snap in_mesh by (auto simp: forward split: if_splits)
    qed
  qed (use assms(2,4) in \<open>auto simp: relayForward_def split: if_splits\<close>)
qed


definition demo_forwarder :: forward_node where
  "demo_forwarder = \<lparr>fn_cfg = \<lparr>rc_RelayIngress = '':7000'', rc_RelayHops = 1, rc_ExitKeyHex = [], rc_RelayDirectory = [],
       rc_RelayDirectoryKey = [], rc_MeshPubKey = [], rc_ID = [], rc_Advertise = []\<rparr>,
     fn_dir = Some demo_directory, fn_limits = newForwardLimits 1 2 0\<rparr>"

end
