(* ===== verification/E2E.thy ===== *)
theory E2E
  imports Forward
begin

text \<open>
  The end-to-end channel between a client and an exit or hop (\<open>core/e2e.go\<close>), the datagram framing over
  it (\<open>core/udprelay.go\<close>) and what a node does with a peeled target (\<open>exitTerminate\<close> of
  \<open>core/forwarder.go\<close>). The Noise library is a parameter: the cipher states are functions of the nonce,
  which counts the messages sealed or opened so far, and a handshake message is what the library
  returned. What the transport returned to a read, or whether a write succeeded, is an input.
\<close>

section \<open>Frames\<close>

definition maxPlain :: nat where "maxPlain = 16384"
definition maxFrame :: nat where "maxFrame = 65535"
definition maxUDPDatagram :: nat where "maxUDPDatagram = 65535"

datatype e2e_error = ErrFrameTooLarge | ErrRaw | ErrCipher | ErrHandshakeIncomplete | ErrBadTarget | ErrNoise

definition writeRawFrame :: "bytes \<Rightarrow> e2e_error + bytes" where
  "writeRawFrame b =
     (if length b > maxFrame then Inl ErrFrameTooLarge else Inr (put_uint16 (word_of_nat (length b)) @ b))"

definition takeFrame :: "bytes \<Rightarrow> (bytes \<times> bytes) option" where
  "takeFrame rbuf =
     (if length rbuf < 2 then None
      else
        (let n = unat (get_uint16 (take 2 rbuf))
         in if length rbuf < 2 + n then None else Some (take n (drop 2 rbuf), drop (2 + n) rbuf)))"

text \<open>A read of the transport returns some bytes, with or without an error.\<close>

datatype raw_read = Chunk bytes | Fail bytes

datatype 'a read_result = Got 'a | ReadErr | Blocked

fun readFrameLocked :: "bytes \<Rightarrow> raw_read list \<Rightarrow> bytes read_result \<times> bytes \<times> raw_read list" where
  "readFrameLocked rbuf [] =
     (case takeFrame rbuf of Some (f, rest) \<Rightarrow> (Got f, rest, []) | None \<Rightarrow> (Blocked, rbuf, []))"
| "readFrameLocked rbuf (r # rs) =
     (case takeFrame rbuf of
        Some (f, rest) \<Rightarrow> (Got f, rest, r # rs)
      | None \<Rightarrow>
          (case r of
             Chunk c \<Rightarrow> readFrameLocked (rbuf @ c) rs
           | Fail c \<Rightarrow>
               (case takeFrame (rbuf @ c) of
                  Some (f, rest) \<Rightarrow> (Got f, rest, rs)
                | None \<Rightarrow> (ReadErr, rbuf @ c, rs))))"

record noise_conn =
  nc_rbuf :: bytes
  nc_pt :: bytes
  nc_enc :: nat
  nc_dec :: nat

definition newNoiseConn :: noise_conn where
  "newNoiseConn = \<lparr>nc_rbuf = [], nc_pt = [], nc_enc = 0, nc_dec = 0\<rparr>"

fun raw_bytes :: "raw_read \<Rightarrow> bytes" where
  "raw_bytes (Chunk c) = c"
| "raw_bytes (Fail c) = c"

definition stream_of :: "bytes \<Rightarrow> raw_read list \<Rightarrow> bytes" where
  "stream_of rbuf reads = rbuf @ concat (map raw_bytes reads)"

lemma takeFrame_shrinks: "takeFrame b = Some (f, rest) \<Longrightarrow> length rest + 2 \<le> length b"
  by (auto simp: takeFrame_def Let_def split: if_splits)

lemma takeFrame_append: "takeFrame b = Some (f, rest) \<Longrightarrow> takeFrame (b @ x) = Some (f, rest @ x)"
  by (auto simp: takeFrame_def Let_def split: if_splits)

lemma readFrameLocked_shrinks:
  "readFrameLocked rbuf reads = (Got f, rbuf', reads') \<Longrightarrow> length (stream_of rbuf' reads') < length (stream_of rbuf reads)"
proof (induction rbuf reads rule: readFrameLocked.induct)
  case (1 rbuf)
  then show ?case using takeFrame_shrinks by (auto simp: stream_of_def split: option.splits) fastforce
next
  case (2 rbuf r rs)
  show ?case
  proof (cases "takeFrame rbuf")
    case (Some fr)
    with 2(2) takeFrame_shrinks [of rbuf] show ?thesis by (cases fr) (auto simp: stream_of_def)
  next
    case None
    show ?thesis
    proof (cases r)
      case (Chunk c)
      then show ?thesis using 2 None by (auto simp: stream_of_def)
    next
      case (Fail c)
      then show ?thesis using 2(2) None takeFrame_shrinks [of "rbuf @ c"] by (auto simp: stream_of_def split: option.splits)
    qed
  qed
qed

function nc_Read ::
    "(nat \<Rightarrow> bytes \<Rightarrow> bytes option) \<Rightarrow> nat \<Rightarrow> noise_conn \<Rightarrow> raw_read list \<Rightarrow> bytes read_result \<times> noise_conn \<times> raw_read list" where
  "nc_Read dec cap c reads =
     (if nc_pt c \<noteq> [] then (Got (take cap (nc_pt c)), c\<lparr>nc_pt := drop cap (nc_pt c)\<rparr>, reads)
      else case readFrameLocked (nc_rbuf c) reads of
        (Got f, rbuf, reads') \<Rightarrow>
          (case dec (nc_dec c) f of
             None \<Rightarrow> (ReadErr, c\<lparr>nc_rbuf := rbuf\<rparr>, reads')
           | Some pt \<Rightarrow> nc_Read dec cap (c\<lparr>nc_rbuf := rbuf, nc_dec := nc_dec c + 1, nc_pt := pt\<rparr>) reads')
      | (ReadErr, rbuf, reads') \<Rightarrow> (ReadErr, c\<lparr>nc_rbuf := rbuf\<rparr>, reads')
      | (Blocked, rbuf, reads') \<Rightarrow> (Blocked, c\<lparr>nc_rbuf := rbuf\<rparr>, reads'))"
  by pat_completeness auto
termination
  by (relation "measure (\<lambda>(dec, cap, c, reads). length (stream_of (nc_rbuf c) reads))")
    (auto dest!: readFrameLocked_shrinks [OF sym])

declare nc_Read.simps [simp del]

definition readMessage :: "(nat \<Rightarrow> bytes \<Rightarrow> bytes option) \<Rightarrow> noise_conn \<Rightarrow> raw_read list \<Rightarrow> bytes read_result \<times> noise_conn \<times> raw_read list" where
  "readMessage dec c reads =
     (case readFrameLocked (nc_rbuf c) reads of
        (Got f, rbuf, reads') \<Rightarrow>
          (case dec (nc_dec c) f of
             None \<Rightarrow> (ReadErr, c\<lparr>nc_rbuf := rbuf\<rparr>, reads')
           | Some pt \<Rightarrow> (Got pt, c\<lparr>nc_rbuf := rbuf, nc_dec := nc_dec c + 1\<rparr>, reads'))
      | (ReadErr, rbuf, reads') \<Rightarrow> (ReadErr, c\<lparr>nc_rbuf := rbuf\<rparr>, reads')
      | (Blocked, rbuf, reads') \<Rightarrow> (Blocked, c\<lparr>nc_rbuf := rbuf\<rparr>, reads'))"

text \<open>\<open>oks\<close> tells which raw writes succeed, those past its end do. Returned are the frames of the writes that
  succeeded, the number of bytes accepted, the error, and the connection.\<close>

function nc_Write ::
    "(nat \<Rightarrow> bytes \<Rightarrow> bytes option) \<Rightarrow> bool list \<Rightarrow> noise_conn \<Rightarrow> bytes \<Rightarrow> bytes \<times> nat \<times> e2e_error option \<times> noise_conn" where
  "nc_Write enc oks c p =
     (if p = [] then ([], 0, None, c)
      else
        (let n = min (length p) maxPlain
         in case enc (nc_enc c) (take n p) of
              None \<Rightarrow> ([], 0, Some ErrCipher, c)
            | Some ct \<Rightarrow>
                (let c1 = c\<lparr>nc_enc := nc_enc c + 1\<rparr>
                 in case writeRawFrame ct of
                      Inl e \<Rightarrow> ([], 0, Some e, c1)
                    | Inr frame \<Rightarrow>
                        if oks \<noteq> [] \<and> \<not> hd oks then ([], 0, Some ErrRaw, c1)
                        else
                          (let (w, t, e, c2) = nc_Write enc (tl oks) c1 (drop n p)
                           in (frame @ w, n + t, e, c2)))))"
  by pat_completeness auto
termination
  by (relation "measure (\<lambda>(enc, oks, c, p). length p)") (auto simp: maxPlain_def)

declare nc_Write.simps [simp del]

section \<open>Delivery\<close>

text \<open>The plaintext a byte stream holds from a nonce on, up to the first frame that does not open.\<close>

function plain :: "(nat \<Rightarrow> bytes \<Rightarrow> bytes option) \<Rightarrow> nat \<Rightarrow> bytes \<Rightarrow> bytes" where
  "plain dec n bs =
     (case takeFrame bs of
        None \<Rightarrow> []
      | Some (f, rest) \<Rightarrow> (case dec n f of None \<Rightarrow> [] | Some p \<Rightarrow> p @ plain dec (n + 1) rest))"
  by pat_completeness auto
termination
  by (relation "measure (\<lambda>(dec, n, bs). length bs)") (auto dest!: takeFrame_shrinks)

declare plain.simps [simp del]

definition undelivered :: "(nat \<Rightarrow> bytes \<Rightarrow> bytes option) \<Rightarrow> noise_conn \<Rightarrow> raw_read list \<Rightarrow> bytes" where
  "undelivered dec c reads = nc_pt c @ plain dec (nc_dec c) (stream_of (nc_rbuf c) reads)"

definition no_fail :: "raw_read list \<Rightarrow> bool" where
  "no_fail reads \<longleftrightarrow> (\<forall>r \<in> set reads. \<exists>c. r = Chunk c)"

lemma readFrameLocked_chunks:
  "no_fail reads \<Longrightarrow>
     (case takeFrame (stream_of rbuf reads) of
        None \<Rightarrow> \<exists>b. readFrameLocked rbuf reads = (Blocked, b, []) \<and> stream_of b [] = stream_of rbuf reads
      | Some (f, rest) \<Rightarrow> \<exists>b rs. readFrameLocked rbuf reads = (Got f, b, rs) \<and> stream_of b rs = rest \<and> no_fail rs)"
proof (induction rbuf reads rule: readFrameLocked.induct)
  case (2 rbuf r rs)
  from 2(2) obtain c where r: "r = Chunk c" by (auto simp: no_fail_def)
  show ?case
  proof (cases "takeFrame rbuf")
    case (Some fr)
    then show ?thesis using 2(2) takeFrame_append [of rbuf "fst fr" "snd fr" "concat (map raw_bytes (r # rs))"]
      by (cases fr) (simp add: stream_of_def)
  next
    case None
    then have e: "readFrameLocked rbuf (r # rs) = readFrameLocked (rbuf @ c) rs" using r by simp
    have s: "stream_of rbuf (r # rs) = stream_of (rbuf @ c) rs" by (simp add: stream_of_def r)
    show ?thesis unfolding e s by (rule 2(1) [OF None r]) (use 2(2) in \<open>simp add: no_fail_def\<close>)
  qed
qed (simp add: stream_of_def no_fail_def split: option.split)

lemma nc_Read_delivers:
  assumes "no_fail reads" and "0 < cap"
  shows "case nc_Read dec cap c reads of
      (Got bs, c', reads') \<Rightarrow> undelivered dec c reads = bs @ undelivered dec c' reads' \<and> bs \<noteq> [] \<and> no_fail reads'
    | (_, c', reads') \<Rightarrow> undelivered dec c reads = []"
  using assms
proof (induction dec cap c reads rule: nc_Read.induct)
  case (1 dec cap c reads)
  show ?case
  proof (cases "nc_pt c = []")
    case False
    then show ?thesis using 1(3,2) by (simp add: nc_Read.simps [of dec cap c] undelivered_def flip: append_assoc)
  next
    case True
    note rd = readFrameLocked_chunks [OF 1(2), of "nc_rbuf c"]
    show ?thesis
    proof (cases "takeFrame (stream_of (nc_rbuf c) reads)")
      case None
      then show ?thesis using rd True by (auto simp: nc_Read.simps [of dec cap c] undelivered_def plain.simps)
    next
      case (Some fr)
      obtain f rest where fr: "fr = (f, rest)" by (cases fr)
      then obtain b rs where b: "readFrameLocked (nc_rbuf c) reads = (Got f, b, rs)" "stream_of b rs = rest" "no_fail rs"
        using rd Some by auto
      show ?thesis
      proof (cases "dec (nc_dec c) f")
        case None
        then show ?thesis using Some fr b True by (simp add: nc_Read.simps [of dec cap c] undelivered_def plain.simps)
      next
        case pt: (Some pt)
        let ?c = "c\<lparr>nc_rbuf := b, nc_dec := nc_dec c + 1, nc_pt := pt\<rparr>"
        have u: "undelivered dec c reads = undelivered dec ?c rs"
          using Some fr b True pt by (simp add: undelivered_def plain.simps [of dec "nc_dec c"])
        have r: "nc_Read dec cap c reads = nc_Read dec cap ?c rs"
          using b True pt by (subst nc_Read.simps) simp
        show ?thesis unfolding u r
          by (rule 1(1) [OF _ b(1) [symmetric] refl refl pt b(3) 1(3)]) (simp add: True)
      qed
    qed
  qed
qed


text \<open>Two cipher states that match: what one seals the other opens under the same nonce.\<close>

definition cipher_ok :: "(nat \<Rightarrow> bytes \<Rightarrow> bytes option) \<Rightarrow> (nat \<Rightarrow> bytes \<Rightarrow> bytes option) \<Rightarrow> bool" where
  "cipher_ok enc dec \<longleftrightarrow>
     (\<forall>n p. length p \<le> maxPlain \<longrightarrow> (\<exists>ct. enc n p = Some ct \<and> length ct \<le> maxFrame \<and> dec n ct = Some p))"

lemma takeFrame_written:
  assumes "length b \<le> maxFrame"
  shows "takeFrame (put_uint16 (word_of_nat (length b)) @ b @ x) = Some (b, x)"
proof -
  have "unat (word_of_nat (length b) :: uint16) = length b"
    using assms by (intro unat_word_of_nat16) (simp add: maxFrame_def)
  then show ?thesis by (simp add: takeFrame_def Let_def)
qed

lemma nc_Write_plain:
  assumes "cipher_ok enc dec" and "nc_Write enc [] c p = (w, t, e, c')"
  shows "e = None \<and> t = length p \<and> plain dec (nc_enc c) (w @ x) = p @ plain dec (nc_enc c') x"
  using assms(2)
proof (induction p arbitrary: c w t e c' rule: length_induct)
  case (1 p)
  show ?case
  proof (cases "p = []")
    case True
    then show ?thesis using 1(2) by (simp add: nc_Write.simps)
  next
    case False
    define n where "n = min (length p) maxPlain"
    have short: "length (take n p) \<le> maxPlain" by (simp add: n_def)
    obtain ct where ct: "enc (nc_enc c) (take n p) = Some ct" "length ct \<le> maxFrame" "dec (nc_enc c) ct = Some (take n p)"
      using assms(1) short unfolding cipher_ok_def by blast
    let ?c = "c\<lparr>nc_enc := nc_enc c + 1\<rparr>"
    obtain w1 t1 e1 c1 where r: "nc_Write enc [] ?c (drop n p) = (w1, t1, e1, c1)" by (metis prod_cases4)
    have out: "w = put_uint16 (word_of_nat (length ct)) @ ct @ w1" "t = n + t1" "e = e1" "c' = c1"
      using 1(2) False ct r by (simp_all add: nc_Write.simps [of enc "[]" c] n_def [symmetric] Let_def writeRawFrame_def not_less)
    have "length (drop n p) < length p" using False by (simp add: n_def maxPlain_def)
    then have "e1 = None \<and> t1 = length (drop n p) \<and> plain dec (nc_enc c + 1) (w1 @ x) = drop n p @ plain dec (nc_enc c1) x"
      using 1(1) r by fastforce
    moreover have "n \<le> length p" by (simp add: n_def)
    ultimately show ?thesis
      using ct by (simp add: out plain.simps [of dec "nc_enc c"] takeFrame_written)
  qed
qed

fun write_all :: "(nat \<Rightarrow> bytes \<Rightarrow> bytes option) \<Rightarrow> noise_conn \<Rightarrow> bytes list \<Rightarrow> bytes" where
  "write_all enc c [] = []"
| "write_all enc c (p # ps) = (let (w, t, e, c1) = nc_Write enc [] c p in w @ write_all enc c1 ps)"

fun read_many :: "(nat \<Rightarrow> bytes \<Rightarrow> bytes option) \<Rightarrow> nat list \<Rightarrow> noise_conn \<Rightarrow> raw_read list \<Rightarrow> bytes" where
  "read_many dec [] c reads = []"
| "read_many dec (k # ks) c reads =
     (case nc_Read dec k c reads of
        (Got bs, c1, reads1) \<Rightarrow> bs @ read_many dec ks c1 reads1
      | _ \<Rightarrow> [])"

lemma write_all_plain: "cipher_ok enc dec \<Longrightarrow> plain dec (nc_enc c) (write_all enc c ps) = concat ps"
proof (induction ps arbitrary: c)
  case (Cons p ps)
  obtain w t e c1 where w: "nc_Write enc [] c p = (w, t, e, c1)" by (metis prod_cases4)
  then show ?case using Cons nc_Write_plain [OF Cons.prems w] by simp
qed (simp add: plain.simps takeFrame_def)

lemma read_many_delivers:
  assumes "\<forall>k \<in> set ks. 0 < k" and "no_fail reads"
  shows "\<exists>rest. undelivered dec c reads = read_many dec ks c reads @ rest
     \<and> (length (undelivered dec c reads) \<le> length ks \<longrightarrow> rest = [])"
  using assms
proof (induction dec ks c reads rule: read_many.induct)
  case (2 dec k ks c reads)
  obtain r c1 reads1 where r: "nc_Read dec k c reads = (r, c1, reads1)" by (metis prod_cases3)
  have d: "case nc_Read dec k c reads of
      (Got bs, c', reads') \<Rightarrow> undelivered dec c reads = bs @ undelivered dec c' reads' \<and> bs \<noteq> [] \<and> no_fail reads'
    | (_, c', reads') \<Rightarrow> undelivered dec c reads = []"
    using 2(2,3) by (intro nc_Read_delivers) auto
  show ?case
  proof (cases r)
    case (Got bs)
    have u: "undelivered dec c reads = bs @ undelivered dec c1 reads1" "bs \<noteq> []" "no_fail reads1"
      using d r Got by simp_all
    obtain rest where "undelivered dec c1 reads1 = read_many dec ks c1 reads1 @ rest"
        "length (undelivered dec c1 reads1) \<le> length ks \<longrightarrow> rest = []"
      using 2(1) [OF r [symmetric] Got refl _ u(3)] 2(2) by auto
    then show ?thesis using u r Got by (cases bs) auto
  qed (use d r in auto)
qed simp

text \<open>C29: Whatever was written to one end of a channel is read at the other, in order and once, whatever
  sizes the transport splits the bytes into and whatever sizes the reader asks for: each read returns
  at least one byte while any is left, and no byte is lost, repeated or invented.\<close>

theorem channel_delivers_in_order:
  assumes "cipher_ok enc dec" and "concat chunks = write_all enc newNoiseConn ps" and "\<forall>k \<in> set sizes. 0 < k"
  shows "\<exists>rest. concat ps = read_many dec sizes newNoiseConn (map Chunk chunks) @ rest
    \<and> (length (concat ps) \<le> length sizes \<longrightarrow> rest = [])"
proof -
  have "undelivered dec newNoiseConn (map Chunk chunks) = plain dec 0 (concat chunks)"
    by (simp add: undelivered_def newNoiseConn_def stream_of_def comp_def)
  also have "\<dots> = concat ps" using write_all_plain [OF assms(1), of newNoiseConn ps] assms(2) by (simp add: newNoiseConn_def)
  finally have "undelivered dec newNoiseConn (map Chunk chunks) = concat ps" .
  moreover have "no_fail (map Chunk chunks)" by (auto simp: no_fail_def)
  ultimately show ?thesis using read_many_delivers [OF assms(3), of "map Chunk chunks" dec newNoiseConn] by simp
qed

lemma plain_cipher: "cipher_ok (\<lambda>_. Some) (\<lambda>_. Some)"
  by (simp add: cipher_ok_def maxPlain_def maxFrame_def)

lemma plain_Write:
  "p \<noteq> [] \<Longrightarrow> length p \<le> maxPlain \<Longrightarrow> nc_Write (\<lambda>_. Some) [] c p =
     (put_uint16 (word_of_nat (length p)) @ p, length p, None, c\<lparr>nc_enc := nc_enc c + 1\<rparr>)"
  by (simp add: nc_Write.simps [of _ _ c] nc_Write.simps [of _ _ _ "[]"] min_absorb1 writeRawFrame_def maxPlain_def maxFrame_def Let_def)

theorem channel_delivers_in_order_witness:
  "read_many (\<lambda>_. Some) [1, 2, 1] newNoiseConn (map Chunk [[0, 2, 7], [8, 0, 1], [9]]) = [7, 8, 9 :: byte]"
proof -
  have "concat [[0, 2, 7], [8, 0, 1], [9]] = write_all (\<lambda>_. Some) newNoiseConn [[7, 8], [9]]"
    by (simp add: plain_Write maxPlain_def put_uint16_def)
  from channel_delivers_in_order [OF plain_cipher this, of "[1, 2, 1]"] show ?thesis by auto
qed


section \<open>Datagrams over the channel\<close>

definition writeUDPFrame :: "bytes \<Rightarrow> e2e_error + bytes" where
  "writeUDPFrame payload =
     (if length payload > maxUDPDatagram then Inl ErrFrameTooLarge
      else Inr (put_uint16 (word_of_nat (length payload)) @ payload))"

text \<open>Reading from what the stream still delivers before it ends; the rest of the stream is returned.\<close>

definition readUDPFrame :: "bytes \<Rightarrow> nat \<Rightarrow> e2e_error + bytes \<times> bytes" where
  "readUDPFrame avail buf =
     (if length avail < 2 then Inl ErrRaw
      else
        (let n = unat (get_uint16 (take 2 avail))
         in if n > buf then Inl ErrFrameTooLarge
            else if length avail < 2 + n then Inl ErrRaw
            else Inr (take n (drop 2 avail), drop (2 + n) avail)))"

lemma readUDPFrame_written:
  "writeUDPFrame p = Inr w \<Longrightarrow> readUDPFrame (w @ rest) maxUDPDatagram = Inr (p, rest)"
proof -
  assume "writeUDPFrame p = Inr w"
  then have w: "w = put_uint16 (word_of_nat (length p)) @ p" and l: "length p \<le> maxUDPDatagram"
    by (auto simp: writeUDPFrame_def split: if_splits)
  have "unat (word_of_nat (length p) :: uint16) = length p"
    using l by (intro unat_word_of_nat16) (simp add: maxUDPDatagram_def)
  then show ?thesis using w l by (simp add: readUDPFrame_def Let_def)
qed

definition socksUDPHeaderLen :: nat where "socksUDPHeaderLen = 10"

definition decodeSOCKSUDPFrame :: "bytes \<Rightarrow> (bytes \<times> bytes \<times> uint16) option" where
  "decodeSOCKSUDPFrame b =
     (if length b < socksUDPHeaderLen \<or> b ! 0 \<noteq> 0 \<or> b ! 1 \<noteq> 0 \<or> b ! 2 \<noteq> 0 \<or> b ! 3 \<noteq> 1 then None
      else Some (drop socksUDPHeaderLen b, take 4 (drop 4 b), get_uint16 (take 2 (drop 8 b))))"

definition encodeSOCKSUDPFrame :: "bytes \<Rightarrow> uint16 \<Rightarrow> bytes \<Rightarrow> bytes" where
  "encodeSOCKSUDPFrame ip port payload = [0, 0, 0, 1] @ ip @ put_uint16 port @ payload"

lemma socks_udp_round_trip:
  assumes "length ip = 4"
  shows "decodeSOCKSUDPFrame (encodeSOCKSUDPFrame ip port p) = Some (p, ip, port)"
proof -
  obtain a b c d where "ip = [a, b, c, d]" using assms by (auto simp: numeral_eq_Suc length_Suc_conv)
  then show ?thesis by (simp add: decodeSOCKSUDPFrame_def encodeSOCKSUDPFrame_def socksUDPHeaderLen_def)
qed

text \<open>The datagrams a SOCKS association forwards: the first one fixes the peer and the destination,
  later ones are forwarded only from that peer to that destination.\<close>

fun assoc_later :: "bytes \<times> uint16 \<Rightarrow> bytes \<Rightarrow> uint16 \<Rightarrow> ((bytes \<times> uint16) \<times> bytes) list \<Rightarrow> bytes list" where
  "assoc_later peer ip port [] = []"
| "assoc_later peer ip port ((src, b) # rest) =
     (if src \<noteq> peer then assoc_later peer ip port rest
      else case decodeSOCKSUDPFrame b of
        None \<Rightarrow> assoc_later peer ip port rest
      | Some (p, ip', port') \<Rightarrow>
          if port' \<noteq> port \<or> ip' \<noteq> ip then assoc_later peer ip port rest else p # assoc_later peer ip port rest)"

definition serveSOCKSUDPAssociate ::
    "((bytes \<times> uint16) \<times> bytes) list \<Rightarrow> ((bytes \<times> uint16) \<times> bytes list) option" where
  "serveSOCKSUDPAssociate dgrams =
     (case dgrams of
        [] \<Rightarrow> None
      | (peer, b) # rest \<Rightarrow>
          (case decodeSOCKSUDPFrame b of
             None \<Rightarrow> None
           | Some (p, ip, port) \<Rightarrow> Some ((ip, port), p # assoc_later peer ip port rest)))"

lemma assoc_later_set:
  "p \<in> set (assoc_later peer ip port dgrams) \<longleftrightarrow>
     (\<exists>b. (peer, b) \<in> set dgrams \<and> decodeSOCKSUDPFrame b = Some (p, ip, port))"
  by (induction peer ip port dgrams rule: assoc_later.induct) (auto split: option.splits)

text \<open>One destination and one peer per association: what reaches the exit was addressed to it.\<close>

lemma association_single_destination:
  assumes "serveSOCKSUDPAssociate dgrams = Some ((ip, port), ps)" and "p \<in> set ps"
  shows "\<exists>b. (fst (hd dgrams), b) \<in> set dgrams \<and> decodeSOCKSUDPFrame b = Some (p, ip, port)"
  using assms
  by (cases dgrams) (auto simp: serveSOCKSUDPAssociate_def assoc_later_set split: option.splits, blast+)

section \<open>Targets\<close>

definition udpTargetPrefix :: string where "udpTargetPrefix = ''udp:''"
definition hopTargetPrefix :: string where "hopTargetPrefix = ''hop:''"
definition acctSentinel :: string where "acctSentinel = ''bacchus-accounting.invalid:0''"
definition probeSentinel :: string where "probeSentinel = ''bacchus-probe.invalid:0''"
definition maxTargetPrefixLen :: nat where "maxTargetPrefixLen = 4"

definition splitTargetPrefix :: "string \<Rightarrow> string \<times> string" where
  "splitTargetPrefix target =
     (if HasPrefix target udpTargetPrefix then (udpTargetPrefix, drop 4 target)
      else if HasPrefix target hopTargetPrefix then (hopTargetPrefix, drop 4 target)
      else ([], target))"

lemma hop_target:
  assumes "fst (splitTargetPrefix target) = hopTargetPrefix"
  shows "target = hopTargetPrefix @ snd (splitTargetPrefix target)"
proof -
  have "HasPrefix target hopTargetPrefix" "snd (splitTargetPrefix target) = drop 4 target"
    using assms by (auto simp: splitTargetPrefix_def hopTargetPrefix_def udpTargetPrefix_def split: if_splits)
  moreover have "length hopTargetPrefix = 4" by (simp add: hopTargetPrefix_def)
  ultimately show ?thesis unfolding HasPrefix_def by (metis append_take_drop_id)
qed

text \<open>\<open>split\<close> is \<open>net.SplitHostPort\<close>.\<close>

definition validTarget :: "(string \<Rightarrow> string option) \<Rightarrow> string \<Rightarrow> bool" where
  "validTarget split target \<longleftrightarrow>
     target \<noteq> [] \<and> length target \<le> 255 + maxTargetPrefixLen \<and> split (snd (splitTargetPrefix target)) \<noteq> None"

datatype served = ServedAccounting | ServedProbe | ServedForward forward_outcome | RefusedEgress
  | ServedUDP | ServedTCP

text \<open>What a node does with the target a client sealed to it, with the addresses it dials: the sentinels
  dial nothing, a hop target goes to \<open>relayForward\<close>, and only an exit goes on to the internet.\<close>

definition exitTerminate ::
    "(string \<Rightarrow> string option) \<Rightarrow> string set \<Rightarrow> string option \<Rightarrow> string \<Rightarrow> bool \<Rightarrow> forward_node
      \<Rightarrow> forward_node \<times> served \<times> string list" where
  "exitTerminate split roles remote target dial_ok e =
     (if target = acctSentinel then (e, ServedAccounting, [])
      else if target = probeSentinel then (e, ServedProbe, [])
      else
        (let (pre, a) = splitTargetPrefix target
         in if pre = hopTargetPrefix
            then (let (e', r, dials) = relayForward split remote a dial_ok e in (e', ServedForward r, dials))
            else if RoleExit \<notin> roles then (e, RefusedEgress, [])
            else if pre = udpTargetPrefix then (e, ServedUDP, [a])
            else (e, ServedTCP, [target])))"

lemma relayForward_dials:
  assumes "loadRelayDirectory verify unmarshal embeddedAS blob pub selfID now = Inr d"
    and "fn_dir e = Some d" and "a \<in> set (snd (snd (relayForward split remote next dial_ok e)))"
  shows "a = next \<and> a \<in> rd_dialable d \<and> \<not> isSelfAddr (fn_cfg e) (fn_dir e) a"
  using assms(2,3)
  by (auto simp: relayForward_def Let_def split_beta split: if_splits sum.splits)

text \<open>C10: A node without the exit role never opens a connection to an address of a client's choosing: of
  whatever target a client seals to it, it dials nothing or one address that a node of the signed
  directory published, and not its own.\<close>

theorem relay_never_egresses:
  assumes "loadRelayDirectory verify unmarshal embeddedAS blob pub selfID now = Inr d"
    and "fn_dir e = Some d" and "RoleExit \<notin> roles"
    and "a \<in> set (snd (snd (exitTerminate split roles remote target dial_ok e)))"
  shows "target = hopTargetPrefix @ a \<and> a \<notin> rd_own d
    \<and> (\<exists>snap. VerifySigned verify unmarshal pub blob = Inr snap \<and> now \<le> s_ExpiresAt snap
        \<and> (\<exists>ent \<in> set (s_Entries snap). a = e_Addr ent \<or> a = e_Ingress ent))"
proof (rule loaded_directory [OF assms(1)])
  fix snap
  assume snap: "VerifySigned verify unmarshal pub blob = Inr snap" "now \<le> s_ExpiresAt snap"
    and mesh: "rd_dialable d = {a. a \<noteq> [] \<and> (\<exists>ent \<in> set (s_Entries snap). a = e_Addr ent \<or> a = e_Ingress ent)}"
  have hop: "fst (splitTargetPrefix target) = hopTargetPrefix"
    and fwd: "a \<in> set (snd (snd (relayForward split remote (snd (splitTargetPrefix target)) dial_ok e)))"
    using assms(3,4) by (auto simp: exitTerminate_def Let_def split_beta split: if_splits)
  note t = hop_target [OF hop]
  have f: "a = snd (splitTargetPrefix target) \<and> a \<in> rd_dialable d \<and> \<not> isSelfAddr (fn_cfg e) (fn_dir e) a"
    by (rule relayForward_dials [OF assms(1,2) fwd])
  then have "a \<notin> rd_own d" using assms(2) mesh by (auto simp: isSelfAddr_def)
  then show ?thesis using t f snap mesh by auto
qed

theorem relay_never_egresses_witness:
  "\<exists>snap. VerifySigned (\<lambda>_ _ _. True) (\<lambda>_. Some demo_dir_snapshot) (replicate 32 (0 :: byte)) (replicate 65 0) = Inr snap
     \<and> (\<exists>ent \<in> set (s_Entries snap). ''192.0.2.3:1'' = e_Addr ent \<or> ''192.0.2.3:1'' = e_Ingress ent)"
proof -
  have "''192.0.2.3:1'' \<in> set (snd (snd (exitTerminate (\<lambda>_. None) {RoleRelay} (Some ''h'') (hopTargetPrefix @ ''192.0.2.3:1'') True demo_forwarder)))"
    by (simp add: exitTerminate_def acctSentinel_def probeSentinel_def splitTargetPrefix_def HasPrefix_def hopTargetPrefix_def
        udpTargetPrefix_def relayForward_def demo_forwarder_def forwardOn_def isSelfAddr_def demo_directory_def acquire_def
        find_peer_def newForwardLimits_def Let_def)
  moreover have "fn_dir demo_forwarder = Some demo_directory" by (simp add: demo_forwarder_def)
  moreover have "RoleExit \<notin> {RoleRelay}" by (simp add: RoleExit_def RoleRelay_def)
  ultimately show ?thesis using relay_never_egresses [OF demo_loads] by blast
qed

end
