(* ===== verification/Dial.thy ===== *)
theory Dial
  imports E2E
begin

text \<open>
  The client side of a connection: the admission checks of exits and hops (\<open>core/exit_admission.go\<close>),
  the handshakes of \<open>core/e2e.go\<close>, and the telescoping dial of \<open>core/relaychain.go\<close> with its attribution of
  failures, its cooling memory and its bounded rebuilds. A layer's handshake is its observable outcome:
  the bytes read while it ran, the credential the peer presented, whether the target was written, and
  whether the layer's budget ended it.
\<close>

section \<open>Admission of exits and hops (exit_admission.go)\<close>

text \<open>The verifier of an exit closes over the bundle in force, so an anchor is the key with that bundle.\<close>

type_synonym exit_anchor = "bytes \<times> client_crl"

datatype anchor_error =
    BothCRLSources | CRLWithoutKey | RequireWithoutKey | BadAnchorKey | BadCRL crl_error | CRLFileUnreadable | CRLRequired
  | BadAuthority authority_error

definition readCRLFile :: "string option \<Rightarrow> string option" where
  "readCRLFile content = map_option TrimSpace content"

definition buildExitVerifier ::
    "admission_env \<Rightarrow> string \<Rightarrow> string \<Rightarrow> string \<Rightarrow> string option \<Rightarrow> bool \<Rightarrow> time \<Rightarrow> anchor_error + exit_anchor option" where
  "buildExitVerifier env pubKeyHex crlEncoded crlPath content requireCRL now =
     (let pubKeyHex = TrimSpace pubKeyHex; crlEncoded = TrimSpace crlEncoded; crlPath = TrimSpace crlPath
      in if crlEncoded \<noteq> [] \<and> crlPath \<noteq> [] then Inl BothCRLSources
         else if pubKeyHex = [] then
           (if crlEncoded \<noteq> [] \<or> crlPath \<noteq> [] then Inl CRLWithoutKey
            else if requireCRL then Inl RequireWithoutKey
            else Inr None)
         else
           (case hex_decode pubKeyHex of
              None \<Rightarrow> Inl BadAnchorKey
            | Some pub \<Rightarrow>
                if length pub \<noteq> PublicKeySize then Inl BadAnchorKey
                else if crlEncoded \<noteq> [] then
                  (case ClientCRL_Set env crlEncoded now (NewClientCRL pub) of
                     (Some err, _) \<Rightarrow> Inl (BadCRL err)
                   | (None, crl) \<Rightarrow> Inr (Some (pub, crl)))
                else if crlPath \<noteq> [] then
                  (case readCRLFile content of
                     None \<Rightarrow> Inl CRLFileUnreadable
                   | Some encoded \<Rightarrow>
                       (case ClientCRL_Set env encoded now (NewClientCRL pub) of
                          (Some err, _) \<Rightarrow> Inl (BadCRL err)
                        | (None, crl) \<Rightarrow> Inr (Some (pub, crl))))
                else if requireCRL then Inl CRLRequired
                else Inr (Some (pub, NewClientCRL pub))))"

datatype peer_error = UnboundKey | MissingCredential | NotAdmitted admission_error

definition verifyExitCredential :: "admission_env \<Rightarrow> exit_anchor \<Rightarrow> bytes \<Rightarrow> bytes \<Rightarrow> time \<Rightarrow> peer_error option" where
  "verifyExitCredential env anchor exitPub cred now =
     (if exitPub = [] then Some UnboundKey
      else if cred = [] then Some MissingCredential
      else case admission_Verify env (NewVerifier_admission (fst anchor) (Some (ClientCRL_Revoked (snd anchor))))
                  (string_of_bytes cred) now RoleExit (hex_encode exitPub) of
             Inl e \<Rightarrow> Some (NotAdmitted e)
           | Inr _ \<Rightarrow> None)"

type_synonym peer_check = "(bytes \<Rightarrow> peer_error option) option"

definition exitVerifyFunc :: "admission_env \<Rightarrow> exit_anchor option \<Rightarrow> bytes \<Rightarrow> time \<Rightarrow> peer_check" where
  "exitVerifyFunc env anchor exitPub now =
     map_option (\<lambda>a cred. verifyExitCredential env a exitPub cred now) anchor"

definition buildRelayVerifier :: "string \<Rightarrow> client_crl option \<Rightarrow> anchor_error + admission_verifier option" where
  "buildRelayVerifier pubKeyHex crl =
     (let pubKeyHex = TrimSpace pubKeyHex
      in if pubKeyHex = [] then Inr None
         else
           (case hex_decode pubKeyHex of
              None \<Rightarrow> Inl BadAnchorKey
            | Some pub \<Rightarrow>
                if length pub \<noteq> PublicKeySize then Inl BadAnchorKey
                else
                  (case NewAuthoritySetVerifier [\<lparr>au_Pub = pub, au_Roles = [RoleRelay]\<rparr>] (map_option ClientCRL_Revoked crl) of
                     Inl e \<Rightarrow> Inl (BadAuthority e)
                   | Inr v \<Rightarrow> Inr (Some v))))"

definition verifyHopCredential :: "admission_env \<Rightarrow> admission_verifier \<Rightarrow> bytes \<Rightarrow> bytes \<Rightarrow> time \<Rightarrow> peer_error option" where
  "verifyHopCredential env v hopPub cred now =
     (if hopPub = [] then Some UnboundKey
      else if cred = [] then Some MissingCredential
      else case admission_Verify env v (string_of_bytes cred) now RoleRelay (hex_encode hopPub) of
             Inl e \<Rightarrow> Some (NotAdmitted e)
           | Inr _ \<Rightarrow> None)"

definition hopVerifyFunc :: "admission_env \<Rightarrow> admission_verifier option \<Rightarrow> bytes \<Rightarrow> time \<Rightarrow> peer_check" where
  "hopVerifyFunc env v hopPub now = map_option (\<lambda>v cred. verifyHopCredential env v hopPub cred now) v"

text \<open>A reload keeps the bundle in force unless the file holds a valid one.\<close>

definition reloadCRL :: "admission_env \<Rightarrow> string option \<Rightarrow> time \<Rightarrow> client_crl \<Rightarrow> client_crl" where
  "reloadCRL env content now crl =
     (case readCRLFile content of None \<Rightarrow> crl | Some encoded \<Rightarrow> snd (ClientCRL_Set env encoded now crl))"

definition check_accepts :: "peer_check \<Rightarrow> bytes \<Rightarrow> bool" where
  "check_accepts check cred \<longleftrightarrow> (case check of None \<Rightarrow> True | Some f \<Rightarrow> f cred = None)"

section \<open>The handshakes (e2e.go)\<close>

type_synonym cipher = "nat \<Rightarrow> bytes \<Rightarrow> bytes option"

datatype handshake_error = HsFailed e2e_error | HsRejected peer_error | HsWaiting

text \<open>\<open>start\<close> gives the first message for a static key and the state to go on with, \<open>finish\<close> opens the
  answer: its payload, and the two cipher states if the handshake is complete. The bytes written to
  the transport are returned with the result.\<close>

definition clientHandshake ::
    "(bytes \<Rightarrow> (bytes \<times> 'hs) option) \<Rightarrow> ('hs \<Rightarrow> bytes \<Rightarrow> (bytes \<times> (cipher \<times> cipher) option) option) \<Rightarrow> bytes \<Rightarrow> string
      \<Rightarrow> peer_check \<Rightarrow> bool \<Rightarrow> bool list \<Rightarrow> raw_read list
      \<Rightarrow> bytes \<times> (handshake_error + noise_conn \<times> cipher \<times> cipher \<times> raw_read list)" where
  "clientHandshake start finish exitPub target check ok1 oks reads =
     (case start exitPub of
        None \<Rightarrow> ([], Inl (HsFailed ErrNoise))
      | Some (msg1, hs) \<Rightarrow>
          (case writeRawFrame msg1 of
             Inl e \<Rightarrow> ([], Inl (HsFailed e))
           | Inr f1 \<Rightarrow>
               if \<not> ok1 then ([], Inl (HsFailed ErrRaw))
               else
                 (case readFrameLocked [] reads of
                    (Got msg2, rbuf, reads') \<Rightarrow>
                      (case finish hs msg2 of
                         None \<Rightarrow> (f1, Inl (HsFailed ErrNoise))
                       | Some (cred, None) \<Rightarrow> (f1, Inl (HsFailed ErrHandshakeIncomplete))
                       | Some (cred, Some (enc, dec)) \<Rightarrow>
                           (case (case check of None \<Rightarrow> None | Some f \<Rightarrow> f cred) of
                              Some e \<Rightarrow> (f1, Inl (HsRejected e))
                            | None \<Rightarrow>
                                (case nc_Write enc oks (newNoiseConn\<lparr>nc_rbuf := rbuf\<rparr>) (bytes_of_string target) of
                                   (w, t, Some e, c) \<Rightarrow> (f1 @ w, Inl (HsFailed e))
                                 | (w, t, None, c) \<Rightarrow> (f1 @ w, Inr (c, enc, dec, reads')))))
                  | (ReadErr, rbuf, reads') \<Rightarrow> (f1, Inl (HsFailed ErrRaw))
                  | (Blocked, rbuf, reads') \<Rightarrow> (f1, Inl HsWaiting))))"

definition exitHandshake ::
    "(bytes \<Rightarrow> bytes \<Rightarrow> (bytes \<times> (cipher \<times> cipher) option) option) \<Rightarrow> (string \<Rightarrow> string option) \<Rightarrow> bytes \<Rightarrow> bool \<Rightarrow> raw_read list
      \<Rightarrow> bytes \<times> (handshake_error + noise_conn \<times> string \<times> raw_read list)" where
  "exitHandshake respond split cred ok reads =
     (case readFrameLocked [] reads of
        (ReadErr, _) \<Rightarrow> ([], Inl (HsFailed ErrRaw))
      | (Blocked, _) \<Rightarrow> ([], Inl HsWaiting)
      | (Got msg1, rbuf, reads1) \<Rightarrow>
          (case respond msg1 cred of
             None \<Rightarrow> ([], Inl (HsFailed ErrNoise))
           | Some (msg2, ciphers) \<Rightarrow>
               (case writeRawFrame msg2 of
                  Inl e \<Rightarrow> ([], Inl (HsFailed e))
                | Inr f2 \<Rightarrow>
                    if \<not> ok then ([], Inl (HsFailed ErrRaw))
                    else
                      (case ciphers of
                         None \<Rightarrow> (f2, Inl (HsFailed ErrHandshakeIncomplete))
                       | Some (dec, enc) \<Rightarrow>
                           (case readMessage dec (newNoiseConn\<lparr>nc_rbuf := rbuf\<rparr>) reads1 of
                              (Got b, c, reads2) \<Rightarrow>
                                if validTarget split (string_of_bytes b) then (f2, Inr (c, string_of_bytes b, reads2))
                                else (f2, Inl (HsFailed ErrBadTarget))
                            | (ReadErr, _) \<Rightarrow> (f2, Inl (HsFailed ErrCipher))
                            | (Blocked, _) \<Rightarrow> (f2, Inl HsWaiting))))))"

section \<open>The telescoping dial\<close>

record layer_io =
  li_reads :: "bytes list"
  li_cred :: "bytes option"
  li_sent :: bool
  li_stalled :: bool

datatype chain_fault = hopDead | hopStalled | hopRefused | hopRejected

record chain_dial_error =
  cd_hop :: nat
  cd_of :: nat
  cd_suspect :: string
  cd_fault :: chain_fault

datatype stream_dial_error = DialAnchor anchor_error | DialLayer chain_dial_error | DialExit

text \<open>A layer comes up when a credential was opened, its check accepts it and the target was written.\<close>

definition layer_up :: "peer_check \<Rightarrow> layer_io \<Rightarrow> bool" where
  "layer_up check io \<longleftrightarrow> (case li_cred io of None \<Rightarrow> False | Some cred \<Rightarrow> check_accepts check cred \<and> li_sent io)"

definition layer_rejected :: "peer_check \<Rightarrow> layer_io \<Rightarrow> bool" where
  "layer_rejected check io \<longleftrightarrow> (case li_cred io of None \<Rightarrow> False | Some cred \<Rightarrow> \<not> check_accepts check cred)"

definition classifyLayer :: "bool \<Rightarrow> bool \<Rightarrow> chain_fault" where
  "classifyLayer stalled rejected = (if rejected then hopRejected else if stalled then hopStalled else hopDead)"

text \<open>The loop over the layers. A call is the key a layer was run against and the target sealed in it;
  \<open>prev\<close> is the id of the hop whose channel the layer is dialed over.\<close>

fun dial_layers ::
    "(bytes \<Rightarrow> peer_check) \<Rightarrow> nat \<Rightarrow> nat \<Rightarrow> string option \<Rightarrow> relay_hop list \<Rightarrow> string \<Rightarrow> layer_io list
      \<Rightarrow> (bytes \<times> string) list \<times> (chain_dial_error + layer_io list)" where
  "dial_layers check n i prev [] lastDial ios = ([], Inr ios)"
| "dial_layers check n i prev (h # hs) lastDial ios =
     (let next = (case hs of [] \<Rightarrow> lastDial | g # _ \<Rightarrow> rh_dial g);
          call = (rh_pub h, hopTargetPrefix @ next)
      in case ios of
           [] \<Rightarrow> ([call], Inl \<lparr>cd_hop = i + 1, cd_of = n, cd_suspect = rh_id h, cd_fault = hopDead\<rparr>)
         | io # ios' \<Rightarrow>
             if layer_up (check (rh_pub h)) io
             then (let (calls, r) = dial_layers check n (i + 1) (Some (rh_id h)) hs lastDial ios' in (call # calls, r))
             else
               ([call], Inl (case (prev, sniff_refusal (li_reads io)) of
                  (Some p, Some reason) \<Rightarrow> \<lparr>cd_hop = i, cd_of = n, cd_suspect = p, cd_fault = hopRefused\<rparr>
                | _ \<Rightarrow> \<lparr>cd_hop = i + 1, cd_of = n, cd_suspect = rh_id h,
                        cd_fault = classifyLayer (li_stalled io) (layer_rejected (check (rh_pub h)) io)\<rparr>)))"

definition dialChain ::
    "anchor_error + admission_verifier option \<Rightarrow> (admission_verifier option \<Rightarrow> bytes \<Rightarrow> peer_check) \<Rightarrow> (bytes \<Rightarrow> peer_check)
      \<Rightarrow> chain_plan \<Rightarrow> string \<Rightarrow> layer_io list \<Rightarrow> (bytes \<times> string) list \<times> (stream_dial_error + unit)" where
  "dialChain hv hopCheck exitCheck plan target ios =
     (case hv of
        Inl e \<Rightarrow> ([], Inl (DialAnchor e))
      | Inr v \<Rightarrow>
          (let n = length (cp_hops plan);
               (calls, r) = dial_layers (hopCheck v) n 0 None (cp_hops plan) (cp_exitDia plan) ios
           in case r of
                Inl e \<Rightarrow> (calls, Inl (DialLayer e))
              | Inr rest \<Rightarrow>
                  (let call = (cp_exitPub plan, target);
                       exit_fault = (\<lambda>f. DialLayer \<lparr>cd_hop = n + 1, cd_of = n, cd_suspect = cp_exitID plan, cd_fault = f\<rparr>)
                   in case rest of
                        [] \<Rightarrow> (calls @ [call], Inl (exit_fault hopDead))
                      | io # _ \<Rightarrow>
                          if layer_up (exitCheck (cp_exitPub plan)) io then (calls @ [call], Inr ())
                          else (calls @ [call], Inl
                            (if n > 0 \<and> sniff_refusal (li_reads io) \<noteq> None
                             then DialLayer \<lparr>cd_hop = n, cd_of = n, cd_suspect = rh_id (cp_hops plan ! (n - 1)), cd_fault = hopRefused\<rparr>
                             else exit_fault (classifyLayer (li_stalled io)
                                    (layer_rejected (exitCheck (cp_exitPub plan)) io)))))))"

definition dialE2E ::
    "anchor_error + admission_verifier option \<Rightarrow> (admission_verifier option \<Rightarrow> bytes \<Rightarrow> peer_check) \<Rightarrow> (bytes \<Rightarrow> peer_check)
      \<Rightarrow> chain_plan option \<Rightarrow> bytes \<Rightarrow> string \<Rightarrow> layer_io list \<Rightarrow> (bytes \<times> string) list \<times> (stream_dial_error + unit)" where
  "dialE2E hv hopCheck exitCheck plan exitPub target ios =
     (case plan of
        Some p \<Rightarrow>
          if cp_hops p \<noteq> [] then dialChain hv hopCheck exitCheck p target ios
          else ([(exitPub, target)], if ios \<noteq> [] \<and> layer_up (exitCheck exitPub) (hd ios) then Inr () else Inl DialExit)
      | None \<Rightarrow> ([(exitPub, target)], if ios \<noteq> [] \<and> layer_up (exitCheck exitPub) (hd ios) then Inr () else Inl DialExit))"

section \<open>Recovery\<close>

datatype chain_recovery = chainGiveUp | chainRebuild | chainRepath

definition recoverable :: "chain_dial_error \<Rightarrow> bool" where
  "recoverable e \<longleftrightarrow> cd_fault e \<noteq> hopRejected"

definition atHead :: "chain_dial_error \<Rightarrow> bool" where
  "atHead e \<longleftrightarrow> cd_hop e = 1"

definition recoveryFor :: "chain_plan option \<Rightarrow> stream_dial_error \<Rightarrow> chain_recovery \<times> string" where
  "recoveryFor plan err =
     (case (plan, err) of
        (Some p, DialLayer e) \<Rightarrow>
          if \<not> recoverable e then (chainGiveUp, cd_suspect e)
          else if atHead e then (chainRepath, cd_suspect e)
          else (chainRebuild, cd_suspect e)
      | _ \<Rightarrow> (chainGiveUp, []))"

definition chainRebuildMax :: nat where "chainRebuildMax = 2"

text \<open>The state a dial works on: the cooling memory, the plan the session carries, whether the session was
  closed, and the random draws to come.\<close>

record dial_state =
  ds_cool :: "string \<rightharpoonup> time"
  ds_plan :: "chain_plan option"
  ds_closed :: bool
  ds_draws :: draws

text \<open>One turn of the loop as the dial meets it: whether the stream opened, what the layers did, the
  time, and a plan another stream of the session installed in the meantime.\<close>

record dial_turn =
  dt_open :: bool
  dt_ios :: "layer_io list"
  dt_now :: time
  dt_other :: "chain_plan option"

datatype dial_end = DialUp | DialOpenFailed | DialGaveUp stream_dial_error

text \<open>The plans dialed are returned in order with the result.\<close>

function dialChainedStream ::
    "(string \<Rightarrow> string) \<Rightarrow> (asn_table option \<Rightarrow> as_lookup) \<Rightarrow> relay_directory option
      \<Rightarrow> anchor_error + admission_verifier option \<Rightarrow> (admission_verifier option \<Rightarrow> bytes \<Rightarrow> peer_check) \<Rightarrow> (bytes \<Rightarrow> peer_check)
      \<Rightarrow> bytes \<Rightarrow> string \<Rightarrow> (nat \<Rightarrow> dial_turn) \<Rightarrow> nat \<Rightarrow> dial_state
      \<Rightarrow> (chain_plan option \<times> (bytes \<times> string) list) list \<times> dial_end \<times> dial_state" where
  "dialChainedStream up asOf dir hv hopCheck exitCheck exitPub target turns attempt s =
     (let turn = turns attempt; plan = ds_plan s
      in if \<not> dt_open turn then ([], DialOpenFailed, s)
         else
           (case dialE2E hv hopCheck exitCheck plan exitPub target (dt_ios turn) of
              (calls, Inr _) \<Rightarrow> ([(plan, calls)], DialUp, s)
            | (calls, Inl err) \<Rightarrow>
                (let (action, suspect) = recoveryFor plan err;
                     s1 = s\<lparr>ds_cool := markHopCooling (dt_now turn) suspect (ds_cool s)\<rparr>
                 in if action = chainGiveUp then ([(plan, calls)], DialGaveUp err, s1)
                    else if action = chainRepath then ([(plan, calls)], DialGaveUp err, s1\<lparr>ds_closed := True\<rparr>)
                    else if attempt \<ge> chainRebuildMax then ([(plan, calls)], DialGaveUp err, s1)
                    else
                      (case rebuildChain up asOf dir (hopCooling (ds_cool s1) (dt_now turn)) plan (ds_draws s1) of
                         (Inl _, draws) \<Rightarrow> ([(plan, calls)], DialGaveUp err, s1\<lparr>ds_draws := draws\<rparr>)
                       | (Inr fresh, draws) \<Rightarrow>
                           (let (dials, r, s2) = dialChainedStream up asOf dir hv hopCheck exitCheck exitPub target turns (attempt + 1)
                                  (s1\<lparr>ds_draws := draws,
                                      ds_plan := Some (case dt_other turn of None \<Rightarrow> fresh | Some other \<Rightarrow> other)\<rparr>)
                            in ((plan, calls) # dials, r, s2))))))"
  by pat_completeness auto
termination
  by (relation "measure (\<lambda>(up, asOf, dir, hv, hopCheck, exitCheck, exitPub, target, turns, attempt, s). 3 - attempt)")
    (auto simp: chainRebuildMax_def)

declare dialChainedStream.simps [simp del]

section \<open>Who receives a destination\<close>

lemma exit_verifier_key:
  assumes "buildExitVerifier env keyHex crlEnc crlPath content requireCRL since = Inr (Some anchor)"
  shows "hex_decode (TrimSpace keyHex) = Some (fst anchor)" "length (fst anchor) = PublicKeySize"
  using assms by (auto simp: buildExitVerifier_def Let_def split: if_splits option.splits prod.splits)

lemma one_authority_accepts:
  assumes "length pub = PublicKeySize"
    and "admission_Verify env (NewVerifier_admission pub (Some revoked)) encoded now want subject = Inr c"
  obtains sb where "Decode_credential encoded = Inr sb" "credential_signed env pub sb c" "\<not> revoked (cr_Serial c)"
    "cr_NotBefore c - admission_ClockSkew \<le> now" "now < cr_NotAfter c" "want \<in> set (cr_Roles c)"
    "subject = [] \<or> subject = cr_Subject c"
  using assms that
  by (auto simp: admission_Verify_def NewVerifier_admission_def verify_loop_Inr accept_def HasRole_def list_ex_iff
      revokedOrNothing_def simp del: verify_loop.simps split: sum.splits if_splits)

text \<open>What a client writes is the same for every destination unless a credential was opened and accepted.\<close>

lemma handshake_hides_target:
  assumes "clientHandshake start finish exitPub target check ok1 oks reads = (written, r)"
  obtains (blind) "\<And>target'. clientHandshake start finish exitPub target' check ok1 oks reads = (written, r)"
  | (accepted) msg1 hs msg2 cred ciphers where "start exitPub = Some (msg1, hs)" "finish hs msg2 = Some (cred, Some ciphers)"
      "check_accepts check cred"
proof (cases "\<exists>msg1 hs msg2 cred ciphers. start exitPub = Some (msg1, hs) \<and> finish hs msg2 = Some (cred, Some ciphers)
    \<and> check_accepts check cred")
  case True
  then show thesis using accepted by blast
next
  case unaccepted: False
  have "clientHandshake start finish exitPub target' check ok1 oks reads = clientHandshake start finish exitPub target check ok1 oks reads"
    for target'
  proof (cases "start exitPub")
    case (Some m)
    then obtain msg1 hs where start: "start exitPub = Some (msg1, hs)" by (cases m) simp
    obtain rd rbuf reads' where read: "readFrameLocked [] reads = (rd, rbuf, reads')" by (cases "readFrameLocked [] reads")
    show ?thesis
    proof (cases rd)
      case (Got msg2)
      consider "finish hs msg2 = None" | cred where "finish hs msg2 = Some (cred, None)"
        | cred enc dec where "finish hs msg2 = Some (cred, Some (enc, dec))"
        by (metis option.exhaust prod.exhaust)
      then show ?thesis
      proof cases
        case (3 cred enc dec)
        then have "\<not> check_accepts check cred" using unaccepted start by blast
        with 3 start read Got show ?thesis
          by (auto simp: clientHandshake_def check_accepts_def split: option.split sum.split)
      qed (use start read Got in \<open>simp_all add: clientHandshake_def split: sum.split\<close>)
    qed (use start read in \<open>simp_all add: clientHandshake_def split: sum.split\<close>)
  qed (simp add: clientHandshake_def)
  then show thesis using blind assms by simp
qed


lemma exit_check_accepts:
  assumes "buildExitVerifier env keyHex crlEnc crlPath content requireCRL since = Inr (Some anchor)"
    and "check_accepts (exitVerifyFunc env (Some anchor) exitPub now) cred"
  obtains sb c where "Decode_credential (string_of_bytes cred) = Inr sb" "credential_signed env (fst anchor) sb c"
    "\<not> ClientCRL_Revoked (snd anchor) (cr_Serial c)" "cr_NotBefore c - admission_ClockSkew \<le> now" "now < cr_NotAfter c"
    "RoleExit \<in> set (cr_Roles c)" "cr_Subject c = hex_encode exitPub"
proof -
  have pub: "exitPub \<noteq> []" and ok: "\<exists>c. admission_Verify env (NewVerifier_admission (fst anchor) (Some (ClientCRL_Revoked (snd anchor))))
      (string_of_bytes cred) now RoleExit (hex_encode exitPub) = Inr c"
    using assms(2) by (auto simp: check_accepts_def exitVerifyFunc_def verifyExitCredential_def split: if_splits sum.splits)
  have "hex_encode exitPub \<noteq> []" using pub length_hex_encode [of exitPub]
    by (metis length_0_conv mult_eq_0_iff zero_neq_numeral)
  with ok show thesis by (auto elim!: one_authority_accepts [OF exit_verifier_key(2) [OF assms(1)]] intro: that)
qed

text \<open>C8: With an operator's key configured for exits, the destination of a connection reaches only an
  admitted exit: what the client writes during the handshake is the same for every destination, or
  the peer that holds the exit's key presented a credential signed by that operator's key, for the exit
  role, bound to that very key, within its validity and not revoked by the bundle in force.\<close>

theorem destination_only_to_admitted_exit:
  assumes "buildExitVerifier env keyHex crlEnc crlPath content requireCRL since = Inr (Some anchor)"
    and "clientHandshake start finish exitPub target (exitVerifyFunc env (Some anchor) exitPub now) ok1 oks reads = (written, r)"
  shows "(\<forall>target'. clientHandshake start finish exitPub target' (exitVerifyFunc env (Some anchor) exitPub now) ok1 oks reads = (written, r))
    \<or> (\<exists>msg1 hs msg2 cred ciphers key sb c. start exitPub = Some (msg1, hs) \<and> finish hs msg2 = Some (cred, Some ciphers)
        \<and> hex_decode (TrimSpace keyHex) = Some key
        \<and> Decode_credential (string_of_bytes cred) = Inr sb \<and> credential_signed env key sb c
        \<and> RoleExit \<in> set (cr_Roles c) \<and> cr_Subject c = hex_encode exitPub
        \<and> cr_NotBefore c - admission_ClockSkew \<le> now \<and> now < cr_NotAfter c
        \<and> \<not> ClientCRL_Revoked (snd anchor) (cr_Serial c))"
  using assms(2)
proof (cases rule: handshake_hides_target)
  case blind
  then show ?thesis by blast
next
  case (accepted msg1 hs msg2 cred ciphers)
  from exit_check_accepts [OF assms(1) accepted(3)] show ?thesis
    using accepted(1,2) exit_verifier_key(1) [OF assms(1)] by metis
qed


definition demo_exit_cred :: credential where
  "demo_exit_cred = demo_credential\<lparr>cr_Roles := [''exit''], cr_Subject := ''07''\<rparr>"

definition demo_exit_env :: admission_env where
  "demo_exit_env = demo_admission\<lparr>ae_cred := (\<lambda>body. if body = [1] then Some demo_exit_cred else None)\<rparr>"

definition demo_start :: "bytes \<Rightarrow> (bytes \<times> unit) option" where
  "demo_start pub = Some ([5], ())"

definition demo_finish :: "unit \<Rightarrow> bytes \<Rightarrow> (bytes \<times> (cipher \<times> cipher) option) option" where
  "demo_finish hs msg = Some (bytes_of_string (Encode_credential (1 # replicate 64 1)), Some (\<lambda>_. Some, \<lambda>_. Some))"

lemma demo_exit_verifier:
  "buildExitVerifier demo_exit_env (replicate 64 CHR ''3'') [] [] None False 0
     = Inr (Some (replicate 32 0x33, NewClientCRL (replicate 32 0x33)))"
  by code_simp

lemma demo_exit_accepted:
  "check_accepts (exitVerifyFunc demo_exit_env (Some (replicate 32 0x33, NewClientCRL (replicate 32 0x33))) [7] 50)
     (bytes_of_string (Encode_credential (1 # replicate 64 1)))"
  by code_simp

lemma demo_handshake:
  assumes "check_accepts check (bytes_of_string (Encode_credential (1 # replicate 64 1)))" "target \<noteq> []" "length target \<le> maxPlain"
  shows "fst (clientHandshake demo_start demo_finish pub target check True [] [Chunk [0, 1, 9]])
     = [0, 1, 5] @ put_uint16 (word_of_nat (length target)) @ bytes_of_string target"
proof -
  have "readFrameLocked [] [Chunk [0, 1, 9]] = (Got [9], [], [])" by code_simp
  moreover have "bytes_of_string target \<noteq> []" "length (bytes_of_string target) \<le> maxPlain"
    using assms(2,3) by (simp_all add: bytes_of_string_def)
  ultimately show ?thesis
    using assms(1)
    by (cases check) (simp_all add: clientHandshake_def demo_start_def demo_finish_def writeRawFrame_def maxFrame_def put_uint16_def
        plain_Write check_accepts_def bytes_of_string_def del: readFrameLocked.simps)
qed

theorem destination_only_to_admitted_exit_witness:
  "\<exists>sb c. Decode_credential (Encode_credential (1 # replicate 64 1)) = Inr sb \<and> credential_signed demo_exit_env (replicate 32 0x33) sb c
     \<and> RoleExit \<in> set (cr_Roles c) \<and> cr_Subject c = hex_encode [7]"
proof -
  let ?anchor = "(replicate 32 0x33, NewClientCRL (replicate 32 0x33)) :: exit_anchor"
  let ?run = "\<lambda>target. clientHandshake demo_start demo_finish [7] target (exitVerifyFunc demo_exit_env (Some ?anchor) [7] 50)
    True [] [Chunk [0, 1, 9]]"
  have "fst (?run ''a:1'') \<noteq> fst (?run ''b:1'')"
    using demo_exit_accepted by (simp add: demo_handshake maxPlain_def)
  then have "\<not> (\<forall>target'. ?run target' = (fst (?run ''a:1''), snd (?run ''a:1'')))" by (metis fst_conv)
  moreover have "hex_decode (TrimSpace (replicate 64 CHR ''3'')) = Some (replicate 32 0x33)" by code_simp
  ultimately show ?thesis
    using destination_only_to_admitted_exit [OF demo_exit_verifier, of demo_start demo_finish "[7]" "''a:1''" 50 True "[]" "[Chunk [0, 1, 9]]"
        "fst (?run ''a:1'')" "snd (?run ''a:1'')"]
    by (auto simp: demo_finish_def)
qed


section \<open>What each layer is told, and who is blamed\<close>

lemma handshake_layer:
  assumes "start pub = Some (msg1, hs)" "length msg1 \<le> maxFrame" "readFrameLocked [] reads = (Got msg2, rbuf, reads')"
    "finish hs msg2 = Some (cred, Some (enc, dec))"
  shows "isl (snd (clientHandshake start finish pub target check True oks reads)) \<longleftrightarrow>
    \<not> layer_up check \<lparr>li_reads = [], li_cred = Some cred,
        li_sent = (fst (snd (snd (nc_Write enc oks (newNoiseConn\<lparr>nc_rbuf := rbuf\<rparr>) (bytes_of_string target)))) = None),
        li_stalled = False\<rparr>"
  using assms
  by (cases "nc_Write enc oks (newNoiseConn\<lparr>nc_rbuf := rbuf\<rparr>) (bytes_of_string target)")
     (auto simp: clientHandshake_def writeRawFrame_def layer_up_def check_accepts_def split: option.splits)

text \<open>The layers of a plan: the key each is run against and what it is told.\<close>

fun hop_calls :: "relay_hop list \<Rightarrow> string \<Rightarrow> (bytes \<times> string) list" where
  "hop_calls [] lastDial = []"
| "hop_calls (h # hs) lastDial =
     (rh_pub h, hopTargetPrefix @ (case hs of [] \<Rightarrow> lastDial | g # _ \<Rightarrow> rh_dial g)) # hop_calls hs lastDial"

definition plan_calls :: "chain_plan \<Rightarrow> string \<Rightarrow> (bytes \<times> string) list" where
  "plan_calls plan target = hop_calls (cp_hops plan) (cp_exitDia plan) @ [(cp_exitPub plan, target)]"

definition plan_ids :: "chain_plan \<Rightarrow> string list" where
  "plan_ids plan = map rh_id (cp_hops plan) @ [cp_exitID plan]"

definition plan_checks :: "(bytes \<Rightarrow> peer_check) \<Rightarrow> (bytes \<Rightarrow> peer_check) \<Rightarrow> chain_plan \<Rightarrow> peer_check list" where
  "plan_checks hopCheck exitCheck plan = map (hopCheck \<circ> rh_pub) (cp_hops plan) @ [exitCheck (cp_exitPub plan)]"

lemma length_hop_calls [simp]: "length (hop_calls hs lastDial) = length hs"
  by (induction hs) auto

lemma hop_calls_Nil [simp]: "hop_calls hs lastDial = [] \<longleftrightarrow> hs = []"
  by (cases hs) auto

lemma length_plan_lists [simp]:
  "length (plan_calls plan target) = length (cp_hops plan) + 1" "length (plan_ids plan) = length (cp_hops plan) + 1"
  "length (plan_checks hopCheck exitCheck plan) = length (cp_hops plan) + 1"
  by (simp_all add: plan_calls_def plan_ids_def plan_checks_def)

lemma nth_hop_calls:
  "i < length hs \<Longrightarrow> hop_calls hs lastDial ! i
     = (rh_pub (hs ! i), hopTargetPrefix @ (if i + 1 < length hs then rh_dial (hs ! (i + 1)) else lastDial))"
  by (induction hs arbitrary: i) (auto simp: nth_Cons' split: list.splits)

lemma nth_plan_calls:
  "i \<le> length (cp_hops plan) \<Longrightarrow> plan_calls plan target ! i =
     (if i < length (cp_hops plan)
      then (rh_pub (cp_hops plan ! i),
            ''hop:'' @ (if i + 1 < length (cp_hops plan) then rh_dial (cp_hops plan ! (i + 1)) else cp_exitDia plan))
      else (cp_exitPub plan, target))"
  by (auto simp: plan_calls_def nth_append nth_hop_calls hopTargetPrefix_def)

text \<open>The blame of a failed layer, by its position among the layers.\<close>

definition layer_blame :: "nat \<Rightarrow> string list \<Rightarrow> peer_check list \<Rightarrow> layer_io list \<Rightarrow> nat \<Rightarrow> chain_dial_error" where
  "layer_blame n ids checks ios k =
     (if k > 0 \<and> k < length ios \<and> sniff_refusal (li_reads (ios ! k)) \<noteq> None
      then \<lparr>cd_hop = k, cd_of = n, cd_suspect = ids ! (k - 1), cd_fault = hopRefused\<rparr>
      else \<lparr>cd_hop = k + 1, cd_of = n, cd_suspect = ids ! k,
            cd_fault = (if length ios \<le> k then hopDead
                        else classifyLayer (li_stalled (ios ! k)) (layer_rejected (checks ! k) (ios ! k)))\<rparr>)"

lemma dial_layers_stops:
  assumes "dial_layers check n i prev hs lastDial ios = (calls, r)" and "prev = (if i = 0 then None else Some (ids ! (i - 1)))"
    and "drop i ids = map rh_id hs" and "drop i checks = map (check \<circ> rh_pub) hs" and "length pre = i" "i \<le> length ids" "i \<le> length checks"
  shows "calls = take (length calls) (hop_calls hs lastDial)
    \<and> (case r of
         Inr rest \<Rightarrow> length calls = length hs \<and> rest = drop (length hs) ios \<and> length hs \<le> length ios
           \<and> (\<forall>j < length hs. layer_up (check (rh_pub (hs ! j))) (ios ! j))
       | Inl e \<Rightarrow> 0 < length calls \<and> length calls \<le> length hs \<and> length calls \<le> length ios + 1
           \<and> (\<forall>j. Suc j < length calls \<longrightarrow> layer_up (check (rh_pub (hs ! j))) (ios ! j))
           \<and> (length calls \<le> length ios \<longrightarrow> \<not> layer_up (check (rh_pub (hs ! (length calls - 1)))) (ios ! (length calls - 1)))
           \<and> e = layer_blame n ids checks (pre @ ios) (i + length calls - 1))"
  using assms
proof (induction hs arbitrary: i prev ios calls r pre)
  case Nil
  then show ?case by auto
next
  case (Cons h hs)
  let ?call = "(rh_pub h, hopTargetPrefix @ (case hs of [] \<Rightarrow> lastDial | g # _ \<Rightarrow> rh_dial g))"
  have len: "i < length ids" "i < length checks" using Cons.prems(3,4) by (metis Cons_eq_map_conv drop_eq_Nil leI list.discI list.simps(9))+
  then have nth: "ids ! i = rh_id h" "checks ! i = check (rh_pub h)"
    and rest: "drop (i + 1) ids = map rh_id hs" "drop (i + 1) checks = map (check \<circ> rh_pub) hs"
    using Cons.prems(3,4) by (auto simp: Cons_nth_drop_Suc [symmetric])
  show ?case
  proof (cases ios)
    case Nil
    then show ?thesis using Cons.prems nth by (auto simp: layer_blame_def Let_def)
  next
    case io: (Cons io ios')
    show ?thesis
    proof (cases "layer_up (check (rh_pub h)) io")
      case True
      obtain calls' r' where rec: "dial_layers check n (i + 1) (Some (rh_id h)) hs lastDial ios' = (calls', r')" by fastforce
      have calls: "calls = ?call # calls'" "r = r'" using Cons.prems(1) True rec io by (simp_all add: Let_def)
      have "Some (rh_id h) = (if i + 1 = 0 then None else Some (ids ! (i + 1 - 1)))" using nth by simp
      from Cons.IH [OF rec this rest, of "pre @ [io]"] len Cons.prems(5) show ?thesis
        using True calls io by (auto simp: nth_Cons split: sum.splits nat.splits)
    next
      case False
      then show ?thesis using Cons.prems nth io
        by (auto simp: Let_def layer_blame_def nth_append split: option.splits if_splits)
    qed
  qed
qed


lemma dialChain_stops:
  assumes "dialChain (Inr v) hopCheck exitCheck plan target ios = (calls, r)"
  defines "n \<equiv> length (cp_hops plan)" and "checks \<equiv> plan_checks (hopCheck v) exitCheck plan" and "k \<equiv> length calls - 1"
  shows "calls = take (length calls) (plan_calls plan target) \<and> calls \<noteq> [] \<and> k \<le> n \<and> k \<le> length ios
    \<and> (\<forall>j < k. layer_up (checks ! j) (ios ! j))
    \<and> (r = Inr () \<and> k = n \<and> n < length ios \<and> layer_up (checks ! n) (ios ! n)
       \<or> r = Inl (DialLayer (layer_blame n (plan_ids plan) checks ios k)) \<and> (k < length ios \<longrightarrow> \<not> layer_up (checks ! k) (ios ! k)))"
proof -
  let ?hops = "cp_hops plan"
  let ?ids = "map rh_id ?hops" and ?cs = "map (hopCheck v \<circ> rh_pub) ?hops"
  obtain calls' r' where layers: "dial_layers (hopCheck v) n 0 None ?hops (cp_exitDia plan) ios = (calls', r')" by fastforce
  note stops = dial_layers_stops [OF layers, of ?ids ?cs "[]", simplified]
  have same: "layer_blame n (plan_ids plan) checks ios j = layer_blame n ?ids ?cs ios j" if "j < n" for j
    using that by (auto simp: layer_blame_def plan_ids_def checks_def plan_checks_def n_def nth_append)
  show ?thesis
  proof (cases r')
    case (Inl e)
    then have "calls = calls'" "r = Inl (DialLayer e)" using assms(1) layers by (simp_all add: dialChain_def Let_def n_def)
    moreover from this obtain m where m: "length calls = Suc m" "m < n" "k = m"
      using stops Inl by (cases "length calls") (auto simp: k_def n_def)
    moreover have "j < n \<Longrightarrow> checks ! j = hopCheck v (rh_pub (?hops ! j))" for j
      by (simp add: checks_def plan_checks_def n_def nth_append)
    ultimately show ?thesis using stops Inl same [of m]
      by (auto simp: plan_calls_def n_def Suc_le_eq)
  next
    case (Inr rest)
    have ups: "\<forall>j < n. layer_up (checks ! j) (ios ! j)" and ios: "rest = drop n ios" "n \<le> length ios"
      and calls': "calls' = hop_calls ?hops (cp_exitDia plan)"
      using stops Inr by (auto simp: checks_def plan_checks_def n_def nth_append)
    have calls: "calls = plan_calls plan target"
      using assms(1) layers Inr calls' by (auto simp: dialChain_def Let_def n_def plan_calls_def split: list.splits if_splits)
    have "checks ! n = exitCheck (cp_exitPub plan)" "plan_ids plan ! n = cp_exitID plan"
      "0 < n \<Longrightarrow> plan_ids plan ! (n - 1) = rh_id (?hops ! (n - 1))"
      by (simp_all add: checks_def plan_checks_def plan_ids_def n_def nth_append)
    then have "r = Inr () \<and> n < length ios \<and> layer_up (checks ! n) (ios ! n)
       \<or> r = Inl (DialLayer (layer_blame n (plan_ids plan) checks ios n)) \<and> (n < length ios \<longrightarrow> \<not> layer_up (checks ! n) (ios ! n))"
      using assms(1) layers Inr ios calls'
      by (cases "n < length ios") (auto simp: dialChain_def Let_def n_def layer_blame_def Cons_nth_drop_Suc [symmetric] split: if_splits)
    moreover have "k = n" using calls by (simp add: k_def n_def)
    moreover have "plan_calls plan target \<noteq> []" by (simp add: plan_calls_def)
    ultimately show ?thesis using ups ios(2) by (auto simp: calls n_def)
  qed
qed


text \<open>C9: A chained dial tells each hop only the address of the next one and runs every layer against the
  key that is that hop's identity; the destination goes to the exit alone. A layer is reached only
  after every layer before it presented a credential its check accepts and was told its target, so a
  destination leaves the client only over a fully admitted chain. When a layer fails, the failure is
  charged to the node at that position, or to the one before it when that one said it refused, and it
  is a rejection exactly when a credential was read and not accepted.\<close>

theorem only_the_exit_learns_the_destination:
  assumes "dialChain (Inr v) hopCheck exitCheck plan target ios = (calls, r)"
  shows "let n = length (cp_hops plan); k = length calls - 1; checks = plan_checks (hopCheck v) exitCheck plan in
    calls \<noteq> [] \<and> k \<le> n
    \<and> (\<forall>i < length calls. calls ! i =
         (if i < n
          then (rh_pub (cp_hops plan ! i),
                ''hop:'' @ (if i + 1 < n then rh_dial (cp_hops plan ! (i + 1)) else cp_exitDia plan))
          else (cp_exitPub plan, target)))
    \<and> (\<forall>j < k. \<exists>cred. li_cred (ios ! j) = Some cred \<and> check_accepts (checks ! j) cred \<and> li_sent (ios ! j))
    \<and> (r = Inr () \<and> k = n \<and> layer_up (checks ! n) (ios ! n)
       \<or> r = Inl (DialLayer (layer_blame n (plan_ids plan) checks ios k)) \<and> (k < length ios \<longrightarrow> \<not> layer_up (checks ! k) (ios ! k)))"
proof -
  let ?k = "length calls - 1" and ?n = "length (cp_hops plan)"
  note stops = dialChain_stops [OF assms]
  have "i < length calls \<Longrightarrow> calls ! i = plan_calls plan target ! i" for i using stops by (metis nth_take)
  moreover have len: "i < length calls \<Longrightarrow> i \<le> ?n" for i using stops by linarith
  ultimately have "\<forall>i < length calls. calls ! i =
         (if i < ?n
          then (rh_pub (cp_hops plan ! i),
                ''hop:'' @ (if i + 1 < ?n then rh_dial (cp_hops plan ! (i + 1)) else cp_exitDia plan))
          else (cp_exitPub plan, target))"
    by (simp add: nth_plan_calls)
  then show ?thesis using stops unfolding Let_def
    by (auto simp: layer_up_def split: option.splits)
qed

definition demo_io :: layer_io where
  "demo_io = \<lparr>li_reads = [], li_cred = Some [1], li_sent = True, li_stalled = False\<rparr>"

theorem only_the_exit_learns_the_destination_witness:
  "snd (dialChain (Inr None) (\<lambda>v pub. None) (\<lambda>pub. Some (\<lambda>cred. Some MissingCredential)) demo_plan ''a:1'' [demo_io, demo_io, demo_io])
     = Inl (DialLayer \<lparr>cd_hop = 3, cd_of = 2, cd_suspect = replicate 64 CHR ''a'', cd_fault = hopRejected\<rparr>)"
proof -
  let ?dial = "dialChain (Inr None) (\<lambda>v pub. None) (\<lambda>pub. Some (\<lambda>cred. Some MissingCredential)) demo_plan ''a:1'' [demo_io, demo_io, demo_io]"
  have "length (fst ?dial) = 3" "snd ?dial \<noteq> Inr ()" by code_simp+
  moreover have "length (cp_hops demo_plan) = 2" "plan_ids demo_plan ! 2 = replicate 64 CHR ''a''" by code_simp+
  moreover have "layer_blame 2 (plan_ids demo_plan) (plan_checks (\<lambda>pub. None) (\<lambda>pub. Some (\<lambda>cred. Some MissingCredential)) demo_plan)
      [demo_io, demo_io, demo_io] 2
     = \<lparr>cd_hop = 3, cd_of = 2, cd_suspect = replicate 64 CHR ''a'', cd_fault = hopRejected\<rparr>"
    by code_simp
  ultimately show ?thesis
    using only_the_exit_learns_the_destination [of None "\<lambda>v pub. None" "\<lambda>pub. Some (\<lambda>cred. Some MissingCredential)" demo_plan "''a:1''"
        "[demo_io, demo_io, demo_io]" "fst ?dial" "snd ?dial"]
    by (simp add: Let_def)
qed


section \<open>Recovery\<close>

text \<open>The plans a session may hold in place of a plan: as deep, for the same country, entered by the same head.\<close>

definition like_plan :: "chain_plan \<Rightarrow> chain_plan \<Rightarrow> bool" where
  "like_plan p q \<longleftrightarrow> length (cp_hops q) = length (cp_hops p) \<and> cp_country q = cp_country p
     \<and> firstHopID (Some q) = firstHopID (Some p)"

lemma rebuildChain_like:
  assumes "rebuildChain up asOf dir cooling (Some p) ds = (Inr q, ds')" and "firstHopID (Some p) \<noteq> []"
  shows "like_plan p q"
proof -
  have hops: "cp_hops p \<noteq> []" and pin: "rh_id (cp_hops p ! 0) \<noteq> []"
    using assms(2) by (auto simp: firstHopID_def split: if_splits)
  obtain reused dv where built': "buildChainHeaded up asOf dir cooling (int (length (cp_hops p)) + 1) (cp_country p) (rh_id (cp_hops p ! 0)) ds
      = (Inr (q, reused, dv), ds')"
    using assms(1) hops by (auto simp: rebuildChain_def split: prod.splits sum.splits)
  then obtain d where "dir = Some d" by (cases dir) (auto simp: buildChainHeaded_def)
  note built = built' [unfolded this]
  obtain c ds0 where c: "selectChain up asOf d (int (length (cp_hops p)) + 1) (cp_country p) (rh_id (cp_hops p ! 0))
        (if reused then None else Some cooling) ds0 = (Inr c, ds')"
    and q: "cp_hops q = cc_hops c" "cp_country q = cp_country p"
    using buildChainHeaded_parts [OF built] by (metis chain_plan.select_convs(1,5))
  obtain ds1 where hs: "selectHopsHeaded (asOf (rd_as d)) (hopsAvoiding (rd_hops d) (if reused then None else Some cooling) (rh_id (cp_hops p ! 0)))
      (int (length (cp_hops p)) + 1 - 1) (rh_id (cc_exit c)) (rh_id (cp_hops p ! 0)) ds1 = (Inr (cc_hops c, cc_div c), ds')"
    using selectChain_parts [OF c] by metis
  from selectHopsHeaded_depth [OF hs] hops pin q show ?thesis
    by (auto simp: like_plan_def firstHopID_def head_ok_def Suc_le_eq)
qed


lemma recoveryFor_cases:
  "recoveryFor (Some p) err =
     (case err of
        DialLayer e \<Rightarrow> (if cd_fault e = hopRejected then chainGiveUp else if cd_hop e = 1 then chainRepath else chainRebuild, cd_suspect e)
      | _ \<Rightarrow> (chainGiveUp, []))"
  by (simp add: recoveryFor_def recoverable_def atHead_def split: stream_dial_error.split)

lemma dialChainedStream_step:
  assumes "dialChainedStream up asOf dir hv hopCheck exitCheck exitPub target turns attempt s = (dials, r, s')"
  obtains (unopened) "dials = []" "r = DialOpenFailed" "s' = s"
  | (carried) calls where "dialE2E hv hopCheck exitCheck (ds_plan s) exitPub target (dt_ios (turns attempt)) = (calls, Inr ())"
      "dials = [(ds_plan s, calls)]" "r = DialUp" "s' = s"
  | (stopped) calls err where "dialE2E hv hopCheck exitCheck (ds_plan s) exitPub target (dt_ios (turns attempt)) = (calls, Inl err)"
      "dials = [(ds_plan s, calls)]" "r = DialGaveUp err" "ds_plan s' = ds_plan s"
      "ds_cool s' = markHopCooling (dt_now (turns attempt)) (snd (recoveryFor (ds_plan s) err)) (ds_cool s)"
      "ds_closed s' \<longleftrightarrow> ds_closed s \<or> fst (recoveryFor (ds_plan s) err) = chainRepath"
  | (again) calls err fresh draws dials' where "dialE2E hv hopCheck exitCheck (ds_plan s) exitPub target (dt_ios (turns attempt)) = (calls, Inl err)"
      "fst (recoveryFor (ds_plan s) err) = chainRebuild" "attempt < chainRebuildMax"
      "rebuildChain up asOf dir (hopCooling (markHopCooling (dt_now (turns attempt)) (snd (recoveryFor (ds_plan s) err)) (ds_cool s))
         (dt_now (turns attempt))) (ds_plan s) (ds_draws s) = (Inr fresh, draws)"
      "dialChainedStream up asOf dir hv hopCheck exitCheck exitPub target turns (attempt + 1)
         (s\<lparr>ds_cool := markHopCooling (dt_now (turns attempt)) (snd (recoveryFor (ds_plan s) err)) (ds_cool s), ds_draws := draws,
            ds_plan := Some (case dt_other (turns attempt) of None \<Rightarrow> fresh | Some other \<Rightarrow> other)\<rparr>) = (dials', r, s')"
      "dials = (ds_plan s, calls) # dials'"
proof -
  obtain calls res where dial: "dialE2E hv hopCheck exitCheck (ds_plan s) exitPub target (dt_ios (turns attempt)) = (calls, res)" by fastforce
  show thesis
  proof (cases res)
    case (Inl err)
    obtain action suspect where rec: "recoveryFor (ds_plan s) err = (action, suspect)" by fastforce
    obtain b draws where re: "rebuildChain up asOf dir (hopCooling (markHopCooling (dt_now (turns attempt)) suspect (ds_cool s))
         (dt_now (turns attempt))) (ds_plan s) (ds_draws s) = (b, draws)" by fastforce
    show thesis
    proof (cases "action = chainRebuild \<and> attempt < chainRebuildMax \<and> \<not> isl b \<and> dt_open (turns attempt)")
      case True
      then obtain fresh where b: "b = Inr fresh" by (cases b) auto
      obtain dials' r' s2 where go: "dialChainedStream up asOf dir hv hopCheck exitCheck exitPub target turns (attempt + 1)
         (s\<lparr>ds_cool := markHopCooling (dt_now (turns attempt)) suspect (ds_cool s), ds_draws := draws,
            ds_plan := Some (case dt_other (turns attempt) of None \<Rightarrow> fresh | Some other \<Rightarrow> other)\<rparr>) = (dials', r', s2)"
        by (metis prod.collapse)
      have "dials = (ds_plan s, calls) # dials'" "r = r'" "s' = s2"
        using assms dial Inl rec re b go True by (simp_all add: dialChainedStream.simps [of _ _ _ _ _ _ _ _ _ attempt])
      then show thesis using again [of calls err fresh draws dials'] dial Inl rec re b go True by simp
    next
      case False
      note unfolded = assms [unfolded dialChainedStream.simps [of _ _ _ _ _ _ _ _ _ attempt] Let_def, unfolded dial Inl rec prod.case sum.case]
      show thesis
      proof (cases "dt_open (turns attempt)")
        case True
        have "dials = [(ds_plan s, calls)] \<and> r = DialGaveUp err \<and> ds_plan s' = ds_plan s
          \<and> ds_cool s' = markHopCooling (dt_now (turns attempt)) suspect (ds_cool s) \<and> (ds_closed s' \<longleftrightarrow> ds_closed s \<or> action = chainRepath)"
        proof (cases action)
          case chainRebuild
          with unfolded re False True show ?thesis by (cases "chainRebuildMax \<le> attempt"; cases b) auto
        qed (use unfolded True in auto)
        then show thesis using stopped [of calls err] dial Inl rec by simp
      qed (use unfolded unopened in simp)
    qed
  next
    case (Inr x)
    note unfolded = assms [unfolded dialChainedStream.simps [of _ _ _ _ _ _ _ _ _ attempt] Let_def, unfolded dial Inr prod.case sum.case]
    show thesis
    proof (cases "dt_open (turns attempt)")
      case True
      show thesis by (rule carried [of calls]) (use True unfolded dial Inr in auto)
    qed (use unfolded unopened in simp)
  qed
qed

lemma dialChainedStream_like:
  assumes "dialChainedStream up asOf dir hv hopCheck exitCheck exitPub target turns attempt s = (dials, r, s')"
    and "ds_plan s = Some p" "like_plan p0 p" and "firstHopID (Some p0) \<noteq> []"
    and "\<forall>i q. dt_other (turns i) = Some q \<longrightarrow> like_plan p0 q"
  shows "length dials + min attempt 2 \<le> 3 \<and> (\<forall>(plan, calls) \<in> set dials. \<exists>q. plan = Some q \<and> like_plan p0 q)
    \<and> (\<exists>q. ds_plan s' = Some q \<and> like_plan p0 q)"
  using assms(1-3)
proof (induction "3 - attempt" arbitrary: attempt s p dials rule: less_induct)
  case less
  from less.prems(1) show ?case
  proof (cases rule: dialChainedStream_step)
    case (again calls err fresh draws dials')
    let ?next = "case dt_other (turns attempt) of None \<Rightarrow> fresh | Some other \<Rightarrow> other"
    have "firstHopID (Some p) \<noteq> []" using assms(4) less.prems(3) by (simp add: like_plan_def)
    then have "like_plan p fresh" using rebuildChain_like again(4) less.prems(2) by metis
    then have "like_plan p0 ?next" using less.prems(3) assms(5) by (auto simp: like_plan_def split: option.splits)
    moreover have "attempt < 2" using again(3) by (simp add: chainRebuildMax_def)
    ultimately have "length dials' + min (attempt + 1) 2 \<le> 3 \<and> (\<forall>(plan, calls) \<in> set dials'. \<exists>q. plan = Some q \<and> like_plan p0 q)
        \<and> (\<exists>q. ds_plan s' = Some q \<and> like_plan p0 q)"
      using less.hyps [OF _ again(5)] by simp
    then show ?thesis using again(6) \<open>attempt < 2\<close> less.prems by auto
  qed (use less.prems in auto)
qed

lemma dialChainedStream_outcome:
  assumes "dialChainedStream up asOf dir hv hopCheck exitCheck exitPub target turns attempt s = (dials, r, s')" and "\<not> ds_closed s"
  shows "(\<forall>j. Suc j < length dials \<longrightarrow>
        (\<exists>e. snd (dialE2E hv hopCheck exitCheck (fst (dials ! j)) exitPub target (dt_ios (turns (attempt + j)))) = Inl (DialLayer e)
           \<and> cd_fault e \<noteq> hopRejected \<and> cd_hop e \<noteq> 1))
    \<and> (ds_closed s' \<longleftrightarrow> (\<exists>p e. ds_plan s' = Some p \<and> r = DialGaveUp (DialLayer e) \<and> cd_fault e \<noteq> hopRejected \<and> cd_hop e = 1))
    \<and> (\<forall>p e. ds_plan s' = Some p \<longrightarrow> r = DialGaveUp (DialLayer e) \<longrightarrow> cd_suspect e \<noteq> [] \<longrightarrow> dials \<noteq> []
         \<and> ds_cool s' (cd_suspect e) = Some (dt_now (turns (attempt + length dials - 1))))"
  using assms
proof (induction "3 - attempt" arbitrary: attempt s dials rule: less_induct)
  case less
  from less.prems(1) show ?case
  proof (cases rule: dialChainedStream_step)
    case (stopped calls err)
    then show ?thesis using less.prems(2)
      by (auto simp: recoveryFor_def recoverable_def atHead_def markHopCooling_def split: option.splits stream_dial_error.splits if_splits)
  next
    case (again calls err fresh draws dials')
    have "attempt < 2" using again(3) by (simp add: chainRebuildMax_def)
    then have IH: "(\<forall>j. Suc j < length dials' \<longrightarrow>
        (\<exists>e. snd (dialE2E hv hopCheck exitCheck (fst (dials' ! j)) exitPub target (dt_ios (turns (attempt + 1 + j)))) = Inl (DialLayer e)
           \<and> cd_fault e \<noteq> hopRejected \<and> cd_hop e \<noteq> 1))
      \<and> (ds_closed s' \<longleftrightarrow> (\<exists>p e. ds_plan s' = Some p \<and> r = DialGaveUp (DialLayer e) \<and> cd_fault e \<noteq> hopRejected \<and> cd_hop e = 1))
      \<and> (\<forall>p e. ds_plan s' = Some p \<longrightarrow> r = DialGaveUp (DialLayer e) \<longrightarrow> cd_suspect e \<noteq> [] \<longrightarrow> dials' \<noteq> []
         \<and> ds_cool s' (cd_suspect e) = Some (dt_now (turns (attempt + 1 + length dials' - 1))))"
      using less.hyps [OF _ again(5)] less.prems(2) by simp
    obtain e where "err = DialLayer e" "cd_fault e \<noteq> hopRejected" "cd_hop e \<noteq> 1"
      using again(2) by (auto simp: recoveryFor_def recoverable_def atHead_def split: option.splits stream_dial_error.splits if_splits)
    then show ?thesis using IH again(1) by (auto simp: again(6) nth_Cons split: nat.splits)
  qed (use less.prems in auto)
qed

text \<open>C28: A stream dialed over a session's chain tries at most three chains. Every chain tried, and the one
  the session holds afterwards, is as deep as the session's own, for the same country and entered by
  the same head, provided other streams of the session install only such chains; depth is never
  traded for reachability. A chain is given up for another only after a failure behind the head that
  is no rejected credential, a rejection ending the dial; the session is closed exactly when its head failed,
  and the node blamed last is remembered as cooling.\<close>

theorem chain_rebuild_bounded:
  assumes "dialChainedStream up asOf dir hv hopCheck exitCheck exitPub target turns 0 s = (dials, r, s')"
    and "ds_plan s = Some p" and "firstHopID (Some p) \<noteq> []" and "\<not> ds_closed s"
    and "\<forall>i q. dt_other (turns i) = Some q \<longrightarrow> like_plan p q"
  shows "length dials \<le> 3
    \<and> (\<forall>(plan, calls) \<in> set dials. \<exists>q. plan = Some q \<and> like_plan p q) \<and> (\<exists>q. ds_plan s' = Some q \<and> like_plan p q)
    \<and> (\<forall>j. Suc j < length dials \<longrightarrow>
        (\<exists>e. snd (dialE2E hv hopCheck exitCheck (fst (dials ! j)) exitPub target (dt_ios (turns j))) = Inl (DialLayer e)
           \<and> cd_fault e \<noteq> hopRejected \<and> cd_hop e \<noteq> 1))
    \<and> (ds_closed s' \<longleftrightarrow> (\<exists>e. r = DialGaveUp (DialLayer e) \<and> cd_fault e \<noteq> hopRejected \<and> cd_hop e = 1))
    \<and> (\<forall>e. r = DialGaveUp (DialLayer e) \<longrightarrow> cd_suspect e \<noteq> [] \<longrightarrow>
         ds_cool s' (cd_suspect e) = Some (dt_now (turns (length dials - 1))))"
proof -
  have "like_plan p p" by (simp add: like_plan_def)
  note like = dialChainedStream_like [OF assms(1,2) this assms(3,5)]
  moreover note outcome = dialChainedStream_outcome [OF assms(1,4)]
  moreover have "ds_closed s' \<longleftrightarrow> (\<exists>e. r = DialGaveUp (DialLayer e) \<and> cd_fault e \<noteq> hopRejected \<and> cd_hop e = 1)"
    using like outcome by blast
  ultimately show ?thesis by (simp, blast)
qed

definition demo_turns :: "nat \<Rightarrow> dial_turn" where
  "demo_turns i = \<lparr>dt_open = True,
     dt_ios = (if i = 0 then [demo_io, demo_io\<lparr>li_cred := None\<rparr>] else [demo_io, demo_io, demo_io]), dt_now = 10, dt_other = None\<rparr>"

definition demo_dial_state :: dial_state where
  "demo_dial_state = \<lparr>ds_cool = Map.empty, ds_plan = Some demo_plan, ds_closed = False, ds_draws = replicate 4 (Some 0)\<rparr>"

theorem chain_rebuild_bounded_witness:
  "let run = dialChainedStream (\<lambda>s. s) demo_as (Some demo_directory) (Inr None) (\<lambda>v pub. None) (\<lambda>pub. None) (replicate 32 0xAA) ''a:1''
       demo_turns 0 demo_dial_state
   in length (fst run) = 2 \<and> fst (snd run) = DialUp \<and> (\<exists>q. ds_plan (snd (snd run)) = Some q \<and> like_plan demo_plan q)"
proof -
  let ?run = "dialChainedStream (\<lambda>s. s) demo_as (Some demo_directory) (Inr None) (\<lambda>v pub. None) (\<lambda>pub. None) (replicate 32 0xAA) ''a:1''
       demo_turns 0 demo_dial_state"
  have "length (fst ?run) = 2" "fst (snd ?run) = DialUp" by code_simp+
  moreover have "ds_plan demo_dial_state = Some demo_plan" "firstHopID (Some demo_plan) \<noteq> []" "\<not> ds_closed demo_dial_state"
    by code_simp+
  moreover have "\<forall>i q. dt_other (demo_turns i) = Some q \<longrightarrow> like_plan demo_plan q" by (simp add: demo_turns_def)
  moreover have "?run = (fst ?run, fst (snd ?run), snd (snd ?run))" by simp
  ultimately show ?thesis unfolding Let_def using chain_rebuild_bounded by blast
qed

end
