(* ===== verification/Nft.thy ===== *)
theory Nft
  imports Netaddr
begin

text \<open>
  The kill switch of \<open>cmd/bacchus-netd/nft.go\<close>: the messages of one nftables transaction, built
  expression by expression as the code builds them, with what the kernel does with them. A message is
  kept in the form it has before its attributes are encoded. Transactions and the evaluation of rules
  follow the documentation of nftables: a batch applies whole or not at all, a rule is a list of
  expressions over one register that ends at the first one that does not hold, and a packet no rule
  decides gets the policy of the chain.
\<close>

unbundle bit_operations_syntax

section \<open>Expressions and messages\<close>

definition nftMetaOIF :: nat where "nftMetaOIF = 5"
definition nftMetaNFProto :: nat where "nftMetaNFProto = 15"
definition nftMetaL4Proto :: nat where "nftMetaL4Proto = 16"
definition nftPayloadNetworkHeader :: nat where "nftPayloadNetworkHeader = 1"
definition nftPayloadTransportHeader :: nat where "nftPayloadTransportHeader = 2"
definition nfDrop :: nat where "nfDrop = 0"
definition nfAccept :: nat where "nfAccept = 1"
definition nfprotoIPv4 :: byte where "nfprotoIPv4 = 2"
definition ipprotoUDP :: byte where "ipprotoUDP = 17"
definition nftAllowSet :: string where "nftAllowSet = ''allow4''"
definition nftServeSet :: string where "nftServeSet = ''serve4''"

lemmas nft_consts = nftMetaOIF_def nftMetaNFProto_def nftMetaL4Proto_def nftPayloadNetworkHeader_def nftPayloadTransportHeader_def

datatype nft_expr =
    exprMetaLoad nat
  | exprCmpEq bytes
  | exprPayloadLoad nat nat nat
  | exprBitwiseMask bytes
  | exprLookup string
  | exprVerdict nat

datatype nft_msg =
    NewTable
  | NewChain nat
  | NewSet string
  | NewSetElem string "bytes list"
  | DelSetElem string "bytes list"
  | NewRule "nft_expr list"
  | DelTable

text \<open>An interface index in host byte order, the least significant byte first.\<close>

definition hostU32 :: "uint32 \<Rightarrow> bytes" where
  "hostU32 v = rev (put_uint32 v)"

definition bePort :: "uint16 \<Rightarrow> bytes" where
  "bePort p = put_uint16 p"

text \<open>A shift by a negative amount panics, and so does \<open>As4\<close> of an address that is neither v4 nor v4-mapped;
  a panic is \<open>None\<close>.\<close>

definition net4Mask :: "nat \<Rightarrow> bytes option" where
  "net4Mask bits = (if bits > 32 then None else Some (put_uint32 (push_bit (32 - bits) (- 1))))"

definition As4 :: "addr \<Rightarrow> bytes option" where
  "As4 a =
     (case a of
        NoAddr \<Rightarrow> None
      | A4 w \<Rightarrow> Some (put_uint32 w)
      | A6 w z \<Rightarrow> if drop_bit 32 w = 65535 then Some (put_uint32 (ucast w)) else None)"

fun prefix_Bits :: "prefix \<Rightarrow> nat" where
  "prefix_Bits (Prefix4 w n) = n"
| "prefix_Bits (Prefix6 w n) = n"

record killSwitchSpec =
  ks_TunIfIndex :: uint32
  ks_LoIfIndex :: uint32
  ks_Hosts :: "addr list"
  ks_Nets :: "prefix list"
  ks_ServedSrc :: addr

text \<open>The keys of the v4 addresses; no message when none is left.\<close>

fun v4_keys :: "addr list \<Rightarrow> bytes list" where
  "v4_keys [] = []"
| "v4_keys (A4 w # as) = put_uint32 w # v4_keys as"
| "v4_keys (a # as) = v4_keys as"

definition setElemMsg :: "addr list \<Rightarrow> nft_msg option" where
  "setElemMsg addrs = (let ks = v4_keys addrs in if ks = [] then None else Some (NewSetElem nftAllowSet ks))"

definition serveElemMsg :: "addr \<Rightarrow> nft_msg option" where
  "serveElemMsg a = (let ks = v4_keys [a] in if ks = [] then None else Some (NewSetElem nftServeSet ks))"

definition serveElemDelMsg :: "addr \<Rightarrow> nft_msg option" where
  "serveElemDelMsg a = (let ks = v4_keys [a] in if ks = [] then None else Some (DelSetElem nftServeSet ks))"

definition opt_msg :: "nft_msg option \<Rightarrow> nft_msg list" where
  "opt_msg m = (case m of None \<Rightarrow> [] | Some m \<Rightarrow> [m])"

definition net_rule :: "prefix \<Rightarrow> nft_msg option" where
  "net_rule n =
     (case net4Mask (prefix_Bits n) of
        None \<Rightarrow> None
      | Some m \<Rightarrow>
          (case As4 (prefix_Addr (Masked n)) of
             None \<Rightarrow> None
           | Some network \<Rightarrow>
               Some (NewRule [exprMetaLoad nftMetaNFProto, exprCmpEq [nfprotoIPv4],
                 exprPayloadLoad nftPayloadNetworkHeader 16 4, exprBitwiseMask m, exprCmpEq network, exprVerdict nfAccept])))"

fun net_rules :: "prefix list \<Rightarrow> nft_msg list option" where
  "net_rules [] = Some []"
| "net_rules (n # ns) =
     (case net_rule n of None \<Rightarrow> None | Some r \<Rightarrow> map_option ((#) r) (net_rules ns))"

definition oif_rule :: "uint32 \<Rightarrow> nft_msg" where
  "oif_rule i = NewRule [exprMetaLoad nftMetaOIF, exprCmpEq (hostU32 i), exprVerdict nfAccept]"

text \<open>The allowlist reads the destination at offset 16, the served allowance the source at offset 12.\<close>

definition lookup_rule :: "nat \<Rightarrow> string \<Rightarrow> nft_msg" where
  "lookup_rule off s = NewRule [exprMetaLoad nftMetaNFProto, exprCmpEq [nfprotoIPv4],
     exprPayloadLoad nftPayloadNetworkHeader off 4, exprLookup s, exprVerdict nfAccept]"

definition dhcp_rule :: nft_msg where
  "dhcp_rule = NewRule [exprMetaLoad nftMetaL4Proto, exprCmpEq [ipprotoUDP],
     exprPayloadLoad nftPayloadTransportHeader 0 2, exprCmpEq (bePort 68),
     exprPayloadLoad nftPayloadTransportHeader 2 2, exprCmpEq (bePort 67), exprVerdict nfAccept]"

definition enableKillSwitch :: "killSwitchSpec \<Rightarrow> nft_msg list option" where
  "enableKillSwitch spec =
     (let served = ks_ServedSrc spec
      in map_option
           (\<lambda>nets. [NewTable, NewChain nfDrop, NewSet nftAllowSet]
              @ (if served \<noteq> NoAddr then NewSet nftServeSet # opt_msg (serveElemMsg served) else [])
              @ opt_msg (setElemMsg (ks_Hosts spec))
              @ [oif_rule (ks_TunIfIndex spec), oif_rule (ks_LoIfIndex spec), lookup_rule 16 nftAllowSet]
              @ (if served \<noteq> NoAddr then [lookup_rule 12 nftServeSet] else [])
              @ nets @ [dhcp_rule])
           (net_rules (ks_Nets spec)))"

definition revokeServedEgress_msgs :: "addr \<Rightarrow> nft_msg list" where
  "revokeServedEgress_msgs a = opt_msg (serveElemDelMsg a)"

definition refreshAllowIP_msgs :: "addr \<Rightarrow> nft_msg list" where
  "refreshAllowIP_msgs a = opt_msg (setElemMsg [a])"

section \<open>The kernel's side\<close>

record nft_table =
  nt_policy :: "nat option"
  nt_sets :: "string \<rightharpoonup> bytes set"
  nt_rules :: "nft_expr list list"

datatype nft_errno = ENOENT

text \<open>The table of the helper, if there is one. Every creation is without the exclusive flag.\<close>

fun nft_apply :: "nft_msg \<Rightarrow> nft_table option \<Rightarrow> nft_errno + nft_table option" where
  "nft_apply NewTable t = Inr (Some (case t of None \<Rightarrow> \<lparr>nt_policy = None, nt_sets = Map.empty, nt_rules = []\<rparr> | Some t \<Rightarrow> t))"
| "nft_apply DelTable (Some t) = Inr None"
| "nft_apply (NewChain p) (Some t) = Inr (Some (t\<lparr>nt_policy := Some p\<rparr>))"
| "nft_apply (NewSet s) (Some t) = Inr (Some (if nt_sets t s = None then t\<lparr>nt_sets := (nt_sets t)(s \<mapsto> {})\<rparr> else t))"
| "nft_apply (NewSetElem s ks) (Some t) =
     (case nt_sets t s of None \<Rightarrow> Inl ENOENT | Some e \<Rightarrow> Inr (Some (t\<lparr>nt_sets := (nt_sets t)(s \<mapsto> e \<union> set ks)\<rparr>)))"
| "nft_apply (DelSetElem s ks) (Some t) =
     (case nt_sets t s of
        None \<Rightarrow> Inl ENOENT
      | Some e \<Rightarrow> if set ks \<subseteq> e then Inr (Some (t\<lparr>nt_sets := (nt_sets t)(s \<mapsto> e - set ks)\<rparr>)) else Inl ENOENT)"
| "nft_apply (NewRule r) (Some t) = (if nt_policy t = None then Inl ENOENT else Inr (Some (t\<lparr>nt_rules := nt_rules t @ [r]\<rparr>)))"
| "nft_apply _ None = Inl ENOENT"

fun nft_apply_all :: "nft_msg list \<Rightarrow> nft_table option \<Rightarrow> nft_errno + nft_table option" where
  "nft_apply_all [] t = Inr t"
| "nft_apply_all (m # ms) t = (case nft_apply m t of Inl e \<Rightarrow> Inl e | Inr t' \<Rightarrow> nft_apply_all ms t')"

record packet =
  pk_oif :: uint32
  pk_nfproto :: byte
  pk_l4proto :: byte
  pk_net :: bytes
  pk_trans :: bytes

definition slice :: "nat \<Rightarrow> nat \<Rightarrow> bytes \<Rightarrow> bytes option" where
  "slice off len b = (if off + len \<le> length b then Some (take len (drop off b)) else None)"

fun nft_eval :: "(string \<rightharpoonup> bytes set) \<Rightarrow> packet \<Rightarrow> bytes \<Rightarrow> nft_expr list \<Rightarrow> nat option" where
  "nft_eval sets p reg [] = None"
| "nft_eval sets p reg (exprMetaLoad k # es) =
     (if k = nftMetaOIF then nft_eval sets p (hostU32 (pk_oif p)) es
      else if k = nftMetaNFProto then nft_eval sets p [pk_nfproto p] es
      else if k = nftMetaL4Proto then nft_eval sets p [pk_l4proto p] es
      else None)"
| "nft_eval sets p reg (exprCmpEq v # es) = (if reg = v then nft_eval sets p reg es else None)"
| "nft_eval sets p reg (exprPayloadLoad base off len # es) =
     (case slice off len (if base = nftPayloadNetworkHeader then pk_net p else pk_trans p) of
        None \<Rightarrow> None
      | Some b \<Rightarrow> nft_eval sets p b es)"
| "nft_eval sets p reg (exprBitwiseMask m # es) = nft_eval sets p (map2 (AND) reg m) es"
| "nft_eval sets p reg (exprLookup s # es) =
     (case sets s of None \<Rightarrow> None | Some e \<Rightarrow> if reg \<in> e then nft_eval sets p reg es else None)"
| "nft_eval sets p reg (exprVerdict v # es) = Some v"

fun nft_rules_eval :: "(string \<rightharpoonup> bytes set) \<Rightarrow> packet \<Rightarrow> nft_expr list list \<Rightarrow> nat option" where
  "nft_rules_eval sets p [] = None"
| "nft_rules_eval sets p (r # rs) =
     (case nft_eval sets p [] r of Some v \<Rightarrow> Some v | None \<Rightarrow> nft_rules_eval sets p rs)"

text \<open>What happens to a packet this machine sends.\<close>

definition leaves :: "nft_table option \<Rightarrow> packet \<Rightarrow> bool" where
  "leaves t p \<longleftrightarrow>
     (case t of
        None \<Rightarrow> True
      | Some t \<Rightarrow>
          (case nt_policy t of
             None \<Rightarrow> True
           | Some pol \<Rightarrow>
               (case nft_rules_eval (nt_sets t) p (nt_rules t) of Some v \<Rightarrow> v = nfAccept | None \<Rightarrow> pol = nfAccept)))"

section \<open>What the lockdown lets out\<close>

lemma map2_and_put_uint32: "map2 (AND) (put_uint32 x) (put_uint32 y) = put_uint32 (x AND y)"
proof -
  have "(ucast (drop_bit n x) :: byte) AND ucast (drop_bit n y) = ucast (drop_bit n (x AND y))" for n
    by (rule bit_eqI) (auto simp: bit_simps)
  from this [of 24] this [of 16] this [of 8] this [of 0] show ?thesis by (simp add: put_uint32_def)
qed

lemma and_high_bits: "x AND push_bit k (- 1) = push_bit k (drop_bit k (x :: 'a::len word))"
  by (rule bit_eqI) (auto simp: bit_simps)

lemma drop_bit_xor_eq: "drop_bit k (x XOR w) = 0 \<longleftrightarrow> drop_bit k x = drop_bit k (w :: 'a::len word)"
proof -
  have "drop_bit k (x XOR w) = drop_bit k x XOR drop_bit k w" by (rule bit_eqI) (simp add: bit_simps)
  then show ?thesis by simp
qed

lemma masked_compare:
  "map2 (AND) (put_uint32 x) (put_uint32 (NOT (mask k))) = put_uint32 (push_bit k (drop_bit k w))
     \<longleftrightarrow> drop_bit k x = drop_bit k w"
  by (metis (no_types) map2_and_put_uint32 and_high_bits put_uint32_inject drop_push_drop push_bit_minus_one_eq_not_mask)

lemma div_digit: "r < 256 \<Longrightarrow> (q * 256 + r) div 256 = (q :: nat)" and mod_digit: "r < 256 \<Longrightarrow> (q * 256 + r) mod 256 = (r :: nat)"
  by simp_all

lemma put_get_uint32:
  assumes "length x = 4"
  shows "put_uint32 (get_uint32 x) = x"
proof -
  obtain a b c d where x: "x = [a, b, c, d]" using assms by (auto simp: numeral_eq_Suc length_Suc_conv)
  define q where "q = unat a * 256 + unat b"
  define r where "r = q * 256 + unat c"
  define n where "n = r * 256 + unat d"
  have small: "unat y < 256" for y :: byte using unat_less_exp [of y] by simp
  have lt: "n < 2 ^ 32" using small [of a] small [of b] small [of c] small [of d] by (simp add: n_def r_def q_def)
  have "nat_of_be x = n" by (simp add: x nat_of_be_def n_def r_def q_def)
  then have val: "unat (get_uint32 x) = n" using lt by (simp only: get_uint32_def unat_of_nat) simp
  have "q div 256 = unat a" "q mod 256 = unat b" by (simp_all add: q_def div_digit mod_digit small)
  moreover have "r div 256 = q" "r mod 256 = unat c" by (simp_all add: r_def div_digit mod_digit small)
  moreover have "n div 256 = r" "n mod 256 = unat d" by (simp_all add: n_def div_digit mod_digit small)
  moreover have "n div 65536 = n div 256 div 256" "n div 16777216 = n div 256 div 256 div 256" by (simp_all flip: div_mult2_eq)
  ultimately have "put_uint32 w = [a, b, c, d]" if "unat w = n" for w
    using that by (simp add: put_uint32_def word_unat_eq_iff unat_ucast_byte unat_drop_bit_div small)
  then show ?thesis using val x by blast
qed

lemma slice_put_uint32: "slice off 4 b = Some x \<Longrightarrow> \<exists>w. x = put_uint32 w"
  by (metis put_get_uint32 slice_def length_take length_drop min_absorb2 add_le_imp_le_diff add.commute option.inject option.discI)


definition ipv4_dst :: "packet \<Rightarrow> uint32 \<Rightarrow> bool" where
  "ipv4_dst p w \<longleftrightarrow> pk_nfproto p = nfprotoIPv4 \<and> slice 16 4 (pk_net p) = Some (put_uint32 w)"

definition ipv4_src :: "packet \<Rightarrow> uint32 \<Rightarrow> bool" where
  "ipv4_src p w \<longleftrightarrow> pk_nfproto p = nfprotoIPv4 \<and> slice 12 4 (pk_net p) = Some (put_uint32 w)"

definition dhcp_packet :: "packet \<Rightarrow> bool" where
  "dhcp_packet p \<longleftrightarrow> pk_l4proto p = ipprotoUDP \<and> slice 0 2 (pk_trans p) = Some (bePort 68) \<and> slice 2 2 (pk_trans p) = Some (bePort 67)"

lemma hostU32_inject: "hostU32 v = hostU32 w \<longleftrightarrow> v = w"
  by (simp add: hostU32_def put_uint32_inject)

lemma eval_oif:
  "nft_eval sets p [] [exprMetaLoad nftMetaOIF, exprCmpEq (hostU32 i), exprVerdict v] = (if pk_oif p = i then Some v else None)"
  by (simp add: hostU32_inject)

lemma eval_dhcp:
  "nft_eval sets p [] [exprMetaLoad nftMetaL4Proto, exprCmpEq [ipprotoUDP], exprPayloadLoad nftPayloadTransportHeader 0 2, exprCmpEq (bePort 68),
     exprPayloadLoad nftPayloadTransportHeader 2 2, exprCmpEq (bePort 67), exprVerdict v] = (if dhcp_packet p then Some v else None)"
  by (auto simp: nft_consts dhcp_packet_def split: option.splits)

lemma eval_lookup:
  "nft_eval sets p [] [exprMetaLoad nftMetaNFProto, exprCmpEq [nfprotoIPv4], exprPayloadLoad nftPayloadNetworkHeader off 4, exprLookup s, exprVerdict v]
     = (if pk_nfproto p = nfprotoIPv4 \<and> (\<exists>x e. slice off 4 (pk_net p) = Some x \<and> sets s = Some e \<and> x \<in> e) then Some v else None)"
  by (auto simp: nft_consts split: option.splits)

lemma eval_net:
  "nft_eval sets p [] [exprMetaLoad nftMetaNFProto, exprCmpEq [nfprotoIPv4], exprPayloadLoad nftPayloadNetworkHeader 16 4,
     exprBitwiseMask (put_uint32 (NOT (mask k))), exprCmpEq (put_uint32 (push_bit k (drop_bit k w))), exprVerdict v]
     = (if \<exists>x. ipv4_dst p x \<and> drop_bit k x = drop_bit k w then Some v else None)"
proof (cases "slice 16 4 (pk_net p)")
  case (Some y)
  then obtain x where "y = put_uint32 x" using slice_put_uint32 by blast
  with Some show ?thesis by (auto simp: nft_consts ipv4_dst_def masked_compare put_uint32_inject)
qed (simp add: nft_consts ipv4_dst_def)

text \<open>A rule that decides accepts; so a chain of such rules lets out what one of them accepts.\<close>

lemma rules_accept:
  assumes "\<And>r. r \<in> set rs \<Longrightarrow> nft_eval sets p [] r \<in> {None, Some nfAccept}"
  shows "leaves (Some \<lparr>nt_policy = Some nfDrop, nt_sets = sets, nt_rules = rs\<rparr>) p \<longleftrightarrow> (\<exists>r \<in> set rs. nft_eval sets p [] r = Some nfAccept)"
proof -
  have "nft_rules_eval sets p rs = (if \<exists>r \<in> set rs. nft_eval sets p [] r = Some nfAccept then Some nfAccept else None)"
    using assms by (induction rs) (fastforce split: option.splits)+
  then show ?thesis by (simp add: leaves_def nfAccept_def nfDrop_def)
qed

lemma net_rules_Some:
  "net_rules ns = Some ms \<longleftrightarrow> (\<forall>n \<in> set ns. net_rule n \<noteq> None) \<and> ms = map (the \<circ> net_rule) ns"
  by (induction ns arbitrary: ms) (auto split: option.splits)

text \<open>The exception: an entry that is an IPv6 network makes the helper panic.\<close>

lemma net_rule_v6: "n \<le> 128 \<Longrightarrow> net_rule (Prefix6 w n) = None"
proof (cases "n > 32")
  case False
  have "\<not> bit (drop_bit 32 (push_bit (128 - n) (drop_bit (128 - n) w))) 0" using False by (auto simp: bit_simps)
  moreover have "bit (65535 :: 128 word) 0" by simp
  ultimately have "drop_bit 32 (push_bit (128 - n) (drop_bit (128 - n) w)) \<noteq> 65535" by metis
  then show ?thesis by (simp add: net_rule_def As4_def split: option.split)
qed (simp add: net_rule_def net4Mask_def)

lemma net_rule_v4:
  "net_rule (Prefix4 w n) = (if n \<le> 32
     then Some (NewRule [exprMetaLoad nftMetaNFProto, exprCmpEq [nfprotoIPv4], exprPayloadLoad nftPayloadNetworkHeader 16 4,
       exprBitwiseMask (put_uint32 (push_bit (32 - n) (- 1))), exprCmpEq (put_uint32 (push_bit (32 - n) (drop_bit (32 - n) w))), exprVerdict nfAccept])
     else None)"
  by (simp add: net_rule_def net4Mask_def As4_def)


lemma apply_all_append:
  "nft_apply_all (xs @ ys) t = (case nft_apply_all xs t of Inl e \<Rightarrow> Inl e | Inr t' \<Rightarrow> nft_apply_all ys t')"
  by (induction xs arbitrary: t) (auto split: sum.split)

lemma apply_rules:
  "nt_policy t \<noteq> None \<Longrightarrow> nft_apply_all (map NewRule rs) (Some t) = Inr (Some (t\<lparr>nt_rules := nt_rules t @ rs\<rparr>))"
  by (induction rs arbitrary: t) auto

lemma v4_keys_set: "set (v4_keys as) = put_uint32 ` {w. A4 w \<in> set as}"
  by (induction as rule: v4_keys.induct) auto

fun rule_of :: "nft_msg \<Rightarrow> nft_expr list" where
  "rule_of (NewRule r) = r"
| "rule_of _ = []"

definition lockdown_sets :: "killSwitchSpec \<Rightarrow> (string \<rightharpoonup> bytes set)" where
  "lockdown_sets spec =
     (if ks_ServedSrc spec \<noteq> NoAddr then [nftServeSet \<mapsto> set (v4_keys [ks_ServedSrc spec])] else Map.empty)
       (nftAllowSet \<mapsto> set (v4_keys (ks_Hosts spec)))"

definition lockdown_rules :: "killSwitchSpec \<Rightarrow> nft_expr list list" where
  "lockdown_rules spec = map rule_of
     ([oif_rule (ks_TunIfIndex spec), oif_rule (ks_LoIfIndex spec), lookup_rule 16 nftAllowSet]
      @ (if ks_ServedSrc spec \<noteq> NoAddr then [lookup_rule 12 nftServeSet] else [])
      @ map (the \<circ> net_rule) (ks_Nets spec) @ [dhcp_rule])"

lemma net_rule_is_rule: "net_rule n \<noteq> None \<Longrightarrow> the (net_rule n) = NewRule (rule_of (the (net_rule n)))"
  by (auto simp: net_rule_def split: option.splits)

lemma enableKillSwitch_table:
  assumes "enableKillSwitch spec = Some msgs"
  shows "nft_apply_all msgs None = Inr (Some \<lparr>nt_policy = Some nfDrop, nt_sets = lockdown_sets spec, nt_rules = lockdown_rules spec\<rparr>)"
proof -
  let ?served = "ks_ServedSrc spec"
  let ?pre = "[NewTable, NewChain nfDrop, NewSet nftAllowSet]
              @ (if ?served \<noteq> NoAddr then NewSet nftServeSet # opt_msg (serveElemMsg ?served) else [])
              @ opt_msg (setElemMsg (ks_Hosts spec))"
  let ?rules = "[oif_rule (ks_TunIfIndex spec), oif_rule (ks_LoIfIndex spec), lookup_rule 16 nftAllowSet]
      @ (if ?served \<noteq> NoAddr then [lookup_rule 12 nftServeSet] else []) @ map (the \<circ> net_rule) (ks_Nets spec) @ [dhcp_rule]"
  have nets: "\<forall>n \<in> set (ks_Nets spec). net_rule n \<noteq> None" and msgs: "msgs = ?pre @ ?rules"
    using assms by (auto simp: enableKillSwitch_def Let_def net_rules_Some)
  have "?rules = map (NewRule \<circ> rule_of) ?rules"
    using nets net_rule_is_rule by (auto simp: oif_rule_def lookup_rule_def dhcp_rule_def intro!: map_cong)
  then have rules: "?rules = map NewRule (lockdown_rules spec)" unfolding lockdown_rules_def by (simp only: map_map)
  have sets: "nft_apply_all ?pre None = Inr (Some \<lparr>nt_policy = Some nfDrop, nt_sets = lockdown_sets spec, nt_rules = []\<rparr>)"
    by (auto simp: lockdown_sets_def opt_msg_def serveElemMsg_def setElemMsg_def Let_def nftServeSet_def nftAllowSet_def fun_upd_twist)
  have "nft_apply_all msgs None = nft_apply_all ?rules (Some \<lparr>nt_policy = Some nfDrop, nt_sets = lockdown_sets spec, nt_rules = []\<rparr>)"
    unfolding msgs apply_all_append [of ?pre ?rules] sets by simp
  then show ?thesis unfolding rules by (simp add: apply_rules)
qed


lemma lockdown_rule_verdicts:
  assumes "\<forall>n \<in> set (ks_Nets spec). net_rule n \<noteq> None" and "r \<in> set (lockdown_rules spec)"
  shows "nft_eval sets p [] r \<in> {None, Some nfAccept}"
proof -
  have net: "nft_eval sets p [] (rule_of (the (net_rule n))) \<in> {None, Some nfAccept}" if "n \<in> set (ks_Nets spec)" for n
  proof -
    have "net_rule n \<noteq> None" using assms(1) that by blast
    then show ?thesis by (auto simp: net_rule_def split: option.splits)
  qed
  show ?thesis using assms(2) net
    by (auto simp: lockdown_rules_def oif_rule_def lookup_rule_def dhcp_rule_def eval_oif eval_lookup eval_dhcp simp del: nft_eval.simps split: if_splits)
qed

lemma net_rule_accepts:
  assumes "net_rule n \<noteq> None" and "prefix_Bits n \<le> 128"
  shows "nft_eval sets p [] (rule_of (the (net_rule n))) = Some nfAccept \<longleftrightarrow> (\<exists>w. ipv4_dst p w \<and> Contains n (A4 w))"
proof (cases n)
  case (Prefix4 w b)
  then show ?thesis using assms by (simp add: net_rule_v4 eval_net del: nft_eval.simps split: if_splits)
next
  case (Prefix6 w b)
  then show ?thesis using assms net_rule_v6 by simp
qed

text \<open>The packets a lockdown built from a specification lets out.\<close>

lemma lockdown_packets:
  assumes "enableKillSwitch spec = Some msgs" and "\<forall>n \<in> set (ks_Nets spec). prefix_Bits n \<le> 128"
  shows "\<exists>t. nft_apply_all msgs None = Inr (Some t) \<and>
    (\<forall>p. leaves (Some t) p \<longleftrightarrow>
       pk_oif p = ks_TunIfIndex spec \<or> pk_oif p = ks_LoIfIndex spec \<or> dhcp_packet p
       \<or> (\<exists>w. ipv4_dst p w \<and> (A4 w \<in> set (ks_Hosts spec) \<or> (\<exists>n \<in> set (ks_Nets spec). Contains n (A4 w))))
       \<or> (\<exists>w. ipv4_src p w \<and> ks_ServedSrc spec = A4 w))"
proof -
  let ?sets = "lockdown_sets spec"
  have nets: "\<forall>n \<in> set (ks_Nets spec). net_rule n \<noteq> None"
    using assms(1) by (auto simp: enableKillSwitch_def Let_def net_rules_Some)
  have allow: "(\<exists>x e. slice 16 4 b = Some x \<and> ?sets nftAllowSet = Some e \<and> x \<in> e)
      \<longleftrightarrow> (\<exists>w. slice 16 4 b = Some (put_uint32 w) \<and> A4 w \<in> set (ks_Hosts spec))" for b
    by (auto simp: lockdown_sets_def v4_keys_set)
  have serve: "ks_ServedSrc spec \<noteq> NoAddr \<and> (\<exists>x e. slice 12 4 b = Some x \<and> ?sets nftServeSet = Some e \<and> x \<in> e)
      \<longleftrightarrow> (\<exists>w. slice 12 4 b = Some (put_uint32 w) \<and> ks_ServedSrc spec = A4 w)" for b
    by (cases "ks_ServedSrc spec") (auto simp: lockdown_sets_def nftServeSet_def nftAllowSet_def)
  have L16: "nft_eval ?sets p [] (rule_of (lookup_rule 16 nftAllowSet)) = Some nfAccept
      \<longleftrightarrow> (\<exists>w. ipv4_dst p w \<and> A4 w \<in> set (ks_Hosts spec))" for p
    unfolding lookup_rule_def rule_of.simps eval_lookup allow by (auto simp: ipv4_dst_def)
  have L12: "ks_ServedSrc spec \<noteq> NoAddr \<and> nft_eval ?sets p [] (rule_of (lookup_rule 12 nftServeSet)) = Some nfAccept
      \<longleftrightarrow> (\<exists>w. ipv4_src p w \<and> ks_ServedSrc spec = A4 w)" for p
    unfolding lookup_rule_def rule_of.simps eval_lookup using serve [of "pk_net p"] by (simp add: ipv4_src_def, blast)
  have nets_ok: "\<And>n. n \<in> set (ks_Nets spec) \<Longrightarrow> prefix_Bits n \<le> 128" using assms(2) by blast
  have net: "(\<exists>n \<in> set (ks_Nets spec). nft_eval ?sets p [] (rule_of (the (net_rule n))) = Some nfAccept)
      \<longleftrightarrow> (\<exists>w. ipv4_dst p w \<and> (\<exists>n \<in> set (ks_Nets spec). Contains n (A4 w)))" for p
    using nets nets_ok net_rule_accepts by blast
  have split: "(\<exists>r \<in> set (lockdown_rules spec). nft_eval ?sets p [] r = Some nfAccept) \<longleftrightarrow>
       nft_eval ?sets p [] (rule_of (oif_rule (ks_TunIfIndex spec))) = Some nfAccept
       \<or> nft_eval ?sets p [] (rule_of (oif_rule (ks_LoIfIndex spec))) = Some nfAccept
       \<or> nft_eval ?sets p [] (rule_of (lookup_rule 16 nftAllowSet)) = Some nfAccept
       \<or> ks_ServedSrc spec \<noteq> NoAddr \<and> nft_eval ?sets p [] (rule_of (lookup_rule 12 nftServeSet)) = Some nfAccept
       \<or> (\<exists>n \<in> set (ks_Nets spec). nft_eval ?sets p [] (rule_of (the (net_rule n))) = Some nfAccept)
       \<or> nft_eval ?sets p [] (rule_of dhcp_rule) = Some nfAccept" for p
    by (auto simp: lockdown_rules_def)
  have "(\<exists>r \<in> set (lockdown_rules spec). nft_eval ?sets p [] r = Some nfAccept) \<longleftrightarrow>
       pk_oif p = ks_TunIfIndex spec \<or> pk_oif p = ks_LoIfIndex spec \<or> dhcp_packet p
       \<or> (\<exists>w. ipv4_dst p w \<and> (A4 w \<in> set (ks_Hosts spec) \<or> (\<exists>n \<in> set (ks_Nets spec). Contains n (A4 w))))
       \<or> (\<exists>w. ipv4_src p w \<and> ks_ServedSrc spec = A4 w)" for p
    unfolding split net L16 L12 oif_rule_def dhcp_rule_def rule_of.simps eval_oif eval_dhcp by auto
  moreover have "leaves (Some \<lparr>nt_policy = Some nfDrop, nt_sets = ?sets, nt_rules = lockdown_rules spec\<rparr>) p
      \<longleftrightarrow> (\<exists>r \<in> set (lockdown_rules spec). nft_eval ?sets p [] r = Some nfAccept)" for p
    by (rule rules_accept) (rule lockdown_rule_verdicts [OF nets])
  ultimately show ?thesis using enableKillSwitch_table [OF assms(1)] by simp
qed

text \<open>C12: The transaction that arms the kill switch applies as a whole, and the packets it lets out of
  the machine are exactly these: those leaving by the tunnel or the loopback, IPv4 packets to an
  allowed host or into an allowed network, those sent from the served address when one was carved out,
  and DHCP requests. Every other packet, IPv6 included, is dropped.\<close>

theorem lockdown_exact:
  assumes "enableKillSwitch spec = Some msgs" and "\<forall>n \<in> set (ks_Nets spec). prefix_Bits n \<le> 128"
  shows "\<exists>t. nft_apply_all msgs None = Inr (Some t) \<and>
    (\<forall>p. leaves (Some t) p \<longleftrightarrow>
       pk_oif p = ks_TunIfIndex spec \<or> pk_oif p = ks_LoIfIndex spec \<or> dhcp_packet p
       \<or> (\<exists>w. ipv4_dst p w \<and> (A4 w \<in> set (ks_Hosts spec) \<or> (\<exists>n \<in> set (ks_Nets spec). Contains n (A4 w))))
       \<or> (\<exists>w. ipv4_src p w \<and> ks_ServedSrc spec = A4 w))"
  using assms by (rule lockdown_packets)


definition demo_spec :: killSwitchSpec where
  "demo_spec = \<lparr>ks_TunIfIndex = 7, ks_LoIfIndex = 1, ks_Hosts = [A4 0xC0000201], ks_Nets = [Prefix4 0x7F000000 8], ks_ServedSrc = NoAddr\<rparr>"

definition demo_packet :: "uint32 \<Rightarrow> packet" where
  "demo_packet dst = \<lparr>pk_oif = 2, pk_nfproto = 2, pk_l4proto = 6, pk_net = replicate 16 0 @ put_uint32 dst, pk_trans = replicate 20 0\<rparr>"

theorem lockdown_exact_witness:
  "\<exists>t. nft_apply_all (the (enableKillSwitch demo_spec)) None = Inr (Some t)
     \<and> leaves (Some t) (demo_packet 0xC0000201) \<and> \<not> leaves (Some t) (demo_packet 0xC0000202)"
proof -
  have "enableKillSwitch demo_spec = Some (the (enableKillSwitch demo_spec))" by code_simp
  moreover have "\<forall>n \<in> set (ks_Nets demo_spec). prefix_Bits n \<le> 128" by (simp add: demo_spec_def)
  moreover have dst: "ipv4_dst (demo_packet d) w \<longleftrightarrow> w = d" for d w
    by (auto simp: ipv4_dst_def demo_packet_def slice_def nfprotoIPv4_def put_uint32_inject)
  moreover have "\<not> dhcp_packet (demo_packet d)" for d by (simp add: dhcp_packet_def demo_packet_def ipprotoUDP_def)
  moreover have "pk_oif (demo_packet d) \<noteq> 7" "pk_oif (demo_packet d) \<noteq> 1" for d by (simp_all add: demo_packet_def)
  moreover have "\<not> Contains (Prefix4 0x7F000000 8) (A4 0xC0000202)" by code_simp
  ultimately show ?thesis using lockdown_exact [of demo_spec "the (enableKillSwitch demo_spec)"]
    by (auto simp: demo_spec_def)
qed

text \<open>An allowlist entry that is an IPv6 network is not refused: building the transaction panics.\<close>

lemma v6_network_panics:
  assumes "Prefix6 w n \<in> set (ks_Nets spec)" and "n \<le> 128"
  shows "enableKillSwitch spec = None"
proof -
  have "net_rules (ks_Nets spec) = None"
    using assms net_rule_v6 net_rules_Some [of "ks_Nets spec"] by (metis not_None_eq)
  then show ?thesis by (simp add: enableKillSwitch_def Let_def)
qed

lemma v4_networks_build:
  assumes "\<forall>n \<in> set (ks_Nets spec). \<exists>w b. n = Prefix4 w b \<and> b \<le> 32"
  shows "enableKillSwitch spec \<noteq> None"
proof -
  have "net_rules (ks_Nets spec) \<noteq> None"
    using assms net_rules_Some [of "ks_Nets spec"] by (fastforce simp: net_rule_v4)
  then show ?thesis by (simp add: enableKillSwitch_def Let_def)
qed

end
