(* ===== verification/Split.thy ===== *)
theory Split
  imports Selection Nft
begin

text \<open>
  Split tunnelling of the client (\<open>clients/internal/enforcement\<close>: \<open>addrs.go\<close>, \<open>splittunnel.go\<close>): endpoints
  and bypass entries turned into addresses and prefixes, the decision per destination, and the addresses
  learned from DNS answers. IPv4 text is parsed and printed here as package \<open>net\<close> does it; IPv6 text, the
  resolver, the DNS message parser and Unicode case mapping are parameters.
\<close>

section \<open>Addresses in text\<close>

text \<open>\<open>net.IP\<close> of a \<open>32 word\<close> is \<open>A4\<close> in all its byte forms; an IPv6 address that is no mapped IPv4
  address is \<open>A6\<close> without a zone.\<close>

datatype dns_answer = AnswerA "32 word" | AnswerBadA | AnswerOther | AnswerBadOther

record split_env =
  se_ip6 :: "string \<Rightarrow> addr option"
  se_cidr6 :: "string \<Rightarrow> prefix option"
  se_string6 :: "128 word \<Rightarrow> string"
  se_net6 :: "128 word \<Rightarrow> nat \<Rightarrow> string"
  se_low :: "string \<Rightarrow> string"
  se_eqf :: "string \<Rightarrow> string \<Rightarrow> bool"
  se_lookupHost :: "string \<Rightarrow> string list option"
  se_question :: "bytes \<Rightarrow> string option"
  se_answers :: "bytes \<Rightarrow> dns_answer list option"

definition octet_of :: "string \<Rightarrow> byte option" where
  "octet_of p =
     (if p \<noteq> [] \<and> list_all is_digit p \<and> (length p = 1 \<or> hd p \<noteq> CHR ''0'') \<and> digits_value p \<le> 255
      then Some (word_of_nat (digits_value p)) else None)"

definition be32 :: "byte \<Rightarrow> byte \<Rightarrow> byte \<Rightarrow> byte \<Rightarrow> 32 word" where
  "be32 a b c d = word_of_int (((uint a * 256 + uint b) * 256 + uint c) * 256 + uint d)"

lemma be32_get: "be32 a b c d = get_uint32 [a, b, c, d]"
proof -
  have "int (nat_of_be [a, b, c, d]) = ((uint a * 256 + uint b) * 256 + uint c) * 256 + uint d"
    by (simp only: nat_of_be_def foldl.simps of_nat_add of_nat_mult of_nat_numeral uint_nat) simp
  then have "word_of_int (((uint a * 256 + uint b) * 256 + uint c) * 256 + uint d) = (of_nat (nat_of_be [a, b, c, d]) :: 32 word)"
    by (metis of_int_of_nat_eq)
  then show ?thesis unfolding be32_def get_uint32_def .
qed

definition parse4 :: "string \<Rightarrow> 32 word option" where
  "parse4 s =
     (case map octet_of (split_on CHR ''.'' s) of
        [Some a, Some b, Some c, Some d] \<Rightarrow> Some (be32 a b c d)
      | _ \<Rightarrow> None)"

fun join_dots :: "string list \<Rightarrow> string" where
  "join_dots [] = []"
| "join_dots [p] = p"
| "join_dots (p # ps) = p @ CHR ''.'' # join_dots ps"

definition show4 :: "32 word \<Rightarrow> string" where
  "show4 w = join_dots (map (\<lambda>b. show_nat (unat b)) (put_uint32 w))"

definition ParseIP :: "split_env \<Rightarrow> string \<Rightarrow> addr option" where
  "ParseIP env s =
     (case find (\<lambda>c. c \<in> {CHR ''.'', CHR '':'', CHR ''%''}) s of
        Some c \<Rightarrow> if c = CHR ''.'' then map_option A4 (parse4 s) else if c = CHR '':'' then se_ip6 env s else None
      | None \<Rightarrow> None)"

fun ip_String :: "split_env \<Rightarrow> addr \<Rightarrow> string" where
  "ip_String env NoAddr = ''<nil>''"
| "ip_String env (A4 w) = show4 w"
| "ip_String env (A6 w z) = se_string6 env w"

text \<open>\<open>ParseCIDR\<close> returns the network, its address masked.\<close>

definition ParseCIDR :: "split_env \<Rightarrow> string \<Rightarrow> prefix option" where
  "ParseCIDR env s =
     (if CHR ''/'' \<notin> set s then None
      else
        (let a = takeWhile (\<lambda>c. c \<noteq> CHR ''/'') s; m = drop (length a + 1) s
         in case find (\<lambda>c. c \<in> {CHR ''.'', CHR '':'', CHR ''%''}) a of
              None \<Rightarrow> None
            | Some c \<Rightarrow>
                if c = CHR '':'' then se_cidr6 env s
                else if c = CHR ''%'' then None
                else case parse4 a of
                  None \<Rightarrow> None
                | Some w \<Rightarrow>
                    if m = [] \<or> \<not> list_all is_digit m \<or> digits_value m > 32 then None
                    else Some (Masked (Prefix4 w (digits_value m)))))"

fun net_String :: "split_env \<Rightarrow> prefix \<Rightarrow> string" where
  "net_String env (Prefix4 w n) = show4 w @ CHR ''/'' # show_nat n"
| "net_String env (Prefix6 w n) = se_net6 env w n"

definition is_v4net :: "prefix \<Rightarrow> bool" where
  "is_v4net p \<longleftrightarrow> (\<exists>w n. n \<le> 32 \<and> p = Masked (Prefix4 w n))"

lemma dot_free: "list_all is_digit s \<Longrightarrow> CHR ''.'' \<notin> set s"
  using digit_not_special by (auto simp: list_all_iff)

lemma octet_of_show: "octet_of (show_nat (unat (b :: byte))) = Some b"
proof -
  have "unat b < 256" using unsigned_less [of b] by simp
  then show ?thesis using show_nat_canonical [of "unat b"] by (simp add: octet_of_def)
qed

lemma parse4_show4 [simp]: "parse4 (show4 w) = Some w"
proof -
  obtain a b c d where w: "put_uint32 w = [a, b, c, d]" by (auto simp: put_uint32_def)
  have free: "CHR ''.'' \<notin> set (show_nat n)" for n by (rule dot_free) simp
  have "split_on CHR ''.'' (show4 w) = map (\<lambda>b. show_nat (unat b)) [a, b, c, d]"
    by (simp add: show4_def w split_on_append split_on_no_sep free)
  moreover have "be32 a b c d = w" by (simp add: be32_get flip: w)
  ultimately show ?thesis by (simp add: parse4_def octet_of_show)
qed

section \<open>Endpoints (addrs.go)\<close>

fun index_of :: "char \<Rightarrow> string \<Rightarrow> nat option" where
  "index_of c [] = None"
| "index_of c (x # xs) = (if x = c then Some 0 else map_option Suc (index_of c xs))"

definition last_index_of :: "char \<Rightarrow> string \<Rightarrow> nat option" where
  "last_index_of c s = map_option (\<lambda>i. length s - 1 - i) (index_of c (rev s))"

text \<open>\<open>net.SplitHostPort\<close>, of which the host is used.\<close>

definition SplitHostPort :: "string \<Rightarrow> (string \<times> string) option" where
  "SplitHostPort s =
     (case last_index_of CHR '':'' s of
        None \<Rightarrow> None
      | Some i \<Rightarrow>
          if hd s = CHR ''['' then
            (case index_of CHR '']'' s of
               None \<Rightarrow> None
             | Some e \<Rightarrow>
                 if e + 1 = length s \<or> e + 1 \<noteq> i then None
                 else if CHR ''['' \<in> set (drop 1 s) \<or> CHR '']'' \<in> set (drop (e + 1) s) then None
                 else Some (take (e - 1) (drop 1 s), drop (i + 1) s))
          else if CHR '':'' \<in> set (take i s) then None
          else if CHR ''['' \<in> set s \<or> CHR '']'' \<in> set s then None
          else Some (take i s, drop (i + 1) s))"

fun after_scheme :: "string \<Rightarrow> string option" where
  "after_scheme [] = None"
| "after_scheme (c # cs) = (if HasPrefix (c # cs) ''://'' then Some (drop 3 (c # cs)) else after_scheme cs)"

definition hostOf :: "string \<Rightarrow> string" where
  "hostOf endpoint =
     (let s = (if HasPrefix endpoint ''['' then endpoint
               else case after_scheme endpoint of
                 Some r \<Rightarrow> r
               | None \<Rightarrow>
                   if length (filter (\<lambda>c. c = CHR '':'') endpoint) \<ge> 2
                   then drop (the (index_of CHR '':'' endpoint) + 1) endpoint else endpoint)
      in case SplitHostPort s of None \<Rightarrow> [] | Some (host, port) \<Rightarrow> host)"

fun add_new :: "string list \<Rightarrow> string list \<Rightarrow> string list" where
  "add_new seen [] = seen"
| "add_new seen (s # ss) = add_new (if s \<in> set seen then seen else seen @ [s]) ss"

definition texts :: "split_env \<Rightarrow> (addr \<Rightarrow> bool) \<Rightarrow> string list \<Rightarrow> string list" where
  "texts env want ss =
     concat (map (\<lambda>a. case ParseIP env a of None \<Rightarrow> [] | Some ip \<Rightarrow> if want ip then [ip_String env ip] else []) ss)"

fun resolveExclusions :: "split_env \<Rightarrow> string list \<Rightarrow> string list \<Rightarrow> string list" where
  "resolveExclusions env ips [] = ips"
| "resolveExclusions env ips (ep # eps) =
     (let host = hostOf ep
      in if host = [] then resolveExclusions env ips eps
         else case (case ParseIP env host of Some ip \<Rightarrow> if Is4 ip then Some ip else None | None \<Rightarrow> None) of
           Some ip \<Rightarrow> resolveExclusions env (add_new ips [ip_String env ip]) eps
         | None \<Rightarrow>
             (case se_lookupHost env host of
                None \<Rightarrow> resolveExclusions env ips eps
              | Some as \<Rightarrow> resolveExclusions env (add_new ips (texts env Is4 as)) eps))"

fun resolveExclusionsV6 :: "split_env \<Rightarrow> string list \<Rightarrow> string list \<Rightarrow> string list" where
  "resolveExclusionsV6 env ips [] = ips"
| "resolveExclusionsV6 env ips (ep # eps) =
     (let host = hostOf ep
      in if host = [] then resolveExclusionsV6 env ips eps
         else case ParseIP env host of
           Some ip \<Rightarrow> resolveExclusionsV6 env (if Is4 ip then ips else add_new ips [ip_String env ip]) eps
         | None \<Rightarrow>
             (case se_lookupHost env host of
                None \<Rightarrow> resolveExclusionsV6 env ips eps
              | Some as \<Rightarrow> resolveExclusionsV6 env (add_new ips (texts env (\<lambda>ip. \<not> Is4 ip) as)) eps))"

declare resolveExclusions.simps [simp del] resolveExclusionsV6.simps [simp del]

definition isIPv6Literal :: "split_env \<Rightarrow> string \<Rightarrow> bool" where
  "isIPv6Literal env ip \<longleftrightarrow> (case ParseIP env ip of None \<Rightarrow> False | Some a \<Rightarrow> \<not> Is4 a)"

definition ensureCIDR :: "split_env \<Rightarrow> string \<Rightarrow> string" where
  "ensureCIDR env s =
     (if CHR ''/'' \<in> set s then s
      else case ParseIP env s of
        Some a \<Rightarrow> if Is4 a then s @ ''/32'' else s @ ''/128''
      | None \<Rightarrow> s @ ''/32'')"

section \<open>The bypass policy (splittunnel.go)\<close>

datatype splitTunnelMode = modeExclude | modeInclude

definition parseSplitTunnelMode :: "split_env \<Rightarrow> string \<Rightarrow> splitTunnelMode" where
  "parseSplitTunnelMode env s = (if EqualFold (se_eqf env) (TrimSpace s) ''include'' then modeInclude else modeExclude)"

text \<open>A problem is the trimmed entry with the reason its sentence gives.\<close>

datatype bypass_reason = ReasonIPv6Network | ReasonIPv6Address | ReasonNotPrefix | ReasonNotHostName

datatype classifiedBypass =
    bypassBlank
  | bypassPrefix prefix
  | bypassDomain string
  | bypassUnusable string bypass_reason

definition ascii_lower :: "char \<Rightarrow> char" where
  "ascii_lower c = (if 65 \<le> char_byte c \<and> char_byte c \<le> 90 then char_of (char_byte c + 32) else c)"

definition ToLower :: "split_env \<Rightarrow> string \<Rightarrow> string" where
  "ToLower env s = (if list_all is_ascii s then map ascii_lower s else se_low env s)"

definition trim_dot :: "string \<Rightarrow> string" where
  "trim_dot s = (if s \<noteq> [] \<and> last s = CHR ''.'' then butlast s else s)"

definition is_letter :: "char \<Rightarrow> bool" where
  "is_letter c \<longleftrightarrow> 97 \<le> char_byte c \<and> char_byte c \<le> 122 \<or> 65 \<le> char_byte c \<and> char_byte c \<le> 90"

text \<open>The characters of a label, and whether every one so far is a digit.\<close>

fun label_chars :: "bool \<Rightarrow> string \<Rightarrow> bool option" where
  "label_chars allNumeric [] = Some allNumeric"
| "label_chars allNumeric (c # cs) =
     (if is_letter c \<or> c = CHR ''-'' then label_chars False cs
      else if is_digit c then label_chars allNumeric cs
      else None)"

fun host_labels :: "bool \<Rightarrow> string list \<Rightarrow> bool" where
  "host_labels allNumeric [] = (\<not> allNumeric)"
| "host_labels allNumeric (l # ls) =
     (if l = [] \<or> length l > 63 then False
      else if hd l = CHR ''-'' \<or> last l = CHR ''-'' then False
      else case label_chars allNumeric l of None \<Rightarrow> False | Some n \<Rightarrow> host_labels n ls)"

definition isHostName :: "string \<Rightarrow> bool" where
  "isHostName name \<longleftrightarrow> (if name = [] \<or> length name > 253 then False else host_labels True (split_on CHR ''.'' name))"

definition classifyBypassEntry :: "split_env \<Rightarrow> string \<Rightarrow> classifiedBypass" where
  "classifyBypassEntry env entry =
     (let e = TrimSpace entry
      in if e = [] then bypassBlank
         else case ParseCIDR env e of
           Some n \<Rightarrow>
             (case n of Prefix4 w b \<Rightarrow> bypassPrefix n | Prefix6 w b \<Rightarrow> bypassUnusable e ReasonIPv6Network)
         | None \<Rightarrow>
             (case ParseIP env e of
                Some ip \<Rightarrow>
                  (case ip of A4 w \<Rightarrow> bypassPrefix (Prefix4 w 32) | _ \<Rightarrow> bypassUnusable e ReasonIPv6Address)
              | None \<Rightarrow>
                  if CHR ''/'' \<in> set e \<or> CHR 0x5C \<in> set e then bypassUnusable e ReasonNotPrefix
                  else
                    (let name = ToLower env (trim_dot e)
                     in if \<not> isHostName name then bypassUnusable e ReasonNotHostName else bypassDomain name)))"

record bypassPolicy =
  bp_mode :: splitTunnelMode
  bp_nets :: "prefix list"
  bp_domains :: "string list"
  bp_problems :: "(string \<times> bypass_reason) list"
  bp_dynamic :: "string list"
  bp_armed :: bool

fun add_entries :: "split_env \<Rightarrow> string list \<Rightarrow> bypassPolicy \<Rightarrow> bypassPolicy" where
  "add_entries env [] p = p"
| "add_entries env (e # es) p =
     add_entries env es
       (case classifyBypassEntry env e of
          bypassBlank \<Rightarrow> p
        | bypassPrefix n \<Rightarrow> p\<lparr>bp_nets := bp_nets p @ [n]\<rparr>
        | bypassDomain d \<Rightarrow> p\<lparr>bp_domains := bp_domains p @ [d]\<rparr>
        | bypassUnusable t r \<Rightarrow> p\<lparr>bp_problems := bp_problems p @ [(t, r)]\<rparr>)"

definition newBypassPolicy :: "split_env \<Rightarrow> string \<Rightarrow> string list \<Rightarrow> bypassPolicy" where
  "newBypassPolicy env mode entries =
     add_entries env entries
       \<lparr>bp_mode = parseSplitTunnelMode env mode, bp_nets = [], bp_domains = [], bp_problems = [], bp_dynamic = [], bp_armed = False\<rparr>"

fun CheckBypass :: "split_env \<Rightarrow> string list \<Rightarrow> (string \<times> bypass_reason) list" where
  "CheckBypass env [] = []"
| "CheckBypass env (e # es) =
     (case classifyBypassEntry env e of bypassUnusable t r \<Rightarrow> (t, r) # CheckBypass env es | _ \<Rightarrow> CheckBypass env es)"

definition hasDomains :: "bypassPolicy \<Rightarrow> bool" where
  "hasDomains p \<longleftrightarrow> bp_domains p \<noteq> []"

definition inSet :: "split_env \<Rightarrow> bypassPolicy \<Rightarrow> addr \<Rightarrow> bool" where
  "inSet env p ip \<longleftrightarrow>
     (if \<not> Is4 ip then False
      else if ip_String env ip \<in> set (bp_dynamic p) then True
      else list_ex (\<lambda>n. Contains n ip) (bp_nets p))"

definition direct :: "split_env \<Rightarrow> bypassPolicy \<Rightarrow> addr \<Rightarrow> bool" where
  "direct env p ip \<longleftrightarrow>
     (if \<not> Is4 ip then False
      else if bp_mode p = modeInclude then \<not> inSet env p ip
      else inSet env p ip)"

definition HasSuffix :: "string \<Rightarrow> string \<Rightarrow> bool" where
  "HasSuffix s t \<longleftrightarrow> HasPrefix (rev s) (rev t)"

definition matchDomain :: "split_env \<Rightarrow> bypassPolicy \<Rightarrow> string \<Rightarrow> bool" where
  "matchDomain env p name =
     (let n = ToLower env (trim_dot name)
      in list_ex (\<lambda>d. n = d \<or> HasSuffix n (CHR ''.'' # d)) (bp_domains p))"

text \<open>What \<open>learn\<close> does under the lock: the policy, and the address and flag \<open>onLearn\<close> is then called with.\<close>

definition learn :: "split_env \<Rightarrow> addr \<Rightarrow> bypassPolicy \<Rightarrow> bypassPolicy \<times> (string \<times> bool) option" where
  "learn env ip p =
     (if \<not> Is4 ip then (p, None)
      else
        (let key = ip_String env ip
         in if key \<in> set (bp_dynamic p) then (p, None)
            else (p\<lparr>bp_dynamic := bp_dynamic p @ [key]\<rparr>, Some (key, bp_armed p))))"

definition arm :: "(string list \<Rightarrow> bool \<times> 'w) \<Rightarrow> bypassPolicy \<Rightarrow> bool \<times> bypassPolicy \<times> 'w" where
  "arm install p = (let (okay, w) = install (bp_dynamic p) in (okay, if okay then p\<lparr>bp_armed := True\<rparr> else p, w))"

definition seed :: "split_env \<Rightarrow> addr \<Rightarrow> bypassPolicy \<Rightarrow> bypassPolicy" where
  "seed env ip p =
     (if \<not> Is4 ip then p
      else
        (let key = ip_String env ip
         in if key \<in> set (bp_dynamic p) then p else p\<lparr>bp_dynamic := bp_dynamic p @ [key]\<rparr>))"

definition v4_of :: "split_env \<Rightarrow> string \<Rightarrow> addr list" where
  "v4_of env d =
     (case se_lookupHost env d of
        None \<Rightarrow> []
      | Some as \<Rightarrow>
          concat (map (\<lambda>a. case ParseIP env a of None \<Rightarrow> [] | Some ip \<Rightarrow> if Is4 ip then [ip] else []) as))"

fun resolveDomains :: "split_env \<Rightarrow> string list \<Rightarrow> addr list \<times> string list" where
  "resolveDomains env [] = ([], [])"
| "resolveDomains env (d # ds) =
     (let ips = v4_of env d; (rest, unresolved) = resolveDomains env ds
      in (ips @ rest, if ips = [] then d # unresolved else unresolved))"

definition staticEntries :: "split_env \<Rightarrow> bypassPolicy \<Rightarrow> string list" where
  "staticEntries env p = map (net_String env) (bp_nets p)"

definition dynamicSnapshot :: "bypassPolicy \<Rightarrow> string list" where
  "dynamicSnapshot p = bp_dynamic p"

definition dnsQuestionName :: "split_env \<Rightarrow> bytes \<Rightarrow> string" where
  "dnsQuestionName env query = (case se_question env query of None \<Rightarrow> [] | Some name \<Rightarrow> trim_dot name)"

fun answer_ips :: "dns_answer list \<Rightarrow> addr list" where
  "answer_ips [] = []"
| "answer_ips (AnswerA w # as) = A4 w # answer_ips as"
| "answer_ips (AnswerBadA # as) = []"
| "answer_ips (AnswerOther # as) = answer_ips as"
| "answer_ips (AnswerBadOther # as) = []"

definition dnsAnswerIPs :: "split_env \<Rightarrow> bytes \<Rightarrow> addr list" where
  "dnsAnswerIPs env resp = (case se_answers env resp of None \<Rightarrow> [] | Some as \<Rightarrow> answer_ips as)"

text \<open>The addresses \<open>observeDNS\<close> hands to \<open>learn\<close>, one after the other.\<close>

definition observeDNS :: "split_env \<Rightarrow> bypassPolicy \<Rightarrow> bytes \<Rightarrow> bytes \<Rightarrow> addr list" where
  "observeDNS env p query resp =
     (if \<not> hasDomains p then []
      else
        (let name = dnsQuestionName env query
         in if name = [] \<or> \<not> matchDomain env p name then [] else dnsAnswerIPs env resp))"

section \<open>What becomes of an entry\<close>

lemma add_entries_problems: "bp_problems (add_entries env es p) = bp_problems p @ CheckBypass env es"
  by (induction es arbitrary: p) (auto split: classifiedBypass.splits)

text \<open>What the start-up check reports is what the live policy leaves out.\<close>

lemma check_matches_policy: "bp_problems (newBypassPolicy env mode es) = CheckBypass env es"
  by (simp add: newBypassPolicy_def add_entries_problems)

lemma push_drop_idem: "push_bit k (drop_bit k (push_bit k (drop_bit k w))) = push_bit k (drop_bit k (w :: 'a::len word))"
  by (simp add: drop_push_drop)

lemma is_v4net_masked: "is_v4net p \<Longrightarrow> \<exists>w n. p = Prefix4 w n \<and> n \<le> 32 \<and> push_bit (32 - n) (drop_bit (32 - n) w) = w"
  by (auto simp: is_v4net_def push_drop_idem)

lemma host_is_v4net: "is_v4net (Prefix4 w 32)"
  by (auto simp: is_v4net_def intro!: exI [of _ w] exI [of _ 32])

definition label_ok :: "string \<Rightarrow> bool" where
  "label_ok l \<longleftrightarrow> l \<noteq> [] \<and> length l \<le> 63 \<and> hd l \<noteq> CHR ''-'' \<and> last l \<noteq> CHR ''-''
     \<and> list_all (\<lambda>c. is_letter c \<or> is_digit c \<or> c = CHR ''-'') l"

lemma digit_no_letter: "is_digit c \<Longrightarrow> \<not> is_letter c \<and> c \<noteq> CHR ''-''"
  by (auto simp: is_digit_def is_letter_def char_byte_def)

lemma label_chars_eq:
  "label_chars b l =
     (if list_all (\<lambda>c. is_letter c \<or> is_digit c \<or> c = CHR ''-'') l then Some (b \<and> list_all is_digit l) else None)"
  by (induction b l rule: label_chars.induct) (auto simp: digit_no_letter)

lemma host_labels_iff: "host_labels b ls \<longleftrightarrow> list_all label_ok ls \<and> \<not> (b \<and> list_all (list_all is_digit) ls)"
  by (induction b ls rule: host_labels.induct) (auto simp: label_chars_eq label_ok_def not_less split: if_splits)

lemma isHostName_iff:
  "isHostName name \<longleftrightarrow> length name \<le> 253 \<and> list_all label_ok (split_on CHR ''.'' name)
     \<and> \<not> list_all (list_all is_digit) (split_on CHR ''.'' name)"
  by (auto simp: isHostName_def host_labels_iff not_less label_ok_def)

definition cidr6_ok :: "split_env \<Rightarrow> bool" where
  "cidr6_ok env \<longleftrightarrow> (\<forall>s p. se_cidr6 env s = Some p \<longrightarrow> (\<exists>w n. p = Prefix6 w n) \<or> is_v4net p)"

lemma ParseCIDR_v4: "cidr6_ok env \<Longrightarrow> ParseCIDR env s = Some (Prefix4 w n) \<Longrightarrow> is_v4net (Prefix4 w n)"
  by (auto simp: ParseCIDR_def cidr6_ok_def is_v4net_def Let_def split: if_splits option.splits)

lemma classify_prefix_v4: "cidr6_ok env \<Longrightarrow> classifyBypassEntry env e = bypassPrefix p \<Longrightarrow> is_v4net p"
  by (auto simp: classifyBypassEntry_def Let_def host_is_v4net ParseCIDR_v4
      split: if_splits option.splits prefix.splits addr.splits)

lemma add_entries_nets: "cidr6_ok env \<Longrightarrow> list_all is_v4net (bp_nets p) \<Longrightarrow> list_all is_v4net (bp_nets (add_entries env es p))"
  by (induction es arbitrary: p) (auto simp: classify_prefix_v4 split: classifiedBypass.splits)

lemma policy_nets_v4: "cidr6_ok env \<Longrightarrow> list_all is_v4net (bp_nets (newBypassPolicy env mode es))"
  by (simp add: newBypassPolicy_def add_entries_nets)

lemma show4_chars: "c \<in> set (show4 w) \<Longrightarrow> is_digit c \<or> c = CHR ''.''"
proof -
  obtain a b d e where w: "put_uint32 w = [a, b, d, e]" by (auto simp: put_uint32_def)
  have "c \<in> set (show_nat n) \<Longrightarrow> is_digit c" for n using show_nat_digits [of n] by (simp add: list_all_iff)
  then show "c \<in> set (show4 w) \<Longrightarrow> is_digit c \<or> c = CHR ''.''" by (auto simp: show4_def w)
qed

lemma show4_no_slash: "CHR ''/'' \<notin> set (show4 w)"
  using show4_chars by (force simp: is_digit_def)

lemma show4_first: "find (\<lambda>c. c \<in> {CHR ''.'', CHR '':'', CHR ''%''}) (show4 w) = Some CHR ''.''"
proof (cases "find (\<lambda>c. c \<in> {CHR ''.'', CHR '':'', CHR ''%''}) (show4 w)")
  case None
  moreover obtain a b d e where "put_uint32 w = [a, b, d, e]" by (auto simp: put_uint32_def)
  then have "CHR ''.'' \<in> set (show4 w)" by (simp add: show4_def)
  ultimately show ?thesis by (auto simp: find_None_iff)
next
  case (Some c)
  then have "c \<in> set (show4 w)" "c \<in> {CHR ''.'', CHR '':'', CHR ''%''}" unfolding find_Some_iff by (metis nth_mem)+
  then have "c = CHR ''.''" using show4_chars [of c w] by (auto simp: is_digit_def)
  with Some show ?thesis by simp
qed

lemma ParseIP_show4 [simp]: "ParseIP env (show4 w) = Some (A4 w)"
  unfolding ParseIP_def show4_first by simp

lemma digits_visible: "c \<in> set (show_nat n) \<Longrightarrow> visible c"
  using show_nat_digits [of n] by (auto simp: list_all_iff is_digit_def visible_def char_byte_def)

lemma TrimSpace_net: "TrimSpace (net_String env (Prefix4 w n)) = net_String env (Prefix4 w n)"
proof (rule TrimSpace_visible)
  have "c \<in> set (show4 w) \<Longrightarrow> visible c" for c
    using show4_chars [of c w] by (auto simp: is_digit_def visible_def char_byte_def)
  then show "list_all visible (net_String env (Prefix4 w n))"
    using digits_visible by (auto simp: list_all_iff visible_def char_byte_def)
qed

lemma ParseCIDR_net:
  assumes "n \<le> 32" shows "ParseCIDR env (net_String env (Prefix4 w n)) = Some (Masked (Prefix4 w n))"
proof -
  have a: "takeWhile (\<lambda>c. c \<noteq> CHR ''/'') (net_String env (Prefix4 w n)) = show4 w"
    using show4_no_slash by (auto simp: takeWhile_append)
  have slash: "CHR ''/'' \<in> set (net_String env (Prefix4 w n))" by simp
  have m: "drop (length (show4 w) + 1) (net_String env (Prefix4 w n)) = show_nat n" by simp
  show ?thesis using assms slash unfolding ParseCIDR_def a Let_def m show4_first by (simp del: net_String.simps)
qed

text \<open>The prefixes handed to the routes and to the kill switch read back as the prefixes of the policy.\<close>

lemma static_entries_read_back:
  assumes "is_v4net p" shows "classifyBypassEntry env (net_String env p) = bypassPrefix p"
proof -
  obtain w n where p: "p = Prefix4 w n" and n: "n \<le> 32" "push_bit (32 - n) (drop_bit (32 - n) w) = w"
    using is_v4net_masked [OF assms] by auto
  have ne: "net_String env (Prefix4 w n) \<noteq> []" by simp
  show ?thesis
    using ne ParseCIDR_net [OF n(1), of env w] n(2)
    unfolding p classifyBypassEntry_def TrimSpace_net by (simp del: net_String.simps)
qed

end
