(* ===== verification/Poolroutes.thy ===== *)
theory Poolroutes
  imports Split
begin

text \<open>
  Addresses that reach a running tunnel late (\<open>clients/internal/enforcement/poolroutes.go\<close>, with \<open>learn\<close> and
  \<open>arm\<close> of \<open>splittunnel.go\<close>): an underlay address the transport pool is about to dial must get a route
  outside the tunnel and a place in the allowlist of the kill switch, and lose both when the tunnel goes
  down. Every critical section and every call to the operating system is one step; dials, DNS answers,
  the background refresh of the gateway and the bring-up and teardown of the tunnel take their steps in
  any order. Route and allowlist calls are best effort, so the state records the calls made.
\<close>

section \<open>The excluder\<close>

record gatewayInfo =
  gi_nextHop :: string
  gi_ifIndex :: int
  gi_ifAlias :: string
  gi_nextHopV6 :: string

definition no_gateway :: gatewayInfo where
  "no_gateway = \<lparr>gi_nextHop = [], gi_ifIndex = 0, gi_ifAlias = [], gi_nextHopV6 = []\<rparr>"

record poolExcluder =
  pe_gw :: gatewayInfo
  pe_routesLive :: bool
  pe_armed :: bool
  pe_closed :: bool
  pe_seen :: "string list"
  pe_gwRefreshing :: bool

definition newPoolExcluder :: poolExcluder where
  "newPoolExcluder =
     \<lparr>pe_gw = no_gateway, pe_routesLive = False, pe_armed = False, pe_closed = False, pe_seen = [], pe_gwRefreshing = False\<rparr>"

fun reserve_record :: "string list \<Rightarrow> poolExcluder \<Rightarrow> poolExcluder \<times> string list" where
  "reserve_record [] p = (p, [])"
| "reserve_record (ip # ips) p =
     (if ip \<in> set (pe_seen p) then reserve_record ips p
      else
        (let (p', todo) = reserve_record ips (p\<lparr>pe_seen := pe_seen p @ [ip]\<rparr>)
         in (p', if pe_routesLive p then ip # todo else todo)))"

definition triggerGatewayRefresh :: "poolExcluder \<Rightarrow> poolExcluder" where
  "triggerGatewayRefresh p = (if pe_gwRefreshing p then p else p\<lparr>pe_gwRefreshing := True\<rparr>)"

definition gateway_refreshed :: "gatewayInfo option \<Rightarrow> poolExcluder \<Rightarrow> poolExcluder" where
  "gateway_refreshed res p =
     (let p' = (case res of Some fresh \<Rightarrow> p\<lparr>pe_gw := fresh\<rparr> | None \<Rightarrow> p) in p'\<lparr>pe_gwRefreshing := False\<rparr>)"

definition disable :: "poolExcluder \<Rightarrow> poolExcluder" where
  "disable p = p\<lparr>pe_closed := True\<rparr>"

definition goLive :: "gatewayInfo \<Rightarrow> poolExcluder \<Rightarrow> poolExcluder" where
  "goLive gw p = p\<lparr>pe_gw := gw, pe_routesLive := True\<rparr>"

definition reserved :: "poolExcluder \<Rightarrow> string list" where
  "reserved p = pe_seen p"

definition armAllowlist :: "(string list \<Rightarrow> bool \<times> 'w) \<Rightarrow> poolExcluder \<Rightarrow> bool \<times> poolExcluder \<times> 'w" where
  "armAllowlist install p =
     (let (okay, w) = install (pe_seen p) in (okay, if okay then p\<lparr>pe_armed := True\<rparr> else p, w))"

section \<open>Threads and steps\<close>

text \<open>A dial inside \<open>reserve\<close>: the addresses left to install, what it read under the lock, and what it does
  next with the first of them.\<close>

datatype reserve_stage = Refreshing | Excluding | Checking | Reaping | Allowing

record reserver =
  rv_todo :: "string list"
  rv_gw :: gatewayInfo
  rv_armed :: bool
  rv_stage :: reserve_stage

datatype route_via = ViaGateway gatewayInfo | ViaTunnel

text \<open>How far the teardown has come with the addresses of the pool.\<close>

datatype teardown = Running | Snapped "string list" | Cleared

record underlay =
  ul_pool :: poolExcluder
  ul_policy :: bypassPolicy
  ul_dials :: "nat \<rightharpoonup> reserver"
  ul_learns :: "(string \<times> bool) list"
  ul_gw :: gatewayInfo
  ul_routes :: "string \<rightharpoonup> route_via"
  ul_allow :: "string set option"
  ul_teardown :: teardown

definition no_underlay :: "bypassPolicy \<Rightarrow> underlay" where
  "no_underlay policy =
     \<lparr>ul_pool = newPoolExcluder, ul_policy = policy, ul_dials = Map.empty, ul_learns = [], ul_gw = no_gateway,
      ul_routes = Map.empty, ul_allow = None, ul_teardown = Running\<rparr>"

text \<open>A route is identified by its prefix, into which \<open>ensureCIDR\<close> turns an address.\<close>

definition add_routes :: "split_env \<Rightarrow> string list \<Rightarrow> route_via \<Rightarrow> (string \<rightharpoonup> route_via) \<Rightarrow> (string \<rightharpoonup> route_via)" where
  "add_routes env ips via m k = (if k \<in> ensureCIDR env ` set ips then Some via else m k)"

definition del_routes :: "split_env \<Rightarrow> string list \<Rightarrow> (string \<rightharpoonup> route_via) \<Rightarrow> (string \<rightharpoonup> route_via)" where
  "del_routes env ips m k = (if k \<in> ensureCIDR env ` set ips then None else m k)"

text \<open>\<open>reserve\<close> up to the end of its first critical section.\<close>

definition reserve_begin :: "split_env \<Rightarrow> nat \<Rightarrow> string \<Rightarrow> underlay \<Rightarrow> underlay" where
  "reserve_begin env t adr s =
     (let ips = resolveExclusions env [] [adr] @ resolveExclusionsV6 env [] [adr]
      in if ips = [] then s
         else
           (let (p, todo) = reserve_record ips (ul_pool s)
            in if pe_closed p \<or> todo = [] then s\<lparr>ul_pool := p\<rparr>
               else s\<lparr>ul_pool := p,
                      ul_dials := (ul_dials s)(t \<mapsto> \<lparr>rv_todo = todo, rv_gw = pe_gw p, rv_armed = pe_armed p, rv_stage = Refreshing\<rparr>)\<rparr>))"

definition next_ip :: "nat \<Rightarrow> reserver \<Rightarrow> underlay \<Rightarrow> underlay" where
  "next_ip t r s =
     s\<lparr>ul_dials := (ul_dials s)(t := if tl (rv_todo r) = [] then None
                                     else Some (r\<lparr>rv_todo := tl (rv_todo r), rv_stage := Excluding\<rparr>))\<rparr>"

text \<open>The next step of a dial inside \<open>reserve\<close>.\<close>

definition reserve_turn :: "split_env \<Rightarrow> nat \<Rightarrow> reserver \<Rightarrow> underlay \<Rightarrow> underlay" where
  "reserve_turn env t r s =
     (let ip = hd (rv_todo r); goto = (\<lambda>st s. s\<lparr>ul_dials := (ul_dials s)(t \<mapsto> r\<lparr>rv_stage := st\<rparr>)\<rparr>)
      in case rv_stage r of
           Refreshing \<Rightarrow> goto Excluding (s\<lparr>ul_pool := triggerGatewayRefresh (ul_pool s)\<rparr>)
         | Excluding \<Rightarrow> goto Checking (s\<lparr>ul_routes := add_routes env [ip] (ViaGateway (rv_gw r)) (ul_routes s)\<rparr>)
         | Checking \<Rightarrow> goto (if pe_closed (ul_pool s) then Reaping else Allowing) s
         | Reaping \<Rightarrow> next_ip t r (s\<lparr>ul_routes := del_routes env [ip] (ul_routes s)\<rparr>)
         | Allowing \<Rightarrow> next_ip t r (if rv_armed r then s\<lparr>ul_allow := map_option (insert ip) (ul_allow s)\<rparr> else s))"

text \<open>\<open>onLearn\<close>, as the bring-up wires it.\<close>

definition on_learn :: "split_env \<Rightarrow> bool \<Rightarrow> string \<times> bool \<Rightarrow> underlay \<Rightarrow> underlay" where
  "on_learn env killSwitch ka s =
     (let (ip, armed) = ka;
          s1 = s\<lparr>ul_routes := add_routes env [ip]
                   (if bp_mode (ul_policy s) = modeInclude then ViaTunnel else ViaGateway (ul_gw s)) (ul_routes s)\<rparr>
      in if killSwitch \<and> armed then s1\<lparr>ul_allow := map_option (insert ip) (ul_allow s1)\<rparr> else s1)"

datatype underlay_event =
    Reserve nat string
  | Turn nat
  | Refreshed "gatewayInfo option"
  | Learn addr
  | OnLearn nat
  | GoLive gatewayInfo
  | Arm "string list" bool
  | Lift
  | Disable
  | SnapReserved
  | RemoveReserved
  | RemoveBypass

text \<open>\<open>policy.arm\<close> around \<open>pe.armAllowlist\<close> around the call that installs the lockdown: both locks are held
  throughout.\<close>

definition arm_both :: "split_env \<Rightarrow> string list \<Rightarrow> bool \<Rightarrow> underlay \<Rightarrow> underlay" where
  "arm_both env control installed s =
     (let (okb, policy, pool, allow) =
        arm (\<lambda>dyn. armAllowlist (\<lambda>poolIPs. (installed, set control \<union> set poolIPs \<union> set (staticEntries env (ul_policy s)) \<union> set dyn))
               (ul_pool s)) (ul_policy s)
      in if okb then s\<lparr>ul_pool := pool, ul_policy := policy, ul_allow := Some allow\<rparr> else s)"

fun ul_step :: "split_env \<Rightarrow> bool \<Rightarrow> underlay_event \<Rightarrow> underlay \<Rightarrow> underlay" where
  "ul_step env ks (Reserve t adr) s = (if ul_dials s t = None then reserve_begin env t adr s else s)"
| "ul_step env ks (Turn t) s = (case ul_dials s t of None \<Rightarrow> s | Some r \<Rightarrow> reserve_turn env t r s)"
| "ul_step env ks (Refreshed res) s =
     (if pe_gwRefreshing (ul_pool s) then s\<lparr>ul_pool := gateway_refreshed res (ul_pool s)\<rparr> else s)"
| "ul_step env ks (Learn ip) s =
     (let (policy, ev) = learn env ip (ul_policy s)
      in s\<lparr>ul_policy := policy, ul_learns := ul_learns s @ (case ev of None \<Rightarrow> [] | Some ka \<Rightarrow> [ka])\<rparr>)"
| "ul_step env ks (OnLearn i) s =
     (if i < length (ul_learns s)
      then (on_learn env ks (ul_learns s ! i) s)\<lparr>ul_learns := take i (ul_learns s) @ drop (Suc i) (ul_learns s)\<rparr> else s)"
| "ul_step env ks (GoLive gw) s =
     (if \<not> pe_routesLive (ul_pool s)
      then s\<lparr>ul_pool := goLive gw (ul_pool s), ul_gw := gw,
             ul_routes := add_routes env (reserved (ul_pool s)) (ViaGateway gw) (ul_routes s)\<rparr> else s)"
| "ul_step env ks (Arm control installed) s =
     (if ks \<and> pe_routesLive (ul_pool s) \<and> \<not> pe_closed (ul_pool s) then arm_both env control installed s else s)"
| "ul_step env ks Lift s = s\<lparr>ul_allow := None\<rparr>"
| "ul_step env ks Disable s = (if pe_routesLive (ul_pool s) then s\<lparr>ul_pool := disable (ul_pool s)\<rparr> else s)"
| "ul_step env ks SnapReserved s =
     (if pe_closed (ul_pool s) \<and> ul_teardown s = Running then s\<lparr>ul_teardown := Snapped (reserved (ul_pool s))\<rparr> else s)"
| "ul_step env ks RemoveReserved s =
     (case ul_teardown s of
        Snapped ips \<Rightarrow> s\<lparr>ul_teardown := Cleared, ul_routes := del_routes env ips (ul_routes s)\<rparr>
      | _ \<Rightarrow> s)"
| "ul_step env ks RemoveBypass s =
     s\<lparr>ul_routes := del_routes env (staticEntries env (ul_policy s) @ dynamicSnapshot (ul_policy s)) (ul_routes s)\<rparr>"

fun ul_run :: "split_env \<Rightarrow> bool \<Rightarrow> underlay_event list \<Rightarrow> underlay \<Rightarrow> underlay" where
  "ul_run env ks [] s = s"
| "ul_run env ks (e # es) s = ul_run env ks es (ul_step env ks e s)"

section \<open>What the two critical sections promise\<close>

text \<open>A set of addresses that grows under a lock together with a flag read and set under the same lock: an
  address that enters is either in the set when the flag is set or sees the flag set.\<close>

locale late_addresses =
  fixes members :: "'s \<Rightarrow> string set" and flagged live :: "'s \<Rightarrow> bool"
    and admit :: "'a \<Rightarrow> 's \<Rightarrow> 's \<times> string set" and seal :: "'s \<Rightarrow> 's"
  assumes admit_members: "live s \<Longrightarrow> members (fst (admit a s)) = members s \<union> snd (admit a s)"
    and admit_flag: "flagged (fst (admit a s)) = flagged s"
    and seal_members: "members (seal s) = members s"
begin

definition covered :: "'s \<Rightarrow> string set \<Rightarrow> string set \<Rightarrow> bool" where
  "covered s allowed pending \<longleftrightarrow> members s \<subseteq> allowed \<union> pending"

lemma covered_admit:
  "covered s allowed pending \<Longrightarrow> live s \<Longrightarrow> covered (fst (admit a s)) allowed (pending \<union> snd (admit a s))"
  by (auto simp: covered_def admit_members)

lemma covered_seal: "members s \<subseteq> allowed \<Longrightarrow> covered (seal s) allowed pending"
  by (auto simp: covered_def seal_members)

lemma covered_settle: "covered s allowed pending \<Longrightarrow> pending \<subseteq> insert ip pending' \<Longrightarrow> covered s (insert ip allowed) pending'"
  by (auto simp: covered_def)

lemma covered_mono: "covered s allowed pending \<Longrightarrow> pending \<subseteq> pending' \<Longrightarrow> covered s allowed pending'"
  by (auto simp: covered_def)

end

definition learn_admit :: "split_env \<Rightarrow> addr \<Rightarrow> bypassPolicy \<Rightarrow> bypassPolicy \<times> string set" where
  "learn_admit env ip p = (let (p', ev) = learn env ip p in (p', case ev of None \<Rightarrow> {} | Some ka \<Rightarrow> {fst ka}))"

definition reserve_admit :: "string list \<Rightarrow> poolExcluder \<Rightarrow> poolExcluder \<times> string set" where
  "reserve_admit ips p = (let (p', todo) = reserve_record ips p in (p', set todo))"

lemma reserve_record_frame:
  assumes "reserve_record ips p = (p', todo)"
  shows "pe_gw p' = pe_gw p" "pe_routesLive p' = pe_routesLive p" "pe_armed p' = pe_armed p" "pe_closed p' = pe_closed p"
    "pe_gwRefreshing p' = pe_gwRefreshing p" "set (pe_seen p') = set (pe_seen p) \<union> set ips" "set todo \<subseteq> set ips"
    "pe_routesLive p \<Longrightarrow> set (pe_seen p') = set (pe_seen p) \<union> set todo"
proof -
  have "pe_gw p' = pe_gw p \<and> pe_routesLive p' = pe_routesLive p \<and> pe_armed p' = pe_armed p \<and> pe_closed p' = pe_closed p
    \<and> pe_gwRefreshing p' = pe_gwRefreshing p \<and> set (pe_seen p') = set (pe_seen p) \<union> set ips \<and> set todo \<subseteq> set ips
    \<and> (pe_routesLive p \<longrightarrow> set (pe_seen p') = set (pe_seen p) \<union> set todo)"
    using assms
  proof (induction ips p arbitrary: p' todo rule: reserve_record.induct)
    case (2 ip ips p)
    show ?case
    proof (cases "ip \<in> set (pe_seen p)")
      case True
      with 2(1) [OF True, of p' todo] 2(3) show ?thesis by auto
    next
      case False
      obtain q todo' where q: "reserve_record ips (p\<lparr>pe_seen := pe_seen p @ [ip]\<rparr>) = (q, todo')" by fastforce
      with 2(2) [OF False q] 2(3) False show ?thesis by (auto simp: Let_def)
    qed
  qed simp
  then show "pe_gw p' = pe_gw p" "pe_routesLive p' = pe_routesLive p" "pe_armed p' = pe_armed p" "pe_closed p' = pe_closed p"
    "pe_gwRefreshing p' = pe_gwRefreshing p" "set (pe_seen p') = set (pe_seen p) \<union> set ips" "set todo \<subseteq> set ips"
    "pe_routesLive p \<Longrightarrow> set (pe_seen p') = set (pe_seen p) \<union> set todo"
    by blast+
qed

interpretation learned: late_addresses "\<lambda>p. set (bp_dynamic p)" bp_armed "\<lambda>_. True" "learn_admit env"
  "\<lambda>p. p\<lparr>bp_armed := True\<rparr>" for env
  by unfold_locales (auto simp: learn_admit_def learn_def Let_def)

interpretation pooled: late_addresses "\<lambda>p. set (pe_seen p)" pe_armed pe_routesLive reserve_admit "\<lambda>p. p\<lparr>pe_armed := True\<rparr>"
proof unfold_locales
  fix s :: poolExcluder and ips
  obtain p todo where r: "reserve_record ips s = (p, todo)" by fastforce
  from reserve_record_frame [OF r]
  show "pe_routesLive s \<Longrightarrow> set (pe_seen (fst (reserve_admit ips s))) = set (pe_seen s) \<union> snd (reserve_admit ips s)"
    and "pe_armed (fst (reserve_admit ips s)) = pe_armed s"
    by (simp_all add: reserve_admit_def r)
qed simp

section \<open>Invariants\<close>

definition awaiting_allow :: "underlay \<Rightarrow> string set" where
  "awaiting_allow s = {ip. \<exists>t r. ul_dials s t = Some r \<and> rv_armed r \<and> ip \<in> set (rv_todo r)}"

definition awaiting_learn :: "underlay \<Rightarrow> string set" where
  "awaiting_learn s = {ip. (ip, True) \<in> set (ul_learns s)}"

definition uninstalled :: "reserver \<Rightarrow> string set" where
  "uninstalled r = (if rv_stage r \<in> {Refreshing, Excluding} then set (rv_todo r) else set (tl (rv_todo r)))"

definition awaiting_route :: "underlay \<Rightarrow> string set" where
  "awaiting_route s = {ip. \<exists>t r. ul_dials s t = Some r \<and> ip \<in> uninstalled r}"

definition unsettled :: "underlay \<Rightarrow> string set" where
  "unsettled s = {ip. \<exists>t r. ul_dials s t = Some r \<and> rv_stage r \<in> {Checking, Reaping} \<and> ip = hd (rv_todo r)}"

definition dials_ok :: "underlay \<Rightarrow> bool" where
  "dials_ok s \<longleftrightarrow>
     (\<forall>t r. ul_dials s t = Some r \<longrightarrow>
        rv_todo r \<noteq> [] \<and> set (rv_todo r) \<subseteq> set (pe_seen (ul_pool s)) \<and> (rv_stage r = Reaping \<longrightarrow> pe_closed (ul_pool s)))
     \<and> fst ` set (ul_learns s) \<subseteq> set (bp_dynamic (ul_policy s)) \<and> (pe_closed (ul_pool s) \<longrightarrow> pe_routesLive (ul_pool s))
     \<and> (ul_teardown s \<noteq> Running \<longrightarrow> pe_closed (ul_pool s))"

definition allow_ok :: "split_env \<Rightarrow> underlay \<Rightarrow> bool" where
  "allow_ok env s \<longleftrightarrow>
     (\<forall>A. ul_allow s = Some A \<longrightarrow>
        pe_armed (ul_pool s) \<and> bp_armed (ul_policy s) \<and> pe_routesLive (ul_pool s) \<and> set (staticEntries env (ul_policy s)) \<subseteq> A
        \<and> (\<not> pe_closed (ul_pool s) \<longrightarrow> pooled.covered (ul_pool s) A (awaiting_allow s))
        \<and> learned.covered (ul_policy s) A (awaiting_learn s))"

definition bypass_keys :: "split_env \<Rightarrow> underlay \<Rightarrow> string set" where
  "bypass_keys env s = ensureCIDR env ` (set (staticEntries env (ul_policy s)) \<union> set (bp_dynamic (ul_policy s)))"

text \<open>\<open>gone\<close> are the prefixes whose routes may have been removed, those of the bypass list.\<close>

definition routes_ok :: "split_env \<Rightarrow> string set \<Rightarrow> underlay \<Rightarrow> bool" where
  "routes_ok env gone s \<longleftrightarrow>
     (pe_routesLive (ul_pool s) \<and> \<not> pe_closed (ul_pool s) \<longrightarrow>
        (\<forall>ip \<in> set (pe_seen (ul_pool s)). ensureCIDR env ip \<in> dom (ul_routes s) \<union> gone \<or> ip \<in> awaiting_route s))"

definition learned_ok :: "split_env \<Rightarrow> string set \<Rightarrow> underlay \<Rightarrow> bool" where
  "learned_ok env gone s \<longleftrightarrow>
     (\<not> pe_closed (ul_pool s) \<longrightarrow>
        (\<forall>ip \<in> set (bp_dynamic (ul_policy s)). ensureCIDR env ip \<in> dom (ul_routes s) \<union> gone \<or> ip \<in> fst ` set (ul_learns s)))"

definition removable :: "underlay \<Rightarrow> string set" where
  "removable s = (case ul_teardown s of Running \<Rightarrow> set (pe_seen (ul_pool s)) | Snapped ips \<Rightarrow> set ips | Cleared \<Rightarrow> unsettled s)"

definition teardown_ok :: "split_env \<Rightarrow> underlay \<Rightarrow> bool" where
  "teardown_ok env s \<longleftrightarrow>
     dom (ul_routes s) \<subseteq> ensureCIDR env ` (removable s \<union> set (bp_dynamic (ul_policy s)))
     \<and> (\<forall>ips t r. ul_teardown s = Snapped ips \<longrightarrow> ul_dials s t = Some r \<longrightarrow> set (rv_todo r) \<subseteq> set ips)"

lemma pool_ops [simp]:
  "pe_seen (triggerGatewayRefresh p) = pe_seen p" "pe_armed (triggerGatewayRefresh p) = pe_armed p"
  "pe_closed (triggerGatewayRefresh p) = pe_closed p" "pe_routesLive (triggerGatewayRefresh p) = pe_routesLive p"
  "pe_seen (gateway_refreshed res p) = pe_seen p" "pe_armed (gateway_refreshed res p) = pe_armed p"
  "pe_closed (gateway_refreshed res p) = pe_closed p" "pe_routesLive (gateway_refreshed res p) = pe_routesLive p"
  "pe_seen (goLive gw p) = pe_seen p" "pe_armed (goLive gw p) = pe_armed p" "pe_closed (goLive gw p) = pe_closed p" "pe_routesLive (goLive gw p)"
  "pe_seen (disable p) = pe_seen p" "pe_armed (disable p) = pe_armed p" "pe_closed (disable p)" "pe_routesLive (disable p) = pe_routesLive p"
  by (auto simp: triggerGatewayRefresh_def gateway_refreshed_def goLive_def disable_def Let_def split: option.splits)

lemma dom_routes [simp]:
  "dom (add_routes env ips via m) = dom m \<union> ensureCIDR env ` set ips" "dom (del_routes env ips m) = dom m - ensureCIDR env ` set ips"
  by (auto simp: add_routes_def del_routes_def dom_def split: if_splits)

lemma reserve_begin_cases:
  obtains (Kept) "reserve_begin env t adr s = s"
  | (Recorded) ips p todo where "reserve_record ips (ul_pool s) = (p, todo)" "pe_closed (ul_pool s) \<or> todo = []"
      "reserve_begin env t adr s = s\<lparr>ul_pool := p\<rparr>"
  | (Started) ips p todo where "reserve_record ips (ul_pool s) = (p, todo)" "\<not> pe_closed (ul_pool s)" "todo \<noteq> []"
      "reserve_begin env t adr s = s\<lparr>ul_pool := p,
         ul_dials := (ul_dials s)(t \<mapsto> \<lparr>rv_todo = todo, rv_gw = pe_gw p, rv_armed = pe_armed p, rv_stage = Refreshing\<rparr>)\<rparr>"
proof -
  define ips where "ips = resolveExclusions env [] [adr] @ resolveExclusionsV6 env [] [adr]"
  obtain p todo where r: "reserve_record ips (ul_pool s) = (p, todo)" by fastforce
  show thesis
  proof (cases "ips = []")
    case True
    then show thesis by (intro Kept) (simp add: reserve_begin_def ips_def [symmetric] Let_def)
  next
    case False
    then have b: "reserve_begin env t adr s = (if pe_closed p \<or> todo = [] then s\<lparr>ul_pool := p\<rparr>
               else s\<lparr>ul_pool := p,
                      ul_dials := (ul_dials s)(t \<mapsto> \<lparr>rv_todo = todo, rv_gw = pe_gw p, rv_armed = pe_armed p, rv_stage = Refreshing\<rparr>)\<rparr>)"
      by (simp add: reserve_begin_def ips_def [symmetric] Let_def r)
    show thesis
      using Recorded [OF r] Started [OF r] b reserve_record_frame(4) [OF r] by (cases "pe_closed p \<or> todo = []") auto
  qed
qed

lemma arm_both_eq:
  "arm_both env control installed s =
     (if installed then s\<lparr>ul_pool := (ul_pool s)\<lparr>pe_armed := True\<rparr>, ul_policy := (ul_policy s)\<lparr>bp_armed := True\<rparr>,
        ul_allow := Some (set control \<union> set (pe_seen (ul_pool s)) \<union> set (staticEntries env (ul_policy s)) \<union> set (bp_dynamic (ul_policy s)))\<rparr>
      else s)"
  by (simp add: arm_both_def arm_def armAllowlist_def)

lemma turn_cases:
  assumes "ul_dials s t = Some r"
  obtains (Trigger) "rv_stage r = Refreshing"
      "ul_step env ks (Turn t) s = s\<lparr>ul_pool := triggerGatewayRefresh (ul_pool s), ul_dials := (ul_dials s)(t \<mapsto> r\<lparr>rv_stage := Excluding\<rparr>)\<rparr>"
  | (Route) "rv_stage r = Excluding"
      "ul_step env ks (Turn t) s = s\<lparr>ul_routes := add_routes env [hd (rv_todo r)] (ViaGateway (rv_gw r)) (ul_routes s),
         ul_dials := (ul_dials s)(t \<mapsto> r\<lparr>rv_stage := Checking\<rparr>)\<rparr>"
  | (Check) "rv_stage r = Checking"
      "ul_step env ks (Turn t) s = s\<lparr>ul_dials := (ul_dials s)(t \<mapsto> r\<lparr>rv_stage := if pe_closed (ul_pool s) then Reaping else Allowing\<rparr>)\<rparr>"
  | (Reap) "rv_stage r = Reaping"
      "ul_step env ks (Turn t) s = next_ip t r (s\<lparr>ul_routes := del_routes env [hd (rv_todo r)] (ul_routes s)\<rparr>)"
  | (Allow) "rv_stage r = Allowing"
      "ul_step env ks (Turn t) s =
         next_ip t r (if rv_armed r then s\<lparr>ul_allow := map_option (insert (hd (rv_todo r))) (ul_allow s)\<rparr> else s)"
  using assms by (cases "rv_stage r") (simp_all add: reserve_turn_def Let_def)

lemma learn_cases:
  obtains (Known) "ul_step env ks (Learn ip) s = s"
  | (New) key where "key \<notin> set (bp_dynamic (ul_policy s))"
      "ul_step env ks (Learn ip) s = s\<lparr>ul_policy := (ul_policy s)\<lparr>bp_dynamic := bp_dynamic (ul_policy s) @ [key]\<rparr>,
         ul_learns := ul_learns s @ [(key, bp_armed (ul_policy s))]\<rparr>"
  by (cases "Is4 ip \<and> ip_String env ip \<notin> set (bp_dynamic (ul_policy s))") (auto simp: learn_def Let_def split: if_splits)

lemma on_learn_fields [simp]:
  "ul_pool (on_learn env ks ka s) = ul_pool s" "ul_policy (on_learn env ks ka s) = ul_policy s"
  "ul_dials (on_learn env ks ka s) = ul_dials s" "ul_teardown (on_learn env ks ka s) = ul_teardown s"
  "dom (ul_routes (on_learn env ks ka s)) = insert (ensureCIDR env (fst ka)) (dom (ul_routes s))"
  "ul_allow (on_learn env ks ka s) = (if ks \<and> snd ka then map_option (insert (fst ka)) (ul_allow s) else ul_allow s)"
  by (simp_all add: on_learn_def Let_def case_prod_beta)

lemma next_ip_fields [simp]:
  "ul_pool (next_ip t r s) = ul_pool s" "ul_policy (next_ip t r s) = ul_policy s" "ul_learns (next_ip t r s) = ul_learns s"
  "ul_routes (next_ip t r s) = ul_routes s" "ul_allow (next_ip t r s) = ul_allow s" "ul_teardown (next_ip t r s) = ul_teardown s"
  by (simp_all add: next_ip_def)

lemma dials_next:
  assumes "dials_ok s" "ul_dials s t = Some r" "ul_pool s' = ul_pool s" "ul_policy s' = ul_policy s" "ul_dials s' = ul_dials s" "ul_learns s' = ul_learns s"
    "ul_teardown s' = ul_teardown s"
  shows "dials_ok (next_ip t r s')"
proof -
  have "set (tl (rv_todo r)) \<subseteq> set (rv_todo r)" by (cases "rv_todo r") auto
  with assms show ?thesis by (fastforce simp: dials_ok_def next_ip_def)
qed

lemma dials_step: "dials_ok s \<Longrightarrow> dials_ok (ul_step env ks e s)"
proof (induction env ks e s rule: ul_step.induct)
  case (1 env ks t adr s)
  show ?case
  proof (cases env t adr s rule: reserve_begin_cases)
    case (Recorded ips p todo)
    then show ?thesis using 1 reserve_record_frame [OF Recorded(1)] by (fastforce simp: dials_ok_def)
  next
    case (Started ips p todo)
    have "set todo \<subseteq> set (pe_seen p)" using reserve_record_frame(6,7) [OF Started(1)] by auto
    then show ?thesis using 1 Started reserve_record_frame [OF Started(1)] by (fastforce simp: dials_ok_def)
  qed (use 1 in simp)
next
  case (2 env ks t s)
  show ?case
  proof (cases "ul_dials s t")
    case (Some r)
    then show ?thesis
    proof (cases rule: turn_cases [where env = env and ks = ks])
      case Reap then show ?thesis using dials_next [OF 2 Some] by simp
    next
      case Allow then show ?thesis using dials_next [OF 2 Some] by simp
    qed (use 2 Some in \<open>auto simp: dials_ok_def\<close>)
  qed (use 2 in simp)
next
  case (4 env ks ip s)
  then show ?case by (cases env ks ip s rule: learn_cases) (auto simp: dials_ok_def)
next
  case (5 env ks i s)
  have "fst ` set (take i xs @ drop (Suc i) xs) \<subseteq> fst ` set xs" for xs :: "(string \<times> bool) list"
    using set_take_subset [of i xs] set_drop_subset [of "Suc i" xs] by auto
  from this [of "ul_learns s"] 5 show ?case by (simp add: dials_ok_def) blast
next
  case (7 env ks control installed s)
  then show ?case by (auto simp: arm_both_eq dials_ok_def)
qed (auto simp: dials_ok_def split: teardown.splits)

lemma awaiting_allow_upd: "awaiting_allow (s\<lparr>ul_dials := (ul_dials s)(t \<mapsto> r)\<rparr>) \<subseteq> awaiting_allow s \<union> (if rv_armed r then set (rv_todo r) else {})"
  by (auto simp: awaiting_allow_def split: if_splits)

lemma awaiting_allow_same:
  "ul_dials s t = Some r \<Longrightarrow> ul_dials s' = (ul_dials s)(t \<mapsto> r\<lparr>rv_stage := st\<rparr>) \<Longrightarrow> awaiting_allow s' = awaiting_allow s"
  by (auto simp: awaiting_allow_def) (metis option.inject reserver.ext_inject reserver.surjective reserver.update_convs(4))+

lemma awaiting_allow_next:
  assumes "ul_dials s t = Some r" "rv_todo r \<noteq> []" "ul_dials s' = ul_dials s"
  shows "awaiting_allow s \<subseteq> (if rv_armed r then insert (hd (rv_todo r)) (awaiting_allow (next_ip t r s')) else awaiting_allow (next_ip t r s'))"
proof
  fix ip assume "ip \<in> awaiting_allow s"
  then obtain t' r' where r': "ul_dials s t' = Some r'" "rv_armed r'" "ip \<in> set (rv_todo r')" by (auto simp: awaiting_allow_def)
  show "ip \<in> (if rv_armed r then insert (hd (rv_todo r)) (awaiting_allow (next_ip t r s')) else awaiting_allow (next_ip t r s'))"
  proof (cases "t' = t")
    case True
    then have "r' = r" using r'(1) assms(1) by simp
    then have "ip = hd (rv_todo r) \<or> ip \<in> set (tl (rv_todo r))" using r'(3) assms(2) by (cases "rv_todo r") auto
    then show ?thesis using r'(2) \<open>r' = r\<close> by (auto simp: awaiting_allow_def next_ip_def)
  next
    case False
    then have "ip \<in> awaiting_allow (next_ip t r s')" using r' assms(3) by (auto simp: awaiting_allow_def next_ip_def intro!: exI [of _ t'])
    then show ?thesis by simp
  qed
qed

lemma allow_okI:
  assumes "\<And>A. ul_allow s = Some A \<Longrightarrow> pe_armed (ul_pool s) \<and> bp_armed (ul_policy s) \<and> pe_routesLive (ul_pool s) \<and> set (staticEntries env (ul_policy s)) \<subseteq> A"
    and "\<And>A. ul_allow s = Some A \<Longrightarrow> \<not> pe_closed (ul_pool s) \<Longrightarrow> pooled.covered (ul_pool s) A (awaiting_allow s)"
    and "\<And>A. ul_allow s = Some A \<Longrightarrow> learned.covered (ul_policy s) A (awaiting_learn s)"
  shows "allow_ok env s"
  using assms by (auto simp: allow_ok_def)

lemma allow_okD:
  assumes "allow_ok env s" "ul_allow s = Some A"
  shows "pe_armed (ul_pool s)" "bp_armed (ul_policy s)" "pe_routesLive (ul_pool s)" "set (staticEntries env (ul_policy s)) \<subseteq> A"
    and "\<not> pe_closed (ul_pool s) \<Longrightarrow> pooled.covered (ul_pool s) A (awaiting_allow s)" "learned.covered (ul_policy s) A (awaiting_learn s)"
  using assms by (auto simp: allow_ok_def)

text \<open>A step that touches neither lock nor the allowlist.\<close>

lemma allow_frame:
  assumes "allow_ok env s" "ul_allow s' = ul_allow s" "ul_policy s' = ul_policy s" "awaiting_learn s \<subseteq> awaiting_learn s'"
    and "pe_armed (ul_pool s') = pe_armed (ul_pool s)" "pe_routesLive (ul_pool s) \<Longrightarrow> pe_routesLive (ul_pool s')"
    and "\<not> pe_closed (ul_pool s') \<Longrightarrow> \<not> pe_closed (ul_pool s) \<and> pe_seen (ul_pool s') = pe_seen (ul_pool s) \<and> awaiting_allow s \<subseteq> awaiting_allow s'"
  shows "allow_ok env s'"
proof (rule allow_okI)
  fix A assume A: "ul_allow s' = Some A"
  then have d: "ul_allow s = Some A" using assms(2) by simp
  show "pe_armed (ul_pool s') \<and> bp_armed (ul_policy s') \<and> pe_routesLive (ul_pool s') \<and> set (staticEntries env (ul_policy s')) \<subseteq> A"
    using allow_okD(1-4) [OF assms(1) d] assms(3,5,6) by simp
  show "learned.covered (ul_policy s') A (awaiting_learn s')"
    using allow_okD(6) [OF assms(1) d] assms(3,4) learned.covered_mono by simp
  assume "\<not> pe_closed (ul_pool s')"
  from assms(7) [OF this] allow_okD(5) [OF assms(1) d] show "pooled.covered (ul_pool s') A (awaiting_allow s')"
    by (auto simp: pooled.covered_def)
qed

lemma allow_reserve:
  assumes "allow_ok env s" "ul_dials s t = None"
  shows "allow_ok env (reserve_begin env t adr s)"
proof (cases env t adr s rule: reserve_begin_cases)
  case Kept
  then show ?thesis using assms by simp
next
  case (Recorded ips p todo)
  have cov: "pooled.covered p A (awaiting_allow s)" if "ul_allow s = Some A" "\<not> pe_closed (ul_pool s)" for A
    using pooled.covered_admit [OF allow_okD(5,3) [OF assms(1) that(1)], of ips] that(2) Recorded(2) by (simp add: reserve_admit_def Recorded(1))
  show ?thesis unfolding Recorded(3)
    using allow_okD [OF assms(1)] reserve_record_frame(2,3,4) [OF Recorded(1)] cov
    by (intro allow_okI) (auto simp: awaiting_allow_def awaiting_learn_def)
next
  case (Started ips p todo)
  let ?s = "reserve_begin env t adr s"
  have cov: "pooled.covered p A (awaiting_allow ?s)" if "ul_allow s = Some A" for A
  proof -
    have "awaiting_allow s \<union> set todo \<subseteq> awaiting_allow ?s"
      using assms(2) allow_okD(1) [OF assms(1) that] reserve_record_frame(3) [OF Started(1)]
      by (auto simp: awaiting_allow_def Started(4)) (metis option.distinct(1))+
    then show ?thesis
      using pooled.covered_admit [OF allow_okD(5,3) [OF assms(1) that], of ips] Started(2) pooled.covered_mono
      by (simp add: reserve_admit_def Started(1))
  qed
  show ?thesis
    using allow_okD [OF assms(1)] reserve_record_frame(2,3,4) [OF Started(1)] cov unfolding Started(4)
    by (intro allow_okI) (auto simp: awaiting_learn_def)
qed

lemma allow_settle:
  assumes "allow_ok env s" "ul_pool s' = ul_pool s" "ul_policy s' = ul_policy s" "ul_allow s' = map_option (insert ip) (ul_allow s)"
    and "awaiting_allow s \<subseteq> insert ip (awaiting_allow s')" "awaiting_learn s \<subseteq> insert ip (awaiting_learn s')"
  shows "allow_ok env s'"
proof (rule allow_okI)
  fix A assume "ul_allow s' = Some A"
  then obtain B where B: "ul_allow s = Some B" "A = insert ip B" using assms(4) by auto
  show "pe_armed (ul_pool s') \<and> bp_armed (ul_policy s') \<and> pe_routesLive (ul_pool s') \<and> set (staticEntries env (ul_policy s')) \<subseteq> A"
    using allow_okD(1-4) [OF assms(1) B(1)] assms(2,3) B(2) by auto
  show "learned.covered (ul_policy s') A (awaiting_learn s')"
    using learned.covered_settle [OF allow_okD(6) [OF assms(1) B(1)] assms(6)] assms(3) B(2) by simp
  assume "\<not> pe_closed (ul_pool s')"
  then show "pooled.covered (ul_pool s') A (awaiting_allow s')"
    using pooled.covered_settle [OF allow_okD(5) [OF assms(1) B(1)] assms(5)] assms(2) B(2) by simp
qed

lemma allow_turn:
  assumes "allow_ok env s" "dials_ok s" "ul_dials s t = Some r"
  shows "allow_ok env (ul_step env ks (Turn t) s)"
  using assms(3)
proof (cases rule: turn_cases [where env = env and ks = ks])
  case Trigger
  show ?thesis unfolding Trigger(2)
    by (rule allow_frame [OF assms(1)]) (auto simp: awaiting_allow_same [OF assms(3)] awaiting_learn_def)
next
  case Route
  show ?thesis unfolding Route(2)
    by (rule allow_frame [OF assms(1)]) (auto simp: awaiting_allow_same [OF assms(3)] awaiting_learn_def)
next
  case Check
  show ?thesis unfolding Check(2)
    by (rule allow_frame [OF assms(1)]) (auto simp: awaiting_allow_same [OF assms(3)] awaiting_learn_def)
next
  case Reap
  then have "pe_closed (ul_pool s)" using assms(2,3) by (auto simp: dials_ok_def)
  then show ?thesis unfolding Reap(2) by (intro allow_frame [OF assms(1)]) (auto simp: next_ip_def awaiting_learn_def)
next
  case Allow
  have todo: "rv_todo r \<noteq> []" using assms(2,3) by (auto simp: dials_ok_def)
  show ?thesis
  proof (cases "rv_armed r")
    case True
    then show ?thesis unfolding Allow(2)
      using awaiting_allow_next [OF assms(3) todo, of "s\<lparr>ul_allow := map_option (insert (hd (rv_todo r))) (ul_allow s)\<rparr>"]
      by (intro allow_settle [OF assms(1), of _ "hd (rv_todo r)"]) (auto simp: next_ip_def awaiting_learn_def)
  next
    case False
    then show ?thesis unfolding Allow(2)
      using awaiting_allow_next [OF assms(3) todo, of s]
      by (intro allow_frame [OF assms(1)]) (auto simp: next_ip_def awaiting_learn_def)
  qed
qed

lemma take_drop_remove: "i < length xs \<Longrightarrow> set xs \<subseteq> insert (xs ! i) (set (take i xs @ drop (Suc i) xs))"
  using id_take_nth_drop [of i xs] by (metis (no_types, lifting) Un_insert_right list.simps(15) set_append set_eq_subset)

lemma allow_step: "allow_ok env s \<Longrightarrow> dials_ok s \<Longrightarrow> (\<not> ks \<longrightarrow> ul_allow s = None) \<Longrightarrow> allow_ok env (ul_step env ks e s)"
proof (induction env ks e s rule: ul_step.induct)
  case (1 env ks t adr s)
  then show ?case using allow_reserve by simp
next
  case (2 env ks t s)
  then show ?case using allow_turn by (cases "ul_dials s t") auto
next
  case (3 env ks res s)
  then show ?case by (auto intro!: allow_frame [OF 3(1)] simp: awaiting_allow_def awaiting_learn_def)
next
  case (4 env ks ip s)
  show ?case
  proof (cases env ks ip s rule: learn_cases)
    case (New key)
    have "learned.covered ((ul_policy s)\<lparr>bp_dynamic := bp_dynamic (ul_policy s) @ [key]\<rparr>) A
        (awaiting_learn (s\<lparr>ul_learns := ul_learns s @ [(key, bp_armed (ul_policy s))]\<rparr>))" if "ul_allow s = Some A" for A
      using allow_okD(2,6) [OF 4(1) that] by (auto simp: learned.covered_def awaiting_learn_def)
    then show ?thesis unfolding New(2)
      using allow_okD [OF 4(1)] by (intro allow_okI) (auto simp: awaiting_allow_def awaiting_learn_def staticEntries_def)
  qed (use 4 in simp)
next
  case (5 env ks i s)
  show ?case
  proof (cases "i < length (ul_learns s)")
    case True
    let ?s = "(on_learn env ks (ul_learns s ! i) s)\<lparr>ul_learns := take i (ul_learns s) @ drop (Suc i) (ul_learns s)\<rparr>"
    have aw: "awaiting_learn s \<subseteq> (if snd (ul_learns s ! i) then insert (fst (ul_learns s ! i)) (awaiting_learn ?s) else awaiting_learn ?s)"
    proof
      fix ip assume "ip \<in> awaiting_learn s"
      then have "(ip, True) \<in> insert (ul_learns s ! i) (set (take i (ul_learns s) @ drop (Suc i) (ul_learns s)))"
        using take_drop_remove [OF True] by (auto simp: awaiting_learn_def)
      then show "ip \<in> (if snd (ul_learns s ! i) then insert (fst (ul_learns s ! i)) (awaiting_learn ?s) else awaiting_learn ?s)"
        by (cases "ul_learns s ! i") (auto simp: awaiting_learn_def)
    qed
    have same: "awaiting_allow ?s = awaiting_allow s" by (simp add: awaiting_allow_def)
    show ?thesis
    proof (cases "ks \<and> snd (ul_learns s ! i)")
      case settled: True
      then have "allow_ok env ?s"
        using aw same by (intro allow_settle [OF 5(1), of _ "fst (ul_learns s ! i)"]) auto
      then show ?thesis using True by simp
    next
      case False
      have "ul_allow s = None \<or> \<not> snd (ul_learns s ! i)" using False 5(3) by auto
      then have "allow_ok env ?s"
      proof
        assume "ul_allow s = None" then show ?thesis by (simp add: allow_ok_def)
      next
        assume "\<not> snd (ul_learns s ! i)"
        then show ?thesis using aw same by (intro allow_frame [OF 5(1)]) auto
      qed
      then show ?thesis using True by simp
    qed
  qed (use 5 in simp)
next
  case (6 env ks gw s)
  then show ?case by (auto intro!: allow_frame [OF 6(1)] simp: awaiting_allow_def awaiting_learn_def)
next
  case (7 env ks control installed s)
  then show ?case by (auto simp: arm_both_eq allow_ok_def pooled.covered_def learned.covered_def staticEntries_def)
next
  case (8 env ks s)
  then show ?case by (simp add: allow_ok_def)
next
  case (9 env ks s)
  then show ?case by (auto intro!: allow_frame [OF 9(1)] simp: awaiting_learn_def)
next
  case (10 env ks s)
  then show ?case by (auto intro!: allow_frame [OF 10(1)] simp: awaiting_allow_def awaiting_learn_def)
next
  case (11 env ks s)
  then show ?case by (auto intro!: allow_frame [OF 11(1)] simp: awaiting_allow_def awaiting_learn_def split: teardown.splits)
next
  case (12 env ks s)
  then show ?case by (auto intro!: allow_frame [OF 12(1)] simp: awaiting_allow_def awaiting_learn_def)
qed

lemma awaiting_route_cong: "ul_dials s' = ul_dials s \<Longrightarrow> awaiting_route s' = awaiting_route s"
  by (simp add: awaiting_route_def)

lemma awaiting_route_keep:
  assumes "ip \<in> awaiting_route s" "ul_dials s t = Some r" "ip \<notin> uninstalled r" "\<And>t'. t' \<noteq> t \<Longrightarrow> ul_dials s' t' = ul_dials s t'"
  shows "ip \<in> awaiting_route s'"
proof -
  from assms(1) obtain t' r' where r': "ul_dials s t' = Some r'" "ip \<in> uninstalled r'" by (auto simp: awaiting_route_def)
  have "t' \<noteq> t" using r' assms(2,3) by (auto)
  then show ?thesis using r' assms(4) by (auto simp: awaiting_route_def intro!: exI [of _ t'] exI [of _ r'])
qed

lemma awaiting_routeI: "ul_dials s t = Some r \<Longrightarrow> ip \<in> uninstalled r \<Longrightarrow> ip \<in> awaiting_route s"
  by (auto simp: awaiting_route_def)

text \<open>A step that removes no route while the excluder is open, and puts an address of a dial into its place.\<close>

lemma routes_frame:
  assumes "routes_ok env gone s" "set (pe_seen (ul_pool s')) = set (pe_seen (ul_pool s))"
    and "pe_routesLive (ul_pool s') \<Longrightarrow> \<not> pe_closed (ul_pool s') \<Longrightarrow> pe_routesLive (ul_pool s) \<and> \<not> pe_closed (ul_pool s)"
    and "pe_routesLive (ul_pool s') \<Longrightarrow> \<not> pe_closed (ul_pool s') \<Longrightarrow> dom (ul_routes s) \<subseteq> dom (ul_routes s') \<union> gone"
    and "\<And>ip. \<not> pe_closed (ul_pool s') \<Longrightarrow> ip \<in> awaiting_route s \<Longrightarrow> ensureCIDR env ip \<in> dom (ul_routes s') \<or> ip \<in> awaiting_route s'"
  shows "routes_ok env gone s'"
  unfolding routes_ok_def
proof (intro impI ballI)
  fix ip assume live: "pe_routesLive (ul_pool s') \<and> \<not> pe_closed (ul_pool s')" and ip: "ip \<in> set (pe_seen (ul_pool s'))"
  then have "ensureCIDR env ip \<in> dom (ul_routes s) \<union> gone \<or> ip \<in> awaiting_route s"
    using assms(1,2,3) by (auto simp: routes_ok_def)
  then show "ensureCIDR env ip \<in> dom (ul_routes s') \<union> gone \<or> ip \<in> awaiting_route s'"
    using assms(4,5) live by blast
qed

lemma routes_turn:
  assumes "routes_ok env gone s" "dials_ok s" "ul_dials s t = Some r"
  shows "routes_ok env gone (ul_step env ks (Turn t) s)"
proof -
  have todo: "rv_todo r \<noteq> []" and closed: "rv_stage r = Reaping \<Longrightarrow> pe_closed (ul_pool s)" using assms(2,3) by (auto simp: dials_ok_def)
  have others: "ip \<in> uninstalled r \<or> ip \<in> awaiting_route s'"
    if "ip \<in> awaiting_route s" "\<And>t'. t' \<noteq> t \<Longrightarrow> ul_dials s' t' = ul_dials s t'" for ip s'
    using awaiting_route_keep [OF that(1) assms(3) _ that(2)] by blast
  from assms(3) show ?thesis
  proof (cases rule: turn_cases [where env = env and ks = ks])
    case Trigger
    let ?s = "s\<lparr>ul_pool := triggerGatewayRefresh (ul_pool s), ul_dials := (ul_dials s)(t \<mapsto> r\<lparr>rv_stage := Excluding\<rparr>)\<rparr>"
    show ?thesis unfolding Trigger(2)
    proof (rule routes_frame [OF assms(1)])
      fix ip assume "ip \<in> awaiting_route s"
      from others [OF this, of ?s] show "ensureCIDR env ip \<in> dom (ul_routes ?s) \<or> ip \<in> awaiting_route ?s"
        using awaiting_routeI [of ?s t "r\<lparr>rv_stage := Excluding\<rparr>" ip] Trigger(1) by (auto simp: uninstalled_def)
    qed (auto simp: bypass_keys_def)
  next
    case Route
    let ?s = "s\<lparr>ul_routes := add_routes env [hd (rv_todo r)] (ViaGateway (rv_gw r)) (ul_routes s), ul_dials := (ul_dials s)(t \<mapsto> r\<lparr>rv_stage := Checking\<rparr>)\<rparr>"
    show ?thesis unfolding Route(2)
    proof (rule routes_frame [OF assms(1)])
      fix ip assume "ip \<in> awaiting_route s"
      from others [OF this, of ?s] have "ip \<in> set (rv_todo r) \<or> ip \<in> awaiting_route ?s" using Route(1) by (auto simp: uninstalled_def)
      then show "ensureCIDR env ip \<in> dom (ul_routes ?s) \<or> ip \<in> awaiting_route ?s"
        using todo awaiting_routeI [of ?s t "r\<lparr>rv_stage := Checking\<rparr>" ip] by (cases "rv_todo r") (auto simp: uninstalled_def)
    qed (auto simp: bypass_keys_def)
  next
    case Check
    let ?r = "r\<lparr>rv_stage := if pe_closed (ul_pool s) then Reaping else Allowing\<rparr>"
    let ?s = "s\<lparr>ul_dials := (ul_dials s)(t \<mapsto> ?r)\<rparr>"
    show ?thesis unfolding Check(2)
    proof (rule routes_frame [OF assms(1)])
      fix ip assume "ip \<in> awaiting_route s"
      from others [OF this, of ?s] show "ensureCIDR env ip \<in> dom (ul_routes ?s) \<or> ip \<in> awaiting_route ?s"
        using awaiting_routeI [of ?s t ?r ip] Check(1) by (auto simp: uninstalled_def)
    qed (auto simp: bypass_keys_def)
  next
    case Reap
    with closed show ?thesis by (auto simp: routes_ok_def next_ip_def)
  next
    case Allow
    let ?s = "next_ip t r (if rv_armed r then s\<lparr>ul_allow := map_option (insert (hd (rv_todo r))) (ul_allow s)\<rparr> else s)"
    show ?thesis unfolding Allow(2)
    proof (rule routes_frame [OF assms(1)])
      fix ip assume "ip \<in> awaiting_route s"
      from others [OF this, of ?s] show "ensureCIDR env ip \<in> dom (ul_routes ?s) \<or> ip \<in> awaiting_route ?s"
        using awaiting_routeI [of ?s t "r\<lparr>rv_todo := tl (rv_todo r), rv_stage := Excluding\<rparr>" ip] Allow(1) by (auto simp: next_ip_def uninstalled_def)
    qed (auto simp: bypass_keys_def next_ip_def split: if_splits)
  qed
qed

lemma routes_reserve:
  assumes "routes_ok env gone s" "ul_dials s t = None"
  shows "routes_ok env gone (reserve_begin env t adr s)"
proof (cases env t adr s rule: reserve_begin_cases)
  case Kept then show ?thesis using assms by simp
next
  case (Recorded ips p todo)
  have "awaiting_route (s\<lparr>ul_pool := p\<rparr>) = awaiting_route s" by (rule awaiting_route_cong) simp
  with Recorded show ?thesis
    using assms(1) reserve_record_frame(2,4,8) [OF Recorded(1)] by (auto simp: routes_ok_def bypass_keys_def)
next
  case (Started ips p todo)
  let ?r = "\<lparr>rv_todo = todo, rv_gw = pe_gw p, rv_armed = pe_armed p, rv_stage = Refreshing\<rparr>"
  let ?s = "reserve_begin env t adr s"
  have old: "awaiting_route s \<subseteq> awaiting_route ?s" using assms(2) unfolding Started(4) by (auto simp: awaiting_route_def) (metis option.distinct(1))
  have new: "set todo \<subseteq> awaiting_route ?s" using awaiting_routeI [of ?s t ?r] unfolding Started(4) by (auto simp: uninstalled_def)
  show ?thesis unfolding routes_ok_def
  proof (intro impI ballI)
    fix ip assume live: "pe_routesLive (ul_pool ?s) \<and> \<not> pe_closed (ul_pool ?s)" and ip: "ip \<in> set (pe_seen (ul_pool ?s))"
    then have "ip \<in> set (pe_seen (ul_pool s)) \<or> ip \<in> set todo" and "pe_routesLive (ul_pool s)"
      using reserve_record_frame(2,8) [OF Started(1)] by (auto simp: Started(4))
    then show "ensureCIDR env ip \<in> dom (ul_routes ?s) \<union> gone \<or> ip \<in> awaiting_route ?s"
      using assms(1) Started(2) old new by (auto simp: routes_ok_def Started(4) bypass_keys_def)
  qed
qed

lemma bypass_keys_dynamic: "dynamicSnapshot p = bp_dynamic p"
  by (simp add: dynamicSnapshot_def)

lemma routes_step:
  "routes_ok env gone s \<Longrightarrow> dials_ok s \<Longrightarrow> (e = RemoveBypass \<Longrightarrow> bypass_keys env s \<subseteq> gone) \<Longrightarrow>
    routes_ok env gone (ul_step env ks e s)"
proof (induction env ks e s rule: ul_step.induct)
  case (1 env ks t adr s)
  then show ?case using routes_reserve by simp
next
  case (2 env ks t s)
  then show ?case using routes_turn by (cases "ul_dials s t") auto
next
  case (4 env ks ip s)
  then show ?case
    by (cases env ks ip s rule: learn_cases) (auto simp: routes_ok_def awaiting_route_def)
next
  case (7 env ks control installed s)
  then show ?case by (auto simp: arm_both_eq routes_ok_def awaiting_route_def)
next
  case (12 env ks s)
  then have "bypass_keys env s \<subseteq> gone" by simp
  then have "dom (ul_routes s) \<subseteq> dom (ul_routes (ul_step env ks RemoveBypass s)) \<union> gone"
    by (fastforce simp: bypass_keys_def bypass_keys_dynamic del_routes_def image_Un dom_def)
  then show ?case by (intro routes_frame [OF 12(1)]) (auto simp: awaiting_route_def)
qed (auto simp: dials_ok_def routes_ok_def awaiting_route_def reserved_def split: teardown.splits)

text \<open>A learned address has its route as soon as its DNS answer was passed on.\<close>

lemma learned_turn:
  assumes "learned_ok env gone s" "dials_ok s" "ul_dials s t = Some r"
  shows "learned_ok env gone (ul_step env ks (Turn t) s)"
proof -
  have closed: "rv_stage r = Reaping \<Longrightarrow> pe_closed (ul_pool s)" using assms(2,3) by (auto simp: dials_ok_def)
  from assms(3) show ?thesis
    by (cases rule: turn_cases [where env = env and ks = ks]) (use assms(1) closed in \<open>auto simp: learned_ok_def\<close>)
qed

lemma taken_out: "i < length xs \<Longrightarrow> x \<in> set xs \<Longrightarrow> x = xs ! i \<or> x \<in> set (take i xs @ drop (Suc i) xs)"
  by (metis Un_iff id_take_nth_drop set_ConsD set_append)

lemma learned_step:
  "learned_ok env gone s \<Longrightarrow> dials_ok s \<Longrightarrow> (e = RemoveBypass \<Longrightarrow> bypass_keys env s \<subseteq> gone) \<Longrightarrow>
    learned_ok env gone (ul_step env ks e s)"
proof (induction env ks e s rule: ul_step.induct)
  case (1 env ks t adr s)
  then show ?case
    by (cases env t adr s rule: reserve_begin_cases) (auto simp: learned_ok_def dest: reserve_record_frame(4))
next
  case (2 env ks t s)
  then show ?case using learned_turn by (cases "ul_dials s t") auto
next
  case (4 env ks ip s)
  then show ?case by (cases env ks ip s rule: learn_cases) (auto simp: learned_ok_def)
next
  case (5 env ks i s)
  then show ?case using taken_out [of i "ul_learns s"] by (fastforce simp: learned_ok_def)
next
  case (7 env ks control installed s)
  then show ?case by (auto simp: arm_both_eq learned_ok_def)
next
  case (12 env ks s)
  then show ?case by (auto simp: learned_ok_def bypass_keys_def bypass_keys_dynamic del_routes_def)
qed (auto simp: dials_ok_def learned_ok_def split: teardown.splits)

lemma bypass_keys_step: "bypass_keys env s \<subseteq> bypass_keys env (ul_step env ks e s)"
proof -
  have "ul_policy (ul_step env ks e s) = ul_policy s
    \<or> (\<exists>x. ul_policy (ul_step env ks e s) = (ul_policy s)\<lparr>bp_dynamic := bp_dynamic (ul_policy s) @ x\<rparr>)
    \<or> (\<exists>x. ul_policy (ul_step env ks e s) = (ul_policy s)\<lparr>bp_armed := x\<rparr>)"
  proof (induction env ks e s rule: ul_step.induct)
    case (1 env ks t adr s)
    then show ?case by (cases env t adr s rule: reserve_begin_cases) auto
  next
    case (2 env ks t s)
    show ?case
    proof (cases "ul_dials s t")
      case (Some r)
      then show ?thesis by (cases rule: turn_cases [where env = env and ks = ks]) auto
    qed simp
  next
    case (4 env ks ip s)
    then show ?case by (cases env ks ip s rule: learn_cases) (auto simp del: ul_step.simps)
  next
    case (7 env ks control installed s)
    then show ?case by (auto simp: arm_both_eq)
  qed (auto split: teardown.splits)
  then show ?thesis by (auto simp: bypass_keys_def staticEntries_def)
qed

lemma next_todo: "set (tl xs) \<subseteq> set xs"
  by (cases xs) auto

lemma unsettledI: "ul_dials s t = Some r \<Longrightarrow> rv_stage r \<in> {Checking, Reaping} \<Longrightarrow> hd (rv_todo r) \<in> unsettled s"
  unfolding unsettled_def by blast

lemma unsettled_other:
  assumes "ip \<in> unsettled s" "ul_dials s t = Some r" "\<And>t'. t' \<noteq> t \<Longrightarrow> ul_dials s' t' = ul_dials s t'"
  shows "ip = hd (rv_todo r) \<and> rv_stage r \<in> {Checking, Reaping} \<or> ip \<in> unsettled s'"
proof -
  from assms(1) obtain t' r' where r': "ul_dials s t' = Some r'" "rv_stage r' \<in> {Checking, Reaping}" "ip = hd (rv_todo r')"
    unfolding unsettled_def by blast
  show ?thesis
  proof (cases "t' = t")
    case True
    then show ?thesis using r' assms(2) by simp
  next
    case False
    then have "ul_dials s' t' = Some r'" using assms(3) r'(1) by simp
    from unsettledI [OF this r'(2)] show ?thesis using r'(3) by simp
  qed
qed

lemma teardown_frame:
  assumes "teardown_ok env s" "ul_teardown s' = ul_teardown s"
    and "ensureCIDR env ` removable s \<inter> dom (ul_routes s') \<subseteq> ensureCIDR env ` removable s'"
    and "set (bp_dynamic (ul_policy s)) \<subseteq> set (bp_dynamic (ul_policy s'))"
    and "dom (ul_routes s') \<subseteq> dom (ul_routes s) \<union> ensureCIDR env ` (removable s' \<union> set (bp_dynamic (ul_policy s')))"
    and "\<And>t r. ul_dials s' t = Some r \<Longrightarrow> ul_teardown s \<noteq> Running \<Longrightarrow> \<exists>r'. ul_dials s t = Some r' \<and> set (rv_todo r) \<subseteq> set (rv_todo r')"
  shows "teardown_ok env s'"
  unfolding teardown_ok_def
proof (intro conjI allI impI)
  show "dom (ul_routes s') \<subseteq> ensureCIDR env ` (removable s' \<union> set (bp_dynamic (ul_policy s')))"
  proof
    fix k assume k: "k \<in> dom (ul_routes s')"
    show "k \<in> ensureCIDR env ` (removable s' \<union> set (bp_dynamic (ul_policy s')))"
    proof (cases "k \<in> dom (ul_routes s)")
      case True
      then have "k \<in> ensureCIDR env ` removable s \<or> k \<in> ensureCIDR env ` set (bp_dynamic (ul_policy s))"
        using assms(1) unfolding teardown_ok_def image_Un by blast
      then have "k \<in> ensureCIDR env ` removable s' \<or> k \<in> ensureCIDR env ` set (bp_dynamic (ul_policy s'))"
        using k assms(3,4) by blast
      then show ?thesis by (simp add: image_Un)
    next
      case False
      then show ?thesis using k assms(5) by blast
    qed
  qed
next
  fix ips t r assume snap: "ul_teardown s' = Snapped ips" and r: "ul_dials s' t = Some r"
  then obtain r' where "ul_dials s t = Some r'" "set (rv_todo r) \<subseteq> set (rv_todo r')" using assms(6) [OF r] assms(2) by auto
  moreover have "set (rv_todo r') \<subseteq> set ips" if "ul_dials s t = Some r'" using that assms(1,2) snap unfolding teardown_ok_def by simp
  ultimately show "set (rv_todo r) \<subseteq> set ips" by blast
qed

lemma teardown_next:
  assumes "teardown_ok env s" "dials_ok s" "ul_dials s t = Some r" "ul_pool s' = ul_pool s" "ul_policy s' = ul_policy s" "ul_dials s' = ul_dials s"
    "ul_teardown s' = ul_teardown s"
    and "dom (ul_routes s') \<subseteq> dom (ul_routes s)" "rv_stage r \<in> {Checking, Reaping} \<Longrightarrow> ensureCIDR env (hd (rv_todo r)) \<notin> dom (ul_routes s')"
  shows "teardown_ok env (next_ip t r s')"
proof (rule teardown_frame [OF assms(1)])
  have others: "\<And>t'. t' \<noteq> t \<Longrightarrow> ul_dials (next_ip t r s') t' = ul_dials s t'" by (simp add: next_ip_def assms(6))
  have "ensureCIDR env ` unsettled s \<inter> dom (ul_routes s') \<subseteq> ensureCIDR env ` unsettled (next_ip t r s')"
    using unsettled_other [OF _ assms(3) others] assms(9) by blast
  then show "ensureCIDR env ` removable s \<inter> dom (ul_routes (next_ip t r s')) \<subseteq> ensureCIDR env ` removable (next_ip t r s')"
    using assms(4,7) by (simp add: removable_def split: teardown.split)
next
  fix t' r' assume "ul_dials (next_ip t r s') t' = Some r'"
  then show "\<exists>q. ul_dials s t' = Some q \<and> set (rv_todo r') \<subseteq> set (rv_todo q)"
    using assms(3,6) next_todo [of "rv_todo r"] by (auto simp: next_ip_def split: if_splits)
qed (use assms in \<open>auto simp: next_ip_def\<close>)

text \<open>A turn that only moves the dial to another stage, and may install the route of its first address.\<close>

lemma teardown_stage:
  assumes "teardown_ok env s" "ul_dials s t = Some r" "ul_policy s' = ul_policy s" "ul_teardown s' = ul_teardown s"
    and "pe_seen (ul_pool s') = pe_seen (ul_pool s)" "ul_dials s' = (ul_dials s)(t \<mapsto> r\<lparr>rv_stage := st\<rparr>)"
    and "ul_teardown s = Cleared \<Longrightarrow> rv_stage r \<in> {Checking, Reaping} \<Longrightarrow> st \<in> {Checking, Reaping}"
    and "dom (ul_routes s') \<subseteq> dom (ul_routes s) \<union> ensureCIDR env ` removable s'"
  shows "teardown_ok env s'"
proof (rule teardown_frame [OF assms(1,4)])
  have others: "\<And>t'. t' \<noteq> t \<Longrightarrow> ul_dials s' t' = ul_dials s t'" by (simp add: assms(6))
  have "hd (rv_todo r) \<in> unsettled s'" if "st \<in> {Checking, Reaping}" using unsettledI [of s' t "r\<lparr>rv_stage := st\<rparr>"] that assms(6) by simp
  then have "ul_teardown s = Cleared \<Longrightarrow> unsettled s \<subseteq> unsettled s'"
    using unsettled_other [OF _ assms(2) others] assms(7) by blast
  then have "removable s \<subseteq> removable s'" using assms(4,5) by (auto simp: removable_def split: teardown.split)
  then show "ensureCIDR env ` removable s \<inter> dom (ul_routes s') \<subseteq> ensureCIDR env ` removable s'" by blast
qed (use assms in \<open>auto split: if_splits\<close>)

lemma teardown_turn:
  assumes "teardown_ok env s" "dials_ok s" "ul_dials s t = Some r"
  shows "teardown_ok env (ul_step env ks (Turn t) s)"
proof -
  have todo: "hd (rv_todo r) \<in> set (rv_todo r)" "set (rv_todo r) \<subseteq> set (pe_seen (ul_pool s))"
    and closed: "ul_teardown s \<noteq> Running \<Longrightarrow> pe_closed (ul_pool s)" using assms(2,3) by (auto simp: dials_ok_def)
  from assms(3) show ?thesis
  proof (cases rule: turn_cases [where env = env and ks = ks])
    case Trigger
    then show ?thesis by (auto intro!: teardown_stage [OF assms(1,3), of _ Excluding])
  next
    case Route
    let ?s = "ul_step env ks (Turn t) s"
    have "hd (rv_todo r) \<in> unsettled ?s" unfolding Route(2) using unsettledI [of _ t "r\<lparr>rv_stage := Checking\<rparr>"] by simp
    moreover have "ul_teardown s = Snapped ips \<Longrightarrow> hd (rv_todo r) \<in> set ips" for ips
      using assms(1,3) todo(1) unfolding teardown_ok_def by blast
    ultimately have "hd (rv_todo r) \<in> removable ?s" using todo unfolding Route(2) by (auto simp: removable_def split: teardown.split)
    then show ?thesis using Route by (intro teardown_stage [OF assms(1,3), of _ Checking]) auto
  next
    case Check
    then show ?thesis
      using closed by (intro teardown_stage [OF assms(1,3), of _ "if pe_closed (ul_pool s) then Reaping else Allowing"]) auto
  next
    case Reap
    then show ?thesis using teardown_next [OF assms] by simp
  next
    case Allow
    then show ?thesis using teardown_next [OF assms] by simp
  qed
qed

lemma teardown_reserve:
  assumes "teardown_ok env s" "dials_ok s" "ul_dials s t = None"
  shows "teardown_ok env (reserve_begin env t adr s)"
proof (cases env t adr s rule: reserve_begin_cases)
  case Kept then show ?thesis using assms by simp
next
  case (Recorded ips p todo)
  have "unsettled (s\<lparr>ul_pool := p\<rparr>) = unsettled s" by (simp add: unsettled_def)
  then have "removable s \<subseteq> removable (s\<lparr>ul_pool := p\<rparr>)"
    using reserve_record_frame(6) [OF Recorded(1)] by (auto simp: removable_def split: teardown.split)
  then show ?thesis unfolding Recorded(3) by (intro teardown_frame [OF assms(1)]) auto
next
  case (Started ips p todo)
  then have "ul_teardown s = Running" using assms(2) by (auto simp: dials_ok_def)
  then show ?thesis unfolding Started(4)
    using reserve_record_frame(6) [OF Started(1)] by (intro teardown_frame [OF assms(1)]) (auto simp: removable_def)
qed

lemma teardown_cong:
  assumes "teardown_ok env s" "pe_seen (ul_pool s') = pe_seen (ul_pool s)" "ul_dials s' = ul_dials s" "ul_teardown s' = ul_teardown s"
    and "set (bp_dynamic (ul_policy s)) \<subseteq> set (bp_dynamic (ul_policy s'))"
    and "dom (ul_routes s') \<subseteq> dom (ul_routes s) \<union> ensureCIDR env ` set (bp_dynamic (ul_policy s'))"
  shows "teardown_ok env s'"
proof -
  have "removable s' = removable s" using assms(2-4) by (auto simp: removable_def unsettled_def split: teardown.split)
  then show ?thesis using assms by (intro teardown_frame [OF assms(1)]) auto
qed

lemma teardown_step: "teardown_ok env s \<Longrightarrow> dials_ok s \<Longrightarrow> teardown_ok env (ul_step env ks e s)"
proof (induction env ks e s rule: ul_step.induct)
  case (1 env ks t adr s)
  then show ?case using teardown_reserve by simp
next
  case (2 env ks t s)
  then show ?case using teardown_turn by (cases "ul_dials s t") auto
next
  case (4 env ks ip s)
  show ?case by (cases env ks ip s rule: learn_cases) (use 4 in \<open>auto intro: teardown_cong\<close>)
next
  case (5 env ks i s)
  show ?case
  proof (cases "i < length (ul_learns s)")
    case True
    then have "fst (ul_learns s ! i) \<in> set (bp_dynamic (ul_policy s))" using 5(2) unfolding dials_ok_def by (metis image_subset_iff nth_mem)
    then have "teardown_ok env (ul_step env ks (OnLearn i) s)" using True by (intro teardown_cong [OF 5(1)]) auto
    then show ?thesis .
  qed (use 5 in simp)
next
  case (6 env ks gw s)
  have "\<not> pe_routesLive (ul_pool s) \<Longrightarrow> ul_teardown s = Running" using 6(2) by (auto simp: dials_ok_def)
  with 6 show ?case by (auto simp: teardown_ok_def removable_def reserved_def)
next
  case (7 env ks control installed s)
  then show ?case by (auto simp: arm_both_eq intro: teardown_cong)
next
  case (10 env ks s)
  then show ?case by (auto simp: teardown_ok_def removable_def dials_ok_def reserved_def)
next
  case (11 env ks s)
  then show ?case by (auto simp: teardown_ok_def removable_def split: teardown.splits)
next
  case (12 env ks s)
  have "teardown_ok env (ul_step env ks RemoveBypass s)" by (intro teardown_cong [OF 12(1)]) auto
  then show ?case .
qed (auto intro: teardown_cong)

definition underlay_ok :: "split_env \<Rightarrow> bool \<Rightarrow> underlay \<Rightarrow> bool" where
  "underlay_ok env ks s \<longleftrightarrow> dials_ok s \<and> allow_ok env s \<and> routes_ok env (bypass_keys env s) s \<and> teardown_ok env s \<and> (\<not> ks \<longrightarrow> ul_allow s = None)"

lemma lockdown_only_if_asked: "\<not> ks \<Longrightarrow> ul_allow s = None \<Longrightarrow> ul_allow (ul_step env ks e s) = None"
proof (induction env ks e s rule: ul_step.induct)
  case (1 env ks t adr s)
  then show ?case by (cases env t adr s rule: reserve_begin_cases) simp_all
next
  case (2 env ks t s)
  show ?case
  proof (cases "ul_dials s t")
    case (Some r)
    then show ?thesis by (cases rule: turn_cases [where env = env and ks = ks]) (use 2 in simp_all)
  qed (use 2 in simp)
next
  case (4 env ks ip s)
  then show ?case by (cases env ks ip s rule: learn_cases) simp_all
qed (auto split: teardown.splits)

lemma routes_ok_mono: "routes_ok env gone s \<Longrightarrow> gone \<subseteq> gone' \<Longrightarrow> routes_ok env gone' s"
  by (auto simp: routes_ok_def)

lemma underlay_ok_step: "underlay_ok env ks s \<Longrightarrow> underlay_ok env ks (ul_step env ks e s)"
  unfolding underlay_ok_def
  using routes_ok_mono [OF routes_step [of env "bypass_keys env s" s e ks] bypass_keys_step]
  by (intro conjI impI; (elim conjE)?) (simp_all add: dials_step allow_step teardown_step lockdown_only_if_asked)

lemma underlay_ok_run: "underlay_ok env ks s \<Longrightarrow> underlay_ok env ks (ul_run env ks es s)"
  by (induction es arbitrary: s) (simp_all add: underlay_ok_step del: ul_step.simps)

lemma underlay_ok_start: "bp_dynamic p = [] \<Longrightarrow> underlay_ok env ks (no_underlay p)"
  by (simp add: underlay_ok_def no_underlay_def newPoolExcluder_def dials_ok_def allow_ok_def routes_ok_def teardown_ok_def removable_def)

lemma no_removal_run:
  "RemoveBypass \<notin> set es \<Longrightarrow> underlay_ok env ks s \<Longrightarrow> routes_ok env {} s \<Longrightarrow> learned_ok env {} s \<Longrightarrow>
    routes_ok env {} (ul_run env ks es s) \<and> learned_ok env {} (ul_run env ks es s)"
proof (induction es arbitrary: s)
  case (Cons e es)
  then have "dials_ok s" "e \<noteq> RemoveBypass" by (auto simp: underlay_ok_def)
  with Cons.prems have "routes_ok env {} (ul_step env ks e s)" "learned_ok env {} (ul_step env ks e s)"
    by (auto simp del: ul_step.simps intro: routes_step learned_step)
  with Cons.IH [of "ul_step env ks e s"] Cons.prems show ?case by (simp add: underlay_ok_step del: ul_step.simps)
qed simp

text \<open>C17: However dials, DNS answers, refreshes of the gateway and the bring-up interleave: once the routes
  are live and until the excluder is disabled, every address the pool has reserved has its route, or a dial
  that has not returned from reserve yet is about to install it, and every address learned for the bypass
  list has its route, or its DNS answer is still held back to install it; this until the tunnel removes the
  routes of the bypass list, which it may share with reserved addresses. And while the lockdown is in force
  its allowlist holds every entry of the bypass list and every reserved or learned address, except those
  whose dial or DNS answer is still held back to add them. No address falls between the snapshot and the
  flag. Each call that installs a route or opens the lockdown for an address is taken to succeed.\<close>

theorem late_addresses_never_lost:
  assumes "bp_dynamic policy = []" and "s = ul_run env ks es (no_underlay policy)"
    and "pe_routesLive (ul_pool s)" and "\<not> pe_closed (ul_pool s)"
  shows "(\<forall>ip \<in> set (reserved (ul_pool s)).
        ensureCIDR env ip \<in> dom (ul_routes s) \<union> (if RemoveBypass \<in> set es then bypass_keys env s else {})
        \<or> (\<exists>t r. ul_dials s t = Some r \<and> ip \<in> uninstalled r))
    \<and> (RemoveBypass \<notin> set es \<longrightarrow>
        (\<forall>ip \<in> set (dynamicSnapshot (ul_policy s)).
           ensureCIDR env ip \<in> dom (ul_routes s) \<or> (\<exists>armed. (ip, armed) \<in> set (ul_learns s))))
    \<and> (\<forall>A. ul_allow s = Some A \<longrightarrow> set (staticEntries env (ul_policy s)) \<subseteq> A
        \<and> set (reserved (ul_pool s)) \<subseteq> A \<union> {ip. \<exists>t r. ul_dials s t = Some r \<and> rv_armed r \<and> ip \<in> set (rv_todo r)}
        \<and> set (dynamicSnapshot (ul_policy s)) \<subseteq> A \<union> {ip. (ip, True) \<in> set (ul_learns s)})"
    (is "?routes \<and> ?learned \<and> ?allow")
proof (intro conjI)
  have okay: "underlay_ok env ks s" unfolding assms(2) by (rule underlay_ok_run [OF underlay_ok_start [OF assms(1)]])
  have kept: "routes_ok env {} s \<and> learned_ok env {} s" if "RemoveBypass \<notin> set es"
    unfolding assms(2)
    by (rule no_removal_run [OF that underlay_ok_start [OF assms(1)]])
       (simp_all add: routes_ok_def learned_ok_def no_underlay_def newPoolExcluder_def assms(1))
  show ?routes
    using okay kept assms(3,4) by (auto simp: underlay_ok_def routes_ok_def awaiting_route_def reserved_def)
  show ?learned
    using kept assms(4) by (fastforce simp: learned_ok_def dynamicSnapshot_def)
  have "allow_ok env s" using okay by (simp add: underlay_ok_def)
  from allow_okD(4-6) [OF this] assms(4) show ?allow
    by (simp add: pooled.covered_def learned.covered_def awaiting_allow_def awaiting_learn_def reserved_def dynamicSnapshot_def)
qed

text \<open>C18: The teardown of the pool is complete in every interleaving: once the excluder was disabled, its
  addresses were snapped and their routes removed, and no dial is inside reserve any more, no route of the
  pool is left; a route that remains is that of an address learned for the bypass list. A dial that was
  overtaken by the teardown has removed its own route.\<close>

theorem pool_teardown_complete:
  assumes "bp_dynamic policy = []" and "s = ul_run env ks es (no_underlay policy)"
    and "ul_teardown s = Cleared" and "ul_dials s = Map.empty"
  shows "dom (ul_routes s) \<subseteq> ensureCIDR env ` set (dynamicSnapshot (ul_policy s))"
proof -
  have "underlay_ok env ks s" unfolding assms(2) by (rule underlay_ok_run [OF underlay_ok_start [OF assms(1)]])
  then show ?thesis
    using assms(3,4) by (simp add: underlay_ok_def teardown_ok_def removable_def unsettled_def dynamicSnapshot_def)
qed

text \<open>Both sets only grow.\<close>

lemma late_sets_grow_step:
  "set (reserved (ul_pool s)) \<subseteq> set (reserved (ul_pool (ul_step env ks e s)))"
  "set (dynamicSnapshot (ul_policy s)) \<subseteq> set (dynamicSnapshot (ul_policy (ul_step env ks e s)))"
proof -
  show "set (reserved (ul_pool s)) \<subseteq> set (reserved (ul_pool (ul_step env ks e s)))"
    by (cases e) (auto simp: reserved_def Let_def reserve_begin_def reserve_turn_def next_ip_def triggerGatewayRefresh_def gateway_refreshed_def
        goLive_def disable_def arm_both_def arm_def armAllowlist_def on_learn_def dest: reserve_record_frame(6)
        split: prod.splits option.splits reserve_stage.splits teardown.splits)
  show "set (dynamicSnapshot (ul_policy s)) \<subseteq> set (dynamicSnapshot (ul_policy (ul_step env ks e s)))"
    by (cases e) (auto simp: dynamicSnapshot_def Let_def reserve_begin_def reserve_turn_def next_ip_def learn_def on_learn_def
        arm_both_def arm_def armAllowlist_def split: prod.splits option.splits reserve_stage.splits teardown.splits if_splits)
qed

lemma late_sets_grow:
  "set (reserved (ul_pool s)) \<subseteq> set (reserved (ul_pool (ul_run env ks es s)))
   \<and> set (dynamicSnapshot (ul_policy s)) \<subseteq> set (dynamicSnapshot (ul_policy (ul_run env ks es s)))"
  by (induction es arbitrary: s) (use late_sets_grow_step in \<open>simp, fastforce simp del: ul_step.simps\<close>)

definition plain_env :: split_env where
  "plain_env = \<lparr>se_ip6 = \<lambda>_. None, se_cidr6 = \<lambda>_. None, se_string6 = \<lambda>_. [], se_net6 = \<lambda>_ _. [], se_low = \<lambda>s. s,
     se_eqf = \<lambda>_ _. False, se_lookupHost = \<lambda>_. None, se_question = \<lambda>_. None, se_answers = \<lambda>_. None\<rparr>"

definition demo_bypass :: bypassPolicy where
  "demo_bypass = newBypassPolicy plain_env ''exclude'' [''198.51.100.0/24'', ''example.org'', ''192.0.2'']"

definition demo_late :: "underlay_event list" where
  "demo_late = [Reserve 1 ''192.0.2.1:443'', GoLive no_gateway, Learn (A4 3405803777), Arm [''203.0.113.9''] True,
     Reserve 2 ''192.0.2.2:443'', Turn 2, Turn 2]"

lemma demo_late_state:
  "pe_routesLive (ul_pool (ul_run plain_env True demo_late (no_underlay demo_bypass)))"
  "\<not> pe_closed (ul_pool (ul_run plain_env True demo_late (no_underlay demo_bypass)))"
  "reserved (ul_pool (ul_run plain_env True demo_late (no_underlay demo_bypass))) = [''192.0.2.1'', ''192.0.2.2'']"
  "bp_dynamic demo_bypass = []" "bp_problems demo_bypass = [(''192.0.2'', ReasonNotHostName)]"
  by code_simp+

lemma demo_late_learned:
  "dynamicSnapshot (ul_policy (ul_run plain_env True (demo_late @ [OnLearn 0]) (no_underlay demo_bypass))) = [''203.0.113.1'']"
  "ul_learns (ul_run plain_env True (demo_late @ [OnLearn 0]) (no_underlay demo_bypass)) = []"
  "pe_routesLive (ul_pool (ul_run plain_env True (demo_late @ [OnLearn 0]) (no_underlay demo_bypass)))"
  "\<not> pe_closed (ul_pool (ul_run plain_env True (demo_late @ [OnLearn 0]) (no_underlay demo_bypass)))"
  "reserved (ul_pool (ul_run plain_env True (demo_late @ [OnLearn 0]) (no_underlay demo_bypass))) = [''192.0.2.1'', ''192.0.2.2'']"
  by code_simp+

theorem late_addresses_never_lost_witness:
  "\<exists>s. s = ul_run plain_env True (demo_late @ [OnLearn 0]) (no_underlay demo_bypass)
    \<and> set (reserved (ul_pool s)) = {''192.0.2.1'', ''192.0.2.2''}
    \<and> (\<forall>ip \<in> set (reserved (ul_pool s)).
        ensureCIDR plain_env ip \<in> dom (ul_routes s) \<or> (\<exists>t r. ul_dials s t = Some r \<and> ip \<in> uninstalled r))
    \<and> ensureCIDR plain_env ''203.0.113.1'' \<in> dom (ul_routes s)"
proof -
  have "RemoveBypass \<notin> set (demo_late @ [OnLearn 0])" by (simp add: demo_late_def)
  with late_addresses_never_lost [OF demo_late_state(4) refl demo_late_learned(3,4)] demo_late_learned(1,2,5)
  show ?thesis by simp
qed

definition demo_teardown :: "underlay_event list" where
  "demo_teardown = [Reserve 1 ''192.0.2.1:443'', GoLive no_gateway, Reserve 2 ''192.0.2.2:443'', Turn 2, Disable, SnapReserved,
     RemoveReserved, Turn 2, Turn 2, Turn 2]"

lemma demo_teardown_state:
  "ul_teardown (ul_run plain_env True demo_teardown (no_underlay demo_bypass)) = Cleared"
  "dynamicSnapshot (ul_policy (ul_run plain_env True demo_teardown (no_underlay demo_bypass))) = []"
  by code_simp+

lemma dials_other:
  assumes "\<forall>adr. e \<noteq> Reserve t adr" "e \<noteq> Turn t"
  shows "ul_dials (ul_step env ks e s) t = ul_dials s t"
proof (cases "(env, ks, e, s)" rule: ul_step.cases)
  case (1 env ks t' adr s)
  then show ?thesis using assms by (cases env t' adr s rule: reserve_begin_cases) simp_all
next
  case (2 env ks t' s)
  then show ?thesis
    using assms by (auto simp: reserve_turn_def next_ip_def Let_def split: option.split reserve_stage.split)
next
  case (4 env ks ip s)
  then show ?thesis by (cases env ks ip s rule: learn_cases) simp_all
qed (auto simp: arm_both_eq split: teardown.split)

lemma dials_run_other:
  "list_all (\<lambda>e. (\<forall>adr. e \<noteq> Reserve t adr) \<and> e \<noteq> Turn t) es \<Longrightarrow> ul_dials (ul_run env ks es s) t = ul_dials s t"
  by (induction es arbitrary: s) (simp_all add: dials_other del: ul_step.simps)

theorem pool_teardown_complete_witness:
  "dom (ul_routes (ul_run plain_env True demo_teardown (no_underlay demo_bypass))) \<subseteq> {}"
proof -
  let ?s = "ul_run plain_env True demo_teardown (no_underlay demo_bypass)"
  have one: "ul_dials ?s 1 = None" and two: "ul_dials ?s 2 = None" by code_simp+
  have "ul_dials ?s t = None" for t
  proof (cases "t = 1 \<or> t = 2")
    case False
    then have "list_all (\<lambda>e. (\<forall>adr. e \<noteq> Reserve t adr) \<and> e \<noteq> Turn t) demo_teardown" by (simp add: demo_teardown_def)
    from dials_run_other [OF this] show ?thesis by (simp add: no_underlay_def)
  qed (use one two in auto)
  then have "ul_dials ?s = Map.empty" by (rule ext)
  from pool_teardown_complete [OF demo_late_state(4) refl demo_teardown_state(1) this] show ?thesis
    by (simp add: demo_teardown_state(2))
qed

definition demo_orphan :: "underlay_event list" where
  "demo_orphan = [GoLive no_gateway, Arm [] True, Learn (A4 3405803777), Lift, Disable, SnapReserved, RemoveReserved, RemoveBypass]"

text \<open>The learned addresses have no such protection: an address learned from a DNS answer that is still
  between the lock and its callback when the tunnel removes the routes of the bypass list gets its route
  around the tunnel afterwards, when the client is done removing routes. (On Linux the helper deletes what
  an earlier tunnel left in its table when it opens the next one.)\<close>

lemma learned_route_outlives_tunnel:
  "let closed = ul_run plain_env True demo_orphan (no_underlay demo_bypass); after = ul_step plain_env True (OnLearn 0) closed
   in ul_teardown closed = Cleared \<and> ul_routes closed ''203.0.113.1/32'' = None
    \<and> ul_learns after = [] \<and> ul_routes after ''203.0.113.1/32'' = Some (ViaGateway no_gateway)"
  unfolding Let_def by (intro conjI; code_simp)

end
