(* ===== verification/Netd.thy ===== *)
theory Netd
  imports Nft Text
begin

text \<open>
  The privileged network helper \<open>cmd/bacchus-netd\<close>: the framing and checks of \<open>netdwire\<close>, the session
  and every request handler of \<open>server.go\<close>, the DNS capture of \<open>dns.go\<close> and the operations of
  \<open>rtnetlink.go\<close>, over a record of the kernel state they change. Each system call has an outcome given
  from outside: done, failed, or done although it reported a failure. Connections are served one request
  at a time, in any interleaving. A Go panic ends the helper; the state in the kernel stays.
\<close>

section \<open>The wire (netdwire)\<close>

definition netd_Version :: int where "netd_Version = 2"
definition netd_MaxFrame :: nat where "netd_MaxFrame = 65536"
definition netd_MaxList :: nat where "netd_MaxList = 512"

datatype netd_code =
  CodeBadRequest | CodeUnknownVerb | CodeVersion | CodeNoSession | CodeBadToken | CodeBusy | CodeDenied | CodeInternal

record netd_request =
  rq_Version :: int
  rq_Verb :: string
  rq_Token :: string
  rq_Prefixes :: "string list"
  rq_Control :: "string list"
  rq_Bypass :: "string list"
  rq_Addr :: string
  rq_PrefixLen :: int
  rq_IP :: string

definition netd_frameBytes :: "bytes \<Rightarrow> bytes option" where
  "netd_frameBytes body = (if length body > netd_MaxFrame then None else Some (put_uint32 (word_of_nat (length body)) @ body))"

datatype frame_error = FrameShort | FrameTooLarge | FrameCode netd_code

text \<open>The body of the first frame of a stream, with the rest of the stream; a stream that ends early is the end of
  the connection.\<close>

definition netd_readFrame :: "bytes \<Rightarrow> frame_error + bytes \<times> bytes" where
  "netd_readFrame b =
     (if length b < 4 then Inl FrameShort
      else
        (let n = unat (get_uint32 (take 4 b))
         in if n > netd_MaxFrame then Inl FrameTooLarge
            else if length b < 4 + n then Inl FrameShort
            else Inr (take n (drop 4 b), drop (4 + n) b)))"

definition netd_validate :: "netd_request \<Rightarrow> netd_code option" where
  "netd_validate r =
     (if rq_Version r \<noteq> netd_Version then Some CodeVersion
      else if rq_Verb r = [] then Some CodeBadRequest
      else if list_ex (\<lambda>l. length l > netd_MaxList) [rq_Prefixes r, rq_Control r, rq_Bypass r] then Some CodeBadRequest
      else None)"

text \<open>\<open>decode\<close> is the strict JSON decoder.\<close>

definition netd_ReadRequest :: "(bytes \<Rightarrow> netd_request option) \<Rightarrow> bytes \<Rightarrow> frame_error + netd_request \<times> bytes" where
  "netd_ReadRequest decode b =
     (case netd_readFrame b of
        Inl e \<Rightarrow> Inl e
      | Inr (body, rest) \<Rightarrow>
          (case decode body of
             None \<Rightarrow> Inl (FrameCode CodeBadRequest)
           | Some r \<Rightarrow> (case netd_validate r of Some c \<Rightarrow> Inl (FrameCode c) | None \<Rightarrow> Inr (r, rest))))"

lemma frame_round_trip:
  assumes "netd_frameBytes body = Some f"
  shows "netd_readFrame (f @ rest) = Inr (body, rest)"
proof -
  have len: "length body \<le> netd_MaxFrame" and f: "f = put_uint32 (word_of_nat (length body)) @ body"
    using assms by (auto simp: netd_frameBytes_def split: if_splits)
  have "unat (word_of_nat (length body) :: uint32) = length body"
    using len by (simp add: netd_MaxFrame_def unat_of_nat)
  then show ?thesis using len by (simp add: netd_readFrame_def f Let_def)
qed

section \<open>Session and kernel\<close>

record netd_gateway =
  gw_NextHop :: addr
  gw_IfIndex :: int
  gw_IfName :: string
  gw_NextHopV6 :: addr

record dns_state =
  dn_captured :: bool
  dn_viaResolved :: bool
  dn_tunIndex :: int
  dn_physIndex :: int
  dn_physDefaultRoute :: bool
  dn_resolvWasSymlink :: bool
  dn_resolvTarget :: string
  dn_resolvContent :: "bytes option"
  dn_resolvMode :: nat

definition no_dns :: dns_state where
  "no_dns = \<lparr>dn_captured = False, dn_viaResolved = False, dn_tunIndex = 0, dn_physIndex = 0, dn_physDefaultRoute = False,
     dn_resolvWasSymlink = False, dn_resolvTarget = [], dn_resolvContent = None, dn_resolvMode = 0\<rparr>"

record netd_session =
  nd_token :: string
  nd_uid :: uint32
  nd_tunIndex :: int
  nd_tunAddr :: addr
  nd_gw :: "netd_gateway option"
  nd_ipv6For :: string
  nd_ipv6Was :: string
  nd_dns :: dns_state
  nd_killSwitchArmed :: bool
  nd_servedSrc :: addr

definition new_session :: "string \<Rightarrow> uint32 \<Rightarrow> netd_session" where
  "new_session tok uid = \<lparr>nd_token = tok, nd_uid = uid, nd_tunIndex = 0, nd_tunAddr = NoAddr, nd_gw = None, nd_ipv6For = [],
     nd_ipv6Was = [], nd_dns = no_dns, nd_killSwitchArmed = False, nd_servedSrc = NoAddr\<rparr>"

record route_spec =
  rs_Gateway :: addr
  rs_OutIface :: int

datatype resolv_file = ResolvMissing | ResolvLink string | ResolvFile bytes nat

record link_dns =
  ld_servers :: "addr list"
  ld_routeAll :: bool
  ld_defaultRoute :: bool

text \<open>The helper's own nftables table and routing table, its two fib rules and the served rule, the IPv6 switch of
  each interface, the addresses and the state of links, the file \<open>/etc/resolv.conf\<close> and what the resolver
  holds for each link.\<close>

record kernel =
  k_nft :: "nft_table option"
  k_routes :: "prefix \<rightharpoonup> route_spec"
  k_fib4 :: bool
  k_fib6 :: bool
  k_served :: "(addr \<times> uint32) option"
  k_ipv6 :: "string \<rightharpoonup> string"
  k_addrs :: "(int \<times> addr \<times> int) set"
  k_up :: "int set"
  k_resolv :: resolv_file
  k_link :: "int \<Rightarrow> link_dns"

datatype call_outcome = Done | NotDone | Lost

datatype sys_op =
    DialNft | DialNetlink | TableExists | DeleteStale | Arm | DeleteHalf | DeleteTable | SetElem | DelElem
  | ListRoutes | AddRoute prefix | DelRoute prefix | FibAdd | FibDel4 | FibDel6 | ServedAdd | ServedDel | ServedReap
  | AddAddr | LinkUp | ReadIPv6 | WriteIPv6
  | LstatResolv | ReadResolv | ReplaceResolv | RemoveResolv | SymlinkResolv
  | SetLinkDNS | SetLinkDomains | GetDefaultRoute | SetDefaultRoute | RevertLink

record route_msg =
  rm_dstLen :: nat
  rm_table :: nat
  rm_gw :: addr
  rm_oif :: int
  rm_metric :: uint32

text \<open>What the system answers while one request is served.\<close>

record sys =
  sy_outcome :: "sys_op \<Rightarrow> call_outcome"
  sy_routes4 :: "route_msg list option"
  sy_routes6 :: "route_msg list option"
  sy_ifname :: "int \<Rightarrow> string option"
  sy_ifaddrs :: "int \<Rightarrow> addr list option"
  sy_tun :: "int option"
  sy_lo :: "int option"
  sy_token :: "string option"
  sy_resolved :: bool
  sy_sent :: bool

record netd_env =
  ne_parseAddr :: "string \<Rightarrow> addr option"
  ne_parsePrefix :: "string \<Rightarrow> prefix option"
  ne_addrString :: "addr \<Rightarrow> string"

text \<open>A call that changes the kernel: whether it reported success, and the kernel after it.\<close>

definition perform :: "sys \<Rightarrow> sys_op \<Rightarrow> (kernel \<Rightarrow> kernel) \<Rightarrow> kernel \<Rightarrow> bool \<times> kernel" where
  "perform sys op f k = (case sy_outcome sys op of Done \<Rightarrow> (True, f k) | NotDone \<Rightarrow> (False, k) | Lost \<Rightarrow> (False, f k))"

datatype batch_result = BatchOk | BatchErrno nft_errno | BatchFailed

definition nft_batch :: "sys \<Rightarrow> sys_op \<Rightarrow> nft_msg list \<Rightarrow> kernel \<Rightarrow> batch_result \<times> kernel" where
  "nft_batch sys op msgs k =
     (if msgs = [] then (BatchOk, k)
      else case sy_outcome sys op of
        NotDone \<Rightarrow> (BatchFailed, k)
      | oc \<Rightarrow>
          (case nft_apply_all msgs (k_nft k) of
             Inl e \<Rightarrow> (if oc = Done then BatchErrno e else BatchFailed, k)
           | Inr t \<Rightarrow> (if oc = Done then BatchOk else BatchFailed, k\<lparr>k_nft := t\<rparr>)))"

definition deleteTable :: "sys \<Rightarrow> sys_op \<Rightarrow> kernel \<Rightarrow> bool \<times> kernel" where
  "deleteTable sys op k =
     (case nft_batch sys op [DelTable] k of
        (BatchOk, k') \<Rightarrow> (True, k')
      | (BatchErrno ENOENT, k') \<Rightarrow> (True, k')
      | (BatchFailed, k') \<Rightarrow> (False, k'))"

definition tableExists :: "sys \<Rightarrow> kernel \<Rightarrow> bool option" where
  "tableExists sys k = (if sy_outcome sys TableExists = Done then Some (case k_nft k of None \<Rightarrow> False | Some t \<Rightarrow> True) else None)"

definition ok :: "sys \<Rightarrow> sys_op \<Rightarrow> bool" where
  "ok sys op \<longleftrightarrow> sy_outcome sys op = Done"

section \<open>Routes and links (rtnetlink.go)\<close>

definition netlink_do :: "sys \<Rightarrow> (kernel \<Rightarrow> bool \<times> kernel) \<Rightarrow> kernel \<Rightarrow> bool \<times> kernel" where
  "netlink_do sys f k = (if ok sys DialNetlink then f k else (False, k))"

definition addRoute :: "sys \<Rightarrow> prefix \<Rightarrow> route_spec \<Rightarrow> kernel \<Rightarrow> bool \<times> kernel" where
  "addRoute sys p r = perform sys (AddRoute p) (\<lambda>k. k\<lparr>k_routes := (k_routes k)(p \<mapsto> r)\<rparr>)"

definition delRoute :: "sys \<Rightarrow> prefix \<Rightarrow> kernel \<Rightarrow> bool \<times> kernel" where
  "delRoute sys p = perform sys (DelRoute p) (\<lambda>k. k\<lparr>k_routes := (k_routes k)(p := None)\<rparr>)"

fun addRoutes :: "sys \<Rightarrow> route_spec \<Rightarrow> prefix list \<Rightarrow> kernel \<Rightarrow> kernel" where
  "addRoutes sys r [] k = k"
| "addRoutes sys r (p # ps) k = addRoutes sys r ps (snd (addRoute sys p r k))"

fun delRoutes :: "sys \<Rightarrow> prefix list \<Rightarrow> kernel \<Rightarrow> kernel" where
  "delRoutes sys [] k = k"
| "delRoutes sys (p # ps) k = delRoutes sys ps (snd (delRoute sys p k))"

definition RT_TABLE_MAIN :: nat where "RT_TABLE_MAIN = 254"

record default_route =
  df_gw :: addr
  df_oif :: int
  df_metric :: uint32

fun best_default :: "default_route option \<Rightarrow> route_msg list \<Rightarrow> default_route option" where
  "best_default best [] = best"
| "best_default best (m # ms) =
     best_default
       (if rm_dstLen m \<noteq> 0 \<or> rm_table m \<noteq> RT_TABLE_MAIN \<or> rm_gw m = NoAddr \<or> rm_oif m = 0 then best
        else case best of
          None \<Rightarrow> Some \<lparr>df_gw = rm_gw m, df_oif = rm_oif m, df_metric = rm_metric m\<rparr>
        | Some b \<Rightarrow> if rm_metric m < df_metric b then Some \<lparr>df_gw = rm_gw m, df_oif = rm_oif m, df_metric = rm_metric m\<rparr> else best)
       ms"

definition bestDefault :: "route_msg list option \<Rightarrow> default_route option" where
  "bestDefault dump = (case dump of None \<Rightarrow> None | Some ms \<Rightarrow> best_default None ms)"

definition defaultGateway :: "sys \<Rightarrow> netd_gateway option" where
  "defaultGateway sys =
     (case bestDefault (sy_routes4 sys) of
        None \<Rightarrow> None
      | Some v4 \<Rightarrow>
          (case sy_ifname sys (df_oif v4) of
             None \<Rightarrow> None
           | Some nm \<Rightarrow>
               Some \<lparr>gw_NextHop = df_gw v4, gw_IfIndex = df_oif v4, gw_IfName = nm,
                     gw_NextHopV6 = (case bestDefault (sy_routes6 sys) of
                                       Some v6 \<Rightarrow> if df_oif v6 = df_oif v4 then df_gw v6 else NoAddr
                                     | None \<Rightarrow> NoAddr)\<rparr>))"

definition physicalSource :: "sys \<Rightarrow> netd_gateway \<Rightarrow> addr option" where
  "physicalSource sys gw =
     (case sy_ifaddrs sys (gw_IfIndex gw) of
        None \<Rightarrow> None
      | Some as \<Rightarrow> List.find (\<lambda>a. Is4 a \<and> \<not> IsLinkLocalUnicast a \<and> \<not> IsLoopback a) (map Unmap as))"

section \<open>Parsing\<close>

definition parseHostOrPrefix :: "netd_env \<Rightarrow> string \<Rightarrow> (addr + prefix) option" where
  "parseHostOrPrefix env s =
     (let s = TrimSpace s
      in if s = [] then None
         else case ne_parseAddr env s of
           Some a \<Rightarrow> Some (Inl (Unmap a))
         | None \<Rightarrow> map_option (\<lambda>p. Inr (Masked p)) (ne_parsePrefix env s))"

fun PrefixFrom :: "addr \<Rightarrow> prefix option" where
  "PrefixFrom NoAddr = None"
| "PrefixFrom (A4 w) = Some (Prefix4 w 32)"
| "PrefixFrom (A6 w z) = Some (Prefix6 w 128)"

fun parsePrefixes :: "netd_env \<Rightarrow> bool \<Rightarrow> string list \<Rightarrow> prefix list option" where
  "parsePrefixes env wantV6 [] = Some []"
| "parsePrefixes env wantV6 (e # es) =
     (case parseHostOrPrefix env e of
        None \<Rightarrow> None
      | Some hp \<Rightarrow>
          (let p = (case hp of Inl a \<Rightarrow> PrefixFrom a | Inr p \<Rightarrow> Some p);
               rest = parsePrefixes env wantV6 es
           in case p of
                Some q \<Rightarrow> if Is6 (prefix_Addr q) \<noteq> wantV6 then rest else map_option ((#) q) rest
              | None \<Rightarrow> rest))"

text \<open>The allowlist of the kill switch: hosts and networks, in order.\<close>

fun parseAllow :: "netd_env \<Rightarrow> string list \<Rightarrow> (addr list \<times> prefix list) option" where
  "parseAllow env [] = Some ([], [])"
| "parseAllow env (e # es) =
     (case parseHostOrPrefix env e of
        None \<Rightarrow> None
      | Some hp \<Rightarrow>
          (case parseAllow env es of
             None \<Rightarrow> None
           | Some (hs, ns) \<Rightarrow> Some (case hp of Inl a \<Rightarrow> (a # hs, ns) | Inr p \<Rightarrow> (hs, p # ns))))"

text \<open>\<open>subtleCompare\<close> accumulates the differences of the bytes.\<close>

definition subtleCompare :: "string \<Rightarrow> string \<Rightarrow> bool" where
  "subtleCompare a b \<longleftrightarrow>
     length a = length b
     \<and> foldl (\<lambda>v (x, y). v OR (byte_of_char x XOR byte_of_char y)) 0 (zip a b) = (0 :: byte)"

lemma or_zero: "x OR y = 0 \<longleftrightarrow> x = 0 \<and> y = (0 :: 'a::len word)"
  by (auto simp: bit_eq_iff bit_or_iff)

lemma byte_of_char_inject: "byte_of_char c = byte_of_char d \<longleftrightarrow> c = d"
  by (metis char_of_byte_of_char)

lemma subtle_fold:
  "length a = length b \<Longrightarrow>
     foldl (\<lambda>v (x, y). v OR (byte_of_char x XOR byte_of_char y)) v (zip a b) = (0 :: byte) \<longleftrightarrow> v = 0 \<and> a = b"
  by (induction a b arbitrary: v rule: list_induct2) (auto simp: or_zero byte_of_char_inject)

lemma subtleCompare_iff [simp]: "subtleCompare a b \<longleftrightarrow> a = b"
  by (auto simp: subtleCompare_def subtle_fold)


section \<open>DNS (dns.go)\<close>

fun tunDNSSink :: "addr \<Rightarrow> addr" where
  "tunDNSSink (A4 w) = (let b = w AND NOT 255; l = (if w AND 255 = 53 then 54 else 53) in A4 (b OR l))"
| "tunDNSSink a = a"

definition captureViaResolved :: "sys \<Rightarrow> addr \<Rightarrow> netd_session \<Rightarrow> kernel \<Rightarrow> bool \<times> netd_session \<times> kernel" where
  "captureViaResolved sys sink s k =
     (let tun = nd_tunIndex s;
          (ok1, k1) = perform sys SetLinkDNS (\<lambda>k. k\<lparr>k_link := (k_link k)(tun := (k_link k tun)\<lparr>ld_servers := [sink]\<rparr>)\<rparr>) k
      in if \<not> ok1 then (False, s, k1)
         else
           (let (ok2, k2) = perform sys SetLinkDomains (\<lambda>k. k\<lparr>k_link := (k_link k)(tun := (k_link k tun)\<lparr>ld_routeAll := True\<rparr>)\<rparr>) k1
            in if \<not> ok2 then (False, s, k2)
               else
                 (let s1 = s\<lparr>nd_dns := (nd_dns s)\<lparr>dn_tunIndex := tun, dn_viaResolved := True, dn_captured := True\<rparr>\<rparr>
                  in case nd_gw s of
                       None \<Rightarrow> (True, s1, k2)
                     | Some gw \<Rightarrow>
                         if gw_IfIndex gw \<le> 0 then (True, s1, k2)
                         else
                           (let phys = gw_IfIndex gw;
                                prior = (if ok sys GetDefaultRoute then ld_defaultRoute (k_link k2 phys) else True);
                                (ok3, k3) = perform sys SetDefaultRoute
                                  (\<lambda>k. k\<lparr>k_link := (k_link k)(phys := (k_link k phys)\<lparr>ld_defaultRoute := False\<rparr>)\<rparr>) k2
                            in if \<not> ok3 then (True, s1, k3)
                               else (True, s1\<lparr>nd_dns := (nd_dns s1)\<lparr>dn_physIndex := phys, dn_physDefaultRoute := prior\<rparr>\<rparr>, k3)))))"

definition resolv_body :: "netd_env \<Rightarrow> addr \<Rightarrow> bytes" where
  "resolv_body env sink = bytes_of_string (''# Written by bacchus-netd while the tunnel is up.'' @ [CHR 0x0A]
     @ ''# The previous configuration is restored when it goes down, including'' @ [CHR 0x0A]
     @ ''# if this client crashes. See ADR-0051.'' @ [CHR 0x0A] @ ''nameserver '' @ ne_addrString env sink @ [CHR 0x0A])"

definition resolv_mode :: nat where "resolv_mode = 420"

definition captureViaResolvConf :: "netd_env \<Rightarrow> sys \<Rightarrow> addr \<Rightarrow> netd_session \<Rightarrow> kernel \<Rightarrow> bool \<times> netd_session \<times> kernel" where
  "captureViaResolvConf env sys sink s k =
     (let d = nd_dns s;
          noted =
            (if \<not> ok sys LstatResolv then None
             else case k_resolv k of
               ResolvLink target \<Rightarrow> if ok sys ReadResolv then Some (d\<lparr>dn_resolvWasSymlink := True, dn_resolvTarget := target\<rparr>) else None
             | ResolvFile content mode \<Rightarrow>
                 if ok sys ReadResolv then Some (d\<lparr>dn_resolvContent := Some content, dn_resolvMode := mode\<rparr>) else None
             | ResolvMissing \<Rightarrow> Some d)
      in case noted of
           None \<Rightarrow> (False, s, k)
         | Some d1 \<Rightarrow>
             (let (okr, k1) = perform sys ReplaceResolv (\<lambda>k. k\<lparr>k_resolv := ResolvFile (resolv_body env sink) resolv_mode\<rparr>) k
              in if \<not> okr then (False, s\<lparr>nd_dns := d1\<rparr>, k1)
                 else (True, s\<lparr>nd_dns := d1\<lparr>dn_captured := True\<rparr>\<rparr>, k1)))"

definition captureDNS :: "netd_env \<Rightarrow> sys \<Rightarrow> netd_session \<Rightarrow> kernel \<Rightarrow> bool \<times> netd_session \<times> kernel" where
  "captureDNS env sys s k =
     (if dn_captured (nd_dns s) then (True, s, k)
      else if nd_tunIndex s = 0 \<or> nd_tunAddr s = NoAddr then (False, s, k)
      else if sy_resolved sys then captureViaResolved sys (tunDNSSink (nd_tunAddr s)) s k
      else captureViaResolvConf env sys (tunDNSSink (nd_tunAddr s)) s k)"

definition releaseViaResolved :: "sys \<Rightarrow> dns_state \<Rightarrow> kernel \<Rightarrow> kernel" where
  "releaseViaResolved sys d k =
     (if \<not> sy_resolved sys then k
      else
        (let phys = dn_physIndex d; tun = dn_tunIndex d;
             k1 = (if phys > 0
                   then snd (perform sys SetDefaultRoute
                     (\<lambda>k. k\<lparr>k_link := (k_link k)(phys := (k_link k phys)\<lparr>ld_defaultRoute := dn_physDefaultRoute d\<rparr>)\<rparr>) k)
                   else k)
         in if tun > 0
            then snd (perform sys RevertLink
              (\<lambda>k. k\<lparr>k_link := (k_link k)(tun := \<lparr>ld_servers = [], ld_routeAll = False, ld_defaultRoute = ld_defaultRoute (k_link k tun)\<rparr>)\<rparr>) k1)
            else k1))"

definition releaseViaResolvConf :: "sys \<Rightarrow> dns_state \<Rightarrow> kernel \<Rightarrow> kernel" where
  "releaseViaResolvConf sys d k =
     (if dn_resolvWasSymlink d
      then (let (okr, k1) = perform sys RemoveResolv (\<lambda>k. k\<lparr>k_resolv := ResolvMissing\<rparr>) k
            in if \<not> okr then k1
               else snd (perform sys SymlinkResolv (\<lambda>k. k\<lparr>k_resolv := ResolvLink (dn_resolvTarget d)\<rparr>) k1))
      else case dn_resolvContent d of
        Some content \<Rightarrow>
          snd (perform sys ReplaceResolv
            (\<lambda>k. k\<lparr>k_resolv := ResolvFile content (if dn_resolvMode d = 0 then resolv_mode else dn_resolvMode d)\<rparr>) k)
      | None \<Rightarrow> snd (perform sys RemoveResolv (\<lambda>k. k\<lparr>k_resolv := ResolvMissing\<rparr>) k))"

definition releaseDNS :: "sys \<Rightarrow> netd_session \<Rightarrow> kernel \<Rightarrow> netd_session \<times> kernel" where
  "releaseDNS sys s k =
     (if \<not> dn_captured (nd_dns s) then (s, k)
      else (s\<lparr>nd_dns := no_dns\<rparr>,
            if dn_viaResolved (nd_dns s) then releaseViaResolved sys (nd_dns s) k else releaseViaResolvConf sys (nd_dns s) k))"


section \<open>Handlers (server.go)\<close>

datatype netd_reply =
  ReplyOk | ReplyFail netd_code | ReplyToken string | ReplyGateway netd_gateway | ReplyTUN | ReplyServed string

text \<open>Every route of the helper's table that the kernel lists with a destination; a default route has none.\<close>

definition reap_routes :: "sys \<Rightarrow> (prefix \<rightharpoonup> route_spec) \<Rightarrow> (prefix \<rightharpoonup> route_spec)" where
  "reap_routes sys routes p = (if prefix_Bits p \<noteq> 0 \<and> sy_outcome sys (DelRoute p) \<noteq> NotDone then None else routes p)"

definition reapRoutes :: "sys \<Rightarrow> kernel \<Rightarrow> kernel" where
  "reapRoutes sys k =
     (if ok sys DialNetlink \<and> ok sys ListRoutes
      then (let k1 = k\<lparr>k_routes := reap_routes sys (k_routes k)\<rparr>;
                k2 = snd (perform sys FibDel4 (\<lambda>k. k\<lparr>k_fib4 := False\<rparr>) k1);
                k3 = snd (perform sys FibDel6 (\<lambda>k. k\<lparr>k_fib6 := False\<rparr>) k2)
            in snd (perform sys ServedReap (\<lambda>k. k\<lparr>k_served := None\<rparr>) k3))
      else k)"

definition restoreIPv6 :: "sys \<Rightarrow> string \<Rightarrow> string \<Rightarrow> kernel \<Rightarrow> kernel" where
  "restoreIPv6 sys name was k =
     (if name = [] then k else snd (perform sys WriteIPv6 (\<lambda>k. k\<lparr>k_ipv6 := (k_ipv6 k)(name \<mapsto> was)\<rparr>) k))"

definition revokeServedEgress :: "sys \<Rightarrow> netd_session \<Rightarrow> kernel \<Rightarrow> netd_session \<times> kernel" where
  "revokeServedEgress sys s k =
     (let src = nd_servedSrc s; s1 = s\<lparr>nd_servedSrc := NoAddr\<rparr>
      in if src = NoAddr then (s1, k)
         else
           (let k1 = snd (netlink_do sys (perform sys ServedDel (\<lambda>k. k\<lparr>k_served := None\<rparr>)) k)
            in if \<not> ok sys DialNft then (s1, k1)
               else (s1, snd (nft_batch sys DelElem (revokeServedEgress_msgs src) k1))))"

definition reapOrphan :: "sys \<Rightarrow> kernel \<Rightarrow> kernel" where
  "reapOrphan sys k =
     reapRoutes sys (if ok sys DialNft \<and> tableExists sys k = Some True then snd (deleteTable sys DeleteStale k) else k)"

definition handleDefaultGateway :: "sys \<Rightarrow> netd_session \<Rightarrow> netd_reply \<times> netd_session" where
  "handleDefaultGateway sys s =
     (if \<not> ok sys DialNetlink then (ReplyFail CodeInternal, s)
      else case defaultGateway sys of
        None \<Rightarrow> (ReplyFail CodeInternal, s)
      | Some gw \<Rightarrow> (ReplyGateway gw, s\<lparr>nd_gw := Some gw\<rparr>))"

definition installRoutes :: "sys \<Rightarrow> prefix list \<Rightarrow> route_spec \<Rightarrow> kernel \<Rightarrow> kernel" where
  "installRoutes sys ps r k = (if ok sys DialNetlink then addRoutes sys r ps k else k)"

definition handleExclusionRoutes :: "netd_env \<Rightarrow> sys \<Rightarrow> bool \<Rightarrow> netd_request \<Rightarrow> netd_session \<Rightarrow> kernel \<Rightarrow> netd_reply \<times> kernel" where
  "handleExclusionRoutes env sys v6 req s k =
     (case nd_gw s of
        None \<Rightarrow> (ReplyFail CodeBadRequest, k)
      | Some gw \<Rightarrow>
          if v6 \<and> gw_NextHopV6 gw = NoAddr then (ReplyOk, k)
          else case parsePrefixes env v6 (rq_Prefixes req) of
            None \<Rightarrow> (ReplyFail CodeBadRequest, k)
          | Some ps \<Rightarrow>
              (ReplyOk, installRoutes sys ps
                 \<lparr>rs_Gateway = (if v6 then gw_NextHopV6 gw else gw_NextHop gw), rs_OutIface = gw_IfIndex gw\<rparr> k))"

definition handleInclusionRoutes :: "netd_env \<Rightarrow> sys \<Rightarrow> netd_request \<Rightarrow> netd_session \<Rightarrow> kernel \<Rightarrow> netd_reply \<times> kernel" where
  "handleInclusionRoutes env sys req s k =
     (if nd_tunIndex s = 0 then (ReplyFail CodeBadRequest, k)
      else case parsePrefixes env False (rq_Prefixes req) of
        None \<Rightarrow> (ReplyFail CodeBadRequest, k)
      | Some ps \<Rightarrow> (ReplyOk, installRoutes sys ps \<lparr>rs_Gateway = NoAddr, rs_OutIface = nd_tunIndex s\<rparr> k))"

definition handleRemoveRoutes :: "netd_env \<Rightarrow> sys \<Rightarrow> netd_request \<Rightarrow> kernel \<Rightarrow> netd_reply \<times> kernel" where
  "handleRemoveRoutes env sys req k =
     (case parsePrefixes env False (rq_Prefixes req) of
        None \<Rightarrow> (ReplyFail CodeBadRequest, k)
      | Some ps \<Rightarrow>
          (let qs = (case parsePrefixes env True (rq_Prefixes req) of None \<Rightarrow> ps | Some v6 \<Rightarrow> ps @ v6)
           in (ReplyOk, if ok sys DialNetlink then delRoutes sys qs k else k)))"

text \<open>The flag returned last tells whether the connection is dropped.\<close>

definition handleCreateTUN :: "sys \<Rightarrow> netd_session \<Rightarrow> netd_reply \<times> netd_session \<times> bool" where
  "handleCreateTUN sys s =
     (case sy_tun sys of
        None \<Rightarrow> (ReplyFail CodeInternal, s, False)
      | Some i \<Rightarrow> (ReplyTUN, s\<lparr>nd_tunIndex := i\<rparr>, \<not> sy_sent sys))"

definition handleConfigureTUN ::
    "netd_env \<Rightarrow> sys \<Rightarrow> netd_request \<Rightarrow> netd_session \<Rightarrow> kernel \<Rightarrow> netd_reply \<times> netd_session \<times> kernel" where
  "handleConfigureTUN env sys req s k =
     (let tun = nd_tunIndex s
      in if tun = 0 then (ReplyFail CodeBadRequest, s, k)
         else case ne_parseAddr env (rq_Addr req) of
           None \<Rightarrow> (ReplyFail CodeBadRequest, s, k)
         | Some a \<Rightarrow>
             if \<not> Is4 a \<or> rq_PrefixLen req < 0 \<or> rq_PrefixLen req > 32 then (ReplyFail CodeBadRequest, s, k)
             else if \<not> ok sys DialNetlink then (ReplyFail CodeInternal, s, k)
             else
               (let (ok1, k1) = perform sys AddAddr (\<lambda>k. k\<lparr>k_addrs := insert (tun, a, rq_PrefixLen req) (k_addrs k)\<rparr>) k
                in if \<not> ok1 then (ReplyFail CodeInternal, s, k1)
                   else
                     (let (ok2, k2) = perform sys LinkUp (\<lambda>k. k\<lparr>k_up := insert tun (k_up k)\<rparr>) k1
                      in if \<not> ok2 then (ReplyFail CodeInternal, s, k2)
                         else
                           (let (ok3, k3) = perform sys FibAdd (\<lambda>k. k\<lparr>k_fib4 := True\<rparr>) k2
                            in if \<not> ok3 then (ReplyFail CodeInternal, s, k3) else (ReplyOk, s\<lparr>nd_tunAddr := a\<rparr>, k3)))))"

definition handleSplitDefaultRoute :: "netd_env \<Rightarrow> sys \<Rightarrow> netd_request \<Rightarrow> netd_session \<Rightarrow> kernel \<Rightarrow> netd_reply \<times> kernel" where
  "handleSplitDefaultRoute env sys req s k =
     (if nd_tunIndex s = 0 \<or> nd_tunAddr s = NoAddr then (ReplyFail CodeBadRequest, k)
      else if ne_parseAddr env (rq_Addr req) \<noteq> Some (nd_tunAddr s) then (ReplyFail CodeBadRequest, k)
      else if \<not> ok sys DialNetlink then (ReplyFail CodeInternal, k)
      else
        (let r = \<lparr>rs_Gateway = NoAddr, rs_OutIface = nd_tunIndex s\<rparr>;
             (ok1, k1) = addRoute sys (Prefix4 0 1) r k
         in if \<not> ok1 then (ReplyFail CodeInternal, k1)
            else (let (ok2, k2) = addRoute sys (Prefix4 0x80000000 1) r k1
                  in (if ok2 then ReplyOk else ReplyFail CodeInternal, k2))))"


definition handleDisableIPv6 :: "sys \<Rightarrow> netd_session \<Rightarrow> kernel \<Rightarrow> netd_session \<times> kernel" where
  "handleDisableIPv6 sys s k =
     (case nd_gw s of
        None \<Rightarrow> (s, k)
      | Some gw \<Rightarrow>
          (case (if ok sys ReadIPv6 then k_ipv6 k (gw_IfName gw) else None) of
             None \<Rightarrow> (s, k)
           | Some prior \<Rightarrow>
               (let (okw, k1) = perform sys WriteIPv6 (\<lambda>k. k\<lparr>k_ipv6 := (k_ipv6 k)(gw_IfName gw \<mapsto> ''1'')\<rparr>) k
                in if \<not> okw then (s, k1)
                   else (if nd_ipv6For s = [] then s\<lparr>nd_ipv6For := gw_IfName gw, nd_ipv6Was := prior\<rparr> else s, k1))))"

definition handleEnableIPv6 :: "sys \<Rightarrow> netd_session \<Rightarrow> kernel \<Rightarrow> netd_session \<times> kernel" where
  "handleEnableIPv6 sys s k =
     (s\<lparr>nd_ipv6For := [], nd_ipv6Was := []\<rparr>, restoreIPv6 sys (nd_ipv6For s) (nd_ipv6Was s) k)"

text \<open>The result of a handler that may panic: \<open>None\<close> for the reply is a panic.\<close>

definition handleEnableKillSwitch ::
    "netd_env \<Rightarrow> sys \<Rightarrow> netd_request \<Rightarrow> netd_session \<Rightarrow> kernel \<Rightarrow> netd_reply option \<times> netd_session \<times> kernel" where
  "handleEnableKillSwitch env sys req s k =
     (if nd_tunIndex s = 0 then (Some (ReplyFail CodeBadRequest), s, k)
      else case sy_lo sys of
        None \<Rightarrow> (Some (ReplyFail CodeInternal), s, k)
      | Some lo \<Rightarrow>
          (case parseAllow env (rq_Control req @ rq_Bypass req) of
             None \<Rightarrow> (Some (ReplyFail CodeBadRequest), s, k)
           | Some (hosts, nets) \<Rightarrow>
               if \<not> ok sys DialNft then (Some (ReplyFail CodeInternal), s, k)
               else
                 (let spec = \<lparr>ks_TunIfIndex = word_of_int (nd_tunIndex s), ks_LoIfIndex = word_of_int lo, ks_Hosts = hosts,
                              ks_Nets = nets @ [Prefix4 0x7F000000 8], ks_ServedSrc = nd_servedSrc s\<rparr>;
                      k1 = (if tableExists sys k = Some True then snd (deleteTable sys DeleteStale k) else k)
                  in case enableKillSwitch spec of
                       None \<Rightarrow> (None, s, k1)
                     | Some msgs \<Rightarrow>
                         (case nft_batch sys Arm msgs k1 of
                            (BatchOk, k2) \<Rightarrow> (Some ReplyOk, s\<lparr>nd_killSwitchArmed := True\<rparr>, k2)
                          | (_, k2) \<Rightarrow> (Some (ReplyFail CodeInternal), s, snd (deleteTable sys DeleteHalf k2))))))"

definition handleDisableKillSwitch :: "sys \<Rightarrow> netd_session \<Rightarrow> kernel \<Rightarrow> netd_session \<times> kernel" where
  "handleDisableKillSwitch sys s k =
     (if \<not> ok sys DialNft then (s, k) else (s\<lparr>nd_killSwitchArmed := False\<rparr>, snd (deleteTable sys DeleteTable k)))"

definition handleRecoverKillSwitch :: "sys \<Rightarrow> netd_session option \<Rightarrow> kernel \<Rightarrow> kernel" where
  "handleRecoverKillSwitch sys sess k =
     (if \<not> ok sys DialNft \<or> tableExists sys k \<noteq> Some True then k
      else if (case sess of None \<Rightarrow> False | Some s \<Rightarrow> nd_killSwitchArmed s) then k
      else reapRoutes sys (snd (deleteTable sys DeleteStale k)))"

definition handleRefreshAllowIP :: "netd_env \<Rightarrow> sys \<Rightarrow> netd_request \<Rightarrow> netd_session \<Rightarrow> kernel \<Rightarrow> netd_reply \<times> kernel" where
  "handleRefreshAllowIP env sys req s k =
     (if \<not> nd_killSwitchArmed s then (ReplyOk, k)
      else case ne_parseAddr env (rq_IP req) of
        None \<Rightarrow> (ReplyFail CodeBadRequest, k)
      | Some a \<Rightarrow>
          if \<not> Is4 a then (ReplyFail CodeBadRequest, k)
          else if \<not> ok sys DialNft then (ReplyOk, k)
          else (ReplyOk, snd (nft_batch sys SetElem (refreshAllowIP_msgs a) k)))"

definition handleAllowServedEgress ::
    "netd_env \<Rightarrow> sys \<Rightarrow> netd_session \<Rightarrow> kernel \<Rightarrow> netd_reply \<times> netd_session \<times> kernel" where
  "handleAllowServedEgress env sys s k =
     (if nd_killSwitchArmed s then (ReplyFail CodeBadRequest, s, k)
      else if \<not> ok sys DialNetlink then (ReplyFail CodeInternal, s, k)
      else case defaultGateway sys of
        None \<Rightarrow> (ReplyFail CodeInternal, s, k)
      | Some gw \<Rightarrow>
          (case physicalSource sys gw of
             None \<Rightarrow> (ReplyFail CodeInternal, s, k)
           | Some src \<Rightarrow>
               (let (oka, k1) = perform sys ServedAdd (\<lambda>k. k\<lparr>k_served := Some (src, nd_uid s)\<rparr>) k
                in if oka then (ReplyServed (ne_addrString env src), s\<lparr>nd_servedSrc := src\<rparr>, k1)
                   else (ReplyFail CodeInternal, s, k1))))"

definition handleCaptureDNS :: "netd_env \<Rightarrow> sys \<Rightarrow> netd_session \<Rightarrow> kernel \<Rightarrow> netd_reply \<times> netd_session \<times> kernel" where
  "handleCaptureDNS env sys s k =
     (let (okc, s', k') = captureDNS env sys s k in (if okc then ReplyOk else ReplyFail CodeInternal, s', k'))"

definition handleReleaseDNS :: "sys \<Rightarrow> netd_session \<Rightarrow> kernel \<Rightarrow> netd_session \<times> kernel" where
  "handleReleaseDNS sys s k = releaseDNS sys s k"

definition handleRevokeServedEgress :: "sys \<Rightarrow> netd_session \<Rightarrow> kernel \<Rightarrow> netd_session \<times> kernel" where
  "handleRevokeServedEgress sys s k = revokeServedEgress sys s k"

section \<open>Requests and connections\<close>

definition VerbOpen :: string where "VerbOpen = ''open''"
definition VerbClose :: string where "VerbClose = ''close''"
definition VerbDefaultGateway :: string where "VerbDefaultGateway = ''default-gateway''"
definition VerbAddExclusionRoutes :: string where "VerbAddExclusionRoutes = ''add-exclusion-routes''"
definition VerbAddExclusionRoutesV6 :: string where "VerbAddExclusionRoutesV6 = ''add-exclusion-routes-v6''"
definition VerbAddInclusionRoutes :: string where "VerbAddInclusionRoutes = ''add-inclusion-routes''"
definition VerbRemoveRoutes :: string where "VerbRemoveRoutes = ''remove-routes''"
definition VerbCreateTUN :: string where "VerbCreateTUN = ''create-tun''"
definition VerbConfigureTUN :: string where "VerbConfigureTUN = ''configure-tun''"
definition VerbAddSplitDefaultRoute :: string where "VerbAddSplitDefaultRoute = ''add-split-default-route''"
definition VerbDisablePhysicalIPv6 :: string where "VerbDisablePhysicalIPv6 = ''disable-physical-ipv6''"
definition VerbEnablePhysicalIPv6 :: string where "VerbEnablePhysicalIPv6 = ''enable-physical-ipv6''"
definition VerbEnableKillSwitch :: string where "VerbEnableKillSwitch = ''enable-kill-switch''"
definition VerbDisableKillSwitch :: string where "VerbDisableKillSwitch = ''disable-kill-switch''"
definition VerbRecoverKillSwitch :: string where "VerbRecoverKillSwitch = ''recover-kill-switch''"
definition VerbRefreshAllowIP :: string where "VerbRefreshAllowIP = ''refresh-kill-switch-allow-ip''"
definition VerbCaptureDNS :: string where "VerbCaptureDNS = ''capture-dns''"
definition VerbReleaseDNS :: string where "VerbReleaseDNS = ''release-dns''"
definition VerbAllowServedEgress :: string where "VerbAllowServedEgress = ''allow-served-egress''"
definition VerbRevokeServedEgress :: string where "VerbRevokeServedEgress = ''revoke-served-egress''"

lemmas verb_defs = VerbOpen_def VerbClose_def VerbDefaultGateway_def VerbAddExclusionRoutes_def VerbAddExclusionRoutesV6_def
  VerbAddInclusionRoutes_def VerbRemoveRoutes_def VerbCreateTUN_def VerbConfigureTUN_def VerbAddSplitDefaultRoute_def
  VerbDisablePhysicalIPv6_def VerbEnablePhysicalIPv6_def VerbEnableKillSwitch_def VerbDisableKillSwitch_def
  VerbRecoverKillSwitch_def VerbRefreshAllowIP_def VerbCaptureDNS_def VerbReleaseDNS_def VerbAllowServedEgress_def
  VerbRevokeServedEgress_def

text \<open>A verb of the open session: reply, session, kernel, and whether the connection is dropped.\<close>

definition session_verb ::
    "netd_env \<Rightarrow> sys \<Rightarrow> netd_request \<Rightarrow> netd_session \<Rightarrow> kernel \<Rightarrow> netd_reply option \<times> netd_session \<times> kernel \<times> bool" where
  "session_verb env sys req s k =
     (let v = rq_Verb req; keep = (\<lambda>(r, k'). (Some r, s, k', False)); all = (\<lambda>(r, s', k'). (Some r, s', k', False));
          silent = (\<lambda>(s', k'). (Some ReplyOk, s', k', False))
      in if v = VerbDefaultGateway then (let (r, s') = handleDefaultGateway sys s in (Some r, s', k, False))
         else if v = VerbAddExclusionRoutes then keep (handleExclusionRoutes env sys False req s k)
         else if v = VerbAddExclusionRoutesV6 then keep (handleExclusionRoutes env sys True req s k)
         else if v = VerbAddInclusionRoutes then keep (handleInclusionRoutes env sys req s k)
         else if v = VerbRemoveRoutes then keep (handleRemoveRoutes env sys req k)
         else if v = VerbCreateTUN then (let (r, s', dropped) = handleCreateTUN sys s in (Some r, s', k, dropped))
         else if v = VerbConfigureTUN then all (handleConfigureTUN env sys req s k)
         else if v = VerbAddSplitDefaultRoute then keep (handleSplitDefaultRoute env sys req s k)
         else if v = VerbDisablePhysicalIPv6 then silent (handleDisableIPv6 sys s k)
         else if v = VerbEnablePhysicalIPv6 then silent (handleEnableIPv6 sys s k)
         else if v = VerbEnableKillSwitch then (let (r, s', k') = handleEnableKillSwitch env sys req s k in (r, s', k', False))
         else if v = VerbDisableKillSwitch then silent (handleDisableKillSwitch sys s k)
         else if v = VerbRecoverKillSwitch then (Some ReplyOk, s, handleRecoverKillSwitch sys (Some s) k, False)
         else if v = VerbRefreshAllowIP then keep (handleRefreshAllowIP env sys req s k)
         else if v = VerbCaptureDNS then all (handleCaptureDNS env sys s k)
         else if v = VerbReleaseDNS then silent (handleReleaseDNS sys s k)
         else if v = VerbAllowServedEgress then all (handleAllowServedEgress env sys s k)
         else if v = VerbRevokeServedEgress then silent (handleRevokeServedEgress sys s k)
         else (Some (ReplyFail CodeUnknownVerb), s, k, False))"

definition authorize :: "netd_request \<Rightarrow> netd_session option \<Rightarrow> netd_code + netd_session" where
  "authorize req sess =
     (case sess of
        None \<Rightarrow> Inl CodeNoSession
      | Some s \<Rightarrow>
          if rq_Token req = [] then Inl CodeBadToken
          else if \<not> subtleCompare (rq_Token req) (nd_token s) then Inl CodeBadToken
          else Inr s)"

definition handleOpen :: "sys \<Rightarrow> uint32 \<Rightarrow> netd_session option \<Rightarrow> kernel \<Rightarrow> netd_reply \<times> netd_session option \<times> kernel" where
  "handleOpen sys uid sess k =
     (case sess of
        Some s \<Rightarrow> (ReplyFail CodeBusy, Some s, k)
      | None \<Rightarrow>
          (let k1 = reapOrphan sys k
           in case sy_token sys of
                None \<Rightarrow> (ReplyFail CodeInternal, None, k1)
              | Some tok \<Rightarrow> (ReplyToken tok, Some (new_session tok uid), k1)))"

definition handleClose :: "sys \<Rightarrow> netd_request \<Rightarrow> netd_session option \<Rightarrow> kernel \<Rightarrow> netd_reply \<times> netd_session option \<times> kernel" where
  "handleClose sys req sess k =
     (case sess of
        None \<Rightarrow> (ReplyOk, None, k)
      | Some s \<Rightarrow>
          if \<not> subtleCompare (rq_Token req) (nd_token s) then (ReplyFail CodeBadToken, Some s, k)
          else (ReplyOk, None, snd (releaseDNS sys s k)))"

definition netd_dispatch ::
    "netd_env \<Rightarrow> sys \<Rightarrow> uint32 \<Rightarrow> netd_request \<Rightarrow> netd_session option \<Rightarrow> kernel
      \<Rightarrow> netd_reply option \<times> netd_session option \<times> kernel \<times> bool" where
  "netd_dispatch env sys uid req sess k =
     (if rq_Verb req = VerbOpen then (let (r, sess', k') = handleOpen sys uid sess k in (Some r, sess', k', \<not> sy_sent sys))
      else if rq_Verb req = VerbClose then (let (r, sess', k') = handleClose sys req sess k in (Some r, sess', k', \<not> sy_sent sys))
      else case authorize req sess of
        Inl code \<Rightarrow> (Some (ReplyFail code), sess, k, \<not> sy_sent sys)
      | Inr s \<Rightarrow> (let (r, s', k', dropped) = session_verb env sys req s k in (r, Some s', k', dropped \<or> \<not> sy_sent sys)))"

text \<open>The end of any connection the helper serves.\<close>

definition clientGone :: "sys \<Rightarrow> netd_session option \<Rightarrow> kernel \<Rightarrow> kernel" where
  "clientGone sys sess k =
     (case sess of
        None \<Rightarrow> k
      | Some s \<Rightarrow>
          (let (s1, k1) = releaseDNS sys s k; (s2, k2) = revokeServedEgress sys s1 k1
           in if nd_killSwitchArmed s2 then k2 else restoreIPv6 sys (nd_ipv6For s2) (nd_ipv6Was s2) (reapRoutes sys k2)))"


text \<open>\<open>logind\<close>'s file of a user: \<open>None\<close> is an error, and so a question without an answer.\<close>

datatype user_file = UserMissing | UserUnreadable | UserFile string

fun state_line :: "string list \<Rightarrow> bool" where
  "state_line [] = False"
| "state_line (l # ls) =
     (if HasPrefix l ''STATE='' then TrimSpace (drop 6 l) \<in> {''active'', ''online''} else state_line ls)"

definition uidHasActiveSession :: "bool \<Rightarrow> user_file \<Rightarrow> bool option" where
  "uidHasActiveSession logind f =
     (if \<not> logind then None
      else case f of
        UserMissing \<Rightarrow> Some False
      | UserUnreadable \<Rightarrow> None
      | UserFile content \<Rightarrow> Some (state_line (split_on (CHR 0x0A) content)))"

definition checkPeer :: "bool \<Rightarrow> bool option \<Rightarrow> bool" where
  "checkPeer allowNoLogin active = (case active of None \<Rightarrow> allowNoLogin | Some b \<Rightarrow> b)"

record helper =
  hp_allowNoLogin :: bool
  hp_alive :: bool
  hp_conns :: "nat \<rightharpoonup> uint32"
  hp_sess :: "netd_session option"
  hp_kernel :: kernel

text \<open>A connection is accepted or refused, sends a well-formed or a malformed request, or ends; the helper is
  started again by its supervisor.\<close>

datatype netd_event =
    Connect nat uint32 "bool option"
  | Request nat netd_request sys
  | Malformed nat
  | Ended nat sys
  | Restart

fun netd_step :: "netd_env \<Rightarrow> netd_event \<Rightarrow> helper \<Rightarrow> helper" where
  "netd_step env (Connect c uid active) h =
     (if hp_alive h \<and> hp_conns h c = None \<and> checkPeer (hp_allowNoLogin h) active
      then h\<lparr>hp_conns := (hp_conns h)(c \<mapsto> uid)\<rparr> else h)"
| "netd_step env (Request c req sys) h =
     (case (if hp_alive h \<and> netd_validate req = None then hp_conns h c else None) of
        None \<Rightarrow> h
      | Some uid \<Rightarrow>
          (let (r, sess, k, dropped) = netd_dispatch env sys uid req (hp_sess h) (hp_kernel h)
           in if r = None then h\<lparr>hp_alive := False, hp_conns := Map.empty, hp_sess := None, hp_kernel := k\<rparr>
              else if dropped
              then h\<lparr>hp_conns := (hp_conns h)(c := None), hp_sess := None, hp_kernel := clientGone sys sess k\<rparr>
              else h\<lparr>hp_sess := sess, hp_kernel := k\<rparr>))"
| "netd_step env (Malformed c) h = h"
| "netd_step env (Ended c sys) h =
     (if hp_alive h \<and> hp_conns h c \<noteq> None
      then h\<lparr>hp_conns := (hp_conns h)(c := None), hp_sess := None, hp_kernel := clientGone sys (hp_sess h) (hp_kernel h)\<rparr> else h)"
| "netd_step env Restart h = h\<lparr>hp_alive := True, hp_conns := Map.empty, hp_sess := None\<rparr>"

section \<open>Who can lift a lockdown\<close>

lemma perform_nft:
  assumes "\<And>k. k_nft (f k) = k_nft k"
  shows "k_nft (snd (perform sys op f k)) = k_nft k"
  using assms by (simp add: perform_def split: call_outcome.split)

lemma perform_nft_eq:
  assumes "perform sys op f k = (b, k')" and "\<And>k. k_nft (f k) = k_nft k"
  shows "k_nft k' = k_nft k"
  using perform_nft [OF assms(2)] assms(1) by (metis snd_conv)

lemma addRoutes_nft [simp]: "k_nft (addRoutes sys r ps k) = k_nft k"
  by (induction sys r ps k rule: addRoutes.induct) (auto simp: addRoute_def perform_nft)

lemma delRoutes_nft [simp]: "k_nft (delRoutes sys ps k) = k_nft k"
  by (induction sys ps k rule: delRoutes.induct) (auto simp: delRoute_def perform_nft)

lemma reapRoutes_nft [simp]: "k_nft (reapRoutes sys k) = k_nft k"
  by (simp add: reapRoutes_def Let_def perform_nft)

lemma restoreIPv6_nft [simp]: "k_nft (restoreIPv6 sys name was k) = k_nft k"
  by (simp add: restoreIPv6_def perform_nft)

lemma installRoutes_nft [simp]: "k_nft (installRoutes sys ps r k) = k_nft k"
  by (simp add: installRoutes_def)

lemma releaseDNS_nft [simp]: "k_nft (snd (releaseDNS sys s k)) = k_nft k"
  by (simp add: releaseDNS_def releaseViaResolved_def releaseViaResolvConf_def Let_def perform_nft split: option.split prod.split)
    (auto dest: perform_nft_eq)

lemma captureDNS_nft_eq: "captureDNS env sys s k = (b, s', k') \<Longrightarrow> k_nft k' = k_nft k"
  by (auto simp: captureDNS_def captureViaResolved_def captureViaResolvConf_def Let_def
      dest!: perform_nft_eq split: if_splits prod.splits option.splits resolv_file.splits)

lemma captureDNS_nft: "k_nft (snd (snd (captureDNS env sys s k))) = k_nft k"
  using captureDNS_nft_eq [of env sys s k] by (metis prod.collapse)


lemma apply_keeps_table:
  "nft_apply_all msgs t = Inr t' \<Longrightarrow> DelTable \<notin> set msgs \<Longrightarrow> t \<noteq> None \<Longrightarrow> t' \<noteq> None"
proof (induction msgs arbitrary: t)
  case (Cons m msgs)
  then obtain t1 where t1: "nft_apply m t = Inr t1" "nft_apply_all msgs t1 = Inr t'" by (auto split: sum.splits)
  have "t1 \<noteq> None" using t1(1) Cons.prems by (cases m; cases t) (auto split: option.splits if_splits)
  then show ?case using Cons t1(2) by simp
qed simp

lemma batch_keeps_table:
  "DelTable \<notin> set msgs \<Longrightarrow> k_nft k \<noteq> None \<Longrightarrow> k_nft (snd (nft_batch sys op msgs k)) \<noteq> None"
  using apply_keeps_table [of msgs "k_nft k"] by (auto simp: nft_batch_def split: call_outcome.splits sum.splits)

lemma elem_msgs [simp]: "DelTable \<notin> set (revokeServedEgress_msgs a)" "DelTable \<notin> set (refreshAllowIP_msgs a)"
  by (auto simp: revokeServedEgress_msgs_def refreshAllowIP_msgs_def opt_msg_def serveElemDelMsg_def setElemMsg_def Let_def)

lemma revokeServedEgress_keeps: "k_nft k \<noteq> None \<Longrightarrow> k_nft (snd (revokeServedEgress sys s k)) \<noteq> None"
proof -
  assume "k_nft k \<noteq> None"
  moreover have "k_nft (snd (netlink_do sys (perform sys ServedDel (\<lambda>k. k\<lparr>k_served := None\<rparr>)) k)) = k_nft k"
    by (simp add: netlink_do_def perform_nft)
  ultimately show ?thesis using batch_keeps_table [OF elem_msgs(1)] by (simp add: revokeServedEgress_def Let_def)
qed

lemma clientGone_keeps: "k_nft k \<noteq> None \<Longrightarrow> k_nft (clientGone sys sess k) \<noteq> None"
proof (cases sess)
  case (Some s)
  assume table: "k_nft k \<noteq> None"
  obtain s1 k1 where rel: "releaseDNS sys s k = (s1, k1)" by fastforce
  obtain s2 k2 where rev: "revokeServedEgress sys s1 k1 = (s2, k2)" by fastforce
  have "k_nft k1 \<noteq> None" using releaseDNS_nft [of sys s k] rel table by simp
  then have "k_nft k2 \<noteq> None" using revokeServedEgress_keeps [of k1 sys s1] rev by simp
  then show ?thesis using Some rel rev by (simp add: clientGone_def)
qed (simp add: clientGone_def)

text \<open>Which verbs of a session may take the table away.\<close>

definition lifting_verb :: "netd_request \<Rightarrow> netd_session \<Rightarrow> bool" where
  "lifting_verb req s \<longleftrightarrow> rq_Verb req \<in> {VerbEnableKillSwitch, VerbDisableKillSwitch}
     \<or> rq_Verb req = VerbRecoverKillSwitch \<and> \<not> nd_killSwitchArmed s"

lemma handlers_nft:
  "k_nft (snd (handleExclusionRoutes env sys v6 req s k)) = k_nft k"
  "k_nft (snd (handleInclusionRoutes env sys req s k)) = k_nft k"
  "k_nft (snd (handleRemoveRoutes env sys req k)) = k_nft k"
  "k_nft (snd (handleDisableIPv6 sys s k)) = k_nft k"
  "k_nft (snd (handleEnableIPv6 sys s k)) = k_nft k"
  by (auto simp: handleExclusionRoutes_def handleInclusionRoutes_def handleRemoveRoutes_def handleDisableIPv6_def handleEnableIPv6_def Let_def
      dest: perform_nft_eq split: option.splits prod.splits)

lemma handleConfigureTUN_nft: "k_nft (snd (snd (handleConfigureTUN env sys req s k))) = k_nft k"
  by (auto simp: handleConfigureTUN_def Let_def dest!: perform_nft_eq split: option.splits prod.splits)

lemma handleSplitDefaultRoute_nft: "k_nft (snd (handleSplitDefaultRoute env sys req s k)) = k_nft k"
  by (auto simp: handleSplitDefaultRoute_def Let_def addRoute_def dest!: perform_nft_eq split: prod.splits)

lemma handleAllowServedEgress_nft: "k_nft (snd (snd (handleAllowServedEgress env sys s k))) = k_nft k"
  by (auto simp: handleAllowServedEgress_def Let_def dest!: perform_nft_eq split: option.splits prod.splits)

lemma handleRefreshAllowIP_keeps: "k_nft k \<noteq> None \<Longrightarrow> k_nft (snd (handleRefreshAllowIP env sys req s k)) \<noteq> None"
  using batch_keeps_table [of _ k sys SetElem]
  by (auto simp: handleRefreshAllowIP_def simp del: not_None_eq split: option.splits)


lemma session_verb_lifts:
  assumes "session_verb env sys req s k = (r, s', k', dropped)" and "k_nft k \<noteq> None" and "\<not> lifting_verb req s"
  shows "k_nft k' \<noteq> None"
proof -
  have recover: "rq_Verb req = VerbRecoverKillSwitch \<Longrightarrow> k_nft (handleRecoverKillSwitch sys (Some s) k) = k_nft k"
    using assms(3) by (simp add: lifting_verb_def handleRecoverKillSwitch_def)
  have "k_nft k' = k_nft k \<or> k_nft k' = k_nft (snd (handleRefreshAllowIP env sys req s k)) \<or> k_nft k' = k_nft (snd (revokeServedEgress sys s k))"
    using assms(1,3) recover
    by (auto simp: session_verb_def lifting_verb_def handlers_nft handleConfigureTUN_nft handleSplitDefaultRoute_nft
        handleAllowServedEgress_nft captureDNS_nft handleCaptureDNS_def handleReleaseDNS_def handleRevokeServedEgress_def
        case_prod_beta Let_def split: if_splits)
  then show ?thesis
    using assms(2) handleRefreshAllowIP_keeps revokeServedEgress_keeps by metis
qed


definition lifting_event :: "netd_event \<Rightarrow> helper \<Rightarrow> bool" where
  "lifting_event ev h \<longleftrightarrow>
     (\<exists>c req sys. ev = Request c req sys \<and> hp_conns h c \<noteq> None
        \<and> (rq_Verb req = VerbOpen \<and> hp_sess h = None
           \<or> (\<exists>s. hp_sess h = Some s \<and> rq_Token req = nd_token s \<and> lifting_verb req s)))"

lemma netd_dispatch_lifts:
  assumes "netd_dispatch env sys uid req sess k = (r, sess', k', dropped)" and "k_nft k \<noteq> None" "k_nft k' = None"
  shows "rq_Verb req = VerbOpen \<and> sess = None \<or> (\<exists>s. sess = Some s \<and> rq_Token req = nd_token s \<and> lifting_verb req s)"
proof (cases "rq_Verb req = VerbOpen \<or> rq_Verb req = VerbClose")
  case True
  then show ?thesis using assms
    by (auto simp: netd_dispatch_def handleOpen_def handleClose_def Let_def verb_defs split: option.splits if_splits)
next
  case False
  then obtain s where s: "authorize req sess = Inr s"
    using assms by (cases "authorize req sess") (auto simp: netd_dispatch_def)
  then have sess: "sess = Some s" "rq_Token req = nd_token s" by (auto simp: authorize_def split: option.splits if_splits)
  obtain s1 d where "session_verb env sys req s k = (r, s1, k', d)"
    using assms(1) s False by (auto simp: netd_dispatch_def split: prod.splits)
  from session_verb_lifts [OF this assms(2)] assms(3) sess show ?thesis by blast
qed

lemma step_lifts:
  assumes "k_nft (hp_kernel h) \<noteq> None" and "k_nft (hp_kernel (netd_step env ev h)) = None"
  shows "lifting_event ev h"
proof (cases ev)
  case (Request c req sys)
  obtain uid where uid: "hp_conns h c = Some uid" "hp_alive h" "netd_validate req = None"
    using assms Request by (auto split: if_splits option.splits)
  obtain r sess k dropped where d: "netd_dispatch env sys uid req (hp_sess h) (hp_kernel h) = (r, sess, k, dropped)"
    by (metis prod.collapse)
  have "k_nft k = None"
  proof (rule ccontr)
    assume "k_nft k \<noteq> None"
    from this clientGone_keeps [OF this, of sys sess] show False using assms(2) by (auto simp: Request uid d split: if_splits)
  qed
  from netd_dispatch_lifts [OF d assms(1) this] show ?thesis using uid(1) by (auto simp: lifting_event_def Request)
next
  case (Ended c sys)
  then show ?thesis using assms clientGone_keeps [OF assms(1), of sys "hp_sess h"] by (auto split: if_splits)
qed (use assms in \<open>auto split: if_splits\<close>)

fun netd_run :: "netd_env \<Rightarrow> netd_event list \<Rightarrow> helper \<Rightarrow> helper" where
  "netd_run env [] h = h"
| "netd_run env (ev # evs) h = netd_run env evs (netd_step env ev h)"

text \<open>C13: A lockdown in force survives every run of the helper: disconnects, crashes and restarts of
  the helper, failing system calls, malformed and unauthorised requests. If it is gone at the end, an
  accepted connection lifted it on the way, by opening a session while none was open, or with the
  token of the open session by arming or lifting the kill switch, or by recovering while the session
  had none armed.\<close>

theorem lockdown_survives:
  assumes "k_nft (hp_kernel h) \<noteq> None" and "k_nft (hp_kernel (netd_run env evs h)) = None"
  shows "\<exists>before ev after. evs = before @ ev # after \<and> lifting_event ev (netd_run env before h)"
  using assms
proof (induction evs arbitrary: h)
  case (Cons ev evs)
  show ?case
  proof (cases "k_nft (hp_kernel (netd_step env ev h)) = None")
    case True
    from step_lifts [OF Cons.prems(1) this] show ?thesis by (metis append_Nil netd_run.simps(1))
  next
    case False
    then obtain before e after where "evs = before @ e # after" "lifting_event e (netd_run env before (netd_step env ev h))"
      using Cons.IH [OF False] Cons.prems(2) by auto
    then show ?thesis by (metis append_Cons netd_run.simps(2))
  qed
qed simp


section \<open>Runs\<close>

definition demo_env :: netd_env where
  "demo_env = \<lparr>ne_parseAddr = (\<lambda>s. if s = ''192.0.2.1'' then Some (A4 0xC0000201) else None),
     ne_parsePrefix = (\<lambda>s. if s = ''2001:db8::/32'' then Some (Prefix6 0x20010db8000000000000000000000000 32) else None),
     ne_addrString = (\<lambda>a. [])\<rparr>"

definition all_done :: sys where
  "all_done = \<lparr>sy_outcome = (\<lambda>op. Done), sy_routes4 = None, sy_routes6 = None, sy_ifname = (\<lambda>i. None), sy_ifaddrs = (\<lambda>i. None),
     sy_tun = Some 7, sy_lo = Some 1, sy_token = Some ''t'', sy_resolved = False, sy_sent = True\<rparr>"

definition demo_request :: "string \<Rightarrow> string \<Rightarrow> string list \<Rightarrow> netd_request" where
  "demo_request verb tok bypass = \<lparr>rq_Version = 2, rq_Verb = verb, rq_Token = tok, rq_Prefixes = [], rq_Control = [''192.0.2.1''],
     rq_Bypass = bypass, rq_Addr = [], rq_PrefixLen = 0, rq_IP = []\<rparr>"

definition idle_kernel :: kernel where
  "idle_kernel = \<lparr>k_nft = None, k_routes = Map.empty, k_fib4 = False, k_fib6 = False, k_served = None, k_ipv6 = Map.empty, k_addrs = {},
     k_up = {}, k_resolv = ResolvMissing, k_link = (\<lambda>i. \<lparr>ld_servers = [], ld_routeAll = False, ld_defaultRoute = True\<rparr>)\<rparr>"

definition fresh_helper :: helper where
  "fresh_helper = \<lparr>hp_allowNoLogin = False, hp_alive = True, hp_conns = Map.empty, hp_sess = None, hp_kernel = idle_kernel\<rparr>"

definition armed_run :: "netd_event list" where
  "armed_run = [Connect 1 1000 (Some True), Request 1 (demo_request VerbOpen [] []) all_done,
     Request 1 (demo_request VerbCreateTUN ''t'' []) all_done, Request 1 (demo_request VerbEnableKillSwitch ''t'' []) all_done]"

lemma armed_run_arms: "\<not> Option.is_none (k_nft (hp_kernel (netd_run demo_env armed_run fresh_helper)))"
  by code_simp


definition stranger_run :: "netd_event list" where
  "stranger_run = [Connect 2 1001 (Some True), Ended 2 all_done, Connect 3 1001 (Some True),
     Request 3 (demo_request VerbOpen [] []) (all_done\<lparr>sy_token := Some ''u''\<rparr>)]"

lemma stranger_run_lifts: "Option.is_none (k_nft (hp_kernel (netd_run demo_env (armed_run @ stranger_run) fresh_helper)))"
  by code_simp

lemma netd_run_append: "netd_run env (xs @ ys) h = netd_run env ys (netd_run env xs h)"
  by (induction xs arbitrary: h) auto

theorem lockdown_survives_witness:
  "\<exists>before ev after. stranger_run = before @ ev # after \<and> lifting_event ev (netd_run demo_env before (netd_run demo_env armed_run fresh_helper))"
proof (rule lockdown_survives)
  show "k_nft (hp_kernel (netd_run demo_env armed_run fresh_helper)) \<noteq> None"
    using armed_run_arms by (simp add: is_none_code(1) Option.is_none_def)
  show "k_nft (hp_kernel (netd_run demo_env stranger_run (netd_run demo_env armed_run fresh_helper))) = None"
    using stranger_run_lifts unfolding netd_run_append by (simp add: Option.is_none_def)
qed

text \<open>C38: The session is not tied to the connection that opened it: after one client has armed the kill
  switch, another local user connects and disconnects without sending anything, which ends the first
  client's session, and then opens a session of its own, which lifts the first client's lockdown, while
  the first client is still connected and has asked for nothing.\<close>

theorem stranger_lifts_lockdown:
  "let armed = netd_run demo_env armed_run fresh_helper; after = netd_run demo_env stranger_run armed
   in map_option nd_uid (hp_sess armed) = Some 1000 \<and> map_option nd_killSwitchArmed (hp_sess armed) = Some True \<and> k_nft (hp_kernel armed) \<noteq> None
    \<and> hp_conns after 1 = Some 1000 \<and> map_option nd_uid (hp_sess after) = Some 1001 \<and> k_nft (hp_kernel after) = None"
proof -
  have "map_option nd_uid (hp_sess (netd_run demo_env armed_run fresh_helper)) = Some 1000"
    "map_option nd_killSwitchArmed (hp_sess (netd_run demo_env armed_run fresh_helper)) = Some True"
    by code_simp+
  moreover have "hp_conns (netd_run demo_env (armed_run @ stranger_run) fresh_helper) 1 = Some 1000"
    "map_option nd_uid (hp_sess (netd_run demo_env (armed_run @ stranger_run) fresh_helper)) = Some 1001"
    by code_simp+
  ultimately show ?thesis
    using armed_run_arms stranger_run_lifts by (simp add: Let_def netd_run_append Option.is_none_def)
qed

text \<open>An IPv6 network in the allowlist of the kill switch is not refused: the helper removes the
  lockdown in force, panics while building the new one and dies, so the request leaves the machine with
  neither a lockdown nor a helper.\<close>

lemma v6_bypass_crashes_helper:
  "let armed = netd_run demo_env armed_run fresh_helper;
       crashed = netd_step demo_env (Request 1 (demo_request VerbEnableKillSwitch ''t'' [''2001:db8::/32'']) all_done) armed
   in k_nft (hp_kernel armed) \<noteq> None \<and> \<not> hp_alive crashed \<and> k_nft (hp_kernel crashed) = None"
proof -
  have "\<not> hp_alive (netd_step demo_env (Request 1 (demo_request VerbEnableKillSwitch ''t'' [''2001:db8::/32'']) all_done)
      (netd_run demo_env armed_run fresh_helper))"
    "Option.is_none (k_nft (hp_kernel (netd_step demo_env (Request 1 (demo_request VerbEnableKillSwitch ''t'' [''2001:db8::/32'']) all_done)
      (netd_run demo_env armed_run fresh_helper))))"
    by code_simp+
  then show ?thesis using armed_run_arms by (simp add: Let_def Option.is_none_def)
qed

end
