(* ===== verification/Tunnel.thy ===== *)
theory Tunnel
  imports Poolroutes Netd
begin

text \<open>
  Bring-up and teardown of the device-wide tunnel (\<open>clients/internal/enforcement/tunnel.go\<close>) over the
  primitives of \<open>osnet.go\<close>, and their Linux implementation (\<open>osnet_linux.go\<close>), which sends each of them to
  the network helper. A run of the bring-up is the sequence of primitive calls it makes with the answer of
  each call that can fail; what such a sequence does to the machine is a relation, since a call that reports
  failure may have taken effect, a call without an answer may not have, and a clean-up may fail. The sets that
  other goroutines may extend meanwhile are read at the points where the code reads them.
\<close>

section \<open>Primitives (osnet.go)\<close>

datatype os_call =
    DefaultGateway "gatewayInfo option"
  | AddExclusionRoutes "string list"
  | AddExclusionRoutesV6 "string list"
  | AddInclusionRoutes "string list"
  | RemoveRoutes "string list"
  | CreateTUN bool
  | CloseTUN
  | ConfigureTunInterface bool
  | AddSplitDefaultRoute bool
  | DisablePhysicalIPv6
  | EnablePhysicalIPv6
  | StartNetstack bool
  | CloseNetstack
  | CaptureDNS bool
  | ReleaseDNS
  | AllowServedEgress "string option"
  | RevokeServedEgress
  | EnableKillSwitch "string list" "string list" bool
  | DisableKillSwitch
  | DisableExcluder

record tunnel_config =
  tc_Coordinators :: "string list"
  tc_STUNURL :: string
  tc_TURNURL :: string
  tc_KillSwitch :: bool
  tc_ServeEgress :: bool

text \<open>The answers of the fallible primitives.\<close>

record os_answers =
  an_gateway :: "gatewayInfo option"
  an_createTUN :: bool
  an_configureTun :: bool
  an_splitDefault :: bool
  an_netstack :: bool
  an_captureDNS :: bool
  an_servedEgress :: "string option"
  an_killSwitch :: bool

text \<open>What the excluder holds when it goes live, when the lockdown is armed and when the routes are removed, and
  what the policy has learned at the last two.\<close>

record late_views =
  lv_poolLive :: "string list"
  lv_poolArm :: "string list"
  lv_poolUnwind :: "string list"
  lv_dynamicArm :: "string list"
  lv_dynamicUnwind :: "string list"

record tunnel =
  tn_gw :: gatewayInfo
  tn_excludedIPs :: "string list"
  tn_policy :: bypassPolicy
  tn_killSwitch :: bool
  tn_servedSource :: string

definition tunIP :: string where "tunIP = ''10.66.0.2''"

definition v4Address :: "split_env \<Rightarrow> string \<Rightarrow> 32 word option" where
  "v4Address env s = (case ParseIP env s of Some (A4 w) \<Rightarrow> Some w | _ \<Rightarrow> None)"

text \<open>\<open>excludeFn\<close>, as \<open>newPoolExcluder\<close> wires it.\<close>

definition exclude_calls :: "split_env \<Rightarrow> string list \<Rightarrow> os_call list" where
  "exclude_calls env ips = map (\<lambda>ip. if isIPv6Literal env ip then AddExclusionRoutesV6 [ip] else AddExclusionRoutes [ip]) ips"

definition seed_all :: "split_env \<Rightarrow> addr list \<Rightarrow> bypassPolicy \<Rightarrow> bypassPolicy" where
  "seed_all env ips p = fold (seed env) ips p"

section \<open>Bring-up and teardown (tunnel.go)\<close>

definition drop_bypass :: "split_env \<Rightarrow> bypassPolicy \<Rightarrow> late_views \<Rightarrow> os_call list" where
  "drop_bypass env p vw = [RemoveRoutes (staticEntries env p), RemoveRoutes (lv_dynamicUnwind vw)]"

text \<open>The last part of the bring-up, after the netstack runs: \<open>defers\<close> are the deferred clean-ups, the last
  one registered first.\<close>

definition arm_tunnel ::
    "split_env \<Rightarrow> tunnel_config \<Rightarrow> bypassPolicy \<Rightarrow> os_answers \<Rightarrow> late_views \<Rightarrow> gatewayInfo \<Rightarrow> string list
      \<Rightarrow> os_call list \<Rightarrow> os_call list \<Rightarrow> tunnel option \<times> os_call list" where
  "arm_tunnel env cfg p ans vw gw excluded calls defers =
     (let c1 = calls @ [CaptureDNS (an_captureDNS ans)]; d1 = ReleaseDNS # defers
      in if \<not> an_captureDNS ans then (None, c1 @ defers)
         else case (if tc_ServeEgress cfg then (case an_servedEgress ans of None \<Rightarrow> None | Some src \<Rightarrow> Some (src, c1 @ [AllowServedEgress (Some src)], RevokeServedEgress # d1))
                    else Some ([], c1, d1)) of
           None \<Rightarrow> (None, c1 @ [AllowServedEgress None] @ d1)
         | Some (src, c2, d2) \<Rightarrow>
             (let tn = \<lparr>tn_gw = gw, tn_excludedIPs = excluded, tn_policy = p, tn_killSwitch = tc_KillSwitch cfg, tn_servedSource = src\<rparr>
              in if tc_KillSwitch cfg
                 then (let c3 = c2 @ [EnableKillSwitch (excluded @ lv_poolArm vw) (staticEntries env p @ lv_dynamicArm vw) (an_killSwitch ans)]
                       in if an_killSwitch ans then (Some tn, c3) else (None, c3 @ d2))
                 else (Some tn, c2)))"

definition startTunnel ::
    "split_env \<Rightarrow> tunnel_config \<Rightarrow> bypassPolicy \<Rightarrow> os_answers \<Rightarrow> late_views \<Rightarrow> tunnel option \<times> os_call list" where
  "startTunnel env cfg policy ans vw =
     (case an_gateway ans of
        None \<Rightarrow> (None, [DefaultGateway None])
      | Some gw \<Rightarrow>
          (let excluded = resolveExclusions env [] (tc_Coordinators cfg @ [tc_STUNURL cfg, tc_TURNURL cfg]);
               p = seed_all env (fst (resolveDomains env (bp_domains policy))) policy;
               bypassEntries = staticEntries env p @ dynamicSnapshot p;
               excl = (bp_mode p \<noteq> modeInclude);
               c1 = [DefaultGateway (Some gw), AddExclusionRoutes excluded] @ exclude_calls env (lv_poolLive vw)
                    @ (if excl then [AddExclusionRoutes bypassEntries] else []);
               d1 = (if excl then drop_bypass env p vw else [])
                    @ [DisableExcluder, RemoveRoutes (lv_poolUnwind vw), RemoveRoutes excluded];
               c2 = c1 @ [CreateTUN (an_createTUN ans)]
           in if \<not> an_createTUN ans then (None, c2 @ d1)
              else
                (let d2 = CloseTUN # d1; c3 = c2 @ [ConfigureTunInterface (an_configureTun ans)]
                 in if \<not> an_configureTun ans then (None, c3 @ d2)
                    else
                      (let (okay, c4, d4) =
                         (if excl then (an_splitDefault ans, c3 @ [AddSplitDefaultRoute (an_splitDefault ans)], d2)
                          else (True, c3 @ [AddInclusionRoutes bypassEntries], drop_bypass env p vw @ d2))
                       in if \<not> okay then (None, c4 @ d4)
                          else
                            (let c5 = c4 @ [DisablePhysicalIPv6]; d5 = EnablePhysicalIPv6 # d4
                             in case v4Address env tunIP of
                                  None \<Rightarrow> (None, c5 @ d5)
                                | Some _ \<Rightarrow>
                                    if \<not> an_netstack ans then (None, c5 @ [StartNetstack False] @ d5)
                                    else arm_tunnel env cfg p ans vw gw excluded (c5 @ [StartNetstack True]) (CloseNetstack # d5))))))"

definition tunnel_Close :: "split_env \<Rightarrow> tunnel \<Rightarrow> late_views \<Rightarrow> os_call list" where
  "tunnel_Close env t vw =
     (if tn_servedSource t \<noteq> [] then [RevokeServedEgress] else [])
     @ (if tn_killSwitch t then [DisableKillSwitch] else [])
     @ [ReleaseDNS, CloseNetstack, CloseTUN, EnablePhysicalIPv6, RemoveRoutes (tn_excludedIPs t), DisableExcluder,
        RemoveRoutes (lv_poolUnwind vw), RemoveRoutes (staticEntries env (tn_policy t)), RemoveRoutes (lv_dynamicUnwind vw)]"

section \<open>What a sequence of calls does to the machine\<close>

text \<open>What a call sets up: routes via the gateway, routes bound to the TUN device, which go with it, the device,
  its configuration (its address, and on Linux the helper's routing rule), IPv6 switched off, the netstack,
  the captured resolver, the rule for served egress, the lockdown with its two allowlists.\<close>

datatype resource =
    GatewayRoute string | DeviceRoute string | Device | DeviceConfig | NoIPv6 | Netstack | Resolver | ServedRule
  | Lockdown "string list" "string list"

definition split_default :: "string set" where
  "split_default = {''0.0.0.0/1'', ''128.0.0.0/1''}"

text \<open>What a call sets up and what it takes away when it takes effect. Closing the device takes its routes along,
  but not the configuration: on Linux the rule stays until the helper opens its next session.\<close>

fun gives :: "split_env \<Rightarrow> os_call \<Rightarrow> resource set" where
  "gives env (AddExclusionRoutes ps) = GatewayRoute ` ensureCIDR env ` set ps"
| "gives env (AddExclusionRoutesV6 ps) = GatewayRoute ` ensureCIDR env ` set ps"
| "gives env (AddInclusionRoutes ps) = DeviceRoute ` ensureCIDR env ` set ps"
| "gives env (CreateTUN b) = {Device}"
| "gives env (ConfigureTunInterface b) = {DeviceConfig}"
| "gives env (AddSplitDefaultRoute b) = DeviceRoute ` split_default"
| "gives env DisablePhysicalIPv6 = {NoIPv6}"
| "gives env (StartNetstack b) = {Netstack}"
| "gives env (CaptureDNS b) = {Resolver}"
| "gives env (AllowServedEgress src) = {ServedRule}"
| "gives env (EnableKillSwitch control bypass b) = {Lockdown control bypass}"
| "gives env _ = {}"

fun takes :: "split_env \<Rightarrow> os_call \<Rightarrow> resource set" where
  "takes env (RemoveRoutes ps) = GatewayRoute ` ensureCIDR env ` set ps \<union> DeviceRoute ` ensureCIDR env ` set ps"
| "takes env CloseTUN = insert Device (range DeviceRoute)"
| "takes env EnablePhysicalIPv6 = {NoIPv6}"
| "takes env CloseNetstack = {Netstack}"
| "takes env ReleaseDNS = {Resolver}"
| "takes env RevokeServedEgress = {ServedRule}"
| "takes env DisableKillSwitch = {r. \<exists>control bypass. r = Lockdown control bypass}"
| "takes env _ = {}"

text \<open>The answer of a call was a failure; and a call that sets something up and has no answer.\<close>

fun refused :: "os_call \<Rightarrow> bool" where
  "refused (DefaultGateway g) \<longleftrightarrow> g = None"
| "refused (CreateTUN b) \<longleftrightarrow> \<not> b"
| "refused (ConfigureTunInterface b) \<longleftrightarrow> \<not> b"
| "refused (AddSplitDefaultRoute b) \<longleftrightarrow> \<not> b"
| "refused (StartNetstack b) \<longleftrightarrow> \<not> b"
| "refused (CaptureDNS b) \<longleftrightarrow> \<not> b"
| "refused (AllowServedEgress src) \<longleftrightarrow> src = None"
| "refused (EnableKillSwitch control bypass b) \<longleftrightarrow> \<not> b"
| "refused _ \<longleftrightarrow> False"

fun best_effort :: "os_call \<Rightarrow> bool" where
  "best_effort (AddExclusionRoutes ps) \<longleftrightarrow> True"
| "best_effort (AddExclusionRoutesV6 ps) \<longleftrightarrow> True"
| "best_effort (AddInclusionRoutes ps) \<longleftrightarrow> True"
| "best_effort DisablePhysicalIPv6 \<longleftrightarrow> True"
| "best_effort _ \<longleftrightarrow> False"

text \<open>
  One call: it takes effect; or it was refused, or has no answer, and took effect in part, in full or not at
  all; or it is one of the clean-ups \<open>F\<close> that may fail, and removed only part of what it should.
\<close>

inductive os_step :: "split_env \<Rightarrow> os_call set \<Rightarrow> os_call \<Rightarrow> resource set \<Rightarrow> resource set \<Rightarrow> bool"
  for env :: split_env and F :: "os_call set" where
  effective: "\<not> refused c \<Longrightarrow> os_step env F c m (m - takes env c \<union> gives env c)"
| partly: "refused c \<or> best_effort c \<Longrightarrow> m \<subseteq> m' \<Longrightarrow> m' \<subseteq> m \<union> gives env c \<Longrightarrow> os_step env F c m m'"
| stuck: "c \<in> F \<Longrightarrow> gives env c = {} \<Longrightarrow> m - takes env c \<subseteq> m' \<Longrightarrow> m' \<subseteq> m \<Longrightarrow> os_step env F c m m'"

inductive os_run :: "split_env \<Rightarrow> os_call set \<Rightarrow> os_call list \<Rightarrow> resource set \<Rightarrow> resource set \<Rightarrow> bool"
  for env :: split_env and F :: "os_call set" where
  none: "os_run env F [] m m"
| more: "os_step env F c m m1 \<Longrightarrow> os_run env F cs m1 m2 \<Longrightarrow> os_run env F (c # cs) m m2"

inductive_cases os_run_NilE: "os_run env F [] m m'"
inductive_cases os_run_ConsE: "os_run env F (c # cs) m m'"

text \<open>An upper bound of every run, and a lower one where nothing is taken away.\<close>

lemma takes_of_fallible: "refused c \<or> best_effort c \<Longrightarrow> takes env c = {}"
  by (cases c) auto

lemma os_step_bound:
  assumes "os_step env F c m m'" and "m \<subseteq> n \<union> \<Union> (takes env ` F)"
  shows "m' \<subseteq> (n - takes env c \<union> gives env c) \<union> \<Union> (takes env ` F)"
  using assms
proof cases
  case partly
  then show ?thesis using assms(2) takes_of_fallible [of c env] by blast
qed blast+

lemma os_run_bound:
  "os_run env F cs m m' \<Longrightarrow> m \<subseteq> n \<union> \<Union> (takes env ` F) \<Longrightarrow>
    m' \<subseteq> fold (\<lambda>c m. m - takes env c \<union> gives env c) cs n \<union> \<Union> (takes env ` F)"
proof (induction arbitrary: n rule: os_run.induct)
  case (more c m m1 cs m2)
  from more.IH [OF os_step_bound [OF more(1,4)]] show ?case by simp
qed simp

lemma fold_sets_up: "(\<forall>c \<in> set cs. takes env c = {}) \<Longrightarrow>
    fold (\<lambda>c m. m - takes env c \<union> gives env c) cs n = n \<union> \<Union> (gives env ` set cs)"
  by (induction cs arbitrary: n) auto

lemma fold_takes_down: "(\<forall>c \<in> set cs. gives env c = {}) \<Longrightarrow>
    fold (\<lambda>c m. m - takes env c \<union> gives env c) cs n = n - \<Union> (takes env ` set cs)"
  by (induction cs arbitrary: n) auto

lemma os_run_sets_up:
  assumes "os_run env F cs {} m" and "\<forall>c \<in> set cs. takes env c = {}"
  shows "m \<subseteq> \<Union> (gives env ` set cs) \<union> \<Union> (takes env ` F)"
  using os_run_bound [OF assms(1), of "{}"] unfolding fold_sets_up [OF assms(2)] by blast

lemma os_run_takes_down:
  assumes "os_run env F cs m m'" and "\<forall>c \<in> set cs. gives env c = {}" and "m \<subseteq> n \<union> \<Union> (takes env ` F)"
  shows "m' \<subseteq> (n - \<Union> (takes env ` set cs)) \<union> \<Union> (takes env ` F)"
  using os_run_bound [OF assms(1,3)] unfolding fold_takes_down [OF assms(2)] .

lemma os_run_append: "os_run env F (cs @ ds) m m' \<Longrightarrow> \<exists>m1. os_run env F cs m m1 \<and> os_run env F ds m1 m'"
  by (induction cs arbitrary: m) (auto elim!: os_run_ConsE intro: os_run.intros, blast intro: os_run.intros)

lemma os_step_keeps: "os_step env F c m m' \<Longrightarrow> takes env c = {} \<Longrightarrow> m \<subseteq> m'"
  by (induction rule: os_step.induct) auto

lemma os_run_keeps: "os_run env F cs m m' \<Longrightarrow> (\<forall>c \<in> set cs. takes env c = {}) \<Longrightarrow> m \<subseteq> m'"
  by (induction rule: os_run.induct) (use os_step_keeps in \<open>simp, fastforce\<close>)

lemma os_step_gives: "os_step env F c m m' \<Longrightarrow> \<not> refused c \<Longrightarrow> \<not> best_effort c \<Longrightarrow> gives env c \<subseteq> m'"
  by (induction rule: os_step.induct) auto

lemma os_run_gives:
  "os_run env F cs m m' \<Longrightarrow> (\<forall>c \<in> set cs. takes env c = {}) \<Longrightarrow> c \<in> set cs \<Longrightarrow> \<not> refused c \<Longrightarrow> \<not> best_effort c \<Longrightarrow>
    gives env c \<subseteq> m'"
proof (induction rule: os_run.induct)
  case (more d m m1 cs m2)
  then show ?case using os_step_gives [of env F d m m1] os_run_keeps [of env F cs m1 m2] by auto
qed simp

lemma quiet_run:
  "os_run env F cs m (fold (\<lambda>c m. if refused c then m else m - takes env c \<union> gives env c) cs m)"
proof (induction cs arbitrary: m)
  case (Cons c cs)
  have "os_step env F c m (if refused c then m else m - takes env c \<union> gives env c)"
    by (auto intro: os_step.effective os_step.partly)
  then show ?case using Cons os_run.more by fastforce
qed (simp add: os_run.none)

section \<open>What a bring-up leaves behind\<close>

lemma seed_all_frame: "bp_nets (seed_all env ips p) = bp_nets p \<and> bp_mode (seed_all env ips p) = bp_mode p \<and> bp_armed (seed_all env ips p) = bp_armed p"
  unfolding seed_all_def by (induction ips arbitrary: p) (auto simp: seed_def Let_def)

text \<open>The policy the bring-up works with: the configured one, with the addresses its domains resolve to.\<close>

definition seeded :: "split_env \<Rightarrow> bypassPolicy \<Rightarrow> bypassPolicy" where
  "seeded env policy = seed_all env (fst (resolveDomains env (bp_domains policy))) policy"

lemma seeded_mode: "bp_mode (seeded env policy) = bp_mode policy"
  by (simp add: seeded_def seed_all_frame)

text \<open>The sets only grow: what the excluder held when it went live and what was seeded is still there when the
  routes are removed.\<close>

definition views_ok :: "split_env \<Rightarrow> bypassPolicy \<Rightarrow> late_views \<Rightarrow> bool" where
  "views_ok env policy vw \<longleftrightarrow>
     set (lv_poolLive vw) \<subseteq> set (lv_poolUnwind vw) \<and> set (dynamicSnapshot (seeded env policy)) \<subseteq> set (lv_dynamicUnwind vw)"

definition excludedIPs :: "split_env \<Rightarrow> tunnel_config \<Rightarrow> string list" where
  "excludedIPs env cfg = resolveExclusions env [] (tc_Coordinators cfg @ [tc_STUNURL cfg, tc_TURNURL cfg])"

definition locked :: "split_env \<Rightarrow> tunnel_config \<Rightarrow> bypassPolicy \<Rightarrow> late_views \<Rightarrow> string list \<times> string list" where
  "locked env cfg policy vw = (excludedIPs env cfg @ lv_poolArm vw, staticEntries env (seeded env policy) @ lv_dynamicArm vw)"

text \<open>A call of the bring-up is covered by the clean-ups registered after it: they take away what it sets up, the
  configuration of the device apart; or it was refused and sets up nothing but itself.\<close>

definition undone :: "split_env \<Rightarrow> os_call list \<Rightarrow> os_call \<Rightarrow> bool" where
  "undone env d c \<longleftrightarrow> takes env c = {}
     \<and> (gives env c - {DeviceConfig} \<subseteq> \<Union> (takes env ` set d)
        \<or> refused c \<and> gives env c \<inter> range DeviceRoute \<subseteq> \<Union> (takes env ` set d))"

definition covered_by :: "split_env \<Rightarrow> os_call list \<Rightarrow> os_call list \<Rightarrow> bool" where
  "covered_by env c d \<longleftrightarrow> list_all (undone env d) c \<and> list_all (\<lambda>x. gives env x = {}) d"

lemma undone_more: "undone env d c \<Longrightarrow> undone env (ys @ d) c"
  by (auto simp: undone_def)

lemma covered_call:
  assumes "covered_by env c d" and "undone env (ys @ d) x" and "list_all (\<lambda>x. gives env x = {}) ys"
  shows "covered_by env (c @ [x]) (ys @ d)"
  using assms undone_more by (auto simp: covered_by_def list_all_iff)

lemma covered_refused:
  "covered_by env c d \<Longrightarrow> refused x \<Longrightarrow> gives env x \<inter> range DeviceRoute \<subseteq> \<Union> (takes env ` set d) \<Longrightarrow> covered_by env (c @ [x]) d"
  using covered_call [of env c d "[]" x] takes_of_fallible [of x env] by (simp add: undone_def)

lemma exclude_undone:
  assumes "set ips \<subseteq> set ips'" and "RemoveRoutes ips' \<in> set d"
  shows "list_all (undone env d) (exclude_calls env ips)"
  using assms by (force simp: exclude_calls_def list_all_iff undone_def)

text \<open>The calls before the device exists, with the clean-ups registered for them.\<close>

definition early_calls :: "split_env \<Rightarrow> tunnel_config \<Rightarrow> bypassPolicy \<Rightarrow> late_views \<Rightarrow> gatewayInfo \<Rightarrow> os_call list" where
  "early_calls env cfg p vw gw =
     [DefaultGateway (Some gw), AddExclusionRoutes (excludedIPs env cfg)] @ exclude_calls env (lv_poolLive vw)
       @ (if bp_mode p \<noteq> modeInclude then [AddExclusionRoutes (staticEntries env p @ dynamicSnapshot p)] else [])"

definition early_defers :: "split_env \<Rightarrow> tunnel_config \<Rightarrow> bypassPolicy \<Rightarrow> late_views \<Rightarrow> os_call list" where
  "early_defers env cfg p vw = (if bp_mode p \<noteq> modeInclude then drop_bypass env p vw else [])
     @ [DisableExcluder, RemoveRoutes (lv_poolUnwind vw), RemoveRoutes (excludedIPs env cfg)]"

lemma early_covered:
  assumes "views_ok env policy vw"
  shows "covered_by env (early_calls env cfg (seeded env policy) vw gw) (early_defers env cfg (seeded env policy) vw)"
proof -
  let ?d = "early_defers env cfg (seeded env policy) vw"
  have "list_all (undone env ?d) (exclude_calls env (lv_poolLive vw))"
    using assms by (intro exclude_undone [of _ "lv_poolUnwind vw"]) (auto simp: views_ok_def early_defers_def)
  moreover have "undone env ?d (AddExclusionRoutes (staticEntries env (seeded env policy) @ dynamicSnapshot (seeded env policy)))"
    if "bp_mode (seeded env policy) \<noteq> modeInclude"
    using that assms by (auto simp: undone_def early_defers_def drop_bypass_def views_ok_def)
  ultimately show ?thesis
    by (auto simp: covered_by_def early_calls_def undone_def) (auto simp: early_defers_def drop_bypass_def)
qed

lemma arm_tunnel_None:
  assumes "covered_by env c d" and "arm_tunnel env cfg p ans vw gw excluded c d = (None, calls)"
  shows "\<exists>c' d'. calls = c' @ d' \<and> covered_by env c' d'"
proof -
  have dns: "covered_by env (c @ [CaptureDNS b]) (ReleaseDNS # d)" for b
    using covered_call [OF assms(1), of "[ReleaseDNS]" "CaptureDNS b"] by (simp add: undone_def)
  have dns_refused: "covered_by env (c @ [CaptureDNS False]) d"
    by (rule covered_refused [OF assms(1)]) auto
  have served: "covered_by env ((c @ [CaptureDNS b]) @ [AllowServedEgress src]) (RevokeServedEgress # ReleaseDNS # d)" for b src
    using covered_call [OF dns, of "[RevokeServedEgress]" "AllowServedEgress src"] by (simp add: undone_def)
  have served_refused: "covered_by env ((c @ [CaptureDNS b]) @ [AllowServedEgress None]) (ReleaseDNS # d)" for b
    by (rule covered_refused [OF dns]) auto
  have kill: "covered_by env c' d' \<Longrightarrow> covered_by env (c' @ [EnableKillSwitch x y False]) d'" for c' d' x y
    by (rule covered_refused) auto
  show ?thesis
  proof (cases "an_captureDNS ans")
    case False
    then have "calls = (c @ [CaptureDNS False]) @ d" using assms(2) by (simp add: arm_tunnel_def Let_def)
    then show ?thesis using dns_refused by blast
  next
    case dns_ok: True
    show ?thesis
    proof (cases "tc_ServeEgress cfg \<and> an_servedEgress ans = None")
      case True
      then have "calls = ((c @ [CaptureDNS True]) @ [AllowServedEgress None]) @ ReleaseDNS # d"
        using assms(2) dns_ok by (simp add: arm_tunnel_def Let_def)
      then show ?thesis using served_refused by blast
    next
      case False
      define src c2 d2 where "src = (if tc_ServeEgress cfg then the (an_servedEgress ans) else [])"
        and "c2 = c @ [CaptureDNS True] @ (if tc_ServeEgress cfg then [AllowServedEgress (Some src)] else [])"
        and "d2 = (if tc_ServeEgress cfg then [RevokeServedEgress] else []) @ ReleaseDNS # d"
      have cov: "covered_by env c2 d2" using dns [of True] served [of True "Some src"] by (simp add: c2_def d2_def)
      have "calls = (c2 @ [EnableKillSwitch (excluded @ lv_poolArm vw) (staticEntries env p @ lv_dynamicArm vw) False]) @ d2"
        using assms(2) dns_ok False by (cases "tc_KillSwitch cfg"; cases "an_killSwitch ans")
          (auto simp: arm_tunnel_def Let_def src_def c2_def d2_def split: option.splits if_splits)
      then show ?thesis using kill [OF cov] by blast
    qed
  qed
qed

text \<open>Every bring-up that fails is a list of calls followed by clean-ups that cover them.\<close>

lemma device_covered:
  assumes "covered_by env c d" and "CloseTUN \<in> set d"
  shows "covered_by env (c @ [ConfigureTunInterface b]) d" and "covered_by env (c @ [AddSplitDefaultRoute b]) d"
  using covered_call [OF assms(1), of "[]" "ConfigureTunInterface b"] covered_call [OF assms(1), of "[]" "AddSplitDefaultRoute b"] assms(2)
  by (force simp: undone_def)+

lemma inclusion_covered:
  "covered_by env c d \<Longrightarrow> CloseTUN \<in> set d \<Longrightarrow> covered_by env (c @ [AddInclusionRoutes ps]) (drop_bypass env p vw @ d)"
  by (rule covered_call) (auto simp: undone_def drop_bypass_def)

lemma netstack_covered:
  assumes "covered_by env c d"
  shows "covered_by env (c @ [DisablePhysicalIPv6]) (EnablePhysicalIPv6 # d)"
    and "covered_by env (c @ [StartNetstack b]) (CloseNetstack # d)" and "covered_by env (c @ [StartNetstack False]) d"
  using covered_call [OF assms, of "[EnablePhysicalIPv6]" DisablePhysicalIPv6] covered_call [OF assms, of "[CloseNetstack]" "StartNetstack b"]
    covered_refused [OF assms, of "StartNetstack False"] by (auto simp: undone_def)

lemma startTunnel_None:
  assumes "views_ok env policy vw" and "startTunnel env cfg policy ans vw = (None, calls)"
  shows "\<exists>c d. calls = c @ d \<and> covered_by env c d"
proof (cases "an_gateway ans")
  case None
  then have "calls = [DefaultGateway None] @ []" using assms(2) by (simp add: startTunnel_def)
  moreover have "covered_by env [DefaultGateway None] []" by (simp add: covered_by_def undone_def)
  ultimately show ?thesis by blast
next
  case (Some gw)
  define p where "p = seeded env policy"
  define c1 d1 where "c1 = early_calls env cfg p vw gw" and "d1 = early_defers env cfg p vw"
  define c3 where "c3 b = (c1 @ [CreateTUN True]) @ [ConfigureTunInterface b]" for b
  define ps where "ps = staticEntries env p @ dynamicSnapshot p"
  define c4 d4 where "c4 = c3 True @ [if bp_mode p \<noteq> modeInclude then AddSplitDefaultRoute True else AddInclusionRoutes ps]"
    and "d4 = (if bp_mode p \<noteq> modeInclude then [] else drop_bypass env p vw) @ CloseTUN # d1"
  let ?c5 = "c4 @ [DisablePhysicalIPv6]" and ?d5 = "EnablePhysicalIPv6 # d4"
  have e: "covered_by env c1 d1" unfolding c1_def d1_def p_def by (rule early_covered [OF assms(1)])
  have tun: "covered_by env (c1 @ [CreateTUN True]) (CloseTUN # d1)"
    using covered_call [OF e, of "[CloseTUN]" "CreateTUN True"] by (simp add: undone_def)
  have tun_refused: "covered_by env (c1 @ [CreateTUN False]) d1" by (rule covered_refused [OF e]) auto
  have conf: "covered_by env (c3 b) (CloseTUN # d1)" for b unfolding c3_def by (rule device_covered(1) [OF tun]) simp
  have split: "covered_by env (c3 True @ [AddSplitDefaultRoute b]) (CloseTUN # d1)" for b by (rule device_covered(2) [OF conf]) simp
  have four: "covered_by env c4 d4" using split [of True] inclusion_covered [OF conf] by (simp add: c4_def d4_def)
  note five = netstack_covered(1) [OF four]
  note six = netstack_covered(2) [OF five, of True] and six_refused = netstack_covered(3) [OF five]
  note defs = startTunnel_def seeded_def [symmetric] excludedIPs_def [symmetric] Let_def Some p_def [symmetric]
    c1_def d1_def c3_def c4_def d4_def ps_def early_calls_def early_defers_def
  consider "\<not> an_createTUN ans" | "an_createTUN ans" "\<not> an_configureTun ans"
    | "an_createTUN ans" "an_configureTun ans" "bp_mode p \<noteq> modeInclude" "\<not> an_splitDefault ans"
    | "an_createTUN ans" "an_configureTun ans" "bp_mode p \<noteq> modeInclude \<longrightarrow> an_splitDefault ans" by blast
  then show ?thesis
  proof cases
    case 1
    then have "calls = (c1 @ [CreateTUN False]) @ d1" using assms(2) by (simp add: defs)
    then show ?thesis using tun_refused by blast
  next
    case 2
    then have "calls = c3 False @ CloseTUN # d1" using assms(2) by (simp add: defs)
    then show ?thesis using conf by blast
  next
    case 3
    then have "calls = (c3 True @ [AddSplitDefaultRoute False]) @ CloseTUN # d1" using assms(2) by (simp add: defs)
    then show ?thesis using split by blast
  next
    case 4
    then have run: "startTunnel env cfg policy ans vw =
        (case v4Address env tunIP of None \<Rightarrow> (None, ?c5 @ ?d5)
         | Some _ \<Rightarrow> if \<not> an_netstack ans then (None, ?c5 @ [StartNetstack False] @ ?d5)
             else arm_tunnel env cfg p ans vw gw (excludedIPs env cfg) (?c5 @ [StartNetstack True]) (CloseNetstack # ?d5))"
      by (cases "bp_mode p = modeInclude") (simp_all add: defs split: option.split)
    show ?thesis
    proof (cases "v4Address env tunIP = None \<or> \<not> an_netstack ans")
      case True
      then have "calls = ?c5 @ ?d5 \<or> calls = (?c5 @ [StartNetstack False]) @ ?d5" using run assms(2) by (auto split: option.splits)
      then show ?thesis using five six_refused by blast
    next
      case False
      then show ?thesis using run assms(2) arm_tunnel_None [OF six] by auto
    qed
  qed
qed

text \<open>A bring-up stops at the first call that is refused.\<close>

lemma takes_of_clean_up: "list_all (\<lambda>x. gives env x = {}) d \<Longrightarrow> list_all (undone env d) c \<Longrightarrow>
    \<Union> (gives env ` set c) - \<Union> (takes env ` set d)
      \<subseteq> (\<Union>x \<in> set (filter refused c). gives env x - range DeviceRoute) \<union> {DeviceConfig} \<inter> \<Union> (gives env ` set c)"
  by (fastforce simp: list_all_iff undone_def)

text \<open>C16: A bring-up that fails, at whichever call, takes back what it did. Whether a refused call had taken effect
  or not, whether the calls without an answer worked, and whichever clean-ups \<open>F\<close> fail: what is left of it
  is at most what the refused call itself set up, which its own primitive answers for, the configuration
  of a device that is gone, and what the failing clean-ups should have taken away.\<close>

theorem failed_bringup_undone:
  assumes "views_ok env policy vw" and "startTunnel env cfg policy ans vw = (None, calls)" and "os_run env F calls {} m"
  shows "m \<subseteq> (\<Union>c \<in> set (filter refused calls). gives env c - range DeviceRoute)
      \<union> {DeviceConfig} \<inter> \<Union> (gives env ` set calls) \<union> \<Union> (takes env ` F)"
proof -
  obtain c d where cd: "calls = c @ d" "covered_by env c d" using startTunnel_None [OF assms(1,2)] by blast
  have cov: "list_all (undone env d) c" "list_all (\<lambda>x. gives env x = {}) d" using cd(2) by (simp_all add: covered_by_def)
  obtain m1 where runs: "os_run env F c {} m1" "os_run env F d m1 m" using os_run_append assms(3) unfolding cd(1) by blast
  have "m1 \<subseteq> \<Union> (gives env ` set c) \<union> \<Union> (takes env ` F)"
    by (rule os_run_sets_up [OF runs(1)]) (use cov(1) in \<open>simp add: list_all_iff undone_def\<close>)
  then have "m \<subseteq> (\<Union> (gives env ` set c) - \<Union> (takes env ` set d)) \<union> \<Union> (takes env ` F)"
    by (rule os_run_takes_down [OF runs(2), rotated]) (use cov(2) in \<open>simp add: list_all_iff\<close>)
  also have "\<dots> \<subseteq> (\<Union>x \<in> set (filter refused c). gives env x - range DeviceRoute) \<union> {DeviceConfig} \<inter> \<Union> (gives env ` set c)
      \<union> \<Union> (takes env ` F)"
    by (rule Un_mono [OF takes_of_clean_up [OF cov(2,1)] subset_refl])
  also have "\<dots> \<subseteq> (\<Union>c \<in> set (filter refused calls). gives env c - range DeviceRoute)
      \<union> {DeviceConfig} \<inter> \<Union> (gives env ` set calls) \<union> \<Union> (takes env ` F)"
    by (intro Un_mono UN_mono Int_mono Union_mono image_mono subset_refl) (auto simp: cd(1))
  finally show ?thesis .
qed

text \<open>The calls of a bring-up that succeeds.\<close>

definition bypassed :: "split_env \<Rightarrow> bypassPolicy \<Rightarrow> string list" where
  "bypassed env policy = staticEntries env (seeded env policy) @ dynamicSnapshot (seeded env policy)"

definition up_calls :: "split_env \<Rightarrow> tunnel_config \<Rightarrow> bypassPolicy \<Rightarrow> late_views \<Rightarrow> gatewayInfo \<Rightarrow> string \<Rightarrow> os_call list" where
  "up_calls env cfg policy vw gw src = early_calls env cfg (seeded env policy) vw gw
     @ [CreateTUN True, ConfigureTunInterface True,
        if bp_mode policy \<noteq> modeInclude then AddSplitDefaultRoute True else AddInclusionRoutes (bypassed env policy),
        DisablePhysicalIPv6, StartNetstack True, CaptureDNS True]
     @ (if tc_ServeEgress cfg then [AllowServedEgress (Some src)] else [])
     @ (if tc_KillSwitch cfg then [EnableKillSwitch (fst (locked env cfg policy vw)) (snd (locked env cfg policy vw)) True] else [])"

lemma startTunnel_up:
  assumes "startTunnel env cfg policy ans vw = (Some t, calls)"
  obtains gw src where "calls = up_calls env cfg policy vw gw src"
    and "t = \<lparr>tn_gw = gw, tn_excludedIPs = excludedIPs env cfg, tn_policy = seeded env policy, tn_killSwitch = tc_KillSwitch cfg,
              tn_servedSource = src\<rparr>"
proof -
  let ?src = "if tc_ServeEgress cfg then the (an_servedEgress ans) else []"
  have "calls = up_calls env cfg policy vw (tn_gw t) ?src
     \<and> t = \<lparr>tn_gw = tn_gw t, tn_excludedIPs = excludedIPs env cfg, tn_policy = seeded env policy, tn_killSwitch = tc_KillSwitch cfg, tn_servedSource = ?src\<rparr>"
    using assms by (cases "bp_mode policy = modeInclude") (auto simp: startTunnel_def arm_tunnel_def seeded_def [symmetric] excludedIPs_def [symmetric] Let_def
        up_calls_def early_calls_def bypassed_def locked_def seeded_mode split: option.splits if_splits)
  then show thesis using that by blast
qed

text \<open>What must be there then, and what may be.\<close>

definition outside :: "split_env \<Rightarrow> tunnel_config \<Rightarrow> bypassPolicy \<Rightarrow> late_views \<Rightarrow> resource set" where
  "outside env cfg policy vw = GatewayRoute ` ensureCIDR env ` (set (excludedIPs env cfg) \<union> set (lv_poolLive vw)
     \<union> (if bp_mode policy \<noteq> modeInclude then set (bypassed env policy) else {}))"

definition in_force :: "split_env \<Rightarrow> tunnel_config \<Rightarrow> bypassPolicy \<Rightarrow> late_views \<Rightarrow> resource set" where
  "in_force env cfg policy vw = {Device, DeviceConfig, Netstack, Resolver}
     \<union> (if bp_mode policy \<noteq> modeInclude then DeviceRoute ` split_default else {})
     \<union> (if tc_ServeEgress cfg then {ServedRule} else {})
     \<union> (if tc_KillSwitch cfg then {Lockdown (fst (locked env cfg policy vw)) (snd (locked env cfg policy vw))} else {})"

definition besides :: "split_env \<Rightarrow> tunnel_config \<Rightarrow> bypassPolicy \<Rightarrow> late_views \<Rightarrow> resource set" where
  "besides env cfg policy vw = {NoIPv6} \<union> outside env cfg policy vw
     \<union> (if bp_mode policy \<noteq> modeInclude then {} else DeviceRoute ` ensureCIDR env ` set (bypassed env policy))"

lemma exclude_gives: "\<Union> (gives env ` set (exclude_calls env ips)) = GatewayRoute ` ensureCIDR env ` set ips"
  by (induction ips) (auto simp: exclude_calls_def)

lemma early_gives: "\<Union> (gives env ` set (early_calls env cfg (seeded env policy) vw gw)) = outside env cfg policy vw"
  by (auto simp: early_calls_def outside_def exclude_gives seeded_mode bypassed_def image_Un)

lemma up_calls_give:
  "\<Union> (gives env ` set (up_calls env cfg policy vw gw src)) = in_force env cfg policy vw \<union> besides env cfg policy vw"
  unfolding up_calls_def set_append image_Un Union_Un_distrib early_gives by (auto simp: in_force_def besides_def)

lemma up_calls_take: "c \<in> set (up_calls env cfg policy vw gw src) \<Longrightarrow> takes env c = {}"
  by (auto simp: up_calls_def early_calls_def exclude_calls_def split: if_splits)

lemma up_calls_hold:
  assumes "os_run env F (up_calls env cfg policy vw gw src) m0 m" shows "in_force env cfg policy vw \<subseteq> m"
proof -
  have "gives env c \<subseteq> m" if "c \<in> set (up_calls env cfg policy vw gw src)" "\<not> refused c" "\<not> best_effort c" for c
    using os_run_gives [OF assms _ that] up_calls_take by blast
  note g = this
  show ?thesis
    using g [of "CreateTUN True"] g [of "ConfigureTunInterface True"] g [of "StartNetstack True"] g [of "CaptureDNS True"]
      g [of "AddSplitDefaultRoute True"] g [of "AllowServedEgress (Some src)"]
      g [of "EnableKillSwitch (fst (locked env cfg policy vw)) (snd (locked env cfg policy vw)) True"]
    by (auto simp: up_calls_def in_force_def split: if_splits)
qed

lemma close_takes:
  assumes "views_ok env policy vw" and "tc_ServeEgress cfg \<longrightarrow> tn_servedSource t \<noteq> []"
    and "tn_excludedIPs t = excludedIPs env cfg" "tn_policy t = seeded env policy" "tn_killSwitch t = tc_KillSwitch cfg"
  shows "in_force env cfg policy vw \<union> besides env cfg policy vw \<subseteq> insert DeviceConfig (\<Union> (takes env ` set (tunnel_Close env t vw)))"
proof -
  let ?T = "\<Union> (takes env ` set (tunnel_Close env t vw))" and ?k = "\<lambda>xs. GatewayRoute ` ensureCIDR env ` set xs"
  have "takes env c \<subseteq> ?T" if "c \<in> set (tunnel_Close env t vw)" for c using that by blast
  note T = this
  have devs: "{Device, Netstack, Resolver, NoIPv6} \<subseteq> ?T" "range DeviceRoute \<subseteq> ?T"
    using T [of CloseTUN] T [of CloseNetstack] T [of ReleaseDNS] T [of EnablePhysicalIPv6] by (simp_all add: tunnel_Close_def)
  have "?k (excludedIPs env cfg) \<subseteq> ?T" "?k (lv_poolUnwind vw) \<subseteq> ?T" "?k (staticEntries env (seeded env policy)) \<subseteq> ?T" "?k (lv_dynamicUnwind vw) \<subseteq> ?T"
    using T [of "RemoveRoutes (excludedIPs env cfg)"] T [of "RemoveRoutes (lv_poolUnwind vw)"]
      T [of "RemoveRoutes (staticEntries env (seeded env policy))"] T [of "RemoveRoutes (lv_dynamicUnwind vw)"]
    by (simp_all add: tunnel_Close_def assms(3,4))
  note k = this
  have "?k (lv_poolLive vw) \<subseteq> ?k (lv_poolUnwind vw)" "?k (dynamicSnapshot (seeded env policy)) \<subseteq> ?k (lv_dynamicUnwind vw)"
    using assms(1) unfolding views_ok_def by (blast intro: image_mono)+
  note live = this [THEN subset_trans]
  have routes: "outside env cfg policy vw \<subseteq> ?T"
    unfolding outside_def bypassed_def set_append image_Un
    by (cases "bp_mode policy = modeInclude")
      (simp_all only: if_True if_False simp_thms image_Un image_empty, (intro Un_least empty_subsetI k live)+)
  have served: "ServedRule \<in> ?T" if "tc_ServeEgress cfg"
    using T [of RevokeServedEgress] that assms(2) by (simp add: tunnel_Close_def)
  have lock: "Lockdown a b \<in> ?T" if "tc_KillSwitch cfg" for a b
    using T [of DisableKillSwitch] that assms(5) by (simp add: tunnel_Close_def subset_iff)
  have halves: "DeviceRoute ` X \<subseteq> ?T" for X using devs(2) by blast
  have "in_force env cfg policy vw \<subseteq> insert DeviceConfig ?T"
    unfolding in_force_def using devs(1) served lock halves [THEN subset_insertI2]
    by (intro Un_least) (simp_all add: subset_insertI2 split: if_split)
  moreover have "besides env cfg policy vw \<subseteq> ?T"
    unfolding besides_def using devs(1) routes halves by (intro Un_least) (simp_all split: if_split)
  ultimately show ?thesis by (intro Un_least) (simp_all add: subset_insertI2)
qed


section \<open>The Linux client (osnet_linux.go)\<close>

text \<open>The control connection and the replies of the helper that the client has not read yet. A round trip is not
  sent, passes its deadline after the helper has served it, or is answered in time.\<close>

record linuxOS =
  lo_conn :: "nat option"
  lo_token :: string
  lo_unread :: "netd_reply list"

datatype round_trip = NotSent | TooLate | OnTime

datatype linux_error =
  ErrHelperUnreachable | ErrHelperBusy | ErrHelperVersion | ErrTransport | ErrRefused netd_code | ErrNoGateway | ErrNoDescriptor | ErrNoAddress

fun translateRefusal :: "linux_error \<Rightarrow> linux_error" where
  "translateRefusal (ErrRefused code) =
     (case code of
        CodeBusy \<Rightarrow> ErrHelperBusy
      | CodeVersion \<Rightarrow> ErrHelperVersion
      | CodeDenied \<Rightarrow> ErrHelperUnreachable
      | _ \<Rightarrow> ErrRefused code)"
| "translateRefusal e = e"

text \<open>What the helper writes back for a request on a connection; nothing when it dies or drops the connection.\<close>

definition netd_answer :: "netd_env \<Rightarrow> nat \<Rightarrow> netd_request \<Rightarrow> sys \<Rightarrow> helper \<Rightarrow> netd_reply option" where
  "netd_answer env c req sys h =
     (if \<not> hp_alive h then None
      else case hp_conns h c of
        None \<Rightarrow> None
      | Some uid \<Rightarrow>
          (case netd_validate req of
             Some code \<Rightarrow> Some (ReplyFail code)
           | None \<Rightarrow> (case netd_dispatch env sys uid req (hp_sess h) (hp_kernel h) of (r, sess, k, dropped) \<Rightarrow> if dropped then None else r)))"

fun reply_Err :: "netd_reply \<Rightarrow> linux_error option" where
  "reply_Err (ReplyFail code) = Some (ErrRefused code)"
| "reply_Err _ = None"

definition blank_request :: netd_request where
  "blank_request = \<lparr>rq_Version = 0, rq_Verb = [], rq_Token = [], rq_Prefixes = [], rq_Control = [], rq_Bypass = [], rq_Addr = [], rq_PrefixLen = 0, rq_IP = []\<rparr>"

definition linux_do :: "netd_env \<Rightarrow> sys \<Rightarrow> round_trip \<Rightarrow> netd_request \<Rightarrow> linuxOS \<times> helper \<Rightarrow> (linux_error + netd_reply) \<times> linuxOS \<times> helper" where
  "linux_do env sys trip req = (\<lambda>(lo, h).
     (case lo_conn lo of
        None \<Rightarrow> (Inl ErrHelperUnreachable, lo, h)
      | Some c \<Rightarrow>
          if trip = NotSent then (Inl ErrTransport, lo, h)
          else
            (let req' = req\<lparr>rq_Version := netd_Version, rq_Token := lo_token lo\<rparr>;
                 unread = lo_unread lo @ (case netd_answer env c req' sys h of None \<Rightarrow> [] | Some r \<Rightarrow> [r]);
                 h' = netd_step env (Request c req' sys) h
             in if trip = TooLate \<or> unread = [] then (Inl ErrTransport, lo\<lparr>lo_unread := unread\<rparr>, h')
                else (case reply_Err (hd unread) of
                        Some e \<Rightarrow> (Inl e, lo\<lparr>lo_unread := tl unread\<rparr>, h')
                      | None \<Rightarrow> (Inr (hd unread), lo\<lparr>lo_unread := tl unread\<rparr>, h')))))"

definition linux_silent :: "netd_env \<Rightarrow> sys \<Rightarrow> round_trip \<Rightarrow> netd_request \<Rightarrow> linuxOS \<times> helper \<Rightarrow> linuxOS \<times> helper" where
  "linux_silent env sys trip req w = snd (linux_do env sys trip req w)"

definition fallible :: "(linux_error + netd_reply) \<times> linuxOS \<times> helper \<Rightarrow> linux_error option \<times> linuxOS \<times> helper" where
  "fallible = (\<lambda>(r, w). (case r of Inl e \<Rightarrow> Some e | Inr _ \<Rightarrow> None, w))"

definition addrOrEmpty :: "netd_env \<Rightarrow> addr \<Rightarrow> string" where
  "addrOrEmpty env a = (if a = NoAddr then [] else ne_addrString env a)"

definition linux_defaultGateway :: "netd_env \<Rightarrow> sys \<Rightarrow> round_trip \<Rightarrow> linuxOS \<times> helper \<Rightarrow> (linux_error + gatewayInfo) \<times> linuxOS \<times> helper" where
  "linux_defaultGateway env sys trip w =
     (let (r, w') = linux_do env sys trip (blank_request\<lparr>rq_Verb := VerbDefaultGateway\<rparr>) w
      in (case r of
            Inl e \<Rightarrow> Inl e
          | Inr (ReplyGateway gw) \<Rightarrow>
              Inr \<lparr>gi_nextHop = ne_addrString env (gw_NextHop gw), gi_ifIndex = gw_IfIndex gw, gi_ifAlias = gw_IfName gw,
                   gi_nextHopV6 = addrOrEmpty env (gw_NextHopV6 gw)\<rparr>
          | Inr _ \<Rightarrow> Inl ErrNoGateway, w'))"

text \<open>The descriptor travels with its own reply only; \<open>wrapped\<close> is whether the device can be made from it.\<close>

definition linux_createTUN :: "netd_env \<Rightarrow> sys \<Rightarrow> round_trip \<Rightarrow> bool \<Rightarrow> linuxOS \<times> helper \<Rightarrow> linux_error option \<times> linuxOS \<times> helper" where
  "linux_createTUN env sys trip wrapped w =
     (let (r, w') = linux_do env sys trip (blank_request\<lparr>rq_Verb := VerbCreateTUN\<rparr>) w
      in (case r of
            Inl e \<Rightarrow> Some (translateRefusal e)
          | Inr ReplyTUN \<Rightarrow> if wrapped then None else Some ErrNoDescriptor
          | Inr _ \<Rightarrow> Some ErrNoDescriptor, w'))"

definition linux_routes :: "netd_env \<Rightarrow> sys \<Rightarrow> round_trip \<Rightarrow> string \<Rightarrow> string list \<Rightarrow> linuxOS \<times> helper \<Rightarrow> linuxOS \<times> helper" where
  "linux_routes env sys trip verb prefixes w =
     (if prefixes = [] then w else linux_silent env sys trip (blank_request\<lparr>rq_Verb := verb, rq_Prefixes := prefixes\<rparr>) w)"

definition linux_addExclusionRoutes :: "netd_env \<Rightarrow> sys \<Rightarrow> round_trip \<Rightarrow> string list \<Rightarrow> linuxOS \<times> helper \<Rightarrow> linuxOS \<times> helper" where
  "linux_addExclusionRoutes env sys trip prefixes = linux_routes env sys trip VerbAddExclusionRoutes prefixes"

definition linux_addExclusionRoutesV6 :: "netd_env \<Rightarrow> sys \<Rightarrow> round_trip \<Rightarrow> string list \<Rightarrow> linuxOS \<times> helper \<Rightarrow> linuxOS \<times> helper" where
  "linux_addExclusionRoutesV6 env sys trip prefixes = linux_routes env sys trip VerbAddExclusionRoutesV6 prefixes"

definition linux_addInclusionRoutes :: "netd_env \<Rightarrow> sys \<Rightarrow> round_trip \<Rightarrow> string list \<Rightarrow> linuxOS \<times> helper \<Rightarrow> linuxOS \<times> helper" where
  "linux_addInclusionRoutes env sys trip prefixes = linux_routes env sys trip VerbAddInclusionRoutes prefixes"

definition linux_removeRoutes :: "netd_env \<Rightarrow> sys \<Rightarrow> round_trip \<Rightarrow> string list \<Rightarrow> linuxOS \<times> helper \<Rightarrow> linuxOS \<times> helper" where
  "linux_removeRoutes env sys trip prefixes = linux_routes env sys trip VerbRemoveRoutes prefixes"

definition linux_configureTunInterface ::
    "netd_env \<Rightarrow> sys \<Rightarrow> round_trip \<Rightarrow> string \<Rightarrow> int \<Rightarrow> linuxOS \<times> helper \<Rightarrow> linux_error option \<times> linuxOS \<times> helper" where
  "linux_configureTunInterface env sys trip adr len w =
     fallible (linux_do env sys trip (blank_request\<lparr>rq_Verb := VerbConfigureTUN, rq_Addr := adr, rq_PrefixLen := len\<rparr>) w)"

definition linux_addSplitDefaultRoute :: "netd_env \<Rightarrow> sys \<Rightarrow> round_trip \<Rightarrow> string \<Rightarrow> linuxOS \<times> helper \<Rightarrow> linux_error option \<times> linuxOS \<times> helper" where
  "linux_addSplitDefaultRoute env sys trip adr w =
     fallible (linux_do env sys trip (blank_request\<lparr>rq_Verb := VerbAddSplitDefaultRoute, rq_Addr := adr\<rparr>) w)"

definition linux_disablePhysicalIPv6 :: "netd_env \<Rightarrow> sys \<Rightarrow> round_trip \<Rightarrow> linuxOS \<times> helper \<Rightarrow> linuxOS \<times> helper" where
  "linux_disablePhysicalIPv6 env sys trip w = linux_silent env sys trip (blank_request\<lparr>rq_Verb := VerbDisablePhysicalIPv6\<rparr>) w"

definition linux_enablePhysicalIPv6 :: "netd_env \<Rightarrow> sys \<Rightarrow> round_trip \<Rightarrow> linuxOS \<times> helper \<Rightarrow> linuxOS \<times> helper" where
  "linux_enablePhysicalIPv6 env sys trip w = linux_silent env sys trip (blank_request\<lparr>rq_Verb := VerbEnablePhysicalIPv6\<rparr>) w"

definition linux_enableKillSwitch ::
    "netd_env \<Rightarrow> sys \<Rightarrow> round_trip \<Rightarrow> string list \<Rightarrow> string list \<Rightarrow> linuxOS \<times> helper \<Rightarrow> linux_error option \<times> linuxOS \<times> helper" where
  "linux_enableKillSwitch env sys trip control bypass w =
     fallible (linux_do env sys trip (blank_request\<lparr>rq_Verb := VerbEnableKillSwitch, rq_Control := control, rq_Bypass := bypass\<rparr>) w)"

definition linux_disableKillSwitch :: "netd_env \<Rightarrow> sys \<Rightarrow> round_trip \<Rightarrow> linuxOS \<times> helper \<Rightarrow> linuxOS \<times> helper" where
  "linux_disableKillSwitch env sys trip w = linux_silent env sys trip (blank_request\<lparr>rq_Verb := VerbDisableKillSwitch\<rparr>) w"

definition linux_recoverKillSwitch :: "netd_env \<Rightarrow> sys \<Rightarrow> round_trip \<Rightarrow> linuxOS \<times> helper \<Rightarrow> linuxOS \<times> helper" where
  "linux_recoverKillSwitch env sys trip w = linux_silent env sys trip (blank_request\<lparr>rq_Verb := VerbRecoverKillSwitch\<rparr>) w"

definition linux_refreshKillSwitchAllowIP :: "netd_env \<Rightarrow> sys \<Rightarrow> round_trip \<Rightarrow> string \<Rightarrow> linuxOS \<times> helper \<Rightarrow> linuxOS \<times> helper" where
  "linux_refreshKillSwitchAllowIP env sys trip ip w = linux_silent env sys trip (blank_request\<lparr>rq_Verb := VerbRefreshAllowIP, rq_IP := ip\<rparr>) w"

definition linux_captureDNS :: "netd_env \<Rightarrow> sys \<Rightarrow> round_trip \<Rightarrow> linuxOS \<times> helper \<Rightarrow> linux_error option \<times> linuxOS \<times> helper" where
  "linux_captureDNS env sys trip w = fallible (linux_do env sys trip (blank_request\<lparr>rq_Verb := VerbCaptureDNS\<rparr>) w)"

definition linux_releaseDNS :: "netd_env \<Rightarrow> sys \<Rightarrow> round_trip \<Rightarrow> linuxOS \<times> helper \<Rightarrow> linuxOS \<times> helper" where
  "linux_releaseDNS env sys trip w = linux_silent env sys trip (blank_request\<lparr>rq_Verb := VerbReleaseDNS\<rparr>) w"

definition linux_allowServedEgress :: "netd_env \<Rightarrow> sys \<Rightarrow> round_trip \<Rightarrow> linuxOS \<times> helper \<Rightarrow> (linux_error + string) \<times> linuxOS \<times> helper" where
  "linux_allowServedEgress env sys trip w =
     (let (r, w') = linux_do env sys trip (blank_request\<lparr>rq_Verb := VerbAllowServedEgress\<rparr>) w
      in (case r of
            Inl e \<Rightarrow> Inl e
          | Inr (ReplyServed src) \<Rightarrow> if src = [] then Inl ErrNoAddress else Inr src
          | Inr _ \<Rightarrow> Inl ErrNoAddress, w'))"

definition linux_revokeServedEgress :: "netd_env \<Rightarrow> sys \<Rightarrow> round_trip \<Rightarrow> linuxOS \<times> helper \<Rightarrow> linuxOS \<times> helper" where
  "linux_revokeServedEgress env sys trip w = linux_silent env sys trip (blank_request\<lparr>rq_Verb := VerbRevokeServedEgress\<rparr>) w"

text \<open>Opening the session on a new connection \<open>c\<close>, and ending it: the request to close, then the connection.\<close>

definition linux_connect ::
    "netd_env \<Rightarrow> sys \<Rightarrow> round_trip \<Rightarrow> nat \<Rightarrow> uint32 \<Rightarrow> bool option \<Rightarrow> linuxOS \<times> helper \<Rightarrow> linux_error option \<times> linuxOS \<times> helper" where
  "linux_connect env sys trip c uid active = (\<lambda>(lo, h).
     (if lo_conn lo \<noteq> None then (None, lo, h)
      else
        (let h1 = netd_step env (Connect c uid active) h;
             (r, fresh, h2) = linux_do env sys trip (blank_request\<lparr>rq_Verb := VerbOpen\<rparr>) (\<lparr>lo_conn = Some c, lo_token = [], lo_unread = []\<rparr>, h1)
         in case r of
              Inr (ReplyToken tok) \<Rightarrow> (None, fresh\<lparr>lo_token := tok\<rparr>, h2)
            | Inr _ \<Rightarrow> (None, fresh, h2)
            | Inl e \<Rightarrow> (Some (case e of ErrRefused code \<Rightarrow> translateRefusal e | _ \<Rightarrow> ErrHelperUnreachable), lo, netd_step env (Ended c sys) h2))))"

definition linux_close :: "netd_env \<Rightarrow> sys \<Rightarrow> round_trip \<Rightarrow> linuxOS \<times> helper \<Rightarrow> linuxOS \<times> helper" where
  "linux_close env sys trip = (\<lambda>(lo, h).
     (case lo_conn lo of
        None \<Rightarrow> (lo\<lparr>lo_conn := None, lo_token := []\<rparr>, h)
      | Some c \<Rightarrow>
          (\<lparr>lo_conn = None, lo_token = [], lo_unread = []\<rparr>,
           netd_step env (Ended c sys) (snd (snd (linux_do env sys trip (blank_request\<lparr>rq_Verb := VerbClose\<rparr>) (lo, h)))))))"

section \<open>Bring-up over the helper\<close>

text \<open>The texts a client hands to the kill switch, and what the helper's parser must make of them.\<close>

definition entry_ok :: "split_env \<Rightarrow> string \<Rightarrow> bool" where
  "entry_ok env e \<longleftrightarrow> (\<exists>w. e = show4 w) \<or> (\<exists>w. Unmap (A6 w []) = A6 w [] \<and> e = se_string6 env w) \<or> (\<exists>p. is_v4net p \<and> e = net_String env p)"

definition netip_ok :: "netd_env \<Rightarrow> split_env \<Rightarrow> bool" where
  "netip_ok nenv env \<longleftrightarrow>
     (\<forall>w. ne_parseAddr nenv (show4 w) = Some (A4 w))
     \<and> (\<forall>w. TrimSpace (se_string6 env w) = se_string6 env w \<and> se_string6 env w \<noteq> [] \<and> ne_parseAddr nenv (se_string6 env w) = Some (A6 w []))
     \<and> (\<forall>p. is_v4net p \<longrightarrow> ne_parseAddr nenv (net_String env p) = None \<and> ne_parsePrefix nenv (net_String env p) = Some p)"

lemma TrimSpace_show4: "TrimSpace (show4 w) = show4 w"
proof (rule TrimSpace_visible)
  have "c \<in> set (show4 w) \<Longrightarrow> visible c" for c
    using show4_chars [of c w] by (auto simp: is_digit_def visible_def char_byte_def)
  then show "list_all visible (show4 w)" by (simp add: list_all_iff)
qed

lemma show4_nonempty: "show4 w \<noteq> []"
  using parse4_show4 [of w] by (auto simp: parse4_def octet_of_def)

lemma parse_entry:
  assumes "netip_ok nenv env"
  shows "parseHostOrPrefix nenv (show4 w) = Some (Inl (A4 w))"
    and "Unmap (A6 v []) = A6 v [] \<Longrightarrow> parseHostOrPrefix nenv (se_string6 env v) = Some (Inl (A6 v []))"
    and "is_v4net p \<Longrightarrow> parseHostOrPrefix nenv (net_String env p) = Some (Inr p)"
proof -
  show "parseHostOrPrefix nenv (show4 w) = Some (Inl (A4 w))"
    using assms by (simp add: parseHostOrPrefix_def netip_ok_def TrimSpace_show4 show4_nonempty Unmap_def)
  show "Unmap (A6 v []) = A6 v [] \<Longrightarrow> parseHostOrPrefix nenv (se_string6 env v) = Some (Inl (A6 v []))"
    using assms by (simp add: parseHostOrPrefix_def netip_ok_def)
  assume p: "is_v4net p"
  obtain w n where "p = Prefix4 w n" "push_bit (32 - n) (drop_bit (32 - n) w) = w" using is_v4net_masked [OF p] by blast
  then show "parseHostOrPrefix nenv (net_String env p) = Some (Inr p)"
    using assms p TrimSpace_net [of env w n] by (auto simp: parseHostOrPrefix_def netip_ok_def Let_def)
qed

lemma parseAllow_entries:
  assumes "netip_ok nenv env" "list_all (entry_ok env) es"
  shows "\<exists>hs ns. parseAllow nenv es = Some (hs, ns) \<and> list_all is_v4net ns
    \<and> (\<forall>w. A4 w \<in> set hs \<longleftrightarrow> show4 w \<in> set es) \<and> (\<forall>n. is_v4net n \<longrightarrow> n \<in> set ns \<longleftrightarrow> net_String env n \<in> set es)"
  using assms(2)
proof (induction es)
  case (Cons e es)
  then obtain hs ns where IH: "parseAllow nenv es = Some (hs, ns)" "list_all is_v4net ns"
      "\<And>w. A4 w \<in> set hs \<longleftrightarrow> show4 w \<in> set es" "\<And>n. is_v4net n \<Longrightarrow> n \<in> set ns \<longleftrightarrow> net_String env n \<in> set es" by auto
  obtain x where x: "parseHostOrPrefix nenv e = Some x" using Cons.prems parse_entry [OF assms(1)] by (auto simp: entry_ok_def)
  have host: "x = Inl (A4 w) \<longleftrightarrow> e = show4 w" for w
    using Cons.prems x parse_entry [OF assms(1)] by (auto simp: entry_ok_def)
  have net: "is_v4net n \<Longrightarrow> x = Inr n \<longleftrightarrow> e = net_String env n" for n
    using Cons.prems x parse_entry [OF assms(1)] by (auto simp: entry_ok_def)
  have v4: "x = Inr n \<Longrightarrow> is_v4net n" for n
    using Cons.prems x parse_entry [OF assms(1)] by (auto simp: entry_ok_def)
  show ?case
  proof (cases x)
    case (Inl a)
    then show ?thesis using IH x host net by (auto simp: eq_commute)
  next
    case (Inr n)
    then show ?thesis using IH x host net v4 by (auto simp: eq_commute)
  qed
qed simp

definition lockdown_spec :: "sys \<Rightarrow> netd_session \<Rightarrow> addr list \<Rightarrow> prefix list \<Rightarrow> killSwitchSpec" where
  "lockdown_spec sys s hosts nets =
     \<lparr>ks_TunIfIndex = word_of_int (nd_tunIndex s), ks_LoIfIndex = word_of_int (the (sy_lo sys)), ks_Hosts = hosts,
      ks_Nets = nets @ [Prefix4 0x7F000000 8], ks_ServedSrc = nd_servedSrc s\<rparr>"

lemma enable_handled:
  assumes "handleEnableKillSwitch nenv sys req s k = (Some r, s', k')" "reply_Err r = None" "k_nft k = None"
  obtains hosts nets msgs t where "parseAllow nenv (rq_Control req @ rq_Bypass req) = Some (hosts, nets)" "sy_lo sys \<noteq> None"
    "enableKillSwitch (lockdown_spec sys s hosts nets) = Some msgs" "nft_apply_all msgs None = Inr t" "k_nft k' = t" "nd_killSwitchArmed s'"
proof -
  from assms obtain lo hosts nets where lo: "sy_lo sys = Some lo"
    and pa: "parseAllow nenv (rq_Control req @ rq_Bypass req) = Some (hosts, nets)" and tun: "nd_tunIndex s \<noteq> 0" "ok sys DialNft"
    by (auto simp: handleEnableKillSwitch_def split: if_splits option.splits prod.splits)
  have clean: "(if tableExists sys k = Some True then snd (deleteTable sys DeleteStale k) else k) = k"
    using assms(3) by (simp add: tableExists_def)
  have spec: "\<lparr>ks_TunIfIndex = word_of_int (nd_tunIndex s), ks_LoIfIndex = word_of_int lo, ks_Hosts = hosts,
      ks_Nets = nets @ [Prefix4 0x7F000000 8], ks_ServedSrc = nd_servedSrc s\<rparr> = lockdown_spec sys s hosts nets"
    by (simp add: lockdown_spec_def lo)
  obtain msgs where msgs: "enableKillSwitch (lockdown_spec sys s hosts nets) = Some msgs"
    using assms(1) tun lo pa by (auto simp: handleEnableKillSwitch_def Let_def clean spec split: option.splits prod.splits)
  then have "msgs \<noteq> []" by (auto simp: enableKillSwitch_def Let_def)
  obtain b k2 where b: "nft_batch sys sys_op.Arm msgs k = (b, k2)" by fastforce
  have "b = BatchOk" "k' = k2" "s' = s\<lparr>nd_killSwitchArmed := True\<rparr>"
    using assms(1,2) tun lo pa msgs b by (auto simp: handleEnableKillSwitch_def Let_def clean spec split: batch_result.splits)
  then have "nft_apply_all msgs None = Inr (k_nft k')"
    using b \<open>msgs \<noteq> []\<close> assms(3) by (auto simp: nft_batch_def split: call_outcome.splits sum.splits if_splits)
  with that pa lo msgs \<open>s' = _\<close> show thesis by simp
qed

lemma enable_answered:
  assumes "netd_answer nenv c req sys h = Some r" "reply_Err r = None" "rq_Verb req = VerbEnableKillSwitch" "k_nft (hp_kernel h) = None"
  obtains s s' k' where "hp_sess h = Some s" "handleEnableKillSwitch nenv sys req s (hp_kernel h) = (Some r, s', k')"
    "hp_sess (netd_step nenv (Request c req sys) h) = Some s'" "hp_kernel (netd_step nenv (Request c req sys) h) = k'"
    "hp_alive (netd_step nenv (Request c req sys) h)"
proof -
  from assms(1,2) obtain uid where uid: "hp_alive h" "hp_conns h c = Some uid" "netd_validate req = None"
    by (auto simp: netd_answer_def split: if_splits option.splits)
  obtain q sess k dropped where d: "netd_dispatch nenv sys uid req (hp_sess h) (hp_kernel h) = (q, sess, k, dropped)"
    by (metis prod_cases4)
  have q: "q = Some r" "\<not> dropped" using assms(1) uid d by (auto simp: netd_answer_def split: if_splits)
  obtain s where s: "authorize req (hp_sess h) = Inr s"
    using d q(1) assms(2,3) by (cases "authorize req (hp_sess h)") (auto simp: netd_dispatch_def verb_defs)
  then have hs: "hp_sess h = Some s" by (auto simp: authorize_def split: option.splits if_splits)
  obtain x s' k' where e: "handleEnableKillSwitch nenv sys req s (hp_kernel h) = (x, s', k')" by (metis prod_cases3)
  have "netd_dispatch nenv sys uid req (hp_sess h) (hp_kernel h) = (x, Some s', k', \<not> sy_sent sys)"
    using s e assms(3) by (simp add: netd_dispatch_def session_verb_def verb_defs Let_def)
  with d q have "x = Some r" "sess = Some s'" "k = k'" by simp_all
  then show thesis using that [OF hs] e d q uid by simp
qed

text \<open>C14: What the client takes for protection is protection: when no reply is outstanding, the machine carries no
  lockdown yet and the client's request to arm the kill switch, with the addresses and networks that the
  bring-up collected, is reported as done, then the helper lives, holds the lockdown, and the packets that
  leave the machine are exactly those by the tunnel or the loopback, to an address or into a network the
  client named, to the loopback network, from the served address, and DHCP. The request of this client
  never makes the helper panic.\<close>

theorem reported_lockdown_is_exact:
  assumes "netip_ok nenv env" and "list_all (entry_ok env) (control @ bypass)"
    and "lo_unread lo = []" and "k_nft (hp_kernel h) = None"
    and "linux_enableKillSwitch nenv sys OnTime control bypass (lo, h) = (None, lo', h')"
  shows "hp_alive h' \<and> (\<exists>s t. hp_sess h = Some s \<and> k_nft (hp_kernel h') = Some t \<and> map_option nd_killSwitchArmed (hp_sess h') = Some True
    \<and> (\<forall>p. leaves (Some t) p \<longleftrightarrow>
         pk_oif p = word_of_int (nd_tunIndex s) \<or> pk_oif p = word_of_int (the (sy_lo sys)) \<or> dhcp_packet p
         \<or> (\<exists>w. ipv4_dst p w \<and> (show4 w \<in> set (control @ bypass)
              \<or> (\<exists>n. is_v4net n \<and> net_String env n \<in> set (control @ bypass) \<and> Contains n (A4 w)) \<or> Contains (Prefix4 0x7F000000 8) (A4 w)))
         \<or> (\<exists>w. ipv4_src p w \<and> nd_servedSrc s = A4 w)))"
proof -
  define req where "req = blank_request\<lparr>rq_Verb := VerbEnableKillSwitch, rq_Control := control, rq_Bypass := bypass, rq_Version := netd_Version, rq_Token := lo_token lo\<rparr>"
  have req: "rq_Verb req = VerbEnableKillSwitch" "rq_Control req = control" "rq_Bypass req = bypass" by (simp_all add: req_def)
  obtain c where c: "lo_conn lo = Some c"
    using assms(5) by (auto simp: linux_enableKillSwitch_def fallible_def linux_do_def split: option.splits)
  obtain r where r: "netd_answer nenv c req sys h = Some r" "reply_Err r = None" and h': "h' = netd_step nenv (Request c req sys) h"
    using assms(3,5) c by (auto simp: linux_enableKillSwitch_def fallible_def linux_do_def Let_def req_def blank_request_def split: option.splits)
  from enable_answered [OF r req(1) assms(4)] obtain s s' k' where s: "hp_sess h = Some s"
      "handleEnableKillSwitch nenv sys req s (hp_kernel h) = (Some r, s', k')" "hp_sess h' = Some s'" "hp_kernel h' = k'" "hp_alive h'"
    unfolding h' by metis
  from enable_handled [OF s(2) r(2) assms(4)] obtain hosts nets msgs t where
      pa: "parseAllow nenv (control @ bypass) = Some (hosts, nets)" "enableKillSwitch (lockdown_spec sys s hosts nets) = Some msgs"
      "nft_apply_all msgs None = Inr t" "k_nft k' = t" "nd_killSwitchArmed s'"
    unfolding req by metis
  from parseAllow_entries [OF assms(1,2)] pa(1) have ent: "list_all is_v4net nets"
      "\<And>w. A4 w \<in> set hosts \<longleftrightarrow> show4 w \<in> set (control @ bypass)" "\<And>n. is_v4net n \<Longrightarrow> n \<in> set nets \<longleftrightarrow> net_String env n \<in> set (control @ bypass)"
    by auto
  have bits: "\<forall>n \<in> set (ks_Nets (lockdown_spec sys s hosts nets)). Nft.prefix_Bits n \<le> 128"
    using ent(1) by (auto simp: lockdown_spec_def list_all_iff is_v4net_def)
  have nets: "(\<exists>n \<in> set nets. Contains n a) \<longleftrightarrow> (\<exists>n. is_v4net n \<and> net_String env n \<in> set (control @ bypass) \<and> Contains n a)" for a
    using ent(1,3) by (auto simp: list_all_iff)
  have eq: "(A4 w \<in> set (ks_Hosts (lockdown_spec sys s hosts nets)) \<or> (\<exists>n \<in> set (ks_Nets (lockdown_spec sys s hosts nets)). Contains n (A4 w))) \<longleftrightarrow>
      show4 w \<in> set (control @ bypass) \<or> (\<exists>n. is_v4net n \<and> net_String env n \<in> set (control @ bypass) \<and> Contains n (A4 w))
      \<or> Contains (Prefix4 0x7F000000 8) (A4 w)" for w
    unfolding nets [of "A4 w", symmetric] ent(2) [of w, symmetric] by (auto simp: lockdown_spec_def simp del: Contains.simps)
  have fields: "ks_TunIfIndex (lockdown_spec sys s hosts nets) = word_of_int (nd_tunIndex s)"
      "ks_LoIfIndex (lockdown_spec sys s hosts nets) = word_of_int (the (sy_lo sys))" "ks_ServedSrc (lockdown_spec sys s hosts nets) = nd_servedSrc s"
    by (simp_all add: lockdown_spec_def)
  from lockdown_packets [OF pa(2) bits, unfolded eq fields] pa(3) obtain t' where t': "t = Some t'" and packets: "\<forall>p. leaves (Some t') p \<longleftrightarrow>
         pk_oif p = word_of_int (nd_tunIndex s) \<or> pk_oif p = word_of_int (the (sy_lo sys)) \<or> dhcp_packet p
         \<or> (\<exists>w. ipv4_dst p w \<and> (show4 w \<in> set (control @ bypass)
              \<or> (\<exists>n. is_v4net n \<and> net_String env n \<in> set (control @ bypass) \<and> Contains n (A4 w)) \<or> Contains (Prefix4 0x7F000000 8) (A4 w)))
         \<or> (\<exists>w. ipv4_src p w \<and> nd_servedSrc s = A4 w)"
    by auto
  have "k_nft (hp_kernel h') = Some t'" "map_option nd_killSwitchArmed (hp_sess h') = Some True" using s(3,4) pa(4,5) t' by simp_all
  with s(1,5) packets show ?thesis by blast
qed

text \<open>What a clean-up of the bring-up is on Linux; closing the device and the netstack and stopping the excluder
  send nothing to the helper.\<close>

fun linux_cleanup :: "netd_env \<Rightarrow> sys \<times> round_trip \<Rightarrow> os_call \<Rightarrow> linuxOS \<times> helper \<Rightarrow> linuxOS \<times> helper" where
  "linux_cleanup env (sys, trip) (RemoveRoutes ps) w = linux_removeRoutes env sys trip ps w"
| "linux_cleanup env (sys, trip) EnablePhysicalIPv6 w = linux_enablePhysicalIPv6 env sys trip w"
| "linux_cleanup env (sys, trip) ReleaseDNS w = linux_releaseDNS env sys trip w"
| "linux_cleanup env (sys, trip) RevokeServedEgress w = linux_revokeServedEgress env sys trip w"
| "linux_cleanup env (sys, trip) DisableKillSwitch w = linux_disableKillSwitch env sys trip w"
| "linux_cleanup env _ _ w = w"

fun linux_cleanups :: "netd_env \<Rightarrow> (sys \<times> round_trip) list \<Rightarrow> os_call list \<Rightarrow> linuxOS \<times> helper \<Rightarrow> linuxOS \<times> helper" where
  "linux_cleanups env (o1 # os) (c # cs) w = linux_cleanups env os cs (linux_cleanup env o1 c w)"
| "linux_cleanups env _ _ w = w"

lemma linux_do_keeps_lock:
  assumes "k_nft (hp_kernel h) \<noteq> None" and "rq_Verb req \<notin> {VerbOpen, VerbEnableKillSwitch, VerbDisableKillSwitch, VerbRecoverKillSwitch}"
  shows "k_nft (hp_kernel (snd (snd (linux_do env sys trip req (lo, h))))) \<noteq> None"
proof -
  have "\<not> lifting_event (Request c (req\<lparr>rq_Version := netd_Version, rq_Token := lo_token lo\<rparr>) sys) h" for c
    using assms(2) by (auto simp: lifting_event_def lifting_verb_def)
  then have "k_nft (hp_kernel (netd_step env (Request c (req\<lparr>rq_Version := netd_Version, rq_Token := lo_token lo\<rparr>) sys) h)) \<noteq> None" for c
    using step_lifts [OF assms(1)] by blast
  then show ?thesis using assms(1) by (simp add: linux_do_def Let_def del: netd_step.simps split: option.split)
qed

lemma linux_cleanup_keeps_lock:
  assumes "k_nft (hp_kernel (snd w)) \<noteq> None" and "c \<noteq> DisableKillSwitch"
  shows "k_nft (hp_kernel (snd (linux_cleanup env o1 c w))) \<noteq> None"
proof -
  obtain lo h where w: "w = (lo, h)" by fastforce
  obtain sys trip where o1: "o1 = (sys, trip)" by fastforce
  show ?thesis using assms linux_do_keeps_lock [of h] unfolding w o1
    by (cases c) (simp_all add: linux_removeRoutes_def linux_routes_def linux_silent_def linux_enablePhysicalIPv6_def linux_releaseDNS_def
        linux_revokeServedEgress_def verb_defs)
qed

lemma linux_cleanups_keep_lock:
  "k_nft (hp_kernel (snd w)) \<noteq> None \<Longrightarrow> DisableKillSwitch \<notin> set cs \<Longrightarrow> k_nft (hp_kernel (snd (linux_cleanups env os cs w))) \<noteq> None"
proof (induction env os cs w rule: linux_cleanups.induct)
  case (1 env o1 os c cs w)
  then have "k_nft (hp_kernel (snd (linux_cleanup env o1 c w))) \<noteq> None" by (intro linux_cleanup_keeps_lock) auto
  from "1.IH" [OF this] "1.prems"(2) show ?case by simp
qed simp_all

lemma linux_close_keeps_lock:
  assumes "k_nft (hp_kernel (snd w)) \<noteq> None" shows "k_nft (hp_kernel (snd (linux_close env sys trip w))) \<noteq> None"
proof -
  obtain lo h where w: "w = (lo, h)" by fastforce
  have "k_nft (hp_kernel (snd (snd (linux_do env sys trip (blank_request\<lparr>rq_Verb := VerbClose\<rparr>) (lo, h))))) \<noteq> None"
    using assms by (intro linux_do_keeps_lock) (simp_all add: w verb_defs)
  then have "k_nft (hp_kernel (netd_step env (Ended c sys) (snd (snd (linux_do env sys trip (blank_request\<lparr>rq_Verb := VerbClose\<rparr>) (lo, h)))))) \<noteq> None" for c
    using step_lifts [of _ env "Ended c sys"] unfolding lifting_event_def by blast
  then show ?thesis using assms by (simp add: w linux_close_def del: netd_step.simps split: option.split)
qed

lemma startTunnel_never_unlocks:
  "startTunnel env cfg policy ans vw = (None, calls) \<Longrightarrow> DisableKillSwitch \<notin> set calls"
  by (auto simp: startTunnel_def arm_tunnel_def Let_def exclude_calls_def drop_bypass_def split: option.splits if_splits)

text \<open>C40: A bring-up that fails because the answer to arming came too late leaves the machine locked: the helper
  has installed the lockdown, the client reports a failure and unwinds, and none of its clean-ups, with
  whatever outcome, nor the closing of the helper session that follows lifts it again.\<close>

theorem arming_too_late_stays_locked:
  assumes "startTunnel env cfg policy ans vw = (None, before @ EnableKillSwitch control bypass False # cleanup)"
    and "linux_enableKillSwitch nenv sys TooLate control bypass w = (e, w1)" and "k_nft (hp_kernel (snd w1)) \<noteq> None"
    and "length os = length cleanup" and "linux_cleanups nenv os cleanup w1 = w2"
  shows "(lo_conn (fst w) \<noteq> None \<longrightarrow> e = Some ErrTransport) \<and> e \<noteq> None \<and> k_nft (hp_kernel (snd (linux_close nenv sys' trip w2))) \<noteq> None"
proof -
  have "e = Some (if lo_conn (fst w) = None then ErrHelperUnreachable else ErrTransport)"
    using assms(2) by (auto simp: linux_enableKillSwitch_def fallible_def linux_do_def Let_def split: prod.splits option.splits)
  moreover have "k_nft (hp_kernel (snd w2)) \<noteq> None"
    using linux_cleanups_keep_lock [OF assms(3), of cleanup] startTunnel_never_unlocks [OF assms(1)] assms(5) by auto
  ultimately show ?thesis using linux_close_keeps_lock by simp
qed

section \<open>Runs of the client\<close>

text \<open>A concrete reading of addresses: an IPv6 address is written as its bits after a colon.\<close>

definition show_bits :: "128 word \<Rightarrow> string" where
  "show_bits w = CHR '':'' # map (\<lambda>i. if bit w i then CHR ''1'' else CHR ''0'') [0..<128]"

definition bits_env :: split_env where
  "bits_env = plain_env\<lparr>se_string6 := show_bits\<rparr>"

definition bits_parse :: "string \<Rightarrow> addr option" where
  "bits_parse s =
     (if CHR ''/'' \<in> set s then None
      else if take 1 s = [CHR '':''] then Some (A6 (horner_sum of_bool 2 (map (\<lambda>c. c = CHR ''1'') (drop 1 s))) [])
      else map_option A4 (parse4 s))"

definition bits_netd :: netd_env where
  "bits_netd = \<lparr>ne_parseAddr = bits_parse, ne_parsePrefix = ParseCIDR bits_env, ne_addrString = (\<lambda>a. [])\<rparr>"

lemma bits_netip_ok: "netip_ok bits_netd bits_env"
proof -
  have "take 1 (show4 w) \<noteq> [CHR '':'']" for w
    using show4_chars [of "CHR '':''" w] by (cases "show4 w") (auto simp: is_digit_def)
  then have "bits_parse (show4 w) = Some (A4 w)" for w
    using show4_chars [of "CHR ''/''" w] by (auto simp: bits_parse_def parse4_show4 is_digit_def)
  moreover have "bits_parse (show_bits w) = Some (A6 w [])" for w
  proof -
    have "map (\<lambda>c. c = CHR ''1'') (drop 1 (show_bits w)) = map (bit w) [0..<128]" by (simp add: show_bits_def)
    then have "horner_sum of_bool 2 (map (\<lambda>c. c = CHR ''1'') (drop 1 (show_bits w))) = w"
      by (simp only: horner_sum_bit_eq_take_bit) (simp add: take_bit_word_eq_self)
    then show ?thesis by (auto simp: bits_parse_def show_bits_def)
  qed
  moreover have "TrimSpace (show_bits w) = show_bits w" for w
    by (rule TrimSpace_visible) (auto simp: show_bits_def list_all_iff visible_def char_byte_def)
  moreover have "show_bits w \<noteq> []" for w by (simp add: show_bits_def)
  moreover have "bits_parse (net_String bits_env p) = None \<and> ParseCIDR bits_env (net_String bits_env p) = Some p" if v4: "is_v4net p" for p
  proof -
    obtain w n where p: "p = Prefix4 w n" "n \<le> 32" "push_bit (32 - n) (drop_bit (32 - n) w) = w" using is_v4net_masked [OF v4] by blast
    have "CHR ''/'' \<in> set (net_String bits_env p)" by (simp add: p(1))
    then show ?thesis using ParseCIDR_net [OF p(2), of bits_env w] p(3) by (simp add: p(1) bits_parse_def del: net_String.simps)
  qed
  ultimately show ?thesis by (simp add: netip_ok_def bits_netd_def bits_env_def)
qed

definition served_client :: "linuxOS \<times> helper" where
  "served_client = (let (e, w) = linux_connect bits_netd all_done OnTime 1 1000 (Some True) (\<lparr>lo_conn = None, lo_token = [], lo_unread = []\<rparr>, fresh_helper)
     in snd (linux_configureTunInterface bits_netd all_done OnTime tunIP 24 (snd (linux_createTUN bits_netd all_done OnTime True w))))"

definition demo_control :: "string list" where "demo_control = [''192.0.2.1'']"
definition demo_nets :: "string list" where "demo_nets = [''198.51.100.0/24'']"

definition demo_lock :: "linux_error option \<times> linuxOS \<times> helper" where
  "demo_lock = linux_enableKillSwitch bits_netd all_done OnTime demo_control demo_nets served_client"

lemma demo_lock_run:
  "lo_unread (fst served_client) = []" "Option.is_none (k_nft (hp_kernel (snd served_client)))"
  "fst demo_lock = None" "map_option nd_tunIndex (hp_sess (snd served_client)) = Some 7" "map_option nd_servedSrc (hp_sess (snd served_client)) = Some NoAddr"
  by code_simp+

lemma demo_entries: "list_all (entry_ok bits_env) (demo_control @ demo_nets)"
proof -
  have "''192.0.2.1'' = show4 0xC0000201" "''198.51.100.0/24'' = net_String bits_env (Masked (Prefix4 0xC6336400 24))" by code_simp+
  moreover have "(24 :: nat) \<le> 32" by simp
  then have "is_v4net (Masked (Prefix4 0xC6336400 24))" unfolding is_v4net_def by blast
  ultimately have "entry_ok bits_env ''192.0.2.1''" "entry_ok bits_env ''198.51.100.0/24''" unfolding entry_ok_def by blast+
  then show ?thesis by (simp add: demo_control_def demo_nets_def)
qed

text \<open>The only network those entries name.\<close>

lemma demo_entries_net:
  assumes "is_v4net n" "net_String bits_env n \<in> set (demo_control @ demo_nets)"
  shows "n = Prefix4 0xC6336400 24"
proof -
  have "ParseCIDR bits_env (net_String bits_env n) = Some n" using is_v4net_masked [OF assms(1)] ParseCIDR_net by fastforce
  moreover have "ParseCIDR bits_env ''192.0.2.1'' = None" "ParseCIDR bits_env ''198.51.100.0/24'' = Some (Prefix4 0xC6336400 24)" by code_simp+
  ultimately show ?thesis using assms(2) by (auto simp: demo_control_def demo_nets_def)
qed

theorem reported_lockdown_is_exact_witness:
  "hp_alive (snd (snd demo_lock)) \<and> (\<exists>t. k_nft (hp_kernel (snd (snd demo_lock))) = Some t
     \<and> leaves (Some t) (demo_packet 0xC0000201) \<and> \<not> leaves (Some t) (demo_packet 0x08080808))"
proof -
  obtain lo' h' where run: "demo_lock = (None, lo', h')" using demo_lock_run(3) by (metis prod.collapse)
  then have run': "linux_enableKillSwitch bits_netd all_done OnTime demo_control demo_nets (fst served_client, snd served_client) = (None, lo', h')"
    by (simp add: demo_lock_def)
  have dst: "ipv4_dst (demo_packet d) w \<longleftrightarrow> w = d" for d w
    by (auto simp: ipv4_dst_def demo_packet_def slice_def nfprotoIPv4_def put_uint32_inject)
  have out: "pk_oif (demo_packet d) = 2" "dhcp_packet (demo_packet d) \<longleftrightarrow> False" for d
    by (simp_all add: demo_packet_def dhcp_packet_def ipprotoUDP_def)
  have host: "show4 0xC0000201 \<in> set (demo_control @ demo_nets)" "show4 0x08080808 \<notin> set (demo_control @ demo_nets)"
    "\<not> Contains (Prefix4 0xC6336400 24) (A4 0x08080808)" "\<not> Contains (Prefix4 0x7F000000 8) (A4 0x08080808)" by code_simp+
  have lone: "the (sy_lo all_done) = 1" by (simp add: all_done_def)
  have free: "k_nft (hp_kernel (snd served_client)) = None" using demo_lock_run(2) by (simp add: Option.is_none_def)
  from reported_lockdown_is_exact [OF bits_netip_ok demo_entries demo_lock_run(1) free run']
  obtain s t where alive: "hp_alive h'" and s: "hp_sess (snd served_client) = Some s" and t: "k_nft (hp_kernel h') = Some t"
    and exact: "\<forall>p. leaves (Some t) p \<longleftrightarrow> pk_oif p = word_of_int (nd_tunIndex s) \<or> pk_oif p = word_of_int (the (sy_lo all_done)) \<or> dhcp_packet p
         \<or> (\<exists>w. ipv4_dst p w \<and> (show4 w \<in> set (demo_control @ demo_nets)
              \<or> (\<exists>n. is_v4net n \<and> net_String bits_env n \<in> set (demo_control @ demo_nets) \<and> Contains n (A4 w)) \<or> Contains (Prefix4 0x7F000000 8) (A4 w)))
         \<or> (\<exists>w. ipv4_src p w \<and> nd_servedSrc s = A4 w)" by blast
  have s7: "nd_tunIndex s = 7" "nd_servedSrc s = NoAddr" using demo_lock_run(4,5) s by simp_all
  have oif: "(2 :: uint32) \<noteq> word_of_int 7" "(2 :: uint32) \<noteq> word_of_int 1" by simp_all
  have packets: "leaves (Some t) (demo_packet d) \<longleftrightarrow> show4 d \<in> set (demo_control @ demo_nets)
      \<or> (\<exists>n. is_v4net n \<and> net_String bits_env n \<in> set (demo_control @ demo_nets) \<and> Contains n (A4 d)) \<or> Contains (Prefix4 0x7F000000 8) (A4 d)" for d
    unfolding spec [OF exact, of "demo_packet d"] dst out lone s7 using oif by simp
  have "leaves (Some t) (demo_packet 0xC0000201)" unfolding packets using host(1) by blast
  moreover have "\<not> leaves (Some t) (demo_packet 0x08080808)" unfolding packets using host(2,3,4) demo_entries_net by blast
  ultimately show ?thesis using alive t by (simp add: run)
qed

definition refused_arm :: sys where
  "refused_arm = all_done\<lparr>sy_outcome := (\<lambda>op. if op = sys_op.Arm then NotDone else Done)\<rparr>"

definition late_start :: "linuxOS \<times> helper" where
  "late_start = snd (linux_captureDNS bits_netd all_done OnTime (linux_disablePhysicalIPv6 bits_netd all_done TooLate served_client))"

text \<open>C39: A round trip that passes its deadline is not resynchronised: the reply it gave up on stays in the
  connection and is read as the answer to the next request. Here the bring-up's request to turn IPv6
  off is served too late; each later request reads the reply of the one before it, so when the helper
  fails to install the lockdown the client reads the reply of the resolver capture and takes the kill
  switch as armed, while the machine has none and every packet leaves.\<close>

theorem late_reply_masks_refusal:
  "fst (linux_enableKillSwitch bits_netd refused_arm OnTime demo_control demo_nets late_start) = None
   \<and> k_nft (hp_kernel (snd (snd (linux_enableKillSwitch bits_netd refused_arm OnTime demo_control demo_nets late_start)))) = None
   \<and> (\<forall>p. leaves (k_nft (hp_kernel (snd (snd (linux_enableKillSwitch bits_netd refused_arm OnTime demo_control demo_nets late_start))))) p)
   \<and> fst (linux_enableKillSwitch bits_netd refused_arm OnTime demo_control demo_nets served_client) \<noteq> None"
proof -
  have 1: "Option.is_none (fst (linux_enableKillSwitch bits_netd refused_arm OnTime demo_control demo_nets late_start))" by code_simp
  have 2: "Option.is_none (k_nft (hp_kernel (snd (snd (linux_enableKillSwitch bits_netd refused_arm OnTime demo_control demo_nets late_start)))))" by code_simp
  have 3: "\<not> Option.is_none (fst (linux_enableKillSwitch bits_netd refused_arm OnTime demo_control demo_nets served_client))" by code_simp
  from 1 2 3 show ?thesis by (simp add: Option.is_none_def leaves_def)
qed

section \<open>A bring-up\<close>

definition demo_config :: tunnel_config where
  "demo_config = \<lparr>tc_Coordinators = [''http://192.0.2.1:443''], tc_STUNURL = [], tc_TURNURL = [], tc_KillSwitch = True, tc_ServeEgress = True\<rparr>"

definition demo_answers :: "bool \<Rightarrow> os_answers" where
  "demo_answers armed = \<lparr>an_gateway = Some no_gateway, an_createTUN = True, an_configureTun = True, an_splitDefault = True, an_netstack = True,
     an_captureDNS = True, an_servedEgress = Some ''192.0.2.77'', an_killSwitch = armed\<rparr>"

definition demo_views :: late_views where
  "demo_views = \<lparr>lv_poolLive = [''192.0.2.2''], lv_poolArm = [''192.0.2.2''], lv_poolUnwind = [''192.0.2.2'', ''192.0.2.3''],
     lv_dynamicArm = [], lv_dynamicUnwind = [''203.0.113.9'']\<rparr>"

definition demo_calls :: "bool \<Rightarrow> os_call list" where
  "demo_calls armed = snd (startTunnel plain_env demo_config demo_bypass (demo_answers armed) demo_views)"

lemma demo_bringup:
  "views_ok plain_env demo_bypass demo_views"
  "Option.is_none (fst (startTunnel plain_env demo_config demo_bypass (demo_answers False) demo_views))"
  "\<not> Option.is_none (fst (startTunnel plain_env demo_config demo_bypass (demo_answers True) demo_views))"
  "locked plain_env demo_config demo_bypass demo_views = ([''192.0.2.1'', ''192.0.2.2''], [''198.51.100.0/24''])"
  "filter refused (demo_calls False) = [EnableKillSwitch [''192.0.2.1'', ''192.0.2.2''] [''198.51.100.0/24''] False]"
  by code_simp+

lemma demo_served: "map_option tn_servedSource (fst (startTunnel plain_env demo_config demo_bypass (demo_answers True) demo_views)) = Some ''192.0.2.77''"
  by code_simp

text \<open>The bring-up is refused at its last step; of what it had done at most the device's configuration stays, and the
  lockdown, should it have been installed after all.\<close>

theorem failed_bringup_undone_witness:
  "\<exists>m. os_run plain_env {} (demo_calls False) {} m \<and> m \<subseteq> {Lockdown [''192.0.2.1'', ''192.0.2.2''] [''198.51.100.0/24''], DeviceConfig}"
proof -
  have failed: "startTunnel plain_env demo_config demo_bypass (demo_answers False) demo_views = (None, demo_calls False)"
    using demo_bringup(2) by (simp add: prod_eq_iff Option.is_none_def demo_calls_def)
  obtain m where run: "os_run plain_env {} (demo_calls False) {} m" using quiet_run by blast
  from failed_bringup_undone [OF demo_bringup(1) failed run] show ?thesis unfolding demo_bringup(5) using run by auto
qed


definition demo_cleanup :: "os_call list" where
  "demo_cleanup = tl (dropWhile (\<lambda>c. \<not> refused c) (demo_calls False))"

definition too_late :: "linux_error option \<times> linuxOS \<times> helper" where
  "too_late = linux_enableKillSwitch bits_netd all_done TooLate [''192.0.2.1'', ''192.0.2.2''] [''198.51.100.0/24''] served_client"

lemma demo_cleanup_run:
  "demo_calls False = takeWhile (\<lambda>c. \<not> refused c) (demo_calls False)
     @ EnableKillSwitch [''192.0.2.1'', ''192.0.2.2''] [''198.51.100.0/24''] False # demo_cleanup"
  "\<not> Option.is_none (k_nft (hp_kernel (snd (snd too_late))))" "\<not> Option.is_none (lo_conn (fst served_client))"
  by code_simp+

theorem arming_too_late_stays_locked_witness:
  "fst too_late = Some ErrTransport
   \<and> k_nft (hp_kernel (snd (linux_close bits_netd all_done OnTime
       (linux_cleanups bits_netd (replicate (length demo_cleanup) (all_done, OnTime)) demo_cleanup (snd too_late))))) \<noteq> None"
proof -
  have failed: "startTunnel plain_env demo_config demo_bypass (demo_answers False) demo_views = (None, takeWhile (\<lambda>c. \<not> refused c) (demo_calls False)
     @ EnableKillSwitch [''192.0.2.1'', ''192.0.2.2''] [''198.51.100.0/24''] False # demo_cleanup)"
    using demo_bringup(2) unfolding demo_cleanup_run(1) [symmetric] by (simp add: prod_eq_iff Option.is_none_def demo_calls_def)
  have late: "linux_enableKillSwitch bits_netd all_done TooLate [''192.0.2.1'', ''192.0.2.2''] [''198.51.100.0/24''] served_client = (fst too_late, snd too_late)"
    by (simp add: too_late_def)
  have locked: "k_nft (hp_kernel (snd (snd too_late))) \<noteq> None" and conn: "lo_conn (fst served_client) \<noteq> None"
    using demo_cleanup_run(2,3) by (simp_all add: Option.is_none_def)
  from arming_too_late_stays_locked [OF failed late locked, of "replicate (length demo_cleanup) (all_done, OnTime)" _ all_done OnTime] conn
  show ?thesis by simp
qed

end
