(* ===== verification/Invite.thy ===== *)
theory Invite
  imports Chain
begin

text \<open>
  Invites (\<open>core/coldstart/secret.go\<close>): the text that carries everything a new client needs. The three
  wire versions differ in which of the optional fields they hold; the length of the last field, the
  coordinator's address, is what is left over.
\<close>

section \<open>Invites\<close>

definition SecretIDLen :: nat where "SecretIDLen = 8"

definition SecretLen :: nat where "SecretLen = 32"

text \<open>\<open>GenerateSecret\<close> on what the two reads of random bytes returned.\<close>

definition GenerateSecret :: "bytes option \<Rightarrow> bytes option \<Rightarrow> (string \<times> bytes) option" where
  "GenerateSecret ident sec = (case (ident, sec) of (Some i, Some s) \<Rightarrow> Some (hex_encode i, s) | _ \<Rightarrow> None)"

record invite =
  iv_Coordinator :: string
  iv_SecretID :: string
  iv_Secret :: bytes
  iv_PublicKey :: bytes
  iv_AdmissionKey :: bytes
  iv_CRL :: bytes

datatype invite_error =
    BadSecretID | BadSecretLength | BadPublicKeyLength | CRLWithoutAnchor | BadAdmissionKeyLength | CRLTooLarge
  | MissingPrefix | BadBase64 | EmptyInvite | UnsupportedVersion byte | BadInviteLength | TruncatedCRLLength | TruncatedCRL

definition inviteV1 :: byte where "inviteV1 = 1"

definition inviteV2 :: byte where "inviteV2 = 2"

definition inviteV3 :: byte where "inviteV3 = 3"

definition crlLenPrefixSize :: nat where "crlLenPrefixSize = 2"

definition maxCRLLen :: nat where "maxCRLLen = 65535"

definition invite_prefix :: string where "invite_prefix = ''bacchus1:''"

definition EncodeInvite :: "invite \<Rightarrow> invite_error + string" where
  "EncodeInvite iv =
     (case hex_decode (iv_SecretID iv) of
        None \<Rightarrow> Inl BadSecretID
      | Some ident \<Rightarrow>
          if length ident \<noteq> SecretIDLen then Inl BadSecretID
          else if length (iv_Secret iv) \<noteq> SecretLen then Inl BadSecretLength
          else if length (iv_PublicKey iv) \<noteq> PublicKeySize then Inl BadPublicKeyLength
          else if iv_CRL iv \<noteq> [] \<and> iv_AdmissionKey iv = [] then Inl CRLWithoutAnchor
          else if iv_AdmissionKey iv \<noteq> [] \<and> length (iv_AdmissionKey iv) \<noteq> PublicKeySize then Inl BadAdmissionKeyLength
          else if iv_CRL iv \<noteq> [] \<and> length (iv_CRL iv) > maxCRLLen then Inl CRLTooLarge
          else
            (let version = (if iv_CRL iv \<noteq> [] then inviteV3 else if iv_AdmissionKey iv \<noteq> [] then inviteV2 else inviteV1);
                 buf = [version] @ ident @ iv_Secret iv @ iv_PublicKey iv @ iv_AdmissionKey iv
                       @ (if version = inviteV3 then put_uint16 (word_of_nat (length (iv_CRL iv))) @ iv_CRL iv else [])
                       @ bytes_of_string (iv_Coordinator iv)
             in Inr (invite_prefix @ raw_encode url_alphabet buf)))"

text \<open>A slice expression \<open>buf[off : off+n]\<close> whose bounds were checked.\<close>

definition slice_at :: "bytes \<Rightarrow> nat \<Rightarrow> nat \<Rightarrow> bytes" where
  "slice_at buf off n = take n (drop off buf)"

definition decode_crl :: "bytes \<Rightarrow> nat \<Rightarrow> bool \<Rightarrow> invite_error + bytes \<times> nat" where
  "decode_crl buf off hasCRL =
     (if \<not> hasCRL then Inr ([], off)
      else if off + crlLenPrefixSize > length buf then Inl TruncatedCRLLength
      else
        (let crlLen = unat (get_uint16 (slice_at buf off crlLenPrefixSize)); off = off + crlLenPrefixSize
         in if off + crlLen > length buf then Inl TruncatedCRL else Inr (slice_at buf off crlLen, off + crlLen)))"

definition decode_body :: "bytes \<Rightarrow> nat \<Rightarrow> bool \<Rightarrow> invite_error + invite" where
  "decode_body buf admissionLen hasCRL =
     (let off = 1
      in if off + SecretIDLen + SecretLen + PublicKeySize + admissionLen > length buf then Inl BadInviteLength
         else
           (let off1 = off + SecretIDLen; off2 = off1 + SecretLen; off3 = off2 + PublicKeySize; off4 = off3 + admissionLen
            in case decode_crl buf off4 hasCRL of
                 Inl e \<Rightarrow> Inl e
               | Inr (crl, off5) \<Rightarrow>
                   if off5 \<ge> length buf then Inl BadInviteLength
                   else Inr \<lparr>iv_Coordinator = string_of_bytes (drop off5 buf), iv_SecretID = hex_encode (slice_at buf off SecretIDLen),
                             iv_Secret = slice_at buf off1 SecretLen, iv_PublicKey = slice_at buf off2 PublicKeySize,
                             iv_AdmissionKey = slice_at buf off3 admissionLen, iv_CRL = crl\<rparr>))"

definition DecodeInvite :: "string \<Rightarrow> invite_error + invite" where
  "DecodeInvite s =
     (if length s \<le> length invite_prefix \<or> take (length invite_prefix) s \<noteq> invite_prefix then Inl MissingPrefix
      else case raw_decode url_alphabet (drop (length invite_prefix) s) of
        None \<Rightarrow> Inl BadBase64
      | Some buf \<Rightarrow>
          if buf = [] then Inl EmptyInvite
          else if hd buf = inviteV1 then decode_body buf 0 False
          else if hd buf = inviteV2 then decode_body buf PublicKeySize False
          else if hd buf = inviteV3 then decode_body buf PublicKeySize True
          else Inl (UnsupportedVersion (hd buf)))"


section \<open>Round trips\<close>

lemma slice_at_append: "length a = off \<Longrightarrow> length b = n \<Longrightarrow> slice_at (a @ b @ c) off n = b"
  by (auto simp: slice_at_def)

definition invite_body :: "byte \<Rightarrow> bytes \<Rightarrow> bytes \<Rightarrow> bytes \<Rightarrow> bytes \<Rightarrow> bytes \<Rightarrow> bytes" where
  "invite_body v ident sec pub adm rest = [v] @ ident @ sec @ pub @ adm @ rest"

lemma body_slices:
  assumes "length ident = SecretIDLen" "length sec = SecretLen" "length pub = PublicKeySize" "length adm = n"
  shows "slice_at (invite_body v ident sec pub adm rest) 1 SecretIDLen = ident"
    and "slice_at (invite_body v ident sec pub adm rest) (1 + SecretIDLen) SecretLen = sec"
    and "slice_at (invite_body v ident sec pub adm rest) (1 + SecretIDLen + SecretLen) PublicKeySize = pub"
    and "slice_at (invite_body v ident sec pub adm rest) (1 + SecretIDLen + SecretLen + PublicKeySize) n = adm"
    and "drop (1 + SecretIDLen + SecretLen + PublicKeySize + n) (invite_body v ident sec pub adm rest) = rest"
    and "length (invite_body v ident sec pub adm rest) = 1 + SecretIDLen + SecretLen + PublicKeySize + n + length rest"
  using assms by (simp_all add: slice_at_def invite_body_def)

lemma decode_body_plain:
  assumes "length ident = SecretIDLen" "length sec = SecretLen" "length pub = PublicKeySize" "length adm = n"
  shows "decode_body (invite_body v ident sec pub adm rest) n False =
    (if rest = [] then Inl BadInviteLength
     else Inr \<lparr>iv_Coordinator = string_of_bytes rest, iv_SecretID = hex_encode ident, iv_Secret = sec, iv_PublicKey = pub, iv_AdmissionKey = adm, iv_CRL = []\<rparr>)"
  unfolding decode_body_def decode_crl_def Let_def body_slices [OF assms] by (simp add: body_slices(5) [OF assms, simplified])

lemma decode_body_crl:
  assumes "length ident = SecretIDLen" "length sec = SecretLen" "length pub = PublicKeySize" "length adm = n" "length crl \<le> maxCRLLen"
  shows "decode_body (invite_body v ident sec pub adm (put_uint16 (word_of_nat (length crl)) @ crl @ rest)) n True =
    (if rest = [] then Inl BadInviteLength
     else Inr \<lparr>iv_Coordinator = string_of_bytes rest, iv_SecretID = hex_encode ident, iv_Secret = sec, iv_PublicKey = pub, iv_AdmissionKey = adm, iv_CRL = crl\<rparr>)"
proof -
  let ?len = "put_uint16 (word_of_nat (length crl))" and ?off = "1 + SecretIDLen + SecretLen + PublicKeySize + n"
  let ?buf = "invite_body v ident sec pub adm (?len @ crl @ rest)"
  have n: "unat (word_of_nat (length crl) :: uint16) = length crl" using assms(5) by (simp add: unat_of_nat maxCRLLen_def)
  have d: "drop ?off ?buf = ?len @ crl @ rest" by (rule body_slices(5) [OF assms(1-4)])
  have l: "length ?buf = ?off + (2 + length crl + length rest)" using body_slices(6) [OF assms(1-4), of v "?len @ crl @ rest"] by simp
  have s1: "slice_at ?buf ?off 2 = ?len" unfolding slice_at_def d by simp
  have d2: "drop (?off + 2) ?buf = crl @ rest" using arg_cong [OF d, of "drop 2"] by (simp add: add.commute)
  have s2: "slice_at ?buf (?off + 2) (length crl) = crl" unfolding slice_at_def d2 by simp
  have d3: "drop (?off + 2 + length crl) ?buf = rest" using arg_cong [OF d2, of "drop (length crl)"] by (simp add: add.commute add.left_commute)
  have crl: "decode_crl ?buf ?off True = Inr (crl, ?off + 2 + length crl)"
    unfolding decode_crl_def crlLenPrefixSize_def Let_def s1 get_put_uint16 n s2 l by simp
  have "decode_body ?buf n True = (case decode_crl ?buf ?off True of Inl e \<Rightarrow> Inl e | Inr (crl, off5) \<Rightarrow>
     if off5 \<ge> length ?buf then Inl BadInviteLength
     else Inr \<lparr>iv_Coordinator = string_of_bytes (drop off5 ?buf), iv_SecretID = hex_encode ident, iv_Secret = sec, iv_PublicKey = pub,
       iv_AdmissionKey = adm, iv_CRL = crl\<rparr>)"
    unfolding decode_body_def Let_def body_slices(1-4) [OF assms(1-4)] using l by simp
  then show ?thesis unfolding crl using l d3 by simp
qed

lemma DecodeInvite_body:
  "DecodeInvite (invite_prefix @ raw_encode url_alphabet (invite_body v ident sec pub adm rest)) =
     (if v = inviteV1 then decode_body (invite_body v ident sec pub adm rest) 0 False
      else if v = inviteV2 then decode_body (invite_body v ident sec pub adm rest) PublicKeySize False
      else if v = inviteV3 then decode_body (invite_body v ident sec pub adm rest) PublicKeySize True
      else Inl (UnsupportedVersion v))"
proof -
  have "raw_decode url_alphabet (raw_encode url_alphabet (invite_body v ident sec pub adm rest)) = Some (invite_body v ident sec pub adm rest)"
    by (simp add: alphabet_ok_def)
  moreover have "raw_encode url_alphabet [] = ([] :: string)" by (simp add: raw_encode_def)
  then have "raw_encode url_alphabet (invite_body v ident sec pub adm rest) \<noteq> []"
    using calculation by (metis append_is_Nil_conv invite_body_def list.distinct(1) option.inject raw_decode_encode alphabet_ok_def)
  ultimately show ?thesis by (simp add: DecodeInvite_def invite_body_def)
qed

lemma EncodeInvite_Inr:
  "EncodeInvite iv = Inr s \<longleftrightarrow>
     (\<exists>ident. hex_decode (iv_SecretID iv) = Some ident \<and> length ident = SecretIDLen \<and> length (iv_Secret iv) = SecretLen
       \<and> length (iv_PublicKey iv) = PublicKeySize \<and> (iv_AdmissionKey iv = [] \<longrightarrow> iv_CRL iv = [])
       \<and> (iv_AdmissionKey iv \<noteq> [] \<longrightarrow> length (iv_AdmissionKey iv) = PublicKeySize) \<and> length (iv_CRL iv) \<le> maxCRLLen
       \<and> s = invite_prefix @ raw_encode url_alphabet
           (invite_body (if iv_CRL iv \<noteq> [] then inviteV3 else if iv_AdmissionKey iv \<noteq> [] then inviteV2 else inviteV1)
             ident (iv_Secret iv) (iv_PublicKey iv) (iv_AdmissionKey iv)
             ((if iv_CRL iv \<noteq> [] then put_uint16 (word_of_nat (length (iv_CRL iv))) @ iv_CRL iv else []) @ bytes_of_string (iv_Coordinator iv))))"
  by (auto simp: EncodeInvite_def invite_body_def Let_def inviteV1_def inviteV2_def inviteV3_def split: option.splits if_splits)

text \<open>An invite that was encoded decodes to itself, with the identifier in lower case, unless it names no
  coordinator: that one is accepted by the encoder and refused by the decoder.\<close>

lemma decode_encoded:
  assumes "EncodeInvite iv = Inr s"
  shows "DecodeInvite s = (if iv_Coordinator iv = [] then Inl BadInviteLength
    else Inr (iv\<lparr>iv_SecretID := hex_encode (the (hex_decode (iv_SecretID iv)))\<rparr>))"
proof -
  obtain ident where e: "hex_decode (iv_SecretID iv) = Some ident" "length ident = SecretIDLen" "length (iv_Secret iv) = SecretLen"
      "length (iv_PublicKey iv) = PublicKeySize" "iv_AdmissionKey iv = [] \<longrightarrow> iv_CRL iv = []"
      "iv_AdmissionKey iv \<noteq> [] \<longrightarrow> length (iv_AdmissionKey iv) = PublicKeySize" "length (iv_CRL iv) \<le> maxCRLLen"
    and s: "s = invite_prefix @ raw_encode url_alphabet
           (invite_body (if iv_CRL iv \<noteq> [] then inviteV3 else if iv_AdmissionKey iv \<noteq> [] then inviteV2 else inviteV1)
             ident (iv_Secret iv) (iv_PublicKey iv) (iv_AdmissionKey iv)
             ((if iv_CRL iv \<noteq> [] then put_uint16 (word_of_nat (length (iv_CRL iv))) @ iv_CRL iv else []) @ bytes_of_string (iv_Coordinator iv)))"
    using assms unfolding EncodeInvite_Inr by auto
  have v: "inviteV1 \<noteq> inviteV2" "inviteV1 \<noteq> inviteV3" "inviteV2 \<noteq> inviteV3" by (simp_all add: inviteV1_def inviteV2_def inviteV3_def)
  have empty: "bytes_of_string (iv_Coordinator iv) = [] \<longleftrightarrow> iv_Coordinator iv = []" by (simp add: bytes_of_string_def)
  consider "iv_AdmissionKey iv = []" "iv_CRL iv = []" | "iv_AdmissionKey iv \<noteq> []" "iv_CRL iv = []" | "iv_AdmissionKey iv \<noteq> []" "iv_CRL iv \<noteq> []"
    using e(5) by blast
  then show ?thesis
  proof cases
    case 1
    then show ?thesis using decode_body_plain [OF e(2-4), of "[]" 0] by (simp add: s DecodeInvite_body empty e(1))
  next
    case 2
    then show ?thesis using decode_body_plain [OF e(2-4) e(6) [rule_format, OF 2(1)]] v by (simp add: s DecodeInvite_body empty e(1))
  next
    case 3
    then show ?thesis using decode_body_crl [OF e(2-4) e(6) [rule_format, OF 3(1)] e(7)] v by (simp add: s DecodeInvite_body empty e(1))
  qed
qed


lemma decode_body_Inr:
  assumes "decode_body buf n hasCRL = Inr iv"
  shows "\<exists>ident. iv_SecretID iv = hex_encode ident \<and> length ident = SecretIDLen" and "length (iv_Secret iv) = SecretLen"
    and "length (iv_PublicKey iv) = PublicKeySize" and "length (iv_AdmissionKey iv) = n" and "length (iv_CRL iv) \<le> maxCRLLen"
    and "\<not> hasCRL \<longrightarrow> iv_CRL iv = []" and "iv_Coordinator iv \<noteq> []"
proof -
  let ?off = "1 + SecretIDLen + SecretLen + PublicKeySize + n"
  from assms obtain crl off5 where fits: "?off \<le> length buf" and crl: "decode_crl buf ?off hasCRL = Inr (crl, off5)" "off5 < length buf"
    and iv: "iv = \<lparr>iv_Coordinator = string_of_bytes (drop off5 buf), iv_SecretID = hex_encode (slice_at buf 1 SecretIDLen),
        iv_Secret = slice_at buf (1 + SecretIDLen) SecretLen, iv_PublicKey = slice_at buf (1 + SecretIDLen + SecretLen) PublicKeySize,
        iv_AdmissionKey = slice_at buf (1 + SecretIDLen + SecretLen + PublicKeySize) n, iv_CRL = crl\<rparr>"
    by (auto simp: decode_body_def Let_def split: if_splits sum.splits)
  have len: "length (slice_at buf off k) = k" if "off + k \<le> ?off" for off k using that fits by (simp add: slice_at_def)
  show "\<exists>ident. iv_SecretID iv = hex_encode ident \<and> length ident = SecretIDLen" using len [of 1 SecretIDLen] iv by auto
  show "length (iv_Secret iv) = SecretLen" "length (iv_PublicKey iv) = PublicKeySize" "length (iv_AdmissionKey iv) = n"
    unfolding iv invite.select_convs by (rule len, simp)+
  have "length crl \<le> unat (w :: uint16)" if "crl = slice_at buf k (unat w)" for k w using that by (simp add: slice_at_def)
  moreover have "unat (w :: uint16) \<le> maxCRLLen" for w using unat_less_exp [of w] by (simp add: maxCRLLen_def)
  ultimately show "length (iv_CRL iv) \<le> maxCRLLen" "\<not> hasCRL \<longrightarrow> iv_CRL iv = []"
    using crl(1) iv by (auto simp: decode_crl_def Let_def split: if_splits intro: order_trans)
  have "drop off5 buf \<noteq> []" using crl(2) by simp
  then show "iv_Coordinator iv \<noteq> []" using iv by (simp add: string_of_bytes_def)
qed

text \<open>What was decoded can be encoded again, and decodes to the same invite.\<close>

lemma encode_decoded:
  assumes "DecodeInvite s = Inr iv"
  shows "\<exists>s'. EncodeInvite iv = Inr s' \<and> DecodeInvite s' = Inr iv"
proof -
  obtain buf n hasCRL where body: "decode_body buf n hasCRL = Inr iv" and n: "n = 0 \<and> \<not> hasCRL \<or> n = PublicKeySize"
    using assms by (auto simp: DecodeInvite_def split: if_splits option.splits)
  note d = decode_body_Inr [OF body]
  obtain ident where ident: "iv_SecretID iv = hex_encode ident" "length ident = SecretIDLen" using d(1) by blast
  have "(iv_AdmissionKey iv = [] \<longrightarrow> iv_CRL iv = []) \<and> (iv_AdmissionKey iv \<noteq> [] \<longrightarrow> length (iv_AdmissionKey iv) = PublicKeySize)"
    using n d(4,6) by (auto simp: PublicKeySize_def)
  then obtain s' where s': "EncodeInvite iv = Inr s'"
    using ident d(2,3,5) by (auto simp: EncodeInvite_Inr hex_decode_encode)
  then have "DecodeInvite s' = Inr iv" using decode_encoded [OF s'] d(7) ident(1) by (simp add: hex_decode_encode)
  with s' show ?thesis by blast
qed

text \<open>C31: Invites survive the trip through their text, in both directions. An invite that the encoder accepts
  decodes to itself, with its identifier in lower case; the one exception is an invite that names no
  coordinator, which the encoder accepts and the decoder refuses. An invite that was decoded, of any
  version, is accepted by the encoder and decodes to the same invite again.\<close>

theorem invite_round_trip:
  "(EncodeInvite iv = Inr s \<longrightarrow> DecodeInvite s = (if iv_Coordinator iv = [] then Inl BadInviteLength
       else Inr (iv\<lparr>iv_SecretID := hex_encode (the (hex_decode (iv_SecretID iv)))\<rparr>)))
   \<and> (DecodeInvite s = Inr iv \<longrightarrow> (\<exists>s'. EncodeInvite iv = Inr s' \<and> DecodeInvite s' = Inr iv))"
  using decode_encoded encode_decoded by blast

definition demo_invite :: "string \<Rightarrow> invite" where
  "demo_invite coordinator =
     \<lparr>iv_Coordinator = coordinator, iv_SecretID = ''00112233445566AA'', iv_Secret = replicate 32 7, iv_PublicKey = replicate 32 1,
      iv_AdmissionKey = replicate 32 2, iv_CRL = [9, 9, 9]\<rparr>"

lemma demo_invite_encodes: "\<exists>s. EncodeInvite (demo_invite coordinator) = Inr s"
proof -
  have "hex_decode ''00112233445566AA'' = Some [0, 0x11, 0x22, 0x33, 0x44, 0x55, 0x66, 0xAA]" by code_simp
  then show ?thesis
    by (simp add: EncodeInvite_Inr demo_invite_def SecretIDLen_def SecretLen_def PublicKeySize_def maxCRLLen_def)
qed

theorem invite_round_trip_witness:
  "(\<exists>s. EncodeInvite (demo_invite ''192.0.2.1:443'') = Inr s
      \<and> DecodeInvite s = Inr ((demo_invite ''192.0.2.1:443'')\<lparr>iv_SecretID := ''00112233445566aa''\<rparr>))
   \<and> (\<exists>s. EncodeInvite (demo_invite []) = Inr s \<and> DecodeInvite s = Inl BadInviteLength)"
proof -
  have "hex_encode (the (hex_decode ''00112233445566AA'')) = ''00112233445566aa''" by code_simp
  then have ident: "hex_encode (the (hex_decode (iv_SecretID (demo_invite c)))) = ''00112233445566aa''" for c by (simp add: demo_invite_def)
  obtain s t where st: "EncodeInvite (demo_invite ''192.0.2.1:443'') = Inr s" "EncodeInvite (demo_invite []) = Inr t"
    using demo_invite_encodes by blast
  have "iv_Coordinator (demo_invite c) = c" for c by (simp add: demo_invite_def)
  with invite_round_trip [of "demo_invite ''192.0.2.1:443''" s] invite_round_trip [of "demo_invite []" t] st ident show ?thesis by simp
qed

end
