(* ===== verification/Spec2Isabelle.thy ===== *)
theory Spec2Isabelle
  imports Bootstrap Quota Pairing Revocation CountryDB Updater Dial Tunnel Invite
begin

text \<open>
  Verification library of Bacchus, a VPN mesh written in Go. A coordinator keeps a registry of
  exits and relays, hands signed directories to clients over a STUN look-alike, measures the
  capacity of nodes from attested reports, enforces a signed policy and pairs clients with exits.
  Nodes meter their own monthly traffic; clients bootstrap, connect and notice when they must
  update.

  \<^bold>\<open>Theories\<close>

  \<^item> \<open>Prelude\<close>: Go's integers, byte order, \<open>strings.Split\<close> and \<open>strconv.Atoi\<close>, with the
    collection \<open>go_simps\<close> that evaluates them. A \<open>uint64\<close> is a \<open>64 word\<close>; a Go \<open>int\<close> is an
    \<open>int\<close> where it cannot overflow and is wrapped by \<open>wrap64\<close> where it can; an instant is an
    integer number of nanoseconds, and \<open>time_sub\<close> saturates as \<open>Time.Sub\<close> does.
  \<^item> \<open>Hashes\<close>: CRC-32, SHA-1 and HMAC, computed, with their lengths.
  \<^item> \<open>Release\<close> (\<open>core/version\<close>, \<open>core/handshake\<close>, \<open>checkServingVersion\<close> of \<open>core/policy\<close>,
    \<open>checkRelease\<close> of \<open>core/update\<close>, the update latch of \<open>core/engine.go\<close>): parsing and printing
    are inverse, comparison is the lexicographic order although its subtraction wraps, strictly
    checked strings are canonical, and the latch trips exactly on a higher MAJOR.
  \<^item> \<open>Stun\<close> (\<open>core/coldstart/wire.go\<close>, \<open>binding.go\<close>): the encoder, the parser and their round
    trips, with MESSAGE-INTEGRITY and FINGERPRINT computed over the real bytes.
  \<^item> \<open>Bootstrap\<close> (\<open>snapshot.go\<close>, \<open>server.go\<close>, \<open>client.go\<close>, \<open>courier.go\<close>, \<open>demux.go\<close> of
    \<open>core/coldstart\<close>): a prober sees a plain STUN server, a secret holder obtains the signed
    directory if it fits one datagram, and nobody one that does not, a courier serves only fresh signed directories to clients holding an old one, and
    the demultiplexer splits the shared port without loss.
  \<^item> \<open>Invite\<close> (\<open>core/coldstart/secret.go\<close>): the text form of invites in its three versions; encoding and
    decoding are inverse, from both sides.
  \<^item> \<open>Capacity\<close> (\<open>core/capacity/limits.go\<close>, \<open>assign.go\<close>): the ranking arithmetic on words.
  \<^item> \<open>Calendar\<close>, \<open>Quota\<close> (\<open>core/capacity/quota.go\<close>): the Gregorian calendar behind the billing
    cycle; the counter with its checkpoint file; a step relation \<open>node_step\<close> in which concurrent
    streams check and charge, writes fail and the process crashes, between two operations or inside
    one, with its reachable states. Two ghost fields count what was really charged and the crashes
    in each cycle over all runs of the process; the bound on the overshoot is about the first.
  \<^item> \<open>Float64\<close>, \<open>Estimator\<close> (\<open>core/capacity/estimator.go\<close>): IEEE double rounding of the
    arithmetic the estimator does, and the estimator's bounds under any report sequence.
  \<^item> \<open>Rating\<close> (\<open>core/capacity/rating.go\<close>): the trusted and untrusted streams of a node and the
    store. The locale \<open>measured_rates\<close> states what ranking may rely on; \<open>rating_source\<close>
    interprets it on the store.
  \<^item> \<open>Delegation\<close> (\<open>core/delegation\<close>): domain-separated signatures and delegation certificates.
  \<^item> \<open>Policy\<close> (\<open>core/policy\<close>, \<open>cmd/coordinator/policy.go\<close>): the policy document, its verifier,
    the state file and the coordinator's refresh and restart, with the outcome of each write and
    read of that file and of the encoder, which refuses some bundles the decoder accepts. The locale
    \<open>floor_ratchet\<close> states which events keep a floor and that a kept floor forbids rollback;
    \<open>policy_memory\<close> interprets it on the floor of one process, for every event but a restart, and
    \<open>policy_disk\<close> on the floor on file, for restarts that can read it.
  \<^item> \<open>Text\<close>: \<open>strings.TrimSpace\<close>, prefixes, hexadecimal and base64, with their round trips.
  \<^item> \<open>Geoip\<close>, \<open>Country\<close> (\<open>Canonical\<close> of \<open>core/geoip\<close>, \<open>cmd/coordinator/geo.go\<close>): canonical country
    tags and the derivation of a node's country; with a required database no claim of the node
    reaches the published tag, and heartbeats do not move it.
  \<^item> \<open>Admission\<close> (\<open>core/admission\<close>): credentials, authority sets, revocation lists and bundles;
    exactly which credentials are admitted.
  \<^item> \<open>Device\<close> (\<open>core/devicecred\<close>, the challenge store of \<open>cmd/coordinator/devicecred.go\<close>): exactly
    which devices are admitted, and that a challenge serves one connect.
  \<^item> \<open>Accounting\<close> (\<open>core/accounting\<close>): receipts, their unambiguous bytes and the co-signing
    exchange.
  \<^item> \<open>Registry\<close>, \<open>Assign\<close> (types of \<open>cmd/coordinator/main.go\<close>, \<open>assign.go\<close>, \<open>tier.go\<close>, the gates of
    \<open>capacity_feed.go\<close>): the coordinator's state; the country list and the choice of an exit, which
    agree, the exact set of possible assignments, and the serving fence.
  \<^item> \<open>Coordinator\<close> (\<open>handle\<close>, \<open>prune\<close> and the sweeps of \<open>main.go\<close>, \<open>idempotency.go\<close>, \<open>hello.go\<close>, the
    device gate, the capacity feed): every datagram as one step of the state, with what it sends.
  \<^item> \<open>Netaddr\<close>, \<open>Tables\<close>, \<open>CountryDB\<close> (\<open>net/netip\<close>, \<open>core/asn\<close>, \<open>core/geoip\<close>): addresses and
    prefixes; the AS table and both formats of the country database, from the file rows to the
    binary probe. The locale \<open>span_table\<close> proves once that a probe of a validated table equals a
    scan of its rows; \<open>asn_spans\<close> and \<open>geo_spans\<close> interpret it.
  \<^item> \<open>Revocation\<close> (\<open>core/revocation\<close>, \<open>cmd/coordinator/revocations.go\<close>): signed revocation
    lists, their cache and the coordinator that installs them, on the interface \<open>floor_ratchet\<close>
    (\<open>rev_memory\<close>, \<open>rev_disk\<close>); what the list in force can be after a signed one was installed.
  \<^item> \<open>Manifest\<close>, \<open>Updater\<close> (\<open>core/atomicfile\<close>, \<open>core/update\<close>): atomic writes; release manifests,
    the state file, staging, applying with its crash points and with the staged file replaced
    between its verification and its rename, the start-up watchdog. The locale
    \<open>update_invariant\<close> carries an invariant over runs of the updater; \<open>sane\<close> (every installed byte
    was authorised, or written into that window) and \<open>floor_kept\<close> (no rollback) interpret it.
  \<^item> \<open>Selection\<close>, \<open>Pool\<close> (\<open>core/selection\<close>, \<open>core/pool.go\<close>, \<open>core/coordpool.go\<close>): the client's ladder
    of paths and its memory of what worked; the staggered race over the ladder as a step
    relation, with reselection when a path dies.
  \<^item> \<open>Chain\<close> (\<open>core/relaychain.go\<close>, selection): the signed directory of hops, the choice of the exit
    and of the peeling hops; a chain is as deep as asked and its reported diversity is true.
  \<^item> \<open>Forward\<close> (\<open>core/relaychain.go\<close>, hops): what an intermediate hop carries and refuses. The
    locale \<open>circuit_slots\<close> states what counting circuits per neighbour promises; \<open>forward_slots\<close>
    interprets it on the hop's table, which refines a bounded multiset.
  \<^item> \<open>E2E\<close> (\<open>core/e2e.go\<close>, \<open>core/udprelay.go\<close>, \<open>exitTerminate\<close> of \<open>core/forwarder.go\<close>): framing and
    delivery in order over ciphers taken as parameters, datagram frames, and what a node does with
    a target; only an exit dials outside the mesh.
  \<^item> \<open>Dial\<close> (\<open>core/exit_admission.go\<close>, the handshakes of \<open>core/e2e.go\<close>, dialing in
    \<open>core/relaychain.go\<close>): who is told a destination, who is blamed for a failure, and how far a
    chain is rebuilt.
  \<^item> \<open>Nft\<close> (\<open>cmd/bacchus-netd/nft.go\<close>): the transaction the kill switch sends and the rules it leaves, with
    the evaluation of a rule on a packet; exactly which packets leave a locked-down machine.
  \<^item> \<open>Netd\<close> (\<open>netdwire\<close>, \<open>server.go\<close>, \<open>dns.go\<close> and the routes of \<open>rtnetlink.go\<close> in \<open>cmd/bacchus-netd\<close>): the
    privileged helper of the Linux client, every request handler over a record of the kernel state,
    connections in any interleaving; when a lockdown can be lifted, and by whom it should not be.
  \<^item> \<open>Split\<close> (\<open>addrs.go\<close>, \<open>splittunnel.go\<close> of \<open>clients/internal/enforcement\<close>): the addresses kept off the
    tunnel and the bypass list with its domains, whose addresses are learned from DNS answers.
  \<^item> \<open>Poolroutes\<close> (\<open>poolroutes.go\<close>): a dial that reserves its underlay address while the tunnel comes up or
    goes down, one step per critical section. The locale \<open>late_addresses\<close> states what recording an
    address and arming a snapshot promise together; \<open>learned\<close> and \<open>pooled\<close> interpret it on the bypass
    policy and on the pool's excluder. No reserved or learned address is lost to the lockdown or
    left without its route, and the pool's routes go with the tunnel.
  \<^item> \<open>Tunnel\<close> (\<open>tunnel.go\<close>, \<open>osnet.go\<close>, \<open>osnet_linux.go\<close>): bring-up and teardown as the calls they make,
    for every answer of every call that can fail. What the calls do to the machine is the relation
    \<open>os_run\<close>: a call that succeeds takes effect, one that is refused or has no answer may have, in
    full, in part or not at all, and a given set of clean-ups may fail; the theorems bound what is left
    under all of these. The Linux primitives are round trips to the helper of \<open>Netd\<close>, in which a
    reply may come after the client gave up on it. What the client takes for a lockdown is one, unless
    a reply was late; and an arming that was done too late is not taken back.
  \<^item> \<open>Pairing\<close>: theorems over whole runs of that handler. The locale \<open>answer_table\<close> states what a
    table of answers promises; \<open>minted_table\<close> interprets it on the coordinator.

  \<^bold>\<open>Correspondence\<close>

  A struct is a record with the field names of the source behind a short prefix, a sentinel error
  is a constructor, a function returning \<open>(T, error)\<close> returns a sum with the error on the left,
  and a method that mutates its receiver returns the new record. A Go map that is only looked up
  is a function to \<open>option\<close>; one that is iterated is an association list, whose order stands for
  the iteration order. Mutexes are not modelled: each operation under a lock is one step, and
  interleavings are sequences of such steps.

  Parameters stand for code outside the repository: the Ed25519 signature check, the JSON
  decoders, \<open>math.Exp2\<close>, the Unicode case mapping beyond ASCII, address parsing of package
  \<open>net\<close>, the Noise library, random draws, the AS table embedded in the binary, and what a network read, a fetch or a file read returned
  (system-call outcomes, crash points and the records of the CSV reader included). A system call of the network helper
  is done, fails, or is done although it reports a failure; a Go panic ends the helper and leaves
  the kernel state. What nftables does with a transaction and a rule follows its documentation.
  The country and AS lookups of an address are parameters of the coordinator too. What a theorem needs of a
  parameter is a hypothesis of that theorem, and its witness instantiates it. A handler reads the
  clock once. All loops are structural or have a termination proof; no fuel is used.

  \<^bold>\<open>Not modelled\<close>

  Sockets, goroutine scheduling, logging, flag parsing and the data plane over WebRTC and QUIC,
  the byte encoding of netlink attributes, the Windows and macOS enforcement, which runs system
  tools, the packet pumps between the TUN device and the proxy, the desktop client and the vendored
  libraries. The sets a bring-up reads while other goroutines extend them are arguments of the
  bring-up, with the hypothesis that they only grow, which the steps of \<open>Poolroutes\<close> have.
  Next: the snapshot cache of \<open>core/coldstart\<close>, the connection state machine of the desktop client, the rate and size parsers, the
  coordinator's rendezvous service and directory builder, and the connect exchange of the client.
\<close>

end
